(* ===== verification/Prelude.thy ===== *)
theory Prelude
  imports
    Main
    "HOL-Library.Word"
    "HOL-Library.Char_ord"
    "HOL-Library.List_Lexorder"
    "HOL-Library.Product_Lexorder"
    "HOL-Library.Signed_Division"
begin

text \<open>
  What the components share: the parts of Rust and of its standard library the
  modelled code uses.

  \<^item> \<open>str\<close> and \<open>String\<close> are their UTF-8 bytes, a HOL \<^typ>\<open>string\<close>; a Rust
    \<open>char\<close> is represented by its own UTF-8 encoding, the type \<open>rchar\<close>, so that
    an ASCII character literal is a one-element string.
  \<^item> \<open>i64\<close> values are integers in the range \<open>in_i64\<close>; the \<open>checked_\<close> operations
    return \<open>None\<close> on overflow. \<open>usize\<close> values are natural numbers.
  \<^item> \<open>BTreeMap\<close> is an association list with strictly increasing keys, behind the
    locale \<open>ordered_map\<close>.
\<close>

section \<open>Collections of facts\<close>

named_theorems checked_simps \<open>unfolding of the checked integer operations\<close>

section \<open>Machine integers\<close>

definition i64_min :: int where "i64_min = - (2 ^ 63)"

definition i64_max :: int where "i64_max = 2 ^ 63 - 1"

definition in_i64 :: "int \<Rightarrow> bool" where
  "in_i64 x \<longleftrightarrow> i64_min \<le> x \<and> x \<le> i64_max"

definition checked :: "int \<Rightarrow> int option" where
  "checked x = (if in_i64 x then Some x else None)"

definition checked_add :: "int \<Rightarrow> int \<Rightarrow> int option" where
  "checked_add a b = checked (a + b)"

definition checked_sub :: "int \<Rightarrow> int \<Rightarrow> int option" where
  "checked_sub a b = checked (a - b)"

definition checked_mul :: "int \<Rightarrow> int \<Rightarrow> int option" where
  "checked_mul a b = checked (a * b)"

definition checked_neg :: "int \<Rightarrow> int option" where
  "checked_neg a = checked (- a)"

definition checked_div :: "int \<Rightarrow> int \<Rightarrow> int option" where
  "checked_div a b = (if b = 0 then None else checked (a sdiv b))"

definition checked_rem :: "int \<Rightarrow> int \<Rightarrow> int option" where
  "checked_rem a b = (if b = 0 \<or> (a = i64_min \<and> b = - 1) then None else Some (a smod b))"

definition checked_pow :: "int \<Rightarrow> nat \<Rightarrow> int option" where
  "checked_pow a n = checked (a ^ n)"

lemmas checked_defs = checked_add_def checked_sub_def checked_mul_def checked_neg_def
  checked_div_def checked_pow_def

lemma checked_SomeD [dest]: "checked x = Some y \<Longrightarrow> y = x \<and> in_i64 y"
  by (auto simp: checked_def split: if_splits)

lemma checked_eq_Some [checked_simps]: "checked x = Some y \<longleftrightarrow> y = x \<and> in_i64 x"
  by (auto simp: checked_def)

lemma in_i64_numerals [simp]: "in_i64 0" "in_i64 1" "in_i64 (- 1)"
  by (simp_all add: in_i64_def i64_min_def i64_max_def)

lemma in_i64_smod:
  assumes "in_i64 a" "in_i64 b" "b \<noteq> 0"
  shows "in_i64 (a smod b)"
proof -
  have "\<bar>a smod b\<bar> < \<bar>b\<bar>"
    using assms(3) by (simp add: signed_modulo_int_def abs_mult sgn_if)
  then show ?thesis using assms(2) by (auto simp: in_i64_def i64_min_def i64_max_def)
qed

lemma checked_rem_SomeD:
  assumes "checked_rem a b = Some c" "in_i64 a" "in_i64 b"
  shows "c = a smod b \<and> in_i64 c \<and> b \<noteq> 0"
  using assms in_i64_smod by (auto simp: checked_rem_def split: if_splits)

section \<open>Folds that may fail\<close>

lemma fold_strict_None: "(\<And>x. f x None = None) \<Longrightarrow> fold f xs None = None"
  by (induction xs) auto

lemma fold_option_ConsE:
  assumes "fold f (x # xs) (Some s) = Some r" "\<And>x. f x None = None"
  obtains s' where "f x (Some s) = Some s'" "fold f xs (Some s') = Some r"
  using assms by (cases "f x (Some s)") (auto simp: fold_strict_None)

section \<open>Growing states\<close>

text \<open>Several components thread a state that only grows: the lexer's cursor and reports, the
  interner of dimension polynomials, the resolver's table of locals. The interface of such a
  growth order, and what iteration over a list preserves.\<close>

locale growth =
  fixes grows :: "'s \<Rightarrow> 's \<Rightarrow> bool"
  assumes grows_refl: "grows s s"
    and grows_trans: "grows s t \<Longrightarrow> grows t u \<Longrightarrow> grows s u"
begin

lemma grows_fold:
  "(\<And>x s. x \<in> set xs \<Longrightarrow> grows s (f x s)) \<Longrightarrow> grows s (fold f xs s)"
proof (induction xs arbitrary: s)
  case Nil
  show ?case by (simp add: grows_refl)
next
  case (Cons x xs)
  have "grows s (f x s)" by (rule Cons.prems) simp
  moreover have "grows (f x s) (fold f xs (f x s))" by (rule Cons.IH) (simp add: Cons.prems)
  ultimately show ?case by (auto intro: grows_trans)
qed

lemma grows_trans3: "grows s t \<Longrightarrow> grows t u \<Longrightarrow> grows u v \<Longrightarrow> grows s v"
  by (blast intro: grows_trans)

end

section \<open>Association lists with increasing keys: BTreeMap\<close>

text \<open>The interface of an ordered map: what a client may rely on.\<close>

locale ordered_map =
  fixes invar :: "'m \<Rightarrow> bool"
    and lookup :: "'m \<Rightarrow> 'k::linorder \<Rightarrow> 'v option"
    and insert_kv :: "'k \<Rightarrow> 'v \<Rightarrow> 'm \<Rightarrow> 'm"
    and remove_k :: "'k \<Rightarrow> 'm \<Rightarrow> 'm"
    and entries :: "'m \<Rightarrow> ('k \<times> 'v) list"
  assumes lookup_insert: "invar m \<Longrightarrow> lookup (insert_kv k v m) = (lookup m)(k \<mapsto> v)"
    and lookup_remove: "invar m \<Longrightarrow> lookup (remove_k k m) = (lookup m)(k := None)"
    and lookup_entries: "invar m \<Longrightarrow> lookup m = map_of (entries m)"
    and sorted_entries: "invar m \<Longrightarrow> sorted_wrt (<) (map fst (entries m))"
    and invar_insert: "invar m \<Longrightarrow> invar (insert_kv k v m)"
    and invar_remove: "invar m \<Longrightarrow> invar (remove_k k m)"
begin

lemma distinct_keys: "invar m \<Longrightarrow> distinct (map fst (entries m))"
  using sorted_entries strict_sorted_iff by blast

lemma entries_iff: "invar m \<Longrightarrow> (k, v) \<in> set (entries m) \<longleftrightarrow> lookup m k = Some v"
  using distinct_keys lookup_entries by (metis map_of_eq_Some_iff)

lemma entries_determined:
  assumes "invar m" "invar n" "lookup m = lookup n"
  shows "entries m = entries n"
proof -
  have "set (entries m) = set (entries n)"
    using assms entries_iff by (metis subrelI subset_antisym)
  then have "set (map fst (entries m)) = set (map fst (entries n))"
    by simp
  then have keys: "map fst (entries m) = map fst (entries n)"
    using assms sorted_entries by (meson strict_sorted_equal)
  have "snd (entries m ! i) = snd (entries n ! i)" if i: "i < length (entries m)" for i
  proof -
    have len: "length (entries m) = length (entries n)" using keys map_eq_imp_length_eq by blast
    have fsts: "fst (entries m ! i) = fst (entries n ! i)"
      using keys i len by (metis nth_map)
    have "entries m ! i \<in> set (entries n)"
      using i \<open>set (entries m) = set (entries n)\<close> nth_mem by blast
    moreover have "entries n ! i \<in> set (entries n)" using i len by simp
    ultimately show ?thesis
      using distinct_keys [OF assms(2)] fsts by (metis eq_key_imp_eq_value prod.collapse)
  qed
  then have "map snd (entries m) = map snd (entries n)"
    using keys by (metis (no_types, lifting) length_map nth_equalityI nth_map)
  with keys show ?thesis by (metis zip_map_fst_snd)
qed

end

fun bt_insert :: "'k::linorder \<Rightarrow> 'v \<Rightarrow> ('k \<times> 'v) list \<Rightarrow> ('k \<times> 'v) list" where
  "bt_insert k v [] = [(k, v)]"
| "bt_insert k v ((a, b) # m) =
     (if k < a then (k, v) # (a, b) # m
      else if k = a then (k, v) # m
      else (a, b) # bt_insert k v m)"

fun bt_remove :: "'k::linorder \<Rightarrow> ('k \<times> 'v) list \<Rightarrow> ('k \<times> 'v) list" where
  "bt_remove k [] = []"
| "bt_remove k ((a, b) # m) = (if k = a then m else (a, b) # bt_remove k m)"

abbreviation bt_invar :: "('k::linorder \<times> 'v) list \<Rightarrow> bool" where
  "bt_invar m \<equiv> sorted_wrt (<) (map fst m)"

lemma map_of_bt_insert: "map_of (bt_insert k v m) = (map_of m)(k \<mapsto> v)"
  by (induction m) (auto simp: fun_eq_iff)

lemma bt_invar_NoneI: "bt_invar ((a, b) # m) \<Longrightarrow> k \<le> a \<Longrightarrow> map_of m k = None"
  by (induction m) auto

lemma map_of_bt_remove: "bt_invar m \<Longrightarrow> map_of (bt_remove k m) = (map_of m)(k := None)"
proof (induction m)
  case (Cons p m)
  obtain a b where p: "p = (a, b)" by (cases p)
  show ?case
  proof (cases "k = a")
    case True
    then show ?thesis using Cons.prems p bt_invar_NoneI [of a b m a] by (auto simp: fun_eq_iff)
  next
    case False
    then show ?thesis using Cons p by (auto simp: fun_eq_iff)
  qed
qed simp

lemma keys_bt_insert: "fst ` set (bt_insert k v m) = insert k (fst ` set m)"
  by (simp add: map_of_bt_insert flip: dom_map_of_conv_image_fst)

lemma keys_bt_remove: "fst ` set (bt_remove k m) \<subseteq> fst ` set m"
proof (induction m)
  case (Cons p m)
  then show ?case by (cases p) (simp add: subset_insertI2)
qed simp

lemma bt_invar_insert: "bt_invar m \<Longrightarrow> bt_invar (bt_insert k v m)"
proof (induction m)
  case (Cons p m)
  obtain a b where p: "p = (a, b)" by (cases p)
  have keys: "set (map fst (bt_insert k v m)) = insert k (set (map fst m))"
    using keys_bt_insert [of k v m] by simp
  show ?case using Cons p keys by auto
qed simp

lemma bt_invar_remove: "bt_invar m \<Longrightarrow> bt_invar (bt_remove k m)"
proof (induction m)
  case (Cons p m)
  obtain a b where p: "p = (a, b)" by (cases p)
  show ?case using Cons p keys_bt_remove [of k m] by fastforce
qed simp

interpretation bt: ordered_map bt_invar map_of bt_insert bt_remove "\<lambda>m. m"
  by unfold_locales
    (auto simp: map_of_bt_insert map_of_bt_remove intro: bt_invar_insert bt_invar_remove)

section \<open>Text\<close>

lemma drop_take_drop: "a \<le> b \<Longrightarrow> drop a (take b xs) @ drop b xs = drop a xs"
  by (metis append_take_drop_id drop_drop drop_take le_add_diff_inverse2)

type_synonym rchar = string

text \<open>The width of the character a UTF-8 lead byte starts. A continuation byte starts no
  character of a valid \<open>str\<close>; it is given width 1.\<close>

definition utf8_width :: "char \<Rightarrow> nat" where
  "utf8_width b = (let n = (of_char b :: nat) in
     if n < 192 then 1 else if n < 224 then 2 else if n < 240 then 3 else 4)"

lemma utf8_width_pos [simp]: "0 < utf8_width b"
  by (simp add: utf8_width_def Let_def)

text \<open>\<open>s.chars().next()\<close>\<close>

definition next_char :: "string \<Rightarrow> rchar option" where
  "next_char s = (case s of [] \<Rightarrow> None | b # _ \<Rightarrow> Some (take (utf8_width b) s))"

lemma next_char_None [simp]: "next_char s = None \<longleftrightarrow> s = []"
  by (simp add: next_char_def split: list.splits)

lemma next_char_prefix: "next_char s = Some c \<Longrightarrow> s = c @ drop (length c) s"
proof -
  assume c: "next_char s = Some c"
  then obtain n where "c = take n s" by (auto simp: next_char_def split: list.splits)
  then show ?thesis by (metis append_eq_conv_conj append_take_drop_id)
qed

lemma next_char_length: "next_char s = Some c \<Longrightarrow> 0 < length c \<and> length c \<le> length s"
  using utf8_width_pos by (auto simp: next_char_def simp del: utf8_width_pos split: list.splits) (metis less_irrefl)

text \<open>\<open>s.chars()\<close>\<close>

function chars :: "string \<Rightarrow> rchar list" where
  "chars s = (case next_char s of None \<Rightarrow> [] | Some c \<Rightarrow> c # chars (drop (length c) s))"
  by pat_completeness auto
termination
proof (relation "measure length")
  fix s c assume "next_char s = Some c"
  then show "(drop (length c) s, s) \<in> measure length"
    using next_char_length [of s c] by (simp del: length_greater_0_conv)
qed simp

declare chars.simps [simp del]

lemma chars_Nil [simp]: "chars [] = []"
  by (simp add: chars.simps next_char_def)

lemma chars_step: "next_char s = Some c \<Longrightarrow> chars s = c # chars (drop (length c) s)"
  by (simp add: chars.simps [of s])

lemma concat_chars [simp]: "concat (chars s) = s"
proof (induction s rule: chars.induct)
  case (1 s)
  show ?case
    using "1" next_char_prefix [of s] by (cases "next_char s") (auto simp: chars_step)
qed

text \<open>A well-formed character is a lead byte followed by as many continuation bytes as it
  announces; a \<open>str\<close> is a sequence of them.\<close>

definition is_continuation :: "char \<Rightarrow> bool" where
  "is_continuation b \<longleftrightarrow> (let n = (of_char b :: nat) in 128 \<le> n \<and> n < 192)"

definition wf_char :: "rchar \<Rightarrow> bool" where
  "wf_char c = (case c of [] \<Rightarrow> False
     | b # bs \<Rightarrow> \<not> is_continuation b \<and> length c = utf8_width b \<and> list_all is_continuation bs)"

definition valid_utf8 :: "string \<Rightarrow> bool" where
  "valid_utf8 s \<longleftrightarrow> list_all wf_char (chars s)"

text \<open>\<open>s.is_char_boundary(i)\<close>\<close>

definition is_char_boundary :: "string \<Rightarrow> nat \<Rightarrow> bool" where
  "is_char_boundary s i \<longleftrightarrow>
     i = 0 \<or> i = length s \<or> (i < length s \<and> \<not> is_continuation (s ! i))"

lemma wf_char_nonempty: "wf_char c \<Longrightarrow> c \<noteq> []"
  by (auto simp: wf_char_def)

lemma next_char_wf_append:
  assumes "wf_char c"
  shows "next_char (c @ s) = Some c"
proof -
  obtain b bs where c: "c = b # bs" "length c = utf8_width b"
    using assms by (auto simp: wf_char_def split: list.splits)
  have "take (utf8_width b) (c @ s) = c" by (simp flip: c(2))
  with c(1) show ?thesis by (simp add: next_char_def)
qed

lemma chars_wf_append: "wf_char c \<Longrightarrow> chars (c @ s) = c # chars s"
  by (simp add: chars_step [OF next_char_wf_append])

lemma chars_concat: "list_all wf_char cs \<Longrightarrow> chars (concat cs @ s) = cs @ chars s"
  by (induction cs) (simp_all add: chars_wf_append)

lemma chars_concat' [simp]: "list_all wf_char cs \<Longrightarrow> chars (concat cs) = cs"
  using chars_concat [of cs "[]"] by simp

lemma wf_char_inner: "wf_char c \<Longrightarrow> 0 < i \<Longrightarrow> i < length c \<Longrightarrow> is_continuation (c ! i)"
  by (auto simp: wf_char_def list_all_length nth_Cons' split: list.splits)

text \<open>A character boundary splits a \<open>str\<close> between two of its characters.\<close>

lemma boundary_split:
  assumes "list_all wf_char cs" "is_char_boundary (concat cs) i" "i \<le> length (concat cs)"
  shows "\<exists>ds es. cs = ds @ es \<and> concat ds = take i (concat cs)"
  using assms
proof (induction cs arbitrary: i)
  case Nil
  then show ?case by simp
next
  case (Cons c cs)
  show ?case
  proof (cases "i < length c")
    case True
    have "i = 0"
    proof (rule ccontr)
      assume "i \<noteq> 0"
      then have "is_continuation ((c @ concat cs) ! i)"
        using Cons.prems(1) True wf_char_inner by (simp add: nth_append)
      then show False using Cons.prems(2) True \<open>i \<noteq> 0\<close> by (auto simp: is_char_boundary_def)
    qed
    then show ?thesis by (intro exI [of _ "[]"] exI [of _ "c # cs"]) simp
  next
    case False
    let ?j = "i - length c"
    have "is_char_boundary (concat cs) ?j"
      using Cons.prems(2,3) False by (auto simp: is_char_boundary_def nth_append)
    moreover have "?j \<le> length (concat cs)" using Cons.prems(3) False by simp
    moreover have "list_all wf_char cs" using Cons.prems(1) by simp
    ultimately obtain ds es where "cs = ds @ es" "concat ds = take ?j (concat cs)"
      using Cons.IH [of ?j] by blast
    then show ?thesis
      using False by (intro exI [of _ "c # ds"] exI [of _ es]) simp
  qed
qed

text \<open>Evaluation of the character functions on a closed string.\<close>

lemmas utf8_eval = chars.simps next_char_def utf8_width_def wf_char_def is_continuation_def
  valid_utf8_def is_char_boundary_def

text \<open>Decimal printing of a natural number, as \<open>to_string\<close> prints it.\<close>

definition digit_char :: "nat \<Rightarrow> char" where
  "digit_char d = char_of (48 + d)"

fun nat_string :: "nat \<Rightarrow> string" where
  "nat_string n = (if n < 10 then [digit_char n] else nat_string (n div 10) @ [digit_char (n mod 10)])"

declare nat_string.simps [simp del]

definition int_string :: "int \<Rightarrow> string" where
  "int_string x = (if x < 0 then ''-'' @ nat_string (nat (- x)) else nat_string (nat x))"

definition is_ascii_digit :: "rchar \<Rightarrow> bool" where
  "is_ascii_digit c = (case c of [b] \<Rightarrow> CHR ''0'' \<le> b \<and> b \<le> CHR ''9'' | _ \<Rightarrow> False)"

definition is_ascii_alphabetic :: "rchar \<Rightarrow> bool" where
  "is_ascii_alphabetic c = (case c of
     [b] \<Rightarrow> (CHR ''a'' \<le> b \<and> b \<le> CHR ''z'') \<or> (CHR ''A'' \<le> b \<and> b \<le> CHR ''Z'')
   | _ \<Rightarrow> False)"

definition is_ascii_alphanumeric :: "rchar \<Rightarrow> bool" where
  "is_ascii_alphanumeric c \<longleftrightarrow> is_ascii_alphabetic c \<or> is_ascii_digit c"

text \<open>Rust's ASCII whitespace: space, tab, line feed, form feed, carriage return.\<close>

definition is_ascii_whitespace :: "rchar \<Rightarrow> bool" where
  "is_ascii_whitespace c \<longleftrightarrow>
     c \<in> {'' '', [CHR 0x09], [CHR 0x0A], [CHR 0x0C], [CHR 0x0D]}"

section \<open>Sizes of lists\<close>

lemma size_list_less: "x \<in> set xs \<Longrightarrow> f x < size_list f xs"
  by (induction xs) auto

end
