(* ===== verification/Span.thy ===== *)
theory Span
  imports Prelude
begin

text \<open>
  The crate \<open>paco-span\<close>: file ids, byte spans and the source map
  (\<open>compiler/paco-span/src/lib.rs\<close>), and the line-indexed \<open>SourceLocator\<close> of the code
  generators (\<open>compiler/paco-mir/src/backend.rs\<close>). The two compute the same line and
  column; the second caches the line starts of each file.
\<close>

section \<open>File ids and spans\<close>

datatype file_id = FileId (file_id_raw: "32 word")

definition file_id_root :: file_id where
  "file_id_root = FileId 0"

definition file_id_new :: "32 word \<Rightarrow> file_id" where
  "file_id_new index = FileId index"

definition file_id_index :: "file_id \<Rightarrow> nat" where
  "file_id_index f = unat (file_id_raw f)"

text \<open>The derived \<open>Ord\<close> of a file id is the order of its index.\<close>

instantiation file_id :: linorder
begin

definition less_eq_file_id :: "file_id \<Rightarrow> file_id \<Rightarrow> bool" where
  "less_eq_file_id f g \<longleftrightarrow> file_id_raw f \<le> file_id_raw g"

definition less_file_id :: "file_id \<Rightarrow> file_id \<Rightarrow> bool" where
  "less_file_id f g \<longleftrightarrow> file_id_raw f < file_id_raw g"

instance
  by standard (auto simp: less_eq_file_id_def less_file_id_def file_id.expand)

end

record span =
  span_file_id :: file_id
  span_start :: nat
  span_end :: nat

definition span_new :: "file_id \<Rightarrow> nat \<Rightarrow> nat \<Rightarrow> span" where
  "span_new f s e = \<lparr>span_file_id = f, span_start = s, span_end = e\<rparr>"

definition span_new_root :: "nat \<Rightarrow> nat \<Rightarrow> span" where
  "span_new_root s e = span_new file_id_root s e"

definition span_is_empty :: "span \<Rightarrow> bool" where
  "span_is_empty sp \<longleftrightarrow> span_start sp = span_end sp"

lemma span_new_sel [simp]:
  "span_file_id (span_new f s e) = f" "span_start (span_new f s e) = s"
  "span_end (span_new f s e) = e"
  by (simp_all add: span_new_def)

section \<open>Source map\<close>

record line_column_pos =
  lc_line :: nat
  lc_column :: nat

record location =
  loc_file_id :: file_id
  loc_file_name :: string
  loc_start :: line_column_pos
  loc_end :: line_column_pos

datatype source_map_error =
    UnknownFile file_id
  | InvalidSpan (inv_start: nat) (inv_end: nat) (inv_len: nat)

definition source_map_error_display :: "source_map_error \<Rightarrow> string" where
  "source_map_error_display e = (case e of
     UnknownFile f \<Rightarrow> ''unknown file id '' @ nat_string (file_id_index f)
   | InvalidSpan s t len \<Rightarrow> ''invalid span '' @ nat_string s @ ''..'' @ nat_string t
       @ '' for source length '' @ nat_string len)"

record source_file =
  sf_name :: string
  sf_text :: string

record source_map =
  sm_files :: "source_file list"

definition source_map_new :: source_map where
  "source_map_new = \<lparr>sm_files = []\<rparr>"

definition add_file :: "source_map \<Rightarrow> string \<Rightarrow> string \<Rightarrow> file_id \<times> source_map" where
  "add_file m name text =
     (file_id_new (word_of_nat (length (sm_files m))),
      m\<lparr>sm_files := sm_files m @ [\<lparr>sf_name = name, sf_text = text\<rparr>]\<rparr>)"

text \<open>\<open>Vec::get\<close>\<close>

definition vec_get :: "'a list \<Rightarrow> nat \<Rightarrow> 'a option" where
  "vec_get xs i = (if i < length xs then Some (xs ! i) else None)"

definition source :: "source_map \<Rightarrow> file_id \<Rightarrow> string option" where
  "source m f = map_option sf_text (vec_get (sm_files m) (file_id_index f))"

definition file_name :: "source_map \<Rightarrow> file_id \<Rightarrow> string option" where
  "file_name m f = map_option sf_name (vec_get (sm_files m) (file_id_index f))"

text \<open>The loop of \<open>line_column\<close> over \<open>source.char_indices()\<close>: \<open>index\<close> is the byte offset of
  the next character.\<close>

fun line_column_loop :: "nat \<Rightarrow> nat \<Rightarrow> rchar list \<Rightarrow> nat \<Rightarrow> nat \<Rightarrow> line_column_pos" where
  "line_column_loop offset index [] line column = \<lparr>lc_line = line, lc_column = column\<rparr>"
| "line_column_loop offset index (ch # chs) line column =
     (if index \<ge> offset then \<lparr>lc_line = line, lc_column = column\<rparr>
      else if ch = [CHR 0x0A]
      then line_column_loop offset (index + length ch) chs (line + 1) 1
      else line_column_loop offset (index + length ch) chs line (column + 1))"

definition line_column :: "string \<Rightarrow> nat \<Rightarrow> line_column_pos" where
  "line_column text offset = line_column_loop offset 0 (chars text) 1 1"

definition location_of :: "source_map \<Rightarrow> span \<Rightarrow> source_map_error + location" where
  "location_of m sp = (case vec_get (sm_files m) (file_id_index (span_file_id sp)) of
     None \<Rightarrow> Inl (UnknownFile (span_file_id sp))
   | Some file \<Rightarrow>
       (let len = length (sf_text file) in
        if span_start sp > span_end sp \<or> span_end sp > len
        then Inl (InvalidSpan (span_start sp) (span_end sp) len)
        else Inr \<lparr>loc_file_id = span_file_id sp, loc_file_name = sf_name file,
                  loc_start = line_column (sf_text file) (span_start sp),
                  loc_end = line_column (sf_text file) (span_end sp)\<rparr>))"

section \<open>Locating spans through a line index\<close>

text \<open>\<open>std::iter::once(0).chain(text.match_indices(newline).map(|(index, _)| index + 1))\<close>\<close>

definition line_starts :: "string \<Rightarrow> nat list" where
  "line_starts text =
     0 # map Suc (filter (\<lambda>i. text ! i = CHR 0x0A) [0..<length text])"

text \<open>\<open>partition_point\<close> of a slice that its predicate partitions.\<close>

definition partition_point :: "('a \<Rightarrow> bool) \<Rightarrow> 'a list \<Rightarrow> nat" where
  "partition_point p xs = length (takeWhile p xs)"

text \<open>\<open>text.get(a..b)\<close>\<close>

definition str_get :: "string \<Rightarrow> nat \<Rightarrow> nat \<Rightarrow> string option" where
  "str_get text a b =
     (if a \<le> b \<and> b \<le> length text \<and> is_char_boundary text a \<and> is_char_boundary text b
      then Some (drop a (take b text)) else None)"

record source_locator =
  sl_sources :: source_map
  sl_lines :: "file_id \<rightharpoonup> nat list"

definition source_locator_new :: "source_map \<Rightarrow> source_locator" where
  "source_locator_new m = \<lparr>sl_sources = m, sl_lines = Map.empty\<rparr>"

definition locate :: "source_locator \<Rightarrow> span
    \<Rightarrow> (string \<times> 32 word \<times> 32 word) option \<times> source_locator" where
  "locate l sp = (let file = span_file_id sp in
     case source (sl_sources l) file of None \<Rightarrow> (None, l)
     | Some text \<Rightarrow>
       (case file_name (sl_sources l) file of None \<Rightarrow> (None, l)
        | Some name \<Rightarrow>
          (let starts = (case sl_lines l file of Some ss \<Rightarrow> ss | None \<Rightarrow> line_starts text);
               l' = l\<lparr>sl_lines := (sl_lines l)(file \<mapsto> starts)\<rparr>;
               offset = min (span_start sp) (length text);
               line = partition_point (\<lambda>start. start \<le> offset) starts
           in (case str_get text (starts ! (line - 1)) offset of
                 None \<Rightarrow> (None, l')
               | Some s \<Rightarrow>
                   (Some (name, word_of_nat line, word_of_nat (length (chars s) + 1)), l')))))"

section \<open>Properties of the source map\<close>

lemma vec_get_append:
  "vec_get (xs @ ys) i = (if i < length xs then vec_get xs i else vec_get ys (i - length xs))"
  by (auto simp: vec_get_def nth_append)

text \<open>A file added to the source map is found again under the id \<open>add_file\<close> returned, with
  the name and text it was added with, and every file added before it keeps its name and text,
  as long as the map holds fewer than \<open>2^32\<close> files (beyond that the id wraps around).\<close>

theorem add_file_lookup:
  assumes "length (sm_files m) < 2 ^ 32"
  shows "add_file m name text = (f, m') \<Longrightarrow>
     source m' f = Some text \<and> file_name m' f = Some name \<and> source m f = None \<and>
     (\<forall>g. source m g \<noteq> None \<longrightarrow> source m' g = source m g \<and> file_name m' g = file_name m g)"
  using assms
  by (auto simp: add_file_def source_def file_name_def file_id_index_def file_id_new_def
      vec_get_append vec_get_def unat_of_nat take_bit_eq_mod nth_append)

theorem add_file_lookup_witness:
  "source (snd (add_file source_map_new ''main.paco'' ''fn main() {}''))
     (fst (add_file source_map_new ''main.paco'' ''fn main() {}'')) = Some ''fn main() {}''"
  using add_file_lookup [of source_map_new "''main.paco''" "''fn main() {}''"]
  by (simp add: source_map_new_def)

text \<open>What the loop computes on the characters before the offset: the line is one more than the
  number of line feeds, the column one more than the number of characters after the last one.\<close>

fun advance_lc :: "rchar \<Rightarrow> nat \<times> nat \<Rightarrow> nat \<times> nat" where
  "advance_lc ch (line, column) =
     (if ch = [CHR 0x0A] then (line + 1, 1) else (line, column + 1))"

lemma line_column_loop_prefix:
  assumes "list_all wf_char ds" "offset = index + length (concat ds)"
  shows "line_column_loop offset index (ds @ es) line column =
     (case fold advance_lc ds (line, column) of (l, c) \<Rightarrow> \<lparr>lc_line = l, lc_column = c\<rparr>)"
  using assms
proof (induction ds arbitrary: index line column)
  case Nil
  then show ?case by (cases es) simp_all
next
  case (Cons d ds)
  then have "d \<noteq> []" by (auto dest: wf_char_nonempty)
  with Cons.prems have less: "index < offset" by auto
  have off: "offset = index + length d + length (concat ds)" using Cons.prems(2) by simp
  show ?case
    using less Cons.IH [OF _ off] Cons.prems(1) by auto
qed

lemma wf_char_newline_free:
  assumes "wf_char c" "c \<noteq> [CHR 0x0A]"
  shows "CHR 0x0A \<notin> set c"
proof
  assume "CHR 0x0A \<in> set c"
  then obtain i where i: "i < length c" "c ! i = CHR 0x0A" by (metis in_set_conv_nth)
  have "\<not> is_continuation (CHR 0x0A)" by (simp add: is_continuation_def)
  with i assms(1) have "i = 0" using wf_char_inner by fastforce
  with i obtain cs where "c = CHR 0x0A # cs" by (cases c) auto
  then show False using assms by (simp add: wf_char_def utf8_width_def Let_def)
qed

lemma line_starts_snoc_newline:
  "line_starts (p @ [CHR 0x0A]) = line_starts p @ [length p + 1]"
proof -
  have "filter (\<lambda>i. (p @ [CHR 0x0A]) ! i = CHR 0x0A) [0..<length p]
      = filter (\<lambda>i. p ! i = CHR 0x0A) [0..<length p]"
    by (rule filter_cong) (auto simp: nth_append)
  then show ?thesis by (simp add: line_starts_def)
qed

lemma line_starts_append_free:
  assumes "CHR 0x0A \<notin> set c"
  shows "line_starts (p @ c) = line_starts p"
proof -
  have "filter (\<lambda>i. (p @ c) ! i = CHR 0x0A) [0..<length p + length c]
      = filter (\<lambda>i. p ! i = CHR 0x0A) [0..<length p]
        @ filter (\<lambda>i. (p @ c) ! i = CHR 0x0A) [length p..<length p + length c]"
    by (subst upt_add_eq_append) (auto simp: nth_append intro!: filter_cong)
  moreover have "filter (\<lambda>i. (p @ c) ! i = CHR 0x0A) [length p..<length p + length c] = []"
    using assms by (auto simp: filter_empty_conv nth_append in_set_conv_nth)
  ultimately show ?thesis by (simp add: line_starts_def)
qed

text \<open>The line index of a prefix tells the line, and its last entry where that line starts.\<close>

lemma line_starts_fold:
  assumes "list_all wf_char ds"
  shows "\<exists>es. list_all wf_char es \<and> last (line_starts (concat ds)) \<le> length (concat ds) \<and>
     (\<exists>bs. ds = bs @ es \<and> length (concat bs) = last (line_starts (concat ds))) \<and>
     fold advance_lc ds (1, 1) = (length (line_starts (concat ds)), length es + 1)"
  using assms
proof (induction ds rule: rev_induct)
  case Nil
  show ?case by (auto simp: line_starts_def)
next
  case (snoc d ds)
  then obtain es bs where IH: "list_all wf_char es" "ds = bs @ es"
      "length (concat bs) = last (line_starts (concat ds))"
      "last (line_starts (concat ds)) \<le> length (concat ds)"
      "fold advance_lc ds (1, 1) = (length (line_starts (concat ds)), length es + 1)"
    by auto
  show ?case
  proof (cases "d = [CHR 0x0A]")
    case True
    then show ?thesis
      using IH(5) line_starts_snoc_newline [of "concat ds"] by (intro exI [of _ "[]"]) simp
  next
    case False
    then have "line_starts (concat ds @ d) = line_starts (concat ds)"
      using snoc.prems wf_char_newline_free line_starts_append_free by simp
    then show ?thesis
      using IH False snoc.prems by (intro exI [of _ "es @ [d]"]) auto
  qed
qed

lemma line_starts_sorted: "sorted (line_starts text)"
  by (auto simp: line_starts_def sorted_map sorted_wrt_filter sorted_wrt_upt)

lemma takeWhile_none: "(\<And>x. x \<in> set xs \<Longrightarrow> \<not> p x) \<Longrightarrow> takeWhile p xs = []"
  by (cases xs) auto

lemma boundary_append:
  "ys = [] \<or> \<not> is_continuation (hd ys) \<Longrightarrow> is_char_boundary (xs @ ys) (length xs)"
  by (auto simp: is_char_boundary_def nth_append hd_conv_nth)

text \<open>Only the line starts inside a prefix are at most its length.\<close>

lemma takeWhile_line_starts:
  assumes "i \<le> length text"
  shows "takeWhile (\<lambda>s. s \<le> i) (line_starts text) = line_starts (take i text)"
proof -
  let ?P = "\<lambda>j. text ! j = CHR 0x0A"
  have upto: "[0..<length text] = [0..<i] @ [i..<length text]"
    using assms by (metis le_add_diff_inverse upt_add_eq_append zero_le)
  have "filter (\<lambda>j. take i text ! j = CHR 0x0A) [0..<i] = filter ?P [0..<i]"
    by (rule filter_cong) auto
  then have pre: "line_starts (take i text) = 0 # map Suc (filter ?P [0..<i])"
    using assms by (simp add: line_starts_def min_absorb2)
  have "takeWhile (\<lambda>s. s \<le> i) (map Suc (filter ?P [0..<i]) @ map Suc (filter ?P [i..<length text]))
      = map Suc (filter ?P [0..<i]) @ takeWhile (\<lambda>s. s \<le> i) (map Suc (filter ?P [i..<length text]))"
    by (rule takeWhile_append2) auto
  also have "takeWhile (\<lambda>s. s \<le> i) (map Suc (filter ?P [i..<length text])) = []"
    by (rule takeWhile_none) auto
  finally show ?thesis by (simp add: line_starts_def [of "text"] upto pre)
qed

definition locator_invar :: "source_locator \<Rightarrow> bool" where
  "locator_invar l \<longleftrightarrow> (\<forall>f ss text.
     sl_lines l f = Some ss \<longrightarrow> source (sl_sources l) f = Some text \<longrightarrow> ss = line_starts text)"

lemma locator_invar_new: "locator_invar (source_locator_new m)"
  by (simp add: locator_invar_def source_locator_new_def)

lemma locate_invar:
  assumes "locator_invar l"
  shows "locator_invar (snd (locate l sp))" "sl_sources (snd (locate l sp)) = sl_sources l"
  using assms
  by (auto simp: locate_def locator_invar_def Let_def split: option.splits if_splits)

lemma line_column_boundary:
  assumes "valid_utf8 text" "is_char_boundary text i" "i \<le> length text"
  shows "\<exists>s. str_get text (last (line_starts (take i text))) i = Some s \<and>
     line_column text i = \<lparr>lc_line = length (line_starts (take i text)),
                           lc_column = length (chars s) + 1\<rparr>"
proof -
  have wf: "list_all wf_char (chars text)" using assms(1) by (simp add: valid_utf8_def)
  then obtain ds gs where ds: "chars text = ds @ gs" "concat ds = take i text"
    using boundary_split [of "chars text" i] assms by auto
  have wfd: "list_all wf_char ds" "list_all wf_char gs" using wf ds by simp_all
  obtain es bs where es: "list_all wf_char es" "ds = bs @ es"
      "length (concat bs) = last (line_starts (take i text))"
      "fold advance_lc ds (1, 1) = (length (line_starts (take i text)), length es + 1)"
    using line_starts_fold [OF wfd(1)] ds(2) by metis
  let ?a = "last (line_starts (take i text))"
  have slice: "drop ?a (take i text) = concat es"
    using es ds(2) by (metis append_eq_conv_conj concat_append)
  have "text = concat bs @ concat (es @ gs)"
    using ds es by (metis append.assoc concat_append concat_chars)
  moreover have "concat (es @ gs) = [] \<or> \<not> is_continuation (hd (concat (es @ gs)))"
  proof (cases "es @ gs")
    case (Cons g rest)
    then have "wf_char g" using es(1) wfd(2) by (metis list_all_append list_all_Cons_iff)
    then show ?thesis using Cons by (auto simp: wf_char_def split: list.splits)
  qed simp
  ultimately have "is_char_boundary text ?a"
    using es(3) boundary_append by metis
  moreover have "?a \<le> i"
    using es(2,3) ds(2) assms(3) by (metis concat_append le_add1 length_append length_take min_absorb2)
  ultimately have "str_get text ?a i = Some (concat es)"
    using assms(2,3) slice by (simp add: str_get_def)
  moreover have "i = 0 + length (concat ds)" using ds(2) assms(3) by simp
  ultimately show ?thesis
    using line_column_loop_prefix [OF wfd(1), of i 0 gs 1 1] es(1,4) ds(1)
    by (simp add: line_column_def)
qed

lemma locate_correct:
  assumes "locator_invar l" "location_of (sl_sources l) sp = Inr loc"
    and "source (sl_sources l) (span_file_id sp) = Some src"
    and "valid_utf8 src" "is_char_boundary src (span_start sp)"
  shows "fst (locate l sp) = Some (loc_file_name loc, word_of_nat (lc_line (loc_start loc)),
     word_of_nat (lc_column (loc_start loc)))"
proof -
  let ?i = "span_start sp"
  have loc: "file_name (sl_sources l) (span_file_id sp) = Some (loc_file_name loc)"
      "loc_start loc = line_column src ?i" and bound: "?i \<le> length src"
    using assms(2,3) by (auto simp: location_of_def source_def file_name_def Let_def
        split: option.splits if_splits)
  let ?starts = "line_starts src"
  have starts: "(case sl_lines l (span_file_id sp) of Some ss \<Rightarrow> ss | None \<Rightarrow> ?starts) = ?starts"
    using assms(1,3) by (auto simp: locator_invar_def split: option.splits)
  have tw: "takeWhile (\<lambda>s. s \<le> ?i) ?starts = line_starts (take ?i src)"
    using bound by (rule takeWhile_line_starts)
  let ?pre = "line_starts (take ?i src)"
  have "?pre \<noteq> []" by (simp add: line_starts_def)
  then have "last ?pre = ?starts ! (length ?pre - 1)"
    using tw by (metis diff_less last_conv_nth length_greater_0_conv takeWhile_nth zero_less_one)
  then show ?thesis
    using line_column_boundary [OF assms(4,5) bound] assms(3) loc bound starts tw
    by (auto simp: locate_def Let_def partition_point_def min_absorb1)
qed

text \<open>The line-indexed locator of the code generators agrees with the source map. Whenever the
  source map resolves a span whose start is a character boundary of its file, \<open>locate\<close> answers
  with the same file name, line and column (as \<open>u32\<close>), whatever spans were located before and
  so whatever line indexes are cached, and leaves a cache that is right again.\<close>

theorem locate_agrees_with_location:
  assumes "locator_invar l" "location_of (sl_sources l) sp = Inr loc"
    and "source (sl_sources l) (span_file_id sp) = Some src"
    and "valid_utf8 src" "is_char_boundary src (span_start sp)"
  shows "fst (locate l sp) = Some (loc_file_name loc, word_of_nat (lc_line (loc_start loc)),
           word_of_nat (lc_column (loc_start loc))) \<and>
     locator_invar (snd (locate l sp)) \<and> sl_sources (snd (locate l sp)) = sl_sources l"
  using locate_correct [OF assms] locate_invar [OF assms(1)] by blast

definition demo_sources :: source_map where
  "demo_sources = snd (add_file source_map_new ''m.paco'' [CHR ''a'', CHR 0x0A, CHR ''b'', CHR ''c''])"

lemmas span_eval = span_new_root_def span_new_def file_id_index_def file_id_root_def vec_get_def
  source_def location_of_def line_column_def demo_sources_def add_file_def source_map_new_def
  file_id_new_def Let_def

theorem locate_agrees_with_location_witness:
  "fst (locate (source_locator_new demo_sources) (span_new_root 3 4)) = Some (''m.paco'', 2, 2)"
proof -
  let ?src = "[CHR ''a'', CHR 0x0A, CHR ''b'', CHR ''c'']"
  let ?loc = "\<lparr>loc_file_id = file_id_root, loc_file_name = ''m.paco'',
     loc_start = \<lparr>lc_line = 2, lc_column = 2\<rparr>, loc_end = \<lparr>lc_line = 2, lc_column = 3\<rparr>\<rparr>"
  have "location_of demo_sources (span_new_root 3 4) = Inr ?loc"
    and "source demo_sources (span_file_id (span_new_root 3 4)) = Some ?src"
    and "valid_utf8 ?src" and "is_char_boundary ?src (span_start (span_new_root 3 4))"
    by (simp_all add: span_eval utf8_eval)
  then show ?thesis
    using locate_agrees_with_location [of "source_locator_new demo_sources" "span_new_root 3 4" ?loc ?src]
    by (simp add: locator_invar_new source_locator_new_def locator_invar_def)
qed

definition lc_pair :: "line_column_pos \<Rightarrow> nat \<times> nat" where
  "lc_pair p = (lc_line p, lc_column p)"

lemma lc_pair_make [simp]: "lc_pair \<lparr>lc_line = l, lc_column = c\<rparr> = (l, c)"
  by (simp add: lc_pair_def)

lemma line_column_loop_ge: "(line, col) \<le> lc_pair (line_column_loop b index cs line col)"
proof (induction cs arbitrary: index line col)
  case (Cons c cs)
  have "(line, col) \<le> (line + 1, 1)" "(line, col) \<le> (line, col + 1)" by simp_all
  then show ?case
    using order_trans [OF _ Cons.IH [of "line + 1" 1 "index + length c"]]
      order_trans [OF _ Cons.IH [of line "col + 1" "index + length c"]]
    by (cases "b \<le> index") (auto simp del: less_eq_prod_simp One_nat_def)
qed simp

lemma line_column_loop_mono:
  assumes "a \<le> b"
  shows "lc_pair (line_column_loop a index cs line col) \<le> lc_pair (line_column_loop b index cs line col)"
proof (induction cs arbitrary: index line col)
  case (Cons c cs)
  show ?case
  proof (cases "index \<ge> a")
    case True
    then have "line_column_loop a index (c # cs) line col = \<lparr>lc_line = line, lc_column = col\<rparr>" by simp
    then show ?thesis using line_column_loop_ge [of line col b index "c # cs"] by simp
  next
    case False
    then show ?thesis using Cons.IH assms by simp
  qed
qed simp

lemma line_column_loop_pos:
  "1 \<le> line \<Longrightarrow> 1 \<le> col \<Longrightarrow> 1 \<le> lc_line (line_column_loop a index cs line col) \<and>
     1 \<le> lc_column (line_column_loop a index cs line col)"
  by (induction cs arbitrary: index line col) simp_all

text \<open>\<open>location\<close> fails exactly on an unknown file or on a range that is reversed or runs past
  the end of its file; otherwise both ends are on lines and columns counted from one, and the
  start is not after the end.\<close>

theorem location_total:
  "(location_of m sp = Inl (UnknownFile (span_file_id sp)) \<longleftrightarrow> source m (span_file_id sp) = None) \<and>
   (\<forall>s e n. location_of m sp = Inl (InvalidSpan s e n) \<longleftrightarrow>
      s = span_start sp \<and> e = span_end sp \<and>
      (\<exists>src. source m (span_file_id sp) = Some src \<and> n = length src \<and> (s > e \<or> e > n))) \<and>
   (\<forall>loc. location_of m sp = Inr loc \<longrightarrow>
      1 \<le> lc_line (loc_start loc) \<and> 1 \<le> lc_column (loc_start loc) \<and>
      lc_pair (loc_start loc) \<le> lc_pair (loc_end loc))"
proof -
  have le: "lc_pair (line_column src a) \<le> lc_pair (line_column src b)" if "a \<le> b" for src a b
    using line_column_loop_mono [OF that] by (simp add: line_column_def)
  have pos: "1 \<le> lc_line (line_column src a) \<and> 1 \<le> lc_column (line_column src a)" for src a
    using line_column_loop_pos [of 1 1] by (simp add: line_column_def)
  show ?thesis
    using pos le
    by (auto simp: location_of_def source_def Let_def split: option.splits if_splits)
qed

theorem location_total_witness:
  "location_of demo_sources (span_new_root 3 9) = Inl (InvalidSpan 3 9 4)"
proof -
  have "source demo_sources (span_file_id (span_new_root 3 9))
      = Some [CHR ''a'', CHR 0x0A, CHR ''b'', CHR ''c'']"
    by (simp add: span_eval)
  then show ?thesis
    using location_total [of demo_sources "span_new_root 3 9"] by (simp add: span_new_root_def)
qed

end
