(* ===== verification/Ieee.thy ===== *)
theory Ieee
  imports Prelude
begin

text \<open>
  The floating point numbers of Rust as far as the code uses them: \<open>f64\<close> and \<open>f32\<close> are their bits,
  a finite number is an integer multiple of \<open>2 ^ - 1074\<close>, and an operation gives the number nearest to
  the exact result, ties to even.  A NaN result is the quiet NaN \<open>f64::NAN\<close>.
\<close>

unbundle bit_operations_syntax

type_synonym f64 = "64 word"

type_synonym f32 = "32 word"

section \<open>Rounding\<close>

text \<open>The bits of the number nearest to the fraction \<open>a / b\<close>; numbers too large round to infinity.\<close>

fun bit_length :: "nat \<Rightarrow> nat" where
  "bit_length n = (if n = 0 then 0 else Suc (bit_length (n div 2)))"

declare bit_length.simps [simp del]

definition round_half_even :: "nat \<Rightarrow> nat \<Rightarrow> nat" where
  "round_half_even a b =
    (let q = a div b; r = a mod b in
     if 2 * r < b \<or> (2 * r = b \<and> even q) then q else q + 1)"

definition scale :: "nat \<Rightarrow> nat \<Rightarrow> int \<Rightarrow> nat \<times> nat" where
  "scale a b e = (if 0 \<le> e then (a, b * 2 ^ nat e) else (a * 2 ^ nat (- e), b))"

definition f64_of_ratio :: "nat \<Rightarrow> nat \<Rightarrow> nat" where
  "f64_of_ratio a b =
    (if a = 0 then 0
     else let e = max (- 1074) (int (bit_length a) - int (bit_length b) - 53);
              (p, q) = scale a b e;
              e = (if 2 ^ 53 \<le> p div q then e + 1 else e);
              (p, q) = scale a b e;
              bits = nat (e + 1074) * 2 ^ 52 + round_half_even p q
          in min bits (2047 * 2 ^ 52))"

definition f32_of_ratio :: "nat \<Rightarrow> nat \<Rightarrow> nat" where
  "f32_of_ratio a b =
    (if a = 0 then 0
     else let e = max (- 149) (int (bit_length a) - int (bit_length b) - 24);
              (p, q) = scale a b e;
              e = (if 2 ^ 24 \<le> p div q then e + 1 else e);
              (p, q) = scale a b e;
              bits = nat (e + 149) * 2 ^ 23 + round_half_even p q
          in min bits (255 * 2 ^ 23))"

section \<open>The parts of a number\<close>

definition f64_negative :: "f64 \<Rightarrow> bool" where
  "f64_negative x \<longleftrightarrow> 2 ^ 63 \<le> unat x"

definition f64_exponent :: "f64 \<Rightarrow> nat" where
  "f64_exponent x = unat x div 2 ^ 52 mod 2048"

definition f64_fraction :: "f64 \<Rightarrow> nat" where
  "f64_fraction x = unat x mod 2 ^ 52"

definition f64_is_nan :: "f64 \<Rightarrow> bool" where
  "f64_is_nan x \<longleftrightarrow> f64_exponent x = 2047 \<and> f64_fraction x \<noteq> 0"

definition f64_is_infinite :: "f64 \<Rightarrow> bool" where
  "f64_is_infinite x \<longleftrightarrow> f64_exponent x = 2047 \<and> f64_fraction x = 0"

definition f64_finite :: "f64 \<Rightarrow> bool" where
  "f64_finite x \<longleftrightarrow> f64_exponent x \<noteq> 2047"

text \<open>The magnitude of a finite number, in units of \<open>2 ^ - 1074\<close>.\<close>

definition f64_units :: "f64 \<Rightarrow> nat" where
  "f64_units x = (if f64_exponent x = 0 then f64_fraction x
     else (2 ^ 52 + f64_fraction x) * 2 ^ (f64_exponent x - 1))"

definition f64_signed :: "bool \<Rightarrow> nat \<Rightarrow> f64" where
  "f64_signed negative bits = word_of_nat (if negative then 2 ^ 63 + bits else bits)"

definition f64_of_units :: "bool \<Rightarrow> nat \<Rightarrow> f64" where
  "f64_of_units negative u = f64_signed negative (f64_of_ratio u (2 ^ 1074))"

definition f64_infinity :: "bool \<Rightarrow> f64" where
  "f64_infinity negative = f64_signed negative (2047 * 2 ^ 52)"

definition f64_nan :: f64 where
  "f64_nan = f64_signed False (4095 * 2 ^ 51)"

definition f64_neg :: "f64 \<Rightarrow> f64" where
  "f64_neg x = x XOR (2 ^ 63)"

definition f64_int :: "f64 \<Rightarrow> int" where
  "f64_int x = (if f64_negative x then - int (f64_units x) else int (f64_units x))"

section \<open>Arithmetic and comparison\<close>

definition f64_round :: "bool \<Rightarrow> int \<Rightarrow> nat \<Rightarrow> f64" where
  "f64_round zero_negative num den = (if num = 0 then f64_signed zero_negative 0
     else f64_signed (num < 0) (f64_of_ratio (nat \<bar>num\<bar>) den))"

definition f64_add :: "f64 \<Rightarrow> f64 \<Rightarrow> f64" where
  "f64_add x y =
    (if f64_is_nan x \<or> f64_is_nan y then f64_nan
     else if f64_is_infinite x then
       (if f64_is_infinite y \<and> f64_negative x \<noteq> f64_negative y then f64_nan else x)
     else if f64_is_infinite y then y
     else f64_round (f64_negative x \<and> f64_negative y) (f64_int x + f64_int y) (2 ^ 1074))"

definition f64_sub :: "f64 \<Rightarrow> f64 \<Rightarrow> f64" where
  "f64_sub x y = f64_add x (f64_neg y)"

definition f64_mul :: "f64 \<Rightarrow> f64 \<Rightarrow> f64" where
  "f64_mul x y = (let negative = (f64_negative x \<noteq> f64_negative y) in
     if f64_is_nan x \<or> f64_is_nan y then f64_nan
     else if f64_is_infinite x \<or> f64_is_infinite y then
       (if f64_int x = 0 \<or> f64_int y = 0 then f64_nan else f64_infinity negative)
     else f64_round negative (f64_int x * f64_int y) (2 ^ 2148))"

definition f64_div :: "f64 \<Rightarrow> f64 \<Rightarrow> f64" where
  "f64_div x y = (let negative = (f64_negative x \<noteq> f64_negative y) in
     if f64_is_nan x \<or> f64_is_nan y \<or> (f64_is_infinite x \<and> f64_is_infinite y) then f64_nan
     else if f64_is_infinite x then f64_infinity negative
     else if f64_is_infinite y then f64_signed negative 0
     else if f64_int y = 0 then (if f64_int x = 0 then f64_nan else f64_infinity negative)
     else f64_round negative (f64_int x * sgn (f64_int y)) (f64_units y))"

definition f64_rem :: "f64 \<Rightarrow> f64 \<Rightarrow> f64" where
  "f64_rem x y =
    (if f64_is_nan x \<or> f64_is_nan y \<or> f64_is_infinite x then f64_nan
     else if f64_is_infinite y then x
     else if f64_int y = 0 then f64_nan
     else f64_round (f64_negative x) (f64_int x smod f64_int y) (2 ^ 1074))"

text \<open>The position of a number other than NaN in the order of numbers.\<close>

definition f64_position :: "f64 \<Rightarrow> int" where
  "f64_position x = (if f64_is_infinite x then (if f64_negative x then - (2 ^ 2200) else 2 ^ 2200)
     else f64_int x)"

definition f64_eq :: "f64 \<Rightarrow> f64 \<Rightarrow> bool" where
  "f64_eq x y \<longleftrightarrow> \<not> f64_is_nan x \<and> \<not> f64_is_nan y \<and> f64_position x = f64_position y"

definition f64_less :: "f64 \<Rightarrow> f64 \<Rightarrow> bool" where
  "f64_less x y \<longleftrightarrow> \<not> f64_is_nan x \<and> \<not> f64_is_nan y \<and> f64_position x < f64_position y"

definition f64_less_eq :: "f64 \<Rightarrow> f64 \<Rightarrow> bool" where
  "f64_less_eq x y \<longleftrightarrow> f64_less x y \<or> f64_eq x y"

fun floor_sqrt :: "nat \<Rightarrow> nat" where
  "floor_sqrt n = (if n = 0 then 0
     else let r = 2 * floor_sqrt (n div 4) in if (r + 1) ^ 2 \<le> n then r + 1 else r)"

declare floor_sqrt.simps [simp del]

text \<open>The square root is rounded from 64 more bits than needed and a last bit that tells whether these were
  exact.\<close>

definition f64_sqrt :: "f64 \<Rightarrow> f64" where
  "f64_sqrt x =
    (if f64_is_nan x \<or> (f64_negative x \<and> f64_int x \<noteq> 0) then f64_nan
     else if f64_is_infinite x then x
     else if f64_int x = 0 then x
     else let n = f64_units x * 2 ^ (1074 + 2 * 64); r = floor_sqrt n
          in f64_signed False (f64_of_ratio (2 * r + (if r ^ 2 = n then 0 else 1)) (2 ^ (1075 + 64))))"

definition f64_abs :: "f64 \<Rightarrow> f64" where
  "f64_abs x = (if f64_negative x then f64_neg x else x)"

section \<open>Conversions\<close>

definition f64_of_int :: "int \<Rightarrow> f64" where
  "f64_of_int n = f64_round False n 1"

text \<open>\<open>x.trunc()\<close> of a finite number, as an integer.\<close>

definition f64_trunc :: "f64 \<Rightarrow> int" where
  "f64_trunc x = (let n = int (f64_units x div 2 ^ 1074) in if f64_negative x then - n else n)"

text \<open>\<open>2f64.powi(k)\<close> for an exponent of the range of \<open>f64\<close>.\<close>

definition f64_powi2 :: "int \<Rightarrow> f64" where
  "f64_powi2 k = f64_of_units False (2 ^ nat (1074 + k))"

definition f64_round_ties_even :: "f64 \<Rightarrow> f64" where
  "f64_round_ties_even x =
    (if f64_is_nan x then f64_nan else if f64_is_infinite x then x
     else f64_of_units (f64_negative x) (round_half_even (f64_units x) (2 ^ 1074) * 2 ^ 1074))"

text \<open>\<open>x as u64\<close> saturates, and takes NaN to zero.\<close>

definition f64_as_u64 :: "f64 \<Rightarrow> nat" where
  "f64_as_u64 x =
    (if f64_is_nan x \<or> f64_negative x then 0 else if f64_is_infinite x then 2 ^ 64 - 1
     else min (f64_units x div 2 ^ 1074) (2 ^ 64 - 1))"

definition f32_to_f64 :: "f32 \<Rightarrow> f64" where
  "f32_to_f64 x =
    (let negative = (2 ^ 31 \<le> unat x); e = unat x div 2 ^ 23 mod 256; f = unat x mod 2 ^ 23 in
     if e = 255 then (if f = 0 then f64_infinity negative else f64_nan)
     else f64_of_units negative ((if e = 0 then f else (2 ^ 23 + f) * 2 ^ (e - 1)) * 2 ^ 925))"

definition f32_signed :: "bool \<Rightarrow> nat \<Rightarrow> f32" where
  "f32_signed negative bits = word_of_nat (if negative then 2 ^ 31 + bits else bits)"

definition f64_to_f32 :: "f64 \<Rightarrow> f32" where
  "f64_to_f32 x =
    (if f64_is_nan x then f32_signed False (511 * 2 ^ 22)
     else if f64_is_infinite x then f32_signed (f64_negative x) (255 * 2 ^ 23)
     else f32_signed (f64_negative x) (f32_of_ratio (f64_units x) (2 ^ 1074)))"

text \<open>Arithmetic on \<open>f32\<close> rounds the exact result once.\<close>

definition f32_round :: "bool \<Rightarrow> int \<Rightarrow> nat \<Rightarrow> f32" where
  "f32_round zero_negative num den = (if num = 0 then f32_signed zero_negative 0
     else f32_signed (num < 0) (f32_of_ratio (nat \<bar>num\<bar>) den))"

definition f32_add :: "f32 \<Rightarrow> f32 \<Rightarrow> f32" where
  "f32_add a b = (let x = f32_to_f64 a; y = f32_to_f64 b in
     if f64_finite x \<and> f64_finite y
     then f32_round (f64_negative x \<and> f64_negative y) (f64_int x + f64_int y) (2 ^ 1074)
     else f64_to_f32 (f64_add x y))"

definition f32_sub :: "f32 \<Rightarrow> f32 \<Rightarrow> f32" where
  "f32_sub a b = (let x = f32_to_f64 a; y = f64_neg (f32_to_f64 b) in
     if f64_finite x \<and> f64_finite y
     then f32_round (f64_negative x \<and> f64_negative y) (f64_int x + f64_int y) (2 ^ 1074)
     else f64_to_f32 (f64_add x y))"

definition f32_mul :: "f32 \<Rightarrow> f32 \<Rightarrow> f32" where
  "f32_mul a b = (let x = f32_to_f64 a; y = f32_to_f64 b in
     if f64_finite x \<and> f64_finite y
     then f32_round (f64_negative x \<noteq> f64_negative y) (f64_int x * f64_int y) (2 ^ 2148)
     else f64_to_f32 (f64_mul x y))"

definition f32_div :: "f32 \<Rightarrow> f32 \<Rightarrow> f32" where
  "f32_div a b = (let x = f32_to_f64 a; y = f32_to_f64 b in
     if f64_finite x \<and> f64_finite y \<and> f64_int y \<noteq> 0
     then f32_round (f64_negative x \<noteq> f64_negative y) (f64_int x * sgn (f64_int y)) (f64_units y)
     else f64_to_f32 (f64_div x y))"

section \<open>Units are exact\<close>

lemma bit_length_bounds: "0 < n \<Longrightarrow> 2 ^ (bit_length n - 1) \<le> n \<and> n < 2 ^ bit_length n \<and> 0 < bit_length n"
proof (induction n rule: bit_length.induct)
  case (1 n)
  show ?case
  proof (cases "n div 2 = 0")
    case True
    then have "n = 1" using 1 by simp
    then show ?thesis by (simp add: bit_length.simps)
  next
    case False
    define k where "k = bit_length (n div 2) - 1"
    have ih: "2 ^ k \<le> n div 2" "n div 2 < 2 ^ Suc k" "bit_length (n div 2) = Suc k"
      using 1 False by (auto simp: k_def)
    have "bit_length n = Suc (Suc k)" using 1 ih(3) by (subst bit_length.simps) simp
    moreover have "2 * 2 ^ k \<le> n" "n < 2 * 2 ^ Suc k" using ih(1,2) by linarith+
    ultimately show ?thesis by simp
  qed
qed

lemma bit_length_unique:
  assumes "2 ^ k \<le> n" "n < 2 ^ Suc k"
  shows "bit_length n = Suc k"
proof -
  have "0 < n" using assms(1) by (cases n) auto
  note b = bit_length_bounds [OF this]
  have "(2 :: nat) ^ k < 2 ^ bit_length n" by (rule le_less_trans [OF assms(1)]) (use b in blast)
  then have "k < bit_length n" by simp
  moreover have "(2 :: nat) ^ (bit_length n - 1) < 2 ^ Suc k" by (rule le_less_trans [OF _ assms(2)]) (use b in blast)
  then have "bit_length n - 1 < Suc k" by (simp only: power_strict_increasing_iff one_less_numeral_iff semiring_norm)
  ultimately show ?thesis by simp
qed

lemma round_exact: "0 < b \<Longrightarrow> round_half_even (a * b) b = a"
  by (simp add: round_half_even_def)

lemma round_scale:
  assumes "0 < c"
  shows "round_half_even (a * c) (b * c) = round_half_even a b"
proof -
  have "2 * (a * c mod (b * c)) = (2 * (a mod b)) * c" by (simp add: mult_mod_left)
  then show ?thesis using assms by (simp add: round_half_even_def Let_def)
qed

text \<open>A number with at most 53 significant bits is represented without rounding: below \<open>2 ^ 53\<close> units the
  bits are the number itself.\<close>

lemma f64_of_ratio_small:
  assumes "u < 2 ^ 53"
  shows "f64_of_ratio u (2 ^ 1074) = u"
proof (cases "u = 0")
  case False
  have len: "bit_length u \<le> 53"
  proof (rule ccontr)
    assume "\<not> bit_length u \<le> 53"
    then have "(2 :: nat) ^ 53 \<le> 2 ^ (bit_length u - 1)" by (intro power_increasing) auto
    then show False using bit_length_bounds [of u] False assms by linarith
  qed
  have unit: "bit_length (2 ^ 1074) = Suc 1074" by (rule bit_length_unique) simp_all
  have e: "max (- 1074) (int (bit_length u) - int (bit_length (2 ^ 1074)) - 53) = - 1074"
    using len by (simp only: unit)
  have "scale u (2 ^ 1074) (- 1074) = (u * 2 ^ 1074, 2 ^ 1074)" by (simp add: scale_def)
  moreover have "\<not> 2 ^ 53 \<le> u * 2 ^ 1074 div 2 ^ 1074" using assms by simp
  moreover have "u \<le> 2047 * 2 ^ 52" using assms by simp
  ultimately show ?thesis using False round_exact [of "2 ^ 1074" u]
    unfolding f64_of_ratio_def e Let_def by simp
qed (simp add: f64_of_ratio_def)

lemma scale_power:
  "case scale a (2 ^ d) (int j - int d) of (p, q) \<Rightarrow>
     p div q = a div 2 ^ j \<and> round_half_even p q = round_half_even a (2 ^ j)"
proof (cases "d \<le> j")
  case True
  have "(2 :: nat) ^ d * 2 ^ (j - d) = 2 ^ j" using True by (simp flip: power_add)
  then show ?thesis using True by (simp add: scale_def nat_diff_distrib)
next
  case False
  have split: "(2 :: nat) ^ d = 2 ^ j * 2 ^ (d - j)" using False by (simp flip: power_add)
  show ?thesis using False by (simp add: scale_def split round_scale nat_diff_distrib)
qed

lemma f64_of_ratio_large:
  assumes "2 ^ 52 \<le> c" "c < 2 ^ 53" "k \<le> 2045"
  shows "f64_of_ratio (c * 2 ^ k) (2 ^ 1074) = k * 2 ^ 52 + c"
proof (cases "k = 0")
  case True
  then show ?thesis using f64_of_ratio_small [of c] assms by simp
next
  case False
  have len: "bit_length (c * 2 ^ k) = Suc (52 + k)"
    by (rule bit_length_unique) (use assms in \<open>simp_all add: power_add\<close>)
  have unit: "bit_length (2 ^ 1074) = Suc 1074" by (rule bit_length_unique) simp_all
  have e: "max (- 1074) (int (bit_length (c * 2 ^ k)) - int (bit_length (2 ^ 1074)) - 53) = int (k - 1) - int 1074"
    using False by (simp only: len unit)
  have next_e: "int (k - 1) - int 1074 + 1 = int k - int 1074" using False by simp
  obtain p q where pq: "scale (c * 2 ^ k) (2 ^ 1074) (int (k - 1) - int 1074) = (p, q)" by fastforce
  obtain p' q' where pq': "scale (c * 2 ^ k) (2 ^ 1074) (int k - int 1074) = (p', q')" by fastforce
  have "c * 2 ^ k div 2 ^ (k - 1) = 2 * c" using False by (cases k) (simp_all add: mult.assoc [symmetric])
  then have "p div q = 2 * c"
    using scale_power [where a = "c * 2 ^ k" and d = 1074 and j = "k - 1", unfolded pq prod.case] by simp
  then have big: "2 ^ 53 \<le> p div q" using assms(1) by simp
  have "round_half_even p' q' = c"
    using scale_power [where a = "c * 2 ^ k" and d = 1074 and j = k, unfolded pq' prod.case] round_exact [of "2 ^ k" c]
    by simp
  moreover have "nat (int k - int 1074 + 1074) = k" by simp
  moreover have "k * 2 ^ 52 + c \<le> 2047 * 2 ^ 52" using assms by simp
  moreover have "c * 2 ^ k \<noteq> 0" using assms(1) by auto
  ultimately show ?thesis
    unfolding f64_of_ratio_def e Let_def pq next_e prod.case if_P [OF big] pq' by simp
qed

lemma unat_signed:
  assumes "bits < 2 ^ 63"
  shows "unat (f64_signed negative bits) = (if negative then 2 ^ 63 + bits else bits)"
proof -
  have "(if negative then 2 ^ 63 + bits else bits) < 2 ^ 64" using assms by auto
  then show ?thesis by (simp only: f64_signed_def unat_of_nat) simp
qed

lemma f64_signed_parts:
  assumes "bits < 2 ^ 63"
  shows "f64_negative (f64_signed negative bits) = negative"
    "f64_exponent (f64_signed negative bits) = bits div 2 ^ 52"
    "f64_fraction (f64_signed negative bits) = bits mod 2 ^ 52"
proof -
  have split: "(2 ^ 63 + bits) div 2 ^ 52 = 2048 + bits div 2 ^ 52" "(2 ^ 63 + bits) mod 2 ^ 52 = bits mod 2 ^ 52"
    using div_mult_self1 [of "2 ^ 52" bits 2048] mod_mult_self1 [of bits 2048 "2 ^ 52"]
    by (simp_all add: add.commute)
  have "bits div 2 ^ 52 < 2048" using assms by (simp add: less_mult_imp_div_less)
  then show "f64_exponent (f64_signed negative bits) = bits div 2 ^ 52"
      "f64_fraction (f64_signed negative bits) = bits mod 2 ^ 52"
    unfolding f64_exponent_def f64_fraction_def unat_signed [OF assms] using split by auto
  show "f64_negative (f64_signed negative bits) = negative"
    unfolding f64_negative_def unat_signed [OF assms] using assms by simp
qed

text \<open>The parts of a number given by an integer of at most 53 bits and a power of two.\<close>

lemma f64_of_units_parts:
  assumes "0 < n" "n < 2 ^ 53" "53 \<le> j + bit_length n" "j + bit_length n \<le> 53 + 2045"
  shows "f64_negative (f64_of_units negative (n * 2 ^ j)) = negative"
    "f64_exponent (f64_of_units negative (n * 2 ^ j)) = j + bit_length n - 52"
    "f64_units (f64_of_units negative (n * 2 ^ j)) = n * 2 ^ j"
proof -
  note len = bit_length_bounds [OF assms(1)]
  have len53: "bit_length n \<le> 53"
  proof (rule ccontr)
    assume "\<not> bit_length n \<le> 53"
    then have "(2 :: nat) ^ 53 \<le> 2 ^ (bit_length n - 1)" by (intro power_increasing) auto
    then show False using len assms(2) by linarith
  qed
  define k where "k = j + bit_length n - 53"
  define c where "c = n * 2 ^ (53 - bit_length n)"
  have low: "2 ^ 52 \<le> c"
  proof -
    have "(2 :: nat) ^ 52 = 2 ^ (bit_length n - 1) * 2 ^ (53 - bit_length n)"
      using len len53 by (simp flip: power_add)
    then show ?thesis using len unfolding c_def by (metis mult_le_mono1)
  qed
  have high: "c < 2 ^ 53"
  proof -
    have "(2 :: nat) ^ 53 = 2 ^ bit_length n * 2 ^ (53 - bit_length n)" using len53 by (simp flip: power_add)
    then show ?thesis using len unfolding c_def by (metis mult_less_mono1 zero_less_power zero_less_numeral)
  qed
  have "j = k + (53 - bit_length n)" using assms(3) len53 by (simp add: k_def)
  then have u: "n * 2 ^ j = c * 2 ^ k" by (simp add: c_def power_add)
  have bits: "f64_of_ratio (n * 2 ^ j) (2 ^ 1074) = k * 2 ^ 52 + c"
    unfolding u by (rule f64_of_ratio_large [OF low high]) (use assms(4) in \<open>simp add: k_def\<close>)
  have small: "k * 2 ^ 52 + c < 2 ^ 63" using high assms(4) by (simp add: k_def)
  note parts = f64_signed_parts [OF small, of negative]
  have exponent: "j + bit_length n - 52 = k + 1" using assms(3) by (simp add: k_def)
  obtain d where d: "c = 2 ^ 52 + d" "d < 2 ^ 52" using low high by (intro that [of "c - 2 ^ 52"]) simp_all
  have "k * 2 ^ 52 + c = d + (k + 1) * 2 ^ 52" by (simp add: d(1))
  then have "(k * 2 ^ 52 + c) div 2 ^ 52 = k + 1" "(k * 2 ^ 52 + c) mod 2 ^ 52 = c - 2 ^ 52"
    using d div_mult_self1 [of "2 ^ 52" d "k + 1"] mod_mult_self1 [of d "k + 1" "2 ^ 52"] by simp_all
  note parts = parts [unfolded this]
  have whole: "f64_of_units negative (n * 2 ^ j) = f64_signed negative (k * 2 ^ 52 + c)"
    by (simp only: f64_of_units_def bits)
  show "f64_negative (f64_of_units negative (n * 2 ^ j)) = negative" by (simp only: whole parts)
  show "f64_exponent (f64_of_units negative (n * 2 ^ j)) = j + bit_length n - 52"
    by (simp only: whole parts exponent)
  have "2 ^ 52 + (c - 2 ^ 52) = c" using low by simp
  then show "f64_units (f64_of_units negative (n * 2 ^ j)) = n * 2 ^ j"
    unfolding f64_units_def whole parts by (simp only: u) simp
qed

lemma bit_length_mult_power: "0 < n \<Longrightarrow> bit_length (n * 2 ^ j) = bit_length n + j"
proof -
  assume "0 < n"
  note b = bit_length_bounds [OF this]
  obtain k where k: "bit_length n = Suc k" using b by (cases "bit_length n") auto
  have "2 ^ (k + j) \<le> n * 2 ^ j" "n * 2 ^ j < 2 ^ Suc (k + j)" using b by (simp_all add: k power_add)
  then have "bit_length (n * 2 ^ j) = Suc (k + j)" by (rule bit_length_unique)
  then show ?thesis by (simp add: k)
qed

lemma bit_length_le: "n < 2 ^ k \<Longrightarrow> bit_length n \<le> k"
proof (rule ccontr)
  assume "n < 2 ^ k" "\<not> bit_length n \<le> k"
  then have "(2 :: nat) ^ k \<le> 2 ^ (bit_length n - 1)" by (intro power_increasing) auto
  moreover have "0 < n" using \<open>\<not> bit_length n \<le> k\<close> by (cases "n = 0") (auto simp: bit_length.simps [of 0])
  ultimately show False using bit_length_bounds [of n] \<open>n < 2 ^ k\<close> by linarith
qed

lemma bit_length_greater: "0 < n \<Longrightarrow> 2 ^ k \<le> n \<Longrightarrow> k < bit_length n"
proof -
  assume "0 < n" "2 ^ k \<le> n"
  then have "(2 :: nat) ^ k < 2 ^ bit_length n" using bit_length_bounds [of n] by linarith
  then show ?thesis by simp
qed

text \<open>A fraction keeps its rounding when both sides are multiplied by a power of two.\<close>

lemma f64_of_ratio_cancel:
  assumes "0 < b"
  shows "f64_of_ratio (a * 2 ^ i) (b * 2 ^ i) = f64_of_ratio a b"
proof (cases "a = 0")
  case False
  have len: "int (bit_length (a * 2 ^ i)) - int (bit_length (b * 2 ^ i)) = int (bit_length a) - int (bit_length b)"
    using False assms by (simp add: bit_length_mult_power)
  have scaled: "scale (a * 2 ^ i) (b * 2 ^ i) e = (fst (scale a b e) * 2 ^ i, snd (scale a b e) * 2 ^ i)" for e
    by (simp add: scale_def mult.commute mult.left_commute)
  show ?thesis unfolding f64_of_ratio_def len scaled Let_def prod.case using False
    by (simp add: case_prod_beta round_scale)
qed (simp add: f64_of_ratio_def)

lemma f64_of_units_exact:
  assumes "0 < n" "n < 2 ^ 53" "bit_length (n * 2 ^ j) \<le> 2098"
  shows "f64_negative (f64_of_units negative (n * 2 ^ j)) = negative"
    "f64_exponent (f64_of_units negative (n * 2 ^ j)) = bit_length (n * 2 ^ j) - 52"
    "f64_units (f64_of_units negative (n * 2 ^ j)) = n * 2 ^ j"
proof -
  define u where "u = n * 2 ^ j"
  have len: "bit_length u = j + bit_length n" using assms(1) by (simp add: u_def bit_length_mult_power)
  have pos: "0 < u" using assms(1) by (simp add: u_def)
  have "f64_negative (f64_of_units negative u) = negative \<and> f64_exponent (f64_of_units negative u) = bit_length u - 52
    \<and> f64_units (f64_of_units negative u) = u"
  proof (cases "53 \<le> bit_length u")
    case True
    have large: "53 \<le> j + bit_length n" "j + bit_length n \<le> 53 + 2045" using True assms(3) len by (simp_all add: u_def)
    show ?thesis using f64_of_units_parts [OF assms(1,2) large, of negative]
      unfolding len [unfolded u_def] u_def by blast
  next
    case False
    then have small: "u < 2 ^ 52"
      using bit_length_greater [OF pos, of 52] by (metis not_le not_less_eq_eq eval_nat_numeral(3) Suc_leI)
    then have bits: "f64_of_units negative u = f64_signed negative u" "u < 2 ^ 63"
      using f64_of_ratio_small [of u] by (simp_all only: f64_of_units_def) simp_all
    have "bit_length u \<le> 52" using False by simp
    then show ?thesis using f64_signed_parts [OF bits(2), of negative] small
      unfolding bits f64_units_def by simp
  qed
  then show "f64_negative (f64_of_units negative (n * 2 ^ j)) = negative"
    "f64_exponent (f64_of_units negative (n * 2 ^ j)) = bit_length (n * 2 ^ j) - 52"
    "f64_units (f64_of_units negative (n * 2 ^ j)) = n * 2 ^ j"
    unfolding u_def by blast+
qed

lemma f64_finite_iff: "f64_finite x \<longleftrightarrow> \<not> f64_is_nan x \<and> \<not> f64_is_infinite x"
  by (auto simp: f64_finite_def f64_is_nan_def f64_is_infinite_def)

lemma f64_canonical:
  assumes "f64_finite x"
  obtains c k where "f64_units x = c * 2 ^ k" "c < 2 ^ 53" "k \<le> 2045" "k = 0 \<or> 2 ^ 52 \<le> c"
proof -
  have e: "f64_exponent x < 2047"
    using assms mod_less_divisor [of 2048 "unat x div 2 ^ 52"] unfolding f64_finite_def f64_exponent_def by linarith
  have f: "f64_fraction x < 2 ^ 52" by (simp add: f64_fraction_def)
  show ?thesis
  proof (cases "f64_exponent x = 0")
    case True
    then show ?thesis using f by (intro that [of "f64_fraction x" 0]) (simp_all add: f64_units_def)
  next
    case False
    then show ?thesis using f e
      by (intro that [of "2 ^ 52 + f64_fraction x" "f64_exponent x - 1"]) (simp_all add: f64_units_def)
  qed
qed

lemma f64_exponent_units:
  assumes "f64_units x \<noteq> 0"
  shows "f64_exponent x = bit_length (f64_units x) - 52"
proof -
  have f: "f64_fraction x < 2 ^ 52" by (simp add: f64_fraction_def)
  show ?thesis
  proof (cases "f64_exponent x = 0")
    case True
    then show ?thesis using bit_length_le [of "f64_fraction x" 52] f by (simp add: f64_units_def)
  next
    case False
    have "bit_length (2 ^ 52 + f64_fraction x) = Suc 52" by (rule bit_length_unique) (use f in simp_all)
    then show ?thesis using False by (simp add: f64_units_def bit_length_mult_power)
  qed
qed

lemma xor_high: "r < 2 ^ n \<Longrightarrow> 2 ^ n XOR r = 2 ^ n + (r :: nat)"
proof -
  assume r: "r < 2 ^ n"
  have "\<not> bit r n" using r by (metis bit_take_bit_iff less_irrefl take_bit_nat_eq_self)
  then have "2 ^ n AND r = 0" by (intro bit_eqI) (auto simp: bit_and_iff bit_exp_iff)
  then show ?thesis by (simp add: disjunctive_add_eq_xor)
qed

lemma unat_f64_neg: "unat (f64_neg x) = (if f64_negative x then unat x - 2 ^ 63 else 2 ^ 63 + unat x)"
proof -
  have x: "unat x < 2 ^ 64" using unsigned_less [of x, where ?'a = nat] by simp
  have neg: "unat (f64_neg x) = 2 ^ 63 XOR unat x"
    by (simp add: f64_neg_def unsigned_xor_eq xor.commute)
  show ?thesis
  proof (cases "f64_negative x")
    case True
    define r where "r = unat x - 2 ^ 63"
    have r: "r < 2 ^ 63" "unat x = 2 ^ 63 + r" using True x by (auto simp: r_def f64_negative_def)
    have "2 ^ 63 XOR unat x = 2 ^ 63 XOR (2 ^ 63 XOR r)" by (simp only: xor_high [OF r(1)] r(2))
    also have "\<dots> = r" by (simp only: xor.assoc [symmetric] xor_self_eq xor.left_neutral)
    finally show ?thesis using True neg by (simp only: r_def if_True)
  next
    case False
    then show ?thesis using xor_high [of "unat x" 63] neg by (simp add: f64_negative_def)
  qed
qed

lemma f64_neg_parts:
  "f64_negative (f64_neg x) \<longleftrightarrow> \<not> f64_negative x"
  "f64_exponent (f64_neg x) = f64_exponent x"
  "f64_fraction (f64_neg x) = f64_fraction x"
proof -
  define r where "r = (if f64_negative x then unat x - 2 ^ 63 else unat x)"
  have r: "r < 2 ^ 63" using unsigned_less [of x, where ?'a = nat] by (auto simp: r_def f64_negative_def)
  have x: "x = f64_signed (f64_negative x) r"
    by (rule word_unat_eq_iff [THEN iffD2]) (simp add: unat_signed [OF r], simp add: r_def f64_negative_def)
  have n: "f64_neg x = f64_signed (\<not> f64_negative x) r"
    by (rule word_unat_eq_iff [THEN iffD2]) (simp add: unat_signed [OF r] unat_f64_neg, simp add: r_def f64_negative_def)
  show "f64_negative (f64_neg x) \<longleftrightarrow> \<not> f64_negative x" unfolding n by (rule f64_signed_parts(1) [OF r])
  show "f64_exponent (f64_neg x) = f64_exponent x" "f64_fraction (f64_neg x) = f64_fraction x"
    unfolding n by (subst x, simp only: f64_signed_parts [OF r])+
qed

lemma f64_neg_signed: "bits < 2 ^ 63 \<Longrightarrow> f64_neg (f64_signed negative bits) = f64_signed (\<not> negative) bits"
  by (rule word_unat_eq_iff [THEN iffD2]) (simp add: unat_f64_neg unat_signed f64_signed_parts)

lemma f64_abs_parts:
  "\<not> f64_negative (f64_abs x)" "f64_exponent (f64_abs x) = f64_exponent x" "f64_fraction (f64_abs x) = f64_fraction x"
  by (simp_all add: f64_abs_def f64_neg_parts)

lemma f64_abs_units: "f64_units (f64_abs x) = f64_units x" "f64_units (f64_neg x) = f64_units x"
  by (simp_all add: f64_units_def f64_abs_parts f64_neg_parts)

lemma f64_of_ratio_bound: "f64_of_ratio a b \<le> 2047 * 2 ^ 52"
  by (simp add: f64_of_ratio_def Let_def case_prod_beta)

lemma f64_neg_units: "f64_neg (f64_of_units negative u) = f64_of_units (\<not> negative) u"
proof -
  have "f64_of_ratio u (2 ^ 1074) < 2 ^ 63" by (rule le_less_trans [OF f64_of_ratio_bound]) simp
  then show ?thesis unfolding f64_of_units_def by (rule f64_neg_signed)
qed

text \<open>Multiplication and division by a power of two, in units.\<close>

lemma f64_of_units_zero: "f64_of_units negative 0 = f64_signed negative 0"
  by (simp add: f64_of_units_def f64_of_ratio_def)

lemma f64_of_ratio_shift:
  assumes "d \<le> k + n"
  shows "f64_of_ratio (c * 2 ^ k) (2 ^ d) = f64_of_ratio (c * 2 ^ (k + n - d)) (2 ^ n)"
proof -
  have "f64_of_ratio (c * 2 ^ k) (2 ^ d) = f64_of_ratio (c * 2 ^ k * 2 ^ n) (2 ^ d * 2 ^ n)"
    by (rule f64_of_ratio_cancel [symmetric]) simp
  also have "c * 2 ^ k * 2 ^ n = c * 2 ^ (k + n - d) * 2 ^ d" using assms by (simp flip: power_add add: mult.assoc)
  also have "2 ^ d * 2 ^ n = (2 ^ n * 2 ^ d :: nat)" by (rule mult.commute)
  finally show ?thesis using f64_of_ratio_cancel [of "2 ^ n" "c * 2 ^ (k + n - d)" d] by simp
qed

lemma f64_powi2_parts:
  assumes "- 1074 \<le> k" "k \<le> 1023"
  shows "\<not> f64_negative (f64_powi2 k)" "f64_finite (f64_powi2 k)" "f64_units (f64_powi2 k) = 2 ^ nat (1074 + k)"
proof -
  have len: "bit_length (2 ^ nat (1074 + k)) = Suc (nat (1074 + k))" by (rule bit_length_unique) simp_all
  moreover have bound: "nat (1074 + k) \<le> 2097" using assms by simp
  ultimately have "bit_length (1 * 2 ^ nat (1074 + k)) \<le> 2098" by simp
  from f64_of_units_exact [OF _ _ this, of False] show "\<not> f64_negative (f64_powi2 k)"
    "f64_finite (f64_powi2 k)" "f64_units (f64_powi2 k) = 2 ^ nat (1074 + k)"
    using len bound by (simp_all add: f64_powi2_def f64_finite_def) linarith
qed

lemma bit_length_zero: "bit_length 0 = 0"
  by (simp add: bit_length.simps)

lemma bit_length_finite:
  assumes "f64_finite x"
  shows "bit_length (f64_units x) \<le> 2098"
proof -
  obtain c k where ck: "f64_units x = c * 2 ^ k" "c < 2 ^ 53" "k \<le> 2045" using f64_canonical [OF assms] by blast
  show ?thesis
  proof (cases "c = 0")
    case False
    then show ?thesis using bit_length_le [OF ck(2)] ck(3) by (simp add: ck(1) bit_length_mult_power)
  qed (simp add: ck(1) bit_length_zero)
qed

lemma round_half_even_le: "a < c * b \<Longrightarrow> round_half_even a b \<le> c"
  using less_mult_imp_div_less [of a c b] by (auto simp: round_half_even_def Let_def)

lemma round_half_even_ge: "0 < b \<Longrightarrow> c * b \<le> a \<Longrightarrow> c \<le> round_half_even a b"
proof -
  assume "0 < b" "c * b \<le> a"
  then have "c \<le> a div b" by (simp add: less_eq_div_iff_mult_less_eq)
  then show ?thesis by (auto simp: round_half_even_def Let_def)
qed

lemma round_half_even_nearest:
  assumes "0 < q"
  shows "\<bar>int (round_half_even u q) * int q - int u\<bar> \<le> \<bar>k * int q - int u\<bar>"
proof -
  define a r where ar: "a = u div q" "r = u mod q"
  have u: "int u = int a * int q + int r" "r < q" using assms by (simp_all add: ar flip: of_nat_mult of_nat_add)
  have near: "\<bar>int (round_half_even u q) * int q - int u\<bar> = min (int r) (int q - int r)"
    using u(2) by (auto simp: round_half_even_def Let_def u(1) min_def algebra_simps simp flip: ar)
  have "int r \<le> \<bar>k * int q - int u\<bar>" if "k \<le> int a"
  proof -
    have "k * int q \<le> int a * int q" using that by (rule mult_right_mono) simp
    then show ?thesis using u by linarith
  qed
  moreover have "int q - int r \<le> \<bar>k * int q - int u\<bar>" if "\<not> k \<le> int a"
  proof -
    have "(int a + 1) * int q \<le> k * int q" using that by (intro mult_right_mono) simp_all
    then show ?thesis using u by (simp add: algebra_simps)
  qed
  ultimately show ?thesis unfolding near by (cases "k \<le> int a") auto
qed

lemma f64_finiteD: "f64_finite x \<Longrightarrow> \<not> f64_is_nan x" "f64_finite x \<Longrightarrow> \<not> f64_is_infinite x"
  by (simp_all add: f64_finite_iff)

lemma f64_infinite_not_finite: "f64_is_infinite x \<Longrightarrow> \<not> f64_finite x" "f64_is_nan x \<Longrightarrow> \<not> f64_finite x"
  by (simp_all add: f64_finite_iff)

lemma f64_abs_finite: "f64_finite (f64_abs x) \<longleftrightarrow> f64_finite x"
  by (simp add: f64_finite_def f64_abs_parts)

lemma f64_abs_infinite: "f64_is_infinite (f64_abs x) \<longleftrightarrow> f64_is_infinite x"
  by (simp add: f64_is_infinite_def f64_abs_parts)

lemma f64_nan_parts: "f64_is_nan f64_nan" "f64_is_nan (f64_neg x) \<longleftrightarrow> f64_is_nan x"
  using f64_signed_parts [of "4095 * 2 ^ 51" False]
  by (simp_all add: f64_nan_def f64_is_nan_def f64_neg_parts)

lemma f64_infinity_parts: "f64_is_infinite (f64_infinity negative)" "f64_negative (f64_infinity negative) = negative"
  using f64_signed_parts [of "2047 * 2 ^ 52" negative] by (simp_all add: f64_infinity_def f64_is_infinite_def)

lemma f64_of_units_finite:
  assumes "n < 2 ^ 53" "bit_length (n * 2 ^ j) \<le> 2098"
  shows "f64_negative (f64_of_units negative (n * 2 ^ j)) = negative"
    "f64_finite (f64_of_units negative (n * 2 ^ j))" "f64_units (f64_of_units negative (n * 2 ^ j)) = n * 2 ^ j"
proof -
  have "f64_negative (f64_of_units negative (n * 2 ^ j)) = negative \<and> f64_finite (f64_of_units negative (n * 2 ^ j))
    \<and> f64_units (f64_of_units negative (n * 2 ^ j)) = n * 2 ^ j"
  proof (cases "n = 0")
    case True
    then show ?thesis using f64_signed_parts [of 0 negative]
      by (simp add: f64_of_units_zero f64_finite_def f64_units_def)
  next
    case False
    then have "bit_length (n * 2 ^ j) - 52 \<noteq> 2047" using assms(2) by simp
    then show ?thesis using False assms f64_of_units_exact [of n j negative] by (simp add: f64_finite_def)
  qed
  then show "f64_negative (f64_of_units negative (n * 2 ^ j)) = negative"
    "f64_finite (f64_of_units negative (n * 2 ^ j))" "f64_units (f64_of_units negative (n * 2 ^ j)) = n * 2 ^ j" by blast+
qed

lemma f64_zero_iff:
  assumes "f64_finite x"
  shows "f64_eq (f64_abs x) (f64_of_int 0) \<longleftrightarrow> f64_units x = 0"
proof -
  have zero: "f64_of_int 0 = f64_signed False 0" by (simp add: f64_of_int_def f64_round_def)
  note parts = f64_signed_parts [of 0 False, simplified]
  have "f64_finite (f64_of_int 0)" "f64_int (f64_of_int 0) = 0"
    by (simp_all add: zero f64_finite_def f64_int_def f64_units_def parts)
  then show ?thesis using assms
    by (simp add: f64_eq_def f64_finiteD f64_abs_finite f64_position_def) (simp add: f64_int_def f64_abs_parts f64_abs_units)
qed

lemma f64_round_nat: "f64_round False (int n) d = f64_signed False (f64_of_ratio n d)"
  by (simp add: f64_round_def f64_of_ratio_def)

lemma f64_of_int_units: "f64_of_int (int n) = f64_of_units False (n * 2 ^ 1074)"
proof -
  have "f64_of_ratio (n * 2 ^ 1074) (1 * 2 ^ 1074) = f64_of_ratio n 1" by (rule f64_of_ratio_cancel) simp
  then show ?thesis by (simp only: f64_of_int_def f64_round_nat f64_of_units_def mult_1)
qed

lemma f64_mul_power:
  assumes "n < 2 ^ 53" "- 1074 \<le> k" "k \<le> 1023"
  shows "f64_mul (f64_of_int (int n)) (f64_powi2 k) = f64_of_units False (n * 2 ^ nat (1074 + k))"
proof -
  have len: "bit_length (n * 2 ^ 1074) \<le> 2098"
  proof (cases "n = 0")
    case False
    then have "bit_length (n * 2 ^ 1074) = bit_length n + 1074" by (intro bit_length_mult_power) simp
    then show ?thesis using bit_length_le [OF assms(1)] by linarith
  qed (simp add: bit_length_zero)
  note left = f64_of_units_finite [OF assms(1) len, of False, folded f64_of_int_units]
  note right = f64_powi2_parts [OF assms(2,3)]
  have "f64_mul (f64_of_int (int n)) (f64_powi2 k) =
      f64_round False (int (n * 2 ^ 1074) * int (2 ^ nat (1074 + k))) (2 ^ 2148)"
    using left right by (simp only: f64_mul_def Let_def f64_finiteD f64_int_def) simp
  also have "\<dots> = f64_signed False (f64_of_ratio (n * 2 ^ nat (1074 + k) * 2 ^ 1074) (2 ^ 1074 * 2 ^ 1074))"
    by (simp only: of_nat_mult [symmetric] f64_round_nat power_add [symmetric] ac_simps) simp
  also have "\<dots> = f64_of_units False (n * 2 ^ nat (1074 + k))"
    unfolding f64_of_units_def by (subst f64_of_ratio_cancel) simp_all
  finally show ?thesis .
qed

text \<open>The integer a number of at most 53 bits rounds to.\<close>

lemma f64_rounded:
  assumes "n < 2 ^ 53" "bit_length (n * 2 ^ j) \<le> 2098"
    "round_half_even (n * 2 ^ j) (2 ^ 1074) < 2 ^ 53"
  shows "f64_as_u64 (f64_round_ties_even (f64_of_units False (n * 2 ^ j))) = round_half_even (n * 2 ^ j) (2 ^ 1074)"
proof -
  define r where "r = round_half_even (n * 2 ^ j) (2 ^ 1074)"
  note units = f64_of_units_finite [of _ _ False]
  have first: "\<not> f64_negative (f64_of_units False (n * 2 ^ j))" "f64_finite (f64_of_units False (n * 2 ^ j))"
    "f64_units (f64_of_units False (n * 2 ^ j)) = n * 2 ^ j"
    using units [OF assms(1,2)] by blast+
  have "bit_length (r * 2 ^ 1074) \<le> 2098"
  proof (cases "r = 0")
    case False
    then have "bit_length (r * 2 ^ 1074) = bit_length r + 1074" by (intro bit_length_mult_power) simp
    then show ?thesis using bit_length_le [OF assms(3)] unfolding r_def by linarith
  qed (simp add: bit_length_zero)
  then have second: "\<not> f64_negative (f64_of_units False (r * 2 ^ 1074))" "f64_finite (f64_of_units False (r * 2 ^ 1074))"
    "f64_units (f64_of_units False (r * 2 ^ 1074)) = r * 2 ^ 1074"
    using units [of r 1074] assms(3) by (simp_all only: r_def) blast+
  have "f64_round_ties_even (f64_of_units False (n * 2 ^ j)) = f64_of_units False (r * 2 ^ 1074)"
    using first by (simp only: f64_round_ties_even_def f64_finite_iff r_def) simp
  moreover have "r \<le> 2 ^ 64 - 1" using assms(3) by (simp add: r_def)
  ultimately show ?thesis using second by (simp only: f64_as_u64_def f64_finite_iff) (simp add: r_def)
qed


end
