(* ===== verification/Ast.thy ===== *)
theory Ast
  imports Span Ieee
begin

text \<open>
  The abstract syntax tree of \<open>compiler/paco-syntax/src/ast.rs\<close>: one datatype per struct or
  enum, with the source's constructors and with the struct's fields as selectors.  The types that
  only contain expressions and blocks take these as parameters (\<open>'e\<close> and \<open>'b\<close>), and the
  recursion is tied at \<open>expr\<close> and \<open>block\<close>.  A floating point literal is its IEEE bit pattern
  and a character literal the UTF-8 encoding of the character.
\<close>

section \<open>Literals, operators and patterns\<close>

datatype literal =
    LitInt int
  | LitFloat f64
  | LitBool bool
  | LitString string
  | LitChar rchar

datatype binary_op =
    OpAdd | OpSub | OpMul | OpDiv | OpRem | OpEq | OpNe | OpLt | OpLe | OpGt | OpGe | OpAnd | OpOr
  | OpBitAnd | OpBitOr | OpBitXor | OpShl | OpShr

datatype unary_op = OpNot | OpNeg | OpDeref | OpBitNot

datatype pat =
    PatIdent string span
  | PatWildcard span
  | PatLiteral literal span
  | PatTuple "pat list" span
  | PatStruct (pat_path: "string list") (pat_fields: "(string \<times> pat) list") (pat_rest: bool) span
  | PatEnum "string list" "pat list" span
  | PatRange pat pat bool span
  | PatOr "pat list" span
  | PatBinding string pat span
  | PatReference bool pat span

section \<open>Types and declarations, over expressions and blocks\<close>

datatype 'e ty =
    TyPath "string list" span
  | TyGeneric "string list" "'e ty list" span
  | TyTuple "'e ty list" span
  | TySlice "'e ty" span
  | TyBorrow bool "string option" "'e ty" span
  | TyRawPointer bool "'e ty" span
  | TyDyn "string list" span
  | TyFn "'e ty list" "'e ty option" "string option" bool span
  | TyInfer span
  | TyNever span
  | TyConst 'e span
  | TyDynDim span
  | TyExpand string span
  | TyExistential string span
  | TySplice 'e span

datatype attribute =
    Attribute (attr_name: string) (attr_args: "attribute_arg list") (attr_span: span)
and attribute_arg =
    ArgLiteral literal span
  | ArgPath "string list" span
  | ArgNested attribute
  | ArgAssign string "string list" span
  | ArgAssignLiteral string literal span

datatype 'e generic_param_kind =
    KindType
  | KindLifetime
  | KindConst "'e ty"
  | KindConstPack "'e ty"
  | KindDim

datatype 'e generic_param =
  GenericParam (gp_name: string) (gp_kind: "'e generic_param_kind") (gp_bounds: "'e ty list")
    (gp_span: span)

datatype 'e param = Param (prm_pattern: pat) (prm_ty: "'e ty") (prm_span: span)

datatype 'e const_decl =
  ConstDecl (cst_name: string) (cst_ty: "'e ty") (cst_value: 'e) (cst_is_pub: bool) (cst_span: span)

datatype ('e, 'b) fn_decl =
  FnDecl (fn_name: string) (fn_name_splice: "'e option") (fn_generics: "'e generic_param list")
    (fn_params: "'e param list") (fn_return_ty: "'e ty option") (fn_body: 'b) (fn_is_pub: bool)
    (fn_is_unsafe: bool) (fn_is_iter: bool) (fn_is_comptime: bool) (fn_extern_abi: "string option")
    (fn_attrs: "attribute list") (fn_span: span)

datatype ('e, 'b) fn_signature =
  FnSignature (sig_name: string) (sig_generics: "'e generic_param list")
    (sig_params: "'e param list") (sig_return_ty: "'e ty option") (sig_body: "'b option")
    (sig_attrs: "attribute list") (sig_span: span)

datatype ('e, 'b) extern_block =
  ExternBlock (ext_abi: string) (ext_functions: "('e, 'b) fn_signature list")
    (ext_attrs: "attribute list") (ext_span: span)

datatype 'e field_decl =
  FieldDecl (fld_name: string) (fld_ty: "'e ty") (fld_is_pub: bool) (fld_attrs: "attribute list")
    (fld_span: span)

datatype 'e assoc_type_decl =
  AssocTypeDecl (at_name: string) (at_default: "'e ty option") (at_span: span)

datatype ('e, 'b) struct_decl =
  StructDecl (sd_name: string) (sd_generics: "'e generic_param list")
    (sd_fields: "'e field_decl list") (sd_methods: "('e, 'b) fn_decl list")
    (sd_consts: "'e const_decl list") (sd_assoc_types: "'e assoc_type_decl list")
    (sd_is_pub: bool) (sd_attrs: "attribute list") (sd_span: span)

datatype 'e variant_fields =
    VariantUnit
  | VariantTuple "'e ty list"
  | VariantStruct "'e field_decl list"

datatype 'e enum_variant =
  EnumVariant (ev_name: string) (ev_fields: "'e variant_fields") (ev_attrs: "attribute list")
    (ev_span: span)

datatype ('e, 'b) enum_decl =
  EnumDecl (ed_name: string) (ed_generics: "'e generic_param list")
    (ed_variants: "'e enum_variant list") (ed_methods: "('e, 'b) fn_decl list")
    (ed_consts: "'e const_decl list") (ed_is_pub: bool) (ed_attrs: "attribute list")
    (ed_span: span)

datatype ('e, 'b) trait_decl =
  TraitDecl (td_name: string) (td_generics: "'e generic_param list")
    (td_methods: "('e, 'b) fn_signature list") (td_consts: "'e const_decl list")
    (td_assoc_types: "'e assoc_type_decl list") (td_is_pub: bool) (td_attrs: "attribute list")
    (td_span: span)

datatype ('e, 'b) methods_block =
  MethodsBlock (mb_generics: "'e generic_param list") (mb_target: "'e ty")
    (mb_methods: "('e, 'b) fn_decl list") (mb_consts: "'e const_decl list") (mb_span: span)

datatype use_path_kind = UsePlain | UseDomain

datatype use_decl =
  UseDecl (use_path: "string list") (use_alias: "string option") (use_kind: use_path_kind)
    (use_span: span)

datatype ('e, 'b) item =
    ItemFn "('e, 'b) fn_decl"
  | ItemStruct "('e, 'b) struct_decl"
  | ItemEnum "('e, 'b) enum_decl"
  | ItemTrait "('e, 'b) trait_decl"
  | ItemMethods "('e, 'b) methods_block"
  | ItemUse use_decl
  | ItemConst "'e const_decl"
  | ItemExtern "('e, 'b) extern_block"

datatype ('e, 'b) quote_body = QuoteItem "('e, 'b) item" | QuoteExpr 'e

section \<open>Statements, expressions and modules\<close>

datatype 'e let_stmt =
  LetStmt (let_mutable: bool) (let_pattern: pat) (let_ty: "'e ty option") (let_value: "'e option")
    (let_span: span)

datatype ('e, 'b) stmt =
    StmtLet "'e let_stmt"
  | StmtExpr 'e
  | StmtItem "('e, 'b) item"

datatype 'e match_arm =
  MatchArm (arm_pattern: pat) (arm_guard: "'e option") (arm_body: 'e) (arm_span: span)

datatype 'e closure_param =
  ClosureParam (cp_pattern: pat) (cp_ty: "'e ty option") (cp_span: span)

datatype ('e, 'b) select_arm = SelectArm (sa_operation: 'e) (sa_body: 'b) (sa_span: span)

datatype expr =
    ELiteral literal span
  | EIdent string span
  | EBlock block
  | EUnsafe block span
  | EIf expr block "expr option" span
  | ELoop block span
  | EWhile expr block span
  | EMatch expr "expr match_arm list" span
  | ECall expr "expr ty list" "expr list" span
  | EMethodCall expr string "expr list" span
  | EAssociatedCall "expr ty" string "expr list" span
  | EBinary binary_op expr expr span
  | EUnary unary_op expr span
  | EAssign expr expr span
  | EField expr string span
  | EIndex expr "expr list" span
  | ETry expr span
  | ECast expr "expr ty" span
  | EReturn "expr option" span
  | EBreak "expr option" span
  | EContinue span
  | ESpawn expr span
  | EClosure "expr closure_param list" expr span
  | ESelect "(expr, block) select_arm list" "block option" span
  | EComptime expr span
  | EQuote "(expr, block) quote_body" span
  | ESplice expr span
  | EYield expr span
  | EStructLiteral "expr ty" "(string \<times> expr) list" span
  | EBorrow bool expr span
  | ETuple "expr list" span
and block = Block (blk_stmts: "(expr, block) stmt list") (blk_tail: "expr option") (blk_span: span)

datatype module_decl = ModuleDecl (md_name: string) (md_span: span)

datatype module =
  Module (mod_name: "module_decl option") (mod_items: "(expr, block) item list") (mod_span: span)

section \<open>Generic parameters and attributes\<close>

definition is_const_param :: "'e generic_param \<Rightarrow> bool" where
  "is_const_param p = (case gp_kind p of KindConst _ \<Rightarrow> True | KindConstPack _ \<Rightarrow> True | _ \<Rightarrow> False)"

definition is_pack_param :: "'e generic_param \<Rightarrow> bool" where
  "is_pack_param p = (case gp_kind p of KindConstPack _ \<Rightarrow> True | _ \<Rightarrow> False)"

definition is_dim_param :: "'e generic_param \<Rightarrow> bool" where
  "is_dim_param p = (case gp_kind p of KindDim \<Rightarrow> True | _ \<Rightarrow> False)"

definition last_is :: "string \<Rightarrow> string list \<Rightarrow> bool" where
  "last_is name path = (path \<noteq> [] \<and> last path = name)"

definition has_derive :: "attribute list \<Rightarrow> string \<Rightarrow> bool" where
  "has_derive attrs name =
     list_ex (\<lambda>arg. case arg of ArgPath path _ \<Rightarrow> last_is name path | _ \<Rightarrow> False)
       (concat (map attr_args (filter (\<lambda>attr. attr_name attr = ''derive'') attrs)))"

definition bounded_by :: "'e generic_param list \<Rightarrow> string \<Rightarrow> string list" where
  "bounded_by params bound =
     map gp_name (filter (\<lambda>param. list_ex (\<lambda>ty. case ty of TyPath path _ \<Rightarrow> last_is bound path
        | TyGeneric path _ _ \<Rightarrow> last_is bound path | _ \<Rightarrow> False) (gp_bounds param)) params)"

definition generic_names :: "'e generic_param list \<Rightarrow> string list" where
  "generic_names params =
     map gp_name (filter (\<lambda>param. case gp_kind param of KindLifetime \<Rightarrow> False | _ \<Rightarrow> True) params)"

section \<open>Parts are smaller\<close>

lemma list_part_size:
  "e \<in> set es \<Longrightarrow> size e < Suc (k + size_list size (es :: expr list))"
  "e \<in> set es \<Longrightarrow> size e < Suc (size_list size es + k)"
  "e \<in> set es \<Longrightarrow> size e < Suc (size_list size es)"
  using size_list_less [of e es size] by simp_all

lemma arm_part_size:
  "arm \<in> set arms \<Longrightarrow> size (arm_body arm) < size_list (size_match_arm size) (arms :: expr match_arm list)"
  "arm \<in> set arms \<Longrightarrow> arm_guard arm = Some g \<Longrightarrow> size g < size_list (size_match_arm size) arms"
  using size_list_less [of arm arms "size_match_arm size"] by (cases arm; simp)+

lemma field_part_size:
  "f \<in> set fs \<Longrightarrow> size (snd f) < size_list (size_prod (\<lambda>_. 0) size) (fs :: (string \<times> expr) list)"
  using size_list_less [of f fs "size_prod (\<lambda>_. 0) size"] by (cases f) simp

lemma let_part_size: "let_value l = Some e \<Longrightarrow> size (e :: expr) < size_let_stmt size l"
  by (cases l) simp

lemma select_arm_size:
  assumes "arm \<in> set (arms :: (expr, block) select_arm list)"
  shows "size (sa_operation arm) < size_list (size_select_arm size size) arms"
    "size (sa_body arm) < size_list (size_select_arm size size) arms"
  using size_list_less [OF assms, of "size_select_arm size size"] by (cases arm; simp)+

end
