(* ===== verification/Decimals.thy ===== *)
theory Decimals
  imports Prelude
begin

text \<open>
  Decimal numerals of the standard library: \<open>str::parse\<close> for the integer types, the inverse of
  the printing functions of the prelude.
\<close>

section \<open>Digits\<close>

definition digit_value :: "char \<Rightarrow> nat option" where
  "digit_value c = (if CHR ''0'' \<le> c \<and> c \<le> CHR ''9'' then Some (of_char c - 48) else None)"

fun digits_value :: "nat \<Rightarrow> string \<Rightarrow> nat option" where
  "digits_value acc [] = Some acc"
| "digits_value acc (c # cs) =
     (case digit_value c of None \<Rightarrow> None | Some d \<Rightarrow> digits_value (10 * acc + d) cs)"

definition parse_nat :: "string \<Rightarrow> nat option" where
  "parse_nat s = (if s = [] then None else digits_value 0 s)"

definition parse_signed :: "string \<Rightarrow> int option" where
  "parse_signed s = (case s of
     [] \<Rightarrow> None
   | c # cs \<Rightarrow>
       if c = CHR ''-'' then map_option (\<lambda>n. - int n) (parse_nat cs)
       else if c = CHR ''+'' then map_option int (parse_nat cs)
       else map_option int (parse_nat s))"

text \<open>\<open>s.parse::<i64>().ok()\<close>, and \<open>s.parse::<u64>().ok()\<close> with its optional plus sign.\<close>

definition parse_i64 :: "string \<Rightarrow> int option" where
  "parse_i64 s = Option.bind (parse_signed s) checked"

definition parse_u64 :: "string \<Rightarrow> nat option" where
  "parse_u64 s =
     Option.bind (case s of c # cs \<Rightarrow> if c = CHR ''+'' then parse_nat cs else parse_nat s | [] \<Rightarrow> None)
       (\<lambda>n. if n < 2 ^ 64 then Some n else None)"

section \<open>Printing and parsing are inverse\<close>

lemma of_char_digit_char: "d < 10 \<Longrightarrow> (of_char (digit_char d) :: nat) = 48 + d"
  by (simp add: digit_char_def)

lemma digit_value_digit_char [simp]: "d < 10 \<Longrightarrow> digit_value (digit_char d) = Some d"
  by (simp add: digit_value_def less_eq_char_def of_char_digit_char)

lemma digits_value_append:
  "digits_value acc (xs @ ys) = Option.bind (digits_value acc xs) (\<lambda>a. digits_value a ys)"
  by (induction xs arbitrary: acc) (simp_all split: option.splits)

lemma digits_value_nat_string:
  "digits_value 0 (nat_string n) = Some n"
proof (induction n rule: nat_string.induct)
  case (1 n)
  then show ?case
    by (cases "n < 10") (simp_all add: nat_string.simps [of n] digits_value_append)
qed

lemma nat_string_digits: "c \<in> set (nat_string n) \<Longrightarrow> \<exists>d<10. c = digit_char d"
proof (induction n rule: nat_string.induct)
  case (1 n)
  show ?case
  proof (cases "n < 10")
    case True
    then show ?thesis using "1.prems" by (auto simp: nat_string.simps [of n])
  next
    case False
    then have "c \<in> set (nat_string (n div 10)) \<or> c = digit_char (n mod 10)"
      using "1.prems" by (auto simp: nat_string.simps [of n])
    moreover have "n mod 10 < 10" by simp
    ultimately show ?thesis using "1.IH" False by blast
  qed
qed

lemma nat_string_nonempty [simp]: "nat_string n \<noteq> []"
  by (simp add: nat_string.simps [of n])

lemma parse_nat_nat_string [simp]: "parse_nat (nat_string n) = Some n"
  by (simp add: parse_nat_def digits_value_nat_string)

lemma digit_char_not_sign: "d < 10 \<Longrightarrow> digit_char d \<noteq> CHR ''-'' \<and> digit_char d \<noteq> CHR ''+''"
proof -
  assume d: "d < 10"
  have "(of_char (digit_char d) :: nat) \<noteq> of_char CHR ''-''"
       "(of_char (digit_char d) :: nat) \<noteq> of_char CHR ''+''"
    using of_char_digit_char [OF d] by simp_all
  then show ?thesis by metis
qed

lemma parse_signed_int_string [simp]: "parse_signed (int_string x) = Some x"
proof (cases "x < 0")
  case True
  then show ?thesis by (simp add: int_string_def parse_signed_def)
next
  case False
  obtain c cs where s: "nat_string (nat x) = c # cs" by (cases "nat_string (nat x)") auto
  then have "c \<noteq> CHR ''-''" "c \<noteq> CHR ''+''"
    using nat_string_digits [of c "nat x"] digit_char_not_sign by auto
  moreover have "parse_nat (c # cs) = Some (nat x)" by (simp flip: s)
  ultimately show ?thesis using False s by (simp add: int_string_def parse_signed_def)
qed

lemma parse_i64_int_string: "parse_i64 (int_string x) = checked x"
  by (simp add: parse_i64_def)

lemma parse_i64_int_stringD [dest]: "parse_i64 (int_string x) = Some y \<Longrightarrow> y = x"
  by (auto simp: parse_i64_int_string)

lemma int_string_inject [simp]: "int_string x = int_string y \<longleftrightarrow> x = y"
  by (metis option.inject parse_signed_int_string)

lemma nat_string_inject [simp]: "nat_string m = nat_string n \<longleftrightarrow> m = n"
  by (metis option.inject parse_nat_nat_string)

end
