(* ===== verification/MatchCheck.thy ===== *)
theory MatchCheck
  imports Ast Decimals
begin

text \<open>
  Pattern usefulness and exhaustiveness, \<open>compiler/paco-match/src/lib.rs\<close>.

  The analysis names the values a pattern covers by strings.  The printing functions of the
  standard library these names rely on are parameters: \<open>fd\<close> is \<open>f64::to_string\<close> and \<open>sd\<close> the
  \<open>Debug\<close> formatting of a string.  A \<open>HashSet\<close> of names is a list without duplicates; the order
  in which the hash set is iterated is unspecified, so it is a parameter \<open>iter\<close> as well.
\<close>

section \<open>Covered patterns\<close>

record constructor_set =
  cs_constructors :: "string list"
  cs_fallback_witness :: "string option"

definition constructor_set_closed :: "string list \<Rightarrow> constructor_set" where
  "constructor_set_closed cs = \<lparr>cs_constructors = cs, cs_fallback_witness = None\<rparr>"

definition constructor_set_open :: "string \<Rightarrow> constructor_set" where
  "constructor_set_open w = \<lparr>cs_constructors = [], cs_fallback_witness = Some w\<rparr>"

record unreachable_arm =
  ua_index :: nat
  ua_witness :: "string option"

record usefulness_report =
  ur_unreachable_arms :: "unreachable_arm list"
  ur_missing_witness :: "string option"

record int_range =
  ir_start :: int
  ir_end :: int
  ir_inclusive :: bool

definition inclusive_end :: "int_range \<Rightarrow> int option" where
  "inclusive_end r = (if ir_inclusive r then Some (ir_end r) else checked_sub (ir_end r) 1)"

definition range_contains :: "int_range \<Rightarrow> int \<Rightarrow> bool" where
  "range_contains r value = (case inclusive_end r of
     None \<Rightarrow> False
   | Some e \<Rightarrow> ir_start r \<le> value \<and> value \<le> e)"

definition contains_range :: "int_range \<Rightarrow> int_range \<Rightarrow> bool" where
  "contains_range r other = (case inclusive_end r of
     None \<Rightarrow> False
   | Some self_end \<Rightarrow> (case inclusive_end other of
       None \<Rightarrow> True
     | Some other_end \<Rightarrow> ir_start r \<le> ir_start other \<and> other_end \<le> self_end))"

definition range_display :: "int_range \<Rightarrow> string" where
  "range_display r = int_string (ir_start r) @ (if ir_inclusive r then ''..='' else ''..'') @
     int_string (ir_end r)"

record covered_patterns =
  cov_keys :: "string list"
  cov_int_ranges :: "int_range list"

definition covered_default :: covered_patterns where
  "covered_default = \<lparr>cov_keys = [], cov_int_ranges = []\<rparr>"

definition covered_key :: "string \<Rightarrow> covered_patterns" where
  "covered_key key = \<lparr>cov_keys = [key], cov_int_ranges = []\<rparr>"

definition covered_int_range :: "int_range \<Rightarrow> covered_patterns" where
  "covered_int_range r = \<lparr>cov_keys = [], cov_int_ranges = [r]\<rparr>"

definition contains_key :: "covered_patterns \<Rightarrow> string \<Rightarrow> bool" where
  "contains_key c key \<longleftrightarrow> List.member (cov_keys c) key \<or>
     (case parse_i64 key of None \<Rightarrow> False
      | Some value \<Rightarrow> list_ex (\<lambda>r. range_contains r value) (cov_int_ranges c))"

definition covered_extend :: "covered_patterns \<Rightarrow> covered_patterns \<Rightarrow> covered_patterns" where
  "covered_extend c other = \<lparr>cov_keys = fold List.insert (cov_keys other) (cov_keys c),
     cov_int_ranges = cov_int_ranges c @ cov_int_ranges other\<rparr>"

definition patterns_covered_witness ::
  "(string list \<Rightarrow> string list) \<Rightarrow> covered_patterns \<Rightarrow> covered_patterns \<Rightarrow> string option" where
  "patterns_covered_witness iter self covered =
     (if list_ex (\<lambda>key. \<not> contains_key covered key) (iter (cov_keys self)) then None
      else if list_ex (\<lambda>r. \<not> list_ex (\<lambda>cr. contains_range cr r) (cov_int_ranges covered))
                (cov_int_ranges self) then None
      else (case iter (cov_keys self) of
          key # _ \<Rightarrow> Some key
        | [] \<Rightarrow> (case cov_int_ranges self of [] \<Rightarrow> None | r # _ \<Rightarrow> Some (range_display r))))"

definition is_exhausted_by :: "constructor_set \<Rightarrow> covered_patterns \<Rightarrow> bool" where
  "is_exhausted_by cs covered \<longleftrightarrow> cs_fallback_witness cs = None \<and> cs_constructors cs \<noteq> [] \<and>
     list_all (contains_key covered) (cs_constructors cs)"

section \<open>Coverage of a pattern\<close>

datatype pattern_coverage_t = CatchAll | Covered covered_patterns | Opaque

definition coverage_covered_witness ::
  "(string list \<Rightarrow> string list) \<Rightarrow> pattern_coverage_t \<Rightarrow> covered_patterns \<Rightarrow> string option" where
  "coverage_covered_witness iter cov covered = (case cov of
     Covered patterns \<Rightarrow> patterns_covered_witness iter patterns covered
   | _ \<Rightarrow> None)"

definition int_literal :: "pat \<Rightarrow> int option" where
  "int_literal p = (case p of PatLiteral (LitInt value) _ \<Rightarrow> Some value | _ \<Rightarrow> None)"

definition int_range_of :: "pat \<Rightarrow> pat \<Rightarrow> bool \<Rightarrow> int_range option" where
  "int_range_of s e inclusive = (case int_literal s of
     None \<Rightarrow> None
   | Some a \<Rightarrow> (case int_literal e of
       None \<Rightarrow> None
     | Some b \<Rightarrow> Some \<lparr>ir_start = a, ir_end = b, ir_inclusive = inclusive\<rparr>))"

fun is_irrefutable_pattern :: "pat \<Rightarrow> bool" where
  "is_irrefutable_pattern (PatWildcard _) = True"
| "is_irrefutable_pattern (PatIdent _ _) = True"
| "is_irrefutable_pattern (PatBinding _ p _) = is_irrefutable_pattern p"
| "is_irrefutable_pattern (PatReference _ p _) = is_irrefutable_pattern p"
| "is_irrefutable_pattern (PatOr ps _) = list_ex is_irrefutable_pattern ps"
| "is_irrefutable_pattern (PatStruct _ fs _ _) =
     list_all (\<lambda>f. is_irrefutable_pattern (snd f)) fs"
| "is_irrefutable_pattern (PatLiteral _ _) = False"
| "is_irrefutable_pattern (PatTuple _ _) = False"
| "is_irrefutable_pattern (PatEnum _ _ _) = False"
| "is_irrefutable_pattern (PatRange _ _ _ _) = False"

definition literal_key :: "(f64 \<Rightarrow> string) \<Rightarrow> (string \<Rightarrow> string) \<Rightarrow> literal \<Rightarrow> string" where
  "literal_key fd sd l = (case l of
     LitBool value \<Rightarrow> (if value then ''true'' else ''false'')
   | LitInt value \<Rightarrow> int_string value
   | LitFloat value \<Rightarrow> fd value
   | LitString value \<Rightarrow> sd value
   | LitChar value \<Rightarrow> value)"

definition enum_key :: "string \<Rightarrow> string \<Rightarrow> string" where
  "enum_key e v = e @ ''::'' @ v"

fun pattern_coverage :: "(f64 \<Rightarrow> string) \<Rightarrow> (string \<Rightarrow> string) \<Rightarrow> pat \<Rightarrow> pattern_coverage_t"
and or_pattern_loop ::
  "(f64 \<Rightarrow> string) \<Rightarrow> (string \<Rightarrow> string) \<Rightarrow> covered_patterns \<Rightarrow> pat list \<Rightarrow> pattern_coverage_t" where
  "pattern_coverage fd sd (PatWildcard _) = CatchAll"
| "pattern_coverage fd sd (PatIdent _ _) = CatchAll"
| "pattern_coverage fd sd (PatBinding _ p _) = pattern_coverage fd sd p"
| "pattern_coverage fd sd (PatReference _ p _) = pattern_coverage fd sd p"
| "pattern_coverage fd sd (PatLiteral l _) = Covered (covered_key (literal_key fd sd l))"
| "pattern_coverage fd sd (PatEnum path fs _) =
     (if 2 \<le> length path \<and> list_all is_irrefutable_pattern fs
      then Covered (covered_key (enum_key (path ! 0) (last path))) else Opaque)"
| "pattern_coverage fd sd (PatRange s e inclusive _) = (case int_range_of s e inclusive of
     Some r \<Rightarrow> Covered (covered_int_range r)
   | None \<Rightarrow> Opaque)"
| "pattern_coverage fd sd (PatOr ps _) = or_pattern_loop fd sd covered_default ps"
| "pattern_coverage fd sd (PatStruct path fs rest sp) =
     (if is_irrefutable_pattern (PatStruct path fs rest sp) then CatchAll else Opaque)"
| "pattern_coverage fd sd (PatTuple _ _) = Opaque"
| "or_pattern_loop fd sd covered [] =
     (if cov_keys covered = [] \<and> cov_int_ranges covered = [] then Opaque else Covered covered)"
| "or_pattern_loop fd sd covered (p # ps) = (case pattern_coverage fd sd p of
     CatchAll \<Rightarrow> CatchAll
   | Covered patterns \<Rightarrow> or_pattern_loop fd sd (covered_extend covered patterns) ps
   | Opaque \<Rightarrow> Opaque)"

definition or_pattern_coverage ::
  "(f64 \<Rightarrow> string) \<Rightarrow> (string \<Rightarrow> string) \<Rightarrow> pat list \<Rightarrow> pattern_coverage_t" where
  "or_pattern_coverage fd sd ps = or_pattern_loop fd sd covered_default ps"

section \<open>The analysis\<close>

record match_state =
  ms_catch_all :: bool
  ms_catch_all_witness :: "string option"
  ms_covered :: covered_patterns
  ms_unreachable :: "unreachable_arm list"

definition match_state_init :: match_state where
  "match_state_init = \<lparr>ms_catch_all = False, ms_catch_all_witness = None,
     ms_covered = covered_default, ms_unreachable = []\<rparr>"

definition add_coverage :: "pattern_coverage_t \<Rightarrow> match_state \<Rightarrow> match_state" where
  "add_coverage cov st = (case cov of
     CatchAll \<Rightarrow> st\<lparr>ms_catch_all := True, ms_catch_all_witness := Some ''_''\<rparr>
   | Covered patterns \<Rightarrow> st\<lparr>ms_covered := covered_extend (ms_covered st) patterns\<rparr>
   | Opaque \<Rightarrow> st)"

definition note_exhausted :: "constructor_set \<Rightarrow> match_state \<Rightarrow> match_state" where
  "note_exhausted cs st = (if is_exhausted_by cs (ms_covered st)
     then st\<lparr>ms_catch_all := True, ms_catch_all_witness := Some ''all constructors''\<rparr> else st)"

definition match_step :: "(string list \<Rightarrow> string list) \<Rightarrow> (f64 \<Rightarrow> string) \<Rightarrow> (string \<Rightarrow> string) \<Rightarrow>
    constructor_set \<Rightarrow> nat \<times> expr match_arm \<Rightarrow> match_state \<Rightarrow> match_state" where
  "match_step iter fd sd cs ia st = (case ia of (index, arm) \<Rightarrow>
     let coverage = pattern_coverage fd sd (arm_pattern arm) in
     if ms_catch_all st then
       st\<lparr>ms_unreachable := ms_unreachable st @
         [\<lparr>ua_index = index, ua_witness = ms_catch_all_witness st\<rparr>]\<rparr>
     else (case coverage_covered_witness iter coverage (ms_covered st) of
       Some witness \<Rightarrow> st\<lparr>ms_unreachable := ms_unreachable st @
         [\<lparr>ua_index = index, ua_witness = Some witness\<rparr>]\<rparr>
     | None \<Rightarrow>
         if arm_guard arm \<noteq> None then st else note_exhausted cs (add_coverage coverage st)))"

definition analyze_match :: "(string list \<Rightarrow> string list) \<Rightarrow> (f64 \<Rightarrow> string) \<Rightarrow> (string \<Rightarrow> string) \<Rightarrow>
    expr match_arm list \<Rightarrow> constructor_set \<Rightarrow> usefulness_report" where
  "analyze_match iter fd sd arms cs =
    (let st = fold (match_step iter fd sd cs) (enumerate 0 arms) match_state_init;
         missing = (if ms_catch_all st then None
           else (case find (\<lambda>c. \<not> contains_key (ms_covered st) c) (cs_constructors cs) of
             Some c \<Rightarrow> Some c | None \<Rightarrow> cs_fallback_witness cs))
     in \<lparr>ur_unreachable_arms = ms_unreachable st, ur_missing_witness = missing\<rparr>)"

section \<open>What a pattern matches\<close>

text \<open>The run-time meaning of patterns, against which the analysis is judged.  Equality of
  floating point values (\<open>feq\<close>) and the meaning of a range whose ends are not integer literals
  (\<open>rng\<close>) are left open.\<close>

datatype val =
    VLit literal
  | VTuple "val list"
  | VStruct "(string \<times> val) list"
  | VEnum string string "val list"
  | VRef val

fun lit_kind :: "literal \<Rightarrow> nat" where
  "lit_kind (LitInt _) = 0"
| "lit_kind (LitFloat _) = 1"
| "lit_kind (LitBool _) = 2"
| "lit_kind (LitString _) = 3"
| "lit_kind (LitChar _) = 4"

definition same_kind :: "literal \<Rightarrow> literal \<Rightarrow> bool" where
  "same_kind l m \<longleftrightarrow> lit_kind l = lit_kind m"

definition lit_matches :: "(f64 \<Rightarrow> f64 \<Rightarrow> bool) \<Rightarrow> literal \<Rightarrow> literal \<Rightarrow> bool" where
  "lit_matches feq l m = (case l of
     LitFloat a \<Rightarrow> (case m of LitFloat b \<Rightarrow> feq a b | _ \<Rightarrow> False)
   | _ \<Rightarrow> l = m)"

fun is_int_val :: "val \<Rightarrow> bool" where
  "is_int_val (VLit (LitInt _)) = True"
| "is_int_val (VRef v) = is_int_val v"
| "is_int_val _ = False"

type_synonym range_meaning = "pat \<Rightarrow> pat \<Rightarrow> bool \<Rightarrow> val \<Rightarrow> bool"

fun int_of_val :: "val \<Rightarrow> int option" where
  "int_of_val (VLit (LitInt i)) = Some i"
| "int_of_val _ = None"

definition range_matches :: "range_meaning \<Rightarrow> range_meaning" where
  "range_matches rng s e inclusive v = (case (int_range_of s e inclusive, int_of_val v) of
     (Some r, Some i) \<Rightarrow> ir_start r \<le> i \<and> (if inclusive then i \<le> ir_end r else i < ir_end r)
   | _ \<Rightarrow> rng s e inclusive v)"

fun pat_matches :: "(f64 \<Rightarrow> f64 \<Rightarrow> bool) \<Rightarrow> range_meaning \<Rightarrow> pat \<Rightarrow> val \<Rightarrow> bool"
and pats_match :: "(f64 \<Rightarrow> f64 \<Rightarrow> bool) \<Rightarrow> range_meaning \<Rightarrow> pat list \<Rightarrow> val list \<Rightarrow> bool" where
  "pat_matches feq rng (PatWildcard _) v = True"
| "pat_matches feq rng (PatIdent _ _) v = True"
| "pat_matches feq rng (PatBinding _ p _) v = pat_matches feq rng p v"
| "pat_matches feq rng (PatReference _ p _) v =
     (case v of VRef w \<Rightarrow> pat_matches feq rng p w | _ \<Rightarrow> False)"
| "pat_matches feq rng (PatLiteral l _) v = (case v of VLit m \<Rightarrow> lit_matches feq l m | _ \<Rightarrow> False)"
| "pat_matches feq rng (PatTuple ps _) v = (case v of VTuple vs \<Rightarrow> pats_match feq rng ps vs | _ \<Rightarrow> False)"
| "pat_matches feq rng (PatEnum path ps _) v = (case v of
     VEnum e va vs \<Rightarrow> path \<noteq> [] \<and> hd path = e \<and> last path = va \<and> pats_match feq rng ps vs
   | _ \<Rightarrow> False)"
| "pat_matches feq rng (PatStruct _ fs _ _) v = (case v of
     VStruct vs \<Rightarrow> list_all (\<lambda>f. case map_of vs (fst f) of
         None \<Rightarrow> False | Some w \<Rightarrow> pat_matches feq rng (snd f) w) fs
   | _ \<Rightarrow> False)"
| "pat_matches feq rng (PatOr ps _) v = list_ex (\<lambda>p. pat_matches feq rng p v) ps"
| "pat_matches feq rng (PatRange s e inclusive _) v = range_matches rng s e inclusive v"
| "pats_match feq rng [] vs = (vs = [])"
| "pats_match feq rng (p # ps) vs = (case vs of [] \<Rightarrow> False
     | w # ws \<Rightarrow> pat_matches feq rng p w \<and> pats_match feq rng ps ws)"

text \<open>A pattern fits a value when the type checker lets it be matched against the value: literals
  of the value's kind (\<open>i64\<close> values for an integer range), variants of the value's enum with the variant's arity, fields the struct
  has.\<close>

fun fits :: "pat \<Rightarrow> val \<Rightarrow> bool"
and fits_list :: "pat list \<Rightarrow> val list \<Rightarrow> bool" where
  "fits (PatWildcard _) v = True"
| "fits (PatIdent _ _) v = True"
| "fits (PatBinding _ p _) v = fits p v"
| "fits (PatReference _ p _) v = (case v of VRef w \<Rightarrow> fits p w | _ \<Rightarrow> False)"
| "fits (PatLiteral l _) v = (case v of VLit m \<Rightarrow> same_kind l m | _ \<Rightarrow> False)"
| "fits (PatTuple ps _) v = (case v of VTuple vs \<Rightarrow> fits_list ps vs | _ \<Rightarrow> False)"
| "fits (PatEnum path ps _) v = (case v of
     VEnum e va vs \<Rightarrow> path \<noteq> [] \<and> hd path = e \<and> (last path = va \<longrightarrow> fits_list ps vs)
   | _ \<Rightarrow> False)"
| "fits (PatStruct _ fs _ _) v = (case v of
     VStruct vs \<Rightarrow> list_all (\<lambda>f. case map_of vs (fst f) of
         None \<Rightarrow> False | Some w \<Rightarrow> fits (snd f) w) fs
   | _ \<Rightarrow> False)"
| "fits (PatOr ps _) v = list_all (\<lambda>p. fits p v) ps"
| "fits (PatRange s e inclusive _) v =
     (case int_range_of s e inclusive of None \<Rightarrow> True | Some r \<Rightarrow> in_i64 (ir_end r) \<and>
        (case int_of_val v of None \<Rightarrow> False | Some i \<Rightarrow> in_i64 i))"
| "fits_list [] vs = (vs = [])"
| "fits_list (p # ps) vs = (case vs of [] \<Rightarrow> False | w # ws \<Rightarrow> fits p w \<and> fits_list ps ws)"

text \<open>The values of a closed set of constructors, as \<open>constructors_for_type\<close> builds it for
  booleans and enums.\<close>

definition inhabits :: "val \<Rightarrow> constructor_set \<Rightarrow> bool" where
  "inhabits v cs = (cs_fallback_witness cs \<noteq> None \<or>
     (case v of VEnum e va _ \<Rightarrow> enum_key e va \<in> set (cs_constructors cs)
      | VLit (LitBool b) \<Rightarrow> (if b then ''true'' else ''false'') \<in> set (cs_constructors cs)
      | _ \<Rightarrow> False))"

section \<open>Irrefutable patterns match\<close>

lemma irrefutable_matches:
  "is_irrefutable_pattern p \<Longrightarrow> fits p v \<Longrightarrow> pat_matches feq rng p v"
  "list_all is_irrefutable_pattern ps \<Longrightarrow> fits_list ps vs \<Longrightarrow> pats_match feq rng ps vs"
  by (induction p v and ps vs rule: fits_fits_list.induct)
    (fastforce simp: list_all_iff list_ex_iff split: val.splits option.splits list.splits)+

section \<open>Coverage is exact\<close>

fun strip_ref :: "val \<Rightarrow> val" where
  "strip_ref (VRef v) = strip_ref v"
| "strip_ref v = v"

text \<open>The values a set of covered patterns stands for.\<close>

definition covers :: "(f64 \<Rightarrow> string) \<Rightarrow> (string \<Rightarrow> string) \<Rightarrow> (f64 \<Rightarrow> f64 \<Rightarrow> bool) \<Rightarrow>
    covered_patterns \<Rightarrow> val \<Rightarrow> bool" where
  "covers fd sd feq c v = (case strip_ref v of
     VLit m \<Rightarrow> (\<exists>l. same_kind l m \<and> lit_matches feq l m \<and> literal_key fd sd l \<in> set (cov_keys c)) \<or>
       (\<exists>i. m = LitInt i \<and> (\<exists>r\<in>set (cov_int_ranges c). range_contains r i))
   | VEnum e va _ \<Rightarrow> enum_key e va \<in> set (cov_keys c)
   | _ \<Rightarrow> False)"

definition ranges_fit :: "covered_patterns \<Rightarrow> val \<Rightarrow> bool" where
  "ranges_fit c v \<longleftrightarrow> (cov_int_ranges c \<noteq> [] \<longrightarrow> is_int_val v)"

text \<open>What is assumed of the printing functions: floats that print alike are equal to the same
  floats (printing is precise), and strings that print alike are equal.\<close>

definition faithful_names ::
  "(f64 \<Rightarrow> string) \<Rightarrow> (string \<Rightarrow> string) \<Rightarrow> (f64 \<Rightarrow> f64 \<Rightarrow> bool) \<Rightarrow> bool" where
  "faithful_names fd sd feq \<longleftrightarrow>
     (\<forall>a b. fd a = fd b \<longrightarrow> (\<forall>x. feq a x = feq b x)) \<and> inj sd"

lemma literal_key_matches:
  assumes "faithful_names fd sd feq" "literal_key fd sd l = literal_key fd sd l'"
    "same_kind l m" "same_kind l' m"
  shows "lit_matches feq l m = lit_matches feq l' m"
proof -
  have sd: "inj sd" using assms(1) unfolding faithful_names_def by blast
  have same: "lit_kind l = lit_kind l'" using assms(3,4) by (simp add: same_kind_def)
  show ?thesis
  proof (cases "\<exists>a b. l = LitFloat a \<and> l' = LitFloat b")
    case True
    then obtain a b where l: "l = LitFloat a" "l' = LitFloat b" by blast
    then have "fd a = fd b" using assms(2) by (simp add: literal_key_def)
    then have "feq a x = feq b x" for x using assms(1) unfolding faithful_names_def by blast
    then show ?thesis using l by (simp add: lit_matches_def split: literal.splits)
  next
    case False
    then have "l = l'"
      using same assms(2) sd
      by (cases l; cases l') (simp_all add: literal_key_def inj_eq split: if_splits)
    then show ?thesis by simp
  qed
qed

lemma set_covered_extend [simp]:
  "set (cov_keys (covered_extend c d)) = set (cov_keys c) \<union> set (cov_keys d)"
  "cov_int_ranges (covered_extend c d) = cov_int_ranges c @ cov_int_ranges d"
proof -
  have "set (fold List.insert xs ys) = set ys \<union> set xs" for xs ys :: "string list"
    by (induction xs arbitrary: ys) auto
  then show "set (cov_keys (covered_extend c d)) = set (cov_keys c) \<union> set (cov_keys d)"
    by (simp add: covered_extend_def)
qed (simp add: covered_extend_def)

lemma covers_extend [simp]:
  "covers fd sd feq (covered_extend c d) v \<longleftrightarrow> covers fd sd feq c v \<or> covers fd sd feq d v"
  by (auto simp: covers_def split: val.splits)

lemma covers_default [simp]: "\<not> covers fd sd feq covered_default v"
  by (auto simp: covers_def covered_default_def split: val.splits)

lemma ranges_fit_extend [simp]:
  "ranges_fit (covered_extend c d) v \<longleftrightarrow> ranges_fit c v \<and> ranges_fit d v"
  by (auto simp: ranges_fit_def)

lemma ranges_fit_default [simp]: "ranges_fit covered_default v"
  by (simp add: ranges_fit_def covered_default_def)

lemma ranges_fit_key [simp]: "ranges_fit (covered_key k) v"
  by (simp add: ranges_fit_def covered_key_def)

lemma covers_literal:
  assumes "faithful_names fd sd feq" "same_kind l m"
  shows "covers fd sd feq (covered_key (literal_key fd sd l)) (VLit m) \<longleftrightarrow> lit_matches feq l m"
proof -
  have "covers fd sd feq (covered_key (literal_key fd sd l)) (VLit m) \<longleftrightarrow>
      (\<exists>l'. same_kind l' m \<and> lit_matches feq l' m \<and> literal_key fd sd l' = literal_key fd sd l)"
    by (simp add: covers_def covered_key_def)
  with literal_key_matches [OF assms(1)] assms(2) show ?thesis by metis
qed

lemma covers_enum [simp]:
  "covers fd sd feq (covered_key (enum_key e a)) (VEnum e b vs) \<longleftrightarrow> a = b"
  by (auto simp: covers_def covered_key_def enum_key_def)

lemma strip_ref_ref: "strip_ref (VRef v) = strip_ref v" "is_int_val (VRef v) = is_int_val v"
  by simp_all

lemma covers_ref [simp]: "covers fd sd feq c (VRef v) = covers fd sd feq c v"
  "ranges_fit c (VRef v) = ranges_fit c v"
  by (simp_all add: covers_def ranges_fit_def)

lemma int_of_valD: "int_of_val v = Some i \<Longrightarrow> v = VLit (LitInt i)"
  by (cases v rule: int_of_val.cases) auto

lemma range_contains_iff:
  assumes "in_i64 i" "in_i64 (ir_end r)"
  shows "range_contains r i \<longleftrightarrow>
    ir_start r \<le> i \<and> (if ir_inclusive r then i \<le> ir_end r else i < ir_end r)"
  using assms
  by (auto simp: range_contains_def inclusive_end_def checked_sub_def checked_def in_i64_def
      split: option.splits if_splits)

definition coverage_exact :: "(f64 \<Rightarrow> string) \<Rightarrow> (string \<Rightarrow> string) \<Rightarrow> (f64 \<Rightarrow> f64 \<Rightarrow> bool) \<Rightarrow>
    pattern_coverage_t \<Rightarrow> val \<Rightarrow> bool \<Rightarrow> bool" where
  "coverage_exact fd sd feq cov v m = (case cov of
     CatchAll \<Rightarrow> m
   | Covered c \<Rightarrow> (m \<longleftrightarrow> covers fd sd feq c v) \<and> ranges_fit c v
   | Opaque \<Rightarrow> True)"

lemmas coverage_exact_simps [simp] = coverage_exact_def [of _ _ _ CatchAll, simplified]
  coverage_exact_def [of _ _ _ "Covered _", simplified]
  coverage_exact_def [of _ _ _ Opaque, simplified]

lemma coverage_exact_ref [simp]:
  "coverage_exact fd sd feq cov (VRef v) m = coverage_exact fd sd feq cov v m"
  by (simp add: coverage_exact_def split: pattern_coverage_t.split)

lemma covers_range:
  assumes "int_range_of s e inclusive = Some r" "fits (PatRange s e inclusive sp) v"
  shows "coverage_exact fd sd feq (Covered (covered_int_range r)) v (range_matches rng s e inclusive v)"
proof -
  obtain i where i: "v = VLit (LitInt i)" "in_i64 i" "in_i64 (ir_end r)"
    using assms by (auto split: option.splits dest: int_of_valD)
  have "ir_inclusive r = inclusive"
    using assms(1) by (auto simp: int_range_of_def split: option.splits)
  then show ?thesis
    using i assms(1)
    by (simp add: covers_def covered_int_range_def ranges_fit_def range_matches_def
        range_contains_iff)
qed

lemma coverage_exact_enum:
  assumes "fits (PatEnum path ps sp) v" "2 \<le> length path" "list_all is_irrefutable_pattern ps"
  shows "coverage_exact fd sd feq (Covered (covered_key (enum_key (path ! 0) (last path)))) v
    (pat_matches feq rng (PatEnum path ps sp) v)"
proof -
  obtain va vs where v: "v = VEnum (path ! 0) va vs" "last path = va \<Longrightarrow> fits_list ps vs"
    using assms(1,2) by (auto simp: hd_conv_nth split: val.splits)
  have "path \<noteq> []" using assms(2) by auto
  then show ?thesis
    using v irrefutable_matches(2) [OF assms(3)]
    by (auto simp: hd_conv_nth)
qed

lemma pattern_coverage_exact:
  assumes names: "faithful_names fd sd feq"
  shows "fits p v \<Longrightarrow> coverage_exact fd sd feq (pattern_coverage fd sd p) v (pat_matches feq rng p v)"
    and "list_all (\<lambda>p. fits p v) ps \<Longrightarrow> ranges_fit c v \<Longrightarrow>
      coverage_exact fd sd feq (or_pattern_loop fd sd c ps) v
        (covers fd sd feq c v \<or> list_ex (\<lambda>p. pat_matches feq rng p v) ps)"
  using names
proof (induction fd sd p and fd sd c ps arbitrary: v and v rule: pattern_coverage_or_pattern_loop.induct)
  case (5 fd sd l sp)
  then show ?case by (auto simp: covers_literal split: val.splits)
next
  case (6 fd sd path ps sp)
  then show ?case
    using coverage_exact_enum [of path ps sp v fd sd feq rng]
    by (auto simp del: pat_matches.simps fits.simps)
next
  case (7 fd sd s e inclusive sp)
  then show ?case
    using covers_range [of s e inclusive _ sp v fd sd feq rng]
    by (auto simp del: fits.simps split: option.splits)
next
  case (9 fd sd path fs rest sp)
  then show ?case
    using irrefutable_matches(1) [of "PatStruct path fs rest sp" v feq rng]
    by (auto simp del: pat_matches.simps fits.simps)
next
  case (12 fd sd c p ps)
  have p: "coverage_exact fd sd feq (pattern_coverage fd sd p) v (pat_matches feq rng p v)"
    using "12.IH"(1) "12.prems" by simp
  show ?case
  proof (cases "pattern_coverage fd sd p")
    case CatchAll
    then show ?thesis using p by simp
  next
    case (Covered d)
    then have "coverage_exact fd sd feq (or_pattern_loop fd sd (covered_extend c d) ps) v
        (covers fd sd feq (covered_extend c d) v \<or> list_ex (\<lambda>p. pat_matches feq rng p v) ps)"
      using "12.IH"(2) [OF Covered, of v] "12.prems" p by simp
    then show ?thesis using Covered p by simp
  qed simp
qed (auto split: val.splits)

section \<open>The analysis is sound\<close>

definition iteration_order :: "(string list \<Rightarrow> string list) \<Rightarrow> bool" where
  "iteration_order iter \<longleftrightarrow> (\<forall>xs. set (iter xs) = set xs)"

lemma contains_key_covers:
  assumes "contains_key d (literal_key fd sd l)" "same_kind l m" "lit_matches feq l m"
    "ranges_fit d v" "strip_ref v = VLit m"
  shows "covers fd sd feq d v"
proof (cases "literal_key fd sd l \<in> set (cov_keys d)")
  case True
  then show ?thesis using assms by (auto simp: covers_def)
next
  case False
  then obtain i r where r: "parse_i64 (literal_key fd sd l) = Some i" "r \<in> set (cov_int_ranges d)"
      "range_contains r i"
    using assms(1) by (auto simp: contains_key_def list_ex_iff split: option.splits)
  then have "is_int_val v" using assms(4) by (auto simp: ranges_fit_def)
  then obtain j where "m = LitInt j" using assms(5) by (induction v rule: is_int_val.induct) auto
  moreover from this have l: "l = LitInt j"
    using assms(2,3) by (cases l) (simp_all add: same_kind_def lit_matches_def)
  ultimately have "m = LitInt i" using r(1) by (auto simp: literal_key_def)
  then show ?thesis using assms(5) r by (auto simp: covers_def)
qed

lemma contains_enum_key_covers:
  assumes "contains_key d (enum_key e va)" "strip_ref v = VEnum e va vs" "ranges_fit d v"
  shows "covers fd sd feq d v"
proof -
  have "\<not> is_int_val v" using assms(2) by (induction v rule: is_int_val.induct) auto
  then have "enum_key e va \<in> set (cov_keys d)"
    using assms(1,3) by (auto simp: contains_key_def ranges_fit_def split: option.splits)
  then show ?thesis using assms(2) by (simp add: covers_def)
qed

lemma contains_range_contains:
  assumes "contains_range r s" "range_contains s i"
  shows "range_contains r i"
  using assms by (auto simp: contains_range_def range_contains_def split: option.splits)

text \<open>A pattern with a covered witness covers nothing new.\<close>

lemma covered_witness_covers:
  assumes "patterns_covered_witness iter c d = Some w" "iteration_order iter" "ranges_fit d v"
    "covers fd sd feq c v"
  shows "covers fd sd feq d v"
proof -
  have keys: "contains_key d k" if "k \<in> set (cov_keys c)" for k
    using assms(1,2) that
    by (auto simp: patterns_covered_witness_def iteration_order_def list_ex_iff split: if_splits)
  have ranges: "\<exists>r\<in>set (cov_int_ranges d). contains_range r s" if "s \<in> set (cov_int_ranges c)" for s
    using assms(1) that by (auto simp: patterns_covered_witness_def list_ex_iff split: if_splits)
  consider (lit) m l where "strip_ref v = VLit m" "same_kind l m" "lit_matches feq l m"
      "literal_key fd sd l \<in> set (cov_keys c)"
    | (range) i s where "strip_ref v = VLit (LitInt i)" "s \<in> set (cov_int_ranges c)" "range_contains s i"
    | (enum) e va vs where "strip_ref v = VEnum e va vs" "enum_key e va \<in> set (cov_keys c)"
    using assms(4) by (auto simp: covers_def split: val.splits)
  then show ?thesis
  proof cases
    case lit
    then show ?thesis using contains_key_covers keys assms(3) by blast
  next
    case range
    then obtain r where "r \<in> set (cov_int_ranges d)" "range_contains r i"
      using ranges contains_range_contains by blast
    then show ?thesis using range by (auto simp: covers_def)
  next
    case enum
    then show ?thesis using contains_enum_key_covers keys assms(3) by blast
  qed
qed

lemma exhausted_covers:
  assumes "is_exhausted_by cs c" "inhabits v cs" "ranges_fit c v"
  shows "covers fd sd feq c v"
proof -
  have key: "contains_key c k" if "k \<in> set (cs_constructors cs)" for k
    using assms(1) that by (auto simp: is_exhausted_by_def list_all_iff)
  have "cs_fallback_witness cs = None" using assms(1) by (simp add: is_exhausted_by_def)
  then consider (enum) e va vs where "v = VEnum e va vs" "enum_key e va \<in> set (cs_constructors cs)"
    | (bool) b where "v = VLit (LitBool b)" "literal_key fd sd (LitBool b) \<in> set (cs_constructors cs)"
    using assms(2) by (auto simp: inhabits_def literal_key_def split: val.splits literal.splits)
  then show ?thesis
  proof cases
    case enum
    then show ?thesis using contains_enum_key_covers [of c e va v vs] key assms(3) by simp
  next
    case bool
    then show ?thesis
      using contains_key_covers [of c fd sd "LitBool b" "LitBool b" feq v] key assms(3)
      by (simp add: same_kind_def lit_matches_def)
  qed
qed

text \<open>The invariant of the loop over the arms, for one value of the scrutinee: what is recorded
  as covered or as a catch-all is matched by an unguarded arm seen so far, and every arm recorded
  as unreachable only matches what an earlier unguarded arm matches.\<close>

definition takes :: "(f64 \<Rightarrow> f64 \<Rightarrow> bool) \<Rightarrow> range_meaning \<Rightarrow> val \<Rightarrow> expr match_arm \<Rightarrow> bool" where
  "takes feq rng v arm \<longleftrightarrow> arm_guard arm = None \<and> pat_matches feq rng (arm_pattern arm) v"

definition shadowed ::
  "(f64 \<Rightarrow> f64 \<Rightarrow> bool) \<Rightarrow> range_meaning \<Rightarrow> val \<Rightarrow> expr match_arm list \<Rightarrow> nat \<Rightarrow> bool" where
  "shadowed feq rng v arms i \<longleftrightarrow> i < length arms \<and>
     (pat_matches feq rng (arm_pattern (arms ! i)) v \<longrightarrow> list_ex (takes feq rng v) (take i arms))"

definition match_inv :: "(f64 \<Rightarrow> string) \<Rightarrow> (string \<Rightarrow> string) \<Rightarrow> (f64 \<Rightarrow> f64 \<Rightarrow> bool) \<Rightarrow> range_meaning \<Rightarrow>
    val \<Rightarrow> expr match_arm list \<Rightarrow> match_state \<Rightarrow> bool" where
  "match_inv fd sd feq rng v seen st \<longleftrightarrow>
     (ms_catch_all st \<or> covers fd sd feq (ms_covered st) v \<longrightarrow> list_ex (takes feq rng v) seen) \<and>
     ranges_fit (ms_covered st) v \<and>
     list_all (\<lambda>u. shadowed feq rng v seen (ua_index u)) (ms_unreachable st)"

lemma shadowed_append:
  "shadowed feq rng v arms i \<Longrightarrow> shadowed feq rng v (arms @ later) i"
  by (auto simp: shadowed_def nth_append)

lemma match_inv_step:
  assumes "match_inv fd sd feq rng v seen st" "faithful_names fd sd feq" "iteration_order iter"
    "fits (arm_pattern arm) v" "inhabits v cs"
  shows "match_inv fd sd feq rng v (seen @ [arm]) (match_step iter fd sd cs (length seen, arm) st)"
proof -
  let ?cov = "pattern_coverage fd sd (arm_pattern arm)"
  have exact: "coverage_exact fd sd feq ?cov v (pat_matches feq rng (arm_pattern arm) v)"
    using pattern_coverage_exact(1) assms(2,4) by blast
  have old: "list_all (\<lambda>u. shadowed feq rng v (seen @ [arm]) (ua_index u)) (ms_unreachable st)"
    using assms(1) shadowed_append by (auto simp: match_inv_def list_all_iff)
  have kept: "match_inv fd sd feq rng v (seen @ [arm]) st"
    using assms(1) old by (auto simp: match_inv_def)
  have flagged: "match_inv fd sd feq rng v (seen @ [arm])
      (st\<lparr>ms_unreachable := ms_unreachable st @ [\<lparr>ua_index = length seen, ua_witness = w\<rparr>]\<rparr>)"
    if "pat_matches feq rng (arm_pattern arm) v \<longrightarrow> list_ex (takes feq rng v) seen" for w
    using kept that by (auto simp: match_inv_def shadowed_def)
  show ?thesis
  proof (cases "ms_catch_all st")
    case True
    then show ?thesis using flagged assms(1) by (auto simp: match_step_def match_inv_def)
  next
    case False
    note catch = this
    show ?thesis
    proof (cases "coverage_covered_witness iter ?cov (ms_covered st)")
      case (Some w)
      then obtain c where c: "?cov = Covered c" "patterns_covered_witness iter c (ms_covered st) = Some w"
        by (auto simp: coverage_covered_witness_def split: pattern_coverage_t.splits)
      then have "pat_matches feq rng (arm_pattern arm) v \<longrightarrow> covers fd sd feq (ms_covered st) v"
        using covered_witness_covers [OF c(2) assms(3)] exact assms(1) by (auto simp: match_inv_def)
      then show ?thesis
        using flagged assms(1) catch Some by (auto simp: match_step_def match_inv_def)
    next
      case None
      show ?thesis
      proof (cases "arm_guard arm")
        case (Some g)
        then show ?thesis using kept None catch by (simp add: match_step_def)
      next
        case guard: None
        have "match_inv fd sd feq rng v (seen @ [arm]) (add_coverage ?cov st)"
          using kept exact guard
          by (cases ?cov) (auto simp: add_coverage_def match_inv_def takes_def)
        then have "match_inv fd sd feq rng v (seen @ [arm]) (note_exhausted cs (add_coverage ?cov st))"
          using exhausted_covers [of cs _ v fd sd feq] assms(5)
          by (auto simp: note_exhausted_def match_inv_def)
        then show ?thesis using None guard catch by (simp add: match_step_def)
      qed
    qed
  qed
qed

lemma match_inv_fold:
  assumes "match_inv fd sd feq rng v seen st" "faithful_names fd sd feq" "iteration_order iter"
    "list_all (\<lambda>arm. fits (arm_pattern arm) v) arms" "inhabits v cs"
  shows "match_inv fd sd feq rng v (seen @ arms)
    (fold (match_step iter fd sd cs) (enumerate (length seen) arms) st)"
  using assms
proof (induction arms arbitrary: seen st)
  case (Cons arm arms)
  then have "match_inv fd sd feq rng v (seen @ [arm]) (match_step iter fd sd cs (length seen, arm) st)"
    using match_inv_step by simp
  from Cons.IH [OF this] Cons.prems show ?case by simp
qed simp

lemma match_inv_final:
  assumes "faithful_names fd sd feq" "iteration_order iter"
    "list_all (\<lambda>arm. fits (arm_pattern arm) v) arms" "inhabits v cs"
  shows "match_inv fd sd feq rng v arms
    (fold (match_step iter fd sd cs) (enumerate 0 arms) match_state_init)"
  using match_inv_fold [of fd sd feq rng v "[]" match_state_init] assms
  by (simp add: match_inv_def match_state_init_def)


definition demo_arms :: "expr match_arm list" where
  "demo_arms = (let sp = span_new_root 0 0; lit = \<lambda>b. PatLiteral (LitBool b) sp in
     map (\<lambda>p. MatchArm p None (ETuple [] sp) sp) [lit True, PatOr [lit False, lit True] sp, lit False])"

definition demo_names :: "f64 \<Rightarrow> string" where
  "demo_names w = nat_string (unat w)"

lemma demo_faithful: "faithful_names demo_names id (=)"
  by (auto simp: faithful_names_def demo_names_def dest: unsigned_word_eqI)

lemmas match_eval = analyze_match_def Let_def match_state_init_def match_step_def
  coverage_covered_witness_def patterns_covered_witness_def add_coverage_def note_exhausted_def
  is_exhausted_by_def contains_key_def covered_extend_def covered_key_def covered_default_def
  literal_key_def constructor_set_closed_def demo_arms_def parse_i64_def parse_signed_def
  parse_nat_def digit_value_def

lemma demo_report:
  "analyze_match id demo_names id demo_arms (constructor_set_closed [''true'', ''false'']) =
     \<lparr>ur_unreachable_arms = [\<lparr>ua_index = 2, ua_witness = Some ''all constructors''\<rparr>],
      ur_missing_witness = None\<rparr>"
  by (simp add: match_eval)




text \<open>The converse direction: a constructor named as missing is really not covered, as long as no
  arm without a guard has a nested pattern the analysis gives up on.\<close>

definition precise_inv :: "(f64 \<Rightarrow> string) \<Rightarrow> (string \<Rightarrow> string) \<Rightarrow> (f64 \<Rightarrow> f64 \<Rightarrow> bool) \<Rightarrow> range_meaning \<Rightarrow>
    val \<Rightarrow> expr match_arm list \<Rightarrow> match_state \<Rightarrow> bool" where
  "precise_inv fd sd feq rng v seen st \<longleftrightarrow> ranges_fit (ms_covered st) v \<and>
     (\<not> ms_catch_all st \<and> list_ex (takes feq rng v) seen \<longrightarrow> covers fd sd feq (ms_covered st) v)"

lemma precise_inv_step:
  assumes "precise_inv fd sd feq rng v seen st" "faithful_names fd sd feq" "iteration_order iter"
    "fits (arm_pattern arm) v" "arm_guard arm = None \<Longrightarrow> pattern_coverage fd sd (arm_pattern arm) \<noteq> Opaque"
  shows "precise_inv fd sd feq rng v (seen @ [arm]) (match_step iter fd sd cs (n, arm) st)"
proof -
  let ?cov = "pattern_coverage fd sd (arm_pattern arm)"
  have exact: "coverage_exact fd sd feq ?cov v (pat_matches feq rng (arm_pattern arm) v)"
    using pattern_coverage_exact(1) assms(2,4) by blast
  show ?thesis
  proof (cases "ms_catch_all st")
    case False
    note catch = this
    show ?thesis
    proof (cases "coverage_covered_witness iter ?cov (ms_covered st)")
      case (Some w)
      then obtain c where c: "?cov = Covered c" "patterns_covered_witness iter c (ms_covered st) = Some w"
        by (auto simp: coverage_covered_witness_def split: pattern_coverage_t.splits)
      then have "pat_matches feq rng (arm_pattern arm) v \<longrightarrow> covers fd sd feq (ms_covered st) v"
        using covered_witness_covers [OF c(2) assms(3)] exact assms(1) by (auto simp: precise_inv_def)
      then show ?thesis
        using assms(1) catch Some by (auto simp: match_step_def precise_inv_def takes_def)
    next
      case None
      then show ?thesis
        using assms(1,5) exact catch
        by (cases ?cov) (auto simp: match_step_def precise_inv_def takes_def add_coverage_def note_exhausted_def)
    qed
  qed (use assms(1) in \<open>simp add: match_step_def precise_inv_def\<close>)
qed

lemma precise_inv_fold:
  assumes "precise_inv fd sd feq rng v seen st" "faithful_names fd sd feq" "iteration_order iter"
    "list_all (\<lambda>arm. fits (arm_pattern arm) v \<and>
       (arm_guard arm = None \<longrightarrow> pattern_coverage fd sd (arm_pattern arm) \<noteq> Opaque)) arms"
  shows "precise_inv fd sd feq rng v (seen @ arms)
    (fold (match_step iter fd sd cs) (enumerate n arms) st)"
  using assms
proof (induction arms arbitrary: seen st n)
  case (Cons arm arms)
  then have "precise_inv fd sd feq rng v (seen @ [arm]) (match_step iter fd sd cs (n, arm) st)"
    using precise_inv_step by simp
  from Cons.IH [OF this] Cons.prems show ?case by simp
qed simp

text \<open>No false alarm on flat patterns. When every arm without a guard has a pattern the analysis
  understands and a constructor is named as missing, no arm without a guard takes the values of
  that constructor.\<close>

theorem missing_witness_real:
  assumes "faithful_names fd sd feq" "iteration_order iter"
    and "list_all (\<lambda>arm. fits (arm_pattern arm) (VEnum e va vs) \<and>
       (arm_guard arm = None \<longrightarrow> pattern_coverage fd sd (arm_pattern arm) \<noteq> Opaque)) arms"
    and "ur_missing_witness (analyze_match iter fd sd arms (constructor_set_closed ctors)) =
       Some (enum_key e va)"
  shows "\<not> list_ex (takes feq rng (VEnum e va vs)) arms"
proof -
  let ?cs = "constructor_set_closed ctors"
  let ?st = "fold (match_step iter fd sd ?cs) (enumerate 0 arms) match_state_init"
  have inv: "precise_inv fd sd feq rng (VEnum e va vs) arms ?st"
    using precise_inv_fold [of fd sd feq rng "VEnum e va vs" "[]" match_state_init iter arms ?cs 0]
      assms(1-3) by (simp add: precise_inv_def match_state_init_def)
  have "\<not> ms_catch_all ?st" "\<not> contains_key (ms_covered ?st) (enum_key e va)"
    using assms(4)
    by (auto simp: analyze_match_def Let_def constructor_set_closed_def find_Some_iff
        split: if_splits option.splits)
  then have "\<not> covers fd sd feq (ms_covered ?st) (VEnum e va vs)"
    by (auto simp: covers_def contains_key_def)
  then show ?thesis using inv \<open>\<not> ms_catch_all ?st\<close> by (auto simp: precise_inv_def)
qed

definition demo_enum_arms :: "expr match_arm list" where
  "demo_enum_arms = (let sp = span_new_root 0 0 in
     [MatchArm (PatEnum [''Shape'', ''Circle''] [PatWildcard sp] sp) None (ETuple [] sp) sp,
      MatchArm (PatEnum [''Shape'', ''Square''] [] sp) (Some (ETuple [] sp)) (ETuple [] sp) sp])"

theorem missing_witness_real_witness:
  "\<not> list_ex (takes (=) (\<lambda>_ _ _ _. False) (VEnum ''Shape'' ''Square'' [])) demo_enum_arms"
  by (rule missing_witness_real [where fd = demo_names and sd = id and iter = id
        and ctors = "[''Shape::Circle'', ''Shape::Square'']", OF demo_faithful])
    (simp_all add: match_eval demo_enum_arms_def enum_key_def iteration_order_def)

end
