(* ===== verification/Types.thy ===== *)
theory Types
  imports Prelude
begin

text \<open>
  The types of the type checker, \<open>compiler/paco-types/src/lib.rs\<close>: integer and float widths with
  their value ranges and wrap-around, and the datatype of types.  An \<open>i64\<close> payload is an integer
  in \<open>in_i64\<close> and an \<open>i128\<close> an integer; the casts between the machine types are written out.
\<close>

unbundle bit_operations_syntax

section \<open>Integer widths\<close>

datatype int_width = I8 | I16 | I32 | I64 | U8 | U16 | U32 | U64

fun width_name :: "int_width \<Rightarrow> string" where
  "width_name I8 = ''i8''"
| "width_name I16 = ''i16''"
| "width_name I32 = ''i32''"
| "width_name I64 = ''i64''"
| "width_name U8 = ''u8''"
| "width_name U16 = ''u16''"
| "width_name U32 = ''u32''"
| "width_name U64 = ''u64''"

definition is_signed :: "int_width \<Rightarrow> bool" where
  "is_signed w \<longleftrightarrow> w \<in> {I8, I16, I32, I64}"

fun width_bytes :: "int_width \<Rightarrow> nat" where
  "width_bytes I8 = 1"
| "width_bytes U8 = 1"
| "width_bytes I16 = 2"
| "width_bytes U16 = 2"
| "width_bytes I32 = 4"
| "width_bytes U32 = 4"
| "width_bytes I64 = 8"
| "width_bytes U64 = 8"

fun width_range :: "int_width \<Rightarrow> int \<times> int" where
  "width_range I8 = (- 128, 127)"
| "width_range I16 = (- 32768, 32767)"
| "width_range I32 = (- 2147483648, 2147483647)"
| "width_range I64 = (i64_min, i64_max)"
| "width_range U8 = (0, 255)"
| "width_range U16 = (0, 65535)"
| "width_range U32 = (0, 4294967295)"
| "width_range U64 = (0, 18446744073709551615)"

text \<open>The casts \<open>as u64\<close>, \<open>as i64\<close> and \<open>as u128\<close>.\<close>

definition as_u64 :: "int \<Rightarrow> int" where "as_u64 x = x mod 2 ^ 64"

definition as_i64 :: "int \<Rightarrow> int" where "as_i64 x = (x + 2 ^ 63) mod 2 ^ 64 - 2 ^ 63"

definition as_u128 :: "int \<Rightarrow> int" where "as_u128 x = x mod 2 ^ 128"

definition u128_max :: int where "u128_max = 2 ^ 128 - 1"

definition to_i128 :: "int_width \<Rightarrow> int \<Rightarrow> int" where
  "to_i128 w bits = (if w = U64 then as_u64 bits else bits)"

definition wrap_int :: "int_width \<Rightarrow> int \<Rightarrow> int" where
  "wrap_int w value =
    (let bits = width_bytes w * 8;
         low = as_u128 value AND drop_bit (128 - bits) u128_max
     in if is_signed w \<and> drop_bit (bits - 1) low AND 1 = 1
        then as_i64 (low - push_bit bits 1)
        else as_i64 (as_u64 low))"

definition from_i128 :: "int_width \<Rightarrow> int \<Rightarrow> int" where
  "from_i128 w value = (if w = U64 then as_i64 (as_u64 value) else as_i64 value)"

section \<open>Float widths\<close>

datatype float_width = F64 | F32 | F16 | BF16 | F8E4M3 | F8E5M2

fun float_width_name :: "float_width \<Rightarrow> string" where
  "float_width_name F64 = ''float''"
| "float_width_name F32 = ''f32''"
| "float_width_name F16 = ''f16''"
| "float_width_name BF16 = ''bf16''"
| "float_width_name F8E4M3 = ''f8e4m3''"
| "float_width_name F8E5M2 = ''f8e5m2''"

definition float_width_from_name :: "string \<Rightarrow> float_width option" where
  "float_width_from_name name =
    (if name = ''float'' \<or> name = ''f64'' then Some F64
     else if name = ''f32'' then Some F32
     else if name = ''f16'' then Some F16
     else if name = ''bf16'' then Some BF16
     else if name = ''f8e4m3'' then Some F8E4M3
     else if name = ''f8e5m2'' then Some F8E5M2
     else None)"

fun float_width_bytes :: "float_width \<Rightarrow> nat" where
  "float_width_bytes F64 = 8"
| "float_width_bytes F32 = 4"
| "float_width_bytes F16 = 2"
| "float_width_bytes BF16 = 2"
| "float_width_bytes F8E4M3 = 1"
| "float_width_bytes F8E5M2 = 1"

definition has_arithmetic :: "float_width \<Rightarrow> bool" where
  "has_arithmetic w \<longleftrightarrow> w \<notin> {F8E4M3, F8E5M2}"

section \<open>Dimensions and types\<close>

text \<open>A dimension expression (\<open>compiler/paco-types/src/dims.rs\<close>): the identifier of its
  polynomial in the arena, and the text and precedence the user wrote.\<close>

datatype const_expr = ConstExpr (ce_poly: nat) (ce_written: "(string \<times> nat) option")

datatype dim = DimConst const_expr | DimDyn

datatype type =
    TInt int_width
  | TFloat float_width
  | TBool
  | TString
  | TChar
  | TUnit
  | TNever
  | TStruct string "type list"
  | TEnum string "type list"
  | TBorrow bool type
  | TRawPointer bool type
  | TSlice type
  | TTuple "type list"
  | TFn "type list" type "string option" bool
  | TGeneric string
  | TTypeValue type
  | TCode
  | TDim dim
  | TPack "type list"
  | TSpread string
  | TUnknown
  | TError

section \<open>Wrap-around\<close>

definition width_bits :: "int_width \<Rightarrow> nat" where
  "width_bits w = 8 * width_bytes w"

definition in_width :: "int_width \<Rightarrow> int \<Rightarrow> bool" where
  "in_width w x \<longleftrightarrow> fst (width_range w) \<le> x \<and> x \<le> snd (width_range w)"

lemma in_i64_as_i64: "in_i64 (as_i64 x)"
proof -
  have "0 \<le> (x + 2 ^ 63) mod 2 ^ 64" "(x + 2 ^ 63) mod 2 ^ 64 < (2 :: int) ^ 64" by simp_all
  then show ?thesis by (simp add: in_i64_def i64_min_def i64_max_def as_i64_def)
qed

lemma as_i64_id: "in_i64 x \<Longrightarrow> as_i64 x = x"
  by (simp add: as_i64_def in_i64_def i64_min_def i64_max_def)

lemma in_i64_u32: "0 \<le> x \<Longrightarrow> x < 2 ^ 32 \<Longrightarrow> in_i64 x"
  by (simp add: in_i64_def i64_min_def i64_max_def)

lemma as_u64_as_i64: "as_u64 (as_i64 x) = as_u64 x"
  by (simp add: as_u64_def as_i64_def mod_diff_left_eq)

lemma low_bits:
  assumes "n \<le> 128"
  shows "as_u128 v AND drop_bit (128 - n) u128_max = v mod 2 ^ n"
proof -
  have max: "u128_max = mask 128" by (simp add: u128_max_def mask_eq_exp_minus_1)
  have "drop_bit (128 - n) u128_max = mask n"
    unfolding max using assms by (auto intro!: bit_eqI simp: bit_drop_bit_eq bit_mask_iff)
  moreover have "as_u128 v = take_bit 128 v" by (simp add: as_u128_def take_bit_eq_mod)
  ultimately have "as_u128 v AND drop_bit (128 - n) u128_max = take_bit n (take_bit 128 v)"
    by (simp only: take_bit_eq_mask)
  also have "\<dots> = take_bit n v" using assms by (simp add: take_bit_take_bit min_def)
  finally show ?thesis by (simp add: take_bit_eq_mod)
qed

lemma top_bit:
  assumes "0 < n" "0 \<le> low" "low < 2 ^ n"
  shows "drop_bit (n - 1) low AND 1 = 1 \<longleftrightarrow> 2 ^ (n - 1) \<le> (low :: int)"
proof -
  define k :: int where "k = 2 ^ (n - 1)"
  have k: "0 < k" "low < 2 * k"
    using assms(1,3) by (simp_all add: k_def flip: power_Suc)
  have "k * (low div k) \<le> low" using k(1) by (metis mult.commute pos_mod_sign minus_div_mult_eq_mod diff_ge_0_iff_ge)
  moreover have "k * 2 \<le> k * (low div k)" if "2 \<le> low div k"
    using k(1) that by (intro mult_left_mono) auto
  ultimately have "low div k < 2" using k(2) by linarith
  moreover have "0 \<le> low div k" using assms(2) k(1) by (simp add: pos_imp_zdiv_nonneg_iff)
  ultimately have q: "0 \<le> low div k" "low div k < 2" by simp_all
  have "drop_bit (n - 1) low AND 1 = low div k mod 2"
    by (simp add: drop_bit_eq_div and_one_eq k_def)
  also have "\<dots> = low div k" using q by simp
  finally have "drop_bit (n - 1) low AND 1 = 1 \<longleftrightarrow> 0 < low div k" using q by linarith
  also have "\<dots> \<longleftrightarrow> k \<le> low" using k(1) by (simp add: pos_imp_zdiv_pos_iff)
  finally show ?thesis by (simp add: k_def)
qed

lemma wrap_int_eq:
  "wrap_int w v =
    (if is_signed w \<and> 2 ^ (width_bits w - 1) \<le> v mod 2 ^ width_bits w
     then as_i64 (v mod 2 ^ width_bits w - 2 ^ width_bits w)
     else as_i64 (as_u64 (v mod 2 ^ width_bits w)))"
proof -
  have n: "0 < width_bytes w * 8" "width_bytes w * 8 \<le> 128" by (cases w; simp)+
  have low: "as_u128 v AND drop_bit (128 - width_bytes w * 8) u128_max = v mod 2 ^ (width_bytes w * 8)"
    by (rule low_bits [OF n(2)])
  have top: "drop_bit (width_bytes w * 8 - 1) (v mod 2 ^ (width_bytes w * 8)) AND 1 = 1 \<longleftrightarrow>
      2 ^ (width_bytes w * 8 - 1) \<le> v mod 2 ^ (width_bytes w * 8)"
    by (rule top_bit [OF n(1)]) simp_all
  show ?thesis
    unfolding wrap_int_def Let_def low top
    by (simp add: width_bits_def mult.commute push_bit_eq_mult)
qed

text \<open>The reading of a wrapped payload: the value reduced to the width's range.\<close>

lemma wrap_int_unsigned:
  assumes "\<not> is_signed w"
  shows "to_i128 w (wrap_int w v) = v mod 2 ^ width_bits w"
proof -
  have "to_i128 w (wrap_int w v) = to_i128 w (as_i64 (as_u64 (v mod 2 ^ width_bits w)))"
    using assms by (simp add: wrap_int_eq)
  also have "\<dots> = v mod 2 ^ width_bits w"
  proof (cases "w = U64")
    case True
    then show ?thesis by (simp add: to_i128_def as_u64_as_i64 width_bits_def) (simp add: as_u64_def)
  next
    case False
    have "width_bits w \<le> 32" using False assms by (cases w) (simp_all add: is_signed_def width_bits_def)
    then have "(2 :: int) ^ width_bits w \<le> 2 ^ 32" by (rule power_increasing) simp
    then have "0 \<le> v mod 2 ^ width_bits w" "v mod 2 ^ width_bits w < 2 ^ 32"
      by (simp, meson order_less_le_trans pos_mod_bound zero_less_numeral zero_less_power)
    moreover from this have "in_i64 (v mod 2 ^ width_bits w)"
      by (rule in_i64_u32)
    ultimately show ?thesis using False by (simp add: to_i128_def as_u64_def as_i64_id)
  qed
  finally show ?thesis .
qed

lemma wrap_int_signed:
  assumes "is_signed w"
  shows "to_i128 w (wrap_int w v) =
    (v + 2 ^ (width_bits w - 1)) mod 2 ^ width_bits w - 2 ^ (width_bits w - 1)"
proof -
  define n where "n = width_bits w"
  define low where "low = v mod 2 ^ n"
  have n: "0 < n" "n \<le> 64" and w: "w \<noteq> U64"
    using assms by (cases w; simp add: n_def width_bits_def is_signed_def)+
  have low: "0 \<le> low" "low < 2 ^ n" by (simp_all add: low_def)
  have le: "(2 :: int) ^ (n - 1) \<le> 2 ^ 63" using n by (intro power_increasing) auto
  have two: "(2 :: int) ^ n = 2 * 2 ^ (n - 1)" using n(1) by (simp flip: power_Suc)
  have wrap: "wrap_int w v = (if 2 ^ (n - 1) \<le> low then as_i64 (low - 2 ^ n) else as_i64 (as_u64 low))"
    using assms by (simp add: wrap_int_eq n_def low_def)
  have shifted: "(v + 2 ^ (n - 1)) mod 2 ^ n = (low + 2 ^ (n - 1)) mod 2 ^ n"
    by (simp add: low_def mod_add_left_eq)
  show ?thesis
  proof (cases "2 ^ (n - 1) \<le> low")
    case True
    have "(low + 2 ^ (n - 1)) mod 2 ^ n = (low + 2 ^ (n - 1) - 2 ^ n) mod 2 ^ n"
      by (simp add: minus_mod_self2)
    also have "\<dots> = low + 2 ^ (n - 1) - 2 ^ n" using True low two by (intro mod_pos_pos_trivial) auto
    finally show ?thesis
      unfolding n_def [symmetric] shifted wrap
      using True low two le w
      by (simp add: to_i128_def as_i64_id in_i64_def i64_min_def i64_max_def)
  next
    case False
    then have "(low + 2 ^ (n - 1)) mod 2 ^ n = low + 2 ^ (n - 1)"
      using low two by (intro mod_pos_pos_trivial) auto
    moreover have "as_i64 (as_u64 low) = low"
      using False low(1) le by (simp add: as_u64_def as_i64_id in_i64_def i64_min_def i64_max_def)
    ultimately show ?thesis
      unfolding n_def [symmetric] shifted wrap using False w by (simp add: to_i128_def)
  qed
qed

lemma wrap_int_range: "in_width w (to_i128 w (wrap_int w v))"
proof -
  have range: "0 \<le> x mod 2 ^ width_bits w" "x mod 2 ^ width_bits w \<le> 2 ^ width_bits w - 1" for x :: int
    by simp_all
  show ?thesis
    using range [of v] range [of "v + 2 ^ (width_bits w - 1)"]
    by (cases w) (simp_all add: in_width_def wrap_int_signed wrap_int_unsigned is_signed_def
        width_bits_def i64_min_def i64_max_def)
qed

lemma wrap_int_congruent: "(to_i128 w (wrap_int w v) - v) mod 2 ^ width_bits w = 0"
  by (cases "is_signed w")
    (simp_all add: wrap_int_signed wrap_int_unsigned mod_diff_left_eq diff_diff_eq)

lemma in_i64_wrap_int: "in_i64 (wrap_int w v)"
  by (simp add: wrap_int_def Let_def in_i64_as_i64)

lemma to_from_i128: "in_width w v \<Longrightarrow> to_i128 w (from_i128 w v) = v"
  by (cases w) (simp_all add: to_i128_def from_i128_def as_u64_as_i64 as_i64_id in_width_def
      in_i64_def i64_min_def i64_max_def, simp add: as_u64_def)

lemma from_i128_wrap:
  assumes "in_width w v"
  shows "from_i128 w v = wrap_int w v"
proof (cases "is_signed w")
  case True
  then have "w \<noteq> U64" by (auto simp: is_signed_def)
  moreover from this True have "to_i128 w (wrap_int w v) = v"
    using assms
    by (cases w) (simp_all add: wrap_int_signed in_width_def width_bits_def is_signed_def
        i64_min_def i64_max_def)
  ultimately show ?thesis using to_from_i128 [OF assms] by (simp add: to_i128_def)
next
  case False
  then have "v mod 2 ^ width_bits w = v"
    using assms by (cases w) (simp_all add: in_width_def width_bits_def is_signed_def)
  moreover have "as_u64 v = v"
    using assms False by (cases w) (simp_all add: in_width_def is_signed_def as_u64_def)
  ultimately show ?thesis using False by (simp add: wrap_int_eq from_i128_def)
qed

text \<open>Wrapping gives the two's complement reduction. Reading back the payload \<open>wrap\<close> returns
  gives a value of the width's range that differs from the wrapped value by a multiple of
  2 to the width's number of bits, and the payload is an \<open>i64\<close>.\<close>

theorem wrap_int_correct:
  "in_width w (to_i128 w (wrap_int w v)) \<and>
   (to_i128 w (wrap_int w v) - v) mod 2 ^ width_bits w = 0 \<and> in_i64 (wrap_int w v)"
  by (simp add: wrap_int_range wrap_int_congruent in_i64_wrap_int)

text \<open>the payload encoding of constants loses nothing. Storing a value of the width's range
  with \<open>from_i128\<close> and reading it with \<open>to_i128\<close> gives the value back, and wrapping agrees with
  storing on such values.\<close>

theorem from_i128_roundtrip:
  assumes "in_width w v"
  shows "to_i128 w (from_i128 w v) = v \<and> from_i128 w v = wrap_int w v"
  using to_from_i128 [OF assms] from_i128_wrap [OF assms] by blast

theorem from_i128_roundtrip_witness:
  "to_i128 U64 (from_i128 U64 18446744073709551615) = 18446744073709551615 \<and>
   from_i128 U64 18446744073709551615 = wrap_int U64 18446744073709551615"
  by (rule from_i128_roundtrip) (simp add: in_width_def)

end
