(* ===== verification/Dims.thy ===== *)
theory Dims
  imports Types
begin

text \<open>
  Dimension expressions, \<open>compiler/paco-types/src/dims.rs\<close>: the arena of canonical polynomials.

  The arena is threaded as an explicit state (the code keeps it behind a global mutex).  A
  \<open>DimVarId\<close> and a \<open>PolyId\<close> are indices into the arena's vectors, a \<open>Poly\<close> is an ordered map
  from monomials to \<open>i64\<close> coefficients and the hash maps are partial functions.  Functions that
  descend into the operands of opaque atoms check that these are older polynomials, which makes
  the recursion terminate; \<open>operand_below\<close> shows that the check always succeeds on the arenas the
  code builds.
\<close>

section \<open>Atoms, monomials and polynomials\<close>

datatype dim_op = DimAdd | DimSub | DimMul | DimDiv | DimRem

fun dim_op_symbol :: "dim_op \<Rightarrow> string" where
  "dim_op_symbol DimAdd = ''+''"
| "dim_op_symbol DimSub = ''-''"
| "dim_op_symbol DimMul = ''*''"
| "dim_op_symbol DimDiv = ''/''"
| "dim_op_symbol DimRem = ''%''"

definition dim_op_precedence :: "dim_op \<Rightarrow> nat" where
  "dim_op_precedence op = (if op = DimAdd \<or> op = DimSub then 1 else 2)"

datatype verdict_t = Equal | Different | CannotProve

datatype atom = AtomParam string | AtomOpaque dim_op nat nat

type_synonym monomial = "(nat \<times> nat) list"

type_synonym poly = "(monomial \<times> int) list"

record arena =
  ar_atoms :: "atom list"
  ar_params :: "string \<rightharpoonup> nat"
  ar_opaque :: "dim_op \<times> nat \<times> nat \<rightharpoonup> nat"
  ar_polys :: "(poly \<times> int option) list"
  ar_poly_ids :: "poly \<rightharpoonup> nat"
  ar_lits :: "int \<rightharpoonup> nat"

definition arena_default :: arena where
  "arena_default = \<lparr>ar_atoms = [], ar_params = Map.empty, ar_opaque = Map.empty, ar_polys = [],
     ar_poly_ids = Map.empty, ar_lits = Map.empty\<rparr>"

abbreviation poly_of :: "arena \<Rightarrow> nat \<Rightarrow> poly" where
  "poly_of ar i \<equiv> fst (ar_polys ar ! i)"

section \<open>Interning\<close>

definition lit_value :: "poly \<Rightarrow> int option" where
  "lit_value p = (case length p of 0 \<Rightarrow> Some 0 | Suc 0 \<Rightarrow> map_of p [] | _ \<Rightarrow> None)"

definition intern :: "poly \<Rightarrow> arena \<Rightarrow> nat \<times> arena" where
  "intern p ar = (case ar_poly_ids ar p of
     Some i \<Rightarrow> (i, ar)
   | None \<Rightarrow>
      (let l = lit_value p;
           i = length (ar_polys ar);
           ar = (case l of Some value \<Rightarrow> ar\<lparr>ar_lits := (ar_lits ar)(value \<mapsto> i)\<rparr> | None \<Rightarrow> ar)
       in (i, ar\<lparr>ar_poly_ids := (ar_poly_ids ar)(p \<mapsto> i), ar_polys := ar_polys ar @ [(p, l)]\<rparr>)))"

definition lit_of :: "arena \<Rightarrow> nat \<Rightarrow> int option" where
  "lit_of ar i = snd (ar_polys ar ! i)"

definition lit :: "int \<Rightarrow> arena \<Rightarrow> nat \<times> arena" where
  "lit value ar = (case ar_lits ar value of
     Some i \<Rightarrow> (i, ar)
   | None \<Rightarrow> intern (if value \<noteq> 0 then [([], value)] else []) ar)"

definition atom_poly :: "nat \<Rightarrow> arena \<Rightarrow> nat \<times> arena" where
  "atom_poly a ar = intern [([(a, 1)], 1)] ar"

definition param_atom :: "string \<Rightarrow> arena \<Rightarrow> nat \<times> arena" where
  "param_atom name ar = (case ar_params ar name of
     Some i \<Rightarrow> (i, ar)
   | None \<Rightarrow> (length (ar_atoms ar), ar\<lparr>ar_atoms := ar_atoms ar @ [AtomParam name],
       ar_params := (ar_params ar)(name \<mapsto> length (ar_atoms ar))\<rparr>))"

definition param_poly :: "string \<Rightarrow> arena \<Rightarrow> nat \<times> arena" where
  "param_poly name ar = (case param_atom name ar of (a, ar) \<Rightarrow> atom_poly a ar)"

definition opaque_atom :: "dim_op \<Rightarrow> nat \<Rightarrow> nat \<Rightarrow> arena \<Rightarrow> nat \<times> arena" where
  "opaque_atom op left right ar = (case ar_opaque ar (op, left, right) of
     Some i \<Rightarrow> (i, ar)
   | None \<Rightarrow> (length (ar_atoms ar), ar\<lparr>ar_atoms := ar_atoms ar @ [AtomOpaque op left right],
       ar_opaque := (ar_opaque ar)((op, left, right) \<mapsto> length (ar_atoms ar))\<rparr>))"

definition opaque_poly :: "dim_op \<Rightarrow> nat \<Rightarrow> nat \<Rightarrow> arena \<Rightarrow> nat \<times> arena" where
  "opaque_poly op left right ar = (case opaque_atom op left right ar of (a, ar) \<Rightarrow> atom_poly a ar)"

section \<open>Arithmetic\<close>

text \<open>The product of two monomials; exponents are \<open>u32\<close> and their addition is checked.\<close>

fun merge :: "monomial \<Rightarrow> monomial \<Rightarrow> monomial option" where
  "merge [] right = Some right"
| "merge left [] = Some left"
| "merge ((a, e) # left) ((b, f) # right) =
     (if a < b then map_option ((#) (a, e)) (merge left ((b, f) # right))
      else if b < a then map_option ((#) (b, f)) (merge ((a, e) # left) right)
      else if e + f < 2 ^ 32 then map_option ((#) (a, e + f)) (merge left right)
      else None)"

definition entry_or_zero :: "poly \<Rightarrow> monomial \<Rightarrow> int" where
  "entry_or_zero p m = (case map_of p m of None \<Rightarrow> 0 | Some c \<Rightarrow> c)"

definition combine_step :: "int \<Rightarrow> monomial \<times> int \<Rightarrow> poly option \<Rightarrow> poly option" where
  "combine_step sign mc acc = (case mc of (m, coeff) \<Rightarrow>
     Option.bind acc (\<lambda>out. Option.bind (checked_mul coeff sign) (\<lambda>t.
       Option.bind (checked_add (entry_or_zero out m) t) (\<lambda>entry.
         Some (if entry = 0 then bt_remove m (bt_insert m entry out)
               else bt_insert m entry out)))))"

definition intern_opt :: "poly option \<Rightarrow> arena \<Rightarrow> nat option \<times> arena" where
  "intern_opt p ar = (case p of
     None \<Rightarrow> (None, ar)
   | Some out \<Rightarrow> (case intern out ar of (i, ar) \<Rightarrow> (Some i, ar)))"

definition combine :: "nat \<Rightarrow> nat \<Rightarrow> int \<Rightarrow> arena \<Rightarrow> nat option \<times> arena" where
  "combine left right sign ar =
     intern_opt (fold (combine_step sign) (poly_of ar right) (Some (poly_of ar left))) ar"

definition product_step :: "monomial \<Rightarrow> int \<Rightarrow> monomial \<times> int \<Rightarrow> poly option \<Rightarrow> poly option" where
  "product_step left_mono left_coeff mc acc = (case mc of (right_mono, right_coeff) \<Rightarrow>
     Option.bind acc (\<lambda>out. Option.bind (merge left_mono right_mono) (\<lambda>m.
       Option.bind (checked_mul left_coeff right_coeff) (\<lambda>t.
         Option.bind (checked_add (entry_or_zero out m) t) (\<lambda>entry.
           Some (bt_insert m entry out))))))"

definition product_poly :: "nat \<Rightarrow> nat \<Rightarrow> arena \<Rightarrow> nat option \<times> arena" where
  "product_poly left right ar = intern_opt (map_option (filter (\<lambda>mc. snd mc \<noteq> 0))
     (fold (\<lambda>(m, c). fold (product_step m c) (poly_of ar right)) (poly_of ar left) (Some []))) ar"

definition fold_lits :: "dim_op \<Rightarrow> int \<Rightarrow> int \<Rightarrow> int option" where
  "fold_lits op a b = (case op of
     DimAdd \<Rightarrow> checked_add a b
   | DimSub \<Rightarrow> checked_sub a b
   | DimMul \<Rightarrow> checked_mul a b
   | DimDiv \<Rightarrow> checked_div a b
   | DimRem \<Rightarrow> checked_rem a b)"

definition apply_poly :: "dim_op \<Rightarrow> nat \<Rightarrow> nat \<Rightarrow> arena \<Rightarrow> nat option \<times> arena" where
  "apply_poly op left right ar = (case op of
     DimAdd \<Rightarrow> combine left right 1 ar
   | DimSub \<Rightarrow> combine left right (- 1) ar
   | DimMul \<Rightarrow> product_poly left right ar
   | DimDiv \<Rightarrow> (None, ar)
   | DimRem \<Rightarrow> (None, ar))"

definition apply_op :: "dim_op \<Rightarrow> nat \<Rightarrow> nat \<Rightarrow> arena \<Rightarrow> nat \<times> arena" where
  "apply_op op left right ar = (case (lit_of ar left, lit_of ar right) of
     (Some a, Some b) \<Rightarrow> (case fold_lits op a b of
         Some value \<Rightarrow> lit value ar
       | None \<Rightarrow> opaque_poly op left right ar)
   | _ \<Rightarrow> (case apply_poly op left right ar of
         (Some i, ar) \<Rightarrow> (i, ar)
       | (None, ar) \<Rightarrow> opaque_poly op left right ar))"

section \<open>Canonical form and the arena's invariant\<close>

definition mono_ok :: "nat \<Rightarrow> monomial \<Rightarrow> bool" where
  "mono_ok n m \<longleftrightarrow> sorted_wrt (<) (map fst m) \<and> list_all (\<lambda>(a, e). a < n \<and> 0 < e \<and> e < 2 ^ 32) m"

definition canonical :: "nat \<Rightarrow> poly \<Rightarrow> bool" where
  "canonical n p \<longleftrightarrow> bt_invar p \<and> list_all (\<lambda>(m, c). c \<noteq> 0 \<and> in_i64 c \<and> mono_ok n m) p"

definition operands_below :: "atom list \<Rightarrow> nat \<Rightarrow> nat \<Rightarrow> bool" where
  "operands_below atoms i a = (case atoms ! a of
     AtomParam _ \<Rightarrow> True | AtomOpaque _ l r \<Rightarrow> l < i \<and> r < i)"

definition poly_atoms :: "poly \<Rightarrow> nat list" where
  "poly_atoms p = map fst (concat (map fst p))"

definition arena_ok :: "arena \<Rightarrow> bool" where
  "arena_ok ar \<longleftrightarrow>
     (\<forall>i<length (ar_polys ar). canonical (length (ar_atoms ar)) (poly_of ar i) \<and>
        lit_of ar i = lit_value (poly_of ar i) \<and>
        list_all (operands_below (ar_atoms ar) i) (poly_atoms (poly_of ar i))) \<and>
     (\<forall>p i. ar_poly_ids ar p = Some i \<longleftrightarrow> i < length (ar_polys ar) \<and> poly_of ar i = p) \<and>
     (\<forall>v i. ar_lits ar v = Some i \<longleftrightarrow> i < length (ar_polys ar) \<and> lit_of ar i = Some v) \<and>
     (\<forall>name a. ar_params ar name = Some a \<longleftrightarrow>
        a < length (ar_atoms ar) \<and> ar_atoms ar ! a = AtomParam name) \<and>
     (\<forall>op l r a. ar_opaque ar (op, l, r) = Some a \<longleftrightarrow>
        a < length (ar_atoms ar) \<and> ar_atoms ar ! a = AtomOpaque op l r) \<and>
     (\<forall>a<length (ar_atoms ar). operands_below (ar_atoms ar) (length (ar_polys ar)) a)"

definition arena_extends :: "arena \<Rightarrow> arena \<Rightarrow> bool" where
  "arena_extends ar ar' \<longleftrightarrow> (\<exists>xs. ar_atoms ar' = ar_atoms ar @ xs) \<and>
     (\<exists>ys. ar_polys ar' = ar_polys ar @ ys)"

interpretation arenas: growth arena_extends
  by unfold_locales (auto simp: arena_extends_def)

lemma arena_ok_default: "arena_ok arena_default"
  by (simp add: arena_ok_def arena_default_def)

lemma arena_ok_polyD:
  assumes "arena_ok ar" "i < length (ar_polys ar)"
  shows "canonical (length (ar_atoms ar)) (poly_of ar i)" "lit_of ar i = lit_value (poly_of ar i)"
    "list_all (operands_below (ar_atoms ar) i) (poly_atoms (poly_of ar i))"
  using assms by (simp_all add: arena_ok_def)

lemma extends_poly_of:
  assumes "arena_extends ar ar'" "i < length (ar_polys ar)"
  shows "ar_polys ar' ! i = ar_polys ar ! i" "i < length (ar_polys ar')"
  using assms by (auto simp: arena_extends_def nth_append)

lemma extends_atoms:
  assumes "arena_extends ar ar'" "a < length (ar_atoms ar)"
  shows "ar_atoms ar' ! a = ar_atoms ar ! a" "a < length (ar_atoms ar')"
  using assms by (auto simp: arena_extends_def nth_append)

lemma canonical_mono: "canonical n p \<Longrightarrow> n \<le> k \<Longrightarrow> canonical k p"
  by (fastforce simp: canonical_def mono_ok_def list_all_iff)

lemma canonical_atoms: "canonical n p \<Longrightarrow> a \<in> set (poly_atoms p) \<Longrightarrow> a < n"
  by (fastforce simp: canonical_def mono_ok_def list_all_iff poly_atoms_def)

lemma lit_value_iff:
  assumes "canonical n p"
  shows "lit_value p = Some v \<longleftrightarrow> p = (if v = 0 then [] else [([], v)])"
proof (cases p)
  case Nil
  then show ?thesis by (auto simp: lit_value_def)
next
  case (Cons mc q)
  then show ?thesis
    using assms by (cases q) (auto simp: lit_value_def canonical_def split: if_splits)
qed

lemma canonical_lit: "in_i64 v \<Longrightarrow> canonical n (if v \<noteq> 0 then [([], v)] else [])"
  by (simp add: canonical_def mono_ok_def)

lemma canonical_atom: "a < n \<Longrightarrow> canonical n [([(a, 1)], 1)]"
  by (simp add: canonical_def mono_ok_def)

lemma operands_below_mono: "operands_below atoms i a \<Longrightarrow> i \<le> j \<Longrightarrow> operands_below atoms j a"
  by (auto simp: operands_below_def split: atom.splits)

lemma operands_below_append:
  "a < length atoms \<Longrightarrow> operands_below (atoms @ more_atoms) i a = operands_below atoms i a"
  by (simp add: operands_below_def nth_append)

text \<open>The result of an operation that only interns polynomials: a good arena that extends the old
  one and has the polynomial at the returned index.\<close>

definition interned :: "arena \<Rightarrow> poly \<Rightarrow> nat \<times> arena \<Rightarrow> bool" where
  "interned ar p res \<longleftrightarrow> arena_ok (snd res) \<and> arena_extends ar (snd res) \<and>
     fst res < length (ar_polys (snd res)) \<and> poly_of (snd res) (fst res) = p"

lemma intern_new_ok:
  assumes ok: "arena_ok ar" and p: "canonical (length (ar_atoms ar)) p" and new: "ar_poly_ids ar p = None"
  shows "arena_ok (ar\<lparr>ar_lits := (case lit_value p of Some v \<Rightarrow> (ar_lits ar)(v \<mapsto> length (ar_polys ar))
        | None \<Rightarrow> ar_lits ar),
      ar_poly_ids := (ar_poly_ids ar)(p \<mapsto> length (ar_polys ar)),
      ar_polys := ar_polys ar @ [(p, lit_value p)]\<rparr>)" (is "arena_ok ?ar'")
proof -
  let ?n = "length (ar_polys ar)"
  have fresh: "poly_of ar i \<noteq> p" if "i < ?n" for i
    using ok new that unfolding arena_ok_def by (metis option.distinct(1))
  have below: "list_all (operands_below (ar_atoms ar) ?n) (poly_atoms p)"
    using ok canonical_atoms [OF p] by (auto simp: arena_ok_def list_all_iff)
  have lits: "lit_of ar i \<noteq> Some v" if "i < ?n" "lit_value p = Some v" for i v
    using arena_ok_polyD(1,2) [OF ok that(1)] lit_value_iff [OF p] that fresh lit_value_iff by metis
  have lit_of': "lit_of ?ar' i = (if i = ?n then lit_value p else lit_of ar i)" if "i \<le> ?n" for i
    using that by (simp add: lit_of_def nth_append)
  have poly_of': "poly_of ?ar' i = (if i = ?n then p else poly_of ar i)" if "i \<le> ?n" for i
    using that by (simp add: nth_append)
  show ?thesis
    unfolding arena_ok_def
  proof (intro conjI)
    show "\<forall>i<length (ar_polys ?ar'). canonical (length (ar_atoms ?ar')) (poly_of ?ar' i) \<and>
        lit_of ?ar' i = lit_value (poly_of ?ar' i) \<and>
        list_all (operands_below (ar_atoms ?ar') i) (poly_atoms (poly_of ?ar' i))"
    proof (intro allI impI)
      fix i assume "i < length (ar_polys ?ar')"
      then have "i \<le> ?n" by simp
      then show "canonical (length (ar_atoms ?ar')) (poly_of ?ar' i) \<and>
          lit_of ?ar' i = lit_value (poly_of ?ar' i) \<and>
          list_all (operands_below (ar_atoms ?ar') i) (poly_atoms (poly_of ?ar' i))"
        unfolding poly_of' [OF \<open>i \<le> ?n\<close>] lit_of' [OF \<open>i \<le> ?n\<close>]
        using arena_ok_polyD [OF ok, of i] p below by simp
    qed
    show "\<forall>q i. (ar_poly_ids ?ar' q = Some i) = (i < length (ar_polys ?ar') \<and> poly_of ?ar' i = q)"
      using ok fresh unfolding arena_ok_def by (auto simp: nth_append less_Suc_eq)
    show "\<forall>v i. (ar_lits ?ar' v = Some i) = (i < length (ar_polys ?ar') \<and> lit_of ?ar' i = Some v)"
    proof (intro allI)
      fix v i
      have "ar_lits ar v = Some i \<longleftrightarrow> i < ?n \<and> lit_of ar i = Some v"
        using ok by (simp add: arena_ok_def)
      then show "(ar_lits ?ar' v = Some i) = (i < length (ar_polys ?ar') \<and> lit_of ?ar' i = Some v)"
        using lits lit_of' by (cases "lit_value p") (auto simp: less_Suc_eq)
    qed
  qed (use ok in \<open>auto simp: arena_ok_def intro: operands_below_mono\<close>)
qed

lemma intern_spec:
  assumes "arena_ok ar" "canonical (length (ar_atoms ar)) p"
  shows "interned ar p (intern p ar) \<and> ar_atoms (snd (intern p ar)) = ar_atoms ar"
proof (cases "ar_poly_ids ar p")
  case None
  then show ?thesis
    using intern_new_ok [OF assms None]
    by (cases "lit_value p") (auto simp: interned_def intern_def Let_def arena_extends_def)
next
  case (Some i)
  then have "i < length (ar_polys ar) \<and> poly_of ar i = p"
    using assms(1) by (simp add: arena_ok_def)
  then show ?thesis
    using Some assms(1) by (simp add: interned_def intern_def arenas.grows_refl)
qed

lemma add_atom_polys_ok:
  assumes "arena_ok ar" "i < length (ar_polys ar)"
  shows "canonical (length (ar_atoms ar @ [at])) (poly_of ar i)"
    "list_all (operands_below (ar_atoms ar @ [at]) i) (poly_atoms (poly_of ar i))"
  using arena_ok_polyD [OF assms] canonical_atoms [of _ "poly_of ar i"]
  by (auto intro: canonical_mono simp: list_all_iff operands_below_append)

lemma param_atom_spec:
  assumes ok: "arena_ok ar" and res: "param_atom name ar = (a, ar')"
  shows "arena_ok ar' \<and> arena_extends ar ar' \<and> a < length (ar_atoms ar') \<and>
    ar_atoms ar' ! a = AtomParam name"
proof (cases "ar_params ar name")
  case None
  then have ar': "a = length (ar_atoms ar)" "ar' = ar\<lparr>ar_atoms := ar_atoms ar @ [AtomParam name],
      ar_params := (ar_params ar)(name \<mapsto> length (ar_atoms ar))\<rparr>"
    using res by (auto simp: param_atom_def)
  have fresh: "ar_atoms ar ! b \<noteq> AtomParam name" if "b < length (ar_atoms ar)" for b
    using ok None that unfolding arena_ok_def by (metis option.distinct(1))
  have params: "\<forall>n b. (ar_params ar' n = Some b) = (b < length (ar_atoms ar') \<and> ar_atoms ar' ! b = AtomParam n)"
    using ok fresh unfolding arena_ok_def ar' by (auto simp: nth_append less_Suc_eq)
  have below: "\<forall>b<length (ar_atoms ar'). operands_below (ar_atoms ar') (length (ar_polys ar')) b"
    using ok unfolding arena_ok_def ar'
    by (auto simp: less_Suc_eq operands_below_append) (simp add: operands_below_def)
  have "arena_ok ar'"
    using ok params below add_atom_polys_ok [OF ok] arena_ok_polyD(2) [OF ok]
    unfolding arena_ok_def ar' by (auto simp: nth_append less_Suc_eq lit_of_def)
  then show ?thesis using ar' by (auto simp: arena_extends_def)
next
  case (Some b)
  then show ?thesis using assms by (auto simp: param_atom_def arena_ok_def arenas.grows_refl)
qed

lemma opaque_atom_spec:
  assumes ok: "arena_ok ar" and res: "opaque_atom op l r ar = (a, ar')"
    and lr: "l < length (ar_polys ar)" "r < length (ar_polys ar)"
  shows "arena_ok ar' \<and> arena_extends ar ar' \<and> a < length (ar_atoms ar') \<and>
    ar_atoms ar' ! a = AtomOpaque op l r"
proof (cases "ar_opaque ar (op, l, r)")
  case None
  then have ar': "a = length (ar_atoms ar)" "ar' = ar\<lparr>ar_atoms := ar_atoms ar @ [AtomOpaque op l r],
      ar_opaque := (ar_opaque ar)((op, l, r) \<mapsto> length (ar_atoms ar))\<rparr>"
    using res by (auto simp: opaque_atom_def)
  have fresh: "ar_atoms ar ! b \<noteq> AtomOpaque op l r" if "b < length (ar_atoms ar)" for b
    using ok None that unfolding arena_ok_def by (metis option.distinct(1))
  have opaque: "\<forall>op l r b. (ar_opaque ar' (op, l, r) = Some b) =
      (b < length (ar_atoms ar') \<and> ar_atoms ar' ! b = AtomOpaque op l r)"
    using ok fresh unfolding arena_ok_def ar' by (auto simp: nth_append less_Suc_eq)
  have below: "\<forall>b<length (ar_atoms ar'). operands_below (ar_atoms ar') (length (ar_polys ar')) b"
    using ok lr unfolding arena_ok_def ar'
    by (auto simp: less_Suc_eq operands_below_append) (simp add: operands_below_def)
  have "arena_ok ar'"
    using ok opaque below add_atom_polys_ok [OF ok] arena_ok_polyD(2) [OF ok]
    unfolding arena_ok_def ar' by (auto simp: nth_append less_Suc_eq lit_of_def)
  then show ?thesis using ar' by (auto simp: arena_extends_def)
next
  case (Some b)
  then show ?thesis using assms by (auto simp: opaque_atom_def arena_ok_def arenas.grows_refl)
qed

section \<open>What a polynomial denotes\<close>

text \<open>The value of a dimension expression over the integers, for an assignment of the parameters.
  Division and remainder truncate; dividing by zero gives some fixed value.\<close>

definition dim_op_val :: "dim_op \<Rightarrow> int \<Rightarrow> int \<Rightarrow> int" where
  "dim_op_val op a b = (case op of
     DimAdd \<Rightarrow> a + b | DimSub \<Rightarrow> a - b | DimMul \<Rightarrow> a * b | DimDiv \<Rightarrow> a sdiv b | DimRem \<Rightarrow> a smod b)"

definition mono_val :: "(nat \<Rightarrow> int) \<Rightarrow> monomial \<Rightarrow> int" where
  "mono_val v m = (\<Prod>(a, e)\<leftarrow>m. v a ^ e)"

definition poly_val :: "(nat \<Rightarrow> int) \<Rightarrow> poly \<Rightarrow> int" where
  "poly_val v p = (\<Sum>(m, c)\<leftarrow>p. c * mono_val v m)"

function den :: "arena \<Rightarrow> (string \<Rightarrow> int) \<Rightarrow> nat \<Rightarrow> int" where
  "den ar \<rho> i = poly_val (\<lambda>a. case ar_atoms ar ! a of
       AtomParam name \<Rightarrow> \<rho> name
     | AtomOpaque op l r \<Rightarrow>
         if l < i \<and> r < i then dim_op_val op (den ar \<rho> l) (den ar \<rho> r) else 0) (poly_of ar i)"
  by pat_completeness auto
termination by (relation "measure (\<lambda>(_, _, i). i)") auto

declare den.simps [simp del]

definition atom_val :: "arena \<Rightarrow> (string \<Rightarrow> int) \<Rightarrow> nat \<Rightarrow> int" where
  "atom_val ar \<rho> a = (case ar_atoms ar ! a of
     AtomParam name \<Rightarrow> \<rho> name
   | AtomOpaque op l r \<Rightarrow> dim_op_val op (den ar \<rho> l) (den ar \<rho> r))"

lemma mono_val_simps [simp]:
  "mono_val v [] = 1" "mono_val v ((a, e) # m) = v a ^ e * mono_val v m"
  by (simp_all add: mono_val_def)

lemma poly_val_simps [simp]:
  "poly_val v [] = 0" "poly_val v ((m, c) # p) = c * mono_val v m + poly_val v p"
  by (simp_all add: poly_val_def)

lemma mono_val_cong: "(\<And>a. a \<in> fst ` set m \<Longrightarrow> v a = w a) \<Longrightarrow> mono_val v m = mono_val w m"
  by (induction m) auto

lemma poly_val_cong:
  assumes "\<And>a. a \<in> set (poly_atoms p) \<Longrightarrow> v a = w a"
  shows "poly_val v p = poly_val w p"
  using assms
proof (induction p)
  case (Cons mc p)
  have "mono_val v (fst mc) = mono_val w (fst mc)"
    by (rule mono_val_cong) (use Cons.prems in \<open>auto simp: poly_atoms_def\<close>)
  moreover have "poly_val v p = poly_val w p"
    by (rule Cons.IH) (use Cons.prems in \<open>auto simp: poly_atoms_def\<close>)
  ultimately show ?case by (cases mc) simp
qed simp

lemma den_eq:
  assumes "arena_ok ar" "i < length (ar_polys ar)"
  shows "den ar \<rho> i = poly_val (atom_val ar \<rho>) (poly_of ar i)"
  unfolding den.simps [of ar \<rho> i]
proof (rule poly_val_cong)
  fix a assume "a \<in> set (poly_atoms (poly_of ar i))"
  then have "operands_below (ar_atoms ar) i a"
    using arena_ok_polyD(3) [OF assms] by (simp add: list_all_iff)
  then show "(case ar_atoms ar ! a of AtomParam name \<Rightarrow> \<rho> name
      | AtomOpaque op l r \<Rightarrow> if l < i \<and> r < i then dim_op_val op (den ar \<rho> l) (den ar \<rho> r) else 0)
      = atom_val ar \<rho> a"
    by (simp add: atom_val_def operands_below_def split: atom.splits)
qed

lemma den_extends:
  assumes "arena_ok ar" "arena_ok ar'" "arena_extends ar ar'" "i < length (ar_polys ar)"
  shows "den ar' \<rho> i = den ar \<rho> i"
  using assms(4)
proof (induction i rule: less_induct)
  case (less i)
  have "poly_val (atom_val ar' \<rho>) (poly_of ar i) = poly_val (atom_val ar \<rho>) (poly_of ar i)"
  proof (rule poly_val_cong)
    fix a assume a: "a \<in> set (poly_atoms (poly_of ar i))"
    then have below: "operands_below (ar_atoms ar) i a" "a < length (ar_atoms ar)"
      using arena_ok_polyD(1,3) [OF assms(1) less.prems] canonical_atoms by (auto simp: list_all_iff)
    show "atom_val ar' \<rho> a = atom_val ar \<rho> a"
      using below less.IH less.prems extends_atoms(1) [OF assms(3) below(2)]
      by (simp add: atom_val_def operands_below_def split: atom.splits)
  qed
  then show ?case
    using den_eq [OF assms(1) less.prems] den_eq [OF assms(2) extends_poly_of(2) [OF assms(3) less.prems]]
      extends_poly_of(1) [OF assms(3) less.prems] by simp
qed

lemma atom_val_extends:
  assumes "arena_ok ar" "arena_ok ar'" "arena_extends ar ar'" "a < length (ar_atoms ar)"
  shows "atom_val ar' \<rho> a = atom_val ar \<rho> a"
proof -
  have "operands_below (ar_atoms ar) (length (ar_polys ar)) a" using assms(1,4) by (simp add: arena_ok_def)
  then show ?thesis
    using den_extends [OF assms(1-3)] extends_atoms(1) [OF assms(3,4)]
    by (simp add: atom_val_def operands_below_def split: atom.splits)
qed

text \<open>What an operation on the arena promises: a good arena that extends the old one, and the
  index of a polynomial that denotes the given function of the parameters.\<close>

definition denotes :: "arena \<Rightarrow> nat \<times> arena \<Rightarrow> ((string \<Rightarrow> int) \<Rightarrow> int) \<Rightarrow> bool" where
  "denotes ar res f \<longleftrightarrow> arena_ok (snd res) \<and> arena_extends ar (snd res) \<and>
     fst res < length (ar_polys (snd res)) \<and> (\<forall>\<rho>. den (snd res) \<rho> (fst res) = f \<rho>)"

lemma denotesD:
  assumes "denotes ar (i, ar') f"
  shows "arena_ok ar'" "arena_extends ar ar'" "i < length (ar_polys ar')" "den ar' \<rho> i = f \<rho>"
  using assms by (simp_all add: denotes_def)

lemma denotes_trans:
  assumes "arena_extends ar ar1" "denotes ar1 res f"
  shows "denotes ar res f"
  using assms arenas.grows_trans by (auto simp: denotes_def)

lemma denotes_cong: "denotes ar res f \<Longrightarrow> (\<And>\<rho>. f \<rho> = g \<rho>) \<Longrightarrow> denotes ar res g"
  by (simp add: denotes_def)

lemma intern_denotes:
  assumes "arena_ok ar" "canonical (length (ar_atoms ar)) p"
  shows "denotes ar (intern p ar) (\<lambda>\<rho>. poly_val (atom_val ar \<rho>) p)"
proof -
  have spec: "interned ar p (intern p ar)" using intern_spec [OF assms] by simp
  obtain i ar' where res: "intern p ar = (i, ar')" by (cases "intern p ar")
  have "den ar' \<rho> i = poly_val (atom_val ar \<rho>) p" for \<rho>
  proof -
    have "den ar' \<rho> i = poly_val (atom_val ar' \<rho>) p"
      using spec res den_eq by (auto simp: interned_def)
    also have "\<dots> = poly_val (atom_val ar \<rho>) p"
      by (rule poly_val_cong)
        (use spec res assms canonical_atoms atom_val_extends in \<open>auto simp: interned_def\<close>)
    finally show ?thesis .
  qed
  then show ?thesis using spec res by (simp add: denotes_def interned_def)
qed

lemma lit_denotes:
  assumes "arena_ok ar" "in_i64 v"
  shows "denotes ar (lit v ar) (\<lambda>_. v)"
proof (cases "ar_lits ar v")
  case None
  have "denotes ar (intern (if v \<noteq> 0 then [([], v)] else []) ar)
      (\<lambda>\<rho>. poly_val (atom_val ar \<rho>) (if v \<noteq> 0 then [([], v)] else []))"
    using intern_denotes [OF assms(1) canonical_lit [OF assms(2)]] .
  then have "denotes ar (intern (if v \<noteq> 0 then [([], v)] else []) ar) (\<lambda>_. v)"
    by (rule denotes_cong) simp
  then show ?thesis using None by (simp add: lit_def)
next
  case (Some i)
  then have i: "i < length (ar_polys ar)" "lit_of ar i = Some v" using assms(1) by (auto simp: arena_ok_def)
  then have "poly_of ar i = (if v = 0 then [] else [([], v)])"
    using arena_ok_polyD(1,2) [OF assms(1) i(1)] lit_value_iff by metis
  then have "den ar \<rho> i = v" for \<rho> using den_eq [OF assms(1) i(1), of \<rho>] by simp
  then show ?thesis using Some i assms(1) by (simp add: denotes_def lit_def arenas.grows_refl)
qed

lemma atom_poly_denotes:
  assumes "arena_ok ar" "a < length (ar_atoms ar)"
  shows "denotes ar (atom_poly a ar) (\<lambda>\<rho>. atom_val ar \<rho> a)"
  using intern_denotes [OF assms(1) canonical_atom [OF assms(2)]] by (simp add: atom_poly_def)

lemma param_denotes:
  assumes "arena_ok ar"
  shows "denotes ar (param_poly name ar) (\<lambda>\<rho>. \<rho> name)"
proof -
  obtain a ar' where a: "param_atom name ar = (a, ar')" by (cases "param_atom name ar")
  note spec = param_atom_spec [OF assms a]
  then have "denotes ar' (atom_poly a ar') (\<lambda>\<rho>. \<rho> name)"
    using atom_poly_denotes [of ar' a] by (simp add: atom_val_def)
  then show ?thesis using spec a denotes_trans [of ar ar'] by (simp add: param_poly_def)
qed

lemma opaque_denotes:
  assumes "arena_ok ar" "l < length (ar_polys ar)" "r < length (ar_polys ar)"
  shows "denotes ar (opaque_poly op l r ar) (\<lambda>\<rho>. dim_op_val op (den ar \<rho> l) (den ar \<rho> r))"
proof -
  obtain a ar' where a: "opaque_atom op l r ar = (a, ar')" by (cases "opaque_atom op l r ar")
  note spec = opaque_atom_spec [OF assms(1) a assms(2,3)]
  have "denotes ar' (atom_poly a ar') (\<lambda>\<rho>. dim_op_val op (den ar \<rho> l) (den ar \<rho> r))"
    by (rule denotes_cong [OF atom_poly_denotes [of ar' a]])
      (use spec assms den_extends [of ar ar'] in \<open>auto simp: atom_val_def\<close>)
  then show ?thesis using spec a denotes_trans [of ar ar'] by (simp add: opaque_poly_def)
qed

section \<open>Arithmetic on canonical polynomials\<close>

lemma merge_spec:
  assumes "merge l r = Some m" "mono_ok n l" "mono_ok n r"
  shows "mono_ok n m \<and> fst ` set m = fst ` set l \<union> fst ` set r \<and>
    (\<forall>v. mono_val v m = mono_val v l * mono_val v r)"
  using assms
proof (induction l r arbitrary: m rule: merge.induct)
  case (3 a e left b f right)
  have ok: "mono_ok n left" "mono_ok n right"
    using "3.prems" by (simp_all add: mono_ok_def)
  consider (less) "a < b" | (greater) "b < a" | (eq) "a = b" "e + f < 2 ^ 32"
    using "3.prems"(1) by (auto split: if_splits)
  then show ?case
  proof cases
    case less
    then obtain k where k: "merge left ((b, f) # right) = Some k" "m = (a, e) # k"
      using "3.prems"(1) by auto
    note IH = "3.IH"(1) [OF less k(1) ok(1) "3.prems"(3)]
    then show ?thesis
      using less k(2) "3.prems"(2,3) by (auto simp: mono_ok_def list_all_iff)
  next
    case greater
    then obtain k where k: "merge ((a, e) # left) right = Some k" "m = (b, f) # k"
      using "3.prems"(1) by auto
    have "\<not> a < b" using greater by simp
    note IH = "3.IH"(2) [OF this greater k(1) "3.prems"(2) ok(2)]
    then show ?thesis
      using greater k(2) "3.prems"(2,3) by (auto simp: mono_ok_def list_all_iff)
  next
    case eq
    then obtain k where k: "merge left right = Some k" "m = (a, e + f) # k"
      using "3.prems"(1) by auto
    have "\<not> a < b" "\<not> b < a" using eq by simp_all
    note IH = "3.IH"(3) [OF this eq(2) k(1) ok]
    then show ?thesis
      using eq k(2) "3.prems"(2,3) by (auto simp: mono_ok_def list_all_iff power_add)
  qed
qed auto

lemma poly_val_bt_insert:
  "bt_invar p \<Longrightarrow> poly_val v (bt_insert m e p) = poly_val v p + (e - entry_or_zero p m) * mono_val v m"
proof (induction p)
  case (Cons ab p)
  obtain a b where ab: "ab = (a, b)" by (cases ab)
  have "map_of p m = None" if "m < a" using Cons.prems ab that bt_invar_NoneI [of a b p m] by simp
  then show ?case
    using Cons ab by (auto simp: entry_or_zero_def algebra_simps split: option.splits)
qed (simp add: entry_or_zero_def)

lemma poly_val_bt_remove:
  "bt_invar p \<Longrightarrow> poly_val v (bt_remove m p) = poly_val v p - entry_or_zero p m * mono_val v m"
proof (induction p)
  case (Cons ab p)
  then show ?case by (cases ab) (auto simp: entry_or_zero_def algebra_simps split: option.splits)
qed (simp add: entry_or_zero_def)

text \<open>A polynomial that may have zero coefficients, as the product builds it before the final
  \<open>retain\<close>.\<close>

definition pre_canonical :: "nat \<Rightarrow> poly \<Rightarrow> bool" where
  "pre_canonical n p \<longleftrightarrow> bt_invar p \<and> list_all (\<lambda>(m, c). in_i64 c \<and> mono_ok n m) p"

lemma set_bt_insert: "set (bt_insert k v p) \<subseteq> insert (k, v) (set p)"
  by (induction p) (auto split: if_splits)

lemma set_bt_remove: "set (bt_remove k p) \<subseteq> set p"
  by (induction p) (auto split: if_splits)

lemma pre_canonical_insert:
  "pre_canonical n p \<Longrightarrow> in_i64 e \<Longrightarrow> mono_ok n m \<Longrightarrow> pre_canonical n (bt_insert m e p)"
  using set_bt_insert [of m e p] bt_invar_insert [of p m e] by (auto simp: pre_canonical_def list_all_iff)

lemma canonical_insert:
  "canonical n p \<Longrightarrow> in_i64 e \<Longrightarrow> e \<noteq> 0 \<Longrightarrow> mono_ok n m \<Longrightarrow> canonical n (bt_insert m e p)"
  using set_bt_insert [of m e p] bt_invar_insert [of p m e] by (auto simp: canonical_def list_all_iff)

lemma canonical_remove_insert:
  assumes "canonical n p"
  shows "canonical n (bt_remove m (bt_insert m e p))"
proof -
  have inv: "bt_invar (bt_insert m e p)" using assms bt_invar_insert by (auto simp: canonical_def)
  have "(k, c) \<in> set p" if "(k, c) \<in> set (bt_remove m (bt_insert m e p))" for k c
  proof -
    have "map_of (bt_remove m (bt_insert m e p)) k = Some c"
      using that bt.entries_iff [OF bt_invar_remove [OF inv], of k c m] by simp
    then have "map_of p k = Some c"
      using map_of_bt_remove [OF inv, of m] by (auto simp: map_of_bt_insert split: if_splits)
    then show ?thesis by (rule map_of_SomeD)
  qed
  then have "set (bt_remove m (bt_insert m e p)) \<subseteq> set p" by auto
  then show ?thesis
    using assms bt_invar_remove [OF inv] by (auto simp: canonical_def list_all_iff)
qed

lemma steps_strict [simp]: "combine_step sign mc None = None" "product_step m c mc None = None"
  by (simp_all add: combine_step_def product_step_def split: prod.split)

lemma combine_step_spec:
  assumes "combine_step sign (m, c) (Some out) = Some out'" "canonical n out" "mono_ok n m"
  shows "canonical n out' \<and> (\<forall>v. poly_val v out' = poly_val v out + sign * c * mono_val v m)"
proof -
  obtain t e where te: "checked_mul c sign = Some t" "checked_add (entry_or_zero out m) t = Some e"
      and out': "out' = (if e = 0 then bt_remove m (bt_insert m e out) else bt_insert m e out)"
    using assms(1) by (auto simp: combine_step_def bind_eq_Some_conv)
  have e: "e = entry_or_zero out m + sign * c" "in_i64 e"
    using te by (auto simp: checked_defs checked_simps mult.commute)
  have inv: "bt_invar out" "bt_invar (bt_insert m e out)"
    using assms(2) bt_invar_insert by (auto simp: canonical_def)
  have "entry_or_zero (bt_insert m e out) m = e"
    by (simp add: entry_or_zero_def map_of_bt_insert)
  then have "poly_val v out' = poly_val v out + (e - entry_or_zero out m) * mono_val v m" for v
    using poly_val_bt_insert [OF inv(1), of v m e] poly_val_bt_remove [OF inv(2), of v m]
    by (auto simp: out')
  moreover have "e - entry_or_zero out m = sign * c" using e(1) by simp
  moreover have "canonical n out'"
    using out' e(2) assms(2,3) by (simp add: canonical_insert canonical_remove_insert)
  ultimately show ?thesis by simp
qed

lemma combine_fold_spec:
  assumes "fold (combine_step sign) q (Some out) = Some out'" "canonical n out" "canonical n q"
  shows "canonical n out' \<and> (\<forall>v. poly_val v out' = poly_val v out + sign * poly_val v q)"
  using assms
proof (induction q arbitrary: out)
  case (Cons mc q)
  obtain m c where mc: "mc = (m, c)" by (cases mc)
  obtain out1 where out1: "combine_step sign (m, c) (Some out) = Some out1"
      "fold (combine_step sign) q (Some out1) = Some out'"
    by (rule fold_option_ConsE [OF Cons.prems(1) [unfolded mc]]) auto
  have q: "canonical n q" "mono_ok n m" using Cons.prems(3) mc by (auto simp: canonical_def)
  note step = combine_step_spec [OF out1(1) Cons.prems(2) q(2)]
  have "canonical n out' \<and> (\<forall>v. poly_val v out' = poly_val v out1 + sign * poly_val v q)"
    using Cons.IH [OF out1(2)] step q(1) by simp
  then show ?case using step mc by (simp add: algebra_simps)
qed simp

lemma product_step_spec:
  assumes "product_step l c (r, d) (Some out) = Some out'" "pre_canonical n out"
    "mono_ok n l" "mono_ok n r"
  shows "pre_canonical n out' \<and>
    (\<forall>v. poly_val v out' = poly_val v out + c * mono_val v l * (d * mono_val v r))"
proof -
  obtain m t e where te: "merge l r = Some m" "checked_mul c d = Some t"
      "checked_add (entry_or_zero out m) t = Some e" and out': "out' = bt_insert m e out"
    using assms(1) by (auto simp: product_step_def bind_eq_Some_conv)
  have e: "e = entry_or_zero out m + c * d" "in_i64 e"
    using te by (auto simp: checked_defs checked_simps)
  note m = merge_spec [OF te(1) assms(3,4)]
  have "bt_invar out" using assms(2) by (simp add: pre_canonical_def)
  then show ?thesis
    using out' e m assms(2) by (auto simp: poly_val_bt_insert pre_canonical_insert algebra_simps)
qed

lemma product_inner_spec:
  assumes "fold (product_step l c) q (Some out) = Some out'" "pre_canonical n out" "mono_ok n l"
    "canonical n q"
  shows "pre_canonical n out' \<and>
    (\<forall>v. poly_val v out' = poly_val v out + c * mono_val v l * poly_val v q)"
  using assms
proof (induction q arbitrary: out)
  case (Cons mc q)
  obtain r d where mc: "mc = (r, d)" by (cases mc)
  obtain out1 where out1: "product_step l c (r, d) (Some out) = Some out1"
      "fold (product_step l c) q (Some out1) = Some out'"
    by (rule fold_option_ConsE [OF Cons.prems(1) [unfolded mc]]) auto
  have q: "canonical n q" "mono_ok n r" using Cons.prems(4) mc by (auto simp: canonical_def)
  note step = product_step_spec [OF out1(1) Cons.prems(2,3) q(2)]
  have "pre_canonical n out' \<and>
      (\<forall>v. poly_val v out' = poly_val v out1 + c * mono_val v l * poly_val v q)"
    using Cons.IH [OF out1(2)] Cons.prems(3) step q(1) by simp
  then show ?case using step mc by (simp add: algebra_simps)
qed simp

lemma product_outer_spec:
  assumes "fold (\<lambda>(m, c). fold (product_step m c) q) p (Some out) = Some out'"
    "pre_canonical n out" "canonical n p" "canonical n q"
  shows "pre_canonical n out' \<and> (\<forall>v. poly_val v out' = poly_val v out + poly_val v p * poly_val v q)"
  using assms
proof (induction p arbitrary: out)
  case (Cons mc p)
  obtain l c where mc: "mc = (l, c)" by (cases mc)
  have none: "fold (product_step m d) q None = None" for m d
    by (rule fold_strict_None) simp
  obtain out1 where out1: "fold (product_step l c) q (Some out) = Some out1"
      "fold (\<lambda>(m, c). fold (product_step m c) q) p (Some out1) = Some out'"
    by (rule fold_option_ConsE [OF Cons.prems(1) [unfolded mc]]) (auto simp: none)
  have p: "canonical n p" "mono_ok n l" using Cons.prems(3) mc by (auto simp: canonical_def)
  note step = product_inner_spec [OF out1(1) Cons.prems(2) p(2) Cons.prems(4)]
  have "pre_canonical n out' \<and> (\<forall>v. poly_val v out' = poly_val v out1 + poly_val v p * poly_val v q)"
    using Cons.IH [OF out1(2)] Cons.prems(4) step p(1) by simp
  then show ?case using step mc by (simp add: algebra_simps)
qed simp

lemma retain_nonzero:
  assumes "pre_canonical n p"
  shows "canonical n (filter (\<lambda>mc. snd mc \<noteq> 0) p) \<and>
    poly_val v (filter (\<lambda>mc. snd mc \<noteq> 0) p) = poly_val v p"
proof -
  have "poly_val v (filter (\<lambda>mc. snd mc \<noteq> 0) p) = poly_val v p" by (induction p) auto
  moreover have "bt_invar (filter (\<lambda>mc. snd mc \<noteq> 0) p)"
    using assms by (auto simp: pre_canonical_def sorted_wrt_map intro: sorted_wrt_filter)
  ultimately show ?thesis using assms by (auto simp: canonical_def pre_canonical_def list_all_iff)
qed

section \<open>The operations denote what they compute\<close>

definition denotes_opt :: "arena \<Rightarrow> nat option \<times> arena \<Rightarrow> ((string \<Rightarrow> int) \<Rightarrow> int) \<Rightarrow> bool" where
  "denotes_opt ar res f = (case fst res of
     None \<Rightarrow> snd res = ar
   | Some i \<Rightarrow> denotes ar (i, snd res) f)"

lemma intern_opt_denotes:
  assumes "arena_ok ar"
    "\<And>q. p = Some q \<Longrightarrow> canonical (length (ar_atoms ar)) q \<and> (\<forall>\<rho>. poly_val (atom_val ar \<rho>) q = f \<rho>)"
  shows "denotes_opt ar (intern_opt p ar) f"
proof (cases p)
  case (Some q)
  have "denotes ar (intern q ar) f"
    by (rule denotes_cong [OF intern_denotes [OF assms(1)]]) (use assms(2) [OF Some] in auto)
  then show ?thesis using Some by (cases "intern q ar") (simp add: intern_opt_def denotes_opt_def)
qed (simp add: intern_opt_def denotes_opt_def)

lemma combine_denotes:
  assumes "arena_ok ar" "l < length (ar_polys ar)" "r < length (ar_polys ar)"
  shows "denotes_opt ar (combine l r sign ar) (\<lambda>\<rho>. den ar \<rho> l + sign * den ar \<rho> r)"
  unfolding combine_def
proof (rule intern_opt_denotes [OF assms(1)])
  fix q assume "fold (combine_step sign) (poly_of ar r) (Some (poly_of ar l)) = Some q"
  from combine_fold_spec [OF this arena_ok_polyD(1) [OF assms(1,2)] arena_ok_polyD(1) [OF assms(1,3)]]
  show "canonical (length (ar_atoms ar)) q \<and>
      (\<forall>\<rho>. poly_val (atom_val ar \<rho>) q = den ar \<rho> l + sign * den ar \<rho> r)"
    using den_eq [OF assms(1)] assms(2,3) by simp
qed

lemma product_denotes:
  assumes "arena_ok ar" "l < length (ar_polys ar)" "r < length (ar_polys ar)"
  shows "denotes_opt ar (product_poly l r ar) (\<lambda>\<rho>. den ar \<rho> l * den ar \<rho> r)"
  unfolding product_poly_def
proof (rule intern_opt_denotes [OF assms(1)])
  let ?f = "fold (\<lambda>(m, c). fold (product_step m c) (poly_of ar r)) (poly_of ar l) (Some [])"
  fix q assume "map_option (filter (\<lambda>mc. snd mc \<noteq> 0)) ?f = Some q"
  then obtain p where p: "?f = Some p" "q = filter (\<lambda>mc. snd mc \<noteq> 0) p" by auto
  have "pre_canonical (length (ar_atoms ar)) []" by (simp add: pre_canonical_def)
  from product_outer_spec [OF p(1) this arena_ok_polyD(1) [OF assms(1,2)] arena_ok_polyD(1) [OF assms(1,3)]]
  show "canonical (length (ar_atoms ar)) q \<and>
      (\<forall>\<rho>. poly_val (atom_val ar \<rho>) q = den ar \<rho> l * den ar \<rho> r)"
    using den_eq [OF assms(1)] assms(2,3) p(2) retain_nonzero [of "length (ar_atoms ar)" p] by simp
qed

lemma lit_of_den:
  assumes "arena_ok ar" "i < length (ar_polys ar)" "lit_of ar i = Some v"
  shows "den ar \<rho> i = v \<and> in_i64 v"
proof -
  have p: "poly_of ar i = (if v = 0 then [] else [([], v)])"
    using arena_ok_polyD(1,2) [OF assms(1,2)] assms(3) lit_value_iff by metis
  then show ?thesis
    using den_eq [OF assms(1,2), of \<rho>] arena_ok_polyD(1) [OF assms(1,2)]
    by (auto simp: canonical_def split: if_splits)
qed

lemma fold_lits_val:
  assumes "fold_lits op a b = Some v" "in_i64 a" "in_i64 b"
  shows "v = dim_op_val op a b \<and> in_i64 v"
  using assms checked_rem_SomeD [OF _ assms(2,3)]
  by (cases op) (auto simp: fold_lits_def dim_op_val_def checked_defs checked_simps split: if_splits)

lemma apply_poly_denotes:
  assumes "arena_ok ar" "l < length (ar_polys ar)" "r < length (ar_polys ar)"
  shows "denotes_opt ar (apply_poly op l r ar) (\<lambda>\<rho>. dim_op_val op (den ar \<rho> l) (den ar \<rho> r))"
  using combine_denotes [OF assms, of 1] combine_denotes [OF assms, of "- 1"] product_denotes [OF assms]
  by (cases op) (simp_all add: apply_poly_def dim_op_val_def, simp_all add: denotes_opt_def)

lemma apply_denotes:
  assumes "arena_ok ar" "l < length (ar_polys ar)" "r < length (ar_polys ar)"
  shows "denotes ar (apply_op op l r ar) (\<lambda>\<rho>. dim_op_val op (den ar \<rho> l) (den ar \<rho> r))"
proof (cases "\<exists>a b. lit_of ar l = Some a \<and> lit_of ar r = Some b")
  case True
  then obtain a b where ab: "lit_of ar l = Some a" "lit_of ar r = Some b" by blast
  note la = lit_of_den [OF assms(1,2) ab(1)] and lb = lit_of_den [OF assms(1,3) ab(2)]
  show ?thesis
  proof (cases "fold_lits op a b")
    case None
    then show ?thesis using opaque_denotes [OF assms] ab by (simp add: apply_op_def)
  next
    case (Some v)
    then have "v = dim_op_val op a b" "in_i64 v" using fold_lits_val la lb by blast+
    then show ?thesis
      using lit_denotes [OF assms(1), of v] Some ab la lb by (simp add: apply_op_def)
  qed
next
  case False
  then have res: "apply_op op l r ar = (case apply_poly op l r ar of
      (Some i, ar) \<Rightarrow> (i, ar) | (None, ar) \<Rightarrow> opaque_poly op l r ar)"
    by (auto simp: apply_op_def split: option.splits)
  show ?thesis
    using apply_poly_denotes [OF assms, of op] opaque_denotes [OF assms, of op]
    by (auto simp: res denotes_opt_def split: prod.splits option.splits)
qed

text \<open>C20: the arithmetic on dimensions is the arithmetic of the integers. Applying an operator to
  two polynomials of a well-formed arena gives a well-formed arena that extends the old one, and
  the index of a polynomial whose value, for every assignment of the parameters, is the operator
  applied to the two values; an overflow of the \<open>i64\<close> coefficients never changes the value.\<close>

theorem apply_op_correct:
  assumes "arena_ok ar" "l < length (ar_polys ar)" "r < length (ar_polys ar)"
    and "apply_op op l r ar = (i, ar')"
  shows "arena_ok ar' \<and> arena_extends ar ar' \<and> i < length (ar_polys ar') \<and>
    (\<forall>\<rho>. den ar' \<rho> i = dim_op_val op (den ar \<rho> l) (den ar \<rho> r))"
  using apply_denotes [OF assms(1-3), of op] assms(4) by (simp add: denotes_def)

definition demo_arena :: arena where
  "demo_arena = snd (param_poly ''N'' arena_default)"

lemmas arena_eval = demo_arena_def param_poly_def param_atom_def atom_poly_def intern_def
  arena_default_def lit_value_def lit_of_def Let_def

lemma demo_arena_ok: "arena_ok demo_arena" "length (ar_polys demo_arena) = 1"
    "den demo_arena \<rho> 0 = \<rho> ''N''"
proof -
  have res: "param_poly ''N'' arena_default = (0, demo_arena)" by (simp add: arena_eval)
  note d = param_denotes [OF arena_ok_default, of "''N''", unfolded res]
  show "arena_ok demo_arena" "den demo_arena \<rho> 0 = \<rho> ''N''" using denotesD [OF d] by simp_all
  show "length (ar_polys demo_arena) = 1" by (simp add: arena_eval)
qed

theorem apply_op_correct_witness:
  "case apply_op DimMul 0 0 demo_arena of (i, ar) \<Rightarrow> den ar (\<lambda>_. 7) i = 49"
  using apply_op_correct [of demo_arena 0 0 DimMul] demo_arena_ok
  by (auto simp: dim_op_val_def split: prod.split)

text \<open>Adding does not depend on the order of the operands: both orders build the same polynomial,
  or both overflow.\<close>

lemma combine_step_lookup:
  assumes "combine_step sign (m, c) (Some out) = Some out'" "canonical n out"
  shows "map_of out' = (map_of out)(m := (if entry_or_zero out m + c * sign = 0 then None
     else Some (entry_or_zero out m + c * sign)))"
proof -
  obtain t e where te: "checked_mul c sign = Some t" "checked_add (entry_or_zero out m) t = Some e"
      and out': "out' = (if e = 0 then bt_remove m (bt_insert m e out) else bt_insert m e out)"
    using assms(1) by (auto simp: combine_step_def bind_eq_Some_conv)
  then have e: "e = entry_or_zero out m + c * sign" by (auto simp: checked_defs checked_simps)
  have inv: "bt_invar (bt_insert m e out)" using assms(2) bt_invar_insert by (auto simp: canonical_def)
  show ?thesis
    using out' map_of_bt_remove [OF inv, of m] by (auto simp: e map_of_bt_insert fun_eq_iff)
qed

lemma combine_step_entry:
  assumes "combine_step sign (m, c) (Some out) = Some out'" "canonical n out"
  shows "entry_or_zero out' k = entry_or_zero out k + (if k = m then c * sign else 0)"
  using combine_step_lookup [OF assms] by (simp add: entry_or_zero_def)

lemma combine_step_total:
  "in_i64 c \<Longrightarrow> (\<exists>out'. combine_step 1 (m, c) (Some out) = Some out') \<longleftrightarrow> in_i64 (entry_or_zero out m + c)"
  by (simp add: combine_step_def checked_defs checked_def)

lemma entry_or_zero_Cons:
  "bt_invar ((m, c) # q) \<Longrightarrow> entry_or_zero ((m, c) # q) k = entry_or_zero q k + (if k = m then c else 0)"
  using bt_invar_NoneI [of m c q m] by (auto simp: entry_or_zero_def)

lemma in_i64_entry: "canonical n p \<Longrightarrow> in_i64 (entry_or_zero p m)"
  by (auto simp: canonical_def entry_or_zero_def list_all_iff split: option.splits dest!: map_of_SomeD)

lemma combine_fold_entries:
  assumes "canonical n out" "canonical n q"
  shows "case fold (combine_step 1) q (Some out) of
      None \<Rightarrow> \<exists>m. \<not> in_i64 (entry_or_zero out m + entry_or_zero q m)
    | Some out' \<Rightarrow> canonical n out' \<and> (\<forall>m. entry_or_zero out' m = entry_or_zero out m + entry_or_zero q m)"
  using assms
proof (induction q arbitrary: out)
  case (Cons mc q)
  obtain m c where mc: "mc = (m, c)" by (cases mc)
  have q: "canonical n q" "mono_ok n m" "in_i64 c" "bt_invar ((m, c) # q)"
    using Cons.prems(2) mc by (auto simp: canonical_def)
  have q_m: "entry_or_zero q m = 0"
    using bt_invar_NoneI [OF q(4), of m] by (simp add: entry_or_zero_def)
  show ?case
  proof (cases "combine_step 1 (m, c) (Some out)")
    case None
    have "fold (combine_step 1) q None = None"
      by (rule fold_strict_None) simp
    moreover have "\<not> in_i64 (entry_or_zero out m + c)" using combine_step_total [OF q(3), of m out] None by simp
    ultimately show ?thesis
      using None mc entry_or_zero_Cons [OF q(4), of m] q_m by (auto intro!: exI [of _ m])
  next
    case (Some out1)
    have out1: "canonical n out1" using combine_step_spec [OF Some Cons.prems(1) q(2)] by simp
    have "entry_or_zero out1 k + entry_or_zero q k = entry_or_zero out k + entry_or_zero ((m, c) # q) k" for k
      using combine_step_entry [OF Some Cons.prems(1)] entry_or_zero_Cons [OF q(4)] by simp
    with Cons.IH [OF out1 q(1)] show ?thesis using Some mc by (auto split: option.splits)
  qed
qed (simp add: entry_or_zero_def)

lemma canonical_determined:
  assumes "canonical n p" "canonical n q" "\<And>m. entry_or_zero p m = entry_or_zero q m"
  shows "p = q"
proof -
  have "map_of p m = map_of q m" for m
    using assms(1,2) assms(3) [of m]
    by (auto simp: entry_or_zero_def canonical_def list_all_iff split: option.splits dest!: map_of_SomeD)
  then show ?thesis
    using bt.entries_determined [of p q] assms(1,2) by (auto simp: canonical_def)
qed

lemma combine_fold_commute:
  assumes "canonical n p" "canonical n q"
  shows "fold (combine_step 1) q (Some p) = fold (combine_step 1) p (Some q)"
proof -
  note pq = combine_fold_entries [OF assms] and qp = combine_fold_entries [OF assms(2,1)]
  have total: "in_i64 (entry_or_zero r m)" if "canonical n r" for r m using in_i64_entry [OF that] .
  show ?thesis
  proof (cases "fold (combine_step 1) q (Some p)")
    case None
    then obtain m where "\<not> in_i64 (entry_or_zero p m + entry_or_zero q m)" using pq by auto
    then have "fold (combine_step 1) p (Some q) = None"
      using qp total by (auto simp: add.commute split: option.splits) (metis add.commute)
    then show ?thesis using None by simp
  next
    case (Some r)
    then have r: "canonical n r" "\<And>m. entry_or_zero r m = entry_or_zero p m + entry_or_zero q m"
      using pq by auto
    then obtain r' where "fold (combine_step 1) p (Some q) = Some r'" "canonical n r'"
        "\<And>m. entry_or_zero r' m = entry_or_zero q m + entry_or_zero p m"
      using qp total [OF r(1)] by (auto simp: add.commute split: option.splits)
    then show ?thesis using canonical_determined [OF r(1)] r(2) Some by auto
  qed
qed

text \<open>Sums are kept in one canonical form. Combining two polynomials of a well-formed arena in
  either order builds and interns the same polynomial, and the two orders overflow together.\<close>

theorem sum_canonical:
  assumes "arena_ok ar" "l < length (ar_polys ar)" "r < length (ar_polys ar)"
  shows "apply_poly DimAdd l r ar = apply_poly DimAdd r l ar"
  using combine_fold_commute [OF arena_ok_polyD(1) [OF assms(1,2)] arena_ok_polyD(1) [OF assms(1,3)]]
  by (simp add: apply_poly_def combine_def)

theorem sum_canonical_witness:
  "case lit 3 demo_arena of (i, ar) \<Rightarrow> apply_poly DimAdd 0 i ar = apply_poly DimAdd i 0 ar"
proof -
  obtain i ar where res: "lit 3 demo_arena = (i, ar)" by (cases "lit 3 demo_arena")
  have "in_i64 3" by (simp add: in_i64_def i64_min_def i64_max_def)
  note d = denotesD [OF lit_denotes [OF demo_arena_ok(1) this, unfolded res]]
  have "0 < length (ar_polys ar)" using d(3) by linarith
  then show ?thesis using sum_canonical [OF d(1) _ d(3), of 0] res by simp
qed

end
