(* ===== verification/DimUnify.thy ===== *)
theory DimUnify
  imports Dims Decimals
begin

text \<open>
  Dimension expressions, \<open>compiler/paco-types/src/dims.rs\<close>, continued: substitution, equality
  verdicts, unification and rendering, over the arena of \<open>Dims\<close>.  A substitution maps names to
  types, as in the type checker.
\<close>

type_synonym subst = "string \<rightharpoonup> type"

section \<open>Atoms\<close>

text \<open>\<open>fresh_atom\<close> with the global counter as state (a \<open>u32\<close> that wraps), and the global table of
  display names.\<close>

definition fresh_atom :: "string \<Rightarrow> nat \<Rightarrow> string \<times> nat" where
  "fresh_atom display counter = (display @ ''@'' @ nat_string counter, (counter + 1) mod 2 ^ 32)"

definition is_atom :: "string \<Rightarrow> bool" where
  "is_atom name \<longleftrightarrow> List.member name CHR ''@''"

definition is_existential :: "string \<Rightarrow> bool" where
  "is_existential name \<longleftrightarrow> take 1 name = ''?''"

definition display_name :: "(string \<rightharpoonup> string) \<Rightarrow> string \<Rightarrow> string" where
  "display_name table name =
    (if \<not> is_atom name then name
     else (case table name of
       Some display \<Rightarrow> display
     | None \<Rightarrow> takeWhile (\<lambda>c. c \<noteq> CHR ''@'') name))"

definition rename_atom :: "string \<Rightarrow> string \<Rightarrow> (string \<rightharpoonup> string) \<Rightarrow> (string \<rightharpoonup> string)" where
  "rename_atom name display table = table(name \<mapsto> display)"

section \<open>Bindings\<close>

datatype binding_t = BindKeep | BindDyn | BindTo nat | BindRename string

definition binding :: "string \<Rightarrow> subst \<Rightarrow> binding_t" where
  "binding name s = (case s name of
     Some (TDim (DimConst e)) \<Rightarrow> BindTo (ce_poly e)
   | Some (TDim DimDyn) \<Rightarrow> BindDyn
   | Some (TGeneric other) \<Rightarrow> if other \<noteq> name then BindRename other else BindKeep
   | _ \<Rightarrow> BindKeep)"

definition is_unbound :: "string \<Rightarrow> subst \<Rightarrow> bool" where
  "is_unbound name s = (case s name of Some (TGeneric other) \<Rightarrow> other = name | _ \<Rightarrow> False)"

function touches :: "arena \<Rightarrow> subst \<Rightarrow> nat \<Rightarrow> bool" where
  "touches ar s i = list_ex (\<lambda>a. case ar_atoms ar ! a of
      AtomParam name \<Rightarrow> binding name s \<noteq> BindKeep
    | AtomOpaque _ l r \<Rightarrow> if l < i \<and> r < i then touches ar s l \<or> touches ar s r else False)
    (poly_atoms (poly_of ar i))"
  by pat_completeness auto
termination by (relation "measure (\<lambda>(_, _, i). i)") auto

declare touches.simps [simp del]

section \<open>Evaluation and substitution\<close>

definition eval_factor :: "(nat \<Rightarrow> int option) \<Rightarrow> nat \<times> nat \<Rightarrow> int option \<Rightarrow> int option" where
  "eval_factor v ae acc = (case ae of (a, e) \<Rightarrow>
     Option.bind acc (\<lambda>t. Option.bind (v a) (\<lambda>value. Option.bind (checked_pow value e)
       (\<lambda>p. checked_mul t p))))"

definition eval_term :: "(nat \<Rightarrow> int option) \<Rightarrow> monomial \<times> int \<Rightarrow> int option \<Rightarrow> int option" where
  "eval_term v mc acc = (case mc of (m, c) \<Rightarrow>
     Option.bind acc (\<lambda>total. Option.bind (fold (eval_factor v) m (Some c))
       (\<lambda>t. checked_add total t)))"

definition eval_terms :: "(nat \<Rightarrow> int option) \<Rightarrow> poly \<Rightarrow> int option" where
  "eval_terms v p = fold (eval_term v) p (Some 0)"

function eval_poly :: "arena \<Rightarrow> subst \<Rightarrow> nat \<Rightarrow> int option" where
  "eval_poly ar s i = eval_terms (\<lambda>a. case ar_atoms ar ! a of
      AtomParam name \<Rightarrow> (case binding name s of BindTo bound \<Rightarrow> lit_of ar bound | _ \<Rightarrow> None)
    | AtomOpaque op l r \<Rightarrow> if l < i \<and> r < i
        then Option.bind (eval_poly ar s l) (\<lambda>a. Option.bind (eval_poly ar s r) (fold_lits op a))
        else None) (poly_of ar i)"
  by pat_completeness auto
termination by (relation "measure (\<lambda>(_, _, i). i)") auto

declare eval_poly.simps [simp del]

definition some_id :: "nat \<times> arena \<Rightarrow> nat option \<times> arena" where
  "some_id res = (Some (fst res), snd res)"

fun mul_times :: "nat \<Rightarrow> nat \<Rightarrow> nat \<Rightarrow> arena \<Rightarrow> nat \<times> arena" where
  "mul_times 0 value t ar = (t, ar)"
| "mul_times (Suc n) value t ar =
     (case apply_op DimMul t value ar of (t', ar') \<Rightarrow> mul_times n value t' ar')"

type_synonym atom_resolver = "nat \<Rightarrow> arena \<Rightarrow> nat option \<times> arena"

definition resolve_factor ::
  "atom_resolver \<Rightarrow> nat \<times> nat \<Rightarrow> nat option \<times> arena \<Rightarrow> nat option \<times> arena" where
  "resolve_factor R ae st = (case ae of (a, e) \<Rightarrow> (case st of
     (None, ar) \<Rightarrow> (None, ar)
   | (Some t, ar) \<Rightarrow> (case R a ar of
       (None, ar) \<Rightarrow> (None, ar)
     | (Some value, ar) \<Rightarrow> some_id (mul_times e value t ar))))"

definition resolve_term ::
  "atom_resolver \<Rightarrow> monomial \<times> int \<Rightarrow> nat option \<times> arena \<Rightarrow> nat option \<times> arena" where
  "resolve_term R mc st = (case mc of (m, c) \<Rightarrow> (case st of
     (None, ar) \<Rightarrow> (None, ar)
   | (Some tot, ar) \<Rightarrow> (case fold (resolve_factor R) m (some_id (lit c ar)) of
       (None, ar) \<Rightarrow> (None, ar)
     | (Some t, ar) \<Rightarrow> some_id (apply_op DimAdd tot t ar))))"

function resolve :: "subst \<Rightarrow> nat \<Rightarrow> arena \<Rightarrow> nat option \<times> arena" where
  "resolve s i ar =
    (if \<not> touches ar s i then (Some i, ar)
     else (case eval_poly ar s i of
       Some value \<Rightarrow> some_id (lit value ar)
     | None \<Rightarrow> fold (resolve_term (\<lambda>a ar. case ar_atoms ar ! a of
           AtomParam name \<Rightarrow> (case binding name s of
               BindKeep \<Rightarrow> some_id (atom_poly a ar)
             | BindDyn \<Rightarrow> (None, ar)
             | BindTo bound \<Rightarrow> (Some bound, ar)
             | BindRename other \<Rightarrow> some_id (param_poly other ar))
         | AtomOpaque op l r \<Rightarrow> if l < i \<and> r < i
             then (case resolve s l ar of
                 (None, ar) \<Rightarrow> (None, ar)
               | (Some l', ar) \<Rightarrow> (case resolve s r ar of
                   (None, ar) \<Rightarrow> (None, ar)
                 | (Some r', ar) \<Rightarrow> some_id (apply_op op l' r' ar)))
             else (None, ar))) (poly_of ar i) (some_id (lit 0 ar))))"
  by pat_completeness auto
termination by (relation "measure (\<lambda>(_, i, _). i)") auto

declare resolve.simps [simp del]

section \<open>Unbound parameters\<close>

function unbound_params :: "arena \<Rightarrow> subst \<Rightarrow> nat \<Rightarrow> nat list \<Rightarrow> nat list" where
  "unbound_params ar s i out = fold (\<lambda>a out. case ar_atoms ar ! a of
      AtomParam name \<Rightarrow> if is_unbound name s \<and> a \<notin> set out then out @ [a] else out
    | AtomOpaque _ l r \<Rightarrow> if l < i \<and> r < i
        then unbound_params ar s r (unbound_params ar s l out) else out)
    (poly_atoms (poly_of ar i)) out"
  by pat_completeness auto
termination by (relation "measure (\<lambda>(_, _, i, _). i)") auto

declare unbound_params.simps [simp del]

definition linear_in_unbound :: "nat \<Rightarrow> nat \<Rightarrow> subst \<Rightarrow> arena \<Rightarrow> (nat \<times> int \<times> nat) option \<times> arena" where
  "linear_in_unbound expected actual s ar =
    (case apply_op DimSub expected actual ar of (difference, ar) \<Rightarrow>
      (case unbound_params ar s difference [] of
         [p] \<Rightarrow>
          (case map_of (poly_of ar difference) [(p, 1)] of
             None \<Rightarrow> (None, ar)
           | Some coeff \<Rightarrow>
              (case intern (bt_remove [(p, 1)] (poly_of ar difference)) ar of (rest, ar) \<Rightarrow>
                (if unbound_params ar s rest [] = [] then Some (p, coeff, rest) else None, ar)))
       | _ \<Rightarrow> (None, ar)))"

text \<open>\<open>param_name\<close>; the code panics on an opaque atom, the empty name here.\<close>

definition param_name :: "arena \<Rightarrow> nat \<Rightarrow> string" where
  "param_name ar a = (case ar_atoms ar ! a of AtomParam name \<Rightarrow> name | AtomOpaque _ _ _ \<Rightarrow> [])"

section \<open>Rendering\<close>

text \<open>\<open>Arena::render\<close>, \<open>render_monomial\<close> and \<open>render_operand\<close>; \<open>table\<close> is the global table of
  display names.\<close>

definition join_with :: "string \<Rightarrow> string list \<Rightarrow> string" where
  "join_with sep parts = (case parts of [] \<Rightarrow> [] | p # ps \<Rightarrow> p @ concat (map (\<lambda>q. sep @ q) ps))"

definition parenthesised :: "string \<Rightarrow> string" where
  "parenthesised t = ''('' @ t @ '')''"

definition render_operand_text :: "string \<Rightarrow> string" where
  "render_operand_text t =
     (if CHR '' '' \<in> set t \<or> take 1 t = ''-'' then parenthesised t else t)"

definition render_factor :: "(string \<rightharpoonup> string) \<Rightarrow> (nat \<Rightarrow> string) \<Rightarrow> arena \<Rightarrow> bool \<Rightarrow> nat \<times> nat \<Rightarrow> string list" where
  "render_factor table R ar bare ae = (case ae of (a, e) \<Rightarrow>
     replicate e (case ar_atoms ar ! a of
       AtomParam name \<Rightarrow> display_name table name
     | AtomOpaque op l r \<Rightarrow>
        (let t = render_operand_text (R l) @ '' '' @ dim_op_symbol op @ '' '' @ render_operand_text (R r)
         in if bare \<and> e = 1 then t else parenthesised t)))"

definition render_monomial :: "(string \<rightharpoonup> string) \<Rightarrow> (nat \<Rightarrow> string) \<Rightarrow> arena \<Rightarrow> monomial \<Rightarrow> bool \<Rightarrow> string" where
  "render_monomial table R ar m alone =
     join_with '' * '' (sort (concat (map (render_factor table R ar (alone \<and> length m = 1)) m)))"

definition render_term :: "nat \<Rightarrow> string \<Rightarrow> int \<Rightarrow> string" where
  "render_term degree factors coeff =
    (let magnitude = nat \<bar>coeff\<bar> in
     if degree = 0 then nat_string magnitude
     else if magnitude = 1 then factors
     else nat_string magnitude @ '' * '' @ factors)"

definition render_joined :: "nat \<times> nat \<times> string \<times> int \<Rightarrow> string" where
  "render_joined it = (case it of (index, degree, factors, coeff) \<Rightarrow>
     (if index = 0 then (if coeff < 0 then ''-'' else []) else (if coeff < 0 then '' - '' else '' + '')) @
     render_term degree factors coeff)"

definition render_poly :: "(string \<rightharpoonup> string) \<Rightarrow> (nat \<Rightarrow> string) \<Rightarrow> arena \<Rightarrow> poly \<Rightarrow> string" where
  "render_poly table R ar p =
    (if p = [] then ''0''
     else concat (map render_joined (enumerate 0
       (sort_key (\<lambda>(degree, factors, coeff). (- int degree, factors))
         (map (\<lambda>(m, c). (sum_list (map snd m),
             render_monomial table R ar m (length p = 1 \<and> c = 1), c)) p)))))"

function render :: "(string \<rightharpoonup> string) \<Rightarrow> arena \<Rightarrow> nat \<Rightarrow> string" where
  "render table ar i =
     render_poly table (\<lambda>j. if j < i then render table ar j else []) ar (poly_of ar i)"
  by pat_completeness auto
termination by (relation "measure (\<lambda>(_, _, i). i)") auto

declare render.simps [simp del]

section \<open>Dimension expressions\<close>

definition const_lit :: "int \<Rightarrow> arena \<Rightarrow> const_expr \<times> arena" where
  "const_lit value ar = (case lit value ar of (p, ar) \<Rightarrow> (ConstExpr p None, ar))"

definition const_param :: "string \<Rightarrow> arena \<Rightarrow> const_expr \<times> arena" where
  "const_param name ar = (case param_poly name ar of (p, ar) \<Rightarrow> (ConstExpr p None, ar))"

definition normal_form :: "(string \<rightharpoonup> string) \<Rightarrow> arena \<Rightarrow> const_expr \<Rightarrow> string" where
  "normal_form table ar e = render table ar (ce_poly e)"

fun contains_text :: "string \<Rightarrow> string \<Rightarrow> bool" where
  "contains_text part [] = (part = [])"
| "contains_text part (c # cs) = (take (length part) (c # cs) = part \<or> contains_text part cs)"

definition operand :: "(string \<rightharpoonup> string) \<Rightarrow> arena \<Rightarrow> const_expr \<Rightarrow> nat \<Rightarrow> string" where
  "operand table ar e min_prec = (case (case ce_written e of
       Some (t, p) \<Rightarrow> (t, p)
     | None \<Rightarrow> (let t = normal_form table ar e in
         (t, if contains_text '' + '' t \<or> contains_text '' - '' t then 1
             else if CHR '' '' \<in> set t \<or> take 1 t = ''-'' then 2 else 3)))
     of (t, p) \<Rightarrow> if p < min_prec then parenthesised t else t)"

definition const_binary :: "(string \<rightharpoonup> string) \<Rightarrow> dim_op \<Rightarrow> const_expr \<Rightarrow> const_expr \<Rightarrow> arena \<Rightarrow>
    const_expr \<times> arena" where
  "const_binary table op left right ar =
    (let parent = dim_op_precedence op;
         (left_min, right_min) = (case op of
             DimAdd \<Rightarrow> (parent, parent) | DimMul \<Rightarrow> (parent, parent)
           | DimSub \<Rightarrow> (parent, parent + 1)
           | DimDiv \<Rightarrow> (parent + 1, parent + 1) | DimRem \<Rightarrow> (parent + 1, parent + 1));
         t = operand table ar left left_min @ '' '' @ dim_op_symbol op @ '' '' @
             operand table ar right right_min
     in case apply_op op (ce_poly left) (ce_poly right) ar of
          (p, ar) \<Rightarrow> (ConstExpr p (Some (t, parent)), ar))"

definition const_neg :: "(string \<rightharpoonup> string) \<Rightarrow> const_expr \<Rightarrow> arena \<Rightarrow> const_expr \<times> arena" where
  "const_neg table inner ar =
    (let t = ''-'' @ operand table ar inner 3 in
     case lit 0 ar of (zero, ar) \<Rightarrow>
       (case apply_op DimSub zero (ce_poly inner) ar of (p, ar) \<Rightarrow> (ConstExpr p (Some (t, 3)), ar)))"

definition as_lit :: "arena \<Rightarrow> const_expr \<Rightarrow> int option" where
  "as_lit ar e = lit_of ar (ce_poly e)"

definition as_param :: "arena \<Rightarrow> const_expr \<Rightarrow> string option" where
  "as_param ar e = (case poly_of ar (ce_poly e) of
     [([(a, e)], c)] \<Rightarrow> if e = 1 \<and> c = 1
       then (case ar_atoms ar ! a of AtomParam name \<Rightarrow> Some name | AtomOpaque _ _ _ \<Rightarrow> None) else None
   | _ \<Rightarrow> None)"

definition const_substitute :: "const_expr \<Rightarrow> subst \<Rightarrow> arena \<Rightarrow> const_expr option \<times> arena" where
  "const_substitute e s ar = (case resolve s (ce_poly e) ar of
     (None, ar) \<Rightarrow> (None, ar)
   | (Some p, ar) \<Rightarrow> (Some (if p = ce_poly e then e else ConstExpr p None), ar))"

function is_ground :: "arena \<Rightarrow> nat \<Rightarrow> bool" where
  "is_ground ar i = list_all (\<lambda>a. case ar_atoms ar ! a of
      AtomParam _ \<Rightarrow> False
    | AtomOpaque _ l r \<Rightarrow> if l < i \<and> r < i then is_ground ar l \<and> is_ground ar r else False)
    (poly_atoms (poly_of ar i))"
  by pat_completeness auto
termination by (relation "measure (\<lambda>(_, i). i)") auto

declare is_ground.simps [simp del]

function names_walk :: "arena \<Rightarrow> nat \<Rightarrow> string list \<Rightarrow> string list" where
  "names_walk ar i out = fold (\<lambda>a out. case ar_atoms ar ! a of
      AtomParam name \<Rightarrow> if name \<notin> set out then out @ [name] else out
    | AtomOpaque _ l r \<Rightarrow> if l < i \<and> r < i then names_walk ar r (names_walk ar l out) else out)
    (poly_atoms (poly_of ar i)) out"
  by pat_completeness auto
termination by (relation "measure (\<lambda>(_, i, _). i)") auto

declare names_walk.simps [simp del]

definition const_names :: "arena \<Rightarrow> const_expr \<Rightarrow> string list" where
  "const_names ar e = names_walk ar (ce_poly e) []"

definition const_unbound_params :: "arena \<Rightarrow> const_expr \<Rightarrow> subst \<Rightarrow> string list" where
  "const_unbound_params ar e s = map (param_name ar) (unbound_params ar s (ce_poly e) [])"

definition verdict :: "const_expr \<Rightarrow> const_expr \<Rightarrow> arena \<Rightarrow> verdict_t \<times> arena" where
  "verdict expected actual ar =
    (if ce_poly expected = ce_poly actual then (Equal, ar)
     else (case apply_op DimSub (ce_poly expected) (ce_poly actual) ar of (difference, ar) \<Rightarrow>
       (case lit_of ar difference of
          Some v \<Rightarrow> if v = 0 then Equal else Different
        | None \<Rightarrow> CannotProve, ar)))"

definition dim_type :: "arena \<Rightarrow> dim \<Rightarrow> type" where
  "dim_type ar d = (case d of
     DimConst e \<Rightarrow> (case as_param ar e of
         Some name \<Rightarrow> TGeneric name
       | None \<Rightarrow> TDim (DimConst e))
   | DimDyn \<Rightarrow> TDim DimDyn)"

definition substitute_dim :: "dim \<Rightarrow> subst \<Rightarrow> arena \<Rightarrow> type \<times> arena" where
  "substitute_dim d s ar = (case d of
     DimDyn \<Rightarrow> (TDim DimDyn, ar)
   | DimConst e \<Rightarrow> (case const_substitute e s ar of
       (Some result, ar) \<Rightarrow>
         (if ce_poly result = ce_poly e then TDim d else dim_type ar (DimConst result), ar)
     | (None, ar) \<Rightarrow> (TDim DimDyn, ar)))"

section \<open>Unification\<close>

text \<open>The closure \<open>solved\<close> of \<open>unify\<close>: the solution, which is empty when the two sides are already
  the same, or the parameter to bind with its value.\<close>

definition unify_solve :: "nat \<Rightarrow> nat \<Rightarrow> subst \<Rightarrow> arena \<Rightarrow> (string \<times> nat) option option \<times> arena" where
  "unify_solve expected actual s ar =
    (case resolve s expected ar of
       (None, ar) \<Rightarrow> (None, ar)
     | (Some expected, ar) \<Rightarrow> (case resolve s actual ar of
         (None, ar) \<Rightarrow> (None, ar)
       | (Some actual, ar) \<Rightarrow>
          (if expected = actual then (Some None, ar)
           else (case linear_in_unbound expected actual s ar of
               (None, ar) \<Rightarrow> (None, ar)
             | (Some (p, coeff, rest), ar) \<Rightarrow>
                (if coeff = 1 then
                   (case lit 0 ar of (zero, ar) \<Rightarrow> (case apply_op DimSub zero rest ar of
                      (value, ar) \<Rightarrow> (Some (Some (param_name ar p, value)), ar)))
                 else if coeff = - 1 then (Some (Some (param_name ar p, rest)), ar)
                 else (None, ar))))))"

definition unify :: "dim \<Rightarrow> dim \<Rightarrow> subst \<Rightarrow> arena \<Rightarrow> bool \<times> subst \<times> arena" where
  "unify expected actual s ar = (case (expected, actual) of
     (DimDyn, DimDyn) \<Rightarrow> (True, s, ar)
   | (DimConst e, DimConst a) \<Rightarrow> (case unify_solve (ce_poly e) (ce_poly a) s ar of
       (Some None, ar) \<Rightarrow> (True, s, ar)
     | (Some (Some (name, value)), ar) \<Rightarrow>
         (True, s(name \<mapsto> dim_type ar (DimConst (ConstExpr value None))), ar)
     | (None, ar) \<Rightarrow> (False, s, ar))
   | _ \<Rightarrow> (False, s, ar))"

definition uninferred :: "const_expr \<Rightarrow> const_expr \<Rightarrow> subst \<Rightarrow> arena \<Rightarrow> (string \<times> int option) option \<times> arena" where
  "uninferred expected actual s ar =
    (case resolve s (ce_poly expected) ar of
       (None, ar) \<Rightarrow> (None, ar)
     | (Some expected, ar) \<Rightarrow> (case resolve s (ce_poly actual) ar of
         (None, ar) \<Rightarrow> (None, ar)
       | (Some actual, ar) \<Rightarrow> (case unbound_params ar s expected [] of
           [] \<Rightarrow> (None, ar)
         | first # _ \<Rightarrow> (case linear_in_unbound expected actual s ar of
             (None, ar) \<Rightarrow> (Some (param_name ar first, None), ar)
           | (Some (_, coeff, rest), ar) \<Rightarrow>
              (Some (param_name ar first, Option.bind (lit_of ar rest) (\<lambda>rest.
                 Option.bind (checked_rem rest coeff) (\<lambda>m. if m = 0
                   then Option.bind (checked_div rest coeff) checked_neg else None))), ar)))))"

section \<open>Evaluation is exact\<close>

text \<open>The assignments of the parameters a substitution admits.\<close>

definition satisfies :: "arena \<Rightarrow> (string \<Rightarrow> int) \<Rightarrow> subst \<Rightarrow> bool" where
  "satisfies ar \<rho> s \<longleftrightarrow> (\<forall>name. case binding name s of
     BindTo b \<Rightarrow> \<rho> name = den ar \<rho> b
   | BindRename other \<Rightarrow> \<rho> name = \<rho> other
   | _ \<Rightarrow> True)"

definition subst_ok :: "arena \<Rightarrow> subst \<Rightarrow> bool" where
  "subst_ok ar s \<longleftrightarrow> (\<forall>name b. binding name s = BindTo b \<longrightarrow> b < length (ar_polys ar))"

lemma subst_ok_extends: "subst_ok ar s \<Longrightarrow> arena_extends ar ar' \<Longrightarrow> subst_ok ar' s"
  using extends_poly_of(2) by (auto simp: subst_ok_def)

lemma satisfies_extends:
  assumes "arena_ok ar" "arena_ok ar'" "arena_extends ar ar'" "subst_ok ar s"
  shows "satisfies ar' \<rho> s \<longleftrightarrow> satisfies ar \<rho> s"
  using den_extends [OF assms(1-3)] assms(4)
  by (auto simp: satisfies_def subst_ok_def split: binding_t.splits)

lemma satisfiesD:
  assumes "satisfies ar \<rho> s"
  shows "binding name s = BindTo b \<Longrightarrow> \<rho> name = den ar \<rho> b"
    "binding name s = BindRename other \<Longrightarrow> \<rho> name = \<rho> other"
  using assms unfolding satisfies_def by (metis binding_t.simps)+

lemma eval_strict [simp]: "eval_factor v ae None = None" "eval_term v mc None = None"
  by (simp_all add: eval_factor_def eval_term_def split: prod.split)

lemma eval_factors_val:
  assumes "fold (eval_factor v) m (Some c) = Some x" "\<And>a y. a \<in> fst ` set m \<Longrightarrow> v a = Some y \<Longrightarrow> w a = y"
  shows "x = c * mono_val w m \<and> (in_i64 c \<longrightarrow> in_i64 x)"
  using assms
proof (induction m arbitrary: c)
  case (Cons ae m)
  obtain a e where ae: "ae = (a, e)" by (cases ae)
  obtain c1 where step: "eval_factor v (a, e) (Some c) = Some c1"
      and rest: "fold (eval_factor v) m (Some c1) = Some x"
    by (rule fold_option_ConsE [OF Cons.prems(1) [unfolded ae]]) auto
  obtain y p where y: "v a = Some y" "checked_pow y e = Some p" "checked_mul c p = Some c1"
    using step by (auto simp: eval_factor_def bind_eq_Some_conv)
  have "x = c1 * mono_val w m \<and> (in_i64 c1 \<longrightarrow> in_i64 x)" by (rule Cons.IH [OF rest]) (use Cons.prems(2) in auto)
  moreover have "w a = y" using Cons.prems(2) y(1) ae by simp
  ultimately show ?case using y(2,3) ae by (auto simp: checked_defs checked_simps)
qed simp

lemma eval_terms_val:
  assumes "fold (eval_term v) p (Some t) = Some x" "\<And>a y. a \<in> set (poly_atoms p) \<Longrightarrow> v a = Some y \<Longrightarrow> w a = y"
  shows "x = t + poly_val w p \<and> (in_i64 t \<longrightarrow> in_i64 x)"
  using assms
proof (induction p arbitrary: t)
  case (Cons mc p)
  obtain m c where mc: "mc = (m, c)" by (cases mc)
  obtain t1 where step: "eval_term v (m, c) (Some t) = Some t1"
      and rest: "fold (eval_term v) p (Some t1) = Some x"
    by (rule fold_option_ConsE [OF Cons.prems(1) [unfolded mc]]) auto
  obtain y where y: "fold (eval_factor v) m (Some c) = Some y" "checked_add t y = Some t1"
    using step by (auto simp: eval_term_def bind_eq_Some_conv)
  have "x = t1 + poly_val w p \<and> (in_i64 t1 \<longrightarrow> in_i64 x)"
    by (rule Cons.IH [OF rest]) (use Cons.prems(2) in \<open>auto simp: poly_atoms_def\<close>)
  moreover have "y = c * mono_val w m"
    using eval_factors_val [OF y(1), of w] Cons.prems(2) mc by (auto simp: poly_atoms_def)
  ultimately show ?case using y(2) mc by (auto simp: checked_defs checked_simps)
qed simp

lemma operand_below:
  assumes "arena_ok ar" "i < length (ar_polys ar)" "a \<in> set (poly_atoms (poly_of ar i))"
    "ar_atoms ar ! a = AtomOpaque op l r"
  shows "l < i \<and> r < i"
  using arena_ok_polyD(3) [OF assms(1,2)] assms(3,4) by (auto simp: list_all_iff operands_below_def)

lemma eval_poly_den:
  assumes "arena_ok ar" "subst_ok ar s" "satisfies ar \<rho> s"
  shows "eval_poly ar s i = Some v \<Longrightarrow> i < length (ar_polys ar) \<Longrightarrow> den ar \<rho> i = v \<and> in_i64 v"
proof (induction i arbitrary: v rule: less_induct)
  case (less i)
  let ?v = "\<lambda>a. case ar_atoms ar ! a of
      AtomParam name \<Rightarrow> (case binding name s of BindTo bound \<Rightarrow> lit_of ar bound | _ \<Rightarrow> None)
    | AtomOpaque op l r \<Rightarrow> if l < i \<and> r < i
        then Option.bind (eval_poly ar s l) (\<lambda>a. Option.bind (eval_poly ar s r) (fold_lits op a)) else None"
  have atoms: "atom_val ar \<rho> a = y" if val: "?v a = Some y" for a y
  proof (cases "ar_atoms ar ! a")
    case (AtomParam name)
    then obtain b where b: "binding name s = BindTo b" "lit_of ar b = Some y"
      using val by (auto split: binding_t.splits)
    then show ?thesis
      using AtomParam lit_of_den [OF assms(1) _ b(2), of \<rho>] satisfiesD(1) [OF assms(3) b(1)] assms(2)
      by (auto simp: atom_val_def subst_ok_def)
  next
    case (AtomOpaque op l r)
    then obtain x z where xz: "l < i" "r < i" "eval_poly ar s l = Some x" "eval_poly ar s r = Some z"
        "fold_lits op x z = Some y"
      using val by (auto simp: bind_eq_Some_conv split: if_splits)
    then show ?thesis
      using less.IH [of l x] less.IH [of r z] less.prems(2) fold_lits_val [OF xz(5)] AtomOpaque
      by (auto simp: atom_val_def)
  qed
  have "fold (eval_term ?v) (poly_of ar i) (Some 0) = Some v"
    using less.prems(1) by (simp add: eval_poly.simps [of ar s i] eval_terms_def)
  from eval_terms_val [OF this, of "atom_val ar \<rho>"] atoms show ?case
    using den_eq [OF assms(1) less.prems(2), of \<rho>] by auto
qed

section \<open>Substitution keeps the value\<close>

text \<open>What a step of \<open>resolve\<close> promises: a good arena that extends the old one, and, if there is a
  result, that it has the given value under every assignment satisfying \<open>P\<close>.\<close>

definition resolves :: "((string \<Rightarrow> int) \<Rightarrow> bool) \<Rightarrow> arena \<Rightarrow> nat option \<times> arena \<Rightarrow>
    ((string \<Rightarrow> int) \<Rightarrow> int) \<Rightarrow> bool" where
  "resolves P ar res f \<longleftrightarrow> arena_ok (snd res) \<and> arena_extends ar (snd res) \<and>
     (\<forall>i. fst res = Some i \<longrightarrow> i < length (ar_polys (snd res)) \<and> (\<forall>\<rho>. P \<rho> \<longrightarrow> den (snd res) \<rho> i = f \<rho>))"

lemma resolves_None: "arena_ok ar' \<Longrightarrow> arena_extends ar ar' \<Longrightarrow> resolves P ar (None, ar') f"
  by (simp add: resolves_def)

lemma resolves_denotes:
  "denotes ar res g \<Longrightarrow> (\<And>\<rho>. P \<rho> \<Longrightarrow> g \<rho> = f \<rho>) \<Longrightarrow> resolves P ar (some_id res) f"
  by (auto simp: resolves_def denotes_def some_id_def)

lemma resolves_trans: "arena_extends ar ar1 \<Longrightarrow> resolves P ar1 res f \<Longrightarrow> resolves P ar res f"
  using arenas.grows_trans by (auto simp: resolves_def)

lemma resolvesD:
  assumes "resolves P ar (Some i, ar') f"
  shows "arena_ok ar'" "arena_extends ar ar'" "i < length (ar_polys ar')" "P \<rho> \<Longrightarrow> den ar' \<rho> i = f \<rho>"
  using assms by (simp_all add: resolves_def)

lemma mul_times_denotes:
  assumes "arena_ok ar" "t < length (ar_polys ar)" "v < length (ar_polys ar)"
  shows "denotes ar (mul_times n v t ar) (\<lambda>\<rho>. den ar \<rho> t * den ar \<rho> v ^ n)"
  using assms
proof (induction n arbitrary: t ar)
  case 0
  then show ?case by (simp add: denotes_def arenas.grows_refl)
next
  case (Suc n)
  obtain t' ar' where res: "apply_op DimMul t v ar = (t', ar')" by (cases "apply_op DimMul t v ar")
  note d = denotesD [OF apply_denotes [OF Suc.prems, of DimMul, unfolded res]]
  have v: "v < length (ar_polys ar')" using extends_poly_of(2) [OF d(2) Suc.prems(3)] .
  have "denotes ar' (mul_times n v t' ar') (\<lambda>\<rho>. den ar \<rho> t * den ar \<rho> v ^ Suc n)"
    by (rule denotes_cong [OF Suc.IH [OF d(1,3) v]])
      (simp add: d(4) dim_op_val_def den_extends [OF Suc.prems(1) d(1,2) Suc.prems(3)])
  then show ?case using res denotes_trans [OF d(2)] by simp
qed

lemma resolve_factors:
  assumes R: "\<And>a ar1. a \<in> fst ` set m \<Longrightarrow> arena_ok ar1 \<Longrightarrow> arena_extends ar ar1 \<Longrightarrow>
      resolves P ar1 (R a ar1) (\<lambda>\<rho>. g \<rho> a)"
    and st: "arena_ok ar1" "arena_extends ar ar1" "resolves P ar1 st f"
  shows "resolves P ar1 (fold (resolve_factor R) m st) (\<lambda>\<rho>. f \<rho> * mono_val (g \<rho>) m)"
  using assms
proof (induction m arbitrary: st f)
  case (Cons ae m)
  obtain a e where ae: "ae = (a, e)" by (cases ae)
  have "resolves P ar1 (resolve_factor R (a, e) st) (\<lambda>\<rho>. f \<rho> * g \<rho> a ^ e)"
  proof (cases st)
    case st: (Pair t ar2)
    show ?thesis
    proof (cases t)
      case None
      then show ?thesis using st Cons.prems(4) by (simp add: resolve_factor_def resolves_def)
    next
      case (Some t)
      note t = resolvesD [OF Cons.prems(4) [unfolded st Some]]
      have ext: "arena_extends ar ar2" using Cons.prems(3) t(2) arenas.grows_trans by blast
      obtain v ar3 where v: "R a ar2 = (v, ar3)" by (cases "R a ar2")
      have R_a: "resolves P ar2 (v, ar3) (\<lambda>\<rho>. g \<rho> a)" using Cons.prems(1) [of a ar2] ae t(1) ext v by simp
      show ?thesis
      proof (cases v)
        case None
        then show ?thesis
          using st Some v R_a t(2) arenas.grows_trans
          by (auto simp: resolve_factor_def resolves_def)
      next
        case val: (Some v')
        note d = resolvesD [OF R_a [unfolded val]]
        have t3: "t < length (ar_polys ar3)" "den ar3 \<rho> t = den ar2 \<rho> t" for \<rho>
          using extends_poly_of(2) [OF d(2) t(3)] den_extends [OF t(1) d(1,2) t(3)] by simp_all
        have "resolves P ar3 (some_id (mul_times e v' t ar3)) (\<lambda>\<rho>. f \<rho> * g \<rho> a ^ e)"
          by (rule resolves_denotes [OF mul_times_denotes [OF d(1) t3(1) d(3)]])
            (simp add: t3(2) t(4) d(4))
        then have "resolves P ar1 (some_id (mul_times e v' t ar3)) (\<lambda>\<rho>. f \<rho> * g \<rho> a ^ e)"
          using resolves_trans arenas.grows_trans [OF t(2) d(2)] by blast
        then show ?thesis using st Some v val by (simp add: resolve_factor_def)
      qed
    qed
  qed
  from Cons.IH [OF Cons.prems(1) Cons.prems(2,3) this] show ?case
    using ae by (simp add: algebra_simps)
qed simp

lemma resolve_terms:
  assumes R: "\<And>a ar1. a \<in> set (poly_atoms p) \<Longrightarrow> arena_ok ar1 \<Longrightarrow> arena_extends ar ar1 \<Longrightarrow>
      resolves P ar1 (R a ar1) (\<lambda>\<rho>. g \<rho> a)"
    and st: "resolves P ar st f" and coeffs: "list_all (\<lambda>(m, c). in_i64 c) p"
  shows "resolves P ar (fold (resolve_term R) p st) (\<lambda>\<rho>. f \<rho> + poly_val (g \<rho>) p)"
  using assms
proof (induction p arbitrary: st f)
  case (Cons mc p)
  obtain m c where mc: "mc = (m, c)" by (cases mc)
  have "resolves P ar (resolve_term R (m, c) st) (\<lambda>\<rho>. f \<rho> + c * mono_val (g \<rho>) m)"
  proof (cases st)
    case st: (Pair t ar1)
    show ?thesis
    proof (cases t)
      case None
      then show ?thesis using st Cons.prems(2) by (simp add: resolve_term_def resolves_def)
    next
      case (Some t)
      note t = resolvesD [OF Cons.prems(2) [unfolded st Some]]
      have "in_i64 c" using Cons.prems(3) mc by simp
      then have "resolves P ar1 (some_id (lit c ar1)) (\<lambda>_. c)"
        using resolves_denotes [OF lit_denotes [OF t(1)]] by simp
      then have factors: "resolves P ar1 (fold (resolve_factor R) m (some_id (lit c ar1)))
          (\<lambda>\<rho>. c * mono_val (g \<rho>) m)"
        by (rule resolve_factors [rotated 3])
          (use Cons.prems(1) mc t in \<open>auto simp: poly_atoms_def\<close>)
      obtain v ar2 where v: "fold (resolve_factor R) m (some_id (lit c ar1)) = (v, ar2)"
        by (cases "fold (resolve_factor R) m (some_id (lit c ar1))")
      show ?thesis
      proof (cases v)
        case None
        then show ?thesis
          using st Some v factors t(2) arenas.grows_trans by (auto simp: resolve_term_def resolves_def)
      next
        case val: (Some v')
        note d = resolvesD [OF factors [unfolded v val]]
        have t2: "t < length (ar_polys ar2)" "den ar2 \<rho> t = den ar1 \<rho> t" for \<rho>
          using extends_poly_of(2) [OF d(2) t(3)] den_extends [OF t(1) d(1,2) t(3)] by simp_all
        have "resolves P ar2 (some_id (apply_op DimAdd t v' ar2)) (\<lambda>\<rho>. f \<rho> + c * mono_val (g \<rho>) m)"
          by (rule resolves_denotes [OF apply_denotes [OF d(1) t2(1) d(3)]])
            (simp add: t2(2) t(4) d(4) dim_op_val_def)
        then have "resolves P ar (some_id (apply_op DimAdd t v' ar2)) (\<lambda>\<rho>. f \<rho> + c * mono_val (g \<rho>) m)"
          using resolves_trans arenas.grows_trans [OF t(2) d(2)] by blast
        then show ?thesis using st Some v val by (simp add: resolve_term_def)
      qed
    qed
  qed
  from Cons.IH [OF _ this] Cons.prems(1,3) show ?case
    using mc by (simp add: poly_atoms_def algebra_simps)
qed simp

lemma resolves_opaque:
  assumes l: "resolves P ar L f"
    and r: "\<And>ar2. arena_ok ar2 \<Longrightarrow> arena_extends ar ar2 \<Longrightarrow> resolves P ar2 (R ar2) g"
  shows "resolves P ar (case L of
      (None, ar) \<Rightarrow> (None, ar)
    | (Some l', ar) \<Rightarrow> (case R ar of
        (None, ar) \<Rightarrow> (None, ar)
      | (Some r', ar) \<Rightarrow> some_id (apply_op op l' r' ar))) (\<lambda>\<rho>. dim_op_val op (f \<rho>) (g \<rho>))"
proof (cases L)
  case L: (Pair lo ar2)
  show ?thesis
  proof (cases lo)
    case None
    then show ?thesis using L l by (simp add: resolves_def)
  next
    case (Some l')
    note dl = resolvesD [OF l [unfolded L Some]]
    obtain ro ar3 where R: "R ar2 = (ro, ar3)" by (cases "R ar2")
    have r2: "resolves P ar2 (ro, ar3) g" using r [OF dl(1,2)] R by simp
    then have ext: "arena_extends ar ar3" using arenas.grows_trans [OF dl(2)] by (simp add: resolves_def)
    show ?thesis
    proof (cases ro)
      case None
      then show ?thesis using L Some R r2 ext by (simp add: resolves_def)
    next
      case val: (Some r')
      note dr = resolvesD [OF r2 [unfolded val]]
      have l3: "l' < length (ar_polys ar3)" "den ar3 \<rho> l' = den ar2 \<rho> l'" for \<rho>
        using extends_poly_of(2) [OF dr(2) dl(3)] den_extends [OF dl(1) dr(1,2) dl(3)] by simp_all
      have "resolves P ar3 (some_id (apply_op op l' r' ar3)) (\<lambda>\<rho>. dim_op_val op (f \<rho>) (g \<rho>))"
        by (rule resolves_denotes [OF apply_denotes [OF dr(1) l3(1) dr(3)]]) (simp add: l3(2) dl(4) dr(4))
      then show ?thesis using L Some R val resolves_trans [OF ext] by simp
    qed
  qed
qed

lemma eval_poly_i64:
  assumes "eval_poly ar s i = Some v"
  shows "in_i64 v"
proof -
  obtain f where "fold (eval_term f) (poly_of ar i) (Some 0) = Some v"
    using assms by (auto simp: eval_poly.simps [of ar s i] eval_terms_def)
  from eval_terms_val [OF this, of "\<lambda>a. the (f a)"] show ?thesis by auto
qed

lemma resolve_resolves:
  assumes ok0: "arena_ok ar0" and s0: "subst_ok ar0 s"
  shows "arena_ok ar \<Longrightarrow> arena_extends ar0 ar \<Longrightarrow> i < length (ar_polys ar) \<Longrightarrow>
    resolves (\<lambda>\<rho>. satisfies ar0 \<rho> s) ar (resolve s i ar) (\<lambda>\<rho>. den ar \<rho> i)"
proof (induction i arbitrary: ar rule: less_induct)
  case (less i)
  let ?P = "\<lambda>\<rho>. satisfies ar0 \<rho> s"
  let ?R = "\<lambda>a ar. case ar_atoms ar ! a of
      AtomParam name \<Rightarrow> (case binding name s of
          BindKeep \<Rightarrow> some_id (atom_poly a ar)
        | BindDyn \<Rightarrow> (None, ar)
        | BindTo bound \<Rightarrow> (Some bound, ar)
        | BindRename other \<Rightarrow> some_id (param_poly other ar))
    | AtomOpaque op l r \<Rightarrow> if l < i \<and> r < i
        then (case resolve s l ar of
            (None, ar) \<Rightarrow> (None, ar)
          | (Some l', ar) \<Rightarrow> (case resolve s r ar of
              (None, ar) \<Rightarrow> (None, ar)
            | (Some r', ar) \<Rightarrow> some_id (apply_op op l' r' ar)))
        else (None, ar)"
  have sat: "satisfies ar1 \<rho> s" if "arena_ok ar1" "arena_extends ar0 ar1" "?P \<rho>" for ar1 \<rho>
    using satisfies_extends [OF ok0 that(1,2) s0] that(3) by simp
  have R: "resolves ?P ar1 (?R a ar1) (\<lambda>\<rho>. atom_val ar \<rho> a)"
    if a: "a \<in> set (poly_atoms (poly_of ar i))" and ok1: "arena_ok ar1" and ext: "arena_extends ar ar1"
    for a ar1
  proof -
    have len: "a < length (ar_atoms ar)"
      using canonical_atoms [OF arena_ok_polyD(1) [OF less.prems(1,3)] a] .
    have at: "ar_atoms ar1 ! a = ar_atoms ar ! a" "a < length (ar_atoms ar1)"
        "\<And>\<rho>. atom_val ar1 \<rho> a = atom_val ar \<rho> a"
      using extends_atoms [OF ext len] atom_val_extends [OF less.prems(1) ok1 ext len] by simp_all
    have ext0: "arena_extends ar0 ar1" using less.prems(2) ext arenas.grows_trans by blast
    note s1 = subst_ok_extends [OF s0 ext0]
    show ?thesis
    proof (cases "ar_atoms ar ! a")
      case (AtomParam name)
      have val: "atom_val ar \<rho> a = \<rho> name" for \<rho> using AtomParam by (simp add: atom_val_def)
      show ?thesis
      proof (cases "binding name s")
        case BindKeep
        have "resolves ?P ar1 (some_id (atom_poly a ar1)) (\<lambda>\<rho>. atom_val ar \<rho> a)"
          by (rule resolves_denotes [OF atom_poly_denotes [OF ok1 at(2)]]) (simp add: at(3))
        then show ?thesis using AtomParam BindKeep at(1) by simp
      next
        case BindDyn
        then show ?thesis using AtomParam at(1) ok1 by (simp add: resolves_None arenas.grows_refl)
      next
        case (BindTo b)
        then show ?thesis
          using AtomParam at(1) ok1 s1 satisfiesD(1) [OF sat [OF ok1 ext0] BindTo] val
          by (simp add: resolves_def subst_ok_def arenas.grows_refl)
      next
        case (BindRename other)
        have "resolves ?P ar1 (some_id (param_poly other ar1)) (\<lambda>\<rho>. atom_val ar \<rho> a)"
        proof (rule resolves_denotes [OF param_denotes [OF ok1]])
          fix \<rho> assume "?P \<rho>"
          then show "\<rho> other = atom_val ar \<rho> a"
            using satisfiesD(2) [OF sat [OF ok1 ext0] BindRename, of \<rho>] val [of \<rho>] by simp
        qed
        then show ?thesis using AtomParam BindRename at(1) by simp
      qed
    next
      case (AtomOpaque op l r)
      note lr = operand_below [OF less.prems(1,3) a AtomOpaque]
      have at1: "arena_extends ar0 ar2" "l < length (ar_polys ar2)" "r < length (ar_polys ar2)"
          "den ar2 \<rho> l = den ar \<rho> l" "den ar2 \<rho> r = den ar \<rho> r"
        if "arena_ok ar2" "arena_extends ar1 ar2" for ar2 \<rho>
      proof -
        have ext2: "arena_extends ar ar2" using ext that(2) arenas.grows_trans by blast
        have "l < length (ar_polys ar)" "r < length (ar_polys ar)" using lr less.prems(3) by simp_all
        then show "arena_extends ar0 ar2" "l < length (ar_polys ar2)" "r < length (ar_polys ar2)"
            "den ar2 \<rho> l = den ar \<rho> l" "den ar2 \<rho> r = den ar \<rho> r"
          using ext2 arenas.grows_trans [OF less.prems(2) ext2] extends_poly_of(2) [OF ext2]
            den_extends [OF less.prems(1) that(1) ext2] by simp_all
      qed
      have IHl: "resolves ?P ar1 (resolve s l ar1) (\<lambda>\<rho>. den ar \<rho> l)"
        using less.IH [of l ar1] lr ok1 at1 [OF ok1 arenas.grows_refl] by simp
      have IHr: "resolves ?P ar2 (resolve s r ar2) (\<lambda>\<rho>. den ar \<rho> r)"
        if "arena_ok ar2" "arena_extends ar1 ar2" for ar2
        using less.IH [of r ar2] lr that at1 [OF that] by simp
      show ?thesis
        using resolves_opaque [OF IHl IHr, of op] lr AtomOpaque at(1) by (simp add: atom_val_def)
    qed
  qed
  show ?case
  proof (cases "touches ar s i")
    case False
    then show ?thesis
      using less.prems by (simp add: resolve.simps [of s i] resolves_def arenas.grows_refl)
  next
    case True
    show ?thesis
    proof (cases "eval_poly ar s i")
      case (Some v)
      have v: "den ar \<rho> i = v \<and> in_i64 v" if "?P \<rho>" for \<rho>
        using eval_poly_den [OF less.prems(1) subst_ok_extends [OF s0 less.prems(2)]
            sat [OF less.prems(1,2) that] Some less.prems(3)] .
      have "resolves ?P ar (some_id (lit v ar)) (\<lambda>\<rho>. den ar \<rho> i)"
        by (rule resolves_denotes [OF lit_denotes [OF less.prems(1) eval_poly_i64 [OF Some]]])
          (use v in simp)
      then show ?thesis using True Some by (simp add: resolve.simps [of s i])
    next
      case None
      have "resolves ?P ar (some_id (lit 0 ar)) (\<lambda>_. 0)"
        using resolves_denotes [OF lit_denotes [OF less.prems(1)]] by simp
      moreover have "list_all (\<lambda>(m, c). in_i64 c) (poly_of ar i)"
        using arena_ok_polyD(1) [OF less.prems(1,3)] by (auto simp: canonical_def list_all_iff)
      ultimately have "resolves ?P ar (fold (resolve_term ?R) (poly_of ar i) (some_id (lit 0 ar)))
          (\<lambda>\<rho>. 0 + poly_val (atom_val ar \<rho>) (poly_of ar i))"
        using resolve_terms [where R = ?R and P = ?P and ar = ar and p = "poly_of ar i"
            and g = "atom_val ar"] R by blast
      then show ?thesis
        using True None den_eq [OF less.prems(1,3)] by (simp add: resolve.simps [of s i])
    qed
  qed
qed

text \<open>A small arena: the parameter \<open>N\<close> at index 0, and the literals 3 and 4.\<close>

definition demo_arena3 :: arena where
  "demo_arena3 = snd (lit 4 (snd (lit 3 demo_arena)))"

lemmas dim_eval = demo_arena3_def lit_def arena_eval poly_atoms_def binding_def is_unbound_def
  checked_defs checked_def in_i64_def i64_min_def i64_max_def fold_lits_def

lemma demo_arena3_ok: "arena_ok demo_arena3" "length (ar_polys demo_arena3) = 3"
    "den demo_arena3 \<rho> 0 = \<rho> ''N''" "den demo_arena3 \<rho> 1 = 3" "den demo_arena3 \<rho> 2 = 4"
proof -
  have i64: "in_i64 3" "in_i64 4" by (simp_all add: in_i64_def i64_min_def i64_max_def)
  obtain ar1 where res: "lit 3 demo_arena = (1, ar1)" by (simp add: dim_eval)
  then have res': "lit 4 ar1 = (2, demo_arena3)" by (auto simp: dim_eval)
  note d1 = denotesD [OF lit_denotes [OF demo_arena_ok(1) i64(1), unfolded res]]
  note d2 = denotesD [OF lit_denotes [OF d1(1) i64(2), unfolded res']]
  have ext: "arena_extends demo_arena demo_arena3" using arenas.grows_trans [OF d1(2) d2(2)] .
  show "arena_ok demo_arena3" "den demo_arena3 \<rho> 2 = 4" using d2 by simp_all
  show "den demo_arena3 \<rho> 1 = 3" using den_extends [OF d1(1) d2(1,2) d1(3)] d1(4) by simp
  show "den demo_arena3 \<rho> 0 = \<rho> ''N''"
    using den_extends [OF demo_arena_ok(1) d2(1) ext, of 0] demo_arena_ok by simp
  show "length (ar_polys demo_arena3) = 3" by (simp add: dim_eval)
qed

text \<open>Substitution keeps the meaning. Under every assignment of the parameters that agrees with
  the substitution, the substituted expression has the value of the original one, in a well-formed
  arena extending the old one.\<close>

theorem substitute_correct:
  assumes "arena_ok ar" "subst_ok ar s" "ce_poly e < length (ar_polys ar)"
    and "const_substitute e s ar = (Some e', ar')" "satisfies ar \<rho> s"
  shows "arena_ok ar' \<and> arena_extends ar ar' \<and> den ar' \<rho> (ce_poly e') = den ar \<rho> (ce_poly e)"
proof -
  note res = resolve_resolves [OF assms(1,2,1) arenas.grows_refl assms(3)]
  obtain p where p: "resolve s (ce_poly e) ar = (Some p, ar')" "ce_poly e' = p"
    using assms(4) by (auto simp: const_substitute_def split: prod.splits option.splits if_splits)
  show ?thesis using resolvesD [OF res [unfolded p(1)]] p(2) assms(5) by simp
qed

theorem substitute_correct_witness:
  "den demo_arena3 (\<lambda>_. 3) (ce_poly (ConstExpr 1 None)) = den demo_arena3 (\<lambda>_. 3) (ce_poly (ConstExpr 0 None))"
proof -
  let ?s = "[''N'' \<mapsto> TDim (DimConst (ConstExpr 1 None))]"
  have res: "const_substitute (ConstExpr 0 None) ?s demo_arena3 = (Some (ConstExpr 1 None), demo_arena3)"
    by (simp add: dim_eval const_substitute_def resolve.simps touches.simps eval_poly.simps
        eval_terms_def eval_term_def eval_factor_def some_id_def)
  have s: "subst_ok demo_arena3 ?s" "satisfies demo_arena3 (\<lambda>_. 3) ?s"
    using demo_arena3_ok(4) by (simp_all add: subst_ok_def satisfies_def binding_def demo_arena3_ok(2))
  show ?thesis
    using substitute_correct [OF demo_arena3_ok(1) s(1) _ res s(2)] demo_arena3_ok(2) by simp
qed

text \<open>C25: verdicts are right. Two dimensions judged equal have the same value for every assignment
  of the parameters, and two judged different never have the same value.\<close>

theorem verdict_sound:
  assumes "arena_ok ar" "ce_poly e < length (ar_polys ar)" "ce_poly a < length (ar_polys ar)"
  shows "(fst (verdict e a ar) = Equal \<longrightarrow> (\<forall>\<rho>. den ar \<rho> (ce_poly e) = den ar \<rho> (ce_poly a))) \<and>
    (fst (verdict e a ar) = Different \<longrightarrow> (\<forall>\<rho>. den ar \<rho> (ce_poly e) \<noteq> den ar \<rho> (ce_poly a)))"
proof -
  obtain d ar' where d: "apply_op DimSub (ce_poly e) (ce_poly a) ar = (d, ar')"
    by (cases "apply_op DimSub (ce_poly e) (ce_poly a) ar")
  note den = denotesD [OF apply_denotes [OF assms, of DimSub, unfolded d]]
  have "den ar \<rho> (ce_poly e) - den ar \<rho> (ce_poly a) = v" if "lit_of ar' d = Some v" for v \<rho>
    using lit_of_den [OF den(1,3) that, of \<rho>] den(4) [of \<rho>] by (simp add: dim_op_val_def)
  then have "(v = 0) = (den ar \<rho> (ce_poly e) = den ar \<rho> (ce_poly a))" if "lit_of ar' d = Some v" for v \<rho>
    using that by (metis eq_iff_diff_eq_0)
  then show ?thesis using d by (auto simp: verdict_def split: option.splits if_splits)
qed

theorem verdict_sound_witness:
  "fst (verdict (ConstExpr 1 None) (ConstExpr 2 None) demo_arena3) = Different \<and>
   (\<forall>\<rho>. den demo_arena3 \<rho> 1 \<noteq> den demo_arena3 \<rho> 2)"
proof -
  have "fst (verdict (ConstExpr 1 None) (ConstExpr 2 None) demo_arena3) = Different"
    by (simp add: dim_eval verdict_def apply_op_def)
  then show ?thesis
    using verdict_sound [OF demo_arena3_ok(1), of "ConstExpr 1 None" "ConstExpr 2 None"]
      demo_arena3_ok(2) by simp
qed

section \<open>Unification\<close>

lemma unbound_step_mono:
  assumes "\<And>out a. a \<in> set as \<Longrightarrow> set out \<subseteq> set (f a out)"
  shows "set out \<subseteq> set (fold f as out)"
  using assms
proof (induction as arbitrary: out)
  case (Cons a as)
  have "set out \<subseteq> set (f a out)" using Cons.prems by simp
  moreover have "set (f a out) \<subseteq> set (fold f as (f a out))" using Cons.IH Cons.prems by simp
  ultimately show ?case by simp
qed simp

lemma unbound_params_mono: "set out \<subseteq> set (unbound_params ar s i out)"
proof (induction i arbitrary: out rule: less_induct)
  case (less i)
  show ?case
    unfolding unbound_params.simps [of ar s i]
  proof (rule unbound_step_mono)
    fix out a
    show "set out \<subseteq> set (case ar_atoms ar ! a of
        AtomParam name \<Rightarrow> if is_unbound name s \<and> a \<notin> set out then out @ [a] else out
      | AtomOpaque _ l r \<Rightarrow> if l < i \<and> r < i
          then unbound_params ar s r (unbound_params ar s l out) else out)"
      using less.IH by (auto split: atom.splits) (meson subset_iff)
  qed
qed

lemma unbound_params_unbound:
  assumes "list_all (\<lambda>a. \<exists>name. ar_atoms ar ! a = AtomParam name \<and> is_unbound name s) out"
  shows "list_all (\<lambda>a. \<exists>name. ar_atoms ar ! a = AtomParam name \<and> is_unbound name s)
    (unbound_params ar s i out)"
  using assms
proof (induction i arbitrary: out rule: less_induct)
  case (less i)
  show ?case
    unfolding unbound_params.simps [of ar s i]
    by (rule fold_invariant [where Q = "\<lambda>_. True" and
          P = "list_all (\<lambda>a. \<exists>name. ar_atoms ar ! a = AtomParam name \<and> is_unbound name s)"])
      (use less in \<open>auto split: atom.splits\<close>)
qed

lemma fold_notin:
  assumes "z \<notin> set (fold f as out)" "b \<in> set as" "\<And>a out. set out \<subseteq> set (f a out)"
  shows "\<exists>out'. z \<notin> set (f b out')"
proof -
  obtain xs ys where "as = xs @ b # ys" using assms(2) by (meson split_list)
  then have "fold f as out = fold f ys (f b (fold f xs out))" by simp
  then show ?thesis using assms(1) unbound_step_mono [of ys f, OF assms(3)] by (metis subsetD)
qed

text \<open>An expression that does not mention an unbound parameter does not depend on it.\<close>

lemma unbound_independent:
  assumes ok: "arena_ok ar" and a0: "a0 < length (ar_atoms ar)" "ar_atoms ar ! a0 = AtomParam name"
    and unbound: "is_unbound name s"
  shows "i < length (ar_polys ar) \<Longrightarrow> a0 \<notin> set (unbound_params ar s i out) \<Longrightarrow>
    den ar (\<rho>(name := x)) i = den ar \<rho> i"
proof (induction i arbitrary: out rule: less_induct)
  case (less i)
  let ?f = "\<lambda>a out. case ar_atoms ar ! a of
      AtomParam name \<Rightarrow> if is_unbound name s \<and> a \<notin> set out then out @ [a] else out
    | AtomOpaque _ l r \<Rightarrow> if l < i \<and> r < i
        then unbound_params ar s r (unbound_params ar s l out) else out"
  have mono: "set out \<subseteq> set (?f a out)" for a out
    using unbound_params_mono by (auto split: atom.splits) (meson subset_iff)
  have "atom_val ar (\<rho>(name := x)) b = atom_val ar \<rho> b" if b: "b \<in> set (poly_atoms (poly_of ar i))" for b
  proof -
    obtain out' where out': "a0 \<notin> set (?f b out')"
      using fold_notin [of a0 ?f _ out b, OF _ b mono] less.prems(2)
      by (auto simp: unbound_params.simps [of ar s i])
    show ?thesis
    proof (cases "ar_atoms ar ! b")
      case (AtomParam n)
      have "b < length (ar_atoms ar)" using canonical_atoms [OF arena_ok_polyD(1) [OF ok less.prems(1)] b] .
      then have "b = a0" if "n = name"
        using ok AtomParam that a0 unfolding arena_ok_def by (metis option.inject)
      then have "n \<noteq> name" using out' AtomParam unbound by (auto split: if_splits)
      then show ?thesis using AtomParam by (simp add: atom_val_def)
    next
      case (AtomOpaque op l r)
      note lr = operand_below [OF ok less.prems(1) b AtomOpaque]
      then have r: "a0 \<notin> set (unbound_params ar s r (unbound_params ar s l out'))"
        using out' AtomOpaque by simp
      then have "a0 \<notin> set (unbound_params ar s l out')" using unbound_params_mono by blast
      then have "den ar (\<rho>(name := x)) l = den ar \<rho> l" "den ar (\<rho>(name := x)) r = den ar \<rho> r"
        by (rule less.IH [rotated 2], use lr less.prems(1) in simp_all)
          (rule less.IH [OF _ _ r], use lr less.prems(1) in simp_all)
      then show ?thesis using AtomOpaque by (simp add: atom_val_def)
    qed
  qed
  then show ?case using den_eq [OF ok less.prems(1)] poly_val_cong by metis
qed

lemma canonical_remove: "canonical n p \<Longrightarrow> canonical n (bt_remove m p)"
  using set_bt_remove [of m p] bt_invar_remove [of p m] by (auto simp: canonical_def list_all_iff)

lemma linear_in_unbound_spec:
  assumes "arena_ok ar" "e < length (ar_polys ar)" "a < length (ar_polys ar)"
    and "linear_in_unbound e a s ar = (res, ar')"
  shows "arena_ok ar' \<and> arena_extends ar ar' \<and> (\<forall>p coeff rest. res = Some (p, coeff, rest) \<longrightarrow>
    p < length (ar_atoms ar') \<and> rest < length (ar_polys ar') \<and>
    (\<exists>name. ar_atoms ar' ! p = AtomParam name \<and> is_unbound name s \<and>
       (\<forall>\<rho>. den ar \<rho> e - den ar \<rho> a = coeff * \<rho> name + den ar' \<rho> rest) \<and>
       (\<forall>\<rho> x. den ar' (\<rho>(name := x)) rest = den ar' \<rho> rest)))"
proof -
  obtain d ar1 where d: "apply_op DimSub e a ar = (d, ar1)" by (cases "apply_op DimSub e a ar")
  note den = denotesD [OF apply_denotes [OF assms(1-3), of DimSub, unfolded d]]
  show ?thesis
  proof (cases "\<exists>p c. unbound_params ar1 s d [] = [p] \<and> map_of (poly_of ar1 d) [(p, 1)] = Some c")
    case False
    then have "res = None \<and> ar' = ar1"
      using assms(4) d by (auto simp: linear_in_unbound_def split: list.splits option.splits)
    then show ?thesis using den by simp
  next
    case True
    then obtain p c where pc: "unbound_params ar1 s d [] = [p]" "map_of (poly_of ar1 d) [(p, 1)] = Some c"
      by blast
    let ?q = "bt_remove [(p, 1)] (poly_of ar1 d)"
    obtain r ar2 where r: "intern ?q ar1 = (r, ar2)" by (cases "intern ?q ar1")
    have can: "canonical (length (ar_atoms ar1)) (poly_of ar1 d)" using arena_ok_polyD(1) [OF den(1,3)] .
    note int = denotesD [OF intern_denotes [OF den(1) canonical_remove [OF can, of "[(p, 1)]"], unfolded r]]
    have res: "res = (if unbound_params ar2 s r [] = [] then Some (p, c, r) else None)" "ar' = ar2"
      using assms(4) d pc r by (auto simp: linear_in_unbound_def split: if_splits)
    have ext: "arena_extends ar ar2" using arenas.grows_trans [OF den(2) int(2)] .
    obtain name where name: "ar_atoms ar1 ! p = AtomParam name" "is_unbound name s"
      using unbound_params_unbound [of ar1 s "[]" d] pc(1) by auto
    have p1: "p < length (ar_atoms ar1)"
      using canonical_atoms [OF can] map_of_SomeD [OF pc(2)] by (force simp: poly_atoms_def)
    note p2 = extends_atoms [OF int(2) p1]
    have inv: "bt_invar (poly_of ar1 d)" using can by (simp add: canonical_def)
    have "den ar \<rho> e - den ar \<rho> a = c * \<rho> name + den ar2 \<rho> r" for \<rho>
      using den(4) [of \<rho>] den_eq [OF den(1,3), of \<rho>] int(4) [of \<rho>] pc(2) name(1)
        poly_val_bt_remove [OF inv, of "atom_val ar1 \<rho>" "[(p, 1)]"]
      by (simp add: dim_op_val_def entry_or_zero_def atom_val_def)
    moreover have "den ar2 (\<rho>(name := x)) r = den ar2 \<rho> r" if "unbound_params ar2 s r [] = []" for \<rho> x
      using unbound_independent [OF int(1) p2(2), of name s r "[]"] p2 name int(3) that by simp
    ultimately show ?thesis using res int(1,3) ext p2 name by auto
  qed
qed

text \<open>What a solution of the closure in \<open>unify\<close> means.\<close>

definition solves :: "subst \<Rightarrow> arena \<Rightarrow> nat \<Rightarrow> nat \<Rightarrow> (string \<times> nat) option \<Rightarrow> arena \<Rightarrow> bool" where
  "solves s ar e a sol ar' = (case sol of
     None \<Rightarrow> \<forall>\<rho>. satisfies ar \<rho> s \<longrightarrow> den ar \<rho> e = den ar \<rho> a
   | Some (name, v) \<Rightarrow> v < length (ar_polys ar') \<and> is_unbound name s \<and>
       (\<forall>\<rho> x. den ar' (\<rho>(name := x)) v = den ar' \<rho> v) \<and>
       (\<forall>\<rho>. satisfies ar \<rho> s \<longrightarrow> (den ar \<rho> e = den ar \<rho> a \<longleftrightarrow> \<rho> name = den ar' \<rho> v)))"

lemma unify_solve_spec:
  assumes ok: "arena_ok ar" and s: "subst_ok ar s"
    and ea: "e < length (ar_polys ar)" "a < length (ar_polys ar)"
    and res: "unify_solve e a s ar = (Some sol, ar')"
  shows "arena_ok ar' \<and> arena_extends ar ar' \<and> solves s ar e a sol ar'"
proof -
  obtain e1 ar1 a1 ar2 where r1: "resolve s e ar = (Some e1, ar1)" and r2: "resolve s a ar1 = (Some a1, ar2)"
    using res by (auto simp: unify_solve_def split: prod.splits option.splits)
  note d1 = resolvesD [OF resolve_resolves [OF ok s ok arenas.grows_refl ea(1), unfolded r1]]
  note d2 = resolvesD [OF resolve_resolves [OF ok s d1(1,2) extends_poly_of(2) [OF d1(2) ea(2)], unfolded r2]]
  have ext2: "arena_extends ar ar2" using arenas.grows_trans [OF d1(2) d2(2)] .
  have e1: "e1 < length (ar_polys ar2)" using extends_poly_of(2) [OF d2(2) d1(3)] .
  have dens: "den ar2 \<rho> e1 = den ar \<rho> e" "den ar2 \<rho> a1 = den ar \<rho> a" if "satisfies ar \<rho> s" for \<rho>
    using den_extends [OF d1(1) d2(1,2) d1(3)] d1(4) [OF that] d2(4) [OF that]
      den_extends [OF ok d1(1,2) ea(2)] by simp_all
  show ?thesis
  proof (cases "e1 = a1")
    case True
    then have "sol = None" "ar' = ar2" using res r1 r2 by (auto simp: unify_solve_def)
    then show ?thesis using d2(1) ext2 dens True by (auto simp: solves_def)
  next
    case False
    then obtain p c rest ar3 where lin: "linear_in_unbound e1 a1 s ar2 = (Some (p, c, rest), ar3)"
      using res r1 r2 by (auto simp: unify_solve_def split: prod.splits option.splits)
    obtain name where l: "arena_ok ar3" "arena_extends ar2 ar3" "p < length (ar_atoms ar3)"
        "rest < length (ar_polys ar3)" "ar_atoms ar3 ! p = AtomParam name" "is_unbound name s"
        "\<And>\<rho>. den ar2 \<rho> e1 - den ar2 \<rho> a1 = c * \<rho> name + den ar3 \<rho> rest"
        "\<And>\<rho> x. den ar3 (\<rho>(name := x)) rest = den ar3 \<rho> rest"
      using linear_in_unbound_spec [OF d2(1) e1 d2(3) lin] by auto
    have eq: "den ar \<rho> e = den ar \<rho> a \<longleftrightarrow> c * \<rho> name = - den ar3 \<rho> rest" if "satisfies ar \<rho> s" for \<rho>
      using l(7) [of \<rho>] dens [OF that] by linarith
    have ext3: "arena_extends ar ar3" using arenas.grows_trans [OF ext2 l(2)] .
    show ?thesis
    proof (cases "c = 1")
      case c: True
      obtain z ar4 v ar5 where z: "lit 0 ar3 = (z, ar4)" and v: "apply_op DimSub z rest ar4 = (v, ar5)"
        by (metis prod.exhaust)
      note dz = denotesD [OF lit_denotes [OF l(1), of 0, unfolded z]]
      have rest4: "rest < length (ar_polys ar4)" using extends_poly_of(2) [OF _ l(4)] dz(2) by simp
      note dv = denotesD [OF apply_denotes [OF _ _ rest4, of z DimSub, unfolded v]]
      have val: "den ar5 \<rho> v = - den ar3 \<rho> rest" for \<rho>
        using dv(4) [of \<rho>] dz den_extends [OF l(1) _ _ l(4), of ar4 \<rho>] by (simp add: dim_op_val_def)
      have ok5: "arena_ok ar5" "arena_extends ar3 ar5" "v < length (ar_polys ar5)"
        using dv dz arenas.grows_trans by (auto intro: arenas.grows_trans)
      have "sol = Some (name, v)" "ar' = ar5"
        using res r1 r2 False lin c z v extends_atoms(1) [OF ok5(2) l(3)] l(5)
        by (auto simp: unify_solve_def param_name_def)
      then show ?thesis
        using ok5 arenas.grows_trans [OF ext3 ok5(2)] l(6,8) eq c val by (auto simp: solves_def)
    next
      case c: False
      then have "c = - 1" "sol = Some (name, rest)" "ar' = ar3"
        using res r1 r2 False lin l(5) by (auto simp: unify_solve_def param_name_def split: if_splits)
      then show ?thesis using l(1,4,6,8) ext3 eq by (auto simp: solves_def)
    qed
  qed
qed

lemma as_param_den:
  assumes "arena_ok ar" "ce_poly e < length (ar_polys ar)" "as_param ar e = Some n"
  shows "den ar \<rho> (ce_poly e) = \<rho> n"
  using den_eq [OF assms(1,2), of \<rho>] assms(3)
  by (auto simp: as_param_def atom_val_def split: list.splits prod.splits if_splits atom.splits)

lemma satisfies_bind:
  assumes "arena_ok ar" "v < length (ar_polys ar)" "is_unbound name s"
    and indep: "\<And>\<rho> x. den ar (\<rho>(name := x)) v = den ar \<rho> v"
  defines "s' \<equiv> s(name \<mapsto> dim_type ar (DimConst (ConstExpr v None)))"
  shows "satisfies ar \<rho> s' \<longleftrightarrow> satisfies ar \<rho> s \<and> \<rho> name = den ar \<rho> v"
    and "subst_ok ar s \<Longrightarrow> subst_ok ar s'"
proof -
  have keep: "binding name s = BindKeep"
    using assms(3) by (auto simp: binding_def is_unbound_def split: option.splits type.splits)
  have other: "binding m s' = binding m s" if "m \<noteq> name" for m
    using that by (simp add: s'_def binding_def)
  have new: "binding name s' = BindTo v \<or>
      (\<exists>n. binding name s' = BindRename n \<and> (\<forall>\<rho>. den ar \<rho> v = \<rho> n))"
  proof (cases "as_param ar (ConstExpr v None)")
    case None
    then show ?thesis by (simp add: s'_def binding_def dim_type_def)
  next
    case (Some n)
    have n: "den ar \<rho> v = \<rho> n" for \<rho> using as_param_den [OF assms(1) _ Some] assms(2) by simp
    have "n \<noteq> name"
      using indep [of "\<lambda>_. 0" 1] n [of "(\<lambda>_. 0)(name := 1)"] n [of "\<lambda>_. 0"] by auto
    then show ?thesis using Some n by (simp add: s'_def binding_def dim_type_def)
  qed
  let ?c = "\<lambda>s m. case binding m s of BindTo b \<Rightarrow> \<rho> m = den ar \<rho> b | BindRename n \<Rightarrow> \<rho> m = \<rho> n | _ \<Rightarrow> True"
  have "?c s' name \<longleftrightarrow> \<rho> name = den ar \<rho> v" using new by auto
  moreover have "?c s name" using keep by simp
  moreover have "?c s' m = ?c s m" if "m \<noteq> name" for m using other [OF that] by simp
  ultimately show "satisfies ar \<rho> s' \<longleftrightarrow> satisfies ar \<rho> s \<and> \<rho> name = den ar \<rho> v"
    unfolding satisfies_def by metis
  show "subst_ok ar s'" if "subst_ok ar s"
    unfolding subst_ok_def
  proof (intro allI impI)
    fix m b assume "binding m s' = BindTo b"
    then show "b < length (ar_polys ar)"
      using new other [of m] that assms(2) by (cases "m = name") (auto simp: subst_ok_def)
  qed
qed

text \<open>C5: unification solves exactly the equation. When \<open>unify\<close> succeeds on two dimension
  expressions, the assignments the new substitution admits are those the old one admits and under
  which the two expressions are equal: it is sound and it loses no solution.\<close>

theorem unify_correct:
  assumes "arena_ok ar" "subst_ok ar s"
    and "ce_poly e < length (ar_polys ar)" "ce_poly a < length (ar_polys ar)"
    and "unify (DimConst e) (DimConst a) s ar = (True, s', ar')"
  shows "arena_ok ar' \<and> subst_ok ar' s' \<and> (\<forall>\<rho>. satisfies ar' \<rho> s' \<longleftrightarrow>
    satisfies ar \<rho> s \<and> den ar \<rho> (ce_poly e) = den ar \<rho> (ce_poly a))"
proof -
  obtain sol where sol: "unify_solve (ce_poly e) (ce_poly a) s ar = (Some sol, ar')"
      "s' = (case sol of None \<Rightarrow> s
        | Some (name, v) \<Rightarrow> s(name \<mapsto> dim_type ar' (DimConst (ConstExpr v None))))"
    using assms(5) by (auto simp: unify_def split: prod.splits option.splits)
  note spec = unify_solve_spec [OF assms(1-4) sol(1)]
  have sat: "satisfies ar' \<rho> s = satisfies ar \<rho> s" for \<rho>
    using satisfies_extends [OF assms(1) _ _ assms(2)] spec by blast
  have s_ok: "subst_ok ar' s" using subst_ok_extends assms(2) spec by blast
  show ?thesis
  proof (cases sol)
    case None
    then show ?thesis using spec sol(2) sat s_ok by (auto simp: solves_def)
  next
    case (Some nv)
    obtain name v where nv: "nv = (name, v)" by (cases nv)
    have v: "v < length (ar_polys ar')" "is_unbound name s" "\<And>\<rho> x. den ar' (\<rho>(name := x)) v = den ar' \<rho> v"
        "\<And>\<rho>. satisfies ar \<rho> s \<Longrightarrow>
          (den ar \<rho> (ce_poly e) = den ar \<rho> (ce_poly a)) = (\<rho> name = den ar' \<rho> v)"
      using spec Some nv by (simp_all add: solves_def)
    note bind = satisfies_bind [OF _ v(1-3)]
    show ?thesis using bind spec sol(2) Some nv sat s_ok v(4) by auto
  qed
qed

theorem unify_correct_witness:
  "case unify (DimConst (ConstExpr 0 None)) (DimConst (ConstExpr 1 None)) [''N'' \<mapsto> TGeneric ''N'']
      demo_arena3 of
    (success, s', ar') \<Rightarrow> success \<and> (\<forall>\<rho>. satisfies ar' \<rho> s' \<longleftrightarrow> \<rho> ''N'' = 3)"
proof -
  let ?s = "[''N'' \<mapsto> TGeneric ''N'']"
  have success: "fst (unify (DimConst (ConstExpr 0 None)) (DimConst (ConstExpr 1 None)) ?s demo_arena3)"
    by (simp add: dim_eval unify_def unify_solve_def linear_in_unbound_def apply_op_def apply_poly_def
        combine_def combine_step_def entry_or_zero_def intern_opt_def unbound_params.simps
        resolve.simps touches.simps)
  have s: "subst_ok demo_arena3 ?s" "satisfies demo_arena3 \<rho> ?s" for \<rho>
    by (simp_all add: subst_ok_def satisfies_def binding_def)
  obtain s' ar' where res: "unify (DimConst (ConstExpr 0 None)) (DimConst (ConstExpr 1 None)) ?s
      demo_arena3 = (True, s', ar')"
    using success by (metis (full_types) prod.exhaust fst_conv)
  show ?thesis
    using unify_correct [OF demo_arena3_ok(1) s(1) _ _ res] s(2) demo_arena3_ok res by simp
qed

section \<open>Fresh atoms\<close>

lemma nat_string_no_at: "CHR ''@'' \<notin> set (nat_string n)"
proof
  assume "CHR ''@'' \<in> set (nat_string n)"
  then obtain d where d: "d < 10" "CHR ''@'' = digit_char d" using nat_string_digits by blast
  then have "(of_char CHR ''@'' :: nat) = 48 + d" using of_char_digit_char by simp
  then show False using d(1) by simp
qed

text \<open>Rigid names are unique. Two atoms drawn from the counter have the same name only when they
  were drawn with the same display name at the same count, an atom is recognised as one, and until
  it is renamed it is displayed by the part of its display name before an at sign.\<close>

theorem fresh_atom_unique:
  "(fst (fresh_atom d c) = fst (fresh_atom d' c')) = (d = d' \<and> c = c') \<and>
   is_atom (fst (fresh_atom d c)) \<and>
   display_name Map.empty (fst (fresh_atom d c)) = takeWhile (\<lambda>x. x \<noteq> CHR ''@'') d"
proof -
  have suffix: "takeWhile (\<lambda>x. x \<noteq> CHR ''@'') (rev (fst (fresh_atom d c))) = rev (nat_string c)" for d c
  proof -
    have "takeWhile (\<lambda>x. x \<noteq> CHR ''@'') (rev (nat_string c) @ CHR ''@'' # rev d) =
        rev (nat_string c) @ takeWhile (\<lambda>x. x \<noteq> CHR ''@'') (CHR ''@'' # rev d)"
      by (rule takeWhile_append2) (use nat_string_no_at in auto)
    then show ?thesis by (simp add: fresh_atom_def)
  qed
  have "c = c'" if "fst (fresh_atom d c) = fst (fresh_atom d' c')"
    using suffix [of d c] suffix [of d' c'] that by simp
  moreover from this have "d = d'" if "fst (fresh_atom d c) = fst (fresh_atom d' c')"
    using that by (simp add: fresh_atom_def)
  moreover have "takeWhile (\<lambda>x. x \<noteq> CHR ''@'') (d @ CHR ''@'' # t) = takeWhile (\<lambda>x. x \<noteq> CHR ''@'') d" for t
    by (induction d) auto
  ultimately show ?thesis by (auto simp: fresh_atom_def is_atom_def display_name_def)
qed

end
