(* ===== verification/TypeUnify.thy ===== *)
theory TypeUnify
  imports DimUnify
begin

text \<open>
  Types and their unification, \<open>compiler/paco-types/src/lib.rs\<close>, with the predicates on types of
  \<open>compiler/paco-types/src/named.rs\<close>: equality and names of types, erasure of dimensions, compatibility,
  substitution of parameters, and \<open>unify_type\<close> with its rebinding of parameters.

  The thread-local tables are explicit: the sets of rigid and anonymous names and the display names are
  the record \<open>dim_names\<close>; the arena, the substitution and the note of an unproved dimension are threaded
  as the record \<open>unifier\<close>.  \<open>unify_type\<close> and \<open>substitute_generics\<close> follow bindings of a
  substitution and so need not end; the model bounds the depth of their recursion and returns
  \<open>None\<close> when the bound is too small.
\<close>

record dim_names =
  dn_rigid :: "string set"
  dn_anonymous :: "string set"
  dn_display :: "string \<rightharpoonup> string"

section \<open>Equality and names\<close>

text \<open>\<open>==\<close> on types: dimension expressions are equal when their polynomials are.\<close>

fun written_free :: "type \<Rightarrow> type" where
  "written_free (TStruct name args) = TStruct name (map written_free args)"
| "written_free (TEnum name args) = TEnum name (map written_free args)"
| "written_free (TBorrow m t) = TBorrow m (written_free t)"
| "written_free (TRawPointer m t) = TRawPointer m (written_free t)"
| "written_free (TSlice t) = TSlice (written_free t)"
| "written_free (TTuple ts) = TTuple (map written_free ts)"
| "written_free (TFn ps r abi u) = TFn (map written_free ps) (written_free r) abi u"
| "written_free (TTypeValue t) = TTypeValue (written_free t)"
| "written_free (TDim (DimConst e)) = TDim (DimConst (ConstExpr (ce_poly e) None))"
| "written_free (TPack ts) = TPack (map written_free ts)"
| "written_free t = t"

definition type_eq :: "type \<Rightarrow> type \<Rightarrow> bool" where
  "type_eq a b \<longleftrightarrow> written_free a = written_free b"

definition const_display :: "dim_names \<Rightarrow> arena \<Rightarrow> const_expr \<Rightarrow> string" where
  "const_display names ar e = (case ce_written e of
     Some (t, _) \<Rightarrow> t
   | None \<Rightarrow> normal_form (dn_display names) ar e)"

definition dim_display :: "dim_names \<Rightarrow> arena \<Rightarrow> dim \<Rightarrow> string" where
  "dim_display names ar d = (case d of DimConst e \<Rightarrow> const_display names ar e | DimDyn \<Rightarrow> ''Dyn'')"

fun type_name :: "dim_names \<Rightarrow> arena \<Rightarrow> type \<Rightarrow> string" where
  "type_name names ar (TInt w) = width_name w"
| "type_name names ar (TFloat w) = float_width_name w"
| "type_name names ar TBool = ''bool''"
| "type_name names ar TString = ''string''"
| "type_name names ar TChar = ''char''"
| "type_name names ar TUnit = ''unit''"
| "type_name names ar TNever = ''never''"
| "type_name names ar (TStruct name args) = (if args = [] then name
     else name @ ''<'' @ join_with '', '' (map (type_name names ar) args) @ ''>'')"
| "type_name names ar (TEnum name args) = (if args = [] then name
     else name @ ''<'' @ join_with '', '' (map (type_name names ar) args) @ ''>'')"
| "type_name names ar (TBorrow m t) = (if m then ''&mut '' else ''&'') @ type_name names ar t"
| "type_name names ar (TRawPointer m t) = (if m then ''*mut '' else ''*const '') @ type_name names ar t"
| "type_name names ar (TSlice t) = ''[]'' @ type_name names ar t"
| "type_name names ar (TTuple ts) = ''('' @ join_with '', '' (map (type_name names ar) ts) @ '')''"
| "type_name names ar (TFn ps r abi u) = (if u then ''unsafe '' else []) @
     (case abi of None \<Rightarrow> [] | Some a \<Rightarrow> ''extern '' @ [CHR 0x22] @ a @ [CHR 0x22] @ '' '') @
     ''fn('' @ join_with '', '' (map (type_name names ar) ps) @ '') -> '' @ type_name names ar r"
| "type_name names ar (TGeneric name) = display_name (dn_display names) name"
| "type_name names ar (TDim d) = dim_display names ar d"
| "type_name names ar (TPack ts) = join_with '', '' (map (type_name names ar) ts)"
| "type_name names ar (TSpread name) = name @ ''...''"
| "type_name names ar (TTypeValue _) = ''type''"
| "type_name names ar TCode = ''Code''"
| "type_name names ar TUnknown = ''unknown''"
| "type_name names ar TError = ''error''"

section \<open>The names a dimension mentions\<close>

function any_name :: "arena \<Rightarrow> (string \<Rightarrow> bool) \<Rightarrow> nat \<Rightarrow> bool" where
  "any_name ar test i = list_ex (\<lambda>a. case ar_atoms ar ! a of
      AtomParam name \<Rightarrow> test name
    | AtomOpaque _ l r \<Rightarrow> if l < i \<and> r < i then any_name ar test l \<or> any_name ar test r else False)
    (poly_atoms (poly_of ar i))"
  by pat_completeness auto
termination by (relation "measure (\<lambda>(_, _, i). i)") auto

declare any_name.simps [simp del]

definition const_any_name :: "arena \<Rightarrow> (string \<Rightarrow> bool) \<Rightarrow> const_expr \<Rightarrow> bool" where
  "const_any_name ar test e = any_name ar test (ce_poly e)"

definition is_rigid :: "dim_names \<Rightarrow> string \<Rightarrow> bool" where
  "is_rigid names name \<longleftrightarrow> is_atom name \<or> name \<in> dn_rigid names"

definition is_anonymous :: "dim_names \<Rightarrow> string \<Rightarrow> bool" where
  "is_anonymous names name \<longleftrightarrow> name \<in> dn_anonymous names"

definition set_anonymous :: "string \<Rightarrow> bool \<Rightarrow> dim_names \<Rightarrow> dim_names" where
  "set_anonymous name anonymous names = (if anonymous
     then names\<lparr>dn_anonymous := insert name (dn_anonymous names)\<rparr>
     else names\<lparr>dn_anonymous := dn_anonymous names - {name}\<rparr>)"

text \<open>The closure \<open>named\<close> of \<open>is_named\<close>.\<close>

definition names_dimension :: "dim_names \<Rightarrow> string \<Rightarrow> bool" where
  "names_dimension names name \<longleftrightarrow> (is_rigid names name \<and> \<not> is_anonymous names name) \<or> is_existential name"

definition is_named :: "dim_names \<Rightarrow> arena \<Rightarrow> type \<Rightarrow> bool" where
  "is_named names ar ty = (case ty of
     TGeneric name \<Rightarrow> names_dimension names name
   | TDim (DimConst e) \<Rightarrow> const_any_name ar (names_dimension names) e
   | _ \<Rightarrow> False)"

definition is_static :: "arena \<Rightarrow> type \<Rightarrow> bool" where
  "is_static ar ty = (case ty of TDim (DimConst e) \<Rightarrow> is_ground ar (ce_poly e) | _ \<Rightarrow> False)"

definition is_symbolic :: "dim_names \<Rightarrow> arena \<Rightarrow> type \<Rightarrow> bool" where
  "is_symbolic names ar ty = (case ty of
     TGeneric name \<Rightarrow> is_rigid names name \<or> is_existential name
   | TDim (DimConst e) \<Rightarrow> const_any_name ar (\<lambda>name. is_rigid names name \<or> is_existential name) e
   | _ \<Rightarrow> False)"

definition is_dimlike :: "dim_names \<Rightarrow> type \<Rightarrow> bool" where
  "is_dimlike names ty = (case ty of
     TDim _ \<Rightarrow> True
   | TGeneric name \<Rightarrow> is_rigid names name \<or> is_existential name
   | _ \<Rightarrow> False)"

text \<open>The vectors these functions push names to, without repetition.\<close>

definition push_new :: "string \<Rightarrow> string list \<Rightarrow> string list" where
  "push_new name out = (if name \<in> set out then out else out @ [name])"

fun atoms_in :: "arena \<Rightarrow> type \<Rightarrow> string list \<Rightarrow> string list" where
  "atoms_in ar (TGeneric name) out = (if is_atom name then push_new name out else out)"
| "atoms_in ar (TDim (DimConst e)) out = (if const_any_name ar is_atom e
     then fold push_new (filter is_atom (const_names ar e)) out else out)"
| "atoms_in ar (TStruct _ items) out = fold (atoms_in ar) items out"
| "atoms_in ar (TEnum _ items) out = fold (atoms_in ar) items out"
| "atoms_in ar (TTuple items) out = fold (atoms_in ar) items out"
| "atoms_in ar (TPack items) out = fold (atoms_in ar) items out"
| "atoms_in ar (TBorrow _ t) out = atoms_in ar t out"
| "atoms_in ar (TRawPointer _ t) out = atoms_in ar t out"
| "atoms_in ar (TSlice t) out = atoms_in ar t out"
| "atoms_in ar (TFn ps r _ _) out = atoms_in ar r (fold (atoms_in ar) ps out)"
| "atoms_in ar _ out = out"

section \<open>Erasure\<close>

fun erase_symbolic :: "arena \<Rightarrow> type \<Rightarrow> type" where
  "erase_symbolic ar (TGeneric name) =
     (if is_atom name \<or> is_existential name then TDim DimDyn else TGeneric name)"
| "erase_symbolic ar (TDim (DimConst e)) =
     (if const_any_name ar (\<lambda>name. is_atom name \<or> is_existential name) e then TDim DimDyn
      else TDim (DimConst e))"
| "erase_symbolic ar (TStruct name items) = TStruct name (map (erase_symbolic ar) items)"
| "erase_symbolic ar (TEnum name items) = TEnum name (map (erase_symbolic ar) items)"
| "erase_symbolic ar (TTuple items) = TTuple (map (erase_symbolic ar) items)"
| "erase_symbolic ar (TPack items) = TPack (map (erase_symbolic ar) items)"
| "erase_symbolic ar (TBorrow m t) = TBorrow m (erase_symbolic ar t)"
| "erase_symbolic ar (TRawPointer m t) = TRawPointer m (erase_symbolic ar t)"
| "erase_symbolic ar (TSlice t) = TSlice (erase_symbolic ar t)"
| "erase_symbolic ar (TFn ps r abi u) = TFn (map (erase_symbolic ar) ps) (erase_symbolic ar r) abi u"
| "erase_symbolic ar other = other"

fun erase_anonymous :: "dim_names \<Rightarrow> arena \<Rightarrow> type \<Rightarrow> type" where
  "erase_anonymous names ar (TGeneric name) =
     (if is_anonymous names name then TDim DimDyn else TGeneric name)"
| "erase_anonymous names ar (TDim (DimConst e)) =
     (if const_any_name ar (is_anonymous names) e then TDim DimDyn else TDim (DimConst e))"
| "erase_anonymous names ar (TStruct name items) = TStruct name (map (erase_anonymous names ar) items)"
| "erase_anonymous names ar (TEnum name items) = TEnum name (map (erase_anonymous names ar) items)"
| "erase_anonymous names ar (TTuple items) = TTuple (map (erase_anonymous names ar) items)"
| "erase_anonymous names ar (TPack items) = TPack (map (erase_anonymous names ar) items)"
| "erase_anonymous names ar (TBorrow m t) = TBorrow m (erase_anonymous names ar t)"
| "erase_anonymous names ar (TSlice t) = TSlice (erase_anonymous names ar t)"
| "erase_anonymous names ar other = other"

fun strip_variant_param_names :: "type \<Rightarrow> type" where
  "strip_variant_param_names (TGeneric name) = TGeneric (takeWhile (\<lambda>c. c \<noteq> CHR ''#'') name)"
| "strip_variant_param_names (TStruct name args) = TStruct name (map strip_variant_param_names args)"
| "strip_variant_param_names (TEnum name args) = TEnum name (map strip_variant_param_names args)"
| "strip_variant_param_names (TTuple items) = TTuple (map strip_variant_param_names items)"
| "strip_variant_param_names (TPack items) = TPack (map strip_variant_param_names items)"
| "strip_variant_param_names (TBorrow m t) = TBorrow m (strip_variant_param_names t)"
| "strip_variant_param_names (TRawPointer m t) = TRawPointer m (strip_variant_param_names t)"
| "strip_variant_param_names (TSlice t) = TSlice (strip_variant_param_names t)"
| "strip_variant_param_names other = other"

definition fresh_enum_params :: "type \<Rightarrow> type" where
  "fresh_enum_params ty = (case ty of
     TEnum name args \<Rightarrow> TEnum name (map (\<lambda>arg. case arg of
         TGeneric param \<Rightarrow> TGeneric (param @ ''#'' @ name)
       | other \<Rightarrow> other) args)
   | other \<Rightarrow> other)"

definition pack_type :: "type list \<Rightarrow> type" where
  "pack_type items = (case items of [TSpread name] \<Rightarrow> TGeneric name | _ \<Rightarrow> TPack items)"

section \<open>Predicates on types\<close>

fun is_concrete_const :: "arena \<Rightarrow> type \<Rightarrow> bool" where
  "is_concrete_const ar (TGeneric _) = False"
| "is_concrete_const ar (TSpread _) = False"
| "is_concrete_const ar (TDim (DimConst e)) = (as_lit ar e \<noteq> None)"
| "is_concrete_const ar (TPack items) = list_all (is_concrete_const ar) items"
| "is_concrete_const ar _ = True"

definition format_const_binding :: "dim_names \<Rightarrow> arena \<Rightarrow> (string \<times> type) list \<Rightarrow> string" where
  "format_const_binding names ar consts = ''<'' @ join_with '', '' (map (\<lambda>(name, value). case value of
       TPack _ \<Rightarrow> name @ '' = ['' @ type_name names ar value @ '']''
     | _ \<Rightarrow> name @ '' = '' @ type_name names ar value) consts) @ ''>''"

fun has_unbound_dim :: "arena \<Rightarrow> subst \<Rightarrow> type \<Rightarrow> bool" where
  "has_unbound_dim ar s (TDim (DimConst e)) = (const_unbound_params ar e s \<noteq> [])"
| "has_unbound_dim ar s (TStruct _ items) = list_ex (has_unbound_dim ar s) items"
| "has_unbound_dim ar s (TEnum _ items) = list_ex (has_unbound_dim ar s) items"
| "has_unbound_dim ar s (TPack items) = list_ex (has_unbound_dim ar s) items"
| "has_unbound_dim ar s (TTuple items) = list_ex (has_unbound_dim ar s) items"
| "has_unbound_dim ar s (TBorrow _ t) = has_unbound_dim ar s t"
| "has_unbound_dim ar s (TSlice t) = has_unbound_dim ar s t"
| "has_unbound_dim ar s _ = False"

fun type_has_foreign_generic :: "subst \<Rightarrow> type \<Rightarrow> bool" where
  "type_has_foreign_generic known (TGeneric name) =
     (known name = None \<and> \<not> is_atom name \<and> \<not> is_existential name)"
| "type_has_foreign_generic known (TStruct _ args) = list_ex (type_has_foreign_generic known) args"
| "type_has_foreign_generic known (TEnum _ args) = list_ex (type_has_foreign_generic known) args"
| "type_has_foreign_generic known (TBorrow _ t) = type_has_foreign_generic known t"
| "type_has_foreign_generic known (TRawPointer _ t) = type_has_foreign_generic known t"
| "type_has_foreign_generic known (TSlice t) = type_has_foreign_generic known t"
| "type_has_foreign_generic known (TTuple items) = list_ex (type_has_foreign_generic known) items"
| "type_has_foreign_generic known _ = False"

fun has_unbound_variant_param :: "type \<Rightarrow> bool" where
  "has_unbound_variant_param (TGeneric name) = List.member name CHR ''#''"
| "has_unbound_variant_param (TStruct _ args) = list_ex has_unbound_variant_param args"
| "has_unbound_variant_param (TEnum _ args) = list_ex has_unbound_variant_param args"
| "has_unbound_variant_param (TTuple args) = list_ex has_unbound_variant_param args"
| "has_unbound_variant_param (TPack args) = list_ex has_unbound_variant_param args"
| "has_unbound_variant_param (TBorrow _ t) = has_unbound_variant_param t"
| "has_unbound_variant_param (TRawPointer _ t) = has_unbound_variant_param t"
| "has_unbound_variant_param (TSlice t) = has_unbound_variant_param t"
| "has_unbound_variant_param _ = False"

definition generic_substitutions :: "string list \<Rightarrow> subst" where
  "generic_substitutions generics = map_of (map (\<lambda>name. (name, TGeneric name)) generics)"

definition nominal_generic_args :: "type \<Rightarrow> type list" where
  "nominal_generic_args ty = (case ty of
     TStruct _ args \<Rightarrow> args
   | TEnum _ args \<Rightarrow> args
   | TSlice elem \<Rightarrow> [elem]
   | _ \<Rightarrow> [])"

definition is_bound :: "string \<Rightarrow> type \<Rightarrow> bool" where
  "is_bound name existing = (case existing of
     TGeneric other \<Rightarrow> other \<noteq> name \<and> is_atom other
   | _ \<Rightarrow> True)"

section \<open>Compatibility\<close>

lemma zip_size:
  "(a, e) \<in> set (zip as es) \<Longrightarrow> size a < Suc (size_list size as) \<and> size e < Suc (size_list size es)"
  using size_list_less [of a as size] size_list_less [of e es size]
  by (auto dest: set_zip_leftD set_zip_rightD)

function compatible :: "type \<Rightarrow> type \<Rightarrow> bool" where
  "compatible actual expected =
    (type_eq actual expected \<or> actual \<in> {TUnknown, TError} \<or> expected \<in> {TUnknown, TError} \<or>
     (case (actual, expected) of
        (TTypeValue _, TTypeValue _) \<Rightarrow> True
      | (TStruct a as, TStruct e es) \<Rightarrow>
          a = e \<and> length as = length es \<and> list_all (\<lambda>(a, e). compatible a e) (zip as es)
      | (TEnum a as, TEnum e es) \<Rightarrow>
          a = e \<and> length as = length es \<and> list_all (\<lambda>(a, e). compatible a e) (zip as es)
      | (TTuple as, TTuple es) \<Rightarrow>
          length as = length es \<and> list_all (\<lambda>(a, e). compatible a e) (zip as es)
      | (TBorrow a actual, TBorrow e expected) \<Rightarrow> a = e \<and> compatible actual expected
      | _ \<Rightarrow> False))"
  by pat_completeness auto
termination
  by (relation "measure (\<lambda>(a, _). size a)") (auto dest!: zip_size)

declare compatible.simps [simp del]

definition decays_to :: "dim_names \<Rightarrow> arena \<Rightarrow> type \<Rightarrow> type \<Rightarrow> bool" where
  "decays_to names ar actual expected \<longleftrightarrow>
     compatible actual expected \<or> compatible (erase_anonymous names ar actual) expected"

section \<open>The first dimension that differs\<close>

datatype dim_mismatch = MismatchRank nat nat | MismatchDim nat type type

text \<open>The loops of \<open>first_dim_mismatch\<close> return a mismatch, or the position they have reached.\<close>

fun mismatch_dims :: "nat \<Rightarrow> (type \<times> type) list \<Rightarrow> dim_mismatch + nat" where
  "mismatch_dims position [] = Inr position"
| "mismatch_dims position ((e, a) # rest) = (if \<not> type_eq e a then Inl (MismatchDim position e a)
     else mismatch_dims (position + 1) rest)"

definition mismatch_packs :: "nat \<Rightarrow> type list \<Rightarrow> type list \<Rightarrow> dim_mismatch + nat" where
  "mismatch_packs position expected_dims actual_dims =
    (let spread = expected_dims \<noteq> [] \<and> (case last expected_dims of TSpread _ \<Rightarrow> True | _ \<Rightarrow> False);
         expected_dims = (if spread then butlast expected_dims else expected_dims)
     in if length actual_dims < length expected_dims \<or>
           (\<not> spread \<and> length actual_dims \<noteq> length expected_dims)
        then Inl (MismatchRank (length expected_dims) (length actual_dims))
        else mismatch_dims position (zip expected_dims actual_dims))"

text \<open>The position is advanced by packs and by single dimensions; the loop over the arguments and the search
  through a tuple take the recursive call as an argument.\<close>

definition mismatch_arg :: "dim_names \<Rightarrow> (type \<Rightarrow> type \<Rightarrow> dim_mismatch option) \<Rightarrow> nat \<Rightarrow> type \<Rightarrow> type \<Rightarrow>
    dim_mismatch + nat" where
  "mismatch_arg names self position e a = (case (e, a) of
     (TPack es, TPack as) \<Rightarrow> mismatch_packs position es as
   | _ \<Rightarrow> if (is_dimlike names e \<or> is_dimlike names a) \<and> \<not> type_eq e a
          then Inl (MismatchDim position e a)
        else if is_dimlike names e then Inr (position + 1)
        else (case self e a of Some inner \<Rightarrow> Inl inner | None \<Rightarrow> Inr position))"

fun mismatch_args :: "dim_names \<Rightarrow> (type \<Rightarrow> type \<Rightarrow> dim_mismatch option) \<Rightarrow> nat \<Rightarrow> (type \<times> type) list \<Rightarrow>
    dim_mismatch option" where
  "mismatch_args names self position [] = None"
| "mismatch_args names self position ((e, a) # rest) = (case mismatch_arg names self position e a of
     Inl m \<Rightarrow> Some m
   | Inr position \<Rightarrow> mismatch_args names self position rest)"

fun mismatch_items :: "(type \<Rightarrow> type \<Rightarrow> dim_mismatch option) \<Rightarrow> (type \<times> type) list \<Rightarrow> dim_mismatch option" where
  "mismatch_items self [] = None"
| "mismatch_items self ((e, a) # rest) = (case self e a of Some m \<Rightarrow> Some m | None \<Rightarrow> mismatch_items self rest)"

lemma mismatch_args_cong [fundef_cong]:
  assumes "pairs = pairs'" "\<And>e a. (e, a) \<in> set pairs' \<Longrightarrow> f e a = g e a"
  shows "mismatch_args names f position pairs = mismatch_args names g position pairs'"
proof -
  have "mismatch_args names f position pairs' = mismatch_args names g position pairs'" using assms(2)
  proof (induction pairs' arbitrary: position)
    case (Cons ea pairs')
    obtain e a where ea: "ea = (e, a)" by (cases ea)
    have "f e a = g e a" using Cons.prems ea by simp
    then have "mismatch_arg names f position e a = mismatch_arg names g position e a"
      by (simp only: mismatch_arg_def)
    then show ?case using Cons ea by (simp split: sum.split)
  qed simp
  then show ?thesis using assms(1) by simp
qed

lemma mismatch_items_cong [fundef_cong]:
  assumes "pairs = pairs'" "\<And>e a. (e, a) \<in> set pairs' \<Longrightarrow> f e a = g e a"
  shows "mismatch_items f pairs = mismatch_items g pairs'"
proof -
  have "mismatch_items f pairs' = mismatch_items g pairs'" using assms(2)
    by (induction pairs') (auto split: option.split)
  then show ?thesis using assms(1) by simp
qed

function first_dim_mismatch :: "dim_names \<Rightarrow> type \<Rightarrow> type \<Rightarrow> dim_mismatch option" where
  "first_dim_mismatch names expected actual = (case (expected, actual) of
     (TBorrow _ e, TBorrow _ a) \<Rightarrow> first_dim_mismatch names e a
   | (TSlice e, TSlice a) \<Rightarrow> first_dim_mismatch names e a
   | (TStruct en es, TStruct an as) \<Rightarrow>
       if en = an \<and> length es = length as then mismatch_args names (first_dim_mismatch names) 0 (zip es as) else None
   | (TEnum en es, TEnum an as) \<Rightarrow>
       if en = an \<and> length es = length as then mismatch_args names (first_dim_mismatch names) 0 (zip es as) else None
   | (TTuple es, TTuple as) \<Rightarrow>
       if length es = length as then mismatch_items (first_dim_mismatch names) (zip es as) else None
   | _ \<Rightarrow> None)"
  by pat_completeness auto
termination
  by (relation "measure (\<lambda>(_, e, _). size e)") (auto dest!: zip_size)

declare first_dim_mismatch.simps [simp del]

section \<open>Substitution\<close>

fun traverse :: "('a \<Rightarrow> 's \<Rightarrow> ('b \<times> 's) option) \<Rightarrow> 'a list \<Rightarrow> 's \<Rightarrow> ('b list \<times> 's) option" where
  "traverse f [] st = Some ([], st)"
| "traverse f (x # xs) st = (case f x st of
     None \<Rightarrow> None
   | Some (y, st) \<Rightarrow> (case traverse f xs st of
       None \<Rightarrow> None
     | Some (ys, st) \<Rightarrow> Some (y # ys, st)))"

definition wrapping :: "('a \<Rightarrow> 'b) \<Rightarrow> ('a \<times> 's) option \<Rightarrow> ('b \<times> 's) option" where
  "wrapping c r = map_option (map_prod c id) r"

text \<open>The items of a pack: a spread of a bound pack is replaced by the items of that pack.\<close>

definition substitute_item ::
  "(type \<Rightarrow> arena \<Rightarrow> (type \<times> arena) option) \<Rightarrow> subst \<Rightarrow> type \<Rightarrow> arena \<Rightarrow> (type list \<times> arena) option" where
  "substitute_item self s item ar = (case item of
     TSpread name \<Rightarrow> (case s name of
         Some (TPack bound) \<Rightarrow> traverse self bound ar
       | Some (TGeneric other) \<Rightarrow> Some ([TSpread other], ar)
       | _ \<Rightarrow> Some ([item], ar))
   | other \<Rightarrow> wrapping (\<lambda>t. [t]) (self other ar))"

text \<open>\<open>substitute_generics\<close>, with the thread-local stack of the names being substituted.\<close>

fun substitute_generics :: "nat \<Rightarrow> string list \<Rightarrow> subst \<Rightarrow> type \<Rightarrow> arena \<Rightarrow> (type \<times> arena) option" where
  "substitute_generics 0 stack s ty ar = None"
| "substitute_generics (Suc n) stack s ty ar = (let self = substitute_generics n stack s in case ty of
     TGeneric name \<Rightarrow> (case s name of
         None \<Rightarrow> Some (TGeneric name, ar)
       | Some val \<Rightarrow> if type_eq val ty \<or> name \<in> set stack then Some (val, ar)
           else substitute_generics n (name # stack) s val ar)
   | TStruct name args \<Rightarrow> wrapping (TStruct name) (traverse self args ar)
   | TEnum name args \<Rightarrow> wrapping (TEnum name) (traverse self args ar)
   | TBorrow m t \<Rightarrow> wrapping (TBorrow m) (self t ar)
   | TRawPointer m t \<Rightarrow> wrapping (TRawPointer m) (self t ar)
   | TTuple items \<Rightarrow> wrapping TTuple (traverse self items ar)
   | TSlice elem \<Rightarrow> wrapping TSlice (self elem ar)
   | TFn ps r abi u \<Rightarrow> (case traverse self ps ar of
         None \<Rightarrow> None
       | Some (ps, ar) \<Rightarrow> wrapping (\<lambda>r. TFn ps r abi u) (self r ar))
   | TDim d \<Rightarrow> Some (substitute_dim d s ar)
   | TPack items \<Rightarrow> wrapping (\<lambda>out. pack_type (concat out)) (traverse (substitute_item self s) items ar)
   | other \<Rightarrow> Some (other, ar))"

section \<open>Unification\<close>

record unifier =
  un_subst :: subst
  un_arena :: arena
  un_unproved :: "string option"

definition record_unproved :: "string \<Rightarrow> unifier \<Rightarrow> unifier" where
  "record_unproved note st = st\<lparr>un_unproved := Some note\<rparr>"

definition take_unproved :: "unifier \<Rightarrow> string option \<times> unifier" where
  "take_unproved st = (un_unproved st, st\<lparr>un_unproved := None\<rparr>)"

definition bind_type :: "string \<Rightarrow> type \<Rightarrow> unifier \<Rightarrow> unifier" where
  "bind_type name ty st = st\<lparr>un_subst := (un_subst st)(name \<mapsto> ty)\<rparr>"

text \<open>Unification of two dimensions; when they disagree because a parameter is bound to \<open>Dyn\<close>, that is
  noted.\<close>

definition unify_dims :: "dim_names \<Rightarrow> dim \<Rightarrow> dim \<Rightarrow> unifier \<Rightarrow> bool \<times> unifier" where
  "unify_dims names expected actual st =
    (case unify expected actual (un_subst st) (un_arena st) of (agreed, s, ar) \<Rightarrow>
      (let st = st\<lparr>un_subst := s, un_arena := ar\<rparr> in
       if agreed then (True, st)
       else (case expected of
          DimDyn \<Rightarrow> (False, st)
        | DimConst e \<Rightarrow> (case const_substitute e s ar of
            (Some _, ar) \<Rightarrow> (False, st\<lparr>un_arena := ar\<rparr>)
          | (None, ar) \<Rightarrow> (False, record_unproved
              (''`'' @ const_display names ar e @ ''` depends on a parameter bound to `Dyn`'')
              (st\<lparr>un_arena := ar\<rparr>))))))"

definition as_dim :: "type \<Rightarrow> arena \<Rightarrow> dim option \<times> arena" where
  "as_dim ty ar = (case ty of
     TGeneric name \<Rightarrow> (case const_param name ar of (e, ar) \<Rightarrow> (Some (DimConst e), ar))
   | TDim d \<Rightarrow> (Some d, ar)
   | _ \<Rightarrow> (None, ar))"

definition unify_rigid :: "dim_names \<Rightarrow> type \<Rightarrow> type \<Rightarrow> unifier \<Rightarrow> bool \<times> unifier" where
  "unify_rigid names expected actual st =
    (case as_dim expected (un_arena st) of (expected_dim, ar) \<Rightarrow>
     (case as_dim actual ar of (actual_dim, ar) \<Rightarrow>
      (let st = st\<lparr>un_arena := ar\<rparr> in
       case (expected_dim, actual_dim) of
         (Some expected, Some actual) \<Rightarrow>
           (if expected = DimDyn then (True, st) else unify_dims names expected actual st)
       | _ \<Rightarrow> (False, st))))"

fun all_pairs :: "('a \<Rightarrow> 'b \<Rightarrow> 's \<Rightarrow> (bool \<times> 's) option) \<Rightarrow> ('a \<times> 'b) list \<Rightarrow> 's \<Rightarrow> (bool \<times> 's) option" where
  "all_pairs f [] st = Some (True, st)"
| "all_pairs f ((a, b) # rest) st = (case f a b st of
     None \<Rightarrow> None
   | Some (ok, st) \<Rightarrow> if ok then all_pairs f rest st else Some (False, st))"

definition and_also :: "(bool \<times> 's) option \<Rightarrow> ('s \<Rightarrow> (bool \<times> 's) option) \<Rightarrow> (bool \<times> 's) option" where
  "and_also r k = (case r of None \<Rightarrow> None | Some (ok, st) \<Rightarrow> if ok then k st else Some (False, st))"

definition unify_lists :: "(type \<Rightarrow> type \<Rightarrow> unifier \<Rightarrow> (bool \<times> unifier) option) \<Rightarrow>
    type list \<Rightarrow> type list \<Rightarrow> unifier \<Rightarrow> (bool \<times> unifier) option" where
  "unify_lists self es as st =
    (if length es = length as then all_pairs self (zip es as) st else Some (False, st))"

definition dyn_pair :: "type \<times> type \<Rightarrow> bool" where
  "dyn_pair pair \<longleftrightarrow> pair = (TDim DimDyn, TDim DimDyn)"

text \<open>\<open>rebinding_agrees_at\<close> returns, besides its answer, the type it decays the binding to.\<close>

definition rebinding_agrees_at :: "dim_names \<Rightarrow> (type \<Rightarrow> type \<Rightarrow> unifier \<Rightarrow> (bool \<times> unifier) option) \<Rightarrow>
    string \<Rightarrow> type \<Rightarrow> type \<Rightarrow> unifier \<Rightarrow> (bool \<times> type option \<times> unifier) option" where
  "rebinding_agrees_at names self name existing actual st =
    (let erase = erase_anonymous names (un_arena st) in
     if (case existing of TDim _ \<Rightarrow> False | TPack _ \<Rightarrow> False | TGeneric _ \<Rightarrow> False | _ \<Rightarrow> True) \<and>
        \<not> compatible actual existing \<and> compatible (erase actual) (erase existing)
     then Some (True, Some (erase existing), st)
     else if (case (existing, actual) of
          (TPack es, TPack as) \<Rightarrow> list_ex dyn_pair (zip es as)
        | pair \<Rightarrow> dyn_pair pair)
     then Some (False, None, record_unproved (''`'' @ name @ ''` is bound to `'' @
            type_name names (un_arena st) existing @ ''` by an earlier argument'') st)
     else if compatible actual existing then Some (True, None, st)
     else map_option (\<lambda>(agreed, st). (agreed, None, st)) (self existing actual st))"

definition rebinding_agrees :: "dim_names \<Rightarrow> (type \<Rightarrow> type \<Rightarrow> unifier \<Rightarrow> (bool \<times> unifier) option) \<Rightarrow>
    string \<Rightarrow> type \<Rightarrow> type \<Rightarrow> unifier \<Rightarrow> (bool \<times> unifier) option" where
  "rebinding_agrees names self name existing actual st =
     map_option (\<lambda>(agreed, _, st). (agreed, st)) (rebinding_agrees_at names self name existing actual st)"

text \<open>A parameter of the expected type, and one of the actual type.\<close>

definition bind_expected :: "dim_names \<Rightarrow> (type \<Rightarrow> type \<Rightarrow> unifier \<Rightarrow> (bool \<times> unifier) option) \<Rightarrow>
    string \<Rightarrow> type \<Rightarrow> unifier \<Rightarrow> (bool \<times> unifier) option" where
  "bind_expected names self name actual st = (case un_subst st name of
     None \<Rightarrow> Some (True, bind_type name actual st)
   | Some existing \<Rightarrow>
      (if is_bound name existing then
         map_option (\<lambda>(agreed, decayed, st). (agreed, case decayed of
             Some t \<Rightarrow> bind_type name t st
           | None \<Rightarrow> st)) (rebinding_agrees_at names self name existing actual st)
       else Some (True, bind_type name actual st)))"

definition bind_actual :: "dim_names \<Rightarrow> (type \<Rightarrow> type \<Rightarrow> unifier \<Rightarrow> (bool \<times> unifier) option) \<Rightarrow>
    string \<Rightarrow> type \<Rightarrow> unifier \<Rightarrow> (bool \<times> unifier) option" where
  "bind_actual names self name expected st = (case un_subst st name of
     None \<Rightarrow> Some (True, bind_type name expected st)
   | Some existing \<Rightarrow>
      (if is_bound name existing then rebinding_agrees names self name existing expected st
       else Some (True, bind_type name expected st)))"

definition unify_packs :: "(type \<Rightarrow> type \<Rightarrow> unifier \<Rightarrow> (bool \<times> unifier) option) \<Rightarrow>
    type list \<Rightarrow> type list \<Rightarrow> unifier \<Rightarrow> (bool \<times> unifier) option" where
  "unify_packs self es as st =
    (case (if es = [] then None else case last es of TSpread rest \<Rightarrow> Some rest | _ \<Rightarrow> None) of
       Some rest \<Rightarrow>
         (if as = [] \<or> last as \<noteq> TSpread rest then
            (let fixed = length es - 1 in
             if length as < fixed then Some (False, st)
             else and_also (all_pairs self (zip (take fixed es) as) st)
               (self (TGeneric rest) (TPack (drop fixed as))))
          else unify_lists self es as st)
     | None \<Rightarrow> unify_lists self es as st)"

text \<open>The arms of \<open>unify_type\<close> on two types neither of which is a parameter.\<close>

definition unify_shapes :: "dim_names \<Rightarrow> (type \<Rightarrow> type \<Rightarrow> unifier \<Rightarrow> (bool \<times> unifier) option) \<Rightarrow>
    type \<Rightarrow> type \<Rightarrow> unifier \<Rightarrow> (bool \<times> unifier) option" where
  "unify_shapes names self expected actual st = (case (expected, actual) of
     (TStruct e es, TStruct a as) \<Rightarrow> if e = a then unify_lists self es as st else Some (False, st)
   | (TEnum e es, TEnum a as) \<Rightarrow> if e = a then unify_lists self es as st else Some (False, st)
   | (TBorrow em e, TBorrow am a) \<Rightarrow> if em = am then self e a st else Some (False, st)
   | (TRawPointer em e, TRawPointer am a) \<Rightarrow> if em = am then self e a st else Some (False, st)
   | (TTuple es, TTuple as) \<Rightarrow> unify_lists self es as st
   | (TSlice e, TSlice a) \<Rightarrow> self e a st
   | (TFn eps er eabi eu, TFn aps ar aabi au) \<Rightarrow>
       if eabi = aabi \<and> eu = au then and_also (unify_lists self eps aps st) (self er ar)
       else Some (False, st)
   | (TPack es, TPack as) \<Rightarrow> unify_packs self es as st
   | (TDim e, TDim a) \<Rightarrow> Some (unify_dims names e a st)
   | _ \<Rightarrow> Some (compatible actual expected, st))"

fun generic_name :: "type \<Rightarrow> string option" where
  "generic_name (TGeneric name) = Some name"
| "generic_name _ = None"

fun unify_type :: "dim_names \<Rightarrow> nat \<Rightarrow> type \<Rightarrow> type \<Rightarrow> unifier \<Rightarrow> (bool \<times> unifier) option" where
  "unify_type names 0 expected actual st = None"
| "unify_type names (Suc n) expected actual st =
    (let self = unify_type names n in case (generic_name expected, generic_name actual) of
       (Some e, a) \<Rightarrow>
         (if a = Some e \<and> is_atom e \<and> un_subst st e = None then Some (True, st)
          else if \<not> is_atom e \<or> un_subst st e \<noteq> None then bind_expected names self e actual st
          else (case a of
              Some name \<Rightarrow> if \<not> is_atom name then bind_actual names self name expected st
                else Some (unify_rigid names expected actual st)
            | None \<Rightarrow> Some (unify_rigid names expected actual st)))
     | (None, Some name) \<Rightarrow>
         (if \<not> is_atom name then bind_actual names self name expected st
          else Some (unify_rigid names expected actual st))
     | (None, None) \<Rightarrow> unify_shapes names self expected actual st)"

definition unifier_new :: "arena \<Rightarrow> unifier" where
  "unifier_new ar = \<lparr>un_subst = Map.empty, un_arena = ar, un_unproved = None\<rparr>"

definition bind_generics :: "dim_names \<Rightarrow> nat \<Rightarrow> type \<Rightarrow> type \<Rightarrow> arena \<Rightarrow> (subst \<times> arena) option" where
  "bind_generics names n template concrete ar =
     map_option (\<lambda>(_, st). (un_subst st, un_arena st)) (unify_type names n template concrete (unifier_new ar))"

definition resolve_against_expected ::
  "dim_names \<Rightarrow> nat \<Rightarrow> subst \<Rightarrow> type \<Rightarrow> type \<Rightarrow> arena \<Rightarrow> (type \<times> arena) option" where
  "resolve_against_expected names n generics expected actual ar =
    (case unify_type names n expected actual (unifier_new ar) of
       None \<Rightarrow> None
     | Some (_, st) \<Rightarrow>
        (let s = (\<lambda>name. if generics name = None then un_subst st name else None) in
         map_option (\<lambda>(resolved, ar). (if type_has_foreign_generic generics resolved then expected
             else resolved, ar)) (substitute_generics n [] s actual (un_arena st))))"

definition join_branch_types ::
  "dim_names \<Rightarrow> nat \<Rightarrow> subst \<Rightarrow> type \<Rightarrow> type \<Rightarrow> arena \<Rightarrow> (type option \<times> arena) option" where
  "join_branch_types names n known left right ar =
    (let unresolved = (\<lambda>ty. has_unbound_variant_param ty \<or> type_has_foreign_generic known ty) in
     if compatible left right then Some (Some left, ar)
     else if left = TNever then Some (Some right, ar)
     else if right = TNever then Some (Some left, ar)
     else if unresolved left \<or> unresolved right then
       (case and_also (unify_type names n left right (unifier_new ar)) (unify_type names n right left) of
          None \<Rightarrow> None
        | Some (True, st) \<Rightarrow> map_option (map_prod Some id)
            (substitute_generics n [] (un_subst st) (if unresolved left then right else left) (un_arena st))
        | Some (False, st) \<Rightarrow> Some (None, un_arena st))
     else Some (None, ar))"

section \<open>Matching against a concrete type\<close>

text \<open>Types without dimensions and without the placeholders of the checker, over given parameters.\<close>

fun plain_over :: "(string \<Rightarrow> bool) \<Rightarrow> type \<Rightarrow> bool" where
  "plain_over P (TGeneric name) = P name"
| "plain_over P (TStruct _ args) = list_all (plain_over P) args"
| "plain_over P (TEnum _ args) = list_all (plain_over P) args"
| "plain_over P (TBorrow _ t) = plain_over P t"
| "plain_over P (TRawPointer _ t) = plain_over P t"
| "plain_over P (TSlice t) = plain_over P t"
| "plain_over P (TTuple ts) = list_all (plain_over P) ts"
| "plain_over P (TFn ps r _ _) = (list_all (plain_over P) ps \<and> plain_over P r)"
| "plain_over P (TTypeValue _) = False"
| "plain_over P (TDim _) = False"
| "plain_over P (TPack _) = False"
| "plain_over P (TSpread _) = False"
| "plain_over P TUnknown = False"
| "plain_over P TError = False"
| "plain_over P _ = True"

abbreviation plain :: "type \<Rightarrow> bool" where "plain \<equiv> plain_over (\<lambda>name. \<not> is_atom name)"

abbreviation closed :: "type \<Rightarrow> bool" where "closed \<equiv> plain_over (\<lambda>_. False)"

fun instantiate :: "(string \<Rightarrow> type) \<Rightarrow> type \<Rightarrow> type" where
  "instantiate \<sigma> (TGeneric name) = \<sigma> name"
| "instantiate \<sigma> (TStruct name args) = TStruct name (map (instantiate \<sigma>) args)"
| "instantiate \<sigma> (TEnum name args) = TEnum name (map (instantiate \<sigma>) args)"
| "instantiate \<sigma> (TBorrow m t) = TBorrow m (instantiate \<sigma> t)"
| "instantiate \<sigma> (TRawPointer m t) = TRawPointer m (instantiate \<sigma> t)"
| "instantiate \<sigma> (TSlice t) = TSlice (instantiate \<sigma> t)"
| "instantiate \<sigma> (TTuple ts) = TTuple (map (instantiate \<sigma>) ts)"
| "instantiate \<sigma> (TFn ps r abi u) = TFn (map (instantiate \<sigma>) ps) (instantiate \<sigma> r) abi u"
| "instantiate \<sigma> t = t"

text \<open>The assignments a substitution admits; a parameter bound to itself is unbound.\<close>

definition agrees :: "(string \<Rightarrow> type) \<Rightarrow> subst \<Rightarrow> bool" where
  "agrees \<sigma> s \<longleftrightarrow> (\<forall>name t. s name = Some t \<longrightarrow> t = TGeneric name \<or> \<sigma> name = t)"

definition settled :: "subst \<Rightarrow> bool" where
  "settled s \<longleftrightarrow> (\<forall>name t. s name = Some t \<longrightarrow> t = TGeneric name \<or> closed t)"

lemma closed_written_free: "closed t \<Longrightarrow> written_free t = t"
  by (induction t rule: written_free.induct) (auto simp: list_all_iff intro: map_idI)

lemma closed_erase_anonymous: "closed t \<Longrightarrow> erase_anonymous names ar t = t"
  by (induction names ar t rule: erase_anonymous.induct) (auto simp: list_all_iff intro: map_idI)

lemma closed_instantiate: "closed t \<Longrightarrow> instantiate \<sigma> t = t"
  by (induction \<sigma> t rule: instantiate.induct) (auto simp: list_all_iff intro: map_idI)

lemma closed_eq: "closed a \<Longrightarrow> closed b \<Longrightarrow> type_eq a b \<longleftrightarrow> a = b"
  by (simp add: type_eq_def closed_written_free)

lemma zip_all_eq:
  assumes "length xs = length ys" "\<And>x y. x \<in> set xs \<Longrightarrow> y \<in> set ys \<Longrightarrow> R x y \<longleftrightarrow> x = y"
  shows "list_all (\<lambda>(x, y). R x y) (zip xs ys) \<longleftrightarrow> xs = ys"
  using assms by (induction xs ys rule: list_induct2) auto

lemma closed_compatible: "closed a \<Longrightarrow> closed e \<Longrightarrow> compatible a e \<longleftrightarrow> a = e"
proof (induction "size a" arbitrary: a e rule: less_induct)
  case less
  have parts: "list_all (\<lambda>(a, e). compatible a e) (zip as es) \<longleftrightarrow> as = es"
    if "size_list size as < size a" "list_all closed as" "list_all closed es" "length as = length es" for as es
  proof (rule zip_all_eq [OF that(4)])
    fix x y assume "x \<in> set as" "y \<in> set es"
    then show "compatible x y = (x = y)"
      using less.hyps [of x y] that size_list_less [of x as size] by (auto simp: list_all_iff)
  qed
  show ?case
    by (subst compatible.simps, cases a; cases e)
      (use less.prems less.hyps parts in \<open>auto simp: closed_eq\<close>)
qed

lemma all_pairs_eq:
  assumes "\<And>e a. (e, a) \<in> set pairs \<Longrightarrow> f e a st = Some (e = a, st)"
  shows "all_pairs f pairs st = Some (list_all (\<lambda>(e, a). e = a) pairs, st)"
  using assms by (induction pairs) auto

lemma unify_lists_eq:
  assumes "\<And>e a. e \<in> set es \<Longrightarrow> a \<in> set as \<Longrightarrow> f e a st = Some (e = a, st)"
  shows "unify_lists f es as st = Some (es = as, st)"
proof (cases "length es = length as")
  case True
  have "all_pairs f (zip es as) st = Some (list_all (\<lambda>(e, a). e = a) (zip es as), st)"
    by (rule all_pairs_eq) (use assms in \<open>auto dest: set_zip_leftD set_zip_rightD\<close>)
  then show ?thesis using zip_all_eq [OF True, of "(=)"] True by (simp add: unify_lists_def)
qed (auto simp: unify_lists_def)

lemma generic_name_closed: "closed t \<Longrightarrow> generic_name t = None"
  by (cases t) auto

lemma unify_shapes_closed:
  assumes "closed e" "closed a"
    and self: "\<And>e' a' st. closed e' \<Longrightarrow> closed a' \<Longrightarrow> size a' < size a \<Longrightarrow> self e' a' st = Some (e' = a', st)"
  shows "unify_shapes names self e a st = Some (e = a, st)"
proof -
  have parts: "unify_lists self es as st = Some (es = as, st)"
    if "list_all closed es" "list_all closed as" "size_list size as < size a" for es as
  proof (rule unify_lists_eq)
    fix x y assume "x \<in> set es" "y \<in> set as"
    then show "self x y st = Some (x = y, st)"
      using that size_list_less [of y as size] by (intro self) (auto simp: list_all_iff)
  qed
  show ?thesis using assms(1,2) self parts
    by (cases e; cases a; simp add: unify_shapes_def closed_compatible and_also_def) auto
qed

lemma unify_closed:
  "closed e \<Longrightarrow> closed a \<Longrightarrow> size a < n \<Longrightarrow> unify_type names n e a st = Some (e = a, st)"
proof (induction n arbitrary: e a st)
  case (Suc n)
  have "unify_shapes names (unify_type names n) e a st = Some (e = a, st)"
    by (rule unify_shapes_closed) (use Suc in auto)
  then show ?case using Suc.prems by (simp add: generic_name_closed)
qed simp

text \<open>What unification of a parametric type with a concrete one achieves: the assignments admitted afterwards
  are those admitted before that solve an equation, or none does.\<close>

definition matched :: "((string \<Rightarrow> type) \<Rightarrow> bool) \<Rightarrow> unifier \<Rightarrow> (bool \<times> unifier) option \<Rightarrow> bool" where
  "matched Q st r \<longleftrightarrow> (\<exists>ok s. r = Some (ok, st\<lparr>un_subst := s\<rparr>) \<and> settled s \<and>
     (\<forall>\<sigma>. if ok then agrees \<sigma> s \<longleftrightarrow> agrees \<sigma> (un_subst st) \<and> Q \<sigma>
       else \<not> (agrees \<sigma> (un_subst st) \<and> Q \<sigma>)))"

lemma matched_keep:
  assumes "settled (un_subst st)" "\<And>\<sigma>. agrees \<sigma> (un_subst st) \<Longrightarrow> Q \<sigma> = ok"
  shows "matched Q st (Some (ok, st))"
  unfolding matched_def
proof (intro exI conjI)
  show "Some (ok, st) = Some (ok, st\<lparr>un_subst := un_subst st\<rparr>)" by simp
qed (use assms in \<open>simp_all cong: conj_cong\<close>)

lemma matched_seq:
  assumes "matched Q st r"
    and "\<And>s. settled s \<Longrightarrow> matched Q' (st\<lparr>un_subst := s\<rparr>) (k (st\<lparr>un_subst := s\<rparr>))"
  shows "matched (\<lambda>\<sigma>. Q \<sigma> \<and> Q' \<sigma>) st (and_also r k)"
proof -
  obtain ok s where r: "r = Some (ok, st\<lparr>un_subst := s\<rparr>)" "settled s"
      "\<And>\<sigma>. if ok then agrees \<sigma> s \<longleftrightarrow> agrees \<sigma> (un_subst st) \<and> Q \<sigma> else \<not> (agrees \<sigma> (un_subst st) \<and> Q \<sigma>)"
    using assms(1) unfolding matched_def by blast
  show ?thesis
  proof (cases ok)
    case True
    have "matched Q' (st\<lparr>un_subst := s\<rparr>) (k (st\<lparr>un_subst := s\<rparr>))" using assms(2) r(2) .
    then show ?thesis using True r by (auto simp: matched_def and_also_def split: if_splits)
  next
    case False
    then show ?thesis using r by (auto simp: matched_def and_also_def)
  qed
qed

lemma matched_lists:
  assumes "settled (un_subst st)"
    and "\<And>e a st. e \<in> set es \<Longrightarrow> a \<in> set as \<Longrightarrow> settled (un_subst st) \<Longrightarrow>
      matched (\<lambda>\<sigma>. instantiate \<sigma> e = a) st (f e a st)"
  shows "matched (\<lambda>\<sigma>. map (instantiate \<sigma>) es = as) st (unify_lists f es as st)"
proof (cases "length es = length as")
  case True
  then have "matched (\<lambda>\<sigma>. map (instantiate \<sigma>) es = as) st (all_pairs f (zip es as) st)" using assms
  proof (induction es as arbitrary: st rule: list_induct2)
    case (Cons e es a as)
    have "all_pairs f (zip (e # es) (a # as)) st = and_also (f e a st) (all_pairs f (zip es as))"
      by (simp add: and_also_def split: option.split)
    moreover have "matched (\<lambda>\<sigma>. instantiate \<sigma> e = a \<and> map (instantiate \<sigma>) es = as) st
        (and_also (f e a st) (all_pairs f (zip es as)))"
      by (rule matched_seq) (use Cons in simp_all)
    ultimately show ?case by simp
  qed (simp add: matched_keep)
  then show ?thesis using True by (simp add: unify_lists_def)
next
  case False
  have "matched (\<lambda>\<sigma>. map (instantiate \<sigma>) es = as) st (Some (False, st))"
    by (rule matched_keep [OF assms(1)]) (use False in auto)
  then show ?thesis using False by (simp add: unify_lists_def)
qed

lemma plain_written_free: "plain_over P t \<Longrightarrow> written_free t = t"
  by (induction t rule: written_free.induct) (auto simp: list_all_iff intro: map_idI)

lemma matched_shapes:
  assumes "plain e" "generic_name e = None" "closed a" "settled (un_subst st)"
    and self: "\<And>e' a' st. plain e' \<Longrightarrow> closed a' \<Longrightarrow> size a' < size a \<Longrightarrow> settled (un_subst st) \<Longrightarrow>
      matched (\<lambda>\<sigma>. instantiate \<sigma> e' = a') st (self e' a' st)"
  shows "matched (\<lambda>\<sigma>. instantiate \<sigma> e = a) st (unify_shapes names self e a st)"
proof -
  have parts: "matched (\<lambda>\<sigma>. map (instantiate \<sigma>) es = as) st (unify_lists self es as st)"
    if "list_all plain es" "list_all closed as" "size_list size as < size a" for es as
  proof (rule matched_lists [OF assms(4)])
    fix x y and st :: unifier assume "x \<in> set es" "y \<in> set as" "settled (un_subst st)"
    then show "matched (\<lambda>\<sigma>. instantiate \<sigma> x = y) st (self x y st)"
      using that size_list_less [of y as size] by (intro self) (auto simp: list_all_iff)
  qed
  have fn: "matched (\<lambda>\<sigma>. map (instantiate \<sigma>) es = as \<and> instantiate \<sigma> e' = a') st
      (and_also (unify_lists self es as st) (self e' a'))"
    if "list_all plain es" "list_all closed as" "size_list size as < size a" "plain e'" "closed a'" "size a' < size a"
    for es as e' a'
    by (rule matched_seq [OF parts]) (use that self in simp_all)
  note keep = matched_keep [OF assms(4)]
  show ?thesis
    by (insert assms(1-3), cases e; cases a; simp add: unify_shapes_def;
        (rule keep, auto simp: compatible.simps type_eq_def; fail)?)
      (use parts fn self keep assms(4) in auto)
qed

lemma settled_bind: "settled s \<Longrightarrow> closed a \<Longrightarrow> settled (s(name \<mapsto> a))"
  by (auto simp: settled_def)

lemma agrees_bind:
  assumes "closed a" "s name = None \<or> s name = Some (TGeneric name)"
  shows "agrees \<sigma> (s(name \<mapsto> a)) \<longleftrightarrow> agrees \<sigma> s \<and> \<sigma> name = a"
proof -
  have "a \<noteq> TGeneric name" using assms(1) by auto
  then show ?thesis using assms(2) by (auto simp: agrees_def split: if_splits)
qed

lemma dyn_pair_closed: "closed t \<Longrightarrow> (case (t, a) of (TPack es, TPack as) \<Rightarrow> list_ex dyn_pair (zip es as)
    | pair \<Rightarrow> dyn_pair pair) = False"
  by (cases t) (auto simp: dyn_pair_def)

lemma matched_param:
  assumes "\<not> is_atom name" "closed a" "size a < n" "settled (un_subst st)"
  shows "matched (\<lambda>\<sigma>. \<sigma> name = a) st (bind_expected names (unify_type names n) name a st)"
proof (cases "un_subst st name = None \<or> un_subst st name = Some (TGeneric name)")
  case True
  then have "bind_expected names (unify_type names n) name a st = Some (True, st\<lparr>un_subst := (un_subst st)(name \<mapsto> a)\<rparr>)"
    by (auto simp: bind_expected_def bind_type_def is_bound_def)
  then show ?thesis unfolding matched_def
    using agrees_bind [OF assms(2), of "un_subst st" name] True settled_bind [OF assms(4,2)]
    by (intro exI [of _ True] exI [of _ "(un_subst st)(name \<mapsto> a)"]) simp
next
  case False
  then obtain t where t: "un_subst st name = Some t" "closed t" using assms(4) by (auto simp: settled_def)
  then have bound: "is_bound name t" by (cases t) (auto simp: is_bound_def)
  have "rebinding_agrees_at names (unify_type names n) name t a st = Some (a = t, None, st)"
    using dyn_pair_closed [OF t(2), of a] unify_closed [OF t(2) assms(2,3)] assms(2) t(2)
    by (simp add: rebinding_agrees_at_def closed_compatible closed_erase_anonymous)
  then have "bind_expected names (unify_type names n) name a st = Some (a = t, st)"
    using t bound by (simp add: bind_expected_def)
  moreover have "matched (\<lambda>\<sigma>. \<sigma> name = a) st (Some (a = t, st))"
    by (rule matched_keep [OF assms(4)]) (use t False in \<open>auto simp: agrees_def\<close>)
  ultimately show ?thesis by simp
qed

lemma unify_matched:
  "plain e \<Longrightarrow> closed a \<Longrightarrow> size a + 1 < n \<Longrightarrow> settled (un_subst st) \<Longrightarrow>
   matched (\<lambda>\<sigma>. instantiate \<sigma> e = a) st (unify_type names n e a st)"
proof (induction n arbitrary: e a st)
  case (Suc n)
  show ?case
  proof (cases "generic_name e")
    case None
    have "matched (\<lambda>\<sigma>. instantiate \<sigma> e = a) st (unify_shapes names (unify_type names n) e a st)"
      by (rule matched_shapes) (use Suc None in auto)
    then show ?thesis using Suc.prems None by (simp add: generic_name_closed)
  next
    case (Some name)
    then have e: "e = TGeneric name" "\<not> is_atom name" using Suc.prems by (cases e; simp)+
    then show ?thesis
      using matched_param [of name a n st] Suc.prems by (simp add: generic_name_closed)
  qed
qed simp

section \<open>Substitution of a solution\<close>

lemma traverse_map:
  assumes "\<And>x. x \<in> set xs \<Longrightarrow> f x st = Some (g x, st)"
  shows "traverse f xs st = Some (map g xs, st)"
  using assms by (induction xs) auto

lemma substitute_closed:
  "closed t \<Longrightarrow> size t < n \<Longrightarrow> substitute_generics n stack s t ar = Some (t, ar)"
proof (induction n arbitrary: t)
  case (Suc n)
  have parts: "traverse (substitute_generics n stack s) ts ar = Some (ts, ar)"
    if "list_all closed ts" "size_list size ts < n" for ts
    using traverse_map [of ts "substitute_generics n stack s" ar "\<lambda>t. t"] Suc.IH that
      size_list_less [of _ ts size] by (fastforce simp: list_all_iff)
  show ?case using Suc.prems Suc.IH parts by (cases t) (auto simp: wrapping_def)
qed simp

lemma substitute_instantiate:
  assumes "\<And>name. P name \<Longrightarrow> s name = Some (\<sigma> name) \<and> closed (\<sigma> name)"
    and "plain_over P e" "size (instantiate \<sigma> e) + 1 < n"
  shows "substitute_generics n [] s e ar = Some (instantiate \<sigma> e, ar)"
  using assms(2,3)
proof (induction n arbitrary: e)
  case (Suc n)
  have parts: "traverse (substitute_generics n [] s) es ar = Some (map (instantiate \<sigma>) es, ar)"
    if "list_all (plain_over P) es" "size_list size (map (instantiate \<sigma>) es) < n" for es
  proof (rule traverse_map)
    fix x assume "x \<in> set es"
    then show "substitute_generics n [] s x ar = Some (instantiate \<sigma> x, ar)"
      using that size_list_less [of "instantiate \<sigma> x" "map (instantiate \<sigma>) es" size]
      by (intro Suc.IH) (auto simp: list_all_iff)
  qed
  show ?case
  proof (cases "generic_name e")
    case None
    then show ?thesis using Suc.prems Suc.IH parts by (cases e) (auto simp: wrapping_def)
  next
    case (Some name)
    then have e: "e = TGeneric name" "P name" using Suc.prems by (cases e; simp)+
    then have "closed (\<sigma> name)" using assms(1) by blast
    then have "\<not> type_eq (\<sigma> name) e" using e by (cases "\<sigma> name") (auto simp: type_eq_def)
    then show ?thesis using e assms(1) Suc.prems by (auto simp: substitute_closed)
  qed
qed simp

lemma closed_instances: "plain_over P e \<Longrightarrow> closed (instantiate \<sigma> e) \<Longrightarrow> plain_over (\<lambda>name. closed (\<sigma> name)) e"
  by (induction \<sigma> e rule: instantiate.induct) (auto simp: list_all_iff)


definition no_names :: dim_names where
  "no_names = \<lparr>dn_rigid = {}, dn_anonymous = {}, dn_display = Map.empty\<rparr>"

definition demo_pair :: "type \<Rightarrow> type \<Rightarrow> type" where
  "demo_pair a b = TStruct ''Pair'' [a, TBorrow False b]"


section \<open>Parameters of the caller\<close>

text \<open>C36: a parameter bound to a parameter of the caller counts as unbound. The second of two arguments
  declared of the same type \<open>p\<close> may have any type at all when the first has the type \<open>q\<close>, a type
  parameter of the function that makes the call: \<open>p\<close> is bound anew and the call is accepted.\<close>

theorem unify_forgets_parameter:
  assumes "\<not> is_atom p" "\<not> is_atom q" "un_subst st p = Some (TGeneric p)" "2 \<le> n"
  shows "unify_type names n (TTuple [TGeneric p, TGeneric p]) (TTuple [TGeneric q, t]) st =
    Some (True, st\<lparr>un_subst := (un_subst st)(p \<mapsto> t)\<rparr>)"
proof -
  obtain m where n: "n = Suc (Suc m)" using assms(4) by (auto dest: le_Suc_ex)
  show ?thesis using assms(1-3)
    by (simp add: n unify_shapes_def unify_lists_def bind_expected_def bind_type_def is_bound_def)
qed

theorem unify_forgets_parameter_witness:
  "unify_type no_names 2 (TTuple [TGeneric ''T'', TGeneric ''T'']) (TTuple [TGeneric ''U'', TBool])
     ((unifier_new arena_default)\<lparr>un_subst := generic_substitutions [''T'']\<rparr>) =
   Some (True, (unifier_new arena_default)\<lparr>un_subst := generic_substitutions [''T''],
     un_subst := (generic_substitutions [''T''])(''T'' \<mapsto> TBool)\<rparr>)"
  using unify_forgets_parameter [of "''T''" "''U''"
      "(unifier_new arena_default)\<lparr>un_subst := generic_substitutions [''T'']\<rparr>" 2 no_names TBool]
  by (simp add: generic_substitutions_def is_atom_def)

text \<open>Two parameters bound to vectors of themselves, which is how a call looks whose arguments are vectors of
  the caller's parameters of the same names.\<close>

definition vec_of :: "string \<Rightarrow> type" where
  "vec_of name = TStruct ''Vec'' [TGeneric name]"

definition cyclic :: "unifier \<Rightarrow> bool" where
  "cyclic st \<longleftrightarrow> un_subst st ''T'' = Some (vec_of ''T'') \<and> un_subst st ''X'' = Some (vec_of ''X'')"

lemma cyclic_params:
  assumes "dn_anonymous names = {}" "cyclic st" "(p, q) \<in> {(''T'', ''X''), (''X'', ''T'')}"
  shows "unify_type names n (TGeneric p) (TGeneric q) st = None"
  using assms(2,3)
proof (induction n arbitrary: p q rule: less_induct)
  case (less n)
  have atoms: "\<not> is_atom p" "\<not> is_atom q" "p \<noteq> q" using less.prems by (auto simp: is_atom_def)
  have bound: "un_subst st p = Some (vec_of p)" "un_subst st q = Some (vec_of q)"
    using less.prems by (auto simp: cyclic_def)
  have apart: "\<not> compatible (TGeneric q) (vec_of p)" "\<not> compatible (vec_of p) (vec_of q)"
      "erase_anonymous names (un_arena st) (vec_of p) = vec_of p"
      "erase_anonymous names (un_arena st) (vec_of q) = vec_of q"
      "erase_anonymous names (un_arena st) (TGeneric q) = TGeneric q"
    using atoms(3) assms(1) by (auto simp: vec_of_def compatible.simps type_eq_def is_anonymous_def)
  have inner: "unify_type names m (vec_of q) (vec_of p) st = None" if "m \<le> n" for m
  proof (cases m)
    case (Suc k)
    have "unify_type names k (TGeneric q) (TGeneric p) st = None"
      using less.IH [of k q p] less.prems Suc that by auto
    then show ?thesis by (simp add: Suc vec_of_def unify_shapes_def unify_lists_def)
  qed simp
  have outer: "unify_type names m (vec_of p) (TGeneric q) st = None" if "m \<le> n" for m
  proof (cases m)
    case (Suc k)
    have "unify_type names k (vec_of q) (vec_of p) st = None" using inner Suc that by simp
    then show ?thesis using atoms bound apart
      by (simp add: Suc bind_actual_def rebinding_agrees_def rebinding_agrees_at_def is_bound_def vec_of_def dyn_pair_def)
  qed simp
  show ?case
  proof (cases n)
    case (Suc k)
    have "unify_type names k (vec_of p) (TGeneric q) st = None" using outer Suc by simp
    then show ?thesis using atoms bound apart
      by (simp add: Suc bind_expected_def rebinding_agrees_at_def is_bound_def vec_of_def dyn_pair_def)
  qed simp
qed

text \<open>C40: unification need not end. There is no check that a parameter does not occur in its own
  binding; for parameters of types \<open>T\<close>, \<open>X\<close>, \<open>T\<close> and arguments of types \<open>Vec<T>\<close>, \<open>Vec<X>\<close>, \<open>X\<close> no
  depth of recursion is enough, instead of the mismatch being reported.\<close>

theorem unify_type_diverges:
  "unify_type (names\<lparr>dn_anonymous := {}\<rparr>) n
     (TTuple [TGeneric ''T'', TGeneric ''X'', TGeneric ''T''])
     (TTuple [vec_of ''T'', vec_of ''X'', TGeneric ''X''])
     (st\<lparr>un_subst := generic_substitutions [''T'', ''X'']\<rparr>) = None"
proof (cases n)
  case (Suc m)
  have "cyclic (st\<lparr>un_subst := (generic_substitutions [''T'', ''X''])(''T'' \<mapsto> vec_of ''T'', ''X'' \<mapsto> vec_of ''X'')\<rparr>)"
    by (simp add: cyclic_def)
  from cyclic_params [OF _ this, of "names\<lparr>dn_anonymous := {}\<rparr>" "''T''" "''X''" m]
  show ?thesis
    by (cases m) (auto simp: Suc unify_shapes_def unify_lists_def bind_expected_def bind_type_def is_bound_def
      is_atom_def generic_substitutions_def)
qed simp

end
