(* ===== verification/Layout.thy ===== *)
theory Layout
  imports Types "HOL-Library.Multiset"
begin

text \<open>
  Byte layout of types, \<open>compiler/paco-mir/src/layout.rs\<close>.  Sizes, alignments and offsets are
  \<open>u64\<close> in the code and natural numbers here: the layouts of real types stay far below \<open>2 ^ 64\<close>.
\<close>

section \<open>Scalars and structs\<close>

datatype repr = ReprDefault | ReprC

record field_layout =
  fl_name :: string
  fl_offset :: nat

record layout =
  ly_size :: nat
  ly_align :: nat
  ly_fields :: "field_layout list"

definition leaf :: "nat \<Rightarrow> nat \<Rightarrow> layout option" where
  "leaf sz al = Some \<lparr>ly_size = sz, ly_align = al, ly_fields = []\<rparr>"

fun scalar_layout :: "type \<Rightarrow> layout option" where
  "scalar_layout TUnit = leaf 0 1"
| "scalar_layout TNever = leaf 0 1"
| "scalar_layout (TDim _) = leaf 0 1"
| "scalar_layout (TPack _) = leaf 0 1"
| "scalar_layout (TSpread _) = leaf 0 1"
| "scalar_layout TBool = leaf 1 1"
| "scalar_layout (TInt w) = leaf (width_bytes w) (width_bytes w)"
| "scalar_layout TChar = leaf 4 4"
| "scalar_layout (TFloat w) = leaf (float_width_bytes w) (float_width_bytes w)"
| "scalar_layout TString = leaf 16 8"
| "scalar_layout (TSlice _) = leaf 16 8"
| "scalar_layout (TRawPointer _ _) = leaf 8 8"
| "scalar_layout (TFn _ _ _ _) = leaf 8 8"
| "scalar_layout (TBorrow _ t) = (case t of TSlice _ \<Rightarrow> leaf 16 8 | _ \<Rightarrow> leaf 8 8)"
| "scalar_layout (TTypeValue _) = leaf 8 8"
| "scalar_layout TCode = leaf 8 8"
| "scalar_layout (TStruct _ _) = None"
| "scalar_layout (TEnum _ _) = None"
| "scalar_layout (TTuple _) = None"
| "scalar_layout (TGeneric _) = None"
| "scalar_layout TUnknown = None"
| "scalar_layout TError = None"

text \<open>\<open>offset.div_ceil(align) * align\<close>\<close>

definition align_up :: "nat \<Rightarrow> nat \<Rightarrow> nat" where
  "align_up offset al =
     (if offset mod al = 0 then offset div al else offset div al + 1) * al"

definition place_field :: "string \<times> layout \<Rightarrow> nat \<times> nat \<times> field_layout list \<Rightarrow>
    nat \<times> nat \<times> field_layout list" where
  "place_field f st = (case (f, st) of ((name, l), (offset, al, out)) \<Rightarrow>
    (let al = max al (ly_align l);
         offset = align_up offset (ly_align l);
         out = out @ [\<lparr>fl_name = name, fl_offset = offset\<rparr>];
         offset = offset + ly_size l
     in (offset, al, out)))"

definition layout_order :: "(string \<times> layout) list \<Rightarrow> repr \<Rightarrow> (string \<times> layout) list" where
  "layout_order fs r =
     (if r = ReprDefault then sort_key (\<lambda>f. - int (ly_align (snd f))) fs else fs)"

definition struct_layout :: "(string \<times> layout) list \<Rightarrow> repr \<Rightarrow> layout" where
  "struct_layout fs r =
    (case fold place_field (layout_order fs r) (0, 1, []) of (offset, al, out) \<Rightarrow>
      \<lparr>ly_size = align_up offset al, ly_align = al, ly_fields = out\<rparr>)"

section \<open>Alignment\<close>

lemma align_up_spec:
  assumes "0 < al"
  shows "al dvd align_up offset al" "offset \<le> align_up offset al" "align_up offset al < offset + al"
proof -
  show "al dvd align_up offset al" by (simp add: align_up_def)
  define q m where "q = offset div al" and "m = offset mod al"
  have decomp: "offset = q * al + m" "m < al" using assms by (simp_all add: q_def m_def)
  have up: "align_up offset al = (if m = 0 then q else q + 1) * al" by (simp add: align_up_def q_def m_def)
  show "offset \<le> align_up offset al" "align_up offset al < offset + al"
    unfolding up using decomp by (auto simp: add_mult_distrib)
qed

lemma align_up_id: "al dvd offset \<Longrightarrow> align_up offset al = offset"
  by (auto simp: align_up_def)

lemma align_up_least:
  assumes "0 < al" "offset \<le> m" "al dvd m"
  shows "align_up offset al \<le> m"
proof (rule ccontr)
  assume less: "\<not> align_up offset al \<le> m"
  have "al dvd align_up offset al - m" using align_up_spec(1) [OF assms(1)] assms(3) by simp
  then have "al \<le> align_up offset al - m" using less by (simp add: dvd_imp_le)
  then show False using align_up_spec(3) [OF assms(1), of offset] assms(2) less by linarith
qed

lemma align_up_mono:
  assumes "0 < al" "a \<le> b"
  shows "align_up a al \<le> align_up b al"
  using align_up_least [OF assms(1), of a] align_up_spec(1,2) [OF assms(1), of b] assms(2) by simp

text \<open>Layouts as the compiler builds them: the alignment is 1, 2, 4 or 8 and divides the size.\<close>

definition good_layout :: "layout \<Rightarrow> bool" where
  "good_layout l \<longleftrightarrow> ly_align l \<in> {1, 2, 4, 8} \<and> ly_align l dvd ly_size l"

lemma good_align_dvd:
  "a \<in> {1, 2, 4, 8} \<Longrightarrow> b \<in> {1, 2, 4, 8} \<Longrightarrow> a \<le> b \<Longrightarrow> a dvd (b :: nat)"
  by auto

lemma width_bytes_cases: "width_bytes w \<in> {1, 2, 4, 8}" "float_width_bytes x \<in> {1, 2, 4, 8}"
  by (cases w; simp) (cases x; simp)

lemma scalar_layout_good: "scalar_layout t = Some l \<Longrightarrow> good_layout l"
proof (cases t)
  case (TInt w)
  then show "scalar_layout t = Some l \<Longrightarrow> good_layout l"
    using width_bytes_cases(1) [of w] by (auto simp: leaf_def good_layout_def)
next
  case (TFloat w)
  then show "scalar_layout t = Some l \<Longrightarrow> good_layout l"
    using width_bytes_cases(2) [of w] by (auto simp: leaf_def good_layout_def)
qed (auto simp: leaf_def good_layout_def split: type.splits)

section \<open>The placement of fields\<close>

fun offsets_from :: "nat \<Rightarrow> (string \<times> layout) list \<Rightarrow> nat list" where
  "offsets_from off [] = []"
| "offsets_from off (f # fs) = (let p = align_up off (ly_align (snd f)) in
     p # offsets_from (p + ly_size (snd f)) fs)"

fun end_from :: "nat \<Rightarrow> (string \<times> layout) list \<Rightarrow> nat" where
  "end_from off [] = off"
| "end_from off (f # fs) = end_from (align_up off (ly_align (snd f)) + ly_size (snd f)) fs"

definition max_align :: "nat \<Rightarrow> (string \<times> layout) list \<Rightarrow> nat" where
  "max_align a fs = fold (\<lambda>f a. max a (ly_align (snd f))) fs a"

lemma fold_place_field:
  "fold place_field fs (off, a, out) = (end_from off fs, max_align a fs,
     out @ map (\<lambda>(f, p). \<lparr>fl_name = fst f, fl_offset = p\<rparr>) (zip fs (offsets_from off fs)))"
  by (induction fs arbitrary: off a out) (auto simp: place_field_def max_align_def Let_def)

lemma length_offsets_from [simp]: "length (offsets_from off fs) = length fs"
  by (induction fs arbitrary: off) (simp_all add: Let_def)

lemma struct_layout_fields:
  "map fl_name (ly_fields (struct_layout fs r)) = map fst (layout_order fs r)"
  "map fl_offset (ly_fields (struct_layout fs r)) = offsets_from 0 (layout_order fs r)"
  "ly_align (struct_layout fs r) = max_align 1 (layout_order fs r)"
  "ly_size (struct_layout fs r) =
     align_up (end_from 0 (layout_order fs r)) (max_align 1 (layout_order fs r))"
proof -
  have "map (\<lambda>x. fst (fst x)) (zip gs (offsets_from 0 gs)) = map fst gs" for gs
    by (metis (no_types) comp_apply length_offsets_from map_fst_zip map_map map_eq_conv)
  then show "map fl_name (ly_fields (struct_layout fs r)) = map fst (layout_order fs r)"
    by (simp add: struct_layout_def fold_place_field case_prod_unfold comp_def)
qed (simp_all add: struct_layout_def fold_place_field case_prod_unfold comp_def)

lemma max_align_ge: "a \<le> max_align a fs" "list_all (\<lambda>f. ly_align (snd f) \<le> max_align a fs) fs"
  unfolding max_align_def
proof (induction fs arbitrary: a)
  case (Cons f fs)
  {
    case 1
    show ?case using Cons(1) [of "max a (ly_align (snd f))"] by simp
  next
    case 2
    show ?case
      using Cons(1) [of "max a (ly_align (snd f))"] Cons(2) [of "max a (ly_align (snd f))"] by simp
  }
qed simp_all

lemma max_align_good:
  "a \<in> {1, 2, 4, 8} \<Longrightarrow> list_all (\<lambda>f. ly_align (snd f) \<in> {1, 2, 4, 8}) fs \<Longrightarrow>
   max_align a fs \<in> {1, 2, 4, 8}"
  unfolding max_align_def by (induction fs arbitrary: a) (auto simp: max_def)

lemma max_align_mset: "mset fs = mset gs \<Longrightarrow> max_align a fs = max_align a gs"
  unfolding max_align_def by (rule fold_multiset_equiv [THEN fun_cong]) (auto simp: fun_eq_iff)

lemma layout_order_mset [simp]: "mset (layout_order fs r) = mset fs"
  by (simp add: layout_order_def)

abbreviation positive_aligns :: "(string \<times> layout) list \<Rightarrow> bool" where
  "positive_aligns fs \<equiv> list_all (\<lambda>f. 0 < ly_align (snd f)) fs"

lemma end_from_ge: "positive_aligns fs \<Longrightarrow> off \<le> end_from off fs"
proof (induction fs arbitrary: off)
  case (Cons f fs)
  have "off \<le> align_up off (ly_align (snd f))" using Cons.prems by (simp add: align_up_spec)
  then show ?case using Cons by simp (meson le_add1 le_trans)
qed simp

lemma offsets_ge: "positive_aligns fs \<Longrightarrow> list_all (\<lambda>p. off \<le> p) (offsets_from off fs)"
proof (induction fs arbitrary: off)
  case (Cons f fs)
  let ?p = "align_up off (ly_align (snd f))"
  have p: "off \<le> ?p" using Cons.prems by (simp add: align_up_spec)
  have "list_all (\<lambda>p. ?p + ly_size (snd f) \<le> p) (offsets_from (?p + ly_size (snd f)) fs)"
    using Cons by simp
  then show ?case using p by (auto simp: Let_def list_all_iff)
qed simp

lemma offsets_aligned:
  "positive_aligns fs \<Longrightarrow>
   list_all (\<lambda>(f, p). ly_align (snd f) dvd p \<and> p + ly_size (snd f) \<le> end_from off fs)
     (zip fs (offsets_from off fs))"
proof (induction fs arbitrary: off)
  case (Cons f fs)
  then show ?case using align_up_spec(1) end_from_ge by (auto simp: Let_def)
qed simp

lemma offsets_disjoint:
  "positive_aligns fs \<Longrightarrow>
   sorted_wrt (\<lambda>(f, p) (g, q). p + ly_size (snd f) \<le> q) (zip fs (offsets_from off fs))"
proof (induction fs arbitrary: off)
  case (Cons f fs)
  let ?e = "align_up off (ly_align (snd f)) + ly_size (snd f)"
  have "list_all (\<lambda>p. ?e \<le> p) (offsets_from ?e fs)" using offsets_ge Cons.prems by simp
  then have "\<forall>(g, q)\<in>set (zip fs (offsets_from ?e fs)). ?e \<le> q"
    by (auto simp: list_all_iff dest: set_zip_rightD)
  then show ?case using Cons by (auto simp: Let_def)
qed simp

text \<open>The fields in the order they are placed, with their offsets.\<close>

definition placed_fields :: "(string \<times> layout) list \<Rightarrow> repr \<Rightarrow> ((string \<times> layout) \<times> nat) list" where
  "placed_fields fs r = zip (layout_order fs r) (map fl_offset (ly_fields (struct_layout fs r)))"

lemma struct_layout_placement:
  assumes "list_all (\<lambda>f. good_layout (snd f)) fs"
  shows "mset (map fl_name (ly_fields (struct_layout fs r))) = mset (map fst fs) \<and>
    good_layout (struct_layout fs r) \<and>
    list_all (\<lambda>(f, p). ly_align (snd f) dvd p \<and> p + ly_size (snd f) \<le> ly_size (struct_layout fs r) \<and>
      ly_align (snd f) dvd ly_align (struct_layout fs r)) (placed_fields fs r) \<and>
    sorted_wrt (\<lambda>(f, p) (g, q). p + ly_size (snd f) \<le> q) (placed_fields fs r)"
proof -
  let ?o = "layout_order fs r"
  define l where "l = struct_layout fs r"
  have set_o: "set ?o = set fs" by (metis layout_order_mset set_mset_mset)
  have aligns: "list_all (\<lambda>f. ly_align (snd f) \<in> {1, 2, 4, 8}) ?o"
    using assms(1) set_o by (auto simp: list_all_iff good_layout_def)
  then have pos: "positive_aligns ?o" by (auto simp: list_all_iff)
  have al: "ly_align l \<in> {1, 2, 4, 8}"
    using max_align_good [OF _ aligns, of 1] by (simp add: l_def struct_layout_fields)
  then have al_pos: "0 < max_align 1 ?o" by (auto simp: l_def struct_layout_fields)
  have good: "good_layout l"
    using al align_up_spec(1) [OF al_pos] by (simp add: good_layout_def l_def struct_layout_fields)
  have size: "end_from 0 ?o \<le> ly_size l"
    using align_up_spec(2) [OF al_pos] by (simp add: l_def struct_layout_fields)
  have "ly_align (snd f) dvd ly_align l" if "f \<in> set ?o" for f
    using good_align_dvd [OF _ al] aligns max_align_ge(2) [where a = 1 and fs = ?o] that
    by (auto simp: list_all_iff l_def struct_layout_fields)
  then have "list_all (\<lambda>(f, p). ly_align (snd f) dvd p \<and> p + ly_size (snd f) \<le> ly_size l \<and>
      ly_align (snd f) dvd ly_align l) (placed_fields fs r)"
    using offsets_aligned [OF pos, of 0] size
    by (auto simp: placed_fields_def struct_layout_fields list_all_iff dest: set_zip_leftD)
  moreover have "mset (map fl_name (ly_fields l)) = mset (map fst fs)"
    by (simp add: l_def struct_layout_fields)
  ultimately show ?thesis
    using good offsets_disjoint [OF pos, of 0]
    by (simp add: l_def placed_fields_def struct_layout_fields)
qed


section \<open>The default representation wastes nothing between fields\<close>

lemma end_from_ge_sum: "positive_aligns fs \<Longrightarrow> off + sum_list (map (ly_size \<circ> snd) fs) \<le> end_from off fs"
proof (induction fs arbitrary: off)
  case (Cons f fs)
  have "off \<le> align_up off (ly_align (snd f))" using Cons.prems by (simp add: align_up_spec)
  moreover have "align_up off (ly_align (snd f)) + ly_size (snd f) + sum_list (map (ly_size \<circ> snd) fs)
      \<le> end_from (align_up off (ly_align (snd f)) + ly_size (snd f)) fs"
    by (rule Cons.IH) (use Cons.prems in simp)
  ultimately show ?case by (simp add: comp_def)
qed simp

lemma end_from_dense:
  assumes "list_all (\<lambda>f. good_layout (snd f)) fs"
    "sorted_wrt (\<lambda>f g. ly_align (snd g) \<le> ly_align (snd f)) fs"
    "list_all (\<lambda>f. ly_align (snd f) dvd off) fs"
  shows "end_from off fs = off + sum_list (map (ly_size \<circ> snd) fs)"
  using assms
proof (induction fs arbitrary: off)
  case (Cons f fs)
  have "ly_align (snd g) dvd off + ly_size (snd f)" if "g \<in> set fs" for g
  proof -
    have "ly_align (snd g) dvd ly_align (snd f)"
      using Cons.prems(1,2) that good_align_dvd by (auto simp: list_all_iff good_layout_def)
    moreover have "ly_align (snd f) dvd ly_size (snd f)" using Cons.prems(1) by (simp add: good_layout_def)
    moreover have "ly_align (snd g) dvd off" using Cons.prems(3) that by (simp add: list_all_iff)
    ultimately show ?thesis by (meson dvd_add dvd_trans)
  qed
  then show ?case
    using Cons.IH [of "off + ly_size (snd f)"] Cons.prems by (simp add: align_up_id list_all_iff)
qed simp

text \<open>the default representation is the tightest. Sorted by falling alignment, the fields of a
  struct lie next to each other: its size is the sum of the fields' sizes rounded up to its
  alignment, which no order of the fields can beat, the declaration order of the C representation
  included.\<close>

theorem default_repr_tight:
  assumes "list_all (\<lambda>f. good_layout (snd f)) fs"
  shows "ly_size (struct_layout fs ReprDefault) =
      align_up (sum_list (map (ly_size \<circ> snd) fs)) (ly_align (struct_layout fs ReprDefault)) \<and>
    (mset gs = mset fs \<longrightarrow> ly_size (struct_layout fs ReprDefault) \<le> ly_size (struct_layout gs ReprC))"
proof -
  let ?o = "layout_order fs ReprDefault"
  have set_o: "set ?o = set fs" by (metis layout_order_mset set_mset_mset)
  have sum: "sum_list (map (ly_size \<circ> snd) hs) = sum_list (map (ly_size \<circ> snd) fs)" if "mset hs = mset fs" for hs
    using that by (metis mset_map sum_mset_sum_list)
  have "sorted (map (\<lambda>f. - int (ly_align (snd f))) ?o)" by (simp add: layout_order_def)
  then have "sorted_wrt (\<lambda>f g. ly_align (snd g) \<le> ly_align (snd f)) ?o"
    by (simp add: sorted_wrt_map)
  then have dense: "end_from 0 ?o = sum_list (map (ly_size \<circ> snd) fs)"
    using end_from_dense [of ?o 0] assms set_o sum [of ?o] by (simp add: list_all_iff)
  have al: "max_align 1 hs = max_align 1 ?o" if "mset hs = mset fs" for hs
    using that by (intro max_align_mset) simp
  have pos: "0 < max_align 1 ?o" using max_align_ge(1) [of 1 ?o] by linarith
  have "ly_size (struct_layout fs ReprDefault) \<le> ly_size (struct_layout gs ReprC)" if g: "mset gs = mset fs"
  proof -
    have "set gs = set fs" using g by (rule mset_eq_setD)
    then have "positive_aligns gs" using assms by (fastforce simp: list_all_iff good_layout_def)
    then have "sum_list (map (ly_size \<circ> snd) fs) \<le> end_from 0 gs"
      using end_from_ge_sum [of gs 0] sum [OF g] by simp
    then show ?thesis
      using align_up_mono [OF pos] dense al [OF g]
      by (simp add: struct_layout_fields layout_order_def [of gs ReprC])
  qed
  then show ?thesis using dense by (simp add: struct_layout_fields)
qed

definition demo_fields :: "(string \<times> layout) list" where
  "demo_fields = [(''flag'', the (scalar_layout TBool)), (''count'', the (scalar_layout (TInt I64))),
     (''code'', the (scalar_layout (TInt I16)))]"

lemma demo_fields_good: "list_all (\<lambda>f. good_layout (snd f)) demo_fields"
  by (simp add: demo_fields_def leaf_def good_layout_def)


theorem default_repr_tight_witness:
  "ly_size (struct_layout demo_fields ReprDefault) \<le> ly_size (struct_layout demo_fields ReprC) \<and>
   ly_size (struct_layout demo_fields ReprDefault) = 16 \<and> ly_size (struct_layout demo_fields ReprC) = 24"
  using default_repr_tight [OF demo_fields_good, of demo_fields]
  by (simp add: demo_fields_def leaf_def struct_layout_def layout_order_def place_field_def align_up_def
      Let_def)

end
