(* ===== verification/Sync.thy ===== *)
theory Sync
  imports Prelude
begin

text \<open>
  Waking and parking in the runtime: \<open>Notify\<close> of \<open>runtime/paco-runtime/src/sync.rs\<close>, the wakers
  of \<open>task.rs\<close> and \<open>SchedulerShared::enqueue\<close> of \<open>scheduler.rs\<close>.

  Tasks and threads are numbered.  The scheduler's state that matters here is, for every task, how
  often it is in the run queues (each entry resumes it once), for every thread whether it holds the
  token of \<open>std::thread::park\<close>, and which wakers have fired.  The locale \<open>notifier\<close> is the contract
  the channels and join handles rely on: a notification that was not delivered yet makes its owner
  ready, and no notification takes a permit away.
\<close>

section \<open>The scheduler's view of a waiting task or thread\<close>

text \<open>A \<open>Waker\<close> is numbered; its task and its \<open>fired\<close> flag are kept by number.\<close>

datatype notify = NotifyTask nat | NotifyThread nat

record sched =
  sc_is_task :: "nat \<Rightarrow> bool"
  sc_permits :: "nat \<Rightarrow> nat"
  sc_next_waker :: nat
  sc_waker_task :: "nat \<Rightarrow> nat"
  sc_fired :: "nat \<Rightarrow> bool"

text \<open>\<open>SchedulerShared::enqueue\<close>: one more entry of the task in the run queues.\<close>

definition enqueue :: "nat \<Rightarrow> sched \<Rightarrow> sched" where
  "enqueue task sc = sc\<lparr>sc_permits := (sc_permits sc)(task := sc_permits sc task + 1)\<rparr>"

text \<open>\<open>new_waker_for_current\<close>: a new waker for every wait; \<open>None\<close> outside a task.\<close>

definition new_waker_for_current :: "nat \<Rightarrow> sched \<Rightarrow> nat option \<times> sched" where
  "new_waker_for_current p sc =
    (if sc_is_task sc p
     then (Some (sc_next_waker sc), sc\<lparr>sc_next_waker := sc_next_waker sc + 1,
       sc_waker_task := (sc_waker_task sc)(sc_next_waker sc := p),
       sc_fired := (sc_fired sc)(sc_next_waker sc := False)\<rparr>)
     else (None, sc))"

text \<open>\<open>Waker::wake\<close>: the first call enqueues the task, the others do nothing.\<close>

definition waker_wake :: "nat \<Rightarrow> sched \<Rightarrow> sched" where
  "waker_wake waker sc =
    (if \<not> sc_fired sc waker
     then enqueue (sc_waker_task sc waker) (sc\<lparr>sc_fired := (sc_fired sc)(waker := True)\<rparr>)
     else sc)"

text \<open>\<open>Thread::unpark\<close> of the standard library: the token is there, however often it is given.\<close>

definition thread_unpark :: "nat \<Rightarrow> sched \<Rightarrow> sched" where
  "thread_unpark t sc = sc\<lparr>sc_permits := (sc_permits sc)(t := 1)\<rparr>"

definition notify_current :: "nat \<Rightarrow> sched \<Rightarrow> notify \<times> sched" where
  "notify_current p sc = (case new_waker_for_current p sc of
     (Some waker, sc) \<Rightarrow> (NotifyTask waker, sc)
   | (None, sc) \<Rightarrow> (NotifyThread p, sc))"

definition notify_fire :: "notify \<Rightarrow> sched \<Rightarrow> sched" where
  "notify_fire n sc = (case n of
     NotifyTask waker \<Rightarrow> waker_wake waker sc
   | NotifyThread t \<Rightarrow> thread_unpark t sc)"

text \<open>A parked task or thread goes on when it has a permit, and uses it up: \<open>suspend_current\<close>
  returns when a worker takes the task from a run queue, \<open>std::thread::park\<close> when the token is
  there (a thread may also return from \<open>park\<close> for no reason).\<close>

definition park_returns :: "notify \<Rightarrow> nat \<Rightarrow> sched \<Rightarrow> sched option" where
  "park_returns n p sc = (case n of
     NotifyTask _ \<Rightarrow> if 0 < sc_permits sc p
       then Some (sc\<lparr>sc_permits := (sc_permits sc)(p := sc_permits sc p - 1)\<rparr>) else None
   | NotifyThread _ \<Rightarrow> Some (sc\<lparr>sc_permits := (sc_permits sc)(p := 0)\<rparr>))"

definition wake_all :: "notify list \<Rightarrow> sched \<Rightarrow> sched" where
  "wake_all waiters sc = fold notify_fire waiters sc"

section \<open>The contract of a notification\<close>

locale notifier =
  fixes owner :: "'s \<Rightarrow> 'n \<Rightarrow> nat"
    and live :: "'s \<Rightarrow> 'n \<Rightarrow> bool"
    and ready :: "'s \<Rightarrow> nat \<Rightarrow> bool"
    and fresh :: "nat \<Rightarrow> 's \<Rightarrow> 'n \<times> 's"
    and fire :: "'n \<Rightarrow> 's \<Rightarrow> 's"
  assumes fresh_new: "fresh p s = (n, s') \<Longrightarrow> owner s' n = p \<and> live s' n"
    and fresh_old: "fresh p s = (n, s') \<Longrightarrow> live s m \<Longrightarrow> owner s' m = owner s m \<and> live s' m"
    and fresh_ready: "fresh p s = (n, s') \<Longrightarrow> ready s' q = ready s q"
    and fire_ready: "live s n \<Longrightarrow> ready (fire n s) (owner s n)"
    and fire_keeps: "ready s q \<Longrightarrow> ready (fire n s) q"
    and fire_live: "live s m \<Longrightarrow> m \<noteq> n \<Longrightarrow> live (fire n s) m"
    and fire_owner: "owner (fire n s) m = owner s m"
begin

lemma fold_fire_keeps: "ready s q \<Longrightarrow> ready (fold fire ns s) q"
  by (induction ns arbitrary: s) (simp_all add: fire_keeps)

lemma fold_fire_live: "live s m \<Longrightarrow> m \<notin> set ns \<Longrightarrow> live (fold fire ns s) m"
  by (induction ns arbitrary: s) (simp_all add: fire_live)

lemma fold_fire_owner: "owner (fold fire ns s) m = owner s m"
  by (induction ns arbitrary: s) (simp_all add: fire_owner)

lemma fold_fire_ready:
  assumes "live s n" "n \<in> set ns"
  shows "ready (fold fire ns s) (owner s n)"
proof -
  obtain xs ys where ns: "ns = xs @ n # ys" "n \<notin> set xs" using split_list_first [OF assms(2)] by blast
  have "ready (fire n (fold fire xs s)) (owner (fold fire xs s) n)"
    by (rule fire_ready) (rule fold_fire_live [OF assms(1) ns(2)])
  then show ?thesis using ns(1) fold_fire_keeps by (simp add: fold_fire_owner)
qed

end

definition notify_owner :: "sched \<Rightarrow> notify \<Rightarrow> nat" where
  "notify_owner sc n = (case n of NotifyTask w \<Rightarrow> sc_waker_task sc w | NotifyThread t \<Rightarrow> t)"

definition notify_live :: "sched \<Rightarrow> notify \<Rightarrow> bool" where
  "notify_live sc n = (case n of
     NotifyTask w \<Rightarrow> w < sc_next_waker sc \<and> \<not> sc_fired sc w
   | NotifyThread _ \<Rightarrow> True)"

definition has_permit :: "sched \<Rightarrow> nat \<Rightarrow> bool" where
  "has_permit sc p \<longleftrightarrow> 0 < sc_permits sc p"

lemmas notify_defs = notify_owner_def notify_live_def has_permit_def notify_current_def
  notify_fire_def new_waker_for_current_def waker_wake_def thread_unpark_def enqueue_def

interpretation ntf: notifier notify_owner notify_live has_permit notify_current notify_fire
  by unfold_locales (auto simp: notify_defs split: notify.splits option.splits if_splits prod.splits)

lemma wake_all_ready: "notify_live sc n \<Longrightarrow> n \<in> set ws \<Longrightarrow> has_permit (wake_all ws sc) (notify_owner sc n)"
  unfolding wake_all_def by (rule ntf.fold_fire_ready)

lemma wake_all_keeps: "has_permit sc p \<Longrightarrow> has_permit (wake_all ws sc) p"
  unfolding wake_all_def by (rule ntf.fold_fire_keeps)

lemma wake_all_live: "notify_live sc n \<Longrightarrow> n \<notin> set ws \<Longrightarrow> notify_live (wake_all ws sc) n"
  unfolding wake_all_def by (rule ntf.fold_fire_live)

lemma wake_all_owner: "notify_owner (wake_all ws sc) n = notify_owner sc n"
  unfolding wake_all_def by (rule ntf.fold_fire_owner)

section \<open>Parked processes\<close>

text \<open>A parked process is accounted for: it has a permit, or its notification is registered and
  will deliver one.\<close>

definition registered :: "sched \<Rightarrow> notify list \<Rightarrow> nat \<Rightarrow> notify \<Rightarrow> bool" where
  "registered sc ws p n \<longleftrightarrow> has_permit sc p \<or>
     (n \<in> set ws \<and> notify_live sc n \<and> notify_owner sc n = p)"

lemma registered_wake_own: "registered sc ws p n \<Longrightarrow> registered (wake_all ws sc) vs p n"
  using wake_all_ready wake_all_keeps by (auto simp: registered_def)

lemma registered_wake_other: "registered sc ws p n \<Longrightarrow> registered (wake_all vs sc) ws p n"
  using wake_all_ready wake_all_keeps wake_all_live wake_all_owner
  by (cases "n \<in> set vs") (auto simp: registered_def)

lemma registered_fresh:
  assumes "notify_current q sc = (m, sc')"
  shows "registered sc ws p n \<Longrightarrow> registered sc' (ws @ us) p n" "registered sc' (ws @ [m]) q m"
  using ntf.fresh_new [OF assms] ntf.fresh_old [OF assms] ntf.fresh_ready [OF assms]
  by (auto simp: registered_def)

lemma registered_park:
  "park_returns m q sc = Some sc' \<Longrightarrow> p \<noteq> q \<Longrightarrow> registered sc ws p n \<Longrightarrow> registered sc' ws p n"
  by (auto simp: park_returns_def registered_def has_permit_def notify_live_def notify_owner_def
      split: notify.splits if_splits)

end
