(* ===== verification/Channel.thy ===== *)
theory Channel
  imports Sync
begin

text \<open>
  Bounded channels, \<open>runtime/paco-runtime/src/channel.rs\<close>.

  Every section of the code that runs under one lock, or is one atomic access, is a function on the
  channel and the scheduler; a process (a task or a thread) is at a program counter between two such
  sections.  The relation \<open>step\<close> interleaves the sections of any number of processes in every order.
  Two ghost fields record the values that entered and left the queue.
\<close>

section \<open>The channel and its critical sections\<close>

record 'v inner =
  ch_queue :: "'v list"
  ch_capacity :: nat
  ch_send_waiters :: "notify list"
  ch_recv_waiters :: "notify list"
  ch_closed :: bool
  ch_sender_count :: nat

definition channel_new :: "nat \<Rightarrow> 'v inner" where
  "channel_new cap = \<lparr>ch_queue = [], ch_capacity = max cap 1, ch_send_waiters = [],
     ch_recv_waiters = [], ch_closed = False, ch_sender_count = 1\<rparr>"

datatype 'v send_section = SendRejected | SendPushed | SendMustPark notify

text \<open>The block of \<open>Sender::send\<close> that holds the lock of the queue.\<close>

definition send_locked :: "nat \<Rightarrow> 'v \<Rightarrow> 'v inner \<Rightarrow> sched \<Rightarrow> 'v send_section \<times> 'v inner \<times> sched" where
  "send_locked p v ch sc =
    (if ch_closed ch then (SendRejected, ch, sc)
     else if length (ch_queue ch) < ch_capacity ch
       then (SendPushed, ch\<lparr>ch_queue := ch_queue ch @ [v]\<rparr>, sc)
     else (case notify_current p sc of (n, sc) \<Rightarrow>
       (SendMustPark n, ch\<lparr>ch_send_waiters := ch_send_waiters ch @ [n]\<rparr>, sc)))"

datatype 'v recv_section = RecvPopped 'v | RecvClosed | RecvMustPark notify

text \<open>The block of \<open>Receiver::recv\<close> that holds the lock of the queue.\<close>

definition recv_locked :: "nat \<Rightarrow> 'v inner \<Rightarrow> sched \<Rightarrow> 'v recv_section \<times> 'v inner \<times> sched" where
  "recv_locked p ch sc = (case ch_queue ch of
     v # rest \<Rightarrow> (RecvPopped v, ch\<lparr>ch_queue := rest\<rparr>, sc)
   | [] \<Rightarrow> if ch_closed ch then (RecvClosed, ch, sc)
       else (case notify_current p sc of (n, sc) \<Rightarrow>
         (RecvMustPark n, ch\<lparr>ch_recv_waiters := ch_recv_waiters ch @ [n]\<rparr>, sc)))"

definition sender_is_ready :: "'v inner \<Rightarrow> bool" where
  "sender_is_ready ch \<longleftrightarrow> \<not> ch_closed ch \<and> length (ch_queue ch) < ch_capacity ch"

definition receiver_is_ready :: "'v inner \<Rightarrow> bool" where
  "receiver_is_ready ch \<longleftrightarrow> ch_queue ch \<noteq> [] \<or> ch_closed ch"

text \<open>The sections of \<open>Inner::close\<close>, and \<open>wake_all\<close> on either list of waiters.\<close>

definition close_locked :: "'v inner \<Rightarrow> 'v inner" where
  "close_locked ch = ch\<lparr>ch_closed := True\<rparr>"

definition wake_senders :: "'v inner \<Rightarrow> sched \<Rightarrow> 'v inner \<times> sched" where
  "wake_senders ch sc = (ch\<lparr>ch_send_waiters := []\<rparr>, wake_all (ch_send_waiters ch) sc)"

definition wake_receivers :: "'v inner \<Rightarrow> sched \<Rightarrow> 'v inner \<times> sched" where
  "wake_receivers ch sc = (ch\<lparr>ch_recv_waiters := []\<rparr>, wake_all (ch_recv_waiters ch) sc)"

text \<open>\<open>Clone\<close> and \<open>Drop\<close> of a sender; dropping tells whether it was the last one.\<close>

definition sender_clone :: "'v inner \<Rightarrow> 'v inner" where
  "sender_clone ch = ch\<lparr>ch_sender_count := ch_sender_count ch + 1\<rparr>"

definition sender_drop :: "'v inner \<Rightarrow> bool \<times> 'v inner" where
  "sender_drop ch = (ch_sender_count ch = 1, ch\<lparr>ch_sender_count := ch_sender_count ch - 1\<rparr>)"

section \<open>Interleaving\<close>

datatype 'v pc =
    Idle
  | SendCheck 'v | SendLock 'v | SendWake | SendParked 'v notify | SendOk | SendErr 'v
  | RecvLock | RecvWake 'v | RecvParked notify | RecvOk 'v | RecvErr
  | CloseLock | CloseWakeSend | CloseWakeRecv

record 'v system =
  sy_chan :: "'v inner"
  sy_sched :: sched
  sy_pc :: "nat \<Rightarrow> 'v pc"
  sy_sent :: "'v list"
  sy_received :: "'v list"

definition system_init :: "nat \<Rightarrow> (nat \<Rightarrow> bool) \<Rightarrow> 'v system" where
  "system_init cap tasks = \<lparr>sy_chan = channel_new cap,
     sy_sched = \<lparr>sc_is_task = tasks, sc_permits = (\<lambda>_. 0), sc_next_waker = 0,
       sc_waker_task = (\<lambda>_. 0), sc_fired = (\<lambda>_. False)\<rparr>,
     sy_pc = (\<lambda>_. Idle), sy_sent = [], sy_received = []\<rparr>"

definition goto :: "nat \<Rightarrow> 'v pc \<Rightarrow> 'v system \<Rightarrow> 'v system" where
  "goto p c s = s\<lparr>sy_pc := (sy_pc s)(p := c)\<rparr>"

definition with_chan :: "'v inner \<Rightarrow> sched \<Rightarrow> 'v system \<Rightarrow> 'v system" where
  "with_chan ch sc s = s\<lparr>sy_chan := ch, sy_sched := sc\<rparr>"

text \<open>What a process does next, as a function of its program counter; \<open>None\<close> when it waits.\<close>

definition send_lock_step :: "nat \<Rightarrow> 'v \<Rightarrow> 'v system \<Rightarrow> 'v system" where
  "send_lock_step p v s = (case send_locked p v (sy_chan s) (sy_sched s) of (r, ch, sc) \<Rightarrow>
     (case r of
        SendRejected \<Rightarrow> goto p (SendErr v) s
      | SendPushed \<Rightarrow> goto p SendWake (with_chan ch sc (s\<lparr>sy_sent := sy_sent s @ [v]\<rparr>))
      | SendMustPark n \<Rightarrow> goto p (SendParked v n) (with_chan ch sc s)))"

definition recv_lock_step :: "nat \<Rightarrow> 'v system \<Rightarrow> 'v system" where
  "recv_lock_step p s = (case recv_locked p (sy_chan s) (sy_sched s) of (r, ch, sc) \<Rightarrow>
     (case r of
        RecvPopped v \<Rightarrow> goto p (RecvWake v) (with_chan ch sc (s\<lparr>sy_received := sy_received s @ [v]\<rparr>))
      | RecvClosed \<Rightarrow> goto p RecvErr s
      | RecvMustPark n \<Rightarrow> goto p (RecvParked n) (with_chan ch sc s)))"

definition wake_step :: "('v inner \<Rightarrow> sched \<Rightarrow> 'v inner \<times> sched) \<Rightarrow> nat \<Rightarrow> 'v pc \<Rightarrow> 'v system \<Rightarrow> 'v system" where
  "wake_step wake p c s = (case wake (sy_chan s) (sy_sched s) of (ch, sc) \<Rightarrow> goto p c (with_chan ch sc s))"

definition park_step :: "notify \<Rightarrow> nat \<Rightarrow> 'v pc \<Rightarrow> 'v system \<Rightarrow> 'v system option" where
  "park_step n p c s = map_option (\<lambda>sc. goto p c (with_chan (sy_chan s) sc s))
     (park_returns n p (sy_sched s))"

fun proceed :: "nat \<Rightarrow> 'v pc \<Rightarrow> 'v system \<Rightarrow> 'v system option" where
  "proceed p (SendCheck v) s =
     Some (goto p (if ch_closed (sy_chan s) then SendErr v else SendLock v) s)"
| "proceed p (SendLock v) s = Some (send_lock_step p v s)"
| "proceed p SendWake s = Some (wake_step wake_receivers p SendOk s)"
| "proceed p (SendParked v n) s = park_step n p (SendCheck v) s"
| "proceed p RecvLock s = Some (recv_lock_step p s)"
| "proceed p (RecvWake v) s = Some (wake_step wake_senders p (RecvOk v) s)"
| "proceed p (RecvParked n) s = park_step n p RecvLock s"
| "proceed p CloseLock s =
     Some (goto p CloseWakeSend (with_chan (close_locked (sy_chan s)) (sy_sched s) s))"
| "proceed p CloseWakeSend s = Some (wake_step wake_senders p CloseWakeRecv s)"
| "proceed p CloseWakeRecv s = Some (wake_step wake_receivers p Idle s)"
| "proceed p SendOk s = Some (goto p Idle s)"
| "proceed p (SendErr v) s = Some (goto p Idle s)"
| "proceed p (RecvOk v) s = Some (goto p Idle s)"
| "proceed p RecvErr s = Some (goto p Idle s)"
| "proceed p Idle s = None"

inductive step :: "'v system \<Rightarrow> 'v system \<Rightarrow> bool" where
  proceed: "proceed p (sy_pc s p) s = Some s' \<Longrightarrow> step s s'"
| call_send: "sy_pc s p = Idle \<Longrightarrow> step s (goto p (SendCheck v) s)"
| call_recv: "sy_pc s p = Idle \<Longrightarrow> step s (goto p RecvLock s)"
| call_close: "sy_pc s p = Idle \<Longrightarrow> step s (goto p CloseLock s)"
| clone: "sy_pc s p = Idle \<Longrightarrow> 0 < ch_sender_count (sy_chan s) \<Longrightarrow>
    step s (with_chan (sender_clone (sy_chan s)) (sy_sched s) s)"
| drop_sender: "sy_pc s p = Idle \<Longrightarrow> 0 < ch_sender_count (sy_chan s) \<Longrightarrow>
    sender_drop (sy_chan s) = (final, ch) \<Longrightarrow>
    step s (goto p (if final then CloseLock else Idle) (with_chan ch (sy_sched s) s))"

inductive reachable :: "nat \<Rightarrow> 'v system \<Rightarrow> bool" for cap where
  init: "reachable cap (system_init cap tasks)"
| next_step: "reachable cap s \<Longrightarrow> step s s' \<Longrightarrow> reachable cap s'"

inductive_cases stepE: "step s s'"

lemmas section_defs = goto_def with_chan_def send_lock_step_def recv_lock_step_def wake_step_def
  park_step_def send_locked_def recv_locked_def close_locked_def wake_senders_def wake_receivers_def
  sender_clone_def sender_drop_def

section \<open>Order, capacity and closing\<close>

definition fifo_inv :: "nat \<Rightarrow> 'v system \<Rightarrow> bool" where
  "fifo_inv cap s \<longleftrightarrow> sy_sent s = sy_received s @ ch_queue (sy_chan s) \<and>
     length (ch_queue (sy_chan s)) \<le> ch_capacity (sy_chan s) \<and>
     ch_capacity (sy_chan s) = max cap 1"

lemma proceed_fifo: "proceed p c s = Some s' \<Longrightarrow> fifo_inv cap s \<Longrightarrow> fifo_inv cap s'"
  by (cases c) (auto simp: section_defs fifo_inv_def split: if_splits list.splits prod.splits)

lemma step_fifo: "step s s' \<Longrightarrow> fifo_inv cap s \<Longrightarrow> fifo_inv cap s'"
  by (cases rule: step.cases) (auto simp: proceed_fifo, auto simp: section_defs fifo_inv_def)

text \<open>A run of two processes: process 0 sends 7 and process 1 receives it, then asks for more.\<close>

definition demo_run :: "int system list" where
  "demo_run =
    (let s0 = system_init 1 (\<lambda>_. True);
         s1 = goto 0 (SendCheck 7) s0;
         s2 = the (proceed 0 (sy_pc s1 0) s1);
         s3 = the (proceed 0 (sy_pc s2 0) s2);
         s4 = goto 1 RecvLock s3;
         s5 = the (proceed 1 (sy_pc s4 1) s4);
         s6 = the (proceed 1 (sy_pc s5 1) s5);
         s7 = the (proceed 1 (sy_pc s6 1) s6);
         s8 = goto 1 RecvLock s7;
         s9 = the (proceed 1 (sy_pc s8 1) s8)
     in [s0, s1, s2, s3, s4, s5, s6, s7, s8, s9])"

lemmas run_eval = demo_run_def system_init_def channel_new_def section_defs notify_defs wake_all_def
  Let_def

lemma demo_run_reachable: "reachable 1 (demo_run ! 3)" "reachable 1 (demo_run ! 9)"
proof -
  have move: "reachable 1 s \<Longrightarrow> proceed p (sy_pc s p) s \<noteq> None \<Longrightarrow>
      reachable 1 (the (proceed p (sy_pc s p) s))" for p and s :: "int system"
    by (metis option.collapse reachable.next_step step.proceed)
  have "demo_run ! 1 = goto 0 (SendCheck 7) (system_init 1 (\<lambda>_. True))"
      "demo_run ! 2 = the (proceed 0 (sy_pc (demo_run ! 1) 0) (demo_run ! 1))"
      "demo_run ! 3 = the (proceed 0 (sy_pc (demo_run ! 2) 0) (demo_run ! 2))"
      "demo_run ! 4 = goto 1 RecvLock (demo_run ! 3)" "demo_run ! 8 = goto 1 RecvLock (demo_run ! 7)"
      "demo_run ! 5 = the (proceed 1 (sy_pc (demo_run ! 4) 1) (demo_run ! 4))"
      "demo_run ! 6 = the (proceed 1 (sy_pc (demo_run ! 5) 1) (demo_run ! 5))"
      "demo_run ! 7 = the (proceed 1 (sy_pc (demo_run ! 6) 1) (demo_run ! 6))"
      "demo_run ! 9 = the (proceed 1 (sy_pc (demo_run ! 8) 1) (demo_run ! 8))"
    by (simp_all add: demo_run_def Let_def)
  note runs = this
  have s1: "reachable 1 (demo_run ! 1)"
    unfolding runs(1) by (rule reachable.next_step [OF reachable.init step.call_send])
      (simp add: run_eval)
  have s3: "reachable 1 (demo_run ! 3)"
    unfolding runs(3) runs(2) by (intro move s1) (simp_all add: run_eval)
  have s4: "reachable 1 (demo_run ! 4)"
    unfolding runs(4) by (intro reachable.next_step [OF s3] step.call_recv) (simp add: run_eval)
  have s7: "reachable 1 (demo_run ! 7)"
    unfolding runs(8) runs(7) runs(6) by (intro move s4) (simp_all add: run_eval)
  have s8: "reachable 1 (demo_run ! 8)"
    unfolding runs(5) by (intro reachable.next_step [OF s7] step.call_recv) (simp add: run_eval)
  show "reachable 1 (demo_run ! 3)" by (rule s3)
  show "reachable 1 (demo_run ! 9)" unfolding runs(9) by (intro move s8) (simp add: run_eval)
qed

text \<open>C22: a channel is a bounded queue. In every state reachable by any interleaving of sends,
  receives and closes, the values received so far followed by the queued ones are exactly the values
  sent, in order, and the queue holds at most the channel's capacity.\<close>

theorem channel_fifo:
  assumes "reachable cap s"
  shows "sy_sent s = sy_received s @ ch_queue (sy_chan s) \<and>
    length (ch_queue (sy_chan s)) \<le> max cap 1"
proof -
  have "fifo_inv cap s"
    using assms by induction (simp add: fifo_inv_def system_init_def channel_new_def, erule (1) step_fifo)
  then show ?thesis by (simp add: fifo_inv_def)
qed

theorem channel_fifo_witness: "sy_sent (demo_run ! 3) = sy_received (demo_run ! 3) @ [7]"
  using channel_fifo [OF demo_run_reachable(1)] by (simp add: run_eval)

lemma proceed_closed:
  "proceed p c s = Some s' \<Longrightarrow> ch_closed (sy_chan s) \<Longrightarrow>
   ch_closed (sy_chan s') \<and> sy_sent s' = sy_sent s"
  by (cases c) (auto simp: section_defs split: if_splits list.splits prod.splits)

lemma proceed_recv_err:
  "proceed p c s = Some s' \<Longrightarrow> sy_pc s p = c \<Longrightarrow> sy_pc s' q = RecvErr \<Longrightarrow> sy_pc s q \<noteq> RecvErr \<Longrightarrow>
   ch_closed (sy_chan s) \<and> ch_queue (sy_chan s) = []"
  by (cases c) (auto simp: section_defs split: if_splits list.splits prod.splits)

text \<open>Closing is final and loses nothing. After a channel is closed no step reopens it or adds a
  value, and a receiver is told the channel is closed only when it is closed and drained.\<close>

theorem channel_close_final:
  assumes "step s s'"
  shows "(ch_closed (sy_chan s) \<longrightarrow> ch_closed (sy_chan s') \<and> sy_sent s' = sy_sent s) \<and>
    (sy_pc s' q = RecvErr \<and> sy_pc s q \<noteq> RecvErr \<longrightarrow>
       ch_closed (sy_chan s) \<and> ch_queue (sy_chan s) = [])"
  using assms
proof cases
  case (proceed p)
  then show ?thesis using proceed_closed proceed_recv_err by blast
qed (auto simp: section_defs)

definition demo_closed :: "int system" where
  "demo_closed = (let s = system_init 1 (\<lambda>_. True) in with_chan (close_locked (sy_chan s)) (sy_sched s) s)"

theorem channel_close_final_witness:
  "ch_closed (sy_chan (goto 0 RecvLock demo_closed)) \<and>
   sy_sent (goto 0 RecvLock demo_closed) = sy_sent demo_closed"
proof -
  have "step demo_closed (goto 0 RecvLock demo_closed)"
    by (rule step.call_recv) (simp add: demo_closed_def run_eval)
  moreover have "ch_closed (sy_chan demo_closed)" by (simp add: demo_closed_def run_eval)
  ultimately show ?thesis using channel_close_final by blast
qed

section \<open>No lost wakeups\<close>

definition wakes_receivers :: "'v pc \<Rightarrow> bool" where
  "wakes_receivers c = (case c of SendWake \<Rightarrow> True | CloseWakeSend \<Rightarrow> True | CloseWakeRecv \<Rightarrow> True | _ \<Rightarrow> False)"

definition wakes_senders :: "'v pc \<Rightarrow> bool" where
  "wakes_senders c = (case c of RecvWake _ \<Rightarrow> True | CloseWakeSend \<Rightarrow> True | _ \<Rightarrow> False)"

definition parked_pc :: "'v pc \<Rightarrow> bool" where
  "parked_pc c = (case c of RecvParked _ \<Rightarrow> True | SendParked _ _ \<Rightarrow> True | _ \<Rightarrow> False)"

definition wake_inv :: "'v system \<Rightarrow> bool" where
  "wake_inv s \<longleftrightarrow>
     (\<forall>p n. sy_pc s p = RecvParked n \<longrightarrow> registered (sy_sched s) (ch_recv_waiters (sy_chan s)) p n) \<and>
     (\<forall>p v n. sy_pc s p = SendParked v n \<longrightarrow> registered (sy_sched s) (ch_send_waiters (sy_chan s)) p n) \<and>
     (ch_recv_waiters (sy_chan s) \<noteq> [] \<and> receiver_is_ready (sy_chan s) \<longrightarrow> (\<exists>q. wakes_receivers (sy_pc s q))) \<and>
     (ch_send_waiters (sy_chan s) \<noteq> [] \<and>
        (ch_closed (sy_chan s) \<or> length (ch_queue (sy_chan s)) < ch_capacity (sy_chan s)) \<longrightarrow>
        (\<exists>q. wakes_senders (sy_pc s q)))"

lemma wake_invI:
  assumes "\<And>p n. sy_pc s p = RecvParked n \<Longrightarrow> registered (sy_sched s) (ch_recv_waiters (sy_chan s)) p n"
    "\<And>p v n. sy_pc s p = SendParked v n \<Longrightarrow> registered (sy_sched s) (ch_send_waiters (sy_chan s)) p n"
    "ch_recv_waiters (sy_chan s) \<noteq> [] \<Longrightarrow> receiver_is_ready (sy_chan s) \<Longrightarrow> \<exists>q. wakes_receivers (sy_pc s q)"
    "ch_send_waiters (sy_chan s) \<noteq> [] \<Longrightarrow>
        ch_closed (sy_chan s) \<or> length (ch_queue (sy_chan s)) < ch_capacity (sy_chan s) \<Longrightarrow>
        \<exists>q. wakes_senders (sy_pc s q)"
  shows "wake_inv s"
  using assms unfolding wake_inv_def by blast

lemma wake_invD:
  assumes "wake_inv s"
  shows "sy_pc s p = RecvParked n \<Longrightarrow> registered (sy_sched s) (ch_recv_waiters (sy_chan s)) p n"
    "sy_pc s p = SendParked v n \<Longrightarrow> registered (sy_sched s) (ch_send_waiters (sy_chan s)) p n"
    "ch_recv_waiters (sy_chan s) \<noteq> [] \<Longrightarrow> receiver_is_ready (sy_chan s) \<Longrightarrow> \<exists>q. wakes_receivers (sy_pc s q)"
    "ch_send_waiters (sy_chan s) \<noteq> [] \<Longrightarrow>
        ch_closed (sy_chan s) \<or> length (ch_queue (sy_chan s)) < ch_capacity (sy_chan s) \<Longrightarrow>
        \<exists>q. wakes_senders (sy_pc s q)"
  using assms unfolding wake_inv_def by blast+

lemma wake_inv_section:
  assumes inv: "wake_inv s" and p: "\<not> wakes_receivers (sy_pc s p)" "\<not> wakes_senders (sy_pc s p)"
    and pc: "sy_pc s' = (sy_pc s)(p := c)"
    and regs: "\<And>q n. q \<noteq> p \<Longrightarrow> registered (sy_sched s) (ch_recv_waiters (sy_chan s)) q n \<Longrightarrow>
        registered (sy_sched s') (ch_recv_waiters (sy_chan s')) q n"
      "\<And>q n. q \<noteq> p \<Longrightarrow> registered (sy_sched s) (ch_send_waiters (sy_chan s)) q n \<Longrightarrow>
        registered (sy_sched s') (ch_send_waiters (sy_chan s')) q n"
    and own: "\<And>n. c = RecvParked n \<Longrightarrow> registered (sy_sched s') (ch_recv_waiters (sy_chan s')) p n"
      "\<And>v n. c = SendParked v n \<Longrightarrow> registered (sy_sched s') (ch_send_waiters (sy_chan s')) p n"
    and recv: "\<not> wakes_receivers c \<Longrightarrow> ch_recv_waiters (sy_chan s') \<noteq> [] \<Longrightarrow> receiver_is_ready (sy_chan s') \<Longrightarrow>
        ch_recv_waiters (sy_chan s) \<noteq> [] \<and> receiver_is_ready (sy_chan s)"
    and send: "\<not> wakes_senders c \<Longrightarrow> ch_send_waiters (sy_chan s') \<noteq> [] \<Longrightarrow>
        ch_closed (sy_chan s') \<or> length (ch_queue (sy_chan s')) < ch_capacity (sy_chan s') \<Longrightarrow>
        ch_send_waiters (sy_chan s) \<noteq> [] \<and>
          (ch_closed (sy_chan s) \<or> length (ch_queue (sy_chan s)) < ch_capacity (sy_chan s))"
  shows "wake_inv s'"
proof (rule wake_invI)
  fix q n assume "sy_pc s' q = RecvParked n"
  then show "registered (sy_sched s') (ch_recv_waiters (sy_chan s')) q n"
    using pc own(1) regs(1) wake_invD(1) [OF inv] by (cases "q = p") auto
next
  fix q v n assume "sy_pc s' q = SendParked v n"
  then show "registered (sy_sched s') (ch_send_waiters (sy_chan s')) q n"
    using pc own(2) regs(2) wake_invD(2) [OF inv] by (cases "q = p") auto
next
  assume a: "ch_recv_waiters (sy_chan s') \<noteq> []" "receiver_is_ready (sy_chan s')"
  show "\<exists>q. wakes_receivers (sy_pc s' q)"
  proof (cases "wakes_receivers c")
    case True
    then show ?thesis using pc by (intro exI [of _ p]) simp
  next
    case False
    then obtain q where "wakes_receivers (sy_pc s q)" using recv [OF _ a] wake_invD(3) [OF inv] by blast
    then show ?thesis using pc p(1) by (intro exI [of _ q]) auto
  qed
next
  assume a: "ch_send_waiters (sy_chan s') \<noteq> []"
    "ch_closed (sy_chan s') \<or> length (ch_queue (sy_chan s')) < ch_capacity (sy_chan s')"
  show "\<exists>q. wakes_senders (sy_pc s' q)"
  proof (cases "wakes_senders c")
    case True
    then show ?thesis using pc by (intro exI [of _ p]) simp
  next
    case False
    then obtain q where "wakes_senders (sy_pc s q)" using send [OF _ a] wake_invD(4) [OF inv] by blast
    then show ?thesis using pc p(2) by (intro exI [of _ q]) auto
  qed
qed

text \<open>A step that leaves the channel and the scheduler alone keeps the invariant when the process
  was not about to wake anyone and does not park.\<close>

lemma wake_inv_goto:
  assumes "wake_inv s" "\<not> wakes_receivers (sy_pc s p)" "\<not> wakes_senders (sy_pc s p)"
    "\<not> parked_pc c"
  shows "wake_inv (goto p c s)"
  by (rule wake_inv_section [OF assms(1-3), where c = c])
    (use assms(4) in \<open>auto simp: goto_def parked_pc_def\<close>)

lemmas wakes_defs = wakes_receivers_def wakes_senders_def receiver_is_ready_def parked_pc_def

lemma send_lock_wake:
  assumes "wake_inv s" "sy_pc s p = SendLock v"
  shows "wake_inv (send_lock_step p v s)"
proof -
  let ?ch = "sy_chan s"
  have not: "\<not> wakes_receivers (sy_pc s p)" "\<not> wakes_senders (sy_pc s p)"
    using assms(2) by (simp_all add: wakes_defs)
  consider (closed) "ch_closed ?ch" | (room) "\<not> ch_closed ?ch" "length (ch_queue ?ch) < ch_capacity ?ch"
    | (full) "\<not> ch_closed ?ch" "\<not> length (ch_queue ?ch) < ch_capacity ?ch" by blast
  then show ?thesis
  proof cases
    case closed
    then show ?thesis
      using wake_inv_goto [OF assms(1) not, of "SendErr v"]
      by (simp add: send_lock_step_def send_locked_def parked_pc_def)
  next
    case room
    then show ?thesis
      by (intro wake_inv_section [OF assms(1) not, where c = SendWake]) (auto simp: section_defs wakes_defs)
  next
    case full
    obtain n sc where n: "notify_current p (sy_sched s) = (n, sc)" by (cases "notify_current p (sy_sched s)")
    show ?thesis
      using full n registered_fresh(1) [OF n, where us = "[]"] registered_fresh(1) [OF n] registered_fresh(2) [OF n]
      by (intro wake_inv_section [OF assms(1) not, where c = "SendParked v n"])
        (auto simp: section_defs wakes_defs)
  qed
qed

lemma recv_lock_wake:
  assumes "wake_inv s" "sy_pc s p = RecvLock"
  shows "wake_inv (recv_lock_step p s)"
proof -
  let ?ch = "sy_chan s"
  have not: "\<not> wakes_receivers (sy_pc s p)" "\<not> wakes_senders (sy_pc s p)"
    using assms(2) by (simp_all add: wakes_defs)
  consider (item) v rest where "ch_queue ?ch = v # rest" | (closed) "ch_queue ?ch = []" "ch_closed ?ch"
    | (empty) "ch_queue ?ch = []" "\<not> ch_closed ?ch" by (meson neq_Nil_conv)
  then show ?thesis
  proof cases
    case (item v rest)
    then show ?thesis
      by (intro wake_inv_section [OF assms(1) not, where c = "RecvWake v"]) (auto simp: section_defs wakes_defs)
  next
    case closed
    then show ?thesis
      using wake_inv_goto [OF assms(1) not, of RecvErr]
      by (simp add: recv_lock_step_def recv_locked_def parked_pc_def)
  next
    case empty
    obtain n sc where n: "notify_current p (sy_sched s) = (n, sc)" by (cases "notify_current p (sy_sched s)")
    show ?thesis
      using empty n registered_fresh(1) [OF n, where us = "[]"] registered_fresh(1) [OF n] registered_fresh(2) [OF n]
      by (intro wake_inv_section [OF assms(1) not, where c = "RecvParked n"])
        (auto simp: section_defs wakes_defs)
  qed
qed

lemma park_wake:
  assumes "wake_inv s" "\<not> wakes_receivers (sy_pc s p)" "\<not> wakes_senders (sy_pc s p)"
    "park_step n p c s = Some s'" "\<not> parked_pc c"
  shows "wake_inv s'"
proof -
  obtain sc where sc: "park_returns n p (sy_sched s) = Some sc"
      "s' = goto p c (with_chan (sy_chan s) sc s)"
    using assms(4) by (auto simp: park_step_def)
  show ?thesis
    using registered_park [OF sc(1)] assms(5)
    by (intro wake_inv_section [OF assms(1-3), where c = c]) (auto simp: sc(2) section_defs parked_pc_def)
qed

lemma wake_receivers_inv:
  assumes inv: "wake_inv s" and p: "sy_pc s p = SendWake \<or> sy_pc s p = CloseWakeRecv"
    and c: "\<not> parked_pc c"
  shows "wake_inv (wake_step wake_receivers p c s)"
proof -
  have not: "\<not> wakes_senders (sy_pc s p)" using p by (auto simp: wakes_defs)
  have regs: "registered (wake_all (ch_recv_waiters (sy_chan s)) (sy_sched s)) [] q n"
    if "sy_pc s q = RecvParked n" for q n
    using registered_wake_own wake_invD(1) [OF inv that] by blast
  have send_regs: "registered (wake_all (ch_recv_waiters (sy_chan s)) (sy_sched s)) (ch_send_waiters (sy_chan s)) q n"
    if "sy_pc s q = SendParked v n" for q v n
    using registered_wake_other wake_invD(2) [OF inv that] by blast
  show ?thesis
  proof (rule wake_invI)
    assume "ch_send_waiters (sy_chan (wake_step wake_receivers p c s)) \<noteq> []"
      "ch_closed (sy_chan (wake_step wake_receivers p c s)) \<or>
        length (ch_queue (sy_chan (wake_step wake_receivers p c s)))
          < ch_capacity (sy_chan (wake_step wake_receivers p c s))"
    then obtain q where "wakes_senders (sy_pc s q)"
      using wake_invD(4) [OF inv] by (auto simp: section_defs)
    then show "\<exists>q. wakes_senders (sy_pc (wake_step wake_receivers p c s) q)"
      using not by (intro exI [of _ q]) (auto simp: section_defs)
  qed (use regs send_regs c in \<open>auto simp: section_defs parked_pc_def split: if_splits\<close>)
qed

lemma wake_senders_inv:
  assumes inv: "wake_inv s" and p: "(\<exists>v. sy_pc s p = RecvWake v) \<or> sy_pc s p = CloseWakeSend \<and> c = CloseWakeRecv"
    and c: "\<not> parked_pc c"
  shows "wake_inv (wake_step wake_senders p c s)"
proof -
  have not: "\<not> wakes_receivers (sy_pc s p) \<or> wakes_receivers c" using p by (auto simp: wakes_defs)
  have regs: "registered (wake_all (ch_send_waiters (sy_chan s)) (sy_sched s)) [] q n"
    if "sy_pc s q = SendParked v n" for q v n
    using registered_wake_own wake_invD(2) [OF inv that] by blast
  have recv_regs: "registered (wake_all (ch_send_waiters (sy_chan s)) (sy_sched s)) (ch_recv_waiters (sy_chan s)) q n"
    if "sy_pc s q = RecvParked n" for q n
    using registered_wake_other wake_invD(1) [OF inv that] by blast
  show ?thesis
  proof (rule wake_invI)
    assume "ch_recv_waiters (sy_chan (wake_step wake_senders p c s)) \<noteq> []"
      "receiver_is_ready (sy_chan (wake_step wake_senders p c s))"
    then obtain q where "wakes_receivers (sy_pc s q)"
      using wake_invD(3) [OF inv] by (auto simp: section_defs receiver_is_ready_def)
    then show "\<exists>q. wakes_receivers (sy_pc (wake_step wake_senders p c s) q)"
      using not by (intro exI [of _ "if wakes_receivers c then p else q"]) (auto simp: section_defs)
  qed (use regs recv_regs c in \<open>auto simp: section_defs parked_pc_def split: if_splits\<close>)
qed

lemma close_wake:
  assumes "wake_inv s" "sy_pc s p = CloseLock"
  shows "wake_inv (goto p CloseWakeSend (with_chan (close_locked (sy_chan s)) (sy_sched s) s))"
  by (rule wake_inv_section [OF assms(1), where c = CloseWakeSend])
    (use assms(2) in \<open>auto simp: section_defs wakes_defs\<close>)

lemma proceed_wake:
  assumes "wake_inv s" "proceed p c s = Some s'" "sy_pc s p = c"
  shows "wake_inv s'"
proof (cases c)
  case (SendParked v n)
  with assms show ?thesis by - (rule park_wake [of s p n "SendCheck v"], simp_all add: wakes_defs)
next
  case (RecvParked n)
  with assms show ?thesis by - (rule park_wake [of s p n RecvLock], simp_all add: wakes_defs)
next
  case (SendLock v)
  then show ?thesis using assms send_lock_wake by auto
next
  case RecvLock
  then show ?thesis using assms recv_lock_wake by auto
next
  case CloseLock
  then show ?thesis using assms close_wake by auto
next
  case SendWake
  then show ?thesis using assms wake_receivers_inv [of s p SendOk] by (auto simp: parked_pc_def)
next
  case CloseWakeRecv
  then show ?thesis using assms wake_receivers_inv [of s p Idle] by (auto simp: parked_pc_def)
next
  case (RecvWake v)
  then show ?thesis using assms wake_senders_inv [of s p "RecvOk v"] by (auto simp: parked_pc_def)
next
  case CloseWakeSend
  then show ?thesis using assms wake_senders_inv [of s p CloseWakeRecv] by (auto simp: parked_pc_def)
qed (use assms wake_inv_goto [OF assms(1), of p] in \<open>auto simp: wakes_defs\<close>)

lemma step_wake:
  assumes "step s s'" "wake_inv s"
  shows "wake_inv s'"
  using assms(1)
proof cases
  case (clone p)
  then show ?thesis
    by (intro wake_inv_section [OF assms(2), of p _ Idle]) (auto simp: section_defs wakes_defs)
next
  case (drop_sender p final ch)
  then show ?thesis
    by (intro wake_inv_section [OF assms(2), of p _ "if final then CloseLock else Idle"])
      (auto simp: section_defs wakes_defs)
next
  case (proceed p)
  then show ?thesis using proceed_wake assms(2) by blast
qed (use assms(2) in \<open>simp add: wake_inv_goto wakes_defs\<close>)+

text \<open>C18: no wakeup is lost. In every reachable state, a receiver that is parked without a permit to
  go on finds the channel empty and open, unless some process is just about to wake the receivers;
  a sender that is parked without a permit finds it full and open, unless some process is just
  about to wake the senders.\<close>

theorem channel_no_lost_wakeup:
  assumes "reachable cap s"
  shows "(sy_pc s p = RecvParked n \<and> \<not> has_permit (sy_sched s) p \<longrightarrow>
      ch_queue (sy_chan s) = [] \<and> \<not> ch_closed (sy_chan s) \<or> (\<exists>q. wakes_receivers (sy_pc s q))) \<and>
    (sy_pc s p = SendParked v n \<and> \<not> has_permit (sy_sched s) p \<longrightarrow>
      length (ch_queue (sy_chan s)) = ch_capacity (sy_chan s) \<and> \<not> ch_closed (sy_chan s) \<or>
      (\<exists>q. wakes_senders (sy_pc s q)))"
proof -
  have "wake_inv s \<and> fifo_inv cap s"
    using assms
  proof induction
    case (init tasks)
    show ?case by (simp add: wake_inv_def fifo_inv_def system_init_def channel_new_def)
  next
    case (next_step s s')
    then show ?case using step_wake step_fifo by blast
  qed
  then show ?thesis
    using wake_invD [of s] by (auto simp: registered_def receiver_is_ready_def fifo_inv_def) fastforce+
qed

theorem channel_no_lost_wakeup_witness:
  "\<exists>n. sy_pc (demo_run ! 9) 1 = RecvParked n \<and> (ch_queue (sy_chan (demo_run ! 9)) = [] \<and>
     \<not> ch_closed (sy_chan (demo_run ! 9)) \<or> (\<exists>q. wakes_receivers (sy_pc (demo_run ! 9) q)))"
proof -
  have "sy_pc (demo_run ! 9) 1 = RecvParked (NotifyTask 0)" "\<not> has_permit (sy_sched (demo_run ! 9)) 1"
    by (simp_all add: run_eval)
  then show ?thesis using channel_no_lost_wakeup [OF demo_run_reachable(2), of 1] by blast
qed

end
