(* ===== verification/Walk.thy ===== *)
theory Walk
  imports Ast
begin

text \<open>
  The visitors of \<open>compiler/paco-syntax/src/ast.rs\<close>: the traits \<open>Visit\<close> and \<open>MutVisit\<close> with
  their walks, and \<open>visit_template_ty_splices\<close>.

  A visitor is a record of its methods, each a transformer of the visitor's state; a walk calls the
  methods of the visitor it is given, as the generic functions of the source do.  An implementation
  of the trait overrides some methods and takes the walks for the others: it is a function from the
  visitor \<open>self\<close> calls go to, to the visitor.  \<open>knot\<close> ties the recursion up to a depth of nested
  calls, and \<open>knot_enough\<close> shows that a depth above the size of the syntax tree makes no difference.
\<close>

type_synonym an_item = "(expr, block) item"
type_synonym a_fn_decl = "(expr, block) fn_decl"
type_synonym a_stmt = "(expr, block) stmt"
type_synonym a_quote_body = "(expr, block) quote_body"

abbreviation item_size :: "an_item \<Rightarrow> nat" where "item_size \<equiv> size_item size size"
abbreviation fn_decl_size :: "a_fn_decl \<Rightarrow> nat" where "fn_decl_size \<equiv> size_fn_decl size size"
abbreviation stmt_size :: "a_stmt \<Rightarrow> nat" where "stmt_size \<equiv> size_stmt size size"
abbreviation quote_size :: "a_quote_body \<Rightarrow> nat" where "quote_size \<equiv> size_quote_body size size"

abbreviation module_size :: "module \<Rightarrow> nat" where "module_size m \<equiv> size_list (size_item size size) (mod_items m)"

section \<open>Loops and optional parts\<close>

text \<open>Statements one after the other.\<close>

primrec seq :: "('s \<Rightarrow> 's) list \<Rightarrow> 's \<Rightarrow> 's" where
  "seq [] s = s"
| "seq (f # fs) s = seq fs (f s)"

text \<open>\<open>if let Some(x) = part { f(x) }\<close>\<close>

definition if_some :: "('a \<Rightarrow> 's \<Rightarrow> 's) \<Rightarrow> 'a option \<Rightarrow> 's \<Rightarrow> 's" where
  "if_some f part = (case part of Some x \<Rightarrow> f x | None \<Rightarrow> id)"

lemma if_some_simps [simp]: "if_some f None = id" "if_some f (Some x) = f x"
  by (simp_all add: if_some_def)

section \<open>Visitors\<close>

record 's visitor =
  visit_item :: "an_item \<Rightarrow> 's \<Rightarrow> 's"
  visit_fn_decl :: "a_fn_decl \<Rightarrow> 's \<Rightarrow> 's"
  visit_block :: "block \<Rightarrow> 's \<Rightarrow> 's"
  visit_stmt :: "a_stmt \<Rightarrow> 's \<Rightarrow> 's"
  visit_expr :: "expr \<Rightarrow> 's \<Rightarrow> 's"
  visit_literal :: "literal \<Rightarrow> 's \<Rightarrow> 's"

definition walk_module :: "'s visitor \<Rightarrow> module \<Rightarrow> 's \<Rightarrow> 's" where
  "walk_module v m = fold (visit_item v) (mod_items m)"

definition walk_members :: "'s visitor \<Rightarrow> a_fn_decl list \<Rightarrow> expr const_decl list \<Rightarrow> 's \<Rightarrow> 's" where
  "walk_members v methods consts =
     seq [fold (visit_fn_decl v) methods, fold (\<lambda>c. visit_expr v (cst_value c)) consts]"

fun walk_item :: "'s visitor \<Rightarrow> an_item \<Rightarrow> 's \<Rightarrow> 's" where
  "walk_item v (ItemFn f) = visit_fn_decl v f"
| "walk_item v (ItemStruct d) = walk_members v (sd_methods d) (sd_consts d)"
| "walk_item v (ItemEnum d) = walk_members v (ed_methods d) (ed_consts d)"
| "walk_item v (ItemMethods d) = walk_members v (mb_methods d) (mb_consts d)"
| "walk_item v (ItemConst c) = visit_expr v (cst_value c)"
| "walk_item v (ItemTrait _) = id"
| "walk_item v (ItemUse _) = id"
| "walk_item v (ItemExtern _) = id"

definition walk_fn_decl :: "'s visitor \<Rightarrow> a_fn_decl \<Rightarrow> 's \<Rightarrow> 's" where
  "walk_fn_decl v f = visit_block v (fn_body f)"

definition walk_block :: "'s visitor \<Rightarrow> block \<Rightarrow> 's \<Rightarrow> 's" where
  "walk_block v b = seq [fold (visit_stmt v) (blk_stmts b), if_some (visit_expr v) (blk_tail b)]"

fun walk_stmt :: "'s visitor \<Rightarrow> a_stmt \<Rightarrow> 's \<Rightarrow> 's" where
  "walk_stmt v (StmtLet st) = if_some (visit_expr v) (let_value st)"
| "walk_stmt v (StmtExpr e) = visit_expr v e"
| "walk_stmt v (StmtItem it) = visit_item v it"

fun walk_expr :: "'s visitor \<Rightarrow> expr \<Rightarrow> 's \<Rightarrow> 's" where
  "walk_expr v (ELiteral l _) = visit_literal v l"
| "walk_expr v (EIdent _ _) = id"
| "walk_expr v (EContinue _) = id"
| "walk_expr v (EBlock b) = visit_block v b"
| "walk_expr v (EUnsafe b _) = visit_block v b"
| "walk_expr v (EIf c t els _) = seq [visit_expr v c, visit_block v t, if_some (visit_expr v) els]"
| "walk_expr v (ELoop b _) = visit_block v b"
| "walk_expr v (EWhile c b _) = seq [visit_expr v c, visit_block v b]"
| "walk_expr v (EMatch e arms _) = seq [visit_expr v e,
     fold (\<lambda>arm. seq [if_some (visit_expr v) (arm_guard arm), visit_expr v (arm_body arm)]) arms]"
| "walk_expr v (ECall f _ args _) = seq [visit_expr v f, fold (visit_expr v) args]"
| "walk_expr v (EMethodCall r _ args _) = seq [visit_expr v r, fold (visit_expr v) args]"
| "walk_expr v (EAssociatedCall _ _ args _) = fold (visit_expr v) args"
| "walk_expr v (EBinary _ l r _) = seq [visit_expr v l, visit_expr v r]"
| "walk_expr v (EUnary _ e _) = visit_expr v e"
| "walk_expr v (EAssign t e _) = seq [visit_expr v t, visit_expr v e]"
| "walk_expr v (EField b _ _) = visit_expr v b"
| "walk_expr v (EIndex b ix _) = seq [visit_expr v b, fold (visit_expr v) ix]"
| "walk_expr v (EReturn e _) = if_some (visit_expr v) e"
| "walk_expr v (EBreak e _) = if_some (visit_expr v) e"
| "walk_expr v (ESpawn e _) = visit_expr v e"
| "walk_expr v (EComptime e _) = visit_expr v e"
| "walk_expr v (ESplice e _) = visit_expr v e"
| "walk_expr v (EClosure _ b _) = visit_expr v b"
| "walk_expr v (EQuote body _) = (case body of QuoteItem it \<Rightarrow> visit_item v it | QuoteExpr e \<Rightarrow>
     visit_expr v e)"
| "walk_expr v (ESelect arms dflt _) =
     seq [fold (\<lambda>arm. seq [visit_expr v (sa_operation arm), visit_block v (sa_body arm)]) arms,
          if_some (visit_block v) dflt]"
| "walk_expr v (EYield e _) = visit_expr v e"
| "walk_expr v (EStructLiteral _ fs _) = fold (\<lambda>f. visit_expr v (snd f)) fs"
| "walk_expr v (EBorrow _ e _) = visit_expr v e"
| "walk_expr v (ETuple es _) = fold (visit_expr v) es"
| "walk_expr v (ETry e _) = visit_expr v e"
| "walk_expr v (ECast e _ _) = visit_expr v e"

text \<open>The methods an implementation of \<open>Visit\<close> does not write.\<close>

definition default_visitor :: "'s visitor \<Rightarrow> 's visitor" where
  "default_visitor self = \<lparr>visit_item = walk_item self, visit_fn_decl = walk_fn_decl self,
     visit_block = walk_block self, visit_stmt = walk_stmt self, visit_expr = walk_expr self,
     visit_literal = (\<lambda>_. id)\<rparr>"

definition idle_visitor :: "'s visitor" where
  "idle_visitor = \<lparr>visit_item = (\<lambda>_. id), visit_fn_decl = (\<lambda>_. id), visit_block = (\<lambda>_. id),
     visit_stmt = (\<lambda>_. id), visit_expr = (\<lambda>_. id), visit_literal = (\<lambda>_. id)\<rparr>"

primrec knot :: "('s visitor \<Rightarrow> 's visitor) \<Rightarrow> nat \<Rightarrow> 's visitor" where
  "knot impl 0 = idle_visitor"
| "knot impl (Suc n) = impl (knot impl n)"

section \<open>Mutable visitors\<close>

text \<open>\<open>MutVisit\<close>: a method gives back the changed tree beside the visitor's new state.\<close>

primrec each_mut :: "('a \<Rightarrow> 's \<Rightarrow> 'a \<times> 's) \<Rightarrow> 'a list \<Rightarrow> 's \<Rightarrow> 'a list \<times> 's" where
  "each_mut f [] s = ([], s)"
| "each_mut f (x # xs) s = (let (y, s) = f x s; (ys, s) = each_mut f xs s in (y # ys, s))"

definition if_some_mut :: "('a \<Rightarrow> 's \<Rightarrow> 'a \<times> 's) \<Rightarrow> 'a option \<Rightarrow> 's \<Rightarrow> 'a option \<times> 's" where
  "if_some_mut f part s = (case part of
     Some x \<Rightarrow> (let (y, s) = f x s in (Some y, s))
   | None \<Rightarrow> (None, s))"

record 's mut_visitor =
  visit_item_mut :: "an_item \<Rightarrow> 's \<Rightarrow> an_item \<times> 's"
  visit_expr_mut :: "expr \<Rightarrow> 's \<Rightarrow> expr \<times> 's"

definition walk_module_mut :: "'s mut_visitor \<Rightarrow> module \<Rightarrow> 's \<Rightarrow> module \<times> 's" where
  "walk_module_mut v m s = (case m of
     Module nm items sp \<Rightarrow> (let (items, s) = each_mut (visit_item_mut v) items s
          in (Module nm items sp, s)))"

definition walk_stmt_mut :: "'s mut_visitor \<Rightarrow> a_stmt \<Rightarrow> 's \<Rightarrow> a_stmt \<times> 's" where
  "walk_stmt_mut v st s = (case st of
     StmtLet (LetStmt mt p t val sp) \<Rightarrow> (let (val, s) = if_some_mut (visit_expr_mut v) val s
          in (StmtLet (LetStmt mt p t val sp), s))
   | StmtExpr e \<Rightarrow> (let (e, s) = visit_expr_mut v e s in (StmtExpr e, s))
   | StmtItem it \<Rightarrow> (let (it, s) = visit_item_mut v it s in (StmtItem it, s)))"

definition walk_block_mut :: "'s mut_visitor \<Rightarrow> block \<Rightarrow> 's \<Rightarrow> block \<times> 's" where
  "walk_block_mut v b s = (case b of
     Block stmts tail sp \<Rightarrow> (let (stmts, s) = each_mut (walk_stmt_mut v) stmts s; (tail,
          s) = if_some_mut (visit_expr_mut v) tail s in (Block stmts tail sp, s)))"

definition walk_method_mut :: "'s mut_visitor \<Rightarrow> a_fn_decl \<Rightarrow> 's \<Rightarrow> a_fn_decl \<times> 's" where
  "walk_method_mut v f s = (case f of
     FnDecl nm ns gs ps rt body pb un itr ct ab attrs sp \<Rightarrow> (let (body,
          s) = walk_block_mut v body s in (FnDecl nm ns gs ps rt body pb un itr ct ab attrs sp,
          s)))"

definition walk_const_mut :: "'s mut_visitor \<Rightarrow> expr const_decl \<Rightarrow> 's \<Rightarrow> expr const_decl \<times> 's" where
  "walk_const_mut v c s = (case c of
     ConstDecl nm t val pb sp \<Rightarrow> (let (val, s) = visit_expr_mut v val s
          in (ConstDecl nm t val pb sp, s)))"

definition walk_item_mut :: "'s mut_visitor \<Rightarrow> an_item \<Rightarrow> 's \<Rightarrow> an_item \<times> 's" where
  "walk_item_mut v it s = (case it of
     ItemFn f \<Rightarrow> (let (f, s) = walk_method_mut v f s in (ItemFn f, s))
   | ItemStruct (StructDecl nm gs fs ms cs ats pb attrs sp) \<Rightarrow> (let (ms,
        s) = each_mut (walk_method_mut v) ms s; (cs, s) = each_mut (walk_const_mut v) cs s
        in (ItemStruct (StructDecl nm gs fs ms cs ats pb attrs sp), s))
   | ItemEnum (EnumDecl nm gs vs ms cs pb attrs sp) \<Rightarrow> (let (ms,
        s) = each_mut (walk_method_mut v) ms s; (cs, s) = each_mut (walk_const_mut v) cs s
        in (ItemEnum (EnumDecl nm gs vs ms cs pb attrs sp), s))
   | ItemMethods (MethodsBlock gs t ms cs sp) \<Rightarrow> (let (ms, s) = each_mut (walk_method_mut v) ms s;
        (cs, s) = each_mut (walk_const_mut v) cs s in (ItemMethods (MethodsBlock gs t ms cs sp), s))
   | ItemConst c \<Rightarrow> (let (c, s) = walk_const_mut v c s in (ItemConst c, s))
   | ItemTrait _ \<Rightarrow> (it, s)
   | ItemUse _ \<Rightarrow> (it, s)
   | ItemExtern _ \<Rightarrow> (it, s))"

definition walk_arm_mut :: "'s mut_visitor \<Rightarrow> expr match_arm \<Rightarrow> 's \<Rightarrow> expr match_arm \<times> 's" where
  "walk_arm_mut v arm s = (case arm of
     MatchArm p g b sp \<Rightarrow> (let (g, s) = if_some_mut (visit_expr_mut v) g s; (b,
          s) = visit_expr_mut v b s in (MatchArm p g b sp, s)))"

definition walk_select_arm_mut :: "'s mut_visitor \<Rightarrow> (expr, block) select_arm \<Rightarrow> 's \<Rightarrow>
    (expr, block) select_arm \<times> 's" where
  "walk_select_arm_mut v arm s = (case arm of
     SelectArm op b sp \<Rightarrow> (let (op, s) = visit_expr_mut v op s; (b, s) = walk_block_mut v b s
          in (SelectArm op b sp, s)))"

definition walk_field_mut :: "'s mut_visitor \<Rightarrow> string \<times> expr \<Rightarrow> 's \<Rightarrow> (string \<times> expr) \<times> 's" where
  "walk_field_mut v f s = (case f of
     (nm, e) \<Rightarrow> (let (e, s) = visit_expr_mut v e s in ((nm, e), s)))"

fun walk_expr_mut :: "'s mut_visitor \<Rightarrow> expr \<Rightarrow> 's \<Rightarrow> expr \<times> 's" where
  "walk_expr_mut v (ELiteral l sp) s = (ELiteral l sp, s)"
| "walk_expr_mut v (EIdent nm sp) s = (EIdent nm sp, s)"
| "walk_expr_mut v (EContinue sp) s = (EContinue sp, s)"
| "walk_expr_mut v (EBlock b) s = (let (b, s) = walk_block_mut v b s in (EBlock b, s))"
| "walk_expr_mut v (EUnsafe b sp) s = (let (b, s) = walk_block_mut v b s in (EUnsafe b sp, s))"
| "walk_expr_mut v (EIf c t els sp) s = (let (c, s) = visit_expr_mut v c s; (t,
     s) = walk_block_mut v t s; (els, s) = if_some_mut (visit_expr_mut v) els s
     in (EIf c t els sp, s))"
| "walk_expr_mut v (ELoop b sp) s = (let (b, s) = walk_block_mut v b s in (ELoop b sp, s))"
| "walk_expr_mut v (EWhile c b sp) s = (let (c, s) = visit_expr_mut v c s; (b,
     s) = walk_block_mut v b s in (EWhile c b sp, s))"
| "walk_expr_mut v (EMatch e arms sp) s = (let (e, s) = visit_expr_mut v e s; (arms,
     s) = each_mut (walk_arm_mut v) arms s in (EMatch e arms sp, s))"
| "walk_expr_mut v (ECall f ts args sp) s = (let (f, s) = visit_expr_mut v f s; (args,
     s) = each_mut (visit_expr_mut v) args s in (ECall f ts args sp, s))"
| "walk_expr_mut v (EMethodCall r nm args sp) s = (let (r, s) = visit_expr_mut v r s; (args,
     s) = each_mut (visit_expr_mut v) args s in (EMethodCall r nm args sp, s))"
| "walk_expr_mut v (EAssociatedCall t nm args sp) s = (let (args,
     s) = each_mut (visit_expr_mut v) args s in (EAssociatedCall t nm args sp, s))"
| "walk_expr_mut v (EBinary op l r sp) s = (let (l, s) = visit_expr_mut v l s; (r,
     s) = visit_expr_mut v r s in (EBinary op l r sp, s))"
| "walk_expr_mut v (EUnary op e sp) s = (let (e, s) = visit_expr_mut v e s in (EUnary op e sp, s))"
| "walk_expr_mut v (EAssign t e sp) s = (let (t, s) = visit_expr_mut v t s; (e,
     s) = visit_expr_mut v e s in (EAssign t e sp, s))"
| "walk_expr_mut v (EField b nm sp) s = (let (b, s) = visit_expr_mut v b s in (EField b nm sp, s))"
| "walk_expr_mut v (EIndex b ix sp) s = (let (b, s) = visit_expr_mut v b s; (ix,
     s) = each_mut (visit_expr_mut v) ix s in (EIndex b ix sp, s))"
| "walk_expr_mut v (EReturn e sp) s = (let (e, s) = if_some_mut (visit_expr_mut v) e s
     in (EReturn e sp, s))"
| "walk_expr_mut v (EBreak e sp) s = (let (e, s) = if_some_mut (visit_expr_mut v) e s
     in (EBreak e sp, s))"
| "walk_expr_mut v (ESpawn e sp) s = (let (e, s) = visit_expr_mut v e s in (ESpawn e sp, s))"
| "walk_expr_mut v (EComptime e sp) s = (let (e, s) = visit_expr_mut v e s in (EComptime e sp, s))"
| "walk_expr_mut v (ESplice e sp) s = (let (e, s) = visit_expr_mut v e s in (ESplice e sp, s))"
| "walk_expr_mut v (EClosure ps b sp) s = (let (b, s) = visit_expr_mut v b s
     in (EClosure ps b sp, s))"
| "walk_expr_mut v (EQuote body sp) s = (case body of
     QuoteItem it \<Rightarrow> (let (it, s) = visit_item_mut v it s in (EQuote (QuoteItem it) sp, s))
   | QuoteExpr e \<Rightarrow> (let (e, s) = visit_expr_mut v e s in (EQuote (QuoteExpr e) sp, s)))"
| "walk_expr_mut v (ESelect arms dflt sp) s = (let (arms,
     s) = each_mut (walk_select_arm_mut v) arms s; (dflt,
     s) = if_some_mut (walk_block_mut v) dflt s in (ESelect arms dflt sp, s))"
| "walk_expr_mut v (EYield e sp) s = (let (e, s) = visit_expr_mut v e s in (EYield e sp, s))"
| "walk_expr_mut v (EStructLiteral t fs sp) s = (let (fs,
     s) = each_mut (walk_field_mut v) fs s in (EStructLiteral t fs sp, s))"
| "walk_expr_mut v (EBorrow m e sp) s = (let (e, s) = visit_expr_mut v e s in (EBorrow m e sp, s))"
| "walk_expr_mut v (ETuple es sp) s = (let (es, s) = each_mut (visit_expr_mut v) es s
     in (ETuple es sp, s))"
| "walk_expr_mut v (ETry e sp) s = (let (e, s) = visit_expr_mut v e s in (ETry e sp, s))"
| "walk_expr_mut v (ECast e t sp) s = (let (e, s) = visit_expr_mut v e s in (ECast e t sp, s))"

primrec knot_mut :: "('s mut_visitor \<Rightarrow> 's mut_visitor) \<Rightarrow> nat \<Rightarrow> 's mut_visitor" where
  "knot_mut impl 0 = \<lparr>visit_item_mut = Pair, visit_expr_mut = Pair\<rparr>"
| "knot_mut impl (Suc n) = impl (knot_mut impl n)"

section \<open>Splices in the types of a template\<close>

lemma fold_fun_cong [fundef_cong]:
  assumes "xs = ys" "\<And>x. x \<in> set ys \<Longrightarrow> f x = g x"
  shows "fold f xs = fold g ys"
  using assms by (intro ext fold_cong) auto

lemmas fold_visit_cong = fold_fun_cong [OF refl]

text \<open>The nested function \<open>ty\<close> of \<open>Finder\<close>, applied to the closure \<open>f\<close>.\<close>

fun finder_ty :: "(expr \<Rightarrow> 's \<Rightarrow> 's) \<Rightarrow> expr ty \<Rightarrow> 's \<Rightarrow> 's" where
  "finder_ty f (TySplice e _) = f e"
| "finder_ty f (TyGeneric _ args _) = fold (finder_ty f) args"
| "finder_ty f (TyTuple args _) = fold (finder_ty f) args"
| "finder_ty f (TySlice t _) = finder_ty f t"
| "finder_ty f (TyBorrow _ _ t _) = finder_ty f t"
| "finder_ty f (TyRawPointer _ t _) = finder_ty f t"
| "finder_ty f (TyFn ps rt _ _ _) = seq [fold (finder_ty f) ps, (case rt of Some t \<Rightarrow>
     finder_ty f t | None \<Rightarrow> id)]"
| "finder_ty f (TyPath _ _) = id"
| "finder_ty f (TyDyn _ _) = id"
| "finder_ty f (TyInfer _) = id"
| "finder_ty f (TyNever _) = id"
| "finder_ty f (TyConst _ _) = id"
| "finder_ty f (TyDynDim _) = id"
| "finder_ty f (TyExpand _ _) = id"
| "finder_ty f (TyExistential _ _) = id"

definition finder_item :: "(expr \<Rightarrow> 's \<Rightarrow> 's) \<Rightarrow> 's visitor \<Rightarrow> an_item \<Rightarrow> 's \<Rightarrow> 's" where
  "finder_item f self it = seq [(case it of ItemMethods b \<Rightarrow> finder_ty f (mb_target b) | _ \<Rightarrow> id),
       walk_item self it]"

definition finder_fn_decl :: "(expr \<Rightarrow> 's \<Rightarrow> 's) \<Rightarrow> 's visitor \<Rightarrow> a_fn_decl \<Rightarrow> 's \<Rightarrow> 's" where
  "finder_fn_decl f self d = seq [if_some f (fn_name_splice d),
       fold (\<lambda>p. finder_ty f (prm_ty p)) (fn_params d), if_some (finder_ty f) (fn_return_ty d),
       walk_fn_decl self d]"

definition finder_stmt :: "(expr \<Rightarrow> 's \<Rightarrow> 's) \<Rightarrow> 's visitor \<Rightarrow> a_stmt \<Rightarrow> 's \<Rightarrow> 's" where
  "finder_stmt f self st = seq [(case st of StmtLet l \<Rightarrow> if_some (finder_ty f) (let_ty l) | _ \<Rightarrow>
       id), walk_stmt self st]"

definition finder_expr :: "(expr \<Rightarrow> 's \<Rightarrow> 's) \<Rightarrow> 's visitor \<Rightarrow> expr \<Rightarrow> 's \<Rightarrow> 's" where
  "finder_expr f self e = (case e of
     EQuote _ _ \<Rightarrow> id
   | ESplice _ _ \<Rightarrow> id
   | EAssociatedCall t _ _ _ \<Rightarrow> seq [finder_ty f t, walk_expr self e]
   | EStructLiteral t _ _ \<Rightarrow> seq [finder_ty f t, walk_expr self e]
   | ECast _ t _ \<Rightarrow> seq [finder_ty f t, walk_expr self e]
   | ECall _ ts _ _ \<Rightarrow> seq [fold (finder_ty f) ts, walk_expr self e]
   | EClosure ps _ _ \<Rightarrow> seq [fold (finder_ty f) (List.map_filter cp_ty ps), walk_expr self e]
   | _ \<Rightarrow> walk_expr self e)"

definition finder :: "(expr \<Rightarrow> 's \<Rightarrow> 's) \<Rightarrow> 's visitor \<Rightarrow> 's visitor" where
  "finder f self = (default_visitor self)\<lparr>visit_item := finder_item f self,
     visit_fn_decl := finder_fn_decl f self, visit_stmt := finder_stmt f self,
     visit_expr := finder_expr f self\<rparr>"

definition visit_quote :: "'s visitor \<Rightarrow> a_quote_body \<Rightarrow> 's \<Rightarrow> 's" where
  "visit_quote v body = (case body of QuoteItem it \<Rightarrow> visit_item v it | QuoteExpr e \<Rightarrow>
       visit_expr v e)"

definition visit_template_ty_splices :: "a_quote_body \<Rightarrow> (expr \<Rightarrow> 's \<Rightarrow> 's) \<Rightarrow> 's \<Rightarrow> 's" where
  "visit_template_ty_splices body f = visit_quote (knot (finder f) (quote_size body)) body"

section \<open>Walks preserve relations\<close>

text \<open>Two visitors are related below a size when their methods, on trees smaller than it, take related
  states to related states.  With equality for the relation they behave alike, with the graph of a
  function one simulates the other, and with a predicate they keep an invariant.\<close>

definition related :: "('s \<Rightarrow> 't \<Rightarrow> bool) \<Rightarrow> nat \<Rightarrow> 's visitor \<Rightarrow> 't visitor \<Rightarrow> bool" where
  "related R k v w \<longleftrightarrow>
     (\<forall>x. item_size x < k \<longrightarrow> rel_fun R R (visit_item v x) (visit_item w x)) \<and>
     (\<forall>x. fn_decl_size x < k \<longrightarrow> rel_fun R R (visit_fn_decl v x) (visit_fn_decl w x)) \<and>
     (\<forall>x. size x < k \<longrightarrow> rel_fun R R (visit_block v x) (visit_block w x)) \<and>
     (\<forall>x. stmt_size x < k \<longrightarrow> rel_fun R R (visit_stmt v x) (visit_stmt w x)) \<and>
     (\<forall>x. size x < k \<longrightarrow> rel_fun R R (visit_expr v x) (visit_expr w x)) \<and>
     (\<forall>x. rel_fun R R (visit_literal v x) (visit_literal w x))"

lemma relatedD:
  assumes "related R k v w"
  shows "item_size i < k \<Longrightarrow> rel_fun R R (visit_item v i) (visit_item w i)"
    and "fn_decl_size f < k \<Longrightarrow> rel_fun R R (visit_fn_decl v f) (visit_fn_decl w f)"
    and "size b < k \<Longrightarrow> rel_fun R R (visit_block v b) (visit_block w b)"
    and "stmt_size s < k \<Longrightarrow> rel_fun R R (visit_stmt v s) (visit_stmt w s)"
    and "size e < k \<Longrightarrow> rel_fun R R (visit_expr v e) (visit_expr w e)"
    and "rel_fun R R (visit_literal v l) (visit_literal w l)"
  using assms by (simp_all add: related_def)

lemma related_mono: "related R k v w \<Longrightarrow> j \<le> k \<Longrightarrow> related R j v w"
  by (simp add: related_def)

lemma rel_id: "rel_fun R R id id"
  by (simp add: rel_fun_def)

lemma rel_seq_Nil: "rel_fun R R (seq []) (seq [])"
  by (simp add: rel_fun_def)

lemma rel_seq_Cons:
  "rel_fun R R f g \<Longrightarrow> rel_fun R R (seq fs) (seq gs) \<Longrightarrow> rel_fun R R (seq (f # fs)) (seq (g # gs))"
  by (simp add: rel_fun_def)

lemmas rel_seq = rel_seq_Nil rel_seq_Cons

lemma rel_if_some:
  "(\<And>x. part = Some x \<Longrightarrow> rel_fun R R (f x) (g x)) \<Longrightarrow> rel_fun R R (if_some f part) (if_some g part)"
  by (cases part) (simp_all add: rel_id)

lemma rel_fold:
  "(\<And>x. x \<in> set xs \<Longrightarrow> rel_fun R R (f x) (g x)) \<Longrightarrow> rel_fun R R (fold f xs) (fold g xs)"
proof (induction xs)
  case Nil
  show ?case by (simp add: rel_fun_def)
next
  case (Cons x xs)
  then have "rel_fun R R (f x) (g x)" "rel_fun R R (fold f xs) (fold g xs)" by simp_all
  then show ?case by (simp add: rel_fun_def)
qed

lemmas rel_parts = rel_id rel_seq rel_if_some rel_fold

lemma rel_members:
  assumes rel: "related R k v w"
    and "size_list fn_decl_size methods \<le> k" "size_list (size_const_decl size) consts \<le> k"
  shows "rel_fun R R (walk_members v methods consts) (walk_members w methods consts)"
  unfolding walk_members_def
proof (intro rel_seq rel_fold)
  show "rel_fun R R (visit_fn_decl v f) (visit_fn_decl w f)" if "f \<in> set methods" for f
    using assms(2) size_list_less [OF that, of fn_decl_size] by (intro relatedD(2) [OF rel]) simp
  show "rel_fun R R (visit_expr v (cst_value c)) (visit_expr w (cst_value c))" if "c \<in> set consts" for c
    using assms(3) size_list_less [OF that, of "size_const_decl size"]
    by (intro relatedD(5) [OF rel]) (cases c, simp)
qed

lemma rel_walk_item:
  assumes rel: "related R k v w" and sz: "item_size i \<le> k"
  shows "rel_fun R R (walk_item v i) (walk_item w i)"
proof (cases i)
  case (ItemConst c)
  then show ?thesis using sz relatedD(5) [OF rel] by (cases c) simp
next
  case (ItemStruct d)
  then show ?thesis using sz rel_members [OF rel] by (cases d) simp
next
  case (ItemEnum d)
  then show ?thesis using sz rel_members [OF rel] by (cases d) simp
next
  case (ItemMethods d)
  then show ?thesis using sz rel_members [OF rel] by (cases d) simp
qed (use sz in \<open>simp_all add: relatedD [OF rel] rel_id\<close>)

lemma rel_walk_fn_decl:
  assumes "related R k v w" "fn_decl_size f \<le> k"
  shows "rel_fun R R (walk_fn_decl v f) (walk_fn_decl w f)"
  using assms(2) by (cases f) (simp add: walk_fn_decl_def relatedD(3) [OF assms(1)])

lemma rel_walk_option:
  assumes "related R k v w" "size_option size part \<le> k"
  shows "rel_fun R R (if_some (visit_expr v) part) (if_some (visit_expr w) part)"
  using assms(2) by (intro rel_if_some relatedD(5) [OF assms(1)]) simp

lemma rel_walk_stmt:
  assumes "related R k v w" "stmt_size s \<le> k"
  shows "rel_fun R R (walk_stmt v s) (walk_stmt w s)"
proof (cases s)
  case (StmtLet l)
  then show ?thesis using assms(2) rel_walk_option [OF assms(1)] by (cases l) simp
qed (use assms(2) in \<open>simp_all add: relatedD [OF assms(1)]\<close>)

lemma rel_walk_block:
  assumes "related R k v w" "size b \<le> k"
  shows "rel_fun R R (walk_block v b) (walk_block w b)"
  unfolding walk_block_def
proof (intro rel_seq rel_fold)
  show "rel_fun R R (visit_stmt v s) (visit_stmt w s)" if "s \<in> set (blk_stmts b)" for s
    using assms(2) size_list_less [OF that, of stmt_size] by (intro relatedD(4) [OF assms(1)]) (cases b, simp)
  show "rel_fun R R (if_some (visit_expr v) (blk_tail b)) (if_some (visit_expr w) (blk_tail b))"
    using assms(2) by (intro rel_walk_option [OF assms(1)]) (cases b, simp)
qed

lemma rel_walk_exprs:
  assumes "related R k v w" "size_list size es \<le> k"
  shows "rel_fun R R (fold (visit_expr v) es) (fold (visit_expr w) es)"
proof (rule rel_fold)
  show "rel_fun R R (visit_expr v e) (visit_expr w e)" if "e \<in> set es" for e
    using assms(2) size_list_less [OF that, of size] by (intro relatedD(5) [OF assms(1)]) simp
qed

lemma rel_walk_arms:
  assumes "related R k v w" "size_list (size_match_arm size) arms \<le> k"
  shows "rel_fun R R
    (fold (\<lambda>arm. seq [if_some (visit_expr v) (arm_guard arm), visit_expr v (arm_body arm)]) arms)
    (fold (\<lambda>arm. seq [if_some (visit_expr w) (arm_guard arm), visit_expr w (arm_body arm)]) arms)"
proof (intro rel_fold rel_seq)
  fix arm assume "arm \<in> set arms"
  then have "size_match_arm size arm < k" using assms(2) size_list_less [of arm arms "size_match_arm size"] by simp
  then have "size_option size (arm_guard arm) \<le> k" "size (arm_body arm) < k" by (cases arm; simp)+
  then show "rel_fun R R (if_some (visit_expr v) (arm_guard arm)) (if_some (visit_expr w) (arm_guard arm))"
    "rel_fun R R (visit_expr v (arm_body arm)) (visit_expr w (arm_body arm))"
    by (simp_all add: rel_walk_option [OF assms(1)] relatedD(5) [OF assms(1)])
qed

lemma rel_walk_select_arms:
  assumes "related R k v w" "size_list (size_select_arm size size) arms \<le> k"
  shows "rel_fun R R
    (fold (\<lambda>arm. seq [visit_expr v (sa_operation arm), visit_block v (sa_body arm)]) arms)
    (fold (\<lambda>arm. seq [visit_expr w (sa_operation arm), visit_block w (sa_body arm)]) arms)"
proof (intro rel_fold rel_seq)
  fix arm assume "arm \<in> set arms"
  then have "size_select_arm size size arm < k"
    using assms(2) size_list_less [of arm arms "size_select_arm size size"] by simp
  then have "size (sa_operation arm) < k" "size (sa_body arm) < k" by (cases arm; simp)+
  then show "rel_fun R R (visit_expr v (sa_operation arm)) (visit_expr w (sa_operation arm))"
    "rel_fun R R (visit_block v (sa_body arm)) (visit_block w (sa_body arm))"
    by (simp_all add: relatedD(3,5) [OF assms(1)])
qed

lemma rel_walk_fields:
  assumes "related R k v w" "size_list (size_prod (\<lambda>_. 0) size) fs \<le> k"
  shows "rel_fun R R (fold (\<lambda>f. visit_expr v (snd f)) fs) (fold (\<lambda>f. visit_expr w (snd f)) fs)"
proof (rule rel_fold)
  show "rel_fun R R (visit_expr v (snd f)) (visit_expr w (snd f))" if "f \<in> set fs" for f
    using assms(2) size_list_less [OF that, of "size_prod (\<lambda>_. 0) size"]
    by (intro relatedD(5) [OF assms(1)]) (cases f, simp)
qed

lemma rel_walk_expr:
  assumes rel: "related R k v w" and sz: "size e \<le> k"
  shows "rel_fun R R (walk_expr v e) (walk_expr w e)"
proof (cases e)
  case (ESelect arms dflt sp)
  show ?thesis
    unfolding ESelect walk_expr.simps
  proof (intro rel_seq rel_if_some)
    show "rel_fun R R (visit_block v b) (visit_block w b)" if "dflt = Some b" for b
      using sz ESelect that by (intro relatedD(3) [OF rel]) simp
    show "rel_fun R R
        (fold (\<lambda>arm. seq [visit_expr v (sa_operation arm), visit_block v (sa_body arm)]) arms)
        (fold (\<lambda>arm. seq [visit_expr w (sa_operation arm), visit_block w (sa_body arm)]) arms)"
      using sz ESelect by (intro rel_walk_select_arms [OF rel]) simp
  qed
next
  case (EQuote body sp)
  then show ?thesis using sz by (cases body) (simp_all add: relatedD [OF rel])
qed (use sz in \<open>simp_all add: relatedD [OF rel] rel_id rel_seq rel_walk_option [OF rel]
    rel_walk_exprs [OF rel] rel_walk_arms [OF rel] rel_walk_fields [OF rel]\<close>)

lemmas rel_walks = rel_walk_item rel_walk_fn_decl rel_walk_block rel_walk_stmt rel_walk_expr

section \<open>Tying the knot\<close>

text \<open>Two implementations of the trait are coupled when they turn related visitors into visitors related
  one size further: their methods call \<open>self\<close> only on parts of what they are given.\<close>

definition coupled :: "('s \<Rightarrow> 't \<Rightarrow> bool) \<Rightarrow> nat \<Rightarrow> ('s visitor \<Rightarrow> 's visitor) \<Rightarrow>
    ('t visitor \<Rightarrow> 't visitor) \<Rightarrow> bool" where
  "coupled R K impl impl' \<longleftrightarrow>
     (\<forall>k v w. k < K \<longrightarrow> related R k v w \<longrightarrow> related R (Suc k) (impl v) (impl' w)) \<and>
     (\<forall>v. visit_literal (impl v) = (\<lambda>_. id)) \<and> (\<forall>w. visit_literal (impl' w) = (\<lambda>_. id))"

lemma related_default:
  "related R k v w \<Longrightarrow> related R (Suc k) (default_visitor v) (default_visitor w)"
  by (subst related_def) (simp add: default_visitor_def rel_walks less_Suc_eq_le rel_id)

lemma knot_literal: "(\<And>v. visit_literal (impl v) = (\<lambda>_. id)) \<Longrightarrow> visit_literal (knot impl n) = (\<lambda>_. id)"
  by (cases n) (simp_all add: idle_visitor_def)

lemma knot_related:
  assumes "coupled R K impl impl'" "k \<le> K" "k \<le> m" "k \<le> n"
  shows "related R k (knot impl m) (knot impl' n)"
  using assms(2-4)
proof (induction k arbitrary: m n)
  case 0
  show ?case using assms(1) by (simp add: related_def coupled_def knot_literal rel_id)
next
  case (Suc k)
  then obtain m' n' where mn: "m = Suc m'" "n = Suc n'" by (metis Suc_le_D)
  with Suc have "related R k (knot impl m') (knot impl' n')" by simp
  then show ?case using assms(1) Suc.prems by (simp add: mn coupled_def)
qed

lemma rel_eq: "rel_fun (=) (=) f g \<longleftrightarrow> f = g"
  by (simp add: rel_fun_def fun_eq_iff)

text \<open>A depth above the size of the tree makes no difference.\<close>

lemma knot_enough:
  assumes "coupled (=) (min m n) impl impl"
  shows "item_size i < m \<Longrightarrow> item_size i < n \<Longrightarrow> visit_item (knot impl m) i = visit_item (knot impl n) i"
    and "size e < m \<Longrightarrow> size e < n \<Longrightarrow> visit_expr (knot impl m) e = visit_expr (knot impl n) e"
    and "size b < m \<Longrightarrow> size b < n \<Longrightarrow> visit_block (knot impl m) b = visit_block (knot impl n) b"
proof -
  have "related (=) (min m n) (knot impl m) (knot impl n)"
    by (rule knot_related [OF assms]) simp_all
  note rel = relatedD [OF this, unfolded rel_eq]
  show "item_size i < m \<Longrightarrow> item_size i < n \<Longrightarrow> visit_item (knot impl m) i = visit_item (knot impl n) i"
    "size e < m \<Longrightarrow> size e < n \<Longrightarrow> visit_expr (knot impl m) e = visit_expr (knot impl n) e"
    "size b < m \<Longrightarrow> size b < n \<Longrightarrow> visit_block (knot impl m) b = visit_block (knot impl n) b"
    by (simp_all add: rel)
qed

text \<open>Visiting a template with coupled implementations.\<close>

lemma rel_visit_quote:
  assumes "coupled R (quote_size body) impl impl'"
  shows "rel_fun R R (visit_quote (knot impl (quote_size body)) body)
    (visit_quote (knot impl' (quote_size body)) body)"
proof -
  have "related R (quote_size body) (knot impl (quote_size body)) (knot impl' (quote_size body))"
    by (rule knot_related [OF assms]) simp_all
  then show ?thesis by (cases body) (simp_all add: visit_quote_def relatedD)
qed

lemma rel_fold_parts:
  fixes ts :: "expr ty list"
  assumes IH: "\<And>t. t \<in> set ts \<Longrightarrow> (\<And>e. size e < size_ty size t \<Longrightarrow> Q e) \<Longrightarrow> rel_fun R R (F t) (G t)"
    and Q: "\<And>e. size (e :: expr) < k \<Longrightarrow> Q e" and k: "size_list (size_ty size) ts \<le> k"
  shows "rel_fun R R (fold F ts) (fold G ts)"
proof (intro rel_fold IH Q)
  show "size e < k" if "t \<in> set ts" "size e < size_ty size t" for t and e :: expr
    using that size_list_less [of t ts "size_ty size"] k by simp
qed

lemma rel_finder_ty:
  assumes "\<And>e. size e < size_ty size t \<Longrightarrow> rel_fun R R (f e) (g e)"
  shows "rel_fun R R (finder_ty f t) (finder_ty g t)"
  using assms
proof (induction t)
  case (TyGeneric path args sp)
  show ?case unfolding finder_ty.simps
    by (rule rel_fold_parts [OF TyGeneric.IH TyGeneric.prems], assumption+, simp)
next
  case (TyTuple args sp)
  show ?case unfolding finder_ty.simps
    by (rule rel_fold_parts [OF TyTuple.IH TyTuple.prems], assumption+, simp)
next
  case (TyFn ps rt ab un sp)
  have "rel_fun R R (fold (finder_ty f) ps) (fold (finder_ty g) ps)"
    by (rule rel_fold_parts [OF TyFn.IH(1) TyFn.prems], assumption+, simp)
  moreover have "rel_fun R R (case rt of Some t \<Rightarrow> finder_ty f t | None \<Rightarrow> id)
      (case rt of Some t \<Rightarrow> finder_ty g t | None \<Rightarrow> id)"
    using TyFn.IH(2) TyFn.prems by (cases rt) (auto simp: rel_id)
  ultimately show ?case unfolding finder_ty.simps by (intro rel_seq)
qed (simp_all add: rel_id)

lemma rel_finder_tys:
  fixes ts :: "expr ty list"
  assumes "\<And>e. size e < K \<Longrightarrow> rel_fun R R (f e) (g e)" "size_list (size_ty size) ts \<le> K"
  shows "rel_fun R R (fold (finder_ty f) ts) (fold (finder_ty g) ts)"
proof (intro rel_fold rel_finder_ty assms(1))
  fix t e assume "t \<in> set ts" "size (e :: expr) < size_ty size t"
  then show "size e < K" using size_list_less [of t ts "size_ty size"] assms(2) by simp
qed

lemma rel_finder_item:
  assumes rel: "related R k v w" and sz: "item_size i \<le> k"
    and f: "\<And>e. size e < K \<Longrightarrow> rel_fun R R (f e) (g e)" and "k \<le> K"
  shows "rel_fun R R (finder_item f v i) (finder_item g w i)"
  unfolding finder_item_def
proof (intro rel_seq rel_walk_item [OF rel sz])
  show "rel_fun R R (case i of ItemMethods b \<Rightarrow> finder_ty f (mb_target b) | _ \<Rightarrow> id)
      (case i of ItemMethods b \<Rightarrow> finder_ty g (mb_target b) | _ \<Rightarrow> id)"
  proof (cases i)
    case (ItemMethods b)
    have "rel_fun R R (finder_ty f (mb_target b)) (finder_ty g (mb_target b))"
      using sz ItemMethods assms(4) by (intro rel_finder_ty f) (cases b, simp)
    then show ?thesis by (simp add: ItemMethods)
  qed (simp_all add: rel_id)
qed

lemma rel_finder_fn_decl:
  assumes rel: "related R k v w" and sz: "fn_decl_size d \<le> k"
    and f: "\<And>e. size e < K \<Longrightarrow> rel_fun R R (f e) (g e)" and "k \<le> K"
  shows "rel_fun R R (finder_fn_decl f v d) (finder_fn_decl g w d)"
  unfolding finder_fn_decl_def
proof (intro rel_seq rel_walk_fn_decl [OF rel sz] rel_if_some rel_fold rel_finder_ty f)
  show "size e < K" if "fn_name_splice d = Some e" for e
    using that sz assms(4) by (cases d) simp
  show "size e < K" if "p \<in> set (fn_params d)" "size e < size_ty size (prm_ty p)" for p e
  proof -
    have "size_param size p < K"
      using that(1) sz assms(4) size_list_less [of p "fn_params d" "size_param size"] by (cases d) simp
    then show ?thesis using that(2) by (cases p) simp
  qed
  show "size e < K" if "fn_return_ty d = Some t" "size e < size_ty size t" for t e
    using that sz assms(4) by (cases d) simp
qed

lemma rel_finder_stmt:
  assumes rel: "related R k v w" and sz: "stmt_size st \<le> k"
    and f: "\<And>e. size e < K \<Longrightarrow> rel_fun R R (f e) (g e)" and "k \<le> K"
  shows "rel_fun R R (finder_stmt f v st) (finder_stmt g w st)"
  unfolding finder_stmt_def
proof (intro rel_seq rel_walk_stmt [OF rel sz])
  show "rel_fun R R (case st of StmtLet l \<Rightarrow> if_some (finder_ty f) (let_ty l) | _ \<Rightarrow> id)
      (case st of StmtLet l \<Rightarrow> if_some (finder_ty g) (let_ty l) | _ \<Rightarrow> id)"
  proof (cases st)
    case (StmtLet l)
    have "rel_fun R R (if_some (finder_ty f) (let_ty l)) (if_some (finder_ty g) (let_ty l))"
      using sz StmtLet assms(4) by (intro rel_if_some rel_finder_ty f) (cases l, simp)
    then show ?thesis by (simp add: StmtLet)
  qed (simp_all add: rel_id)
qed

lemma closure_tys_size:
  "size_list (size_ty size) (List.map_filter cp_ty ps) \<le> size_list (size_closure_param size) ps"
proof (induction ps)
  case (Cons p ps)
  then show ?case by (cases p; cases "cp_ty p") (auto simp: List.map_filter_simps)
qed (simp add: List.map_filter_simps)

lemma rel_finder_expr:
  assumes rel: "related R k v w" and sz: "size e \<le> k"
    and f: "\<And>e. size e < K \<Longrightarrow> rel_fun R R (f e) (g e)" and K: "k \<le> K"
  shows "rel_fun R R (finder_expr f v e) (finder_expr g w e)"
proof -
  note walk = rel_walk_expr [OF rel sz]
  have types: "rel_fun R R (finder_ty f t) (finder_ty g t)" if "size_ty size t < size e" for t
    using that sz K by (intro rel_finder_ty f) simp
  have lists: "rel_fun R R (fold (finder_ty f) ts) (fold (finder_ty g) ts)"
    if "size_list (size_ty size) ts < size e" for ts
    using that sz K by (intro rel_finder_tys [where K = K] f) simp_all
  show ?thesis
  proof (cases e)
    case (EClosure ps b sp)
    have "size_list (size_ty size) (List.map_filter cp_ty ps) < size e"
      using closure_tys_size [of ps] EClosure by simp
    then show ?thesis using walk EClosure by (auto simp: finder_expr_def intro!: rel_seq lists)
  qed (use walk in \<open>auto simp: finder_expr_def rel_id simp del: walk_expr.simps intro!: rel_seq types lists\<close>)
qed

lemma coupled_finder:
  assumes "\<And>e. size e < K \<Longrightarrow> rel_fun R R (f e) (g e)"
  shows "coupled R K (finder f) (finder g)"
proof -
  have "related R (Suc k) (finder f v) (finder g w)" if "related R k v w" "k < K" for k v w
    using related_default [OF that(1)] rel_finder_item [OF that(1) _ assms] rel_finder_stmt [OF that(1) _ assms]
      rel_finder_fn_decl [OF that(1) _ assms] rel_finder_expr [OF that(1) _ assms] that(2)
    by (subst related_def) (simp add: finder_def related_def less_Suc_eq_le)
  then show ?thesis by (simp add: coupled_def) (simp add: finder_def default_visitor_def)
qed

lemma rel_template_ty_splices:
  assumes "\<And>e. size e < quote_size body \<Longrightarrow> rel_fun R R (f e) (g e)"
  shows "rel_fun R R (visit_template_ty_splices body f) (visit_template_ty_splices body g)"
  unfolding visit_template_ty_splices_def by (rule rel_visit_quote [OF coupled_finder [OF assms]])

section \<open>The two walks see the same expressions\<close>

text \<open>A visitor that looks at every expression before walking into it, in both forms.\<close>

definition observer :: "(expr \<Rightarrow> 's \<Rightarrow> 's) \<Rightarrow> 's visitor \<Rightarrow> 's visitor" where
  "observer look self = (default_visitor self)\<lparr>visit_expr := (\<lambda>e. seq [look e, walk_expr self e])\<rparr>"

definition observer_mut :: "(expr \<Rightarrow> 's \<Rightarrow> 's) \<Rightarrow> 's mut_visitor \<Rightarrow> 's mut_visitor" where
  "observer_mut look self = \<lparr>visit_item_mut = walk_item_mut self,
     visit_expr_mut = (\<lambda>e s. walk_expr_mut self e (look e s))\<rparr>"

lemma coupled_observer: "coupled (=) K (observer look) (observer look)"
proof -
  have "related (=) (Suc k) (observer look v) (observer look w)" if "related (=) k v w" for k v w
    using related_default [OF that] rel_walk_expr [OF that]
    by (auto simp: related_def observer_def rel_eq less_Suc_eq_le)
  then show ?thesis by (simp add: coupled_def) (simp add: observer_def default_visitor_def)
qed

lemma size_list_member: "x \<in> set xs \<Longrightarrow> f x \<le> size_list f xs"
  using size_list_less [of x xs f] by simp

lemma each_mut_same:
  "(\<And>x s. x \<in> set xs \<Longrightarrow> f x s = (x, g x s)) \<Longrightarrow> each_mut f xs s = (xs, fold g xs s)"
  by (induction xs arbitrary: s) (simp_all add: Let_def)

lemma if_some_mut_same:
  "(\<And>x s. part = Some x \<Longrightarrow> f x s = (x, g x s)) \<Longrightarrow> if_some_mut f part s = (part, if_some g part s)"
  by (cases part) (simp_all add: if_some_mut_def Let_def)

text \<open>\<open>mirrors k m v\<close>: below size \<open>k\<close> the mutable visitor changes nothing and treats its state as
  \<open>v\<close> does, whose other methods are the plain walks.\<close>

definition mirrors :: "nat \<Rightarrow> 's mut_visitor \<Rightarrow> 's visitor \<Rightarrow> bool" where
  "mirrors k m v \<longleftrightarrow>
     (\<forall>e s. size e < k \<longrightarrow> visit_expr_mut m e s = (e, visit_expr v e s)) \<and>
     (\<forall>i s. item_size i < k \<longrightarrow> visit_item_mut m i s = (i, visit_item v i s)) \<and>
     (\<forall>b. size b < k \<longrightarrow> visit_block v b = walk_block v b) \<and>
     (\<forall>st. stmt_size st < k \<longrightarrow> visit_stmt v st = walk_stmt v st) \<and>
     (\<forall>f. fn_decl_size f < k \<longrightarrow> visit_fn_decl v f = walk_fn_decl v f)"

lemma mirrorsD:
  assumes "mirrors k m v"
  shows "size e < k \<Longrightarrow> visit_expr_mut m e s = (e, visit_expr v e s)"
    and "item_size i < k \<Longrightarrow> visit_item_mut m i s = (i, visit_item v i s)"
    and "size b < k \<Longrightarrow> visit_block v b = walk_block v b"
    and "stmt_size st < k \<Longrightarrow> visit_stmt v st = walk_stmt v st"
    and "fn_decl_size f < k \<Longrightarrow> visit_fn_decl v f = walk_fn_decl v f"
  using assms by (simp_all add: mirrors_def)

lemma mirrors_mono: "mirrors k m v \<Longrightarrow> j \<le> k \<Longrightarrow> mirrors j m v"
  by (simp add: mirrors_def)

lemma mirrors_option:
  assumes "mirrors k m v" "size_option size part < k"
  shows "if_some_mut (visit_expr_mut m) part s = (part, if_some (visit_expr v) part s)"
  using assms(2) by (intro if_some_mut_same) (simp add: mirrorsD [OF assms(1)])

lemma mirrors_exprs:
  assumes "mirrors k m v" "size_list size es < k"
  shows "each_mut (visit_expr_mut m) es s = (es, fold (visit_expr v) es s)"
proof (rule each_mut_same)
  fix e s assume "e \<in> set es"
  then show "visit_expr_mut m e s = (e, visit_expr v e s)"
    using assms(2) size_list_member [of e es size] by (simp add: mirrorsD [OF assms(1)])
qed

lemma mirrors_stmt:
  assumes "mirrors k m v" "stmt_size st < k"
  shows "walk_stmt_mut m st s = (st, visit_stmt v st s)"
proof (cases st)
  case (StmtLet l)
  then show ?thesis using assms(2)
    by (cases l) (simp add: walk_stmt_mut_def Let_def mirrorsD [OF assms(1)] mirrors_option [OF assms(1)])
qed (use assms(2) in \<open>simp_all add: walk_stmt_mut_def Let_def mirrorsD [OF assms(1)]\<close>)

lemma mirrors_block:
  assumes "mirrors k m v" "size b < k"
  shows "walk_block_mut m b s = (b, visit_block v b s)"
proof (cases b)
  case (Block stmts tail sp)
  have "each_mut (walk_stmt_mut m) stmts s = (stmts, fold (visit_stmt v) stmts s)"
  proof (rule each_mut_same)
    fix st s assume "st \<in> set stmts"
    then show "walk_stmt_mut m st s = (st, visit_stmt v st s)"
      using assms(2) Block size_list_member [of st stmts stmt_size] by (simp add: mirrors_stmt [OF assms(1)])
  qed
  then show ?thesis
    using assms(2) Block mirrorsD(3) [OF assms]
    by (simp add: walk_block_mut_def walk_block_def Let_def mirrors_option [OF assms(1)])
qed

lemma mirrors_method:
  assumes "mirrors k m v" "fn_decl_size f < k"
  shows "walk_method_mut m f s = (f, visit_fn_decl v f s)"
  using assms(2) mirrorsD(5) [OF assms]
  by (cases f) (simp add: walk_method_mut_def walk_fn_decl_def Let_def mirrors_block [OF assms(1)])

lemma mirrors_const:
  assumes "mirrors k m v" "size_const_decl size c < k"
  shows "walk_const_mut m c s = (c, visit_expr v (cst_value c) s)"
  using assms(2) by (cases c) (simp add: walk_const_mut_def Let_def mirrorsD [OF assms(1)])

lemma mirrors_methods:
  assumes "mirrors k m v" "size_list fn_decl_size ms < k"
  shows "each_mut (walk_method_mut m) ms s = (ms, fold (visit_fn_decl v) ms s)"
proof (rule each_mut_same)
  fix f s assume "f \<in> set ms"
  then show "walk_method_mut m f s = (f, visit_fn_decl v f s)"
    using assms(2) size_list_member [of f ms fn_decl_size] by (simp add: mirrors_method [OF assms(1)])
qed

lemma mirrors_consts:
  assumes "mirrors k m v" "size_list (size_const_decl size) cs < k"
  shows "each_mut (walk_const_mut m) cs s = (cs, fold (\<lambda>c. visit_expr v (cst_value c)) cs s)"
proof (rule each_mut_same)
  fix c s assume "c \<in> set cs"
  then show "walk_const_mut m c s = (c, visit_expr v (cst_value c) s)"
    using assms(2) size_list_member [of c cs "size_const_decl size"] by (simp add: mirrors_const [OF assms(1)])
qed

lemmas mirrors_members = mirrors_method mirrors_const mirrors_methods mirrors_consts

lemma mirrors_item:
  assumes "mirrors (item_size i) m v"
  shows "walk_item_mut m i s = (i, walk_item v i s)"
proof (cases i)
  case (ItemStruct d)
  then show ?thesis
    by (cases d) (simp add: walk_item_mut_def walk_members_def Let_def mirrors_members [OF assms])
next
  case (ItemEnum d)
  then show ?thesis
    by (cases d) (simp add: walk_item_mut_def walk_members_def Let_def mirrors_members [OF assms])
next
  case (ItemMethods d)
  then show ?thesis
    by (cases d) (simp add: walk_item_mut_def walk_members_def Let_def mirrors_members [OF assms])
qed (simp_all add: walk_item_mut_def Let_def mirrors_members [OF assms])

lemma mirrors_arms:
  assumes "mirrors k m v" "size_list (size_match_arm size) arms < k"
  shows "each_mut (walk_arm_mut m) arms s = (arms,
    fold (\<lambda>arm. seq [if_some (visit_expr v) (arm_guard arm), visit_expr v (arm_body arm)]) arms s)"
proof (rule each_mut_same)
  fix arm s assume "arm \<in> set arms"
  then have "size_match_arm size arm < k"
    using assms(2) size_list_member [of arm arms "size_match_arm size"] by simp
  then show "walk_arm_mut m arm s =
      (arm, (seq [if_some (visit_expr v) (arm_guard arm), visit_expr v (arm_body arm)]) s)"
    by (cases arm) (simp add: walk_arm_mut_def Let_def mirrors_option [OF assms(1)] mirrorsD [OF assms(1)])
qed

lemma mirrors_select_arms:
  assumes "mirrors k m v" "size_list (size_select_arm size size) arms < k"
  shows "each_mut (walk_select_arm_mut m) arms s = (arms,
    fold (\<lambda>arm. seq [visit_expr v (sa_operation arm), visit_block v (sa_body arm)]) arms s)"
proof (rule each_mut_same)
  fix arm s assume "arm \<in> set arms"
  then have "size_select_arm size size arm < k"
    using assms(2) size_list_member [of arm arms "size_select_arm size size"] by simp
  then show "walk_select_arm_mut m arm s =
      (arm, (seq [visit_expr v (sa_operation arm), visit_block v (sa_body arm)]) s)"
    by (cases arm) (simp add: walk_select_arm_mut_def Let_def mirrors_block [OF assms(1)]
        mirrorsD(1,2) [OF assms(1)])
qed

lemma mirrors_fields:
  assumes "mirrors k m v" "size_list (size_prod (\<lambda>_. 0) size) fs < k"
  shows "each_mut (walk_field_mut m) fs s = (fs, fold (\<lambda>f. visit_expr v (snd f)) fs s)"
proof (rule each_mut_same)
  fix f s assume "f \<in> set fs"
  then have "size_prod (\<lambda>_. 0) size f < k"
    using assms(2) size_list_member [of f fs "size_prod (\<lambda>_. 0) size"] by simp
  then show "walk_field_mut m f s = (f, visit_expr v (snd f) s)"
    by (cases f) (simp add: walk_field_mut_def Let_def mirrorsD [OF assms(1)])
qed

lemma mirrors_expr:
  assumes "mirrors (size e) m v" "visit_literal v = (\<lambda>_. id)"
  shows "walk_expr_mut m e s = (e, walk_expr v e s)"
proof (cases e)
  case (EQuote body sp)
  then show ?thesis by (cases body) (simp_all add: Let_def mirrorsD(1,2) [OF assms(1)])
next
  case (ESelect arms dflt sp)
  then have "if_some_mut (walk_block_mut m) dflt s = (dflt, if_some (visit_block v) dflt s)" for s
    by (intro if_some_mut_same) (simp add: mirrors_block [OF assms(1)])
  then show ?thesis using ESelect by (simp add: Let_def mirrors_select_arms [OF assms(1)])
qed (simp_all add: assms(2) Let_def mirrorsD(1,2) [OF assms(1)] mirrors_block [OF assms(1)]
    mirrors_option [OF assms(1)] mirrors_exprs [OF assms(1)] mirrors_arms [OF assms(1)]
    mirrors_fields [OF assms(1)])

lemma observer_fixed:
  fixes look :: "expr \<Rightarrow> 's \<Rightarrow> 's" and K :: nat
  defines "v \<equiv> knot (observer look) K"
  shows "related (=) K v (observer look v)" "visit_literal v = (\<lambda>_. id)"
proof -
  show "related (=) K v (observer look v)"
    using knot_related [OF coupled_observer, of K K K "Suc K" look] by (simp add: v_def)
  show "visit_literal v = (\<lambda>_. id)"
    by (cases K) (simp_all add: v_def idle_visitor_def observer_def default_visitor_def)
qed

lemma observer_mirrors:
  fixes look :: "expr \<Rightarrow> 's \<Rightarrow> 's"
  assumes "k \<le> n" "k \<le> K"
  shows "mirrors k (knot_mut (observer_mut look) n) (knot (observer look) K)"
  using assms
proof (induction k arbitrary: n)
  case 0
  show ?case by (simp add: mirrors_def)
next
  case (Suc k)
  let ?v = "knot (observer look) K"
  obtain n' where n: "n = Suc n'" "k \<le> n'" using Suc.prems by (metis Suc_le_D Suc_le_mono)
  let ?m = "knot_mut (observer_mut look) n'"
  have mir: "mirrors k ?m ?v" using Suc.IH [OF n(2)] Suc.prems by simp
  note fixed = relatedD [OF observer_fixed(1) [of K look], unfolded rel_eq]
  have expr: "visit_expr_mut (observer_mut look ?m) e s = (e, visit_expr ?v e s)" if "size e < Suc k" for e s
    using that Suc.prems mirrors_expr [OF mirrors_mono [OF mir] observer_fixed(2), of e]
    by (simp add: observer_mut_def fixed(5)) (simp add: observer_def)
  have item: "visit_item_mut (observer_mut look ?m) i s = (i, visit_item ?v i s)" if "item_size i < Suc k" for i s
    using that Suc.prems mirrors_item [OF mirrors_mono [OF mir], of i]
    by (simp add: observer_mut_def fixed(1)) (simp add: observer_def default_visitor_def)
  show ?case
    unfolding n(1) knot_mut.simps mirrors_def using expr item Suc.prems
    by (auto simp: fixed(2-4)) (simp_all add: observer_def default_visitor_def)
qed

text \<open>C26: the two visitor traits walk alike. A visitor that looks at every expression it meets sees
  the same expressions in the same order through \<open>Visit\<close> and through \<open>MutVisit\<close>, and the mutable
  walk of a module changes nothing the visitor does not change; any recursion depth above the size
  of the module will do.\<close>

theorem walks_agree:
  assumes "module_size m \<le> n" "module_size m \<le> k"
  shows "walk_module_mut (knot_mut (observer_mut look) n) m s =
    (m, walk_module (knot (observer look) k) m s)"
proof (cases m)
  case (Module nm items sp)
  have "each_mut (visit_item_mut (knot_mut (observer_mut look) n)) items s =
      (items, fold (visit_item (knot (observer look) k)) items s)"
  proof (rule each_mut_same)
    fix i s assume "i \<in> set items"
    then have "item_size i < module_size m" using Module size_list_less [of i items item_size] by simp
    then show "visit_item_mut (knot_mut (observer_mut look) n) i s =
        (i, visit_item (knot (observer look) k) i s)"
      by (rule mirrorsD(2) [OF observer_mirrors [OF assms]])
  qed
  then show ?thesis using Module by (simp add: walk_module_mut_def walk_module_def Let_def)
qed

text \<open>A constant with a nested sum, and the two walks of it.\<close>

definition demo_span :: span where "demo_span = span_new_root 0 1"

definition demo_module :: module where
  "demo_module = Module None [ItemConst (ConstDecl ''N'' (TyPath [''int''] demo_span)
     (EBinary OpAdd (ELiteral (LitInt 1) demo_span) (EIdent ''M'' demo_span) demo_span)
     False demo_span)] demo_span"

theorem walks_agree_witness:
  "snd (walk_module_mut (knot_mut (observer_mut (\<lambda>e es. es @ [e])) 9) demo_module []) =
   [EBinary OpAdd (ELiteral (LitInt 1) demo_span) (EIdent ''M'' demo_span) demo_span,
    ELiteral (LitInt 1) demo_span, EIdent ''M'' demo_span]"
proof -
  have "walk_module (knot (observer (\<lambda>e es. es @ [e])) 6) demo_module [] =
     [EBinary OpAdd (ELiteral (LitInt 1) demo_span) (EIdent ''M'' demo_span) demo_span,
      ELiteral (LitInt 1) demo_span, EIdent ''M'' demo_span]"
    by (simp add: demo_module_def walk_module_def eval_nat_numeral observer_def default_visitor_def
        idle_visitor_def)
  moreover have "walk_module_mut (knot_mut (observer_mut (\<lambda>e es. es @ [e])) 9) demo_module [] =
      (demo_module, walk_module (knot (observer (\<lambda>e es. es @ [e])) 6) demo_module [])"
    by (rule walks_agree) (simp_all add: demo_module_def)
  ultimately show ?thesis by simp
qed

end
