(* ===== verification/Diag.thy ===== *)
theory Diag
  imports Span "HOL-Library.Multiset"
begin

text \<open>
  The crate \<open>paco-diag\<close> (\<open>compiler/paco-diag/src/lib.rs\<close>): diagnostics with labels, notes,
  suggestions and ranked fixes, the reporter that collects them, and their rendering as text and
  as one JSON object per line. The rendering resolves spans through the source map of theory
  \<open>Span\<close>.
\<close>

section \<open>Diagnostics\<close>

datatype severity = SevError | SevWarning | SevNote | SevHelp

fun severity_as_str :: "severity \<Rightarrow> string" where
  "severity_as_str SevError = ''error''"
| "severity_as_str SevWarning = ''warning''"
| "severity_as_str SevNote = ''note''"
| "severity_as_str SevHelp = ''help''"

record label =
  label_span :: span
  label_message :: string

record suggestion =
  sug_span :: span
  sug_replacement :: string
  sug_message :: string

record edit =
  edit_span :: span
  edit_replacement :: string

record fix_t =
  fix_title :: string
  fix_edits :: "edit list"

definition MAX_FIXES :: nat where "MAX_FIXES = 2"

record diagnostic =
  diag_code :: string
  diag_severity :: severity
  diag_primary :: label
  diag_secondary :: "label list"
  diag_notes :: "string list"
  diag_suggestion :: "suggestion option"
  diag_fixes :: "fix_t list"

definition label_new :: "span \<Rightarrow> string \<Rightarrow> label" where
  "label_new sp msg = \<lparr>label_span = sp, label_message = msg\<rparr>"

definition suggestion_new :: "span \<Rightarrow> string \<Rightarrow> string \<Rightarrow> suggestion" where
  "suggestion_new sp replacement msg =
     \<lparr>sug_span = sp, sug_replacement = replacement, sug_message = msg\<rparr>"

definition edit_new :: "span \<Rightarrow> string \<Rightarrow> edit" where
  "edit_new sp replacement = \<lparr>edit_span = sp, edit_replacement = replacement\<rparr>"

definition diagnostic_new :: "string \<Rightarrow> severity \<Rightarrow> span \<Rightarrow> string \<Rightarrow> diagnostic" where
  "diagnostic_new code sev sp msg =
     \<lparr>diag_code = code, diag_severity = sev, diag_primary = label_new sp msg,
      diag_secondary = [], diag_notes = [], diag_suggestion = None, diag_fixes = []\<rparr>"

definition diagnostic_error :: "string \<Rightarrow> span \<Rightarrow> string \<Rightarrow> diagnostic" where
  "diagnostic_error code sp msg = diagnostic_new code SevError sp msg"

definition with_fix :: "string \<Rightarrow> edit list \<Rightarrow> diagnostic \<Rightarrow> diagnostic" where
  "with_fix title edits d =
     (if length (diag_fixes d) < MAX_FIXES
      then d\<lparr>diag_fixes := diag_fixes d @ [\<lparr>fix_title = title, fix_edits = edits\<rparr>]\<rparr> else d)"

definition set_message :: "string \<Rightarrow> diagnostic \<Rightarrow> diagnostic" where
  "set_message msg d = d\<lparr>diag_primary := (diag_primary d)\<lparr>label_message := msg\<rparr>\<rparr>"

definition with_secondary :: "span \<Rightarrow> string \<Rightarrow> diagnostic \<Rightarrow> diagnostic" where
  "with_secondary sp msg d = d\<lparr>diag_secondary := diag_secondary d @ [label_new sp msg]\<rparr>"

definition with_note :: "string \<Rightarrow> diagnostic \<Rightarrow> diagnostic" where
  "with_note note d = d\<lparr>diag_notes := diag_notes d @ [note]\<rparr>"

definition with_suggestion :: "suggestion \<Rightarrow> diagnostic \<Rightarrow> diagnostic" where
  "with_suggestion s d = d\<lparr>diag_suggestion := Some s\<rparr>"

section \<open>Reporter\<close>

record reporter =
  rep_diagnostics :: "diagnostic list"

definition reporter_new :: reporter where
  "reporter_new = \<lparr>rep_diagnostics = []\<rparr>"

definition report :: "diagnostic \<Rightarrow> reporter \<Rightarrow> reporter" where
  "report d r = r\<lparr>rep_diagnostics := rep_diagnostics r @ [d]\<rparr>"

definition has_errors :: "reporter \<Rightarrow> bool" where
  "has_errors r = list_ex (\<lambda>d. diag_severity d = SevError) (rep_diagnostics r)"

definition diag_key :: "diagnostic \<Rightarrow> file_id \<times> nat \<times> nat \<times> string" where
  "diag_key d = (let sp = label_span (diag_primary d) in
     (span_file_id sp, span_start sp, span_end sp, diag_code d))"

text \<open>\<open>sort_by_key\<close>, a stable sort.\<close>

definition rep_sorted :: "reporter \<Rightarrow> diagnostic list" where
  "rep_sorted r = sort_key diag_key (rep_diagnostics r)"

section \<open>JSON\<close>

abbreviation dquote :: char where "dquote \<equiv> CHR 0x22"
abbreviation backslash :: char where "backslash \<equiv> CHR 0x5C"
abbreviation linefeed :: char where "linefeed \<equiv> CHR 0x0A"

definition hex_digit :: "nat \<Rightarrow> char" where
  "hex_digit d = (if d < 10 then char_of (48 + d) else char_of (87 + d))"

text \<open>One character of \<open>json_string\<close>; a control character is printed as \<open>\u{:04x}\<close>.\<close>

definition json_escape :: "rchar \<Rightarrow> string" where
  "json_escape c =
     (if c = [dquote] then [backslash, dquote]
      else if c = [backslash] then [backslash, backslash]
      else if c = [linefeed] then [backslash, CHR ''n'']
      else if c = [CHR 0x0D] then [backslash, CHR ''r'']
      else if c = [CHR 0x09] then [backslash, CHR ''t'']
      else (case c of
              [b] \<Rightarrow> (let n = (of_char b :: nat) in
                      if n < 32 then [backslash, CHR ''u'', CHR ''0'', CHR ''0'',
                                      hex_digit (n div 16), hex_digit (n mod 16)]
                      else c)
            | _ \<Rightarrow> c))"

definition json_string :: "string \<Rightarrow> string" where
  "json_string s = [dquote] @ concat (map json_escape (chars s)) @ [dquote]"

text \<open>\<open>"key":\<close>, the key being a literal of the source.\<close>

definition json_key :: "string \<Rightarrow> string" where
  "json_key k = [dquote] @ k @ [dquote] @ '':''"

text \<open>\<open>parts.join(",")\<close>\<close>

fun join_comma :: "string list \<Rightarrow> string" where
  "join_comma [] = []"
| "join_comma [x] = x"
| "join_comma (x # y # ys) = x @ '','' @ join_comma (y # ys)"

definition json_location :: "source_map \<Rightarrow> span \<Rightarrow> string" where
  "json_location m sp = (case location_of m sp of
     Inr loc \<Rightarrow> json_key ''file'' @ json_string (loc_file_name loc) @ '','' @
       json_key ''line'' @ nat_string (lc_line (loc_start loc)) @ '','' @
       json_key ''column'' @ nat_string (lc_column (loc_start loc))
   | Inl _ \<Rightarrow> json_key ''file'' @ ''null,'' @ json_key ''line'' @ ''null,'' @
       json_key ''column'' @ ''null'')"

definition json_message :: "source_map \<Rightarrow> string \<Rightarrow> span \<Rightarrow> string" where
  "json_message m msg sp =
     ''{'' @ json_key ''message'' @ json_string msg @ '','' @ json_location m sp @ ''}''"

definition json_edit :: "source_map \<Rightarrow> edit \<Rightarrow> string" where
  "json_edit m e =
     (let file = (case file_name m (span_file_id (edit_span e)) of
                    None \<Rightarrow> ''null'' | Some name \<Rightarrow> json_string name)
      in ''{'' @ json_key ''file'' @ file @ '','' @
         json_key ''start'' @ nat_string (span_start (edit_span e)) @ '','' @
         json_key ''end'' @ nat_string (span_end (edit_span e)) @ '','' @
         json_key ''replacement'' @ json_string (edit_replacement e) @ ''}'')"

definition json_fix :: "source_map \<Rightarrow> nat \<Rightarrow> fix_t \<Rightarrow> string" where
  "json_fix m index f =
     ''{'' @ json_key ''rank'' @ nat_string (index + 1) @ '','' @
     json_key ''title'' @ json_string (fix_title f) @ '','' @
     json_key ''edits'' @ ''['' @ join_comma (map (json_edit m) (fix_edits f)) @ '']}''"

definition render_json :: "source_map \<Rightarrow> diagnostic \<Rightarrow> string" where
  "render_json m d =
     (let notes = map (\<lambda>l. json_message m (label_message l) (label_span l)) (diag_secondary d)
            @ map (\<lambda>note. json_message m note (label_span (diag_primary d))) (diag_notes d);
          fixes' = map (\<lambda>(index, f). json_fix m index f) (enumerate 0 (diag_fixes d))
      in ''{'' @ json_key ''code'' @ json_string (diag_code d) @ '','' @
         json_key ''severity'' @ json_string (severity_as_str (diag_severity d)) @ '','' @
         json_key ''message'' @ json_string (label_message (diag_primary d)) @ '','' @
         json_location m (label_span (diag_primary d)) @ '','' @
         json_key ''notes'' @ ''['' @ join_comma notes @ ''],'' @
         json_key ''fixes'' @ ''['' @ join_comma fixes' @ '']}'' @ [linefeed])"

definition emit_json :: "source_map \<Rightarrow> reporter \<Rightarrow> string" where
  "emit_json m r = concat (map (render_json m) (rep_sorted r))"

section \<open>Text\<close>

definition render_diagnostic :: "source_map \<Rightarrow> diagnostic \<Rightarrow> string" where
  "render_diagnostic m d =
     severity_as_str (diag_severity d) @ ''['' @ diag_code d @ '']'' @
     (case location_of m (label_span (diag_primary d)) of
        Inl _ \<Rightarrow> []
      | Inr loc \<Rightarrow> '' '' @ loc_file_name loc @ '':'' @ nat_string (lc_line (loc_start loc)) @
          '':'' @ nat_string (lc_column (loc_start loc))) @
     '': '' @ label_message (diag_primary d) @ [linefeed] @
     concat (map (\<lambda>l. case location_of m (label_span l) of
        Inl _ \<Rightarrow> []
      | Inr loc \<Rightarrow> ''  note at '' @ loc_file_name loc @ '':'' @
          nat_string (lc_line (loc_start loc)) @ '':'' @
          nat_string (lc_column (loc_start loc)) @ '': '' @ label_message l @ [linefeed])
        (diag_secondary d)) @
     concat (map (\<lambda>note. ''  note: '' @ note @ [linefeed]) (diag_notes d)) @
     (case diag_suggestion d of None \<Rightarrow> []
      | Some s \<Rightarrow> ''  help: '' @ sug_message s @ '' -> '' @ [CHR 0x60] @ sug_replacement s @
          [CHR 0x60, linefeed]) @
     concat (map (\<lambda>(index, f). ''  fix '' @ nat_string (index + 1) @ '': '' @ fix_title f @ [linefeed])
        (enumerate 0 (diag_fixes d)))"

definition emit_to_string :: "source_map \<Rightarrow> reporter \<Rightarrow> string" where
  "emit_to_string m r = concat (map (render_diagnostic m) (rep_sorted r))"

section \<open>Properties\<close>

subsection \<open>Fixes and order\<close>

lemma fold_with_fix:
  "diag_fixes (fold (\<lambda>f. with_fix (fix_title f) (fix_edits f)) fs d) =
     diag_fixes d @ take (MAX_FIXES - length (diag_fixes d)) fs"
proof (induction fs arbitrary: d)
  case (Cons f fs)
  show ?case
  proof (cases "length (diag_fixes d) < MAX_FIXES")
    case True
    then have "MAX_FIXES - length (diag_fixes d) = Suc (MAX_FIXES - Suc (length (diag_fixes d)))" by simp
    then show ?thesis using True Cons.IH [of "with_fix (fix_title f) (fix_edits f) d"]
      by (simp add: with_fix_def)
  next
    case False
    then show ?thesis using Cons.IH [of d] by (simp add: with_fix_def)
  qed
qed simp

text \<open>A diagnostic ranks at most two fixes. Whatever fixes are offered to a fresh diagnostic,
  it keeps the first two, in the order they were offered, and drops the rest.\<close>

theorem diagnostic_keeps_two_fixes:
  "diag_fixes (fold (\<lambda>f. with_fix (fix_title f) (fix_edits f)) fs (diagnostic_new code sev sp msg))
     = take 2 fs"
  by (simp add: fold_with_fix diagnostic_new_def MAX_FIXES_def)

text \<open>Diagnostics are emitted in a fixed order. The emitted sequence is a permutation of the
  reported one, ordered by file, start, end and code, and two diagnostics with the same key keep
  the order in which they were reported.\<close>

theorem rep_sorted_stable:
  "mset (rep_sorted r) = mset (rep_diagnostics r) \<and> sorted (map diag_key (rep_sorted r)) \<and>
   (\<forall>k. filter (\<lambda>d. diag_key d = k) (rep_sorted r) = filter (\<lambda>d. diag_key d = k) (rep_diagnostics r))"
  by (simp add: rep_sorted_def sort_key_stable)

subsection \<open>JSON strings\<close>

text \<open>A reader for JSON strings, the reference the printer is measured against: it consumes the
  text after an opening quote up to the closing one and returns the decoded bytes and the rest.\<close>

definition hex_value :: "char \<Rightarrow> nat" where
  "hex_value c = (let n = (of_char c :: nat) in if n < 58 then n - 48 else n - 87)"

definition unescape_char :: "char \<Rightarrow> char option" where
  "unescape_char e = (if e = dquote \<or> e = backslash \<or> e = CHR ''/'' then Some e
     else if e = CHR ''n'' then Some linefeed else if e = CHR ''r'' then Some (CHR 0x0D)
     else if e = CHR ''t'' then Some (CHR 0x09) else None)"

definition prepend :: "string \<Rightarrow> (string \<times> string) option \<Rightarrow> (string \<times> string) option" where
  "prepend c = map_option (\<lambda>(s, t). (c @ s, t))"

lemma prepend_simps [simp]:
  "prepend [] x = x" "prepend c (prepend d x) = prepend (c @ d) x"
  "prepend c (Some (s, t)) = Some (c @ s, t)" "prepend c None = None"
  by (cases x; auto simp: prepend_def)+

fun json_read :: "string \<Rightarrow> (string \<times> string) option" where
  "json_read [] = None"
| "json_read (b # r) =
     (if b = dquote then Some ([], r)
      else if b = backslash then
        (case r of [] \<Rightarrow> None
         | e # r1 \<Rightarrow>
            if e = CHR ''u'' then
              (case r1 of
                 h3 # h2 # h1 # h0 # r2 \<Rightarrow>
                   if h3 = CHR ''0'' \<and> h2 = CHR ''0''
                   then prepend [char_of (16 * hex_value h1 + hex_value h0)] (json_read r2)
                   else None
               | _ \<Rightarrow> None)
            else (case unescape_char e of None \<Rightarrow> None
                  | Some c \<Rightarrow> prepend [c] (json_read r1)))
      else prepend [b] (json_read r))"

lemma hex_value_digit: "d < 16 \<Longrightarrow> hex_value (hex_digit d) = d"
  by (auto simp: hex_value_def hex_digit_def)

lemma json_read_plain:
  assumes "\<forall>b \<in> set c. b \<noteq> dquote \<and> b \<noteq> backslash"
  shows "json_read (c @ r) = prepend c (json_read r)"
  using assms
  by (induction c) simp_all

lemma wf_char_high:
  assumes "wf_char c" "length c \<noteq> 1" "b \<in> set c"
  shows "128 \<le> (of_char b :: nat)"
proof -
  obtain d ds where c: "c = d # ds" "\<not> is_continuation d" "length c = utf8_width d"
      "list_all is_continuation ds"
    using assms(1) by (auto simp: wf_char_def split: list.splits)
  have "128 \<le> (of_char d :: nat)"
    using assms(2) c by (auto simp: utf8_width_def Let_def split: if_splits)
  with c assms(3) show ?thesis
    by (auto simp: list_all_iff is_continuation_def Let_def)
qed

lemma wf_char_cases:
  assumes "wf_char c"
  obtains (single) b where "c = [b]"
    | (multi) "length c \<noteq> 1" "\<forall>b \<in> set c. 128 \<le> (of_char b :: nat)"
proof (cases "length c = 1")
  case True
  then show ?thesis using single by (metis One_nat_def length_0_conv length_Suc_conv)
next
  case False
  then show ?thesis using multi wf_char_high [OF assms] by blast
qed

lemma json_escape_multi:
  assumes "length c \<noteq> 1"
  shows "json_escape c = c"
  using assms by (cases c rule: list.exhaust; cases "tl c") (auto simp: json_escape_def)

lemma json_read_escape:
  assumes "wf_char c"
  shows "json_read (json_escape c @ r) = prepend c (json_read r)"
  using assms
proof (cases rule: wf_char_cases)
  case (single b)
  show ?thesis
  proof (cases "b \<in> {dquote, backslash, linefeed, CHR 0x0D, CHR 0x09}")
    case True
    then show ?thesis
      unfolding single by (auto simp: json_escape_def unescape_char_def)
  next
    case False
    have "of_char b < (32 :: nat) \<Longrightarrow>
        char_of (16 * hex_value (hex_digit (of_char b div 16)) + hex_value (hex_digit (of_char b mod 16))) = b"
      by (simp add: hex_value_digit)
    with False show ?thesis
      unfolding single by (simp add: json_escape_def Let_def)
  qed
next
  case multi
  have "\<forall>b \<in> set c. b \<noteq> dquote \<and> b \<noteq> backslash" using multi(2) by fastforce
  then show ?thesis
    using json_read_plain multi(1) by (simp add: json_escape_multi)
qed

lemma json_read_chars:
  "list_all wf_char cs \<Longrightarrow>
     json_read (concat (map json_escape cs) @ dquote # r) = Some (concat cs, r)"
  by (induction cs) (simp_all add: json_read_escape)



subsection \<open>One line per diagnostic\<close>

text \<open>The \<open>String\<close>s a rendering prints are valid UTF-8, as every Rust \<open>String\<close> is.\<close>

definition diag_strings :: "diagnostic \<Rightarrow> string list" where
  "diag_strings d = [diag_code d, label_message (diag_primary d)] @
     map label_message (diag_secondary d) @ diag_notes d @ map fix_title (diag_fixes d) @
     concat (map (map edit_replacement \<circ> fix_edits) (diag_fixes d))"

definition source_map_valid :: "source_map \<Rightarrow> bool" where
  "source_map_valid m \<longleftrightarrow> list_all (\<lambda>f. valid_utf8 (sf_name f)) (sm_files m)"

definition reporter_valid :: "reporter \<Rightarrow> bool" where
  "reporter_valid r \<longleftrightarrow> list_all (\<lambda>d. list_all valid_utf8 (diag_strings d)) (rep_diagnostics r)"

lemma hex_digit_not_linefeed: "d < 16 \<Longrightarrow> linefeed \<noteq> hex_digit d"
  by (auto simp: hex_digit_def dest!: arg_cong [where f = "of_char :: char \<Rightarrow> nat"])

lemma json_escape_line: "wf_char c \<Longrightarrow> linefeed \<notin> set (json_escape c)"
proof (cases rule: wf_char_cases [of c], assumption)
  fix b assume "c = [b]"
  then show ?thesis
    using hex_digit_not_linefeed [of "of_char b div 16"] hex_digit_not_linefeed [of "of_char b mod 16"]
    by (simp add: json_escape_def Let_def)
next
  assume "length c \<noteq> 1" "\<forall>b \<in> set c. 128 \<le> (of_char b :: nat)"
  then show ?thesis by (auto simp: json_escape_multi)
qed

lemma json_string_line: "valid_utf8 s \<Longrightarrow> linefeed \<notin> set (json_string s)"
  using json_escape_line by (auto simp: json_string_def valid_utf8_def list_all_iff)

lemma nat_string_line: "linefeed \<notin> set (nat_string n)"
proof (induction n rule: nat_string.induct)
  case (1 n)
  have digit: "linefeed \<noteq> digit_char d" if "d < 10" for d
    using that by (auto simp: digit_char_def dest!: arg_cong [where f = "of_char :: char \<Rightarrow> nat"])
  show ?case
    using "1" digit [of n] digit [of "n mod 10"] by (subst nat_string.simps) simp
qed

lemma join_comma_line:
  "list_all (\<lambda>s. linefeed \<notin> set s) xs \<Longrightarrow> linefeed \<notin> set (join_comma xs)"
  by (induction xs rule: join_comma.induct) auto

lemma json_location_line: "source_map_valid m \<Longrightarrow> linefeed \<notin> set (json_location m sp)"
  by (auto simp: json_location_def json_key_def json_string_line nat_string_line location_of_def
      source_map_valid_def vec_get_def list_all_length Let_def split: sum.splits option.splits if_splits)

lemmas line_simps = json_key_def json_string_line nat_string_line json_location_line

lemma json_message_line:
  "source_map_valid m \<Longrightarrow> valid_utf8 msg \<Longrightarrow> linefeed \<notin> set (json_message m msg sp)"
  by (simp add: json_message_def line_simps)

lemma json_edit_line:
  "source_map_valid m \<Longrightarrow> valid_utf8 (edit_replacement e) \<Longrightarrow> linefeed \<notin> set (json_edit m e)"
  by (auto simp: json_edit_def line_simps file_name_def vec_get_def source_map_valid_def
      list_all_length Let_def split: option.splits if_splits)

lemma json_fix_line:
  assumes "source_map_valid m" "valid_utf8 (fix_title f)" "list_all (valid_utf8 \<circ> edit_replacement) (fix_edits f)"
  shows "linefeed \<notin> set (json_fix m index f)"
  using assms by (auto simp: json_fix_def line_simps list_all_iff json_edit_line intro!: join_comma_line)

lemma severity_valid: "valid_utf8 (severity_as_str s)"
  by (cases s) (simp_all add: utf8_eval)

lemma render_json_line:
  assumes "source_map_valid m" "list_all valid_utf8 (diag_strings d)"
  shows "\<exists>line. render_json m d = line @ [linefeed] \<and> linefeed \<notin> set line"
proof -
  have ns: "list_all (\<lambda>s. linefeed \<notin> set s)
      (map (\<lambda>l. json_message m (label_message l) (label_span l)) (diag_secondary d)
        @ map (\<lambda>note. json_message m note (label_span (diag_primary d))) (diag_notes d))"
    using assms by (auto simp: list_all_iff diag_strings_def json_message_line)
  have fs: "list_all (\<lambda>s. linefeed \<notin> set s)
      (map (\<lambda>(index, f). json_fix m index f) (enumerate 0 (diag_fixes d)))"
  proof -
    have "linefeed \<notin> set (json_fix m i f)" if "f \<in> set (diag_fixes d)" for i f
      using that assms by (intro json_fix_line) (auto simp: list_all_iff diag_strings_def)
    then show ?thesis by (auto simp: list_all_iff enumerate_eq_zip dest!: set_zip_rightD)
  qed
  show ?thesis
    using assms join_comma_line [OF ns] join_comma_line [OF fs]
    by (auto simp: render_json_def Let_def line_simps severity_valid diag_strings_def)
qed

text \<open>the JSON report has one line per diagnostic. The output splits, at its line feeds, into
  exactly as many non-empty lines as there are diagnostics, each one the object of one
  diagnostic: no text inside a diagnostic can break a line.\<close>

theorem emit_json_lines:
  assumes "source_map_valid m" "reporter_valid r"
  shows "\<exists>lines. emit_json m r = concat (map (\<lambda>l. l @ [linefeed]) lines) \<and>
     length lines = length (rep_diagnostics r) \<and> (\<forall>l \<in> set lines. linefeed \<notin> set l) \<and>
     map (\<lambda>l. l @ [linefeed]) lines = map (render_json m) (rep_sorted r)"
proof -
  have "\<exists>line. render_json m d = line @ [linefeed] \<and> linefeed \<notin> set line"
    if "d \<in> set (rep_sorted r)" for d
    using that assms render_json_line by (auto simp: reporter_valid_def list_all_iff rep_sorted_def)
  then obtain f where f: "\<And>d. d \<in> set (rep_sorted r) \<Longrightarrow>
      render_json m d = f d @ [linefeed] \<and> linefeed \<notin> set (f d)"
    by metis
  then have "map (\<lambda>l. l @ [linefeed]) (map f (rep_sorted r)) = map (render_json m) (rep_sorted r)"
    by simp
  moreover have "\<forall>l \<in> set (map f (rep_sorted r)). linefeed \<notin> set l" using f by simp
  moreover have "length (map f (rep_sorted r)) = length (rep_diagnostics r)"
    by (simp add: rep_sorted_def)
  ultimately show ?thesis by (metis emit_json_def)
qed

theorem emit_json_lines_witness:
  "\<exists>lines. emit_json source_map_new
       (report (diagnostic_error ''E'' (span_new_root 0 1) [linefeed]) reporter_new)
     = concat (map (\<lambda>l. l @ [linefeed]) lines) \<and> length lines = 1 \<and> (\<forall>l \<in> set lines. linefeed \<notin> set l)"
proof -
  let ?r = "report (diagnostic_error ''E'' (span_new_root 0 1) [linefeed]) reporter_new"
  have "source_map_valid source_map_new" "reporter_valid ?r" "length (rep_diagnostics ?r) = 1"
    by (simp_all add: source_map_valid_def source_map_new_def reporter_valid_def report_def
        reporter_new_def diag_strings_def diagnostic_error_def diagnostic_new_def label_new_def utf8_eval)
  then show ?thesis using emit_json_lines [of source_map_new ?r] by auto
qed

end
