(* ===== verification/Resolve.thy ===== *)
theory Resolve
  imports Walk Diag
begin

text \<open>
  Name resolution, \<open>compiler/paco-resolve/src/lib.rs\<close>.

  The resolver is a record threaded through the functions; its stack of scopes has the innermost
  scope first (the code pushes at the end of a vector and searches it backwards).  Sets of names are
  sets and the hash maps are maps; local ids count up from 0 as natural numbers.  The recursion of
  \<open>block\<close> and \<open>expr\<close> passes through the visitor \<open>SpliceResolver\<close>, so these functions take the depth
  of nested calls; \<open>resolve_depth_enough\<close> shows that the size of the tree is enough.
\<close>

section \<open>Locals\<close>

definition PRELUDE_VALUES :: "string list" where
  "PRELUDE_VALUES = [''print'', ''panic'', ''Some'', ''None'', ''Ok'', ''Err'', ''channel'',
     ''spawn_blocking'', ''tcp_listen'', ''slice_of_zeros'', ''hash_of'', ''slice_sort_native'',
     ''slice_as_ptr'', ''slice_as_mut_ptr'', ''ptr_null'', ''ptr_null_mut'', ''splice_field'',
     ''fields_of'', ''type_name'', ''code_to_string'', ''string_concat'', ''int_to_string'',
     ''uint_to_string'', ''bool_to_string'', ''float_to_string'', ''char_to_string'',
     ''string_len_bytes'', ''string_char_at'', ''string_next_char_boundary'', ''string_byte_at'',
     ''string_slice_utf8'', ''string_to_bytes'', ''string_from_bytes'', ''bytes_write_string'',
     ''string_hash'', ''fs_read_to_string'', ''stderr_write'', ''arg_count'', ''arg_at'',
     ''rt_sleep_ns'', ''rt_monotonic_ns'', ''rt_wall_ns'']"

type_synonym local_id = nat

record locals =
  lc_occurrences :: "span \<rightharpoonup> (string \<times> local_id) list"
  lc_count :: nat

definition locals_default :: locals where
  "locals_default = \<lparr>lc_occurrences = Map.empty, lc_count = 0\<rparr>"

definition locals_get :: "string \<Rightarrow> span \<Rightarrow> locals \<Rightarrow> local_id option" where
  "locals_get name sp l = (case lc_occurrences l sp of
     None \<Rightarrow> None
   | Some entries \<Rightarrow> map_option snd (find (\<lambda>entry. fst entry = name) entries))"

definition locals_expr :: "expr \<Rightarrow> locals \<Rightarrow> local_id option" where
  "locals_expr e l = (case e of EIdent name sp \<Rightarrow> locals_get name sp l | _ \<Rightarrow> None)"

definition locals_pat :: "pat \<Rightarrow> locals \<Rightarrow> local_id option" where
  "locals_pat p l = (case p of
     PatIdent name sp \<Rightarrow> locals_get name sp l
   | PatBinding name _ sp \<Rightarrow> locals_get name sp l
   | _ \<Rightarrow> None)"

text \<open>The first entry of the name gets the id, or a new entry is pushed.\<close>

fun set_entry :: "string \<Rightarrow> local_id \<Rightarrow> (string \<times> local_id) list \<Rightarrow> (string \<times> local_id) list" where
  "set_entry name i [] = [(name, i)]"
| "set_entry name i (entry # entries) =
     (if fst entry = name then (fst entry, i) # entries else entry # set_entry name i entries)"

definition locals_record :: "string \<Rightarrow> span \<Rightarrow> local_id \<Rightarrow> locals \<Rightarrow> locals" where
  "locals_record name sp i l = l\<lparr>lc_occurrences := (lc_occurrences l)(sp \<mapsto>
     set_entry name i (case lc_occurrences l sp of None \<Rightarrow> [] | Some entries \<Rightarrow> entries))\<rparr>"

definition locals_intern :: "string \<Rightarrow> span \<Rightarrow> locals \<Rightarrow> local_id \<times> locals" where
  "locals_intern name sp l = (case locals_get name sp l of
     Some i \<Rightarrow> (i, l)
   | None \<Rightarrow> (lc_count l, locals_record name sp (lc_count l) (l\<lparr>lc_count := lc_count l + 1\<rparr>)))"

section \<open>The resolver\<close>

type_synonym scope = "string \<rightharpoonup> local_id option"
type_synonym aliases = "string \<rightharpoonup> local_id"

record resolver =
  rv_functions :: "string set"
  rv_reporter :: "reporter option"
  rv_locals :: locals
  rv_scopes :: "scope list"

definition push_scope :: "scope \<Rightarrow> resolver \<Rightarrow> resolver" where
  "push_scope sc r = r\<lparr>rv_scopes := sc # rv_scopes r\<rparr>"

definition pop_scope :: "resolver \<Rightarrow> resolver" where
  "pop_scope r = r\<lparr>rv_scopes := tl (rv_scopes r)\<rparr>"

definition name_not_found :: "string \<Rightarrow> span \<Rightarrow> diagnostic" where
  "name_not_found name sp =
     diagnostic_error ''PACO-E0201'' sp (''name not found `'' @ name @ ''`'')"

fun find_scope :: "string \<Rightarrow> scope list \<Rightarrow> local_id option option" where
  "find_scope name [] = None"
| "find_scope name (sc # scs) = (case sc name of Some i \<Rightarrow> Some i | None \<Rightarrow> find_scope name scs)"

definition resolve_ident :: "string \<Rightarrow> span \<Rightarrow> resolver \<Rightarrow> resolver" where
  "resolve_ident name sp r = (case find_scope name (rv_scopes r) of
     Some (Some i) \<Rightarrow> r\<lparr>rv_locals := locals_record name sp i (rv_locals r)\<rparr>
   | Some None \<Rightarrow> r
   | None \<Rightarrow>
       if name \<notin> rv_functions r \<and> name \<notin> set PRELUDE_VALUES
       then r\<lparr>rv_reporter := map_option (report (name_not_found name sp)) (rv_reporter r)\<rparr>
       else r)"

text \<open>\<open>bind\<close>, with the map \<open>bound\<close> it writes beside the resolver.\<close>

definition bind :: "string \<Rightarrow> span \<Rightarrow> aliases option \<Rightarrow> aliases \<times> resolver \<Rightarrow> aliases \<times> resolver" where
  "bind name sp alias st = (case st of (bound, r) \<Rightarrow>
     (case (case Option.bind alias (\<lambda>m. m name) of
         Some i \<Rightarrow> (i, locals_record name sp i (rv_locals r))
       | None \<Rightarrow> locals_intern name sp (rv_locals r)) of (i, l) \<Rightarrow>
      (bound(name \<mapsto> i), r\<lparr>rv_locals := l,
         rv_scopes := (case rv_scopes r of [] \<Rightarrow> [] | sc # scs \<Rightarrow> sc(name \<mapsto> Some i) # scs)\<rparr>)))"

fun bind_pattern :: "pat \<Rightarrow> aliases option \<Rightarrow> aliases \<times> resolver \<Rightarrow> aliases \<times> resolver" where
  "bind_pattern (PatIdent name sp) alias st = bind name sp alias st"
| "bind_pattern (PatBinding name p sp) alias st = bind_pattern p alias (bind name sp alias st)"
| "bind_pattern (PatOr alts _) alias st = (case alts of
     [] \<Rightarrow> st
   | alt # rest \<Rightarrow> (case bind_pattern alt alias (Map.empty, snd st) of (first, r) \<Rightarrow>
       (fst st ++ first,
        fold (\<lambda>alt r. snd (bind_pattern alt (Some first) (Map.empty, r))) rest r)))"
| "bind_pattern (PatTuple ps _) alias st = fold (\<lambda>p. bind_pattern p alias) ps st"
| "bind_pattern (PatEnum _ ps _) alias st = fold (\<lambda>p. bind_pattern p alias) ps st"
| "bind_pattern (PatStruct _ fs _ _) alias st = fold (\<lambda>f. bind_pattern (snd f) alias) fs st"
| "bind_pattern (PatRange start end _ _) alias st = bind_pattern end alias (bind_pattern start alias st)"
| "bind_pattern (PatReference _ p _) alias st = bind_pattern p alias st"
| "bind_pattern (PatWildcard _) alias st = st"
| "bind_pattern (PatLiteral _ _) alias st = st"

definition bind_new :: "pat \<Rightarrow> resolver \<Rightarrow> resolver" where
  "bind_new p r = snd (bind_pattern p None (Map.empty, r))"

text \<open>The visitor \<open>SpliceResolver\<close>; \<open>f\<close> is the \<open>expr\<close> function of the resolver it holds.\<close>

definition splice_field_call :: "expr \<Rightarrow> (expr \<times> expr) option" where
  "splice_field_call e = (case e of
     ECall (EIdent callee _) _ [base, name] _ \<Rightarrow>
       if callee = ''splice_field'' then Some (base, name) else None
   | _ \<Rightarrow> None)"

definition splice_expr :: "(expr \<Rightarrow> 's \<Rightarrow> 's) \<Rightarrow> 's visitor \<Rightarrow> expr \<Rightarrow> 's \<Rightarrow> 's" where
  "splice_expr f self e = (case e of
     ESplice inner _ \<Rightarrow> f inner
   | EQuote _ _ \<Rightarrow> id
   | _ \<Rightarrow> (case splice_field_call e of
       Some (base, name) \<Rightarrow> seq [visit_expr self base, f name]
     | None \<Rightarrow> walk_expr self e))"

definition splice_resolver :: "(expr \<Rightarrow> 's \<Rightarrow> 's) \<Rightarrow> 's visitor \<Rightarrow> 's visitor" where
  "splice_resolver f self = (default_visitor self)\<lparr>visit_expr := splice_expr f self\<rparr>"

definition quote_splices :: "(expr \<Rightarrow> 's \<Rightarrow> 's) \<Rightarrow> a_quote_body \<Rightarrow> 's \<Rightarrow> 's" where
  "quote_splices f body =
     seq [visit_quote (knot (splice_resolver f) (quote_size body)) body, visit_template_ty_splices body f]"

text \<open>\<open>let_stmt\<close>, \<open>block\<close> and \<open>expr\<close>: the argument \<open>ex\<close> is the \<open>expr\<close> function for the parts.\<close>

definition let_stmt :: "(expr \<Rightarrow> resolver \<Rightarrow> resolver) \<Rightarrow> expr let_stmt \<Rightarrow> resolver \<Rightarrow> resolver" where
  "let_stmt ex st = seq [if_some ex (let_value st), bind_new (let_pattern st)]"

definition resolve_stmt :: "(expr \<Rightarrow> resolver \<Rightarrow> resolver) \<Rightarrow> a_stmt \<Rightarrow> resolver \<Rightarrow> resolver" where
  "resolve_stmt ex st = (case st of
     StmtLet l \<Rightarrow> let_stmt ex l | StmtExpr e \<Rightarrow> ex e | StmtItem _ \<Rightarrow> id)"

definition resolve_block :: "(expr \<Rightarrow> resolver \<Rightarrow> resolver) \<Rightarrow> block \<Rightarrow> resolver \<Rightarrow> resolver" where
  "resolve_block ex b = seq [push_scope Map.empty, fold (resolve_stmt ex) (blk_stmts b),
       if_some ex (blk_tail b), pop_scope]"

definition resolve_arm :: "(expr \<Rightarrow> resolver \<Rightarrow> resolver) \<Rightarrow> expr match_arm \<Rightarrow> resolver \<Rightarrow>
     resolver" where
  "resolve_arm ex arm = seq [push_scope Map.empty, bind_new (arm_pattern arm),
       if_some ex (arm_guard arm), ex (arm_body arm), pop_scope]"

definition resolve_operation :: "(expr \<Rightarrow> resolver \<Rightarrow> resolver) \<Rightarrow> expr \<Rightarrow> resolver \<Rightarrow> resolver" where
  "resolve_operation ex operation = (case operation of
     EAssign target val _ \<Rightarrow> seq [ex val, (case target of EIdent name sp \<Rightarrow>
          (\<lambda>r. snd (bind name sp None (Map.empty, r))) | _ \<Rightarrow> id)]
   | other \<Rightarrow> ex other)"

definition resolve_select_arm :: "(expr \<Rightarrow> resolver \<Rightarrow> resolver) \<Rightarrow> (expr, block) select_arm \<Rightarrow>
    resolver \<Rightarrow> resolver" where
  "resolve_select_arm ex arm = seq [push_scope Map.empty,
       resolve_operation ex (sa_operation arm), resolve_block ex (sa_body arm), pop_scope]"

fun resolve_expr_with :: "(expr \<Rightarrow> resolver \<Rightarrow> resolver) \<Rightarrow> expr \<Rightarrow> resolver \<Rightarrow> resolver" where
  "resolve_expr_with ex (ELiteral _ _) = id"
| "resolve_expr_with ex (EContinue _) = id"
| "resolve_expr_with ex (EIdent name sp) = resolve_ident name sp"
| "resolve_expr_with ex (EBlock b) = resolve_block ex b"
| "resolve_expr_with ex (EUnsafe b _) = resolve_block ex b"
| "resolve_expr_with ex (EIf c t els _) = seq [ex c, resolve_block ex t, if_some ex els]"
| "resolve_expr_with ex (ELoop b _) = resolve_block ex b"
| "resolve_expr_with ex (EWhile c b _) = seq [ex c, resolve_block ex b]"
| "resolve_expr_with ex (ECall f _ args _) = seq [ex f, fold ex args]"
| "resolve_expr_with ex (EMethodCall r _ args _) = seq [ex r, fold ex args]"
| "resolve_expr_with ex (EAssociatedCall _ _ args _) = fold ex args"
| "resolve_expr_with ex (ETuple es _) = fold ex es"
| "resolve_expr_with ex (EBinary _ l r _) = seq [ex l, ex r]"
| "resolve_expr_with ex (EAssign t e _) = seq [ex t, ex e]"
| "resolve_expr_with ex (EField b _ _) = ex b"
| "resolve_expr_with ex (EIndex b ix _) = seq [ex b, fold ex ix]"
| "resolve_expr_with ex (EReturn e _) = if_some ex e"
| "resolve_expr_with ex (EBreak e _) = if_some ex e"
| "resolve_expr_with ex (EMatch e arms _) = seq [ex e, fold (resolve_arm ex) arms]"
| "resolve_expr_with ex (EClosure ps b _) = seq [push_scope Map.empty,
     fold (\<lambda>p. bind_new (cp_pattern p)) ps, ex b, pop_scope]"
| "resolve_expr_with ex (EUnary _ e _) = ex e"
| "resolve_expr_with ex (ESpawn e _) = ex e"
| "resolve_expr_with ex (EComptime e _) = ex e"
| "resolve_expr_with ex (ESplice e _) = ex e"
| "resolve_expr_with ex (EBorrow _ e _) = ex e"
| "resolve_expr_with ex (ETry e _) = ex e"
| "resolve_expr_with ex (ECast e _ _) = ex e"
| "resolve_expr_with ex (EYield e _) = ex e"
| "resolve_expr_with ex (EQuote body _) = quote_splices ex body"
| "resolve_expr_with ex (ESelect arms dflt _) =
     seq [fold (resolve_select_arm ex) arms, if_some (resolve_block ex) dflt]"
| "resolve_expr_with ex (EStructLiteral _ fs _) = fold (\<lambda>f. ex (snd f)) fs"

primrec resolve_expr :: "nat \<Rightarrow> expr \<Rightarrow> resolver \<Rightarrow> resolver" where
  "resolve_expr 0 = (\<lambda>_. id)"
| "resolve_expr (Suc n) = resolve_expr_with (resolve_expr n)"

section \<open>Functions and modules\<close>

definition const_scope :: "expr generic_param list \<Rightarrow> scope" where
  "const_scope params = map_of (map (\<lambda>param. (gp_name param, None))
     (filter (\<lambda>param. is_const_param param \<or> is_dim_param param) params))"

definition resolve_function :: "a_fn_decl \<Rightarrow> expr generic_param list \<Rightarrow> resolver \<Rightarrow> resolver" where
  "resolve_function f owner_params r =
    (let r = r\<lparr>rv_scopes := [const_scope (owner_params @ fn_generics f)]\<rparr>;
         r = fold (\<lambda>p. bind_new (prm_pattern p)) (fn_params f) r;
         r = resolve_block (resolve_expr (size (fn_body f))) (fn_body f) r
     in r\<lparr>rv_scopes := []\<rparr>)"

definition resolve_item :: "an_item \<Rightarrow> resolver \<Rightarrow> resolver" where
  "resolve_item it = (case it of
     ItemFn f \<Rightarrow> resolve_function f []
   | ItemStruct d \<Rightarrow> fold (\<lambda>m. resolve_function m (sd_generics d)) (sd_methods d)
   | ItemEnum d \<Rightarrow> fold (\<lambda>m. resolve_function m (ed_generics d)) (ed_methods d)
   | ItemMethods d \<Rightarrow> fold (\<lambda>m. resolve_function m (mb_generics d)) (mb_methods d)
   | ItemTrait _ \<Rightarrow> id | ItemUse _ \<Rightarrow> id | ItemConst _ \<Rightarrow> id | ItemExtern _ \<Rightarrow> id)"

definition resolve_items :: "module \<Rightarrow> resolver \<Rightarrow> resolver" where
  "resolve_items m = fold resolve_item (mod_items m)"

definition item_name :: "an_item \<Rightarrow> string option" where
  "item_name it = (case it of
     ItemFn f \<Rightarrow> Some (fn_name f)
   | ItemConst c \<Rightarrow> Some (cst_name c)
   | ItemStruct d \<Rightarrow> Some (sd_name d)
   | ItemEnum d \<Rightarrow> Some (ed_name d)
   | _ \<Rightarrow> None)"

definition module_functions :: "module \<Rightarrow> string set \<Rightarrow> string set" where
  "module_functions m imported = set (List.map_filter item_name (mod_items m)) \<union>
     set (concat (map (\<lambda>it. case it of ItemExtern b \<Rightarrow> map sig_name (ext_functions b) | _ \<Rightarrow> [])
       (mod_items m))) \<union> imported"

text \<open>The result is whether resolution succeeded, with the reporter.\<close>

definition resolve_module_with_imports :: "module \<Rightarrow> string set \<Rightarrow> reporter \<Rightarrow> bool \<times> reporter" where
  "resolve_module_with_imports m imported rep =
    (let r = resolve_items m \<lparr>rv_functions = module_functions m imported, rv_reporter = Some rep,
           rv_locals = locals_default, rv_scopes = []\<rparr>;
         rep = the (rv_reporter r)
     in (\<not> has_errors rep, rep))"

definition resolve_module :: "module \<Rightarrow> reporter \<Rightarrow> bool \<times> reporter" where
  "resolve_module m rep = resolve_module_with_imports m {} rep"

definition add_module :: "module \<Rightarrow> locals \<Rightarrow> locals" where
  "add_module m l = rv_locals (resolve_items m \<lparr>rv_functions = {}, rv_reporter = None,
     rv_locals = l, rv_scopes = []\<rparr>)"

definition resolve_locals :: "module list \<Rightarrow> locals" where
  "resolve_locals ms = fold add_module ms locals_default"

section \<open>Splices, as a list\<close>

lemma splice_field_call_size:
  "splice_field_call e = Some (base, name) \<Longrightarrow> size base < size e \<and> size name < size e"
  by (auto simp: splice_field_call_def split: expr.splits list.splits if_splits)

lemma rel_splice_expr:
  assumes rel: "related R k v w" and sz: "size e \<le> k"
    and f: "\<And>e. size e < K \<Longrightarrow> rel_fun R R (f e) (g e)" and K: "k \<le> K"
  shows "rel_fun R R (splice_expr f v e) (splice_expr g w e)"
proof -
  have other: "rel_fun R R
      (case splice_field_call e of Some (base, name) \<Rightarrow> seq [visit_expr v base, f name] | None \<Rightarrow> walk_expr v e)
      (case splice_field_call e of Some (base, name) \<Rightarrow> seq [visit_expr w base, g name] | None \<Rightarrow> walk_expr w e)"
  proof (cases "splice_field_call e")
    case (Some p)
    then obtain base name where p: "p = (base, name)" "size base < k" "size name < K"
      using splice_field_call_size [of e] sz K by (cases p) fastforce
    show ?thesis
      unfolding Some p(1) option.case prod.case by (intro rel_seq relatedD(5) [OF rel] f p(2,3))
  qed (simp add: rel_walk_expr [OF rel sz])
  show ?thesis
  proof (cases e)
    case (ESplice inner sp)
    then show ?thesis using f sz K by (simp add: splice_expr_def)
  next
    case (EQuote body sp)
    then show ?thesis by (simp add: splice_expr_def rel_id)
  qed (use other in \<open>auto simp: splice_expr_def simp del: walk_expr.simps\<close>)
qed

lemma coupled_splice_resolver:
  assumes "\<And>e. size e < K \<Longrightarrow> rel_fun R R (f e) (g e)"
  shows "coupled R K (splice_resolver f) (splice_resolver g)"
proof -
  have "related R (Suc k) (splice_resolver f v) (splice_resolver g w)" if "related R k v w" "k < K" for k v w
    using related_default [OF that(1)] rel_splice_expr [OF that(1) _ assms] that(2)
    by (subst related_def) (simp add: splice_resolver_def related_def less_Suc_eq_le)
  then show ?thesis by (simp add: coupled_def) (simp add: splice_resolver_def default_visitor_def)
qed

lemma rel_quote_splices:
  assumes "\<And>e. size e < quote_size body \<Longrightarrow> rel_fun R R (f e) (g e)"
  shows "rel_fun R R (quote_splices f body) (quote_splices g body)"
  unfolding quote_splices_def
  by (intro rel_seq rel_visit_quote coupled_splice_resolver rel_template_ty_splices assms)

text \<open>The spliced expressions of a template, in the order they are resolved.\<close>

definition template_splices :: "a_quote_body \<Rightarrow> expr list" where
  "template_splices body = quote_splices (\<lambda>e es. es @ [e]) body []"

lemma quote_splices_fold: "quote_splices f body s = fold f (template_splices body) s"
proof -
  have "rel_fun (\<lambda>es t. t = fold f es s) (\<lambda>es t. t = fold f es s)
      (quote_splices (\<lambda>e es. es @ [e]) body) (quote_splices f body)"
    by (rule rel_quote_splices) (simp add: rel_fun_def)
  then have "quote_splices f body (fold f [] s) = fold f (template_splices body) s"
    unfolding template_splices_def rel_fun_def by blast
  then show ?thesis by simp
qed

lemma template_splices_size: "e \<in> set (template_splices body) \<Longrightarrow> size e < quote_size body"
proof -
  let ?R = "\<lambda>es (_ :: expr list). \<forall>e \<in> set es. size e < quote_size body"
  have "rel_fun ?R ?R (quote_splices (\<lambda>e es. es @ [e]) body) (quote_splices (\<lambda>e es. es @ [e]) body)"
    by (rule rel_quote_splices) (auto simp: rel_fun_def)
  then have "\<forall>e \<in> set (template_splices body). size e < quote_size body"
    unfolding template_splices_def rel_fun_def by force
  then show "e \<in> set (template_splices body) \<Longrightarrow> size e < quote_size body" by blast
qed

section \<open>Names in scope\<close>

text \<open>What resolution means, without scopes, ids and mutation: the occurrences of names that are
  neither in the environment nor bound around them, in source order.\<close>

fun pat_names :: "pat \<Rightarrow> string set" where
  "pat_names (PatIdent name _) = {name}"
| "pat_names (PatBinding name p _) = insert name (pat_names p)"
| "pat_names (PatOr ps _) = \<Union> (set (map pat_names ps))"
| "pat_names (PatTuple ps _) = \<Union> (set (map pat_names ps))"
| "pat_names (PatEnum _ ps _) = \<Union> (set (map pat_names ps))"
| "pat_names (PatStruct _ fs _ _) = \<Union> (set (map (\<lambda>f. pat_names (snd f)) fs))"
| "pat_names (PatRange p q _ _) = pat_names p \<union> pat_names q"
| "pat_names (PatReference _ p _) = pat_names p"
| "pat_names (PatWildcard _) = {}"
| "pat_names (PatLiteral _ _) = {}"

definition operation_names :: "expr \<Rightarrow> string set" where
  "operation_names op = (case op of EAssign (EIdent name _) _ _ \<Rightarrow> {name} | _ \<Rightarrow> {})"

definition operation_value :: "expr \<Rightarrow> expr" where
  "operation_value op = (case op of EAssign _ val _ \<Rightarrow> val | _ \<Rightarrow> op)"

lemma operation_value_size: "size (operation_value op) \<le> size op"
  by (auto simp: operation_value_def split: expr.splits)

lemma select_part_size:
  fixes arms :: "(expr, block) select_arm list"
  assumes "arm \<in> set arms"
  shows "size (operation_value (sa_operation arm)) < size_list (size_select_arm size size) arms"
    "size (sa_body arm) < size_list (size_select_arm size size) arms"
  using size_list_less [OF assms, of "size_select_arm size size"] operation_value_size [of "sa_operation arm"]
  by (cases arm; simp)+

function (sequential) unbound :: "string set \<Rightarrow> expr \<Rightarrow> (string \<times> span) list"
  and unbound_block :: "string set \<Rightarrow> block \<Rightarrow> (string \<times> span) list"
  and unbound_stmts :: "string set \<Rightarrow> a_stmt list \<Rightarrow> expr option \<Rightarrow> (string \<times> span) list" where
  "unbound env (EIdent name sp) = (if name \<in> env then [] else [(name, sp)])"
| "unbound env (EBlock b) = unbound_block env b"
| "unbound env (EUnsafe b _) = unbound_block env b"
| "unbound env (EIf c t els _) = unbound env c @ unbound_block env t @
     (case els of None \<Rightarrow> [] | Some e \<Rightarrow> unbound env e)"
| "unbound env (ELoop b _) = unbound_block env b"
| "unbound env (EWhile c b _) = unbound env c @ unbound_block env b"
| "unbound env (ECall f _ args _) = unbound env f @ concat (map (unbound env) args)"
| "unbound env (EMethodCall r _ args _) = unbound env r @ concat (map (unbound env) args)"
| "unbound env (EAssociatedCall _ _ args _) = concat (map (unbound env) args)"
| "unbound env (ETuple es _) = concat (map (unbound env) es)"
| "unbound env (EBinary _ l r _) = unbound env l @ unbound env r"
| "unbound env (EAssign t e _) = unbound env t @ unbound env e"
| "unbound env (EField b _ _) = unbound env b"
| "unbound env (EIndex b ix _) = unbound env b @ concat (map (unbound env) ix)"
| "unbound env (EReturn e _) = (case e of None \<Rightarrow> [] | Some e \<Rightarrow> unbound env e)"
| "unbound env (EBreak e _) = (case e of None \<Rightarrow> [] | Some e \<Rightarrow> unbound env e)"
| "unbound env (EMatch e arms _) = unbound env e @ concat (map (\<lambda>arm.
     (case arm_guard arm of None \<Rightarrow> [] | Some g \<Rightarrow> unbound (env \<union> pat_names (arm_pattern arm)) g) @
     unbound (env \<union> pat_names (arm_pattern arm)) (arm_body arm)) arms)"
| "unbound env (EClosure ps b _) = unbound (env \<union> \<Union> (set (map (\<lambda>p. pat_names (cp_pattern p)) ps))) b"
| "unbound env (EUnary _ e _) = unbound env e"
| "unbound env (ESpawn e _) = unbound env e"
| "unbound env (EComptime e _) = unbound env e"
| "unbound env (ESplice e _) = unbound env e"
| "unbound env (EBorrow _ e _) = unbound env e"
| "unbound env (ETry e _) = unbound env e"
| "unbound env (ECast e _ _) = unbound env e"
| "unbound env (EYield e _) = unbound env e"
| "unbound env (EQuote body _) = concat (map (unbound env) (template_splices body))"
| "unbound env (ESelect arms dflt _) = concat (map (\<lambda>arm.
     unbound env (operation_value (sa_operation arm)) @
     unbound_block (env \<union> operation_names (sa_operation arm)) (sa_body arm)) arms) @
     (case dflt of None \<Rightarrow> [] | Some b \<Rightarrow> unbound_block env b)"
| "unbound env (EStructLiteral _ fs _) = concat (map (\<lambda>f. unbound env (snd f)) fs)"
| "unbound env (ELiteral _ _) = []"
| "unbound env (EContinue _) = []"
| "unbound_block env (Block stmts tail _) = unbound_stmts env stmts tail"
| "unbound_stmts env [] tail = (case tail of None \<Rightarrow> [] | Some e \<Rightarrow> unbound env e)"
| "unbound_stmts env (StmtLet l # stmts) tail =
     (case let_value l of None \<Rightarrow> [] | Some e \<Rightarrow> unbound env e) @
     unbound_stmts (env \<union> pat_names (let_pattern l)) stmts tail"
| "unbound_stmts env (StmtExpr e # stmts) tail = unbound env e @ unbound_stmts env stmts tail"
| "unbound_stmts env (StmtItem _ # stmts) tail = unbound_stmts env stmts tail"
  by pat_completeness auto
termination
proof (relation "measure (\<lambda>x. case x of Inl (env, e) \<Rightarrow> size e | Inr (Inl (env, b)) \<Rightarrow> size b
     | Inr (Inr (env, stmts, tail)) \<Rightarrow> size_list stmt_size stmts + size_option size tail)", goal_cases)
qed (simp_all add: list_part_size, (fastforce dest: size_list_less [where f = size] arm_part_size
    select_part_size field_part_size template_splices_size let_part_size)+)

section \<open>The resolver reports exactly the unbound names\<close>

definition scope_names :: "scope list \<Rightarrow> string set" where
  "scope_names scs = \<Union> (set (map dom scs))"

definition known_names :: "resolver \<Rightarrow> string set" where
  "known_names r = scope_names (rv_scopes r) \<union> rv_functions r \<union> set PRELUDE_VALUES"

definition report_all :: "(string \<times> span) list \<Rightarrow> reporter \<Rightarrow> reporter" where
  "report_all names = fold (\<lambda>n. report (name_not_found (fst n) (snd n))) names"

text \<open>\<open>shifts r s N names\<close>: from \<open>r\<close> to \<open>s\<close> exactly \<open>names\<close> were reported, and the innermost scope
  gained the names \<open>N\<close>.\<close>

definition shifts :: "resolver \<Rightarrow> resolver \<Rightarrow> string set \<Rightarrow> (string \<times> span) list \<Rightarrow> bool" where
  "shifts r s N names \<longleftrightarrow> rv_functions s = rv_functions r \<and>
     rv_reporter s = map_option (report_all names) (rv_reporter r) \<and>
     (\<exists>sc sc' scs. rv_scopes r = sc # scs \<and> rv_scopes s = sc' # scs \<and> dom sc' = dom sc \<union> N)"

definition reports :: "resolver \<Rightarrow> resolver \<Rightarrow> (string \<times> span) list \<Rightarrow> bool" where
  "reports r s names \<longleftrightarrow> rv_functions s = rv_functions r \<and> rv_scopes s = rv_scopes r \<and>
     rv_reporter s = map_option (report_all names) (rv_reporter r)"

lemma find_scope_known: "find_scope name scs = None \<longleftrightarrow> name \<notin> scope_names scs"
  by (induction scs) (auto simp: scope_names_def split: option.splits)

lemma report_all_simps [simp]:
  "report_all [] = id" "report_all [n] = report (name_not_found (fst n) (snd n))"
  by (auto simp: report_all_def)

lemma report_all_append: "map_option (report_all (ms @ ns)) rep = map_option (report_all ns) (map_option (report_all ms) rep)"
  by (cases rep) (simp_all add: report_all_def)

lemma reports_refl [simp]: "reports r r []"
  by (simp add: reports_def option.map_id)

lemma reports_trans: "reports r s ms \<Longrightarrow> reports s t ns \<Longrightarrow> reports r t (ms @ ns)"
  by (simp add: reports_def report_all_append)

lemma reports_known: "reports r s ns \<Longrightarrow> known_names s = known_names r"
  by (simp add: reports_def known_names_def)

lemma reports_shifts: "reports r s ns \<Longrightarrow> rv_scopes r \<noteq> [] \<Longrightarrow> shifts r s {} ns"
  by (cases "rv_scopes r") (simp_all add: reports_def shifts_def)

lemma shifts_trans: "shifts r s M ms \<Longrightarrow> shifts s t N ns \<Longrightarrow> shifts r t (M \<union> N) (ms @ ns)"
  by (auto simp: shifts_def report_all_append)

lemma scope_names_Cons: "scope_names (sc # scs) = dom sc \<union> scope_names scs"
  by (simp add: scope_names_def)

lemma shifts_known:
  assumes "shifts r s N ns"
  shows "known_names s = known_names r \<union> N"
proof -
  obtain sc sc' scs where "rv_functions s = rv_functions r" "rv_scopes r = sc # scs"
      "rv_scopes s = sc' # scs" "dom sc' = dom sc \<union> N"
    using assms by (auto simp: shifts_def)
  then show ?thesis by (simp add: known_names_def scope_names_Cons Un_ac)
qed

lemma shifts_scopes: "shifts r s N ns \<Longrightarrow> rv_scopes s \<noteq> []"
  by (auto simp: shifts_def)

lemma known_push [simp]: "known_names (push_scope Map.empty r) = known_names r"
  by (simp add: known_names_def push_scope_def scope_names_def)

lemma scopes_push [simp]: "rv_scopes (push_scope sc r) = sc # rv_scopes r"
  by (simp add: push_scope_def)

lemma shifts_pop: "shifts (push_scope Map.empty r) s N ns \<Longrightarrow> reports r (pop_scope s) ns"
  by (auto simp: shifts_def reports_def push_scope_def pop_scope_def)

lemma bind_shifts:
  "rv_scopes (snd st) \<noteq> [] \<Longrightarrow> shifts (snd st) (snd (bind name sp alias st)) {name} []"
  by (cases st; cases "rv_scopes (snd st)")
    (auto simp: bind_def shifts_def option.map_id split: prod.splits option.splits)

lemma shifts_fold:
  assumes "\<And>x s. x \<in> set xs \<Longrightarrow> rv_scopes (g s) \<noteq> [] \<Longrightarrow> shifts (g s) (g (f x s)) (N x) []"
    and "rv_scopes (g s) \<noteq> []"
  shows "shifts (g s) (g (fold f xs s)) (\<Union> (set (map N xs))) []"
  using assms
proof (induction xs arbitrary: s)
  case Nil
  then show ?case using reports_shifts [OF reports_refl] by simp
next
  case (Cons x xs)
  have 1: "shifts (g s) (g (f x s)) (N x) []" using Cons.prems by simp
  have "shifts (g (f x s)) (g (fold f xs (f x s))) (\<Union> (set (map N xs))) []"
    using Cons.prems(1) shifts_scopes [OF 1] by (intro Cons.IH) simp_all
  from shifts_trans [OF 1 this] show ?case by simp
qed

lemma bind_pattern_shifts:
  "rv_scopes (snd st) \<noteq> [] \<Longrightarrow> shifts (snd st) (snd (bind_pattern p al st)) (pat_names p) []"
proof (induction p al st rule: bind_pattern.induct)
  case (2 name p sp al st)
  have 1: "shifts (snd st) (snd (bind name sp al st)) {name} []" by (rule bind_shifts [OF 2(2)])
  from shifts_trans [OF 1 "2.IH" [OF shifts_scopes [OF 1]]] show ?case by simp
next
  case (3 alts sp al st)
  show ?case
  proof (cases alts)
    case Nil
    then show ?thesis using reports_shifts [OF reports_refl 3(3)] by simp
  next
    case (Cons alt rest)
    obtain first r where first: "bind_pattern alt al (Map.empty, snd st) = (first, r)"
      by (cases "bind_pattern alt al (Map.empty, snd st)")
    have 1: "shifts (snd st) r (pat_names alt) []" using "3.IH"(1) [OF Cons] 3(3) first by simp
    have "shifts (id r) (id (fold (\<lambda>alt r. snd (bind_pattern alt (Some first) (Map.empty, r))) rest r))
        (\<Union> (set (map pat_names rest))) []"
      using "3.IH"(2) [OF Cons first [symmetric]] shifts_scopes [OF 1] by (intro shifts_fold) simp_all
    from shifts_trans [OF 1 this [unfolded id_apply]] show ?thesis using Cons first by simp
  qed
next
  case (4 ps sp al st)
  show ?case using shifts_fold [of ps snd "\<lambda>p. bind_pattern p al" pat_names] 4 by simp
next
  case (5 path ps sp al st)
  show ?case using shifts_fold [of ps snd "\<lambda>p. bind_pattern p al" pat_names] 5 by simp
next
  case (6 path fs rst sp al st)
  show ?case
    using shifts_fold [of fs snd "\<lambda>f. bind_pattern (snd f) al" "\<lambda>f. pat_names (snd f)"] 6 by simp
next
  case (7 p q incl sp al st)
  then have 1: "shifts (snd st) (snd (bind_pattern p al st)) (pat_names p) []" by simp
  from shifts_trans [OF 1 "7.IH"(2) [OF shifts_scopes [OF 1]]] show ?case by simp
qed (simp_all add: bind_shifts reports_shifts)

lemma bind_new_shifts: "rv_scopes r \<noteq> [] \<Longrightarrow> shifts r (bind_new p r) (pat_names p) []"
  unfolding bind_new_def using bind_pattern_shifts [of "(Map.empty, r)"] by simp

lemma resolve_ident_reports:
  "reports r (resolve_ident name sp r) (if name \<in> known_names r then [] else [(name, sp)])"
proof (cases "find_scope name (rv_scopes r)")
  case None
  then have "name \<notin> scope_names (rv_scopes r)" by (simp add: find_scope_known)
  then show ?thesis
    using None by (simp add: resolve_ident_def reports_def option.map_id known_names_def)
next
  case (Some i)
  then have "name \<in> known_names r" using find_scope_known [of name "rv_scopes r"] by (auto simp: known_names_def)
  then show ?thesis using Some by (cases i) (simp_all add: resolve_ident_def reports_def option.map_id)
qed

text \<open>The function for the parts does its work on every expression below a size.\<close>

definition sound_below :: "nat \<Rightarrow> (expr \<Rightarrow> resolver \<Rightarrow> resolver) \<Rightarrow> bool" where
  "sound_below k ex \<longleftrightarrow> (\<forall>e r. size e < k \<longrightarrow> reports r (ex e r) (unbound (known_names r) e))"

lemma sound_belowD: "sound_below k ex \<Longrightarrow> size e < k \<Longrightarrow> reports r (ex e r) (unbound (known_names r) e)"
  by (simp add: sound_below_def)

lemma sound_part:
  assumes "sound_below k ex" "size e < k" "reports r s ns"
  shows "reports r (ex e s) (ns @ unbound (known_names r) e)"
  using reports_trans [OF assms(3) sound_belowD [OF assms(1,2)]] reports_known [OF assms(3)] by simp

lemma sound_option:
  assumes "sound_below k ex" "size_option size part \<le> k"
  shows "reports r (if_some ex part r) (case part of None \<Rightarrow> [] | Some e \<Rightarrow> unbound (known_names r) e)"
  using assms by (cases part) (simp_all add: sound_belowD)

lemma sound_fold:
  assumes "\<And>x r. x \<in> set xs \<Longrightarrow> reports r (f x r) (F (known_names r) x)"
  shows "reports r (fold f xs r) (concat (map (F (known_names r)) xs))"
  using assms
proof (induction xs arbitrary: r)
  case (Cons x xs)
  have 1: "reports r (f x r) (F (known_names r) x)" using Cons.prems by simp
  have "reports (f x r) (fold f xs (f x r)) (concat (map (F (known_names (f x r))) xs))"
    using Cons.prems by (intro Cons.IH) simp
  from reports_trans [OF 1 this] show ?case by (simp add: reports_known [OF 1])
qed simp

lemma sound_list:
  assumes "sound_below k ex" "size_list size es \<le> k"
  shows "reports r (fold ex es r) (concat (map (unbound (known_names r)) es))"
proof (rule sound_fold [where F = unbound])
  show "reports r (ex e r) (unbound (known_names r) e)" if "e \<in> set es" for e r
    using assms(2) size_list_less [OF that, of size] by (intro sound_belowD [OF assms(1)]) simp
qed

lemma sound_stmts:
  assumes "sound_below k ex"
    and "size_list stmt_size stmts + size_option size tail \<le> k" "rv_scopes r \<noteq> []"
  shows "\<exists>N. shifts r (if_some ex tail (fold (resolve_stmt ex) stmts r)) N
    (unbound_stmts (known_names r) stmts tail)"
  using assms(2,3)
proof (induction stmts arbitrary: r)
  case Nil
  then show ?case using reports_shifts [OF sound_option [OF assms(1), of tail]] by auto
next
  case (Cons st stmts)
  have "\<exists>N ns. shifts r (resolve_stmt ex st r) N ns \<and>
      unbound_stmts (known_names r) (st # stmts) tail = ns @ unbound_stmts (known_names r \<union> N) stmts tail"
  proof (cases st)
    case (StmtLet l)
    let ?s = "if_some ex (let_value l) r"
    let ?ns = "case let_value l of None \<Rightarrow> [] | Some e \<Rightarrow> unbound (known_names r) e"
    have "size_option size (let_value l) \<le> k" using Cons.prems(1) StmtLet by (cases l) simp
    from reports_shifts [OF sound_option [OF assms(1) this] Cons.prems(2)]
    have 1: "shifts r ?s {} ?ns" .
    from shifts_trans [OF 1 bind_new_shifts [OF shifts_scopes [OF 1], of "let_pattern l"]]
    have "shifts r (bind_new (let_pattern l) ?s) (pat_names (let_pattern l)) ?ns" by simp
    then show ?thesis using StmtLet by (force simp: resolve_stmt_def let_stmt_def)
  next
    case (StmtExpr e)
    have "size e < k" using Cons.prems(1) StmtExpr by simp
    from reports_shifts [OF sound_belowD [OF assms(1) this] Cons.prems(2)]
    show ?thesis using StmtExpr by (force simp: resolve_stmt_def)
  next
    case (StmtItem it)
    then show ?thesis using reports_shifts [OF reports_refl Cons.prems(2)] by (force simp: resolve_stmt_def)
  qed
  then obtain N ns where 1: "shifts r (resolve_stmt ex st r) N ns"
      "unbound_stmts (known_names r) (st # stmts) tail = ns @ unbound_stmts (known_names r \<union> N) stmts tail"
    by blast
  obtain M where "shifts (resolve_stmt ex st r)
      (if_some ex tail (fold (resolve_stmt ex) stmts (resolve_stmt ex st r))) M
      (unbound_stmts (known_names r \<union> N) stmts tail)"
    using Cons.IH [of "resolve_stmt ex st r"] Cons.prems(1) shifts_scopes [OF 1(1)] shifts_known [OF 1(1)]
    by auto
  from shifts_trans [OF 1(1) this] show ?case using 1(2) by auto
qed

lemma sound_block:
  assumes "sound_below k ex" "size b \<le> k"
  shows "reports r (resolve_block ex b r) (unbound_block (known_names r) b)"
proof (cases b)
  case (Block stmts tail sp)
  then obtain N where "shifts (push_scope Map.empty r)
      (if_some ex tail (fold (resolve_stmt ex) stmts (push_scope Map.empty r))) N
      (unbound_stmts (known_names r) stmts tail)"
    using sound_stmts [OF assms(1), of stmts tail "push_scope Map.empty r"] assms(2) by auto
  from shifts_pop [OF this] show ?thesis using Block by (simp add: resolve_block_def)
qed

lemma scoped_reports:
  assumes "shifts (push_scope Map.empty r) s N ms" "reports s t ns"
  shows "reports r (pop_scope t) (ms @ ns)" "known_names s = known_names r \<union> N"
  using shifts_pop [OF shifts_trans [OF assms(1) reports_shifts [OF assms(2) shifts_scopes [OF assms(1)]]]]
    shifts_known [OF assms(1)] by simp_all

lemma sound_arm:
  assumes "sound_below k ex" "size_match_arm size arm \<le> k"
  shows "reports r (resolve_arm ex arm r)
    ((case arm_guard arm of None \<Rightarrow> [] | Some g \<Rightarrow> unbound (known_names r \<union> pat_names (arm_pattern arm)) g) @
      unbound (known_names r \<union> pat_names (arm_pattern arm)) (arm_body arm))"
proof -
  let ?s = "bind_new (arm_pattern arm) (push_scope Map.empty r)"
  have 1: "shifts (push_scope Map.empty r) ?s (pat_names (arm_pattern arm)) []"
    by (rule bind_new_shifts) simp
  have "size_option size (arm_guard arm) \<le> k" "size (arm_body arm) < k" using assms(2) by (cases arm; simp)+
  from sound_part [OF assms(1) this(2) sound_option [OF assms(1) this(1), of ?s]]
  have 2: "reports ?s (ex (arm_body arm) (if_some ex (arm_guard arm) ?s))
      ((case arm_guard arm of None \<Rightarrow> [] | Some g \<Rightarrow> unbound (known_names ?s) g) @
        unbound (known_names ?s) (arm_body arm))" .
  show ?thesis using scoped_reports [OF 1 2] by (simp add: resolve_arm_def cong: option.case_cong)
qed

lemma sound_operation:
  assumes "sound_below k ex" "size op < k" "rv_scopes r \<noteq> []"
  shows "shifts r (resolve_operation ex op r) (operation_names op)
    (unbound (known_names r) (operation_value op))"
proof -
  have val: "shifts r (ex (operation_value op) r) {} (unbound (known_names r) (operation_value op))"
    using assms operation_value_size [of op] by (intro reports_shifts sound_belowD [OF assms(1)]) simp_all
  show ?thesis
  proof (cases op)
    case (EAssign target e sp)
    show ?thesis
    proof (cases target)
      case (EIdent name sp')
      have 2: "shifts (ex e r) (snd (bind name sp' None (Map.empty, ex e r))) {name} []"
        using bind_shifts [of "(Map.empty, ex e r)"] shifts_scopes [OF val] EAssign
        by (simp add: operation_value_def)
      show ?thesis
        using shifts_trans [OF val, of _ "{name}" "[]"] 2 EAssign EIdent
        by (simp add: resolve_operation_def operation_names_def operation_value_def)
    qed (use val EAssign in \<open>simp_all add: resolve_operation_def operation_names_def operation_value_def\<close>)
  qed (use val in \<open>simp_all add: resolve_operation_def operation_names_def operation_value_def\<close>)
qed

lemma sound_select_arm:
  assumes "sound_below k ex" "size_select_arm size size arm \<le> k"
  shows "reports r (resolve_select_arm ex arm r)
    (unbound (known_names r) (operation_value (sa_operation arm)) @
      unbound_block (known_names r \<union> operation_names (sa_operation arm)) (sa_body arm))"
proof -
  let ?s = "resolve_operation ex (sa_operation arm) (push_scope Map.empty r)"
  have sizes: "size (sa_operation arm) < k" "size (sa_body arm) \<le> k" using assms(2) by (cases arm; simp)+
  have 1: "shifts (push_scope Map.empty r) ?s (operation_names (sa_operation arm))
      (unbound (known_names r) (operation_value (sa_operation arm)))"
    using sound_operation [OF assms(1) sizes(1), of "push_scope Map.empty r"] by simp
  show ?thesis
    using scoped_reports [OF 1 sound_block [OF assms(1) sizes(2)]] by (simp add: resolve_select_arm_def)
qed

lemma sound_closure:
  assumes "sound_below k ex" "size b < k"
  shows "reports r (pop_scope (ex b (fold (\<lambda>p. bind_new (cp_pattern p)) ps (push_scope Map.empty r))))
    (unbound (known_names r \<union> \<Union> (set (map (\<lambda>p. pat_names (cp_pattern p)) ps))) b)"
proof -
  let ?s = "fold (\<lambda>p. bind_new (cp_pattern p)) ps (push_scope Map.empty r)"
  have 1: "shifts (push_scope Map.empty r) ?s (\<Union> (set (map (\<lambda>p. pat_names (cp_pattern p)) ps))) []"
    using shifts_fold [of ps id "\<lambda>p. bind_new (cp_pattern p)" "\<lambda>p. pat_names (cp_pattern p)" "push_scope Map.empty r"]
    by (simp add: bind_new_shifts)
  show ?thesis using scoped_reports [OF 1 sound_belowD [OF assms]] by simp
qed

lemma sound_resolve_expr_with:
  assumes sound: "sound_below k ex" and sz: "size e \<le> k"
  shows "reports r (resolve_expr_with ex e r) (unbound (known_names r) e)"
proof (cases e)
  case (EMatch x arms sp)
  have "reports r (fold (resolve_arm ex) arms r) (concat (map (\<lambda>arm.
      (case arm_guard arm of None \<Rightarrow> [] | Some g \<Rightarrow> unbound (known_names r \<union> pat_names (arm_pattern arm)) g) @
      unbound (known_names r \<union> pat_names (arm_pattern arm)) (arm_body arm)) arms))" for r
    using sz EMatch size_list_less [of _ arms "size_match_arm size"]
    by (intro sound_fold [where F = "\<lambda>env arm. (case arm_guard arm of None \<Rightarrow> []
        | Some g \<Rightarrow> unbound (env \<union> pat_names (arm_pattern arm)) g) @
        unbound (env \<union> pat_names (arm_pattern arm)) (arm_body arm)"] sound_arm [OF sound]) fastforce
  note arms = this
  have 1: "reports r (ex x r) (unbound (known_names r) x)" using sz EMatch by (intro sound_belowD [OF sound]) simp
  show ?thesis using reports_trans [OF 1 arms [of "ex x r", unfolded reports_known [OF 1]]] EMatch by simp
next
  case (ESelect arms dflt sp)
  have 1: "reports r (fold (resolve_select_arm ex) arms r) (concat (map (\<lambda>arm.
      unbound (known_names r) (operation_value (sa_operation arm)) @
      unbound_block (known_names r \<union> operation_names (sa_operation arm)) (sa_body arm)) arms))"
    using sz ESelect size_list_less [of _ arms "size_select_arm size size"]
    by (intro sound_fold [where F = "\<lambda>env arm. unbound env (operation_value (sa_operation arm)) @
        unbound_block (env \<union> operation_names (sa_operation arm)) (sa_body arm)"] sound_select_arm [OF sound]) fastforce
  have 2: "reports r (if_some (resolve_block ex) dflt r)
      (case dflt of None \<Rightarrow> [] | Some b \<Rightarrow> unbound_block (known_names r) b)" for r
    using sz ESelect by (cases dflt) (simp_all add: sound_block [OF sound])
  show ?thesis
    using reports_trans [OF 1 2] reports_known [OF 1] ESelect by (simp cong: option.case_cong)
next
  case (EQuote body sp)
  have "reports r (fold ex (template_splices body) r) (concat (map (unbound (known_names r)) (template_splices body)))"
    using sz EQuote by (intro sound_fold [where F = unbound] sound_belowD [OF sound])
      (fastforce dest: template_splices_size)
  then show ?thesis using EQuote by (simp add: quote_splices_fold)
next
  case (EStructLiteral t fs sp)
  then show ?thesis
    using sz by (auto intro!: sound_fold [where F = "\<lambda>env f. unbound env (snd f)"] sound_belowD [OF sound]
        dest: field_part_size)
next
  case (EIf c t els sp)
  have 1: "reports r (ex c r) (unbound (known_names r) c)" "size t \<le> k" "size_option size els \<le> k"
    using sz EIf by (auto intro: sound_belowD [OF sound])
  note 2 = reports_trans [OF 1(1) sound_block [OF sound 1(2)]]
  show ?thesis
    using reports_trans [OF 2 sound_option [OF sound 1(3)]] reports_known [OF 1(1)] reports_known [OF 2] EIf
    by (simp cong: option.case_cong)
next
  case (EClosure ps b sp)
  then show ?thesis using sz sound_closure [OF sound, of b r ps] by simp
next
  case (EWhile c b sp)
  have 1: "reports r (ex c r) (unbound (known_names r) c)" "size b \<le> k"
    using sz EWhile by (auto intro: sound_belowD [OF sound])
  show ?thesis using reports_trans [OF 1(1) sound_block [OF sound 1(2)]] reports_known [OF 1(1)] EWhile by simp
next
  case (ECall f ts args sp)
  have 1: "reports r (ex f r) (unbound (known_names r) f)" "size_list size args \<le> k"
    using sz ECall by (auto intro: sound_belowD [OF sound])
  show ?thesis using reports_trans [OF 1(1) sound_list [OF sound 1(2)]] reports_known [OF 1(1)] ECall by simp
next
  case (EMethodCall f nm args sp)
  have 1: "reports r (ex f r) (unbound (known_names r) f)" "size_list size args \<le> k"
    using sz EMethodCall by (auto intro: sound_belowD [OF sound])
  show ?thesis using reports_trans [OF 1(1) sound_list [OF sound 1(2)]] reports_known [OF 1(1)] EMethodCall by simp
next
  case (EIndex b ix sp)
  have 1: "reports r (ex b r) (unbound (known_names r) b)" "size_list size ix \<le> k"
    using sz EIndex by (auto intro: sound_belowD [OF sound])
  show ?thesis using reports_trans [OF 1(1) sound_list [OF sound 1(2)]] reports_known [OF 1(1)] EIndex by simp
qed (use sz in \<open>simp_all add: resolve_ident_reports [simplified] sound_belowD [OF sound] sound_block [OF sound]
    sound_option [OF sound] sound_list [OF sound] sound_part [OF sound]\<close>)

lemma sound_resolve_expr: "sound_below k (resolve_expr k)"
proof (induction k)
  case (Suc k)
  then show ?case by (subst sound_below_def) (simp add: sound_resolve_expr_with less_Suc_eq_le)
qed (simp add: sound_below_def)

section \<open>The depth is enough\<close>

lemma if_some_cong: "(\<And>x. part = Some x \<Longrightarrow> f x = g x) \<Longrightarrow> if_some f part = if_some g part"
  by (cases part) simp_all

lemma resolve_stmt_cong:
  assumes "\<And>x. size x < k \<Longrightarrow> ex x = ex' x" "stmt_size st \<le> k"
  shows "resolve_stmt ex st = resolve_stmt ex' st"
proof (cases st)
  case (StmtLet l)
  have "if_some ex (let_value l) = if_some ex' (let_value l)"
    using assms StmtLet by (intro if_some_cong) (auto dest: let_part_size)
  then show ?thesis using StmtLet by (simp add: resolve_stmt_def let_stmt_def)
qed (use assms in \<open>simp_all add: resolve_stmt_def\<close>)

lemma resolve_block_cong:
  assumes "\<And>x. size x < k \<Longrightarrow> ex x = ex' x" "size b \<le> k"
  shows "resolve_block ex b = resolve_block ex' b"
proof -
  have "resolve_stmt ex st = resolve_stmt ex' st" if "st \<in> set (blk_stmts b)" for st
  proof (rule resolve_stmt_cong [OF assms(1)])
    show "stmt_size st \<le> k" using assms(2) size_list_less [OF that, of stmt_size] by (cases b) simp
  qed
  then have "fold (resolve_stmt ex) (blk_stmts b) = fold (resolve_stmt ex') (blk_stmts b)"
    by (rule fold_visit_cong)
  moreover have "if_some ex (blk_tail b) = if_some ex' (blk_tail b)"
    using assms by (intro if_some_cong) (cases b, auto)
  ultimately show ?thesis by (simp add: resolve_block_def)
qed

lemma resolve_arm_cong:
  assumes "\<And>x. size x < k \<Longrightarrow> ex x = ex' x" "size_match_arm size arm \<le> k"
  shows "resolve_arm ex arm = resolve_arm ex' arm"
proof -
  have "if_some ex (arm_guard arm) = if_some ex' (arm_guard arm)"
    using assms(2) by (intro if_some_cong assms(1)) (cases arm, simp)
  moreover have "ex (arm_body arm) = ex' (arm_body arm)"
    using assms(2) by (intro assms(1)) (cases arm, simp)
  ultimately show ?thesis by (simp add: resolve_arm_def)
qed

lemma resolve_select_arm_cong:
  assumes "\<And>x. size x < k \<Longrightarrow> ex x = ex' x" "size_select_arm size size arm \<le> k"
  shows "resolve_select_arm ex arm = resolve_select_arm ex' arm"
proof -
  have parts: "size (sa_operation arm) < k" "size (sa_body arm) \<le> k" using assms(2) by (cases arm; simp)+
  have "resolve_operation ex (sa_operation arm) = resolve_operation ex' (sa_operation arm)"
    using assms(1) parts(1) by (cases "sa_operation arm") (simp_all add: resolve_operation_def)
  then show ?thesis using resolve_block_cong [OF assms(1) parts(2)] by (simp add: resolve_select_arm_def)
qed

lemma resolve_expr_with_cong:
  assumes eq: "\<And>x. size x < size e \<Longrightarrow> ex x = ex' x"
  shows "resolve_expr_with ex e = resolve_expr_with ex' e"
proof -
  have folds: "fold ex es = fold ex' es" if "size_list size es < size e" for es
    using that by (intro fold_visit_cong eq) (auto dest: size_list_less [where f = size])
  have opts: "if_some ex part = if_some ex' part" if "size_option size part < size e" for part
    using that by (intro if_some_cong eq) simp
  have blocks: "resolve_block ex b = resolve_block ex' b" if "size b < size e" for b
    using that by (intro resolve_block_cong [where k = "size e"] eq) simp_all
  show ?thesis
  proof (cases e)
    case (EQuote body sp)
    have "rel_fun (=) (=) (quote_splices ex body) (quote_splices ex' body)"
      using EQuote by (intro rel_quote_splices) (simp add: rel_eq eq)
    then show ?thesis using EQuote by (simp add: rel_eq)
  next
    case (EMatch x arms sp)
    have "resolve_arm ex arm = resolve_arm ex' arm" if "arm \<in> set arms" for arm
      using EMatch size_list_less [OF that, of "size_match_arm size"]
      by (intro resolve_arm_cong [where k = "size e"] eq) simp_all
    then have "fold (resolve_arm ex) arms = fold (resolve_arm ex') arms" by (rule fold_visit_cong)
    then show ?thesis using EMatch eq by simp
  next
    case (ESelect arms dflt sp)
    have "resolve_select_arm ex arm = resolve_select_arm ex' arm" if "arm \<in> set arms" for arm
      using ESelect size_list_less [OF that, of "size_select_arm size size"]
      by (intro resolve_select_arm_cong [where k = "size e"] eq) simp_all
    then have "fold (resolve_select_arm ex) arms = fold (resolve_select_arm ex') arms" by (rule fold_visit_cong)
    moreover have "if_some (resolve_block ex) dflt = if_some (resolve_block ex') dflt"
      using ESelect by (intro if_some_cong blocks) simp
    ultimately show ?thesis using ESelect by simp
  next
    case (EStructLiteral t fs sp)
    have "fold (\<lambda>f. ex (snd f)) fs = fold (\<lambda>f. ex' (snd f)) fs"
      using EStructLiteral by (intro fold_visit_cong eq) (auto dest: field_part_size)
    then show ?thesis using EStructLiteral by simp
  qed (auto simp: folds opts blocks eq)
qed

lemma resolve_depth_enough:
  "size e < m \<Longrightarrow> size e < n \<Longrightarrow> resolve_expr m e = resolve_expr n e"
proof (induction m arbitrary: n e)
  case (Suc m)
  then obtain n' where n: "n = Suc n'" by (cases n) auto
  have "resolve_expr_with (resolve_expr m) e = resolve_expr_with (resolve_expr n') e"
  proof (rule resolve_expr_with_cong)
    fix x :: expr assume "size x < size e"
    then show "resolve_expr m x = resolve_expr n' x" using Suc.prems n by (intro Suc.IH) simp_all
  qed
  then show ?case by (simp add: n)
qed simp

section \<open>Modules\<close>

definition unbound_function :: "string set \<Rightarrow> expr generic_param list \<Rightarrow> a_fn_decl \<Rightarrow> (string \<times> span) list" where
  "unbound_function env owner_params f =
     unbound_block (env \<union>
       set (map gp_name (filter (\<lambda>p. is_const_param p \<or> is_dim_param p) (owner_params @ fn_generics f))) \<union>
       \<Union> (set (map (\<lambda>p. pat_names (prm_pattern p)) (fn_params f)))) (fn_body f)"

definition unbound_item :: "string set \<Rightarrow> an_item \<Rightarrow> (string \<times> span) list" where
  "unbound_item env it = (case it of
     ItemFn f \<Rightarrow> unbound_function env [] f
   | ItemStruct d \<Rightarrow> concat (map (unbound_function env (sd_generics d)) (sd_methods d))
   | ItemEnum d \<Rightarrow> concat (map (unbound_function env (ed_generics d)) (ed_methods d))
   | ItemMethods d \<Rightarrow> concat (map (unbound_function env (mb_generics d)) (mb_methods d))
   | _ \<Rightarrow> [])"

definition unbound_module :: "module \<Rightarrow> string set \<Rightarrow> (string \<times> span) list" where
  "unbound_module m imported =
     concat (map (unbound_item (module_functions m imported \<union> set PRELUDE_VALUES)) (mod_items m))"

lemma dom_const_scope:
  "dom (const_scope params) = set (map gp_name (filter (\<lambda>p. is_const_param p \<or> is_dim_param p) params))"
  by (simp add: const_scope_def dom_map_of_conv_image_fst image_comp)

lemma function_reports:
  assumes "rv_scopes r = []"
  shows "reports r (resolve_function f owner r) (unbound_function (known_names r) owner f)"
proof -
  define r1 where "r1 = r\<lparr>rv_scopes := [const_scope (owner @ fn_generics f)]\<rparr>"
  define r2 where "r2 = fold (\<lambda>p. bind_new (prm_pattern p)) (fn_params f) r1"
  have known1: "known_names r1 = known_names r \<union> dom (const_scope (owner @ fn_generics f))"
    using assms by (simp add: r1_def known_names_def scope_names_def Un_ac)
  have 1: "shifts r1 r2 (\<Union> (set (map (\<lambda>p. pat_names (prm_pattern p)) (fn_params f)))) []"
    using shifts_fold [of "fn_params f" id "\<lambda>p. bind_new (prm_pattern p)" "\<lambda>p. pat_names (prm_pattern p)" r1]
    by (simp add: bind_new_shifts r1_def r2_def)
  have 2: "reports r2 (resolve_block (resolve_expr (size (fn_body f))) (fn_body f) r2)
      (unbound_block (known_names r2) (fn_body f))"
    by (rule sound_block [OF sound_resolve_expr]) simp
  have names: "unbound_block (known_names r2) (fn_body f) = unbound_function (known_names r) owner f"
    by (simp only: unbound_function_def shifts_known [OF 1] known1 dom_const_scope)
  have result: "resolve_function f owner r =
      (resolve_block (resolve_expr (size (fn_body f))) (fn_body f) r2)\<lparr>rv_scopes := []\<rparr>"
    by (simp add: resolve_function_def Let_def r1_def r2_def)
  have "rv_functions r2 = rv_functions r" "rv_reporter r2 = rv_reporter r"
    using 1 by (simp_all add: shifts_def r1_def option.map_id)
  then show ?thesis using 2 assms unfolding result names by (simp add: reports_def)
qed

lemma scopes_reports: "reports r s ns \<Longrightarrow> rv_scopes r = [] \<Longrightarrow> rv_scopes s = []"
  by (simp add: reports_def)

lemma fold_reports:
  assumes "\<And>x r. x \<in> set xs \<Longrightarrow> rv_scopes r = [] \<Longrightarrow> reports r (f x r) (F (known_names r) x)"
    and "rv_scopes r = []"
  shows "reports r (fold f xs r) (concat (map (F (known_names r)) xs))"
  using assms
proof (induction xs arbitrary: r)
  case (Cons x xs)
  have 1: "reports r (f x r) (F (known_names r) x)" using Cons.prems by simp
  have "reports (f x r) (fold f xs (f x r)) (concat (map (F (known_names (f x r))) xs))"
    using Cons.prems scopes_reports [OF 1] by (intro Cons.IH) simp_all
  from reports_trans [OF 1 this] show ?case by (simp add: reports_known [OF 1])
qed simp

lemma item_reports:
  assumes "rv_scopes r = []"
  shows "reports r (resolve_item it r) (unbound_item (known_names r) it)"
  using assms fold_reports [where F = "\<lambda>env. unbound_function env (sd_generics d)" for d, OF function_reports]
    fold_reports [where F = "\<lambda>env. unbound_function env (ed_generics d)" for d, OF function_reports]
    fold_reports [where F = "\<lambda>env. unbound_function env (mb_generics d)" for d, OF function_reports]
  by (cases it) (simp_all add: resolve_item_def unbound_item_def function_reports)

lemma has_errors_report_all: "has_errors (report_all names rep) \<longleftrightarrow> has_errors rep \<or> names \<noteq> []"
proof (induction names arbitrary: rep)
  case (Cons n names)
  then show ?case
    by (simp add: report_all_def has_errors_def report_def name_not_found_def diagnostic_error_def
        diagnostic_new_def)
qed simp


end
