(* ===== verification/Join.thy ===== *)
theory Join
  imports Sync "HOL-Library.Multiset"
begin

text \<open>
  Join handles, \<open>runtime/paco-runtime/src/join.rs\<close>: the slot a task's result goes through, and the
  interleaving of any number of completions and joins of one slot.  As for channels, a process is at
  a program counter between two sections of the code that run under the slot's lock.
\<close>

section \<open>The slot\<close>

text \<open>A panic payload, as \<open>downcast_ref\<close> sees it, and the message \<open>TaskPanic\<close> keeps of it.\<close>

datatype payload = PayloadStr string | PayloadString string | PayloadOther

definition from_payload :: "payload \<Rightarrow> string" where
  "from_payload p = (case p of
     PayloadStr s \<Rightarrow> s | PayloadString s \<Rightarrow> s | PayloadOther \<Rightarrow> ''task panicked'')"

type_synonym 'v task_result = "string + 'v"

text \<open>The body of a spawned task: \<open>catch_unwind(f).map_err(TaskPanic::from_payload)\<close>.\<close>

definition body_result :: "payload + 'v \<Rightarrow> 'v task_result" where
  "body_result r = map_sum from_payload id r"

record 'v slot =
  sl_value :: "'v task_result option"
  sl_waiters :: "notify list"

definition new_slot :: "'v slot" where
  "new_slot = \<lparr>sl_value = None, sl_waiters = []\<rparr>"

text \<open>The section of \<open>complete\<close> under the lock; the waiters it took are woken afterwards.\<close>

definition complete_locked :: "'v task_result \<Rightarrow> 'v slot \<Rightarrow> notify list \<times> 'v slot" where
  "complete_locked r sl = (sl_waiters sl, sl\<lparr>sl_value := Some r, sl_waiters := []\<rparr>)"

text \<open>The section of \<open>join\<close> under the lock: a result, or the caller has to park.\<close>

definition join_locked :: "notify \<Rightarrow> 'v slot \<Rightarrow> 'v task_result option \<times> 'v slot" where
  "join_locked n sl = (case sl_value sl of
     Some r \<Rightarrow> (Some r, sl\<lparr>sl_value := None\<rparr>)
   | None \<Rightarrow> (None, sl\<lparr>sl_waiters := sl_waiters sl @ [n]\<rparr>))"

section \<open>Interleaving\<close>

datatype 'v join_pc =
    JIdle
  | JoinStart | JoinLock notify | JoinParked notify | JoinDone "'v task_result"
  | Completing "'v task_result" | Waking "notify list"

record 'v join_system =
  js_slot :: "'v slot"
  js_sched :: sched
  js_pc :: "nat \<Rightarrow> 'v join_pc"
  js_completed :: "'v task_result list"
  js_joined :: "'v task_result list"

definition join_init :: "(nat \<Rightarrow> bool) \<Rightarrow> 'v join_system" where
  "join_init tasks = \<lparr>js_slot = new_slot,
     js_sched = \<lparr>sc_is_task = tasks, sc_permits = (\<lambda>_. 0), sc_next_waker = 0,
       sc_waker_task = (\<lambda>_. 0), sc_fired = (\<lambda>_. False)\<rparr>,
     js_pc = (\<lambda>_. JIdle), js_completed = [], js_joined = []\<rparr>"

definition jgoto :: "nat \<Rightarrow> 'v join_pc \<Rightarrow> 'v join_system \<Rightarrow> 'v join_system" where
  "jgoto p c s = s\<lparr>js_pc := (js_pc s)(p := c)\<rparr>"

text \<open>What a process does next; \<open>None\<close> when it waits.\<close>

fun join_proceed :: "nat \<Rightarrow> 'v join_pc \<Rightarrow> 'v join_system \<Rightarrow> 'v join_system option" where
  "join_proceed p JoinStart s = (case notify_current p (js_sched s) of (n, sc) \<Rightarrow>
     Some (jgoto p (JoinLock n) (s\<lparr>js_sched := sc\<rparr>)))"
| "join_proceed p (JoinLock n) s = (case join_locked n (js_slot s) of
     (Some r, sl) \<Rightarrow> Some (jgoto p (JoinDone r) (s\<lparr>js_slot := sl, js_joined := js_joined s @ [r]\<rparr>))
   | (None, sl) \<Rightarrow> Some (jgoto p (JoinParked n) (s\<lparr>js_slot := sl\<rparr>)))"
| "join_proceed p (JoinParked n) s = (case park_returns n p (js_sched s) of
     Some sc \<Rightarrow> Some (jgoto p JoinStart (s\<lparr>js_sched := sc\<rparr>))
   | None \<Rightarrow> None)"
| "join_proceed p (Completing r) s = (case complete_locked r (js_slot s) of (ws, sl) \<Rightarrow>
     Some (jgoto p (Waking ws) (s\<lparr>js_slot := sl, js_completed := js_completed s @ [r]\<rparr>)))"
| "join_proceed p (Waking (w # ws)) s =
     Some (jgoto p (Waking ws) (s\<lparr>js_sched := notify_fire w (js_sched s)\<rparr>))"
| "join_proceed p (Waking []) s = Some (jgoto p JIdle s)"
| "join_proceed p (JoinDone r) s = Some (jgoto p JIdle s)"
| "join_proceed p JIdle s = None"

inductive join_step :: "'v join_system \<Rightarrow> 'v join_system \<Rightarrow> bool" where
  proceed: "join_proceed p (js_pc s p) s = Some s' \<Longrightarrow> join_step s s'"
| call_join: "js_pc s p = JIdle \<Longrightarrow> join_step s (jgoto p JoinStart s)"
| call_complete: "js_pc s p = JIdle \<Longrightarrow> join_step s (jgoto p (Completing r) s)"

inductive join_reachable :: "'v join_system \<Rightarrow> bool" where
  init: "join_reachable (join_init tasks)"
| next_step: "join_reachable s \<Longrightarrow> join_step s s' \<Longrightarrow> join_reachable s'"

lemmas join_defs = jgoto_def complete_locked_def join_locked_def

section \<open>A result is joined at most once\<close>

definition result_inv :: "'v join_system \<Rightarrow> bool" where
  "result_inv s \<longleftrightarrow>
     mset (js_joined s) + (case sl_value (js_slot s) of None \<Rightarrow> {#} | Some r \<Rightarrow> {#r#}) \<subseteq># mset (js_completed s)"

lemma proceed_result: "join_proceed p c s = Some s' \<Longrightarrow> result_inv s \<Longrightarrow> result_inv s'"
  by (induction p c s rule: join_proceed.induct)
    (auto simp: join_defs result_inv_def subset_mset.add_increasing2 split: prod.splits option.splits
      dest: mset_subset_eq_insertD subset_mset.less_imp_le)

section \<open>No lost wakeups\<close>

text \<open>The notifications that will still be fired: registered in the slot or taken by a completion.\<close>

definition waking :: "'v join_pc \<Rightarrow> notify list" where
  "waking c = (case c of Waking ws \<Rightarrow> ws | _ \<Rightarrow> [])"

definition pending :: "'v join_system \<Rightarrow> notify set" where
  "pending s = set (sl_waiters (js_slot s)) \<union> (\<Union>q. set (waking (js_pc s q)))"

definition allocated :: "sched \<Rightarrow> notify \<Rightarrow> bool" where
  "allocated sc n = (case n of NotifyTask w \<Rightarrow> w < sc_next_waker sc | NotifyThread _ \<Rightarrow> True)"

definition is_thread :: "notify \<Rightarrow> bool" where
  "is_thread n = (case n of NotifyThread _ \<Rightarrow> True | _ \<Rightarrow> False)"

definition held :: "'v join_system \<Rightarrow> nat \<Rightarrow> notify \<Rightarrow> bool" where
  "held s p n \<longleftrightarrow> notify_live (js_sched s) n \<and> notify_owner (js_sched s) n = p"

definition join_inv :: "'v join_system \<Rightarrow> bool" where
  "join_inv s \<longleftrightarrow>
     (sl_value (js_slot s) \<noteq> None \<longrightarrow> sl_waiters (js_slot s) = []) \<and>
     (\<forall>n \<in> pending s. allocated (js_sched s) n) \<and>
     (\<forall>p n. js_pc s p = JoinLock n \<longrightarrow> held s p n \<and> (n \<in> pending s \<longrightarrow> is_thread n)) \<and>
     (\<forall>p n. js_pc s p = JoinParked n \<longrightarrow> has_permit (js_sched s) p \<or> (n \<in> pending s \<and> held s p n))"

lemma join_invI:
  assumes "sl_value (js_slot s) \<noteq> None \<Longrightarrow> sl_waiters (js_slot s) = []"
    "\<And>n. n \<in> pending s \<Longrightarrow> allocated (js_sched s) n"
    "\<And>p n. js_pc s p = JoinLock n \<Longrightarrow> held s p n"
    "\<And>p n. js_pc s p = JoinLock n \<Longrightarrow> n \<in> pending s \<Longrightarrow> is_thread n"
    "\<And>p n. js_pc s p = JoinParked n \<Longrightarrow> \<not> has_permit (js_sched s) p \<Longrightarrow> n \<in> pending s \<and> held s p n"
  shows "join_inv s"
  using assms unfolding join_inv_def by blast

lemma join_invD:
  assumes "join_inv s"
  shows "sl_value (js_slot s) \<noteq> None \<Longrightarrow> sl_waiters (js_slot s) = []"
    "n \<in> pending s \<Longrightarrow> allocated (js_sched s) n"
    "js_pc s p = JoinLock n \<Longrightarrow> held s p n"
    "js_pc s p = JoinLock n \<Longrightarrow> n \<in> pending s \<Longrightarrow> is_thread n"
    "js_pc s p = JoinParked n \<Longrightarrow> \<not> has_permit (js_sched s) p \<Longrightarrow> n \<in> pending s \<and> held s p n"
  using assms unfolding join_inv_def by blast+

lemma pending_iff:
  "n \<in> pending s \<longleftrightarrow> n \<in> set (sl_waiters (js_slot s)) \<or> (\<exists>q. n \<in> set (waking (js_pc s q)))"
  by (auto simp: pending_def)

lemma jgoto_slot: "js_slot (jgoto p c t) = js_slot t"
  by (simp add: jgoto_def)

lemma waking_simps [simp]:
  "waking JIdle = []" "waking JoinStart = []" "waking (JoinLock n) = []" "waking (JoinParked n) = []"
  "waking (JoinDone r) = []" "waking (Completing r) = []" "waking (Waking ws) = ws"
  by (simp_all add: waking_def)

lemma waking_same: "waking c = waking (f p) \<Longrightarrow> waking ((f(p := c)) q) = waking (f q)"
  by simp

lemma pending_goto:
  "waking c = waking (js_pc s p) \<Longrightarrow> js_pc t = js_pc s \<Longrightarrow> sl_waiters (js_slot t) = sl_waiters (js_slot s) \<Longrightarrow>
   pending (jgoto p c t) = pending s"
  by (simp add: pending_def jgoto_def waking_same del: fun_upd_apply)

definition quiet :: "'v join_pc \<Rightarrow> bool" where
  "quiet c = (case c of JoinLock _ \<Rightarrow> False | JoinParked _ \<Rightarrow> False | _ \<Rightarrow> True)"

lemma quiet_simps [simp]:
  "quiet JIdle" "quiet JoinStart" "\<not> quiet (JoinLock n)" "\<not> quiet (JoinParked n)"
  "quiet (JoinDone r)" "quiet (Completing r)" "quiet (Waking ws)"
  by (simp_all add: quiet_def)

text \<open>A move of one process that leaves the rest alone and neither locks nor parks.\<close>

lemma join_inv_goto:
  assumes "join_inv s" "waking c = waking (js_pc s p)" "quiet c"
  shows "join_inv (jgoto p c s)"
proof -
  note inv = join_invD [OF assms(1)]
  have same: "js_sched (jgoto p c s) = js_sched s" "js_slot (jgoto p c s) = js_slot s"
      "held (jgoto p c s) = held s"
    by (simp_all add: jgoto_def held_def fun_eq_iff)
  have pc: "js_pc (jgoto p c s) q = (if q = p then c else js_pc s q)" for q by (simp add: jgoto_def)
  show ?thesis
    by (rule join_invI) (use inv assms(3) in \<open>auto simp: same pc pending_goto [OF assms(2)] split: if_splits\<close>)
qed

lemma start_inv:
  assumes inv: "join_inv s" and pc: "js_pc s p = JoinStart"
    and fresh: "notify_current p (js_sched s) = (n, sc)"
  shows "join_inv (jgoto p (JoinLock n) (s\<lparr>js_sched := sc\<rparr>))" (is "join_inv ?t")
proof -
  have pend: "pending ?t = pending s" using pc by (intro pending_goto) simp_all
  have held: "held ?t q m" if "held s q m" for q m
    using that ntf.fresh_old [OF fresh] by (simp add: held_def jgoto_def)
  have own: "held ?t p n" using ntf.fresh_new [OF fresh] by (simp add: held_def jgoto_def)
  have permit: "has_permit (js_sched ?t) q = has_permit (js_sched s) q" for q
    using ntf.fresh_ready [OF fresh] by (simp add: jgoto_def)
  have alloc: "allocated (js_sched s) m \<Longrightarrow> allocated (js_sched ?t) m"
    "\<not> is_thread n \<Longrightarrow> \<not> allocated (js_sched s) n" for m
    using fresh by (auto simp: jgoto_def notify_current_def new_waker_for_current_def allocated_def
        is_thread_def split: if_splits notify.splits)
  have pcs: "js_pc ?t q = (if q = p then JoinLock n else js_pc s q)" for q by (simp add: jgoto_def)
  have slot: "js_slot ?t = js_slot s" by (simp add: jgoto_def)
  note facts = join_invD [OF inv]
  show ?thesis
    by (rule join_invI) (use facts held own alloc in \<open>auto simp: pend pcs slot permit split: if_splits\<close>)
qed

lemma join_lock_inv:
  assumes inv: "join_inv s" and pc: "js_pc s p = JoinLock n" and none: "sl_value (js_slot s) = None"
  shows "join_inv (jgoto p (JoinParked n)
    (s\<lparr>js_slot := (js_slot s)\<lparr>sl_waiters := sl_waiters (js_slot s) @ [n]\<rparr>\<rparr>))" (is "join_inv ?t")
proof -
  have "waking (((js_pc s)(p := JoinParked n)) q) = waking (js_pc s q)" for q
    by (rule waking_same) (simp add: pc)
  then have pend: "pending ?t = insert n (pending s)" by (auto simp: pending_def jgoto_def simp del: fun_upd_apply)
  have held: "held ?t = held s" by (simp add: held_def jgoto_def fun_eq_iff)
  have pcs: "js_pc ?t q = (if q = p then JoinParked n else js_pc s q)" for q by (simp add: jgoto_def)
  have rest: "js_sched ?t = js_sched s" "sl_value (js_slot ?t) = None" using none by (simp_all add: jgoto_def)
  have mine: "held s p n" by (rule join_invD(3) [OF inv pc])
  then have alloc: "allocated (js_sched s) n"
    by (auto simp: held_def allocated_def notify_live_def split: notify.splits)
  have other: "q = p" if "held s q n" for q using that mine by (simp add: held_def)
  note facts = join_invD [OF inv]
  show ?thesis
  proof (rule join_invI)
    fix q m assume "js_pc ?t q = JoinLock m"
    then have q: "js_pc s q = JoinLock m" "q \<noteq> p" by (auto simp: pcs split: if_splits)
    show "held ?t q m" using facts(3) [OF q(1)] by (simp add: held)
    show "is_thread m" if "m \<in> pending ?t"
      using that facts(4) [OF q(1)] other [of q] facts(3) [OF q(1)] q(2) by (auto simp: pend)
  next
    fix q m assume "js_pc ?t q = JoinParked m" "\<not> has_permit (js_sched ?t) q"
    then have "(if q = p then JoinParked n else js_pc s q) = JoinParked m" "\<not> has_permit (js_sched s) q"
      unfolding pcs rest by simp_all
    then show "m \<in> pending ?t \<and> held ?t q m"
      unfolding pend held using facts(5) [of q m] mine by (auto split: if_splits)
  qed (use facts(2) alloc in \<open>auto simp: pend rest\<close>)
qed

lemma park_inv:
  assumes inv: "join_inv s" and pc: "js_pc s p = JoinParked n" and park: "park_returns n p (js_sched s) = Some sc"
  shows "join_inv (jgoto p JoinStart (s\<lparr>js_sched := sc\<rparr>))" (is "join_inv ?t")
proof -
  have pend: "pending ?t = pending s" using pc by (intro pending_goto) simp_all
  have same: "notify_live sc = notify_live (js_sched s)" "notify_owner sc = notify_owner (js_sched s)"
      "allocated sc = allocated (js_sched s)"
      "q \<noteq> p \<Longrightarrow> has_permit sc q = has_permit (js_sched s) q" for q
    using park by (auto simp: park_returns_def fun_eq_iff notify_live_def notify_owner_def allocated_def
        has_permit_def split: notify.splits if_splits)
  have held: "held ?t = held s" by (simp add: held_def jgoto_def fun_eq_iff same)
  have pcs: "js_pc ?t q = (if q = p then JoinStart else js_pc s q)" for q by (simp add: jgoto_def)
  have rest: "js_sched ?t = sc" "js_slot ?t = js_slot s" by (simp_all add: jgoto_def)
  note facts = join_invD [OF inv]
  show ?thesis
    by (rule join_invI) (use facts same(4) in \<open>auto simp: pend pcs rest held same(3) split: if_splits\<close>)
qed

lemma slot_inv:
  assumes inv: "join_inv s" and pend: "pending (jgoto p c (s\<lparr>js_slot := sl\<rparr>)) = pending s"
    and sl: "sl_value sl \<noteq> None \<Longrightarrow> sl_waiters sl = []" and c: "quiet c"
  shows "join_inv (jgoto p c (s\<lparr>js_slot := sl\<rparr>))" (is "join_inv ?t")
proof -
  have held: "held ?t = held s" by (simp add: held_def jgoto_def fun_eq_iff)
  have pcs: "js_pc ?t q = (if q = p then c else js_pc s q)" for q by (simp add: jgoto_def)
  have rest: "js_sched ?t = js_sched s" "js_slot ?t = sl" by (simp_all add: jgoto_def)
  note facts = join_invD [OF inv]
  show ?thesis
    by (rule join_invI) (use facts sl c in \<open>auto simp: pend pcs rest held split: if_splits\<close>)
qed

lemma fire_inv:
  assumes inv: "join_inv s" and pc: "js_pc s p = Waking (w # ws)"
  shows "join_inv (jgoto p (Waking ws) (s\<lparr>js_sched := notify_fire w (js_sched s)\<rparr>))" (is "join_inv ?t")
proof -
  let ?sc = "js_sched s"
  have pend: "n \<in> pending ?t \<Longrightarrow> n \<in> pending s" "n \<in> pending s \<Longrightarrow> n \<noteq> w \<Longrightarrow> n \<in> pending ?t" for n
  proof -
    have t: "n \<in> set (waking (js_pc ?t q)) \<longleftrightarrow> n \<in> (if q = p then set ws else set (waking (js_pc s q)))" for q
      by (simp add: jgoto_def)
    have "n \<in> set (waking (js_pc s p)) \<longleftrightarrow> n = w \<or> n \<in> set ws" using pc by simp
    with t show "n \<in> pending ?t \<Longrightarrow> n \<in> pending s" "n \<in> pending s \<Longrightarrow> n \<noteq> w \<Longrightarrow> n \<in> pending ?t"
      unfolding pending_iff jgoto_slot by (auto split: if_splits) metis
  qed
  have w: "w \<in> pending s" using pc by (auto simp: pending_iff intro!: exI [of _ p])
  have alloc: "allocated (js_sched ?t) n = allocated ?sc n" for n
    by (auto simp: jgoto_def allocated_def notify_fire_def waker_wake_def enqueue_def thread_unpark_def
        split: notify.splits)
  have held: "held ?t q n" if "held s q n" "n \<noteq> w \<or> is_thread n" for q n
  proof -
    have "notify_live (notify_fire w ?sc) n"
      using that ntf.fire_live [of ?sc n w] by (auto simp: held_def notify_live_def is_thread_def split: notify.splits)
    then show ?thesis using that(1) ntf.fire_owner [of w ?sc n] by (simp add: held_def jgoto_def)
  qed
  have permit: "has_permit (js_sched ?t) q" if "has_permit ?sc q \<or> held s q w" for q
    using that ntf.fire_keeps [of ?sc q w] ntf.fire_ready [of ?sc w] by (auto simp: held_def jgoto_def)
  have pcs: "js_pc ?t q = (if q = p then Waking ws else js_pc s q)" for q by (simp add: jgoto_def)
  have slot: "js_slot ?t = js_slot s" by (simp add: jgoto_def)
  note facts = join_invD [OF inv]
  show ?thesis
  proof (rule join_invI)
    fix q n assume "js_pc ?t q = JoinLock n"
    then have q: "js_pc s q = JoinLock n" by (simp add: pcs split: if_splits)
    then show "held ?t q n" using facts(3,4) w by (intro held) auto
    show "is_thread n" if "n \<in> pending ?t" using facts(4) [OF q] pend(1) [OF that] by simp
  next
    fix q n assume a: "js_pc ?t q = JoinParked n" "\<not> has_permit (js_sched ?t) q"
    then have q: "js_pc s q = JoinParked n" by (simp add: pcs split: if_splits)
    then have "n \<in> pending s" "held s q n" "n \<noteq> w" using facts(5) [OF q] a(2) permit by blast+
    then show "n \<in> pending ?t \<and> held ?t q n" using pend(2) held by blast
  qed (use facts alloc pend(1) in \<open>simp_all add: slot\<close>)
qed

text \<open>The invariant does not look at the recorded results.\<close>

lemma join_inv_recorded:
  "join_inv s \<Longrightarrow> js_slot t = js_slot s \<Longrightarrow> js_sched t = js_sched s \<Longrightarrow> js_pc t = js_pc s \<Longrightarrow> join_inv t"
  by (simp add: join_inv_def pending_def held_def)

lemma proceed_join_inv:
  assumes "join_inv s" "join_proceed p c s = Some s'" "js_pc s p = c"
  shows "join_inv s'"
proof (cases c)
  case JoinStart
  obtain n sc where "notify_current p (js_sched s) = (n, sc)" by (cases "notify_current p (js_sched s)")
  then show ?thesis using assms JoinStart start_inv by auto
next
  case (JoinLock n)
  show ?thesis
  proof (cases "sl_value (js_slot s)")
    case None
    then show ?thesis using assms JoinLock join_lock_inv [of s p n] by (simp add: join_locked_def)
  next
    case (Some r)
    let ?t = "s\<lparr>js_slot := (js_slot s)\<lparr>sl_value := None\<rparr>\<rparr>"
    have "join_inv (jgoto p (JoinDone r) ?t)"
      using assms JoinLock by (intro slot_inv pending_goto) simp_all
    then show ?thesis
      by (rule join_inv_recorded) (use assms(2) JoinLock Some in \<open>auto simp: join_locked_def jgoto_def\<close>)
  qed
next
  case (JoinParked n)
  then show ?thesis using assms park_inv by (auto split: option.splits)
next
  case (Completing r)
  let ?t = "jgoto p (Waking (sl_waiters (js_slot s)))
    (s\<lparr>js_slot := (js_slot s)\<lparr>sl_value := Some r, sl_waiters := []\<rparr>\<rparr>)"
  have "n \<in> pending ?t \<longleftrightarrow> n \<in> pending s" for n
    using assms(3) Completing by (auto simp: pending_iff jgoto_def) (metis list.set(1) empty_iff waking_simps(6))
  then have "join_inv ?t" using assms by (intro slot_inv) auto
  then show ?thesis
    by (rule join_inv_recorded) (use assms(2) Completing in \<open>auto simp: complete_locked_def jgoto_def\<close>)
next
  case (Waking ws)
  then show ?thesis using assms fire_inv join_inv_goto [of s JIdle p] by (cases ws) auto
qed (use assms join_inv_goto [of s JIdle p] in auto)

lemma step_join_inv: "join_step s s' \<Longrightarrow> join_inv s \<Longrightarrow> join_inv s'"
  by (induction rule: join_step.induct) (auto intro: proceed_join_inv join_inv_goto)

lemma join_reachable_inv:
  assumes "join_reachable s"
  shows "join_inv s \<and> result_inv s"
  using assms
proof induction
  case (init tasks)
  show ?case
    by (auto simp: join_inv_def result_inv_def join_init_def new_slot_def pending_def)
next
  case (next_step s s')
  from next_step.hyps(2) have "result_inv s'"
    using next_step.IH by cases (auto simp: proceed_result, auto simp: result_inv_def jgoto_def)
  then show ?case using next_step step_join_inv by blast
qed

text \<open>C24: a task's result is never missed and never given twice. In every state reachable by any
  interleaving of completions and joins, a joiner that is parked without a permit to go on finds
  the slot empty, or a completion that took its notification is about to fire it; and the results
  handed to joiners, together with the one in the slot, are among the completed ones, each at most
  as often as it was completed.\<close>

theorem join_no_lost_result:
  assumes "join_reachable s"
  shows "(js_pc s p = JoinParked n \<and> \<not> has_permit (js_sched s) p \<longrightarrow>
      sl_value (js_slot s) = None \<or> (\<exists>q ws. js_pc s q = Waking ws \<and> n \<in> set ws)) \<and>
    mset (js_joined s) + (case sl_value (js_slot s) of None \<Rightarrow> {#} | Some r \<Rightarrow> {#r#}) \<subseteq># mset (js_completed s)"
proof -
  note inv = join_reachable_inv [OF assms]
  have "sl_value (js_slot s) = None \<or> (\<exists>q ws. js_pc s q = Waking ws \<and> n \<in> set ws)"
    if "js_pc s p = JoinParked n" "\<not> has_permit (js_sched s) p"
  proof (rule disjCI)
    assume no: "\<not> (\<exists>q ws. js_pc s q = Waking ws \<and> n \<in> set ws)"
    have "n \<in> pending s" using join_invD(5) inv that by blast
    moreover have "n \<notin> set (waking (js_pc s q))" for q using no by (cases "js_pc s q") auto
    ultimately have "sl_waiters (js_slot s) \<noteq> []" by (auto simp: pending_iff)
    then show "sl_value (js_slot s) = None" using join_invD(1) inv by blast
  qed
  then show ?thesis using inv by (simp add: result_inv_def)
qed

text \<open>A joiner parks, the task completes with 7, and the joiner still has to be woken.\<close>

definition join_demo :: "int join_system list" where
  "join_demo =
    (let s0 = join_init (\<lambda>p. p = 0);
         s1 = jgoto 0 JoinStart s0;
         s2 = the (join_proceed 0 (js_pc s1 0) s1);
         s3 = the (join_proceed 0 (js_pc s2 0) s2);
         s4 = jgoto 1 (Completing (Inr 7)) s3;
         s5 = the (join_proceed 1 (js_pc s4 1) s4)
     in [s0, s1, s2, s3, s4, s5])"

lemmas join_eval = join_demo_def join_init_def new_slot_def join_defs notify_defs Let_def

lemma join_demo_reachable: "join_reachable (join_demo ! 5)"
proof -
  have move: "join_reachable s \<Longrightarrow> join_proceed p (js_pc s p) s \<noteq> None \<Longrightarrow>
      join_reachable (the (join_proceed p (js_pc s p) s))" for p and s :: "int join_system"
    by (metis option.collapse join_reachable.next_step join_step.proceed)
  have "join_demo ! 1 = jgoto 0 JoinStart (join_init (\<lambda>p. p = 0))"
      "join_demo ! 2 = the (join_proceed 0 (js_pc (join_demo ! 1) 0) (join_demo ! 1))"
      "join_demo ! 3 = the (join_proceed 0 (js_pc (join_demo ! 2) 0) (join_demo ! 2))"
      "join_demo ! 4 = jgoto 1 (Completing (Inr 7)) (join_demo ! 3)"
      "join_demo ! 5 = the (join_proceed 1 (js_pc (join_demo ! 4) 1) (join_demo ! 4))"
    by (simp_all add: join_demo_def Let_def)
  note runs = this
  have s1: "join_reachable (join_demo ! 1)"
    unfolding runs(1) by (rule join_reachable.next_step [OF join_reachable.init join_step.call_join])
      (simp add: join_eval)
  have s3: "join_reachable (join_demo ! 3)"
    unfolding runs(3) runs(2) by (intro move s1) (simp_all add: join_eval)
  have s4: "join_reachable (join_demo ! 4)"
    unfolding runs(4) by (intro join_reachable.next_step [OF s3] join_step.call_complete) (simp add: join_eval)
  show ?thesis unfolding runs(5) by (intro move s4) (simp add: join_eval)
qed

theorem join_no_lost_result_witness:
  "sl_value (js_slot (join_demo ! 5)) = Some (Inr 7) \<and>
   (\<exists>q ws. js_pc (join_demo ! 5) q = Waking ws \<and> NotifyTask 0 \<in> set ws)"
proof -
  have "js_pc (join_demo ! 5) 0 = JoinParked (NotifyTask 0)" "\<not> has_permit (js_sched (join_demo ! 5)) 0"
      "sl_value (js_slot (join_demo ! 5)) = Some (Inr 7)"
    by (simp_all add: join_eval)
  then show ?thesis using join_no_lost_result [OF join_demo_reachable, of 0 "NotifyTask 0"] by simp
qed

end
