(* ===== verification/Scheduler.thy ===== *)
theory Scheduler
  imports Prelude
begin

text \<open>
  Waiting until every task has finished, \<open>runtime/paco-runtime/src/scheduler.rs\<close>: the count of
  active tasks that \<open>spawn_raw\<close> and \<open>task_finished\<close> keep, and \<open>run_until_idle\<close>, which waits on the
  condition variable \<open>done\<close>.  A process is at a program counter between two atomic accesses or
  lock operations; \<open>Condvar::wait\<close> gives up the lock and joins the waiting processes in one step, and
  a waiting process may also wake up for no reason, as the standard library allows.
\<close>

section \<open>Counting active tasks\<close>

datatype sched_pc =
    SIdle
  | SpawnAdd
  | FinishSub | FinishLock | FinishNotify
  | IdleLock | IdleCheck | IdleWait | IdleWaiting | IdleWoken | IdleDone

record sched_state =
  ss_active :: nat
  ss_done :: bool
  ss_lock :: "nat option"
  ss_pc :: "nat \<Rightarrow> sched_pc"

definition sched_init :: sched_state where
  "sched_init = \<lparr>ss_active = 0, ss_done = False, ss_lock = None, ss_pc = (\<lambda>_. SIdle)\<rparr>"

definition sgoto :: "nat \<Rightarrow> sched_pc \<Rightarrow> sched_state \<Rightarrow> sched_state" where
  "sgoto p c s = s\<lparr>ss_pc := (ss_pc s)(p := c)\<rparr>"

text \<open>\<open>notify_all\<close>: every waiting process has to take the lock again.\<close>

definition notify_all :: "sched_state \<Rightarrow> sched_state" where
  "notify_all s = s\<lparr>ss_pc := (\<lambda>q. if ss_pc s q = IdleWaiting then IdleWoken else ss_pc s q)\<rparr>"

text \<open>\<open>task_finished\<close>: the last task takes the lock, sets the flag, gives the lock back, and notifies.\<close>

definition finish_sub :: "nat \<Rightarrow> sched_state \<Rightarrow> sched_state" where
  "finish_sub p s = sgoto p (if ss_active s = 1 then FinishLock else SIdle) (s\<lparr>ss_active := ss_active s - 1\<rparr>)"

definition finish_lock :: "nat \<Rightarrow> sched_state \<Rightarrow> sched_state option" where
  "finish_lock p s = (if ss_lock s = None then Some (sgoto p FinishNotify (s\<lparr>ss_done := True\<rparr>)) else None)"

text \<open>\<open>run_until_idle\<close>\<close>

definition acquire :: "nat \<Rightarrow> sched_state \<Rightarrow> sched_state option" where
  "acquire p s = (if ss_lock s = None then Some (sgoto p IdleCheck (s\<lparr>ss_lock := Some p\<rparr>)) else None)"

definition idle_check :: "nat \<Rightarrow> sched_state \<Rightarrow> sched_state" where
  "idle_check p s = (if 0 < ss_active s then sgoto p IdleWait s
     else sgoto p IdleDone (s\<lparr>ss_lock := None\<rparr>))"

fun sched_proceed :: "nat \<Rightarrow> sched_pc \<Rightarrow> sched_state \<Rightarrow> sched_state option" where
  "sched_proceed p SpawnAdd s = Some (sgoto p SIdle (s\<lparr>ss_active := ss_active s + 1\<rparr>))"
| "sched_proceed p FinishSub s = Some (finish_sub p s)"
| "sched_proceed p FinishLock s = finish_lock p s"
| "sched_proceed p FinishNotify s = Some (sgoto p SIdle (notify_all s))"
| "sched_proceed p IdleLock s = acquire p s"
| "sched_proceed p IdleCheck s = Some (idle_check p s)"
| "sched_proceed p IdleWait s = Some (sgoto p IdleWaiting (s\<lparr>ss_lock := None\<rparr>))"
| "sched_proceed p IdleWaiting s = Some (sgoto p IdleWoken s)"
| "sched_proceed p IdleWoken s = acquire p s"
| "sched_proceed p IdleDone s = Some (sgoto p SIdle s)"
| "sched_proceed p SIdle s = None"

text \<open>A task finishes once: there are never more finishing tasks than active ones.\<close>

definition finishing :: "sched_state \<Rightarrow> nat set" where
  "finishing s = {q. ss_pc s q = FinishSub}"

inductive sched_step :: "sched_state \<Rightarrow> sched_state \<Rightarrow> bool" where
  proceed: "sched_proceed p (ss_pc s p) s = Some s' \<Longrightarrow> sched_step s s'"
| call_spawn: "ss_pc s p = SIdle \<Longrightarrow> sched_step s (sgoto p SpawnAdd s)"
| call_finish: "ss_pc s p = SIdle \<Longrightarrow> card (finishing s) < ss_active s \<Longrightarrow> sched_step s (sgoto p FinishSub s)"
| call_idle: "ss_pc s p = SIdle \<Longrightarrow> sched_step s (sgoto p IdleLock s)"

inductive sched_reachable :: "sched_state \<Rightarrow> bool" where
  init: "sched_reachable sched_init"
| next_step: "sched_reachable s \<Longrightarrow> sched_step s s' \<Longrightarrow> sched_reachable s'"

lemmas sched_defs = sgoto_def notify_all_def finish_sub_def finish_lock_def acquire_def idle_check_def

section \<open>The idle waiter is woken\<close>

definition holds_lock :: "sched_pc \<Rightarrow> bool" where
  "holds_lock c \<longleftrightarrow> c = IdleCheck \<or> c = IdleWait"

definition idle_inv :: "sched_state \<Rightarrow> bool" where
  "idle_inv s \<longleftrightarrow>
     (\<forall>p. holds_lock (ss_pc s p) \<longrightarrow> ss_lock s = Some p) \<and>
     (\<forall>p. ss_pc s p = IdleWait \<longrightarrow> 0 < ss_active s \<or> (\<exists>q. ss_pc s q = FinishLock)) \<and>
     (\<forall>p. ss_pc s p = IdleWaiting \<longrightarrow>
        0 < ss_active s \<or> (\<exists>q. ss_pc s q = FinishLock \<or> ss_pc s q = FinishNotify))"

lemma idle_invI:
  assumes "\<And>p. holds_lock (ss_pc s p) \<Longrightarrow> ss_lock s = Some p"
    "\<And>p. ss_pc s p = IdleWait \<Longrightarrow> ss_active s = 0 \<Longrightarrow> \<exists>q. ss_pc s q = FinishLock"
    "\<And>p. ss_pc s p = IdleWaiting \<Longrightarrow> ss_active s = 0 \<Longrightarrow> \<exists>q. ss_pc s q = FinishLock \<or> ss_pc s q = FinishNotify"
  shows "idle_inv s"
  using assms unfolding idle_inv_def by (metis neq0_conv)

lemma idle_invD:
  assumes "idle_inv s"
  shows "holds_lock (ss_pc s p) \<Longrightarrow> ss_lock s = Some p"
    "ss_pc s p = IdleWait \<Longrightarrow> ss_active s = 0 \<Longrightarrow> \<exists>q. ss_pc s q = FinishLock"
    "ss_pc s p = IdleWaiting \<Longrightarrow> ss_active s = 0 \<Longrightarrow> \<exists>q. ss_pc s q = FinishLock \<or> ss_pc s q = FinishNotify"
  using assms unfolding idle_inv_def by (metis less_irrefl)+

lemma pc_sgoto: "ss_pc (sgoto p c s) q = (if q = p then c else ss_pc s q)"
  by (simp add: sgoto_def)

lemma rest_sgoto: "ss_active (sgoto p c s) = ss_active s" "ss_lock (sgoto p c s) = ss_lock s"
  by (simp_all add: sgoto_def)

text \<open>A step that keeps the count and the lock and neither leaves nor enters a critical state.\<close>

lemma idle_inv_move:
  assumes inv: "idle_inv s" and lock: "ss_lock t = ss_lock s" and pcs: "\<And>q. ss_pc t q = (if q = p then c else ss_pc s q)"
    and act: "ss_active s = 0 \<or> 0 < ss_active t \<or> c = FinishLock"
    and old: "ss_pc s p \<notin> {FinishLock, FinishNotify, IdleWait, IdleCheck}"
    and new: "c \<notin> {IdleCheck, IdleWait, IdleWaiting}"
  shows "idle_inv t"
proof (rule idle_invI)
  fix q assume "holds_lock (ss_pc t q)"
  then have "holds_lock (ss_pc s q)" using pcs [of q] new by (auto simp: holds_lock_def split: if_splits)
  then show "ss_lock t = Some q" using idle_invD(1) [OF inv] lock by simp
next
  fix q assume q: "ss_pc t q = IdleWait" "ss_active t = 0"
  show "\<exists>q. ss_pc t q = FinishLock"
  proof (cases "c = FinishLock")
    case True
    then show ?thesis using pcs [of p] by auto
  next
    case False
    have "ss_pc s q = IdleWait" using q(1) pcs [of q] new by (auto split: if_splits)
    then obtain r where "ss_pc s r = FinishLock" using idle_invD(2) [OF inv] act False q(2) by auto
    then show ?thesis using pcs [of r] old by (intro exI [of _ r]) auto
  qed
next
  fix q assume q: "ss_pc t q = IdleWaiting" "ss_active t = 0"
  show "\<exists>q. ss_pc t q = FinishLock \<or> ss_pc t q = FinishNotify"
  proof (cases "c = FinishLock")
    case True
    then show ?thesis using pcs [of p] by auto
  next
    case False
    have "ss_pc s q = IdleWaiting" using q(1) pcs [of q] new by (auto split: if_splits)
    then obtain r where "ss_pc s r = FinishLock \<or> ss_pc s r = FinishNotify"
      using idle_invD(3) [OF inv] act False q(2) by auto
    then show ?thesis using pcs [of r] old by (intro exI [of _ r]) auto
  qed
qed

lemma finish_lock_inv:
  assumes inv: "idle_inv s" and pc: "ss_pc s p = FinishLock" and t: "finish_lock p s = Some t"
  shows "idle_inv t"
proof -
  have free: "ss_lock s = None" and t: "t = sgoto p FinishNotify (s\<lparr>ss_done := True\<rparr>)"
    using t by (auto simp: finish_lock_def split: if_splits)
  have none: "\<not> holds_lock (ss_pc t q)" for q
    using idle_invD(1) [OF inv, of q] free by (auto simp: t pc_sgoto holds_lock_def)
  show ?thesis
  proof (rule idle_invI)
    show "ss_lock t = Some q" if "holds_lock (ss_pc t q)" for q using none that by blast
    show "\<exists>q. ss_pc t q = FinishLock" if "ss_pc t q = IdleWait" for q
      using none [of q] that by (simp add: holds_lock_def)
    show "\<exists>q. ss_pc t q = FinishLock \<or> ss_pc t q = FinishNotify"
      by (intro exI [of _ p]) (simp add: t pc_sgoto)
  qed
qed

lemma notify_inv:
  assumes inv: "idle_inv s" and pc: "ss_pc s p = FinishNotify"
  shows "idle_inv (sgoto p SIdle (notify_all s))" (is "idle_inv ?t")
proof -
  have pcs: "ss_pc ?t q = (if q = p then SIdle else if ss_pc s q = IdleWaiting then IdleWoken else ss_pc s q)" for q
    by (simp add: sgoto_def notify_all_def)
  show ?thesis
  proof (rule idle_invI)
    show "ss_lock ?t = Some q" if "holds_lock (ss_pc ?t q)" for q
      using that idle_invD(1) [OF inv, of q] pcs [of q]
      by (auto simp: holds_lock_def sgoto_def notify_all_def split: if_splits)
    show "\<exists>q. ss_pc ?t q = FinishLock" if "ss_pc ?t q = IdleWait" "ss_active ?t = 0" for q
    proof -
      have "ss_pc s q = IdleWait" "ss_active s = 0" using that pcs [of q]
        by (auto simp: sgoto_def notify_all_def split: if_splits)
      then obtain r where "ss_pc s r = FinishLock" using idle_invD(2) [OF inv] by blast
      then show ?thesis using pcs [of r] pc by (intro exI [of _ r]) auto
    qed
    show "\<exists>q. ss_pc ?t q = FinishLock \<or> ss_pc ?t q = FinishNotify" if "ss_pc ?t q = IdleWaiting" for q
      using that pcs [of q] by (auto split: if_splits)
  qed
qed

lemma acquire_inv:
  assumes inv: "idle_inv s" and pc: "ss_pc s p = IdleLock \<or> ss_pc s p = IdleWoken" and t: "acquire p s = Some t"
  shows "idle_inv t"
proof -
  have free: "ss_lock s = None" and t: "t = sgoto p IdleCheck (s\<lparr>ss_lock := Some p\<rparr>)"
    using t by (auto simp: acquire_def split: if_splits)
  have none: "\<not> holds_lock (ss_pc s q)" for q using idle_invD(1) [OF inv, of q] free by auto
  have pcs: "ss_pc t q = (if q = p then IdleCheck else ss_pc s q)" for q by (simp add: t sgoto_def)
  show ?thesis
  proof (rule idle_invI)
    show "ss_lock t = Some q" if "holds_lock (ss_pc t q)" for q
      using that none [of q] pcs [of q] by (auto simp: t sgoto_def split: if_splits)
    show "\<exists>q. ss_pc t q = FinishLock" if "ss_pc t q = IdleWait" for q
      using that none [of q] pcs [of q] by (auto simp: holds_lock_def split: if_splits)
    show "\<exists>q. ss_pc t q = FinishLock \<or> ss_pc t q = FinishNotify"
      if "ss_pc t q = IdleWaiting" "ss_active t = 0" for q
    proof -
      have "ss_pc s q = IdleWaiting" "ss_active s = 0"
        using that pcs [of q] by (auto simp: t sgoto_def split: if_splits)
      then obtain r where "ss_pc s r = FinishLock \<or> ss_pc s r = FinishNotify" using idle_invD(3) [OF inv] by blast
      then show ?thesis using pcs [of r] pc by (intro exI [of _ r]) auto
    qed
  qed
qed

text \<open>The holder of the lock moves on: to wait while tasks are active, or giving the lock back.\<close>

lemma holder_inv:
  assumes inv: "idle_inv s" and pc: "holds_lock (ss_pc s p)"
    and pcs: "\<And>q. ss_pc t q = (if q = p then c else ss_pc s q)" and act: "ss_active t = ss_active s"
    and lock: "if holds_lock c then ss_lock t = ss_lock s else ss_lock t = None"
    and c: "c = IdleWait \<Longrightarrow> 0 < ss_active s"
      "c = IdleWaiting \<Longrightarrow> ss_pc s p = IdleWait"
  shows "idle_inv t"
proof -
  have only: "q = p" if "holds_lock (ss_pc s q)" for q
    using idle_invD(1) [OF inv, of q] idle_invD(1) [OF inv, of p] that pc by simp
  have finish: "ss_pc t q = x" if "ss_pc s q = x" "x = FinishLock \<or> x = FinishNotify" for q x
    using that pcs [of q] pc by (auto simp: holds_lock_def)
  show ?thesis
  proof (rule idle_invI)
    show "ss_lock t = Some q" if "holds_lock (ss_pc t q)" for q
      using that only [of q] pcs [of q] lock idle_invD(1) [OF inv pc] by (auto split: if_splits)
    show "\<exists>q. ss_pc t q = FinishLock" if "ss_pc t q = IdleWait" "ss_active t = 0" for q
      using that only [of q] pcs [of q] c(1) act by (auto simp: holds_lock_def split: if_splits)
    show "\<exists>q. ss_pc t q = FinishLock \<or> ss_pc t q = FinishNotify"
      if q: "ss_pc t q = IdleWaiting" "ss_active t = 0" for q
    proof -
      have "ss_pc s q = IdleWaiting \<or> ss_pc s p = IdleWait" using q(1) pcs [of q] c(2) by (auto split: if_splits)
      then obtain r where "ss_pc s r = FinishLock \<or> ss_pc s r = FinishNotify"
        using idle_invD(2,3) [OF inv] q(2) act by metis
      then show ?thesis using finish by blast
    qed
  qed
qed

lemma proceed_idle_inv:
  assumes inv: "idle_inv s" and step: "sched_proceed p c s = Some t" and pc: "ss_pc s p = c"
  shows "idle_inv t"
proof (cases c)
  case IdleCheck
  have t: "t = idle_check p s" using step IdleCheck by simp
  show ?thesis
    by (rule holder_inv [OF inv, where p = p and c = "if 0 < ss_active s then IdleWait else IdleDone"])
      (use pc IdleCheck in \<open>auto simp: t idle_check_def sgoto_def holds_lock_def split: if_splits\<close>)
next
  case IdleWait
  then have t: "t = sgoto p IdleWaiting (s\<lparr>ss_lock := None\<rparr>)" using step by simp
  show ?thesis
    by (rule holder_inv [OF inv, where p = p and c = IdleWaiting])
      (use pc IdleWait in \<open>auto simp: t sgoto_def holds_lock_def\<close>)
next
  case SpawnAdd
  then have t: "t = sgoto p SIdle (s\<lparr>ss_active := ss_active s + 1\<rparr>)" using step by simp
  show ?thesis by (rule idle_inv_move [OF inv, where p = p and c = SIdle])
      (use pc SpawnAdd in \<open>auto simp: t sgoto_def\<close>)
next
  case FinishSub
  then have t: "t = finish_sub p s" using step by simp
  show ?thesis
    by (rule idle_inv_move [OF inv, where p = p and c = "if ss_active s = 1 then FinishLock else SIdle"])
      (use pc FinishSub in \<open>auto simp: t finish_sub_def sgoto_def\<close>)
next
  case IdleWaiting
  then have t: "t = sgoto p IdleWoken s" using step by simp
  show ?thesis by (rule idle_inv_move [OF inv, where p = p and c = IdleWoken])
      (use pc IdleWaiting in \<open>auto simp: t sgoto_def\<close>)
next
  case IdleDone
  then have t: "t = sgoto p SIdle s" using step by simp
  show ?thesis by (rule idle_inv_move [OF inv, where p = p and c = SIdle])
      (use pc IdleDone in \<open>auto simp: t sgoto_def\<close>)
next
  case FinishLock
  then show ?thesis using finish_lock_inv [OF inv, of p t] step pc by simp
next
  case FinishNotify
  then show ?thesis using notify_inv [OF inv] step pc by auto
next
  case IdleLock
  then show ?thesis using acquire_inv [OF inv, of p t] step pc by simp
next
  case IdleWoken
  then show ?thesis using acquire_inv [OF inv, of p t] step pc by simp
qed (use step in simp)

lemma reachable_idle_inv: "sched_reachable s \<Longrightarrow> idle_inv s"
proof (induction rule: sched_reachable.induct)
  case init
  show ?case by (rule idle_invI) (simp_all add: sched_init_def holds_lock_def)
next
  case (next_step s s')
  from next_step.hyps(2) show ?case
  proof cases
    case (proceed p)
    then show ?thesis using proceed_idle_inv next_step.IH by blast
  next
    case (call_spawn p)
    then show ?thesis
      by (intro idle_inv_move [OF next_step.IH, where p = p and c = SpawnAdd]) (auto simp: sgoto_def)
  next
    case (call_finish p)
    then show ?thesis
      by (intro idle_inv_move [OF next_step.IH, where p = p and c = FinishSub]) (auto simp: sgoto_def)
  next
    case (call_idle p)
    then show ?thesis
      by (intro idle_inv_move [OF next_step.IH, where p = p and c = IdleLock]) (auto simp: sgoto_def)
  qed
qed

text \<open>C23: waiting for idleness ends. In every interleaving, a process waiting in \<open>run_until_idle\<close> while
  no task is active is about to be woken: the last task that finished is between its decrement and
  its notification. At most one process is inside the lock, and \<open>run_until_idle\<close> returns only from
  a check that found no active task.\<close>

theorem idle_wait_is_woken:
  assumes "sched_reachable s"
  shows "(ss_pc s p = IdleWaiting \<and> ss_active s = 0 \<longrightarrow>
      (\<exists>q. ss_pc s q = FinishLock \<or> ss_pc s q = FinishNotify)) \<and>
    (holds_lock (ss_pc s p) \<and> holds_lock (ss_pc s q) \<longrightarrow> p = q) \<and>
    (sched_proceed p (ss_pc s p) s = Some t \<and> ss_pc t p = IdleDone \<longrightarrow> ss_active s = 0)"
proof (intro conjI impI)
  note inv = idle_invD [OF reachable_idle_inv [OF assms]]
  show "\<exists>q. ss_pc s q = FinishLock \<or> ss_pc s q = FinishNotify" if "ss_pc s p = IdleWaiting \<and> ss_active s = 0"
    using inv(3) that by blast
  show "p = q" if "holds_lock (ss_pc s p) \<and> holds_lock (ss_pc s q)" using inv(1) [of p] inv(1) [of q] that by simp
  show "ss_active s = 0" if "sched_proceed p (ss_pc s p) s = Some t \<and> ss_pc t p = IdleDone"
    using that by (cases "ss_pc s p") (auto simp: sched_defs split: if_splits)
qed

text \<open>One task is spawned, a process waits for it, and the task finishes.\<close>

definition demo_state :: "nat \<Rightarrow> nat option \<Rightarrow> sched_pc \<Rightarrow> sched_pc \<Rightarrow> sched_state" where
  "demo_state act lk c0 c1 = \<lparr>ss_active = act, ss_done = False, ss_lock = lk,
     ss_pc = (\<lambda>q. if q = 0 then c0 else if q = 1 then c1 else SIdle)\<rparr>"

lemma demo_move:
  assumes "sched_reachable (demo_state act lk c0 c1)"
    and "\<exists>p. sched_proceed p (ss_pc (demo_state act lk c0 c1) p) (demo_state act lk c0 c1) = Some s"
  shows "sched_reachable s"
  using assms sched_reachable.next_step sched_step.proceed by blast

lemma demo_goto:
  "sgoto 0 c (demo_state act lk c0 c1) = demo_state act lk c c1"
  "sgoto 1 c (demo_state act lk c0 c1) = demo_state act lk c0 c"
  by (simp_all add: sgoto_def demo_state_def fun_eq_iff)

lemma demo_updates:
  "demo_state act lk c0 c1\<lparr>ss_active := a\<rparr> = demo_state a lk c0 c1"
  "demo_state act lk c0 c1\<lparr>ss_lock := l\<rparr> = demo_state act l c0 c1"
  "ss_active (demo_state act lk c0 c1) = act" "ss_lock (demo_state act lk c0 c1) = lk"
  "ss_pc (demo_state act lk c0 c1) 0 = c0" "ss_pc (demo_state act lk c0 c1) 1 = c1"
  by (simp_all add: demo_state_def)

lemmas demo_simps = demo_updates demo_goto demo_goto(2) [simplified] demo_updates(6) [simplified]

lemma idle_demo_reachable: "sched_reachable (demo_state 0 None FinishLock IdleWaiting)"
proof -
  have "sched_init = demo_state 0 None SIdle SIdle" by (simp add: sched_init_def demo_state_def fun_eq_iff)
  then have start: "sched_reachable (demo_state 0 None SIdle SIdle)" using sched_reachable.init by simp
  from sched_reachable.next_step [OF this sched_step.call_spawn [of _ 0]]
  have "sched_reachable (demo_state 0 None SpawnAdd SIdle)" by (simp add: demo_simps)
  then have "sched_reachable (demo_state 1 None SIdle SIdle)"
    by (rule demo_move) (intro exI [of _ 0], simp add: demo_simps)
  from sched_reachable.next_step [OF this sched_step.call_idle [of _ 1]]
  have "sched_reachable (demo_state 1 None SIdle IdleLock)" by (simp add: demo_simps)
  then have "sched_reachable (demo_state 1 (Some 1) SIdle IdleCheck)"
    by (rule demo_move) (intro exI [of _ 1], simp add: acquire_def demo_simps)
  then have "sched_reachable (demo_state 1 (Some 1) SIdle IdleWait)"
    by (rule demo_move) (intro exI [of _ 1], simp add: idle_check_def demo_simps)
  then have waiting: "sched_reachable (demo_state 1 None SIdle IdleWaiting)"
    by (rule demo_move) (intro exI [of _ 1], simp add: demo_simps)
  have "finishing (demo_state 1 None SIdle IdleWaiting) = {}"
    by (auto simp: finishing_def demo_state_def split: if_splits)
  with sched_reachable.next_step [OF waiting sched_step.call_finish [of _ 0]]
  have "sched_reachable (demo_state 1 None FinishSub IdleWaiting)" by (simp add: demo_simps)
  then show ?thesis by (rule demo_move) (intro exI [of _ 0], simp add: finish_sub_def demo_simps)
qed

theorem idle_wait_is_woken_witness:
  "\<exists>q. ss_pc (demo_state 0 None FinishLock IdleWaiting) q \<in> {FinishLock, FinishNotify}"
  using idle_wait_is_woken [OF idle_demo_reachable, of 1] by (simp add: demo_state_def)

end
