(* ===== verification/Token.thy ===== *)
theory Token
  imports Span
begin

text \<open>Tokens of \<open>compiler/paco-syntax/src/lex.rs\<close>.\<close>

datatype (plugins only: code size) token_kind =
    TkFn | TkStruct | TkEnum | TkTrait | TkWhere | TkMethods | TkUse | TkLet | TkMut | TkConst
  | TkType | TkModule | TkPub | TkAs | TkExtern | TkUnsafe | TkSpawn | TkSelect | TkYield | TkIter
  | TkComptime | TkQuote | TkMatch | TkIf | TkElse | TkWhile | TkFor | TkIn | TkLoop | TkBreak
  | TkContinue | TkReturn | TkTrue | TkFalse | TkIdentifier | TkLifetime | TkInteger | TkFloat
  | TkString | TkChar | TkPlus | TkMinus | TkStar | TkSlash | TkPercent | TkEqual | TkEqualEqual
  | TkBang | TkBangEqual | TkLess | TkLessEqual | TkGreater | TkGreaterEqual | TkAndAnd | TkOrOr
  | TkArrow | TkColon | TkColonColon | TkComma | TkDot | TkDotDot | TkDotDotDot | TkDotDotEqual
  | TkSemicolon | TkFatArrow | TkAt | TkAmpersand | TkPipe | TkUnderscore | TkLeftParen
  | TkRightParen | TkLeftBrace | TkRightBrace | TkLeftBracket | TkRightBracket | TkQuestion
  | TkHash | TkCaret | TkTilde | TkError | TkEof

record token =
  tok_kind :: token_kind
  tok_lexeme :: string
  tok_span :: span

definition token_new :: "token_kind \<Rightarrow> string \<Rightarrow> span \<Rightarrow> token" where
  "token_new k lexeme sp = \<lparr>tok_kind = k, tok_lexeme = lexeme, tok_span = sp\<rparr>"

end
