(* ===== verification/ParserState.thy ===== *)
theory ParserState
  imports Token Diag
begin

text \<open>
  The state of the parser of \<open>compiler/paco-syntax/src/parse.rs\<close> and the functions every production
  is built from: looking at tokens, consuming them, reporting and skipping to a safe place.

  A parsing function maps the parser to an outcome and the parser it leaves behind: a value, the
  error \<open>ParseError\<close> (after which the state is kept, as \<open>?\<close> keeps it), a panic (a read past the last
  token), or \<open>PNoFuel\<close>, which only says that the bound on recursion or on a loop given to the model
  was too small.  \<open>and_then\<close> is the operator \<open>?\<close> followed by the rest of the function, and
  \<open>iterate\<close> is \<open>loop\<close> and \<open>while\<close>: its body gives \<open>Inl\<close> to go round again and \<open>Inr\<close> to leave.

  The second part is the contract every production keeps, \<open>runs\<close>, with one rule per construct: it
  ends without a panic, never moves back, leaves the tokens and the flags alone, reports only errors,
  reports one whenever it fails, and consumes a token where the loops and recursions around it rely
  on that.  The contract compares two parsers that differ only in their bounds, so that it
  also shows that a larger bound changes nothing.
\<close>

section \<open>State and outcomes\<close>

datatype 'a outcome = POk 'a | PErr | PPanic | PNoFuel

record parser =
  ps_tokens :: "token list"
  ps_reporter :: reporter
  ps_current :: nat
  ps_allow_struct_literals :: bool
  ps_allow_existentials :: bool

type_synonym 'a parse = "parser \<Rightarrow> 'a outcome \<times> parser"

definition ret :: "'a \<Rightarrow> 'a parse" where
  "ret x s = (POk x, s)"

definition fail :: "'a parse" where
  "fail s = (PErr, s)"

definition and_then :: "'a parse \<Rightarrow> ('a \<Rightarrow> 'b parse) \<Rightarrow> 'b parse" where
  "and_then m f s = (case m s of
     (POk x, s) \<Rightarrow> f x s
   | (PErr, s) \<Rightarrow> (PErr, s)
   | (PPanic, s) \<Rightarrow> (PPanic, s)
   | (PNoFuel, s) \<Rightarrow> (PNoFuel, s))"

primrec iterate :: "nat \<Rightarrow> ('a \<Rightarrow> ('a + 'b) parse) \<Rightarrow> 'a \<Rightarrow> 'b parse" where
  "iterate 0 body x = (\<lambda>s. (PNoFuel, s))"
| "iterate (Suc n) body x = and_then (body x) (\<lambda>r. case r of
     Inl x \<Rightarrow> iterate n body x
   | Inr y \<Rightarrow> ret y)"

section \<open>Tokens\<close>

definition peek_token :: "token parse" where
  "peek_token s = (if ps_current s < length (ps_tokens s)
     then (POk (ps_tokens s ! ps_current s), s) else (PPanic, s))"

definition token_at :: "nat \<Rightarrow> token option parse" where
  "token_at k s = (POk (vec_get (ps_tokens s) (ps_current s + k)), s)"

definition peek_next_token :: "token option parse" where
  "peek_next_token = token_at 1"

definition kind_in :: "token_kind list \<Rightarrow> token option \<Rightarrow> bool" where
  "kind_in ks t = (case t of Some t \<Rightarrow> tok_kind t \<in> set ks | None \<Rightarrow> False)"

definition next_is :: "token_kind list \<Rightarrow> bool parse" where
  "next_is ks = (and_then peek_next_token (\<lambda>next.
    ret (kind_in ks next)))"

definition previous_token :: "token parse" where
  "previous_token s = (if ps_current s - 1 < length (ps_tokens s)
     then (POk (ps_tokens s ! (ps_current s - 1)), s) else (PPanic, s))"

definition check :: "token_kind \<Rightarrow> bool parse" where
  "check k = (and_then peek_token (\<lambda>t.
    ret (tok_kind t = k)))"

text \<open>\<open>check\<close> of one of several kinds, as the source writes with \<open>||\<close> or \<open>matches!\<close>.\<close>

definition check_any :: "token_kind list \<Rightarrow> bool parse" where
  "check_any ks = (and_then peek_token (\<lambda>t.
    ret (tok_kind t \<in> set ks)))"

definition step_forward :: "unit parse" where
  "step_forward s = (POk (), s\<lparr>ps_current := ps_current s + 1\<rparr>)"

definition advance_token :: "token parse" where
  "advance_token = (and_then (check TkEof) (\<lambda>at_end.
    and_then ((if at_end then ret () else step_forward)) (\<lambda>_.
    previous_token)))"

definition matches :: "token_kind \<Rightarrow> bool parse" where
  "matches k = (and_then (check k) (\<lambda>here.
    if here then (and_then advance_token (\<lambda>_.
      ret True)) else ret False))"

section \<open>Reports\<close>

definition push_diagnostic :: "diagnostic \<Rightarrow> unit parse" where
  "push_diagnostic d s = (POk (), s\<lparr>ps_reporter := report d (ps_reporter s)\<rparr>)"

definition push_error :: "string \<Rightarrow> span \<Rightarrow> string \<Rightarrow> unit parse" where
  "push_error code sp msg = push_diagnostic (diagnostic_error code sp msg)"

definition error_here :: "string \<Rightarrow> string \<Rightarrow> unit parse" where
  "error_here code msg = (and_then peek_token (\<lambda>t.
    push_error code (tok_span t) msg))"

text \<open>\<open>error_here\<close> followed by \<open>Err(ParseError)\<close>.\<close>

definition fail_here :: "string \<Rightarrow> string \<Rightarrow> 'a parse" where
  "fail_here code msg = (and_then (error_here code msg) (\<lambda>_.
    fail))"

definition consume :: "token_kind \<Rightarrow> string \<Rightarrow> token parse" where
  "consume k msg = (and_then (check k) (\<lambda>here.
    if here then advance_token else fail_here ''PACO-E0112'' msg))"

definition consume_identifier :: "string \<Rightarrow> string parse" where
  "consume_identifier msg = (and_then (consume TkIdentifier msg) (\<lambda>t.
    ret (tok_lexeme t)))"

definition missing_separator :: "string \<Rightarrow> string \<Rightarrow> string \<Rightarrow> unit parse" where
  "missing_separator code separator msg = (and_then previous_token (\<lambda>prev.
    let at = span_new (span_file_id (tok_span prev)) (span_end (tok_span prev)) (span_end (tok_span prev)) in
    and_then peek_token (\<lambda>t.
    push_diagnostic (with_suggestion (suggestion_new at separator (''insert `'' @ separator @ ''` here''))
(with_secondary (tok_span t)
(if separator = '';'' then ''the next statement starts here'' else ''the next member starts here'')
(diagnostic_error code at msg))))))"

definition expect_semicolon :: "unit parse" where
  "expect_semicolon = (and_then (matches TkSemicolon) (\<lambda>here.
    if here then ret () else missing_separator ''PACO-E0115'' '';'' ''expected `;` after this statement''))"

text \<open>A member that is not followed by a comma or by the closing token.\<close>

definition expect_comma :: "bool \<Rightarrow> string \<Rightarrow> unit parse" where
  "expect_comma optional msg = (and_then (matches TkComma) (\<lambda>comma.
    and_then (check TkRightBrace) (\<lambda>close.
    if \<not> comma \<and> \<not> close \<and> \<not> optional then missing_separator ''PACO-E0112'' '','' msg else ret ())))"

text \<open>\<open>while !self.check(Eof) && !matches!(self.peek().kind, ...) { self.advance(); }\<close>\<close>

definition skip_until :: "nat \<Rightarrow> token_kind list \<Rightarrow> unit parse" where
  "skip_until fuel ks = iterate fuel (\<lambda>_. (and_then (check_any (TkEof # ks)) (\<lambda>stop.
    if stop then ret (Inr ()) else (and_then advance_token (\<lambda>_.
      ret (Inl ())))))) ()"

definition synchronize_item :: "nat \<Rightarrow> unit parse" where
  "synchronize_item fuel = skip_until fuel [TkFn, TkStruct, TkEnum, TkMethods, TkUse, TkTrait]"

definition synchronize_trait_member :: "nat \<Rightarrow> unit parse" where
  "synchronize_trait_member fuel = skip_until fuel [TkRightBrace, TkFn, TkType, TkConst]"

section \<open>Positions and flags\<close>

definition peek_span :: "span parse" where
  "peek_span = (and_then peek_token (\<lambda>t.
    ret (tok_span t)))"

definition previous_span :: "span parse" where
  "previous_span = (and_then previous_token (\<lambda>t.
    ret (tok_span t)))"

text \<open>\<open>Span::new(self.previous().span.file_id(), start, self.previous().span.end())\<close>\<close>

definition span_from :: "nat \<Rightarrow> span parse" where
  "span_from start = (and_then previous_span (\<lambda>sp.
    ret (span_new (span_file_id sp) start (span_end sp))))"

definition allows_struct_literals :: "bool parse" where
  "allows_struct_literals s = (POk (ps_allow_struct_literals s), s)"

definition allows_existentials :: "bool parse" where
  "allows_existentials s = (POk (ps_allow_existentials s), s)"

text \<open>The bodies of \<open>expr_without_struct_literals\<close> and of \<open>existential_ty\<close>: the flag is set for the
  call and put back after it, also when the call fails.\<close>

definition without_struct_literals :: "'a parse \<Rightarrow> 'a parse" where
  "without_struct_literals m s =
    (let previous = ps_allow_struct_literals s;
         (result, s) = m (s\<lparr>ps_allow_struct_literals := False\<rparr>)
     in (result, s\<lparr>ps_allow_struct_literals := previous\<rparr>))"

definition with_existentials :: "'a parse \<Rightarrow> 'a parse" where
  "with_existentials m s =
    (let outer = ps_allow_existentials s;
         (result, s) = m (s\<lparr>ps_allow_existentials := True\<rparr>)
     in (result, s\<lparr>ps_allow_existentials := outer\<rparr>))"

text \<open>The span from the start of one span to the end of another, in the file of the first.\<close>

definition span_to :: "span \<Rightarrow> span \<Rightarrow> span" where
  "span_to a b = span_new (span_file_id a) (span_start a) (span_end b)"

definition span_since :: "span \<Rightarrow> span parse" where
  "span_since a = (and_then previous_span (\<lambda>sp.
    ret (span_to a sp)))"

section \<open>Common shapes of productions\<close>

text \<open>\<open>if self.matches(k) { Some(p()?) } else { None }\<close>\<close>

definition optional :: "token_kind \<Rightarrow> 'a parse \<Rightarrow> 'a option parse" where
  "optional k p = (and_then (matches k) (\<lambda>here.
    if here then (and_then p (\<lambda>x.
      ret (Some x))) else ret None))"

text \<open>\<open>loop { xs.push(p()?); if !self.matches(sep) { break; } }\<close>\<close>

definition separated :: "nat \<Rightarrow> token_kind \<Rightarrow> 'a parse \<Rightarrow> 'a list parse" where
  "separated fuel sep p = iterate fuel (\<lambda>xs. (and_then p (\<lambda>x.
    and_then (matches sep) (\<lambda>more.
    ret (if more then Inl (xs @ [x]) else Inr (xs @ [x])))))) []"

text \<open>The same, unless the closing token follows at once.\<close>

definition separated_unless :: "nat \<Rightarrow> token_kind \<Rightarrow> 'a parse \<Rightarrow> 'a list parse" where
  "separated_unless fuel close p = (and_then (check close) (\<lambda>empty.
    if empty then ret [] else separated fuel TkComma p))"

text \<open>\<open>loop { xs.push(p()?); if !self.matches(Comma) || self.check(close) { break; } }\<close>\<close>

definition separated_trailing :: "nat \<Rightarrow> token_kind \<Rightarrow> 'a parse \<Rightarrow> 'a list parse" where
  "separated_trailing fuel close p = iterate fuel (\<lambda>xs. (and_then p (\<lambda>x.
    and_then (matches TkComma) (\<lambda>more.
    and_then (check close) (\<lambda>last.
    ret (if more \<and> \<not> last then Inl (xs @ [x]) else Inr (xs @ [x]))))))) []"

text \<open>\<open>while !self.check(close) { xs.push(p()?); if !self.matches(Comma) { break; } }\<close>\<close>

definition separated_until :: "nat \<Rightarrow> token_kind \<Rightarrow> 'a parse \<Rightarrow> 'a list parse" where
  "separated_until fuel close p = iterate fuel (\<lambda>xs. (and_then (check close) (\<lambda>stop.
    if stop then ret (Inr xs) else (and_then p (\<lambda>x.
      and_then (matches TkComma) (\<lambda>more.
      ret (if more then Inl (xs @ [x]) else Inr (xs @ [x])))))))) []"

text \<open>\<open>while self.matches(sep) { xs.push(p()?); }\<close>\<close>

definition continued :: "nat \<Rightarrow> token_kind \<Rightarrow> 'a parse \<Rightarrow> 'a list \<Rightarrow> 'a list parse" where
  "continued fuel sep p xs = iterate fuel (\<lambda>xs. (and_then (matches sep) (\<lambda>more.
    if more then (and_then p (\<lambda>x.
      ret (Inl (xs @ [x])))) else ret (Inr xs)))) xs"

text \<open>\<open>while !self.check(RightBrace) && !self.check(Eof) { ... }\<close>, the members of a body.\<close>

definition members :: "nat \<Rightarrow> ('a \<Rightarrow> 'a parse) \<Rightarrow> 'a \<Rightarrow> 'a parse" where
  "members fuel member x = iterate fuel (\<lambda>x. (and_then (check_any [TkRightBrace, TkEof]) (\<lambda>stop.
    if stop then ret (Inr x) else (and_then (member x) (\<lambda>x.
      ret (Inl x)))))) x"

text \<open>A chain of \<open>if self.matches(k) { return ...; }\<close>.\<close>

fun alternatives :: "(token_kind \<times> 'a parse) list \<Rightarrow> 'a parse \<Rightarrow> 'a parse" where
  "alternatives [] otherwise = otherwise"
| "alternatives ((k, p) # rest) otherwise = (and_then (matches k) (\<lambda>here.
  if here then p else alternatives rest otherwise))"

section \<open>The contract\<close>

definition current_kind :: "parser \<Rightarrow> token_kind" where
  "current_kind s = tok_kind (ps_tokens s ! ps_current s)"

text \<open>The tokens of the lexer end with the end of the file, and the parser stands on one of them.\<close>

definition well_formed :: "parser \<Rightarrow> bool" where
  "well_formed s \<longleftrightarrow> ps_current s < length (ps_tokens s) \<and> tok_kind (last (ps_tokens s)) = TkEof"

definition errors_only :: "reporter \<Rightarrow> reporter \<Rightarrow> bool" where
  "errors_only r r' \<longleftrightarrow> (\<exists>ds. rep_diagnostics r' = rep_diagnostics r @ ds \<and>
     list_all (\<lambda>d. diag_severity d = SevError) ds)"

text \<open>What every parsing function does to the state.\<close>

definition goes_on :: "parser \<Rightarrow> parser \<Rightarrow> bool" where
  "goes_on s t \<longleftrightarrow> ps_tokens t = ps_tokens s \<and> ps_current s \<le> ps_current t \<and>
     ps_current t < length (ps_tokens t) \<and> errors_only (ps_reporter s) (ps_reporter t) \<and>
     ps_allow_struct_literals t = ps_allow_struct_literals s \<and>
     ps_allow_existentials t = ps_allow_existentials s"

lemma errors_only_refl [simp]: "errors_only r r"
  by (simp add: errors_only_def)

lemma errors_only_trans: "errors_only r r1 \<Longrightarrow> errors_only r1 r2 \<Longrightarrow> errors_only r r2"
  by (force simp: errors_only_def)

interpretation errors: growth errors_only
  by unfold_locales (auto intro: errors_only_trans)

lemma goes_on_refl: "well_formed s \<Longrightarrow> goes_on s s"
  by (simp add: goes_on_def well_formed_def)

lemma goes_on_trans: "goes_on s t \<Longrightarrow> goes_on t u \<Longrightarrow> goes_on s u"
  by (auto simp: goes_on_def intro: errors_only_trans)

lemma goes_on_wf: "well_formed s \<Longrightarrow> goes_on s t \<Longrightarrow> well_formed t"
  by (auto simp: goes_on_def well_formed_def)

definition reported_more :: "parser \<Rightarrow> parser \<Rightarrow> bool" where
  "reported_more s t \<longleftrightarrow>
     length (rep_diagnostics (ps_reporter s)) < length (rep_diagnostics (ps_reporter t))"

lemma errors_only_length: "errors_only r r' \<Longrightarrow> length (rep_diagnostics r) \<le> length (rep_diagnostics r')"
  by (auto simp: errors_only_def)

lemma reported_more_trans: "goes_on s t \<Longrightarrow> reported_more t u \<Longrightarrow> reported_more s u"
  using errors_only_length by (force simp: goes_on_def reported_more_def)

text \<open>The outcome is allowed: a value, or an error that was reported.  Where the parser still stands at
  \<open>p\<close> after giving the value \<open>x\<close>, the token there is of no kind of \<open>Q x\<close>; when \<open>Q x\<close> has
  every kind, a token beyond \<open>p\<close> has been consumed.\<close>

definition allowed :: "nat \<Rightarrow> ('a \<Rightarrow> token_kind set) \<Rightarrow> parser \<Rightarrow> 'a outcome \<times> parser \<Rightarrow> bool" where
  "allowed p Q s r \<longleftrightarrow> (case r of
     (POk x, t) \<Rightarrow> goes_on s t \<and> (ps_current t = p \<longrightarrow> current_kind t \<notin> Q x)
   | (PErr, t) \<Rightarrow> goes_on s t \<and> reported_more s t
   | _ \<Rightarrow> False)"

text \<open>A parser \<open>m\<close> whose recursions are bounded by \<open>n\<close> is started at position \<open>p\<close>, where the token is
  of no kind of \<open>K\<close>, or after \<open>p\<close>.  The bound is enough for what is left after \<open>p\<close>, and, when \<open>d\<close>
  holds, for one token more.  The parser \<open>m'\<close>, with larger bounds, does the same.\<close>

definition runs :: "nat \<Rightarrow> bool \<Rightarrow> nat \<Rightarrow> token_kind set \<Rightarrow> ('a \<Rightarrow> token_kind set) \<Rightarrow> 'a parse \<Rightarrow> 'a parse \<Rightarrow> bool" where
  "runs n d p K Q m m' \<longleftrightarrow> (\<forall>s. well_formed s \<longrightarrow> p \<le> ps_current s \<longrightarrow>
     (ps_current s = p \<longrightarrow> current_kind s \<notin> K) \<longrightarrow>
     length (ps_tokens s) + (if d then 1 else 0) \<le> n + p + 1 \<longrightarrow> m' s = m s \<and> allowed p Q s (m s))"

text \<open>The same judgement, read as finding \<open>Q\<close> for a given \<open>m\<close>.\<close>

definition yields :: "nat \<Rightarrow> bool \<Rightarrow> nat \<Rightarrow> token_kind set \<Rightarrow> 'a parse \<Rightarrow> 'a parse \<Rightarrow> ('a \<Rightarrow> token_kind set) \<Rightarrow> bool" where
  "yields n d p K m m' Q \<longleftrightarrow> runs n d p K Q m m'"

named_theorems runs_rules \<open>rules that check a parser against the contract\<close>
named_theorems yields_rules \<open>rules that find what a parser consumes\<close>

lemma runsI:
  assumes "\<And>s. well_formed s \<Longrightarrow> p \<le> ps_current s \<Longrightarrow> (ps_current s = p \<Longrightarrow> current_kind s \<notin> K) \<Longrightarrow>
     length (ps_tokens s) + (if d then 1 else 0) \<le> n + p + 1 \<Longrightarrow> m' s = m s \<and> allowed p Q s (m s)"
  shows "runs n d p K Q m m'"
  using assms by (simp add: runs_def)

lemma yieldsI:
  assumes "\<And>s. well_formed s \<Longrightarrow> p \<le> ps_current s \<Longrightarrow> (ps_current s = p \<Longrightarrow> current_kind s \<notin> K) \<Longrightarrow>
     m' s = m s \<and> allowed p Q s (m s)"
  shows "yields n d p K m m' Q"
  using assms by (simp add: yields_def runs_def)

lemma allowed_from:
  assumes "goes_on s t" "allowed p Q t r"
  shows "allowed p Q s r"
  using assms by (auto simp: allowed_def split: prod.splits outcome.splits
      intro: goes_on_trans reported_more_trans)

lemma runs_bind [runs_rules]:
  assumes m: "yields n d p K m m' Q" and f: "\<And>x. runs n d p (Q x) R (f x) (f' x)"
  shows "runs n d p K R (and_then m f) (and_then m' f')"
proof (rule runsI)
  fix s assume s: "well_formed s" "p \<le> ps_current s" "ps_current s = p \<Longrightarrow> current_kind s \<notin> K"
    "length (ps_tokens s) + (if d then 1 else 0) \<le> n + p + 1"
  with m have eq: "m' s = m s" and ok: "allowed p Q s (m s)" by (auto simp: yields_def runs_def)
  obtain r t where r: "m s = (r, t)" by (cases "m s")
  show "and_then m' f' s = and_then m f s \<and> allowed p R s (and_then m f s)"
  proof (cases r)
    case (POk x)
    with ok r have t: "goes_on s t" "ps_current t = p \<longrightarrow> current_kind t \<notin> Q x" by (auto simp: allowed_def)
    then have "f' x t = f x t \<and> allowed p R t (f x t)"
      using f [of x] s goes_on_wf [OF s(1) t(1)] by (auto simp: runs_def goes_on_def)
    then show ?thesis using r eq POk allowed_from [OF t(1), of p R "f x t"] by (simp add: and_then_def)
  qed (use ok r eq in \<open>auto simp: allowed_def and_then_def\<close>)
qed

lemma runs_ret [runs_rules]:
  assumes "Q x \<subseteq> K"
  shows "runs n d p K Q (ret x) (ret x)"
  using assms by (auto simp: runs_def ret_def allowed_def goes_on_refl)

lemma runs_if [runs_rules]:
  assumes "c \<Longrightarrow> runs n d p K Q m1 m1'" "\<not> c \<Longrightarrow> runs n d p K Q m2 m2'"
  shows "runs n d p K Q (if c then m1 else m2) (if c then m1' else m2')"
  using assms by simp

lemma runs_let [runs_rules]:
  assumes "runs n d p K Q (f x) (f' x)"
  shows "runs n d p K Q (Let x f) (Let x f')"
  using assms by (simp add: Let_def)

lemma runs_prod [runs_rules]:
  assumes "\<And>y z. x = (y, z) \<Longrightarrow> runs n d p K Q (f y z) (f' y z)"
  shows "runs n d p K Q (case x of (y, z) \<Rightarrow> f y z) (case x of (y, z) \<Rightarrow> f' y z)"
  using assms by (cases x) simp

lemma runs_option [runs_rules]:
  assumes "x = None \<Longrightarrow> runs n d p K Q m m'" "\<And>y. x = Some y \<Longrightarrow> runs n d p K Q (f y) (f' y)"
  shows "runs n d p K Q (case x of None \<Rightarrow> m | Some y \<Rightarrow> f y) (case x of None \<Rightarrow> m' | Some y \<Rightarrow> f' y)"
  using assms by (cases x) simp_all

text \<open>A call in tail position, and a compound action whose value is used.\<close>

lemma allowed_weaken:
  assumes "allowed p Q s r" "\<And>x. R x \<subseteq> Q x"
  shows "allowed p R s r"
  using assms by (auto simp: allowed_def split: prod.splits outcome.splits)

lemma runs_tail:
  assumes "yields n d p K m m' Q" "\<And>x. R x \<subseteq> Q x"
  shows "runs n d p K R m m'"
proof (rule runsI)
  fix s assume "well_formed s" "p \<le> ps_current s" "ps_current s = p \<Longrightarrow> current_kind s \<notin> K"
    "length (ps_tokens s) + (if d then 1 else 0) \<le> n + p + 1"
  with assms(1) have "m' s = m s" "allowed p Q s (m s)" by (auto simp: yields_def runs_def)
  then show "m' s = m s \<and> allowed p R s (m s)" using allowed_weaken [where R = R, OF _ assms(2)] by simp
qed

lemma allowed_keep:
  assumes "allowed p Q s r" "p \<le> ps_current s" "ps_current s = p \<Longrightarrow> current_kind s \<notin> K"
  shows "allowed p (\<lambda>_. K) s r"
  using assms by (auto simp: allowed_def goes_on_def current_kind_def split: prod.splits outcome.splits)

lemma yields_keep:
  assumes "runs n d p K (\<lambda>_. {}) m m'"
  shows "yields n d p K m m' (\<lambda>_. K)"
  unfolding yields_def using assms by (intro runsI) (auto simp: runs_def intro: allowed_keep)

subsection \<open>Loops\<close>

abbreviation round :: "'a + 'b \<Rightarrow> token_kind set" where
  "round r \<equiv> (case r of Inl _ \<Rightarrow> UNIV | Inr _ \<Rightarrow> {})"

lemma iterate_allowed:
  assumes body: "\<And>x q. runs n d q {} round (body x) (body' x)"
    and "well_formed s" "length (ps_tokens s) + (if d then 1 else 0) \<le> n + ps_current s + 1"
    and "length (ps_tokens s) \<le> k + ps_current s" "k \<le> k'"
  shows "iterate k' body' x s = iterate k body x s \<and> allowed 0 (\<lambda>_. {}) s (iterate k body x s)"
  using assms(2-)
proof (induction k arbitrary: k' x s)
  case 0
  then show ?case by (simp add: well_formed_def)
next
  case (Suc k)
  then obtain j where k': "k' = Suc j" "k \<le> j" by (cases k') auto
  obtain r t where r: "body x s = (r, t)" by (cases "body x s")
  have b: "body' x s = body x s" "allowed (ps_current s) round s (body x s)"
    using body [of "ps_current s" x] Suc.prems by (auto simp: runs_def)
  show ?case
  proof (cases r)
    case (POk y)
    with b r have t: "goes_on s t" "ps_current t = ps_current s \<longrightarrow> current_kind t \<notin> round y"
      by (auto simp: allowed_def)
    show ?thesis
    proof (cases y)
      case (Inl z)
      then have "ps_current s < ps_current t" "ps_tokens t = ps_tokens s"
        using t by (auto simp: goes_on_def)
      then have "iterate j body' z t = iterate k body z t \<and> allowed 0 (\<lambda>_. {}) t (iterate k body z t)"
        using Suc.prems t k' by (intro Suc.IH) (auto intro: goes_on_wf)
      then show ?thesis using r b POk Inl k' allowed_from [OF t(1), of 0 "\<lambda>_. {}" "iterate k body z t"]
        by (simp add: and_then_def)
    next
      case (Inr z)
      then show ?thesis using r b POk k' t by (simp add: and_then_def ret_def allowed_def)
    qed
  qed (use b r k' in \<open>auto simp: allowed_def and_then_def\<close>)
qed

lemma allowed_any:
  assumes "allowed q (\<lambda>_. {}) s r"
  shows "allowed p (\<lambda>_. {}) s r"
  using assms by (auto simp: allowed_def split: prod.splits outcome.splits)

lemma yields_iterate [yields_rules]:
  assumes "Suc n \<le> k" "k \<le> k'" "\<And>x q. runs n (K = UNIV \<or> d) q {} round (body x) (body' x)"
  shows "yields n d p K (iterate k body x) (iterate k' body' x) (\<lambda>_. K)"
proof (rule yields_keep, rule runsI)
  fix s assume s: "well_formed s" "p \<le> ps_current s" "ps_current s = p \<Longrightarrow> current_kind s \<notin> K"
    "length (ps_tokens s) + (if d then 1 else 0) \<le> n + p + 1"
  then have "length (ps_tokens s) + (if K = UNIV \<or> d then 1 else 0) \<le> n + ps_current s + 1"
    by (cases "ps_current s = p") auto
  moreover have "length (ps_tokens s) \<le> k + ps_current s" using s assms(1) by (auto split: if_splits)
  ultimately have "iterate k' body' x s = iterate k body x s \<and> allowed 0 (\<lambda>_. {}) s (iterate k body x s)"
    using iterate_allowed [where body = body and body' = body' and x = x, OF assms(3) s(1) _ _ assms(2)]
    by blast
  then show "iterate k' body' x s = iterate k body x s \<and> allowed p (\<lambda>_. {}) s (iterate k body x s)"
    by (auto intro: allowed_any)
qed

subsection \<open>Looking, consuming and reporting\<close>

lemmas look_defs = allowed_def goes_on_refl current_kind_def well_formed_def [THEN iffD1, THEN conjunct1]

lemma yields_peek [yields_rules]:
  "yields n d p K peek_token peek_token (\<lambda>t. K \<union> - {tok_kind t})"
  by (rule yieldsI) (auto simp: peek_token_def look_defs)

lemma yields_token_at [yields_rules]: "yields n d p K (token_at k) (token_at k) (\<lambda>_. K)"
  by (rule yieldsI) (auto simp: token_at_def look_defs)

lemma yields_previous [yields_rules]: "yields n d p K previous_token previous_token (\<lambda>_. K)"
  by (rule yieldsI) (auto simp: previous_token_def look_defs less_imp_diff_less)

lemma yields_allows_struct_literals [yields_rules]:
  "yields n d p K allows_struct_literals allows_struct_literals (\<lambda>_. K)"
  by (rule yieldsI) (auto simp: allows_struct_literals_def look_defs)

lemma yields_allows_existentials [yields_rules]:
  "yields n d p K allows_existentials allows_existentials (\<lambda>_. K)"
  by (rule yieldsI) (auto simp: allows_existentials_def look_defs)

lemma yields_push [yields_rules]:
  assumes "diag_severity x = SevError"
  shows "yields n d p K (push_diagnostic x) (push_diagnostic x) (\<lambda>_. K)"
  using assms by (intro yieldsI)
    (auto simp: push_diagnostic_def allowed_def goes_on_def well_formed_def errors_only_def report_def current_kind_def)

lemma severity_error [simp]:
  "diag_severity (diagnostic_error code sp msg) = SevError"
  "diag_severity (with_secondary sp msg x) = diag_severity x"
  "diag_severity (with_suggestion g x) = diag_severity x"
  by (simp_all add: diagnostic_error_def diagnostic_new_def with_secondary_def with_suggestion_def)

lemma yields_check [yields_rules]:
  "yields n d p K (check k) (check k) (\<lambda>here. K \<union> (if here then - {k} else {k}))"
  by (rule yieldsI) (auto simp: check_def and_then_def ret_def peek_token_def look_defs)

lemma yields_check_any [yields_rules]:
  "yields n d p K (check_any ks) (check_any ks) (\<lambda>here. K \<union> (if here then - set ks else set ks))"
  by (rule yieldsI) (auto simp: check_any_def and_then_def ret_def peek_token_def look_defs)

text \<open>Consuming a token of a kind other than the end of the file.\<close>

lemma at_last_token:
  assumes "well_formed s" "tok_kind (ps_tokens s ! ps_current s) \<noteq> TkEof"
  shows "ps_current s + 1 < length (ps_tokens s)"
proof (rule ccontr)
  assume "\<not> ps_current s + 1 < length (ps_tokens s)"
  then have "ps_current s = length (ps_tokens s) - 1" "ps_tokens s \<noteq> []"
    using assms(1) by (auto simp: well_formed_def)
  then show False using assms by (simp add: well_formed_def last_conv_nth)
qed

lemma advance_checked:
  assumes "well_formed s" "tok_kind (ps_tokens s ! ps_current s) \<noteq> TkEof"
  shows "advance_token s = (POk (ps_tokens s ! ps_current s), s\<lparr>ps_current := ps_current s + 1\<rparr>)"
  using assms at_last_token [OF assms] by (simp add: advance_token_def and_then_def check_def
      peek_token_def ret_def step_forward_def previous_token_def well_formed_def)

lemma advance_at_end:
  assumes "well_formed s" "tok_kind (ps_tokens s ! ps_current s) = TkEof"
  shows "advance_token s = (POk (ps_tokens s ! (ps_current s - 1)), s)"
  using assms by (auto simp: advance_token_def and_then_def check_def
      peek_token_def ret_def step_forward_def previous_token_def well_formed_def)

lemma yields_advance [yields_rules]:
  "yields n d p K advance_token advance_token (\<lambda>_. if TkEof \<in> K then UNIV else K)"
proof (rule yieldsI)
  fix s assume s: "well_formed s" "p \<le> ps_current s" "ps_current s = p \<Longrightarrow> current_kind s \<notin> K"
  show "advance_token s = advance_token s \<and>
      allowed p (\<lambda>_. if TkEof \<in> K then UNIV else K) s (advance_token s)"
    using s at_last_token [OF s(1)] advance_checked [OF s(1)] advance_at_end [OF s(1)]
    by (cases "tok_kind (ps_tokens s ! ps_current s) = TkEof")
      (auto simp: allowed_def goes_on_def well_formed_def current_kind_def)
qed

lemma yields_matches [yields_rules]:
  assumes "k \<noteq> TkEof"
  shows "yields n d p K (matches k) (matches k) (\<lambda>here. if here then UNIV else insert k K)"
proof (rule yieldsI)
  fix s assume s: "well_formed s" "p \<le> ps_current s" "ps_current s = p \<Longrightarrow> current_kind s \<notin> K"
  show "matches k s = matches k s \<and> allowed p (\<lambda>here. if here then UNIV else insert k K) s (matches k s)"
    using s assms advance_checked [OF s(1)] at_last_token [OF s(1)]
    by (auto simp: matches_def and_then_def check_def peek_token_def ret_def allowed_def goes_on_def
        well_formed_def current_kind_def)
qed

lemma fail_here_allowed:
  assumes "well_formed s"
  shows "allowed p Q s (fail_here code msg s)"
  using assms by (auto simp: fail_here_def error_here_def push_error_def push_diagnostic_def
      and_then_def peek_token_def fail_def allowed_def goes_on_def well_formed_def errors_only_def
      reported_more_def report_def)

lemma yields_fail_here [yields_rules]: "yields n d p K (fail_here code msg) (fail_here code msg) (\<lambda>_. UNIV)"
  by (rule yieldsI) (simp add: fail_here_allowed)

lemma yields_consume [yields_rules]:
  assumes "k \<noteq> TkEof"
  shows "yields n d p K (consume k msg) (consume k msg) (\<lambda>_. UNIV)"
proof (rule yieldsI)
  fix s assume s: "well_formed s" "p \<le> ps_current s" "ps_current s = p \<Longrightarrow> current_kind s \<notin> K"
  show "consume k msg s = consume k msg s \<and> allowed p (\<lambda>_. UNIV) s (consume k msg s)"
  proof (cases "tok_kind (ps_tokens s ! ps_current s) = k")
    case True
    then show ?thesis using s assms advance_checked [OF s(1)] at_last_token [OF s(1)]
      by (auto simp: consume_def and_then_def check_def peek_token_def ret_def allowed_def goes_on_def well_formed_def)
  next
    case False
    then have "consume k msg s = fail_here ''PACO-E0112'' msg s"
      using s(1) by (simp add: consume_def and_then_def check_def peek_token_def ret_def well_formed_def)
    then show ?thesis by (simp add: fail_here_allowed [OF s(1)])
  qed
qed

text \<open>The flags are put back, so that they do not show outside.\<close>

lemma yields_flag:
  assumes "yields n d p K m m' Q"
    and set: "\<And>s. ps_tokens (f s) = ps_tokens s \<and> ps_current (f s) = ps_current s \<and> ps_reporter (f s) = ps_reporter s"
    and put: "\<And>s t. ps_tokens (g s t) = ps_tokens t \<and> ps_current (g s t) = ps_current t \<and> ps_reporter (g s t) = ps_reporter t"
    and there: "\<And>s t. goes_on (f s) t \<Longrightarrow> goes_on s (g s t)"
  shows "yields n d p K (\<lambda>s. let (r, t) = m (f s) in (r, g s t)) (\<lambda>s. let (r, t) = m' (f s) in (r, g s t)) Q"
  unfolding yields_def
proof (rule runsI)
  fix s assume s: "well_formed s" "p \<le> ps_current s" "ps_current s = p \<Longrightarrow> current_kind s \<notin> K"
    "length (ps_tokens s) + (if d then 1 else 0) \<le> n + p + 1"
  have "well_formed (f s)" using s(1) set by (simp add: well_formed_def)
  then have "m' (f s) = m (f s)" "allowed p Q (f s) (m (f s))"
    using assms(1) s(2-) set by (auto simp: yields_def runs_def current_kind_def)
  then show "(let (r, t) = m' (f s) in (r, g s t)) = (let (r, t) = m (f s) in (r, g s t)) \<and>
      allowed p Q s (let (r, t) = m (f s) in (r, g s t))"
    using set put there
    by (cases "m (f s)"; cases "fst (m (f s))")
      (auto simp: allowed_def current_kind_def reported_more_def)
qed

lemma yields_without_struct_literals [yields_rules]:
  assumes "yields n d p K m m' Q"
  shows "yields n d p K (without_struct_literals m) (without_struct_literals m') Q"
  unfolding without_struct_literals_def [abs_def] Let_def
  by (rule yields_flag [OF assms, unfolded Let_def]) (auto simp: goes_on_def)

lemma yields_with_existentials [yields_rules]:
  assumes "yields n d p K m m' Q"
  shows "yields n d p K (with_existentials m) (with_existentials m') Q"
  unfolding with_existentials_def [abs_def] Let_def
  by (rule yields_flag [OF assms, unfolded Let_def]) (auto simp: goes_on_def)

subsection \<open>Derived functions\<close>

text \<open>Functions that only look or report keep what is known.\<close>

lemma yields_next_is [yields_rules]: "yields n d p K (next_is ks) (next_is ks) (\<lambda>_. K)"
  unfolding next_is_def peek_next_token_def by (rule yields_keep, (rule runs_rules | rule yields_rules | simp)+)

lemma yields_peek_next [yields_rules]: "yields n d p K peek_next_token peek_next_token (\<lambda>_. K)"
  unfolding peek_next_token_def by (rule yields_rules)

lemma yields_peek_span [yields_rules]: "yields n d p K peek_span peek_span (\<lambda>_. K)"
  unfolding peek_span_def by (rule yields_keep, (rule runs_rules | rule yields_rules | simp)+)

lemma yields_previous_span [yields_rules]: "yields n d p K previous_span previous_span (\<lambda>_. K)"
  unfolding previous_span_def by (rule yields_keep, (rule runs_rules | rule yields_rules | simp)+)

lemma yields_span_from [yields_rules]: "yields n d p K (span_from k) (span_from k) (\<lambda>_. K)"
  unfolding span_from_def by (rule yields_keep, (rule runs_rules | rule yields_rules | simp)+)

lemma yields_span_since [yields_rules]: "yields n d p K (span_since sp) (span_since sp) (\<lambda>_. K)"
  unfolding span_since_def by (rule yields_keep, (rule runs_rules | rule yields_rules | simp)+)

lemma yields_push_error [yields_rules]: "yields n d p K (push_error code sp msg) (push_error code sp msg) (\<lambda>_. K)"
  unfolding push_error_def by (rule yields_push) simp

lemma yields_error_here [yields_rules]: "yields n d p K (error_here code msg) (error_here code msg) (\<lambda>_. K)"
  unfolding error_here_def
  by (rule yields_keep, (rule runs_rules | rule yields_rules | rule runs_tail | simp)+)

lemma yields_missing_separator [yields_rules]:
  "yields n d p K (missing_separator code sep msg) (missing_separator code sep msg) (\<lambda>_. K)"
  unfolding missing_separator_def
  by (rule yields_keep, (rule runs_rules | rule yields_rules | rule runs_tail | simp)+)

lemma yields_consume_identifier [yields_rules]:
  "yields n d p K (consume_identifier msg) (consume_identifier msg) (\<lambda>_. UNIV)"
  unfolding consume_identifier_def yields_def by (rule runs_rules | rule yields_rules | simp)+

lemma yields_expect_semicolon [yields_rules]: "yields n d p K expect_semicolon expect_semicolon (\<lambda>_. K)"
  unfolding expect_semicolon_def
  by (rule yields_keep, (rule runs_rules | rule yields_rules | rule runs_tail | simp)+)

lemma yields_expect_comma [yields_rules]: "yields n d p K (expect_comma opt msg) (expect_comma opt msg) (\<lambda>_. K)"
  unfolding expect_comma_def
  by (rule yields_keep, (rule runs_rules | rule yields_rules | rule runs_tail | simp)+)

lemma yields_skip_until:
  assumes "Suc n \<le> fuel" "fuel \<le> fuel'"
  shows "yields n d p K (skip_until fuel ks) (skip_until fuel' ks) (\<lambda>_. K)"
  unfolding skip_until_def using assms
  by - ((rule runs_rules | rule yields_rules | simp)+)

text \<open>Skipping moves on unless it starts on a token it stops at.\<close>

lemma yields_skip [yields_rules]:
  assumes "Suc n \<le> fuel" "fuel \<le> fuel'"
  shows "yields n d p K (skip_until fuel ks) (skip_until fuel' ks)
    (\<lambda>_. if set (TkEof # ks) \<subseteq> K then UNIV else K)"
proof (cases "set (TkEof # ks) \<subseteq> K")
  case True
  obtain m m' where fuel: "fuel = Suc m" "fuel' = Suc m'" using assms by (cases fuel; cases fuel') auto
  show ?thesis
    unfolding yields_def
  proof (rule runsI)
    fix s assume s: "well_formed s" "p \<le> ps_current s" "ps_current s = p \<Longrightarrow> current_kind s \<notin> K"
      "length (ps_tokens s) + (if d then 1 else 0) \<le> n + p + 1"
    have *: "skip_until fuel' ks s = skip_until fuel ks s" "allowed p (\<lambda>_. K) s (skip_until fuel ks s)"
      using yields_skip_until [OF assms, of d p K ks] s by (auto simp: yields_def runs_def)
    show "skip_until fuel' ks s = skip_until fuel ks s \<and>
        allowed p (\<lambda>_. if set (TkEof # ks) \<subseteq> K then UNIV else K) s (skip_until fuel ks s)"
    proof (cases "ps_current s = p")
      case False
      then show ?thesis
        using * s(2) by (auto simp: allowed_def goes_on_def split: prod.splits outcome.splits)
    next
      case here: True
      then have kind: "tok_kind (ps_tokens s ! ps_current s) \<notin> set (TkEof # ks)"
        using s(3) True by (auto simp: current_kind_def)
      let ?t = "s\<lparr>ps_current := ps_current s + 1\<rparr>"
      have step: "skip_until fuel ks s = skip_until m ks ?t"
        unfolding skip_until_def fuel
        using s(1) kind advance_checked [OF s(1)]
        by (simp add: and_then_def check_any_def peek_token_def ret_def well_formed_def)
      have "well_formed ?t" "Suc (n - 1) \<le> m"
        using s(1,4) at_last_token [OF s(1)] kind assms fuel here by (auto simp: well_formed_def split: if_splits)
      then have "allowed (p + 1) (\<lambda>_. {}) ?t (skip_until m ks ?t)"
        using yields_skip_until [of "n - 1" m m False "p + 1" "{}" ks] s(4) here
        by (auto simp: yields_def runs_def split: if_splits)
      with * step here show ?thesis
        by (auto simp: allowed_def goes_on_def split: prod.splits outcome.splits)
    qed
  qed
next
  case False
  then show ?thesis using yields_skip_until [OF assms] by (simp only: if_not_P if_False)
qed

lemma yields_synchronize [yields_rules]:
  assumes "Suc n \<le> fuel" "fuel \<le> fuel'"
  shows "yields n d p K (synchronize_item fuel) (synchronize_item fuel')
      (\<lambda>_. if {TkEof, TkFn, TkStruct, TkEnum, TkMethods, TkUse, TkTrait} \<subseteq> K then UNIV else K)"
    and "yields n d p K (synchronize_trait_member fuel) (synchronize_trait_member fuel')
      (\<lambda>_. if {TkEof, TkRightBrace, TkFn, TkType, TkConst} \<subseteq> K then UNIV else K)"
  unfolding synchronize_item_def synchronize_trait_member_def
  using yields_skip [OF assms, of d p K] by (metis list.simps(15) empty_set)+

lemma yields_ret [yields_rules]: "yields n d p K (ret x) (ret x) (\<lambda>_. K)"
  unfolding yields_def by (rule runs_ret) simp

lemma yields_if [yields_rules]:
  assumes "c \<Longrightarrow> yields n d p K m1 m1' Q1" "\<not> c \<Longrightarrow> yields n d p K m2 m2' Q2"
  shows "yields n d p K (if c then m1 else m2) (if c then m1' else m2') (\<lambda>x. if c then Q1 x else Q2 x)"
  using assms by simp

lemma yields_optional [yields_rules]:
  assumes "k \<noteq> TkEof" "runs n d p UNIV (\<lambda>_. {}) m m'"
  shows "yields n d p K (optional k m) (optional k m') (\<lambda>r. if r = None then insert k K else UNIV)"
  unfolding optional_def yields_def
  by (rule runs_rules | rule yields_matches | rule yields_keep [OF assms(2)] | simp add: assms(1))+

lemma yields_separated [yields_rules]:
  assumes "Suc n \<le> fuel" "fuel \<le> fuel'" "sep \<noteq> TkEof"
    "\<And>q. runs n (K = UNIV \<or> d) q {} (\<lambda>_. {}) m m'"
  shows "yields n d p K (separated fuel sep m) (separated fuel' sep m') (\<lambda>_. K)"
  unfolding separated_def
  by (rule yields_iterate [OF assms(1,2)],
      (rule runs_rules | rule yields_rules | rule yields_keep [OF assms(4)] | simp add: assms(3))+)

lemma yields_look: "yields n d p K (check k) (check k) (\<lambda>_. K)"
  by (rule yields_keep, rule runs_tail, rule yields_rules, simp)

lemma yields_separated_unless [yields_rules]:
  assumes "Suc n \<le> fuel" "fuel \<le> fuel'" "\<And>q. runs n (K = UNIV \<or> d) q {} (\<lambda>_. {}) m m'"
  shows "yields n d p K (separated_unless fuel k m) (separated_unless fuel' k m') (\<lambda>_. K)"
  unfolding separated_unless_def
  by (rule yields_keep, (rule runs_rules | rule yields_look | rule runs_tail
      | rule yields_separated [OF assms(1,2) _ assms(3)] | simp)+)

lemma yields_separated_trailing [yields_rules]:
  assumes "Suc n \<le> fuel" "fuel \<le> fuel'" "\<And>q. runs n (K = UNIV \<or> d) q {} (\<lambda>_. {}) m m'"
  shows "yields n d p K (separated_trailing fuel k m) (separated_trailing fuel' k m') (\<lambda>_. K)"
  unfolding separated_trailing_def
  by (rule yields_iterate [OF assms(1,2)],
      (rule runs_rules | rule yields_look | rule yields_matches | rule yields_keep [OF assms(3)] | simp)+)

lemma yields_separated_until [yields_rules]:
  assumes "Suc n \<le> fuel" "fuel \<le> fuel'" "\<And>q. runs n (K = UNIV \<or> d) q {} (\<lambda>_. UNIV) m m'"
  shows "yields n d p K (separated_until fuel k m) (separated_until fuel' k m') (\<lambda>_. K)"
  unfolding separated_until_def
  by (rule yields_iterate [OF assms(1,2)],
      (rule runs_rules | rule yields_look | rule yields_matches
       | rule assms(3) [folded yields_def] | simp)+)

lemma yields_continued [yields_rules]:
  assumes "Suc n \<le> fuel" "fuel \<le> fuel'" "sep \<noteq> TkEof"
    "\<And>q. runs n (K = UNIV \<or> d) q UNIV (\<lambda>_. {}) m m'"
  shows "yields n d p K (continued fuel sep m xs) (continued fuel' sep m' xs) (\<lambda>_. K)"
  unfolding continued_def
  by (rule yields_iterate [OF assms(1,2)],
      (rule runs_rules | rule yields_rules | rule yields_keep [OF assms(4)] | simp add: assms(3))+)

lemma yields_members [yields_rules]:
  assumes "Suc n \<le> fuel" "fuel \<le> fuel'"
    "\<And>x q. runs n (K = UNIV \<or> d) q {TkRightBrace, TkEof} (\<lambda>_. UNIV) (m x) (m' x)"
  shows "yields n d p K (members fuel m x) (members fuel' m' x) (\<lambda>_. K)"
  unfolding members_def
  by (rule yields_iterate [OF assms(1,2)],
      (rule runs_rules | rule yields_rules | rule assms(3) [folded yields_def] | simp)+)

end
