(* ===== verification/Lexer.thy ===== *)
theory Lexer
  imports Token Diag
begin

text \<open>
  The hand-written lexer, \<open>compiler/paco-syntax/src/lex.rs\<close>. The state is the struct
  \<open>Lexer\<close>; each method is a function from state to state, each loop of the source a function
  that ends because the offset moves towards the end of the source. A character literal of the
  source is a one-element string.
\<close>

section \<open>State and cursor\<close>

record lexer =
  lx_source :: string
  lx_file_id :: file_id
  lx_reporter :: reporter
  lx_tokens :: "token list"
  lx_offset :: nat

definition lx_rest :: "lexer \<Rightarrow> string" where
  "lx_rest lx = drop (lx_offset lx) (lx_source lx)"

text \<open>\<open>&self.source[start..self.offset]\<close>\<close>

definition lx_slice :: "nat \<Rightarrow> lexer \<Rightarrow> string" where
  "lx_slice start lx = drop start (take (lx_offset lx) (lx_source lx))"

definition is_at_end :: "lexer \<Rightarrow> bool" where
  "is_at_end lx \<longleftrightarrow> lx_offset lx \<ge> length (lx_source lx)"

definition peek :: "lexer \<Rightarrow> rchar option" where
  "peek lx = next_char (lx_rest lx)"

definition peek_next :: "lexer \<Rightarrow> rchar option" where
  "peek_next lx = (case next_char (lx_rest lx) of None \<Rightarrow> None
     | Some c \<Rightarrow> next_char (drop (length c) (lx_rest lx)))"

definition peek_at :: "nat \<Rightarrow> lexer \<Rightarrow> rchar option" where
  "peek_at ahead lx = vec_get (chars (lx_rest lx)) ahead"

definition advance :: "lexer \<Rightarrow> rchar option \<times> lexer" where
  "advance lx = (case peek lx of None \<Rightarrow> (None, lx)
     | Some ch \<Rightarrow> (Some ch, lx\<lparr>lx_offset := lx_offset lx + length ch\<rparr>))"

definition match_char :: "rchar \<Rightarrow> lexer \<Rightarrow> bool \<times> lexer" where
  "match_char expected lx =
     (if peek lx \<noteq> Some expected then (False, lx) else (True, snd (advance lx)))"

definition lx_report :: "string \<Rightarrow> span \<Rightarrow> string \<Rightarrow> lexer \<Rightarrow> lexer" where
  "lx_report code sp msg lx = lx\<lparr>lx_reporter := report (diagnostic_error code sp msg) (lx_reporter lx)\<rparr>"

definition lx_add_token :: "token_kind \<Rightarrow> nat \<Rightarrow> lexer \<Rightarrow> lexer" where
  "lx_add_token k start lx = lx\<lparr>lx_tokens := lx_tokens lx @
     [token_new k (lx_slice start lx) (span_new (lx_file_id lx) start (lx_offset lx))]\<rparr>"

definition push :: "token_kind \<Rightarrow> nat \<Rightarrow> lexer \<Rightarrow> lexer" where
  "push k start lx = lx_add_token k start lx"

definition is_identifier_start :: "rchar \<Rightarrow> bool" where
  "is_identifier_start ch \<longleftrightarrow> is_ascii_alphabetic ch \<or> ch = ''_''"

definition is_identifier_continue :: "rchar \<Rightarrow> bool" where
  "is_identifier_continue ch \<longleftrightarrow> is_ascii_alphanumeric ch \<or> ch = ''_''"

section \<open>Loops\<close>

lemma advance_progress:
  "\<not> is_at_end lx \<Longrightarrow> length (lx_source lx) - lx_offset (snd (advance lx)) < length (lx_source lx) - lx_offset lx"
proof -
  assume "\<not> is_at_end lx"
  then obtain ch where ch: "peek lx = Some ch" "lx_offset lx < length (lx_source lx)"
    by (cases "peek lx") (auto simp: peek_def lx_rest_def is_at_end_def)
  then have "0 < length ch" by (auto simp: peek_def dest: next_char_length)
  then show ?thesis using ch by (simp add: advance_def diff_less_mono2)
qed

lemma peek_Some_not_at_end: "peek lx = Some ch \<Longrightarrow> \<not> is_at_end lx"
  by (auto simp: peek_def lx_rest_def is_at_end_def next_char_def split: list.splits)

lemma advance_source [simp]: "lx_source (snd (advance lx)) = lx_source lx"
  by (simp add: advance_def split: option.splits)

text \<open>\<open>while matches!(self.peek(), Some(ch) if p(ch)) { self.advance(); }\<close>\<close>

function advance_while :: "(rchar \<Rightarrow> bool) \<Rightarrow> lexer \<Rightarrow> lexer" where
  "advance_while p lx = (case peek lx of
     None \<Rightarrow> lx
   | Some ch \<Rightarrow> if p ch then advance_while p (snd (advance lx)) else lx)"
  by pat_completeness auto
termination
  by (relation "measure (\<lambda>(p, lx). length (lx_source lx) - lx_offset lx)")
    (auto intro: advance_progress dest: peek_Some_not_at_end)

declare advance_while.simps [simp del]

text \<open>The loop of \<open>string\<close>, after the opening quote.\<close>

function string_loop :: "bool \<Rightarrow> lexer \<Rightarrow> lexer" where
  "string_loop escaped lx = (case peek lx of
     None \<Rightarrow> lx
   | Some ch \<Rightarrow>
       if escaped then string_loop False (snd (advance lx))
       else if ch = [CHR 0x5C] then string_loop True (snd (advance lx))
       else if ch = [CHR 0x22] then lx
       else string_loop escaped (snd (advance lx)))"
  by pat_completeness auto
termination
  by (relation "measure (\<lambda>(e, lx). length (lx_source lx) - lx_offset lx)")
    (auto intro: advance_progress dest: peek_Some_not_at_end)

declare string_loop.simps [simp del]

text \<open>The loop of \<open>skip_block_comment\<close>: whether the comment was closed, and the state.\<close>

function block_comment_loop :: "lexer \<Rightarrow> bool \<times> lexer" where
  "block_comment_loop lx =
     (if is_at_end lx then (False, lx)
      else if peek lx = Some ''*'' \<and> peek_next lx = Some ''/''
      then (True, snd (advance (snd (advance lx))))
      else block_comment_loop (snd (advance lx)))"
  by pat_completeness auto
termination
  by (relation "measure (\<lambda>lx. length (lx_source lx) - lx_offset lx)") (auto intro: advance_progress)

declare block_comment_loop.simps [simp del]

text \<open>\<open>ch.is_digit(radix)\<close>\<close>

definition char_digit :: "rchar \<Rightarrow> nat option" where
  "char_digit ch = (case ch of
     [b] \<Rightarrow> (let n = (of_char b :: nat) in
        if 48 \<le> n \<and> n \<le> 57 then Some (n - 48)
        else if 97 \<le> n \<and> n \<le> 122 then Some (n - 87)
        else if 65 \<le> n \<and> n \<le> 90 then Some (n - 55) else None)
   | _ \<Rightarrow> None)"

definition is_digit :: "nat \<Rightarrow> rchar \<Rightarrow> bool" where
  "is_digit radix ch = (case char_digit ch of None \<Rightarrow> False | Some d \<Rightarrow> d < radix)"

text \<open>The loop of \<open>prefixed_digits\<close>.\<close>

definition check_prefixed_digit :: "nat \<Rightarrow> rchar \<Rightarrow> lexer \<Rightarrow> lexer" where
  "check_prefixed_digit radix ch lx =
     (if ch \<noteq> ''_'' \<and> \<not> is_digit radix ch
      then lx_report ''PACO-E0103''
             (span_new (lx_file_id lx) (lx_offset lx - length ch) (lx_offset lx))
             (''`'' @ ch @ ''` is not a valid base-'' @ nat_string radix @ '' digit'') lx
      else lx)"

lemma check_prefixed_digit_simps [simp]:
  "lx_source (check_prefixed_digit radix ch lx) = lx_source lx"
  "lx_offset (check_prefixed_digit radix ch lx) = lx_offset lx"
  by (simp_all add: check_prefixed_digit_def lx_report_def)

function prefixed_loop :: "nat \<Rightarrow> lexer \<Rightarrow> lexer" where
  "prefixed_loop radix lx = (case peek lx of
     None \<Rightarrow> lx
   | Some ch \<Rightarrow>
       if is_ascii_alphanumeric ch \<or> ch = ''_''
       then prefixed_loop radix (check_prefixed_digit radix ch (snd (advance lx)))
       else lx)"
  by pat_completeness auto
termination
  by (relation "measure (\<lambda>(r, lx). length (lx_source lx) - lx_offset lx)")
    (auto intro: advance_progress dest: peek_Some_not_at_end)

declare prefixed_loop.simps [simp del]

section \<open>Tokens\<close>

definition check_no_trailing_separator :: "nat \<Rightarrow> lexer \<Rightarrow> lexer" where
  "check_no_trailing_separator start lx =
     (let s = lx_slice start lx in
      if s \<noteq> [] \<and> last s = CHR ''_''
      then lx_report ''PACO-E0104'' (span_new (lx_file_id lx) (lx_offset lx - 1) (lx_offset lx))
             ''a numeric literal can't end with a `_` separator'' lx
      else lx)"

definition prefixed_digits :: "nat \<Rightarrow> nat \<Rightarrow> lexer \<Rightarrow> lexer" where
  "prefixed_digits start radix lx =
     (let digits_start = lx_offset lx;
          lx = (if peek lx = Some ''_''
                then lx_report ''PACO-E0104''
                       (span_new (lx_file_id lx) (lx_offset lx) (lx_offset lx + 1))
                       ''a numeric literal can't start with a `_` separator'' lx
                else lx);
          lx = prefixed_loop radix lx;
          lx = (if lx_offset lx = digits_start
                then lx_report ''PACO-E0103'' (span_new (lx_file_id lx) start (lx_offset lx))
                       (''expected at least one base-'' @ nat_string radix @ '' digit'') lx
                else lx);
          lx = check_no_trailing_separator start lx
      in push TkInteger start lx)"

definition digit_or_underscore :: "rchar \<Rightarrow> bool" where
  "digit_or_underscore ch \<longleftrightarrow> is_ascii_digit ch \<or> ch = ''_''"

definition number_radix :: "nat \<Rightarrow> lexer \<Rightarrow> nat option" where
  "number_radix start lx =
     (if vec_get (lx_source lx) start = Some (CHR ''0'') then
        (if peek lx = Some ''x'' \<or> peek lx = Some ''X'' then Some 16
         else if peek lx = Some ''o'' \<or> peek lx = Some ''O'' then Some 8
         else if peek lx = Some ''b'' \<or> peek lx = Some ''B'' then Some 2
         else None)
      else None)"

definition number :: "nat \<Rightarrow> lexer \<Rightarrow> lexer" where
  "number start lx = (case number_radix start lx of
     Some radix \<Rightarrow> prefixed_digits start radix (snd (advance lx))
   | None \<Rightarrow>
       (let lx = advance_while digit_or_underscore lx;
            lx = check_no_trailing_separator start lx
        in if peek lx = Some ''.'' \<and> (case peek_next lx of None \<Rightarrow> False | Some ch \<Rightarrow> is_ascii_digit ch)
           then (let lx = snd (advance lx);
                     lx = advance_while digit_or_underscore lx;
                     lx = check_no_trailing_separator start lx
                 in push TkFloat start lx)
           else push TkInteger start lx))"

definition keywords_table :: "(string \<times> token_kind) list" where
  "keywords_table =
     [(''fn'', TkFn), (''struct'', TkStruct), (''enum'', TkEnum), (''trait'', TkTrait),
      (''where'', TkWhere), (''methods'', TkMethods), (''use'', TkUse), (''module'', TkModule),
      (''pub'', TkPub), (''as'', TkAs), (''extern'', TkExtern), (''unsafe'', TkUnsafe),
      (''comptime'', TkComptime), (''quote'', TkQuote), (''spawn'', TkSpawn),
      (''select'', TkSelect), (''yield'', TkYield), (''iter'', TkIter), (''let'', TkLet),
      (''mut'', TkMut), (''const'', TkConst), (''type'', TkType), (''match'', TkMatch),
      (''if'', TkIf), (''else'', TkElse), (''while'', TkWhile), (''for'', TkFor), (''in'', TkIn),
      (''loop'', TkLoop), (''break'', TkBreak), (''continue'', TkContinue),
      (''return'', TkReturn), (''true'', TkTrue), (''false'', TkFalse), (''_'', TkUnderscore)]"

text \<open>\<open>match lexeme { "fn" => ..., _ => TokenKind::Identifier }\<close>\<close>

definition identifier_kind :: "string \<Rightarrow> token_kind" where
  "identifier_kind lexeme =
     (case map_of keywords_table lexeme of Some k \<Rightarrow> k | None \<Rightarrow> TkIdentifier)"

definition identifier_token :: "nat \<Rightarrow> lexer \<Rightarrow> lexer" where
  "identifier_token start lx =
     (let lx = advance_while is_identifier_continue lx
      in push (identifier_kind (lx_slice start lx)) start lx)"

definition lifetime :: "nat \<Rightarrow> lexer \<Rightarrow> lexer" where
  "lifetime start lx = push TkLifetime start (advance_while is_identifier_continue lx)"

definition looks_like_char_literal :: "lexer \<Rightarrow> bool" where
  "looks_like_char_literal lx = (case peek lx of
     None \<Rightarrow> False
   | Some ch \<Rightarrow>
       if ch = [CHR 0x5C] then peek_at 2 lx = Some [CHR 0x27]
       else if ch = [CHR 0x27] then False
       else peek_next lx = Some [CHR 0x27])"

definition char_literal :: "nat \<Rightarrow> lexer \<Rightarrow> lexer" where
  "char_literal start lx =
     (let lx = (if peek lx = Some [CHR 0x5C] then snd (advance lx) else lx);
          lx = snd (advance lx);
          lx = (if peek lx = Some [CHR 0x27] then snd (advance lx) else lx)
      in push TkChar start lx)"

definition string_literal :: "nat \<Rightarrow> lexer \<Rightarrow> lexer" where
  "string_literal start lx =
     (let lx = string_loop False lx in
      if is_at_end lx
      then (let sp = span_new (lx_file_id lx) start (lx_offset lx)
            in lx_report ''PACO-E0101'' sp ''unterminated string'' (lx_add_token TkError start lx))
      else push TkString start (snd (advance lx)))"

definition skip_line_comment :: "lexer \<Rightarrow> lexer" where
  "skip_line_comment lx = advance_while (\<lambda>ch. ch \<noteq> [CHR 0x0A]) lx"

definition skip_block_comment :: "nat \<Rightarrow> lexer \<Rightarrow> lexer" where
  "skip_block_comment start lx = (case block_comment_loop lx of
     (True, lx) \<Rightarrow> lx
   | (False, lx) \<Rightarrow> lx_report ''PACO-E0102'' (span_new (lx_file_id lx) start (lx_offset lx))
       ''unterminated block comment'' lx)"

text \<open>A match arm \<open>c if self.match_char(e) => push(k1)\<close> followed by \<open>c => push(k2)\<close>.\<close>

definition push_alt :: "rchar \<Rightarrow> token_kind \<Rightarrow> token_kind \<Rightarrow> nat \<Rightarrow> lexer \<Rightarrow> lexer" where
  "push_alt e k1 k2 start lx = (case match_char e lx of
     (True, lx) \<Rightarrow> push k1 start lx
   | (False, lx) \<Rightarrow> push k2 start lx)"

definition invalid_character :: "rchar \<Rightarrow> nat \<Rightarrow> lexer \<Rightarrow> lexer" where
  "invalid_character ch start lx =
     (let sp = span_new (lx_file_id lx) start (lx_offset lx)
      in lx_report ''PACO-E0100'' sp (''invalid character `'' @ ch @ ''`'') (lx_add_token TkError start lx))"

definition scan_dot :: "nat \<Rightarrow> lexer \<Rightarrow> lexer" where
  "scan_dot start lx = (case match_char ''.'' lx of
     (True, lx) \<Rightarrow>
       (case match_char ''='' lx of
          (True, lx) \<Rightarrow> push TkDotDotEqual start lx
        | (False, lx) \<Rightarrow> push_alt ''.'' TkDotDotDot TkDotDot start lx)
   | (False, lx) \<Rightarrow> push TkDot start lx)"

definition scan_equal :: "nat \<Rightarrow> lexer \<Rightarrow> lexer" where
  "scan_equal start lx = (case match_char ''='' lx of
     (True, lx) \<Rightarrow> push TkEqualEqual start lx
   | (False, lx) \<Rightarrow> push_alt ''>'' TkFatArrow TkEqual start lx)"

definition scan_slash :: "nat \<Rightarrow> lexer \<Rightarrow> lexer" where
  "scan_slash start lx = (case match_char ''/'' lx of
     (True, lx) \<Rightarrow> skip_line_comment lx
   | (False, lx) \<Rightarrow> (case match_char ''*'' lx of
       (True, lx) \<Rightarrow> skip_block_comment start lx
     | (False, lx) \<Rightarrow> push TkSlash start lx))"

text \<open>The characters that are a token by themselves.\<close>

definition single_table :: "(rchar \<times> token_kind) list" where
  "single_table =
     [(''('', TkLeftParen), ('')'', TkRightParen), (''{'', TkLeftBrace), (''}'', TkRightBrace),
      (''['', TkLeftBracket), ('']'', TkRightBracket), ('','', TkComma), ('';'', TkSemicolon),
      (''+'', TkPlus), (''*'', TkStar), (''%'', TkPercent), (''@'', TkAt), (''?'', TkQuestion),
      (''#'', TkHash), (''^'', TkCaret), (''~'', TkTilde)]"

text \<open>The characters that are one token alone and another before a given character.\<close>

definition pair_table :: "(rchar \<times> rchar \<times> token_kind \<times> token_kind) list" where
  "pair_table =
     [('':'', '':'', TkColonColon, TkColon), (''-'', ''>'', TkArrow, TkMinus),
      (''!'', ''='', TkBangEqual, TkBang), (''<'', ''='', TkLessEqual, TkLess),
      (''>'', ''='', TkGreaterEqual, TkGreater), (''&'', ''&'', TkAndAnd, TkAmpersand),
      (''|'', ''|'', TkOrOr, TkPipe)]"

definition scan_quote :: "rchar \<Rightarrow> nat \<Rightarrow> lexer \<Rightarrow> lexer" where
  "scan_quote ch start lx =
     (if looks_like_char_literal lx then char_literal start lx
      else if (case peek lx of None \<Rightarrow> False | Some c \<Rightarrow> is_identifier_start c) then lifetime start lx
      else invalid_character ch start lx)"

text \<open>The match of \<open>scan_token\<close> on the consumed character. Its arms are disjoint, so that the
  arms that only push a token are grouped into tables.\<close>

definition scan_char :: "rchar \<Rightarrow> nat \<Rightarrow> lexer \<Rightarrow> lexer" where
  "scan_char ch start lx =
     (case map_of single_table ch of Some k \<Rightarrow> push k start lx
      | None \<Rightarrow>
     (case map_of pair_table ch of Some (e, k1, k2) \<Rightarrow> push_alt e k1 k2 start lx
      | None \<Rightarrow>
        if ch = ''.'' then scan_dot start lx
        else if ch = ''='' then scan_equal start lx
        else if ch = ''/'' then scan_slash start lx
        else if ch = [CHR 0x22] then string_literal start lx
        else if ch = [CHR 0x27] then scan_quote ch start lx
        else if is_ascii_whitespace ch then lx
        else if is_ascii_digit ch then number start lx
        else if is_identifier_start ch then identifier_token start lx
        else invalid_character ch start lx))"

definition scan_token :: "lexer \<Rightarrow> lexer" where
  "scan_token lx = (case advance lx of
     (None, lx) \<Rightarrow> lx
   | (Some ch, lx') \<Rightarrow> scan_char ch (lx_offset lx) lx')"

section \<open>The cursor only moves forward\<close>

definition moves :: "lexer \<Rightarrow> lexer \<Rightarrow> bool" where
  "moves lx lx' \<longleftrightarrow> lx_source lx' = lx_source lx \<and> lx_file_id lx' = lx_file_id lx \<and>
     lx_tokens lx' = lx_tokens lx \<and> lx_offset lx \<le> lx_offset lx' \<and>
     (lx_offset lx \<le> length (lx_source lx) \<longrightarrow> lx_offset lx' \<le> length (lx_source lx)) \<and>
     (\<exists>ds. rep_diagnostics (lx_reporter lx') = rep_diagnostics (lx_reporter lx) @ ds)"

interpretation lxm: growth moves
  by unfold_locales (auto simp: moves_def)

lemma moves_advance: "moves lx (snd (advance lx))"
  using next_char_length [of "lx_rest lx"]
  by (auto simp: advance_def peek_def moves_def lx_rest_def split: option.splits)

lemma moves_match_char: "moves lx (snd (match_char e lx))"
  using moves_advance lxm.grows_refl by (simp add: match_char_def)

lemma moves_lx_report: "moves lx (lx_report code sp msg lx)"
  by (simp add: moves_def lx_report_def report_def)

lemma moves_advance_while: "moves lx (advance_while p lx)"
proof (induction p lx rule: advance_while.induct)
  case (1 p lx)
  show ?case
    by (subst advance_while.simps)
      (auto split: option.splits intro: lxm.grows_refl lxm.grows_trans [OF moves_advance] "1")
qed

lemma moves_string_loop: "moves lx (string_loop e lx)"
proof (induction e lx rule: string_loop.induct)
  case (1 e lx)
  show ?case
    using "1.IH" by (cases e) (auto simp: string_loop.simps [of _ lx] split: option.splits
        intro: lxm.grows_refl lxm.grows_trans [OF moves_advance])
qed

lemma moves_block_comment_loop: "moves lx (snd (block_comment_loop lx))"
proof (induction lx rule: block_comment_loop.induct)
  case (1 lx)
  show ?case
    by (subst block_comment_loop.simps)
      (auto intro: lxm.grows_refl lxm.grows_trans [OF moves_advance] moves_advance "1")
qed

lemma moves_check_prefixed_digit: "moves lx (check_prefixed_digit radix ch lx)"
  by (simp add: check_prefixed_digit_def moves_lx_report lxm.grows_refl)

lemma moves_prefixed_loop: "moves lx (prefixed_loop radix lx)"
proof (induction radix lx rule: prefixed_loop.induct)
  case (1 radix lx)
  show ?case
    by (subst prefixed_loop.simps)
      (auto split: option.splits intro: lxm.grows_refl
        lxm.grows_trans3 [OF moves_advance moves_check_prefixed_digit] "1")
qed

lemma moves_check_no_trailing_separator: "moves lx (check_no_trailing_separator start lx)"
  by (simp add: check_no_trailing_separator_def Let_def moves_lx_report lxm.grows_refl)

lemma moves_if: "moves lx a \<Longrightarrow> moves lx b \<Longrightarrow> moves lx (if p then a else b)"
  by simp

text \<open>The same facts as steps of a chain that starts at \<open>lx\<close>.\<close>

lemmas moves_steps = moves_if
  lxm.grows_trans [OF _ moves_advance] lxm.grows_trans [OF _ moves_match_char]
  lxm.grows_trans [OF _ moves_lx_report] lxm.grows_trans [OF _ moves_advance_while]
  lxm.grows_trans [OF _ moves_string_loop] lxm.grows_trans [OF _ moves_block_comment_loop]
  lxm.grows_trans [OF _ moves_prefixed_loop]
  lxm.grows_trans [OF _ moves_check_no_trailing_separator] lxm.grows_refl

section \<open>What one scan does\<close>

text \<open>It emits one token, from \<open>start\<close> to the new offset, and reports an error for that span when
  it is an error token; or it skips white space or a comment.\<close>

definition reported :: "span \<Rightarrow> lexer \<Rightarrow> bool" where
  "reported sp lx \<longleftrightarrow> (\<exists>d \<in> set (rep_diagnostics (lx_reporter lx)).
     diag_severity d = SevError \<and> label_span (diag_primary d) = sp)"

definition emits :: "nat \<Rightarrow> lexer \<Rightarrow> lexer \<Rightarrow> bool" where
  "emits start lx lx' \<longleftrightarrow> (\<exists>k. let sp = span_new (lx_file_id lx) start (lx_offset lx') in
     lx_tokens lx' = lx_tokens lx @ [token_new k (lx_slice start lx') sp] \<and>
     (k = TkError \<longrightarrow> reported sp lx') \<and> k \<noteq> TkEof \<and>
     moves lx (lx'\<lparr>lx_tokens := lx_tokens lx\<rparr>))"

definition trivia :: "string \<Rightarrow> bool" where
  "trivia g \<longleftrightarrow> is_ascii_whitespace g \<or>
     (\<exists>cs. g = ''//'' @ concat cs \<and> (\<forall>c \<in> set cs. c \<noteq> [CHR 0x0A])) \<or> (\<exists>m. g = ''/*'' @ m)"

definition skips :: "nat \<Rightarrow> lexer \<Rightarrow> lexer \<Rightarrow> bool" where
  "skips start lx lx' \<longleftrightarrow> moves lx lx' \<and> trivia (lx_slice start lx')"

lemma emits_push: "moves lx m \<Longrightarrow> k \<noteq> TkError \<Longrightarrow> k \<noteq> TkEof \<Longrightarrow> emits start lx (push k start m)"
  by (auto simp: emits_def push_def lx_add_token_def moves_def Let_def lx_slice_def)

lemma emits_error:
  "moves lx m \<Longrightarrow> emits start lx
     (lx_report code (span_new (lx_file_id m) start (lx_offset m)) msg (lx_add_token TkError start m))"
  by (auto simp: emits_def lx_report_def report_def lx_add_token_def moves_def Let_def lx_slice_def
      reported_def diagnostic_error_def diagnostic_new_def label_new_def)

lemma emits_push_alt:
  "moves lx m \<Longrightarrow> k1 \<noteq> TkError \<Longrightarrow> k2 \<noteq> TkError \<Longrightarrow> k1 \<noteq> TkEof \<Longrightarrow> k2 \<noteq> TkEof \<Longrightarrow>
     emits start lx (push_alt e k1 k2 start m)"
  using lxm.grows_trans [OF _ moves_match_char, of lx m e]
  by (auto simp: push_alt_def intro!: emits_push split: prod.splits bool.splits)

lemma emits_scan_dot: "emits start lx (scan_dot start lx)"
proof -
  obtain b1 m1 where m1: "match_char ''.'' lx = (b1, m1)" by fastforce
  obtain b2 m2 where m2: "match_char ''='' m1 = (b2, m2)" by fastforce
  have 1: "moves lx m1" using moves_match_char [of lx "''.''"] m1 by simp
  then have 2: "moves lx m2" using moves_match_char [of m1 "''=''"] m2 lxm.grows_trans by fastforce
  show ?thesis
    by (simp add: scan_dot_def m1 m2 emits_push emits_push_alt 1 2 split: bool.splits)
qed

lemma emits_scan_equal: "emits start lx (scan_equal start lx)"
proof -
  obtain b m where m: "match_char ''='' lx = (b, m)" by fastforce
  have "moves lx m" using moves_match_char [of lx "''=''"] m by simp
  then show ?thesis by (simp add: scan_equal_def m emits_push emits_push_alt split: bool.splits)
qed

lemma emits_prefixed_digits: "moves lx m \<Longrightarrow> emits start lx (prefixed_digits start radix m)"
  unfolding prefixed_digits_def Let_def
  by (intro emits_push moves_steps) simp_all

lemma emits_number: "emits start lx (number start lx)"
proof (cases "number_radix start lx")
  case (Some radix)
  then show ?thesis by (simp add: number_def emits_prefixed_digits moves_advance)
next
  case None
  then show ?thesis
    unfolding number_def None option.case Let_def
    by (simp split del: if_split) (simp; intro conjI impI emits_push moves_steps; simp)
qed

lemma identifier_kind_proper: "identifier_kind w \<noteq> TkError" "identifier_kind w \<noteq> TkEof"
proof -
  have "map_of keywords_table w = Some k \<Longrightarrow> k \<noteq> TkError \<and> k \<noteq> TkEof" for k
    by (drule map_of_SomeD) (auto simp: keywords_table_def)
  then show "identifier_kind w \<noteq> TkError" "identifier_kind w \<noteq> TkEof"
    by (auto simp: identifier_kind_def split: option.splits)
qed

lemma emits_identifier: "emits start lx (identifier_token start lx)"
  by (simp add: identifier_token_def Let_def emits_push identifier_kind_proper moves_advance_while)

lemma emits_scan_quote: "emits start lx (scan_quote ch start lx)"
proof -
  have "emits start lx (char_literal start lx)"
    unfolding char_literal_def Let_def by (intro emits_push moves_steps) simp_all
  then show ?thesis
    by (simp add: scan_quote_def lifetime_def invalid_character_def Let_def emits_push emits_error
        moves_advance_while lxm.grows_refl)
qed

lemma emits_string_literal: "emits start lx (string_literal start lx)"
proof -
  have "moves lx (snd (advance (string_loop False lx)))"
    by (intro moves_steps)
  then show ?thesis
    by (simp add: string_literal_def Let_def emits_push emits_error moves_string_loop)
qed

lemma lx_slice_moves:
  assumes "moves lx lx'" "start \<le> lx_offset lx"
  shows "lx_slice start lx' = lx_slice start lx @ lx_slice (lx_offset lx) lx'"
proof -
  let ?a = "lx_offset lx" and ?b = "lx_offset lx'" and ?s = "lx_source lx"
  have "?a \<le> ?b" "lx_source lx' = ?s" using assms(1) by (auto simp: moves_def)
  then show ?thesis
    using drop_take_drop [OF assms(2), of "take ?b ?s"] by (simp add: lx_slice_def min_absorb1)
qed

lemma advance_Some:
  assumes "advance lx = (Some ch, lx')"
  shows "peek lx = Some ch" "lx_slice (lx_offset lx) lx' = ch" "lx_offset lx < lx_offset lx'"
    "lx_offset lx' \<le> length (lx_source lx)" "lx_offset lx < length (lx_source lx)"
proof -
  show p: "peek lx = Some ch"
    using assms by (auto simp: advance_def split: option.splits)
  have l: "0 < length ch" "length ch \<le> length (lx_rest lx)" "lx_rest lx = ch @ drop (length ch) (lx_rest lx)"
    using p next_char_length next_char_prefix by (auto simp: peek_def)
  have lx': "lx' = lx\<lparr>lx_offset := lx_offset lx + length ch\<rparr>"
    using assms p by (auto simp: advance_def)
  show less: "lx_offset lx < length (lx_source lx)"
    using peek_Some_not_at_end [OF p] by (simp add: is_at_end_def)
  show "lx_offset lx < lx_offset lx'" "lx_offset lx' \<le> length (lx_source lx)"
    using l lx' less by (auto simp: lx_rest_def)
  have "lx_slice (lx_offset lx) lx' = take (length ch) (lx_rest lx)"
    by (simp add: lx' lx_slice_def lx_rest_def drop_take)
  then show "lx_slice (lx_offset lx) lx' = ch" using l(3) by (metis append_eq_conv_conj)
qed

lemma advance_while_spec:
  assumes "lx_offset lx \<le> length (lx_source lx)"
  shows "\<exists>cs. lx_slice (lx_offset lx) (advance_while p lx) = concat cs \<and> list_all p cs \<and>
     (case peek (advance_while p lx) of None \<Rightarrow> True | Some c \<Rightarrow> \<not> p c)"
  using assms
proof (induction p lx rule: advance_while.induct)
  case (1 p lx)
  show ?case
  proof (cases "\<exists>ch. peek lx = Some ch \<and> p ch")
    case True
    then obtain ch where ch: "peek lx = Some ch" "p ch" by blast
    then have adv: "advance lx = (Some ch, snd (advance lx))" by (simp add: advance_def)
    let ?m = "snd (advance lx)" and ?e = "advance_while p (snd (advance lx))"
    note a = advance_Some [OF adv]
    obtain cs where cs: "lx_slice (lx_offset ?m) ?e = concat cs" "list_all p cs"
        "case peek ?e of None \<Rightarrow> True | Some c \<Rightarrow> \<not> p c"
      using "1.IH" [OF ch] a(4) by auto
    have bound: "lx_offset ?e \<le> length (lx_source lx)"
      using moves_advance_while [of ?m p] a(4) by (simp add: moves_def)
    have "lx_slice (lx_offset lx) ?e = concat (ch # cs)"
      using lx_slice_moves [OF moves_advance_while, of "lx_offset lx" ?m p] a cs(1) bound by simp
    then show ?thesis
      using ch cs by (auto simp: advance_while.simps [of p lx] intro!: exI [of _ "ch # cs"])
  next
    case False
    then have "advance_while p lx = lx"
      by (auto simp: advance_while.simps [of p lx] split: option.splits)
    then show ?thesis
      using False by (auto simp: lx_slice_def intro!: exI [of _ "[]"] split: option.splits)
  qed
qed

lemma match_char_True:
  assumes "match_char e lx = (True, m)"
  shows "advance lx = (Some e, m)"
  using assms by (auto simp: match_char_def advance_def split: if_splits)

lemma match_char_False: "match_char e lx = (False, m) \<Longrightarrow> m = lx"
  by (auto simp: match_char_def split: if_splits)

lemma scan_slash_result:
  assumes "lx_offset lx \<le> length (lx_source lx)" "start \<le> lx_offset lx" "lx_slice start lx = ''/''"
  shows "emits start lx (scan_slash start lx) \<or> skips start lx (scan_slash start lx)"
proof -
  have grow: "lx_slice start lx' = ''/'' @ e @ lx_slice (lx_offset m) lx'"
    if "advance lx = (Some e, m)" "moves m lx'" for e m lx'
  proof -
    note a = advance_Some [OF that(1)]
    have m: "moves lx m" using moves_advance [of lx] that(1) by simp
    have "lx_slice start m = ''/'' @ e"
      using lx_slice_moves [OF m assms(2)] a assms(3) by simp
    moreover have "lx_offset lx' \<le> length (lx_source m)" "lx_source m = lx_source lx"
      using that(2) a m by (auto simp: moves_def)
    ultimately show ?thesis
      using lx_slice_moves [OF that(2), of start] a assms(2) by simp
  qed
  obtain b1 m1 where m1: "match_char ''/'' lx = (b1, m1)" by fastforce
  obtain b2 m2 where m2: "match_char ''*'' lx = (b2, m2)" by fastforce
  show ?thesis
  proof (cases b1)
    case True
    then have adv: "advance lx = (Some ''/'', m1)" using m1 match_char_True by simp
    have "lx_offset m1 \<le> length (lx_source m1)"
      using advance_Some(4) [OF adv] moves_advance [of lx] adv by (simp add: moves_def)
    then obtain cs where "lx_slice (lx_offset m1) (skip_line_comment m1) = concat cs"
        "list_all (\<lambda>ch. ch \<noteq> [CHR 0x0A]) cs"
      using advance_while_spec by (fastforce simp: skip_line_comment_def)
    moreover have "moves m1 (skip_line_comment m1)"
      by (simp add: skip_line_comment_def moves_advance_while)
    ultimately have "trivia (lx_slice start (skip_line_comment m1))"
      using grow [OF adv] by (auto simp: trivia_def list_all_iff)
    moreover have "moves lx (skip_line_comment m1)"
      using moves_advance [of lx] adv by (simp add: skip_line_comment_def lxm.grows_trans moves_advance_while)
    ultimately show ?thesis using True m1 by (simp add: scan_slash_def skips_def)
  next
    case False
    then have [simp]: "m1 = lx" using m1 match_char_False by simp
    show ?thesis
    proof (cases b2)
      case True
      then have adv: "advance lx = (Some ''*'', m2)" using m2 match_char_True by simp
      have mv: "moves m2 (skip_block_comment start m2)"
        using moves_block_comment_loop [of m2]
        by (auto simp: skip_block_comment_def split: prod.splits bool.splits
            intro: lxm.grows_trans moves_lx_report)
      moreover have "moves lx m2" using moves_advance [of lx] adv by simp
      ultimately show ?thesis
        using grow [OF adv mv] True False m1 m2
        by (auto simp: scan_slash_def skips_def trivia_def intro: lxm.grows_trans)
    next
      case False
      then show ?thesis
        using \<open>\<not> b1\<close> m1 m2 match_char_False [of "''*''" lx m2]
        by (simp add: scan_slash_def emits_push lxm.grows_refl)
    qed
  qed
qed

lemma single_table_proper:
  "map_of single_table ch = Some k \<Longrightarrow> k \<noteq> TkError \<and> k \<noteq> TkEof"
  by (drule map_of_SomeD) (auto simp: single_table_def)

lemma pair_table_proper:
  "map_of pair_table ch = Some (e, k1, k2) \<Longrightarrow>
     k1 \<noteq> TkError \<and> k1 \<noteq> TkEof \<and> k2 \<noteq> TkError \<and> k2 \<noteq> TkEof"
  by (drule map_of_SomeD) (auto simp: pair_table_def)

lemma scan_char_result:
  assumes "lx_offset lx \<le> length (lx_source lx)" "start \<le> lx_offset lx" "lx_slice start lx = ch"
  shows "emits start lx (scan_char ch start lx) \<or> skips start lx (scan_char ch start lx)"
proof -
  have ws: "is_ascii_whitespace ch \<Longrightarrow> skips start lx lx"
    using assms(3) by (simp add: skips_def trivia_def lxm.grows_refl)
  have sl: "ch = ''/'' \<Longrightarrow> emits start lx (scan_slash start lx) \<or> skips start lx (scan_slash start lx)"
    using assms scan_slash_result by simp
  have ic: "emits start lx (invalid_character ch start lx)"
    by (simp add: invalid_character_def Let_def emits_error lxm.grows_refl)
  define ok where "ok x \<longleftrightarrow> emits start lx x \<or> skips start lx x" for x
  have if_ok: "(c \<Longrightarrow> ok a) \<Longrightarrow> (\<not> c \<Longrightarrow> ok b) \<Longrightarrow> ok (if c then a else b)" for c a b by simp
  have "ok (scan_char ch start lx)"
  proof (cases "map_of single_table ch")
    case (Some k)
    then show ?thesis
      using single_table_proper [OF Some] by (simp add: scan_char_def ok_def emits_push lxm.grows_refl)
  next
    case single: None
    show ?thesis
    proof (cases "map_of pair_table ch")
      case (Some p)
      obtain e k1 k2 where "p = (e, k1, k2)" by (cases p)
      then show ?thesis
        using pair_table_proper Some single
        by (simp add: scan_char_def ok_def emits_push_alt lxm.grows_refl)
    next
      case None
      show ?thesis
        unfolding scan_char_def single None option.case
        by (intro if_ok) (simp_all only: ok_def emits_scan_dot emits_scan_equal emits_string_literal
            emits_scan_quote emits_number emits_identifier ic ws sl simp_thms)
    qed
  qed
  then show ?thesis by (simp add: ok_def)
qed

lemma scan_token_result:
  assumes "\<not> is_at_end lx"
  shows "(emits (lx_offset lx) lx (scan_token lx) \<or> skips (lx_offset lx) lx (scan_token lx)) \<and>
     lx_offset lx < lx_offset (scan_token lx) \<and>
     lx_offset (scan_token lx) \<le> length (lx_source lx) \<and> lx_source (scan_token lx) = lx_source lx"
proof -
  obtain ch m where adv: "advance lx = (Some ch, m)"
    using assms by (cases "peek lx") (auto simp: advance_def peek_def lx_rest_def is_at_end_def)
  note a = advance_Some [OF adv]
  have m: "moves lx m" using moves_advance [of lx] adv by simp
  have "lx_offset m \<le> length (lx_source m)" using a m by (simp add: moves_def)
  then have res: "emits (lx_offset lx) m (scan_token lx) \<or> skips (lx_offset lx) m (scan_token lx)"
    using scan_char_result [of m "lx_offset lx" ch] a adv by (simp add: scan_token_def)
  then show ?thesis
    using m a by (auto simp: emits_def skips_def moves_def Let_def)
qed

section \<open>The run of the lexer\<close>

function lex_loop :: "lexer \<Rightarrow> lexer" where
  "lex_loop lx = (if is_at_end lx then lx else lex_loop (scan_token lx))"
  by pat_completeness auto
termination
proof (relation "measure (\<lambda>lx. length (lx_source lx) - lx_offset lx)")
  fix lx assume "\<not> is_at_end lx"
  then show "(scan_token lx, lx) \<in> measure (\<lambda>lx. length (lx_source lx) - lx_offset lx)"
    using scan_token_result [of lx] by (simp add: is_at_end_def diff_less_mono2)
qed simp

declare lex_loop.simps [simp del]

definition lex_run :: "lexer \<Rightarrow> token list \<times> reporter" where
  "lex_run lx = (let lx = lex_loop lx in
     (lx_tokens lx @ [token_new TkEof [] (span_new (lx_file_id lx) (lx_offset lx) (lx_offset lx))],
      lx_reporter lx))"

definition lex :: "string \<Rightarrow> file_id \<Rightarrow> reporter \<Rightarrow> token list \<times> reporter" where
  "lex src file r = lex_run \<lparr>lx_source = src, lx_file_id = file, lx_reporter = r,
     lx_tokens = [], lx_offset = 0\<rparr>"

section \<open>Tokens tile the source\<close>

text \<open>\<open>tiled fid pos text toks\<close>: from byte \<open>pos\<close> on, the text is a sequence of the given tokens'
  lexemes, each at its own span, with only white space and comments between them.\<close>

inductive tiled :: "file_id \<Rightarrow> nat \<Rightarrow> string \<Rightarrow> token list \<Rightarrow> bool" for fid where
  tiled_end: "tiled fid pos [] []"
| tiled_token: "w \<noteq> [] \<Longrightarrow> tiled fid (pos + length w) rest toks \<Longrightarrow>
     tiled fid pos (w @ rest) (token_new k w (span_new fid pos (pos + length w)) # toks)"
| tiled_trivia: "g \<noteq> [] \<Longrightarrow> trivia g \<Longrightarrow> tiled fid (pos + length g) rest toks \<Longrightarrow>
     tiled fid pos (g @ rest) toks"

lemma lex_loop_tiled:
  assumes "lx_offset lx \<le> length (lx_source lx)"
  shows "\<exists>toks. lx_tokens (lex_loop lx) = lx_tokens lx @ toks \<and>
     tiled (lx_file_id lx) (lx_offset lx) (lx_rest lx) toks \<and>
     lx_offset (lex_loop lx) = length (lx_source lx) \<and> lx_file_id (lex_loop lx) = lx_file_id lx \<and>
     (\<exists>ds. rep_diagnostics (lx_reporter (lex_loop lx)) = rep_diagnostics (lx_reporter lx) @ ds) \<and>
     (\<forall>t \<in> set toks. tok_kind t \<noteq> TkEof \<and> (tok_kind t = TkError \<longrightarrow> reported (tok_span t) (lex_loop lx)))"
  using assms
proof (induction lx rule: lex_loop.induct)
  case (1 lx)
  show ?case
  proof (cases "is_at_end lx")
    case True
    then have "lx_rest lx = []" "lx_offset lx = length (lx_source lx)"
      using "1.prems" by (auto simp: is_at_end_def lx_rest_def)
    then show ?thesis using True by (auto simp: lex_loop.simps [of lx] intro: tiled_end)
  next
    case False
    let ?n = "scan_token lx"
    let ?w = "lx_slice (lx_offset lx) ?n"
    note r = scan_token_result [OF False]
    then obtain toks where IH: "lx_tokens (lex_loop ?n) = lx_tokens ?n @ toks"
        "tiled (lx_file_id ?n) (lx_offset ?n) (lx_rest ?n) toks"
        "lx_offset (lex_loop ?n) = length (lx_source ?n)" "lx_file_id (lex_loop ?n) = lx_file_id ?n"
        "\<exists>ds. rep_diagnostics (lx_reporter (lex_loop ?n)) = rep_diagnostics (lx_reporter ?n) @ ds"
        "\<forall>t \<in> set toks. tok_kind t \<noteq> TkEof \<and> (tok_kind t = TkError \<longrightarrow> reported (tok_span t) (lex_loop ?n))"
      using "1.IH" [OF False] by auto
    have rest: "lx_rest lx = ?w @ lx_rest ?n" and len: "lx_offset lx + length ?w = lx_offset ?n"
      using r drop_take_drop [of "lx_offset lx" "lx_offset ?n" "lx_source lx"]
      by (auto simp: lx_rest_def lx_slice_def)
    have "?w \<noteq> []" using r len by auto
    have keep: "reported sp ?n \<Longrightarrow> reported sp (lex_loop ?n)" for sp
      using IH(5) by (auto simp: reported_def)
    have loop: "lex_loop lx = lex_loop ?n" using False by (simp add: lex_loop.simps [of lx])
    from r consider "emits (lx_offset lx) lx ?n" | "skips (lx_offset lx) lx ?n" by blast
    then show ?thesis
    proof cases
      case 1
      then obtain k where k: "lx_tokens ?n = lx_tokens lx @
            [token_new k ?w (span_new (lx_file_id lx) (lx_offset lx) (lx_offset ?n))]"
          "k = TkError \<longrightarrow> reported (span_new (lx_file_id lx) (lx_offset lx) (lx_offset ?n)) ?n"
          "k \<noteq> TkEof" "lx_file_id ?n = lx_file_id lx"
          "\<exists>ds. rep_diagnostics (lx_reporter ?n) = rep_diagnostics (lx_reporter lx) @ ds"
        by (auto simp: emits_def Let_def moves_def)
      have "tiled (lx_file_id lx) (lx_offset lx) (?w @ lx_rest ?n)
          (token_new k ?w (span_new (lx_file_id lx) (lx_offset lx) (lx_offset ?n)) # toks)"
        using tiled_token [OF \<open>?w \<noteq> []\<close>] IH(2) k(4) len by metis
      then show ?thesis
        using IH k rest r keep loop by (auto simp: token_new_def)
    next
      case 2
      then have "tiled (lx_file_id lx) (lx_offset lx) (?w @ lx_rest ?n) toks"
        using tiled_trivia [OF \<open>?w \<noteq> []\<close>] IH(2) len by (metis moves_def skips_def)
      then show ?thesis
        using IH 2 rest r loop by (auto simp: skips_def moves_def)
    qed
  qed
qed


text \<open>C28: no error token goes unreported. The lexer keeps every earlier report, and each error
  token it produces comes with an error diagnostic at the token's own span, so a source without
  reported errors has no error token.\<close>

theorem lex_reports_error_tokens:
  assumes "lex src fid r = (toks, r')"
  shows "(\<exists>ds. rep_diagnostics r' = rep_diagnostics r @ ds) \<and>
     (\<forall>t \<in> set toks. tok_kind t = TkError \<longrightarrow>
        (\<exists>d \<in> set (rep_diagnostics r'). diag_severity d = SevError \<and> label_span (diag_primary d) = tok_span t))"
  using assms
    lex_loop_tiled [of "\<lparr>lx_source = src, lx_file_id = fid, lx_reporter = r, lx_tokens = [], lx_offset = 0\<rparr>"]
  by (auto simp: lex_def lex_run_def Let_def reported_def token_new_def)

section \<open>Words\<close>

text \<open>A word is a non-empty sequence of identifier characters that starts like an identifier.\<close>

definition is_word :: "string \<Rightarrow> bool" where
  "is_word w \<longleftrightarrow> w \<noteq> [] \<and> is_identifier_start [hd w] \<and> list_all (\<lambda>b. is_identifier_continue [b]) w"

fun unwords :: "string list \<Rightarrow> string" where
  "unwords [] = []"
| "unwords [w] = w"
| "unwords (w # v # ws) = w @ '' '' @ unwords (v # ws)"

text \<open>The text of a word list from its second word on.\<close>

definition unwords_tail :: "string list \<Rightarrow> string" where
  "unwords_tail ws = concat (map (\<lambda>w. '' '' @ w) ws)"

lemma unwords_Cons: "unwords (w # ws) = w @ unwords_tail ws"
  by (induction ws arbitrary: w) (auto simp: unwords_tail_def)

lemma continue_width: "is_identifier_continue [b] \<Longrightarrow> utf8_width b = 1"
  by (auto simp: is_identifier_continue_def is_ascii_alphanumeric_def is_ascii_alphabetic_def
      is_ascii_digit_def utf8_width_def Let_def less_eq_char_def split: if_splits)

lemma next_char_ascii: "utf8_width b = 1 \<Longrightarrow> next_char (b # s) = Some [b]"
  by (simp add: next_char_def)

lemma advance_ascii:
  assumes "lx_rest lx = b # s" "utf8_width b = 1"
  shows "peek lx = Some [b]" "advance lx = (Some [b], lx\<lparr>lx_offset := lx_offset lx + 1\<rparr>)"
    "lx_rest (lx\<lparr>lx_offset := lx_offset lx + 1\<rparr>) = s"
proof -
  show p: "peek lx = Some [b]" using assms by (simp add: peek_def next_char_ascii)
  then show "advance lx = (Some [b], lx\<lparr>lx_offset := lx_offset lx + 1\<rparr>)" by (simp add: advance_def)
  show "lx_rest (lx\<lparr>lx_offset := lx_offset lx + 1\<rparr>) = s"
    using assms(1) by (simp add: lx_rest_def drop_Suc flip: tl_drop)
qed

lemma advance_while_continue:
  assumes "lx_rest lx = w @ s" "list_all (\<lambda>b. is_identifier_continue [b]) w"
    and "s = [] \<or> \<not> is_identifier_continue (the (next_char s))"
  shows "advance_while is_identifier_continue lx = lx\<lparr>lx_offset := lx_offset lx + length w\<rparr>"
  using assms
proof (induction w arbitrary: lx)
  case Nil
  then show ?case
    by (subst advance_while.simps) (auto simp: peek_def next_char_def split: option.splits list.splits)
next
  case (Cons b w)
  have b: "is_identifier_continue [b]" "utf8_width b = 1" using Cons.prems continue_width by simp_all
  note a = advance_ascii [of lx b "w @ s", OF _ b(2)]
  have "advance_while is_identifier_continue lx
      = advance_while is_identifier_continue (lx\<lparr>lx_offset := lx_offset lx + 1\<rparr>)"
    using a b Cons.prems(1) by (subst advance_while.simps) simp
  also have "\<dots> = lx\<lparr>lx_offset := lx_offset lx + 1 + length w\<rparr>"
    using Cons.IH [of "lx\<lparr>lx_offset := lx_offset lx + 1\<rparr>"] a(3) Cons.prems by simp
  finally show ?case by simp
qed

lemma scan_char_identifier:
  assumes "is_identifier_start [b]"
  shows "scan_char [b] start lx = identifier_token start lx"
proof -
  have no: "map_of tab [b] = None" if "list_all (\<lambda>(c, k). \<not> is_identifier_start c) tab" for tab :: "(rchar \<times> 'k) list"
    using that assms by (induction tab) auto
  have "map_of single_table [b] = None" "map_of pair_table [b] = None"
    by (rule no; simp add: single_table_def pair_table_def is_identifier_start_def
        is_ascii_alphabetic_def less_eq_char_def)+
  moreover have "[b] \<noteq> ''.''" "[b] \<noteq> ''=''" "[b] \<noteq> ''/''" "[b] \<noteq> [CHR 0x22]" "[b] \<noteq> [CHR 0x27]"
      "\<not> is_ascii_whitespace [b]" "\<not> is_ascii_digit [b]"
    using assms by (auto simp: is_identifier_start_def is_ascii_alphabetic_def is_ascii_digit_def
        is_ascii_whitespace_def less_eq_char_def)
  ultimately show ?thesis using assms by (simp add: scan_char_def)
qed

lemma scan_word:
  assumes "lx_rest lx = w @ s" "is_word w" "s = [] \<or> \<not> is_identifier_continue (the (next_char s))"
  shows "scan_token lx = lx\<lparr>lx_offset := lx_offset lx + length w, lx_tokens := lx_tokens lx @
     [token_new (identifier_kind w) w
        (span_new (lx_file_id lx) (lx_offset lx) (lx_offset lx + length w))]\<rparr>"
proof -
  obtain b v where w: "w = b # v" "is_identifier_start [b]"
      "is_identifier_continue [b]" "list_all (\<lambda>b. is_identifier_continue [b]) v"
    using assms(2) by (cases w) (auto simp: is_word_def)
  note a = advance_ascii [of lx b "v @ s", OF _ continue_width [OF w(3)]]
  let ?m = "lx\<lparr>lx_offset := lx_offset lx + 1\<rparr>"
  have loop: "advance_while is_identifier_continue ?m = ?m\<lparr>lx_offset := lx_offset lx + length w\<rparr>"
    using advance_while_continue [of ?m v s] a(3) assms(1,3) w by simp
  have slice: "lx_slice (lx_offset lx) (lx\<lparr>lx_offset := lx_offset lx + length w\<rparr>) = w"
    using assms(1) by (simp add: lx_slice_def lx_rest_def drop_take)
  show ?thesis
    using a assms(1) w loop slice
    by (simp add: scan_token_def scan_char_identifier identifier_token_def Let_def push_def lx_add_token_def)
qed

lemma scan_space:
  assumes "lx_rest lx = CHR '' '' # s"
  shows "scan_token lx = lx\<lparr>lx_offset := lx_offset lx + 1\<rparr>"
  using advance_ascii [OF assms]
  by (simp add: scan_token_def scan_char_def single_table_def pair_table_def is_ascii_whitespace_def
      utf8_width_def)

fun word_tokens :: "file_id \<Rightarrow> nat \<Rightarrow> string list \<Rightarrow> token list" where
  "word_tokens fid pos [] = []"
| "word_tokens fid pos (w # ws) =
     token_new (identifier_kind w) w (span_new fid pos (pos + length w))
       # word_tokens fid (pos + length w + 1) ws"

lemma space_stops: "\<not> is_identifier_continue (the (next_char (CHR '' '' # s)))"
  by (simp add: next_char_def utf8_width_def is_identifier_continue_def is_ascii_alphanumeric_def
      is_ascii_alphabetic_def is_ascii_digit_def less_eq_char_def)

lemma lex_loop_words:
  assumes "list_all is_word (w # ws)" "lx_rest lx = w @ unwords_tail ws"
  shows "lex_loop lx = lx\<lparr>lx_offset := length (lx_source lx),
     lx_tokens := lx_tokens lx @ word_tokens (lx_file_id lx) (lx_offset lx) (w # ws)\<rparr>"
  using assms
proof (induction ws arbitrary: w lx)
  case Nil
  then have "lx_rest lx = w @ []" "w \<noteq> []" "is_word w" by (auto simp: unwords_tail_def is_word_def)
  moreover from this have "lx_offset lx + length w = length (lx_source lx)" "\<not> is_at_end lx"
    by (auto simp: lx_rest_def is_at_end_def dest!: arg_cong [where f = length])
  moreover have "is_at_end lx' \<Longrightarrow> lex_loop lx' = lx'" for lx' by (simp add: lex_loop.simps [of lx'])
  ultimately show ?case
    by (simp add: lex_loop.simps [of lx] scan_word [of lx w "[]"] is_at_end_def)
next
  case (Cons v ws)
  let ?m = "scan_token lx" and ?n = "scan_token (scan_token lx)"
  have rest: "lx_rest lx = w @ CHR '' '' # v @ unwords_tail ws" "w \<noteq> []"
    using Cons.prems by (auto simp: unwords_tail_def is_word_def)
  have m: "?m = lx\<lparr>lx_offset := lx_offset lx + length w, lx_tokens := lx_tokens lx @
      [token_new (identifier_kind w) w (span_new (lx_file_id lx) (lx_offset lx) (lx_offset lx + length w))]\<rparr>"
    using scan_word [OF rest(1)] Cons.prems(1) space_stops by simp
  have rm: "lx_rest ?m = CHR '' '' # v @ unwords_tail ws"
  proof -
    have "lx_rest ?m = drop (length w) (lx_rest lx)" by (simp add: m lx_rest_def add.commute)
    then show ?thesis by (simp add: rest(1))
  qed
  then have n: "?n = ?m\<lparr>lx_offset := lx_offset ?m + 1\<rparr>" by (rule scan_space)
  have rn: "lx_rest ?n = v @ unwords_tail ws"
    using advance_ascii(3) [OF rm] n by (simp add: utf8_width_def)
  have "\<not> is_at_end lx" "\<not> is_at_end ?m"
    using rest rm by (auto simp: lx_rest_def is_at_end_def)
  then have "lex_loop lx = lex_loop ?n"
    by (simp add: lex_loop.simps [of lx] lex_loop.simps [of ?m])
  also have "\<dots> = ?n\<lparr>lx_offset := length (lx_source ?n),
      lx_tokens := lx_tokens ?n @ word_tokens (lx_file_id ?n) (lx_offset ?n) (v # ws)\<rparr>"
    using Cons.IH [of v ?n] Cons.prems(1) rn by simp
  finally have loop: "lex_loop lx = \<dots>" .
  have n': "?n = lx\<lparr>lx_offset := lx_offset lx + length w + 1, lx_tokens := lx_tokens lx @
      [token_new (identifier_kind w) w (span_new (lx_file_id lx) (lx_offset lx) (lx_offset lx + length w))]\<rparr>"
    by (subst n) (simp add: m)
  show ?case unfolding loop unfolding n' by simp
qed

text \<open>Words and keywords round-trip. Printing a list of words with single spaces between
  them and lexing the result gives exactly one token per word, with the word as its lexeme, at the
  position it was printed, of the keyword's kind if it is a keyword and an identifier otherwise,
  and reports nothing.\<close>

theorem lex_words_roundtrip:
  assumes "list_all is_word ws" "ws \<noteq> []"
  shows "lex (unwords ws) fid r =
     (word_tokens fid 0 ws @
        [token_new TkEof [] (span_new fid (length (unwords ws)) (length (unwords ws)))], r)"
proof -
  obtain w vs where ws: "ws = w # vs" using assms(2) by (cases ws) auto
  let ?lx = "\<lparr>lx_source = unwords ws, lx_file_id = fid, lx_reporter = r, lx_tokens = [], lx_offset = 0\<rparr>"
  have "lx_rest ?lx = w @ unwords_tail vs" by (simp add: lx_rest_def ws unwords_Cons)
  then show ?thesis
    using lex_loop_words [of w vs ?lx] assms(1) ws by (simp add: lex_def lex_run_def Let_def)
qed

theorem lex_words_roundtrip_witness:
  "lex ''let x'' file_id_root reporter_new =
     ([token_new TkLet ''let'' (span_new file_id_root 0 3),
       token_new TkIdentifier ''x'' (span_new file_id_root 4 5),
       token_new TkEof [] (span_new file_id_root 5 5)], reporter_new)"
proof -
  have "list_all is_word [''let'', ''x'']"
    by (simp add: is_word_def is_identifier_start_def is_identifier_continue_def
        is_ascii_alphanumeric_def is_ascii_alphabetic_def less_eq_char_def)
  then show ?thesis
    using lex_words_roundtrip [of "[''let'', ''x'']" file_id_root reporter_new]
    by (simp add: identifier_kind_def keywords_table_def numeral_eq_Suc)
qed

theorem lex_reports_error_tokens_witness:
  "\<exists>toks r'. lex [CHR 0x22] file_id_root reporter_new = (toks, r') \<and>
     (\<exists>ds. rep_diagnostics r' = rep_diagnostics reporter_new @ ds) \<and>
     list_all (\<lambda>t. tok_kind t = TkError \<longrightarrow>
        (\<exists>d \<in> set (rep_diagnostics r'). label_span (diag_primary d) = tok_span t)) toks"
proof -
  obtain toks r' where "lex [CHR 0x22] file_id_root reporter_new = (toks, r')" by fastforce
  with lex_reports_error_tokens [OF this] show ?thesis by (auto simp: list_all_iff)
qed

end
