(* ===== verification/Literals.thy ===== *)
theory Literals
  imports Lexer Ast
begin

text \<open>
  The values of literal tokens, at the end of \<open>compiler/paco-syntax/src/parse.rs\<close>:
  \<open>decode_char\<close>, \<open>decode_string\<close> and \<open>parse_int_literal\<close>, and the parts of the standard
  library they use (\<open>i64::from_str_radix\<close>, \<open>str::parse::<f64>\<close>).  Escaping is shown to be undone
  by decoding, and integer literals of every base to have the value they write or, out of range,
  zero.
\<close>

section \<open>Characters and strings\<close>

definition strip_prefix :: "string \<Rightarrow> string \<Rightarrow> string option" where
  "strip_prefix p s = (if take (length p) s = p then Some (drop (length p) s) else None)"

definition strip_suffix :: "string \<Rightarrow> string \<Rightarrow> string option" where
  "strip_suffix p s = map_option rev (strip_prefix (rev p) (rev s))"

definition strip_quotes :: "string \<Rightarrow> string \<Rightarrow> string" where
  "strip_quotes q s = (case Option.bind (strip_prefix q s) (strip_suffix q) of
     Some inner \<Rightarrow> inner | None \<Rightarrow> s)"

definition decode_char :: "string \<Rightarrow> rchar" where
  "decode_char s = (case chars (strip_quotes [CHR 0x27] s) of
     [] \<Rightarrow> [CHR 0x00]
   | ch # rest \<Rightarrow>
      (if ch = [backslash] then (case rest of
           [] \<Rightarrow> [backslash]
         | e # _ \<Rightarrow>
            (if e = ''n'' then [linefeed]
             else if e = ''t'' then [CHR 0x09]
             else if e = ''r'' then [CHR 0x0D]
             else if e = [CHR 0x27] then [CHR 0x27]
             else if e = [backslash] then [backslash]
             else e))
       else ch))"

fun decode_chars :: "rchar list \<Rightarrow> string" where
  "decode_chars [] = []"
| "decode_chars (ch # rest) =
    (if ch \<noteq> [backslash] then ch @ decode_chars rest
     else (case rest of
         [] \<Rightarrow> [backslash]
       | e # rest \<Rightarrow>
          (if e = ''n'' then [linefeed]
           else if e = ''t'' then [CHR 0x09]
           else if e = ''r'' then [CHR 0x0D]
           else if e = [dquote] then [dquote]
           else if e = [backslash] then [backslash]
           else e) @ decode_chars rest))"

definition decode_string :: "string \<Rightarrow> string" where
  "decode_string s = decode_chars (chars (strip_quotes [dquote] s))"

section \<open>Integers\<close>

text \<open>\<open>i64::from_str_radix\<close>: an optional sign, then at least one digit of the base.\<close>

fun radix_value :: "nat \<Rightarrow> nat \<Rightarrow> string \<Rightarrow> nat option" where
  "radix_value radix acc [] = Some acc"
| "radix_value radix acc (c # cs) = (case char_digit [c] of
     None \<Rightarrow> None
   | Some d \<Rightarrow> if d < radix then radix_value radix (radix * acc + d) cs else None)"

definition from_str_radix :: "string \<Rightarrow> nat \<Rightarrow> int option" where
  "from_str_radix s radix = (case s of
     [] \<Rightarrow> None
   | c # cs \<Rightarrow>
      (if c = CHR ''-'' \<and> cs \<noteq> [] then
         Option.bind (radix_value radix 0 cs) (\<lambda>n. checked (- int n))
       else if c = CHR ''+'' \<and> cs \<noteq> [] then Option.bind (radix_value radix 0 cs) (\<lambda>n. checked (int n))
       else Option.bind (radix_value radix 0 s) (\<lambda>n. checked (int n))))"

definition remove_underscores :: "string \<Rightarrow> string" where
  "remove_underscores s = filter (\<lambda>c. c \<noteq> CHR ''_'') s"

definition parse_int_literal :: "string \<Rightarrow> int" where
  "parse_int_literal lexeme =
    (let digits = remove_underscores lexeme;
         plain = from_str_radix digits 10;
         result = (case digits of
           z # b # rest \<Rightarrow>
             (if z = CHR ''0'' \<and> (b = CHR ''x'' \<or> b = CHR ''X'') then from_str_radix rest 16
              else if z = CHR ''0'' \<and> (b = CHR ''o'' \<or> b = CHR ''O'') then from_str_radix rest 8
              else if z = CHR ''0'' \<and> (b = CHR ''b'' \<or> b = CHR ''B'') then from_str_radix rest 2
              else plain)
         | _ \<Rightarrow> plain)
     in (case result of Some n \<Rightarrow> n | None \<Rightarrow> 0))"

section \<open>Floating point numbers\<close>

text \<open>\<open>str::parse::<f64>\<close>: the binary64 number nearest to the decimal one.\<close>

definition split_while :: "('a \<Rightarrow> bool) \<Rightarrow> 'a list \<Rightarrow> 'a list \<times> 'a list" where
  "split_while p xs = (takeWhile p xs, dropWhile p xs)"

definition ascii_digit :: "char \<Rightarrow> bool" where
  "ascii_digit c = is_ascii_digit [c]"

definition strip_sign :: "string \<Rightarrow> bool \<times> string" where
  "strip_sign s = (case s of
     c # cs \<Rightarrow> if c = CHR ''-'' then (True, cs) else if c = CHR ''+'' then (False, cs) else (False, s)
   | [] \<Rightarrow> (False, []))"

definition float_exponent :: "string \<Rightarrow> int option" where
  "float_exponent s = (case s of
     [] \<Rightarrow> Some 0
   | c # cs \<Rightarrow>
      (if c = CHR ''e'' \<or> c = CHR ''E'' then
         (case strip_sign cs of (negative, ds) \<Rightarrow>
            if ds \<noteq> [] \<and> list_all ascii_digit ds
            then map_option (\<lambda>n. if negative then - int n else int n) (radix_value 10 0 ds)
            else None)
       else None))"

definition ascii_lower :: "char \<Rightarrow> char" where
  "ascii_lower c = (let n = (of_char c :: nat) in if 65 \<le> n \<and> n \<le> 90 then char_of (n + 32) else c)"

definition float_magnitude :: "string \<Rightarrow> nat option" where
  "float_magnitude s =
    (if map ascii_lower s = ''inf'' \<or> map ascii_lower s = ''infinity'' then Some (2047 * 2 ^ 52)
     else if map ascii_lower s = ''nan'' then Some (4095 * 2 ^ 51)
     else (case split_while ascii_digit s of (whole, rest) \<Rightarrow>
       (case (case rest of
           c # cs \<Rightarrow> if c = CHR ''.'' then split_while ascii_digit cs else ([], rest)
         | [] \<Rightarrow> ([], [])) of (frac, rest) \<Rightarrow>
         (if whole = [] \<and> frac = [] then None
          else Option.bind (radix_value 10 0 (whole @ frac)) (\<lambda>m.
            map_option (\<lambda>e. let e = e - int (length frac) in
                if 0 \<le> e then f64_of_ratio (m * 10 ^ nat e) 1 else f64_of_ratio m (10 ^ nat (- e)))
              (float_exponent rest))))))"

definition parse_f64 :: "string \<Rightarrow> f64 option" where
  "parse_f64 s = (case strip_sign s of (negative, s) \<Rightarrow>
     map_option (\<lambda>bits. word_of_nat (if negative then 2 ^ 63 + bits else bits)) (float_magnitude s))"

definition float_value :: "string \<Rightarrow> f64" where
  "float_value lexeme = (case parse_f64 (remove_underscores lexeme) of Some v \<Rightarrow> v | None \<Rightarrow> 0)"

section \<open>Decoding undoes escaping\<close>

text \<open>How a string literal writes a character.\<close>

definition escape_char :: "rchar \<Rightarrow> rchar list" where
  "escape_char c =
    (if c = [dquote] then [[backslash], [dquote]]
     else if c = [backslash] then [[backslash], [backslash]]
     else if c = [linefeed] then [[backslash], ''n'']
     else if c = [CHR 0x09] then [[backslash], ''t'']
     else if c = [CHR 0x0D] then [[backslash], ''r'']
     else [c])"

definition string_literal_text :: "string \<Rightarrow> string" where
  "string_literal_text s = [dquote] @ concat (concat (map escape_char (chars s))) @ [dquote]"

lemma decode_escape: "decode_chars (escape_char c @ rest) = c @ decode_chars rest"
  by (simp add: escape_char_def)

lemma decode_escapes: "decode_chars (concat (map escape_char cs)) = concat cs"
  by (induction cs) (simp_all add: decode_escape)

lemma wf_escape: "wf_char c \<Longrightarrow> list_all wf_char (escape_char c)"
  by (simp add: escape_char_def wf_char_def is_continuation_def utf8_width_def)

lemma wf_escapes: "list_all wf_char cs \<Longrightarrow> list_all wf_char (concat (map escape_char cs))"
  by (induction cs) (simp_all add: wf_escape)

lemma strip_quotes_quoted: "strip_quotes [q] ([q] @ s @ [q]) = s"
  by (simp add: strip_quotes_def strip_prefix_def strip_suffix_def)

text \<open>C34: string literals denote what they write. Decoding a literal that spells a text with the
  escapes of the language gives the text back, whatever characters it holds.\<close>

theorem string_literal_roundtrip:
  assumes "valid_utf8 s"
  shows "decode_string (string_literal_text s) = s"
proof -
  have "chars (concat (concat (map escape_char (chars s)))) = concat (map escape_char (chars s))"
    using assms wf_escapes by (intro chars_concat') (auto simp: valid_utf8_def)
  then show ?thesis
    unfolding decode_string_def string_literal_text_def strip_quotes_quoted by (simp add: decode_escapes)
qed

theorem string_literal_roundtrip_witness:
  "decode_string (string_literal_text [CHR ''a'', dquote, backslash, linefeed])
     = [CHR ''a'', dquote, backslash, linefeed]"
proof -
  have "valid_utf8 [CHR ''a'', dquote, backslash, linefeed]" by (simp add: utf8_eval)
  then show ?thesis by (rule string_literal_roundtrip)
qed

section \<open>The value of an integer literal\<close>

text \<open>The digits of a number in a base of at most sixteen.\<close>

fun radix_string :: "nat \<Rightarrow> nat \<Rightarrow> string" where
  "radix_string radix n =
    (if n < radix \<or> radix \<le> 1 then [hex_digit n]
     else radix_string radix (n div radix) @ [hex_digit (n mod radix)])"

declare radix_string.simps [simp del]

lemma char_digit_hex: "d < 16 \<Longrightarrow> char_digit [hex_digit d] = Some d"
  by (auto simp: char_digit_def hex_digit_def Let_def)

lemma radix_value_append:
  "radix_value r acc (xs @ ys) = Option.bind (radix_value r acc xs) (\<lambda>a. radix_value r a ys)"
  by (induction xs arbitrary: acc) (simp_all split: option.splits)

lemma radix_value_string:
  assumes "2 \<le> r" "r \<le> 16"
  shows "radix_value r 0 (radix_string r n) = Some n"
  using assms
proof (induction r n rule: radix_string.induct)
  case (1 r n)
  show ?case
  proof (cases "n < r")
    case True
    then show ?thesis using "1.prems" by (simp add: radix_string.simps [of r n] char_digit_hex)
  next
    case False
    moreover have "n mod r < 16" using "1.prems" mod_less_divisor [of r n] by linarith
    ultimately show ?thesis
      using 1 by (simp add: radix_string.simps [of r n] radix_value_append char_digit_hex)
  qed
qed

lemma radix_string_nonempty [simp]: "radix_string r n \<noteq> []"
  by (simp add: radix_string.simps [of r n])

lemma hex_digit_not_sign: "d < 16 \<Longrightarrow> hex_digit d \<noteq> CHR ''-'' \<and> hex_digit d \<noteq> CHR ''+''"
  using char_digit_hex [of d] by (auto simp: char_digit_def Let_def)

lemma radix_string_hex: "2 \<le> r \<Longrightarrow> r \<le> 16 \<Longrightarrow> c \<in> set (radix_string r n) \<Longrightarrow> \<exists>d<r. c = hex_digit d"
proof (induction r n rule: radix_string.induct)
  case (1 r n)
  show ?case
  proof (cases "n < r")
    case True
    then show ?thesis using "1.prems" by (auto simp: radix_string.simps [of r n])
  next
    case False
    then have "c \<in> set (radix_string r (n div r)) \<or> c = hex_digit (n mod r)"
      using "1.prems" by (auto simp: radix_string.simps [of r n])
    moreover have "n mod r < r" using "1.prems" by simp
    moreover have "\<not> (n < r \<or> r \<le> 1)" using False "1.prems" by simp
    ultimately show ?thesis using "1.IH" "1.prems"(1,2) by blast
  qed
qed

lemma from_str_radix_string:
  assumes "2 \<le> r" "r \<le> 16"
  shows "from_str_radix (radix_string r n) r = checked (int n)"
proof -
  obtain c cs where s: "radix_string r n = c # cs" by (cases "radix_string r n") auto
  then obtain d where "d < r" "c = hex_digit d" using radix_string_hex [OF assms, of c n] by auto
  then have "c \<noteq> CHR ''-''" "c \<noteq> CHR ''+''" using assms hex_digit_not_sign [of d] by auto
  moreover have "radix_value r 0 (c # cs) = Some n" using radix_value_string [OF assms, of n] s by simp
  ultimately show ?thesis using s by (simp add: from_str_radix_def)
qed

text \<open>The prefix that selects a base.\<close>

definition radix_prefix :: "nat \<Rightarrow> string" where
  "radix_prefix r = (if r = 16 then ''0x'' else if r = 8 then ''0o'' else if r = 2 then ''0b'' else [])"

lemma decimal_no_prefix:
  assumes "radix_string 10 n = z # b # rest"
  shows "b \<notin> {CHR ''x'', CHR ''X'', CHR ''o'', CHR ''O'', CHR ''b'', CHR ''B''}"
proof -
  have "b \<in> set (radix_string 10 n)" using assms by simp
  then obtain d where "d < 10" "b = hex_digit d" using radix_string_hex [of 10 b n] by auto
  then have "char_digit [b] = Some d" "d < 10" using char_digit_hex [of d] by auto
  then show ?thesis by (auto simp: char_digit_def)
qed

lemma radix_prefix_value:
  assumes "r \<in> {2, 8, 10, 16}" "remove_underscores lexeme = radix_prefix r @ radix_string r n"
  shows "parse_int_literal lexeme = (case checked (int n) of Some v \<Rightarrow> v | None \<Rightarrow> 0)"
proof (cases "r = 10")
  case True
  then have d: "remove_underscores lexeme = radix_string 10 n" using assms(2) by (simp add: radix_prefix_def)
  show ?thesis
  proof (cases "radix_string 10 n")
    case (Cons z cs)
    then show ?thesis
      using decimal_no_prefix [of n z] from_str_radix_string [of 10 n] d
      by (cases cs) (auto simp: parse_int_literal_def)
  qed simp
next
  case False
  then show ?thesis
    using assms from_str_radix_string [of r n] by (auto simp: parse_int_literal_def radix_prefix_def)
qed

text \<open>Integer literals have the value they write. In base two, eight, ten or sixteen, with any
  separators, a literal that writes \<open>n\<close> denotes \<open>n\<close> when that is an \<open>i64\<close> and zero otherwise.\<close>

theorem int_literal_value:
  assumes "r \<in> {2, 8, 10, 16}" "remove_underscores lexeme = radix_prefix r @ radix_string r n"
  shows "parse_int_literal lexeme = (if int n \<le> i64_max then int n else 0)"
  using radix_prefix_value [OF assms] by (simp add: checked_def in_i64_def i64_min_def)

theorem int_literal_value_witness:
  "parse_int_literal ''0x1_0'' = 16 \<and> parse_int_literal ''9223372036854775808'' = 0"
proof
  have "remove_underscores ''0x1_0'' = radix_prefix 16 @ radix_string 16 16" by code_simp
  from int_literal_value [OF _ this] show "parse_int_literal ''0x1_0'' = 16" by (simp add: i64_max_def)
  have "remove_underscores ''9223372036854775808'' = radix_prefix 10 @ radix_string 10 9223372036854775808"
    by (simp add: remove_underscores_def radix_prefix_def radix_string.simps hex_digit_def) code_simp
  from int_literal_value [OF _ this] show "parse_int_literal ''9223372036854775808'' = 0"
    by (simp add: i64_max_def)
qed

end
