(* ===== verification/Desugar.thy ===== *)
theory Desugar
  imports Ast Prelude
begin

text \<open>
  The functions on syntax trees at the end of \<open>compiler/paco-syntax/src/parse.rs\<close>: the spans of
  expressions, patterns and types, and the translation of \<open>for\<close> loops into \<open>loop\<close>, with the
  rewriting of \<open>continue\<close> that keeps the cursor moving.
\<close>

type_synonym an_expr_ty = "expr ty"

section \<open>Spans\<close>

fun is_block_like :: "expr \<Rightarrow> bool" where
  "is_block_like (EBlock _) = True"
| "is_block_like (EUnsafe _ _) = True"
| "is_block_like (EIf _ _ _ _) = True"
| "is_block_like (ELoop _ _) = True"
| "is_block_like (EWhile _ _ _) = True"
| "is_block_like (EMatch _ _ _) = True"
| "is_block_like (ESelect _ _ _) = True"
| "is_block_like (EComptime _ _) = True"
| "is_block_like _ = False"

fun expr_span :: "expr \<Rightarrow> span" where
  "expr_span (ELiteral _ sp) = sp"
| "expr_span (EIdent _ sp) = sp"
| "expr_span (EBlock b) = blk_span b"
| "expr_span (EUnsafe _ sp) = sp"
| "expr_span (EIf _ _ _ sp) = sp"
| "expr_span (ELoop _ sp) = sp"
| "expr_span (EWhile _ _ sp) = sp"
| "expr_span (EMatch _ _ sp) = sp"
| "expr_span (ECall _ _ _ sp) = sp"
| "expr_span (EMethodCall _ _ _ sp) = sp"
| "expr_span (EAssociatedCall _ _ _ sp) = sp"
| "expr_span (EBinary _ _ _ sp) = sp"
| "expr_span (EUnary _ _ sp) = sp"
| "expr_span (EAssign _ _ sp) = sp"
| "expr_span (EField _ _ sp) = sp"
| "expr_span (EIndex _ _ sp) = sp"
| "expr_span (ETry _ sp) = sp"
| "expr_span (ECast _ _ sp) = sp"
| "expr_span (EReturn _ sp) = sp"
| "expr_span (EBreak _ sp) = sp"
| "expr_span (EContinue sp) = sp"
| "expr_span (ESpawn _ sp) = sp"
| "expr_span (EClosure _ _ sp) = sp"
| "expr_span (ESelect _ _ sp) = sp"
| "expr_span (EComptime _ sp) = sp"
| "expr_span (EQuote _ sp) = sp"
| "expr_span (ESplice _ sp) = sp"
| "expr_span (EYield _ sp) = sp"
| "expr_span (EStructLiteral _ _ sp) = sp"
| "expr_span (EBorrow _ _ sp) = sp"
| "expr_span (ETuple _ sp) = sp"

fun pat_span :: "pat \<Rightarrow> span" where
  "pat_span (PatIdent _ sp) = sp"
| "pat_span (PatWildcard sp) = sp"
| "pat_span (PatLiteral _ sp) = sp"
| "pat_span (PatTuple _ sp) = sp"
| "pat_span (PatStruct _ _ _ sp) = sp"
| "pat_span (PatEnum _ _ sp) = sp"
| "pat_span (PatRange _ _ _ sp) = sp"
| "pat_span (PatOr _ sp) = sp"
| "pat_span (PatBinding _ _ sp) = sp"
| "pat_span (PatReference _ _ sp) = sp"

fun ty_span :: "'e ty \<Rightarrow> span" where
  "ty_span (TyPath _ sp) = sp"
| "ty_span (TyGeneric _ _ sp) = sp"
| "ty_span (TyTuple _ sp) = sp"
| "ty_span (TySlice _ sp) = sp"
| "ty_span (TyBorrow _ _ _ sp) = sp"
| "ty_span (TyRawPointer _ _ sp) = sp"
| "ty_span (TyDyn _ sp) = sp"
| "ty_span (TyFn _ _ _ _ sp) = sp"
| "ty_span (TyInfer sp) = sp"
| "ty_span (TyNever sp) = sp"
| "ty_span (TyConst _ sp) = sp"
| "ty_span (TyDynDim sp) = sp"
| "ty_span (TyExpand _ sp) = sp"
| "ty_span (TyExistential _ sp) = sp"
| "ty_span (TySplice _ sp) = sp"

definition join_expr_span :: "expr \<Rightarrow> expr \<Rightarrow> span \<Rightarrow> span" where
  "join_expr_span left right fallback =
    (let l = expr_span left; r = expr_span right
     in span_new (span_file_id l) (min (span_start l) (span_start fallback))
          (max (span_end r) (span_end fallback)))"

definition empty_block_expr :: "span \<Rightarrow> expr" where
  "empty_block_expr sp = EBlock (Block [] None sp)"

section \<open>Rewriting \<open>continue\<close>\<close>

definition continue_block :: "expr \<Rightarrow> span \<Rightarrow> block" where
  "continue_block increment sp =
     Block [StmtExpr increment, StmtExpr (EContinue sp)] None sp"

function (sequential) rewrite_continue_in_block :: "expr \<Rightarrow> block \<Rightarrow> block"
  and rewrite_continue_in_expr :: "expr \<Rightarrow> expr \<Rightarrow> expr" where
  "rewrite_continue_in_block inc (Block stmts tail sp) =
     Block (map (\<lambda>s. case s of
         StmtExpr e \<Rightarrow> StmtExpr (rewrite_continue_in_expr inc e)
       | StmtLet (LetStmt m p t v lsp) \<Rightarrow>
           StmtLet (LetStmt m p t (map_option (rewrite_continue_in_expr inc) v) lsp)
       | StmtItem i \<Rightarrow> StmtItem i) stmts)
       (map_option (rewrite_continue_in_expr inc) tail) sp"
| "rewrite_continue_in_expr inc (EContinue sp) = EBlock (continue_block inc sp)"
| "rewrite_continue_in_expr inc (EBlock b) = EBlock (rewrite_continue_in_block inc b)"
| "rewrite_continue_in_expr inc (EUnsafe b sp) = EUnsafe (rewrite_continue_in_block inc b) sp"
| "rewrite_continue_in_expr inc (EIf c t e sp) =
     EIf c (rewrite_continue_in_block inc t) (map_option (rewrite_continue_in_expr inc) e) sp"
| "rewrite_continue_in_expr inc (EMatch s arms sp) =
     EMatch s (map (\<lambda>arm. MatchArm (arm_pattern arm) (arm_guard arm)
       (rewrite_continue_in_expr inc (arm_body arm)) (arm_span arm)) arms) sp"
| "rewrite_continue_in_expr inc (EAssign t v sp) = EAssign t (rewrite_continue_in_expr inc v) sp"
| "rewrite_continue_in_expr inc (EReturn v sp) = EReturn (map_option (rewrite_continue_in_expr inc) v) sp"
| "rewrite_continue_in_expr inc (EBreak v sp) = EBreak (map_option (rewrite_continue_in_expr inc) v) sp"
| "rewrite_continue_in_expr inc (EYield v sp) = EYield (rewrite_continue_in_expr inc v) sp"
| "rewrite_continue_in_expr inc (EBorrow m v sp) = EBorrow m (rewrite_continue_in_expr inc v) sp"
| "rewrite_continue_in_expr inc (ECall f ts args sp) =
     ECall f ts (map (rewrite_continue_in_expr inc) args) sp"
| "rewrite_continue_in_expr inc (EMethodCall r m args sp) =
     EMethodCall r m (map (rewrite_continue_in_expr inc) args) sp"
| "rewrite_continue_in_expr inc (EAssociatedCall t f args sp) =
     EAssociatedCall t f (map (rewrite_continue_in_expr inc) args) sp"
| "rewrite_continue_in_expr inc (ETuple es sp) = ETuple (map (rewrite_continue_in_expr inc) es) sp"
| "rewrite_continue_in_expr inc (EStructLiteral t fs sp) =
     EStructLiteral t (map (\<lambda>f. (fst f, rewrite_continue_in_expr inc (snd f))) fs) sp"
| "rewrite_continue_in_expr inc (EBinary op l r sp) =
     EBinary op (rewrite_continue_in_expr inc l) (rewrite_continue_in_expr inc r) sp"
| "rewrite_continue_in_expr inc (EIndex b ix sp) =
     EIndex (rewrite_continue_in_expr inc b) (map (rewrite_continue_in_expr inc) ix) sp"
| "rewrite_continue_in_expr inc (EUnary op e sp) = EUnary op (rewrite_continue_in_expr inc e) sp"
| "rewrite_continue_in_expr inc (EField b f sp) = EField (rewrite_continue_in_expr inc b) f sp"
| "rewrite_continue_in_expr inc (ETry e sp) = ETry (rewrite_continue_in_expr inc e) sp"
| "rewrite_continue_in_expr inc (ECast e t sp) = ECast (rewrite_continue_in_expr inc e) t sp"
| "rewrite_continue_in_expr inc e = e"
  by pat_completeness auto
termination
proof (relation "measure (\<lambda>x. case x of Inl (_, b) \<Rightarrow> size b | Inr (_, e) \<Rightarrow> size e)", goal_cases)
qed (auto simp: list_part_size dest: arm_part_size field_part_size size_list_less [where f = size]
  size_list_less [where f = "size_stmt size size"])

section \<open>The translation of \<open>for\<close>\<close>

definition for_increment_expr :: "string \<Rightarrow> span \<Rightarrow> span \<Rightarrow> expr" where
  "for_increment_expr name name_span sp =
     EAssign (EIdent name name_span)
       (EBinary OpAdd (EIdent name name_span) (ELiteral (LitInt 1) name_span) sp) sp"

definition prepend_statement :: "block \<Rightarrow> (expr, block) stmt \<Rightarrow> block" where
  "prepend_statement b s = (case b of Block stmts tail sp \<Rightarrow> Block (s # stmts) tail sp)"

definition append_statement :: "block \<Rightarrow> (expr, block) stmt \<Rightarrow> block" where
  "append_statement b s = (case b of Block stmts tail sp \<Rightarrow>
     (let stmts = (case tail of Some e \<Rightarrow> stmts @ [StmtExpr e] | None \<Rightarrow> stmts)
      in Block (stmts @ [s]) None sp))"

definition for_range_expr ::
    "span \<Rightarrow> string \<times> span \<Rightarrow> expr \<Rightarrow> expr \<Rightarrow> bool \<Rightarrow> block \<Rightarrow> expr" where
  "for_range_expr start name range_start range_end inclusive body =
    (let (name, name_span) = name;
         cursor_name = ''$paco_for_cursor_'' @ nat_string (span_start start);
         end = span_end (blk_span body);
         full = span_new (span_file_id start) (span_start start) end;
         condition = EBinary (if inclusive then OpLe else OpLt) (EIdent cursor_name name_span) range_end
           (span_new (span_file_id start) (span_start name_span) end);
         increment = for_increment_expr cursor_name name_span full;
         body = rewrite_continue_in_block increment body;
         body = prepend_statement body
           (StmtLet (LetStmt False (PatIdent name name_span) None (Some (EIdent cursor_name name_span)) full));
         then_branch = append_statement body (StmtExpr increment);
         break_span = span_new (span_file_id start) end end;
         if_expr = EIf condition then_branch (Some (EBreak None break_span)) full;
         loop_body = Block [StmtExpr if_expr] None full;
         loop_expr = ELoop loop_body full
     in EBlock (Block
          [StmtLet (LetStmt True (PatIdent cursor_name name_span) None (Some range_start) full),
           StmtExpr loop_expr] None full))"

definition for_iter_expr :: "span \<Rightarrow> string \<times> span \<Rightarrow> expr \<Rightarrow> block \<Rightarrow> expr" where
  "for_iter_expr start name iterable body =
    (let (name, name_span) = name;
         cursor_name = ''$paco_for_iter_'' @ nat_string (span_start start);
         end = span_end (blk_span body);
         full_span = span_new (span_file_id start) (span_start start) end;
         next_call = EMethodCall (EIdent cursor_name name_span) ''next'' [] full_span;
         some_arm = MatchArm (PatEnum [''Option'', ''Some''] [PatIdent name name_span] name_span)
           None (EBlock body) full_span;
         none_arm = MatchArm (PatEnum [''Option'', ''None''] [] full_span)
           None (EBreak None full_span) full_span;
         match_expr = EMatch next_call [some_arm, none_arm] full_span;
         loop_body = Block [StmtExpr match_expr] None full_span;
         loop_expr = ELoop loop_body full_span
     in EBlock (Block
          [StmtLet (LetStmt True (PatIdent cursor_name name_span) None (Some iterable) full_span),
           StmtExpr loop_expr] None full_span))"

section \<open>No \<open>continue\<close> skips the increment\<close>

text \<open>The spans of the \<open>continue\<close>s of a loop body that belong to the loop itself, and that do not directly
  follow the increment in a block of their own.  Inner loops, closures, spawned and compile-time code
  have their own loops.\<close>

function (sequential) bare_in_block :: "expr \<Rightarrow> block \<Rightarrow> span list"
  and bare_in_expr :: "expr \<Rightarrow> expr \<Rightarrow> span list" where
  "bare_in_block inc (Block stmts tail sp) =
    (if Block stmts tail sp = continue_block inc sp then [] else
     concat (map (\<lambda>s. case s of StmtExpr e \<Rightarrow> bare_in_expr inc e
       | StmtLet (LetStmt _ _ _ v _) \<Rightarrow> (case v of None \<Rightarrow> [] | Some e \<Rightarrow> bare_in_expr inc e)
       | StmtItem _ \<Rightarrow> []) stmts) @ (case tail of None \<Rightarrow> [] | Some e \<Rightarrow> bare_in_expr inc e))"
| "bare_in_expr inc (EContinue sp) = [sp]"
| "bare_in_expr inc (EBlock b) = bare_in_block inc b"
| "bare_in_expr inc (EUnsafe b _) = bare_in_block inc b"
| "bare_in_expr inc (EIf c t e _) = bare_in_expr inc c @ bare_in_block inc t @ (case e of None \<Rightarrow> [] | Some e \<Rightarrow> bare_in_expr inc e)"
| "bare_in_expr inc (EMatch s arms _) = bare_in_expr inc s @ concat (map (\<lambda>arm. (case arm_guard arm of None \<Rightarrow> [] | Some e \<Rightarrow> bare_in_expr inc e) @
     bare_in_expr inc (arm_body arm)) arms)"
| "bare_in_expr inc (EAssign t v _) = bare_in_expr inc t @ bare_in_expr inc v"
| "bare_in_expr inc (EReturn v _) = (case v of None \<Rightarrow> [] | Some e \<Rightarrow> bare_in_expr inc e)"
| "bare_in_expr inc (EBreak v _) = (case v of None \<Rightarrow> [] | Some e \<Rightarrow> bare_in_expr inc e)"
| "bare_in_expr inc (EYield v _) = bare_in_expr inc v"
| "bare_in_expr inc (EBorrow _ v _) = bare_in_expr inc v"
| "bare_in_expr inc (ECall f _ args _) = bare_in_expr inc f @ concat (map (bare_in_expr inc) args)"
| "bare_in_expr inc (EMethodCall r _ args _) = bare_in_expr inc r @ concat (map (bare_in_expr inc) args)"
| "bare_in_expr inc (EAssociatedCall _ _ args _) = concat (map (bare_in_expr inc) args)"
| "bare_in_expr inc (ETuple es _) = concat (map (bare_in_expr inc) es)"
| "bare_in_expr inc (EStructLiteral _ fs _) = concat (map (\<lambda>f. bare_in_expr inc (snd f)) fs)"
| "bare_in_expr inc (EBinary _ l r _) = bare_in_expr inc l @ bare_in_expr inc r"
| "bare_in_expr inc (EIndex b ix _) = bare_in_expr inc b @ concat (map (bare_in_expr inc) ix)"
| "bare_in_expr inc (EUnary _ e _) = bare_in_expr inc e"
| "bare_in_expr inc (EField b _ _) = bare_in_expr inc b"
| "bare_in_expr inc (ETry e _) = bare_in_expr inc e"
| "bare_in_expr inc (ECast e _ _) = bare_in_expr inc e"
| "bare_in_expr inc (ESelect arms other _) = concat (map (\<lambda>arm. bare_in_expr inc (sa_operation arm) @ bare_in_block inc (sa_body arm)) arms) @
     (case other of None \<Rightarrow> [] | Some b \<Rightarrow> bare_in_block inc b)"
| "bare_in_expr inc e = []"
  by pat_completeness auto
termination
proof (relation "measure (\<lambda>x. case x of Inl (_, b) \<Rightarrow> size b | Inr (_, e) \<Rightarrow> size e)", goal_cases)
qed (auto simp: list_part_size dest: arm_part_size field_part_size size_list_less [where f = size]
  size_list_less [where f = "size_stmt size size"] select_arm_size)

text \<open>The \<open>continue\<close>s in the positions the rewriting does not enter: conditions, scrutinees and guards,
  callees and receivers, targets of assignments, and \<open>select\<close>.\<close>

function (sequential) missed_in_block :: "expr \<Rightarrow> block \<Rightarrow> span list"
  and missed_in_expr :: "expr \<Rightarrow> expr \<Rightarrow> span list" where
  "missed_in_block inc (Block stmts tail sp) =
     concat (map (\<lambda>s. case s of StmtExpr e \<Rightarrow> missed_in_expr inc e
       | StmtLet (LetStmt _ _ _ v _) \<Rightarrow> (case v of None \<Rightarrow> [] | Some e \<Rightarrow> missed_in_expr inc e)
       | StmtItem _ \<Rightarrow> []) stmts) @ (case tail of None \<Rightarrow> [] | Some e \<Rightarrow> missed_in_expr inc e)"
| "missed_in_expr inc (EContinue sp) = []"
| "missed_in_expr inc (EBlock b) = missed_in_block inc b"
| "missed_in_expr inc (EUnsafe b _) = missed_in_block inc b"
| "missed_in_expr inc (EIf c t e _) = bare_in_expr inc c @ missed_in_block inc t @ (case e of None \<Rightarrow> [] | Some e \<Rightarrow> missed_in_expr inc e)"
| "missed_in_expr inc (EMatch s arms _) = bare_in_expr inc s @ concat (map (\<lambda>arm. (case arm_guard arm of None \<Rightarrow> [] | Some e \<Rightarrow> bare_in_expr inc e) @
     missed_in_expr inc (arm_body arm)) arms)"
| "missed_in_expr inc (EAssign t v _) = bare_in_expr inc t @ missed_in_expr inc v"
| "missed_in_expr inc (EReturn v _) = (case v of None \<Rightarrow> [] | Some e \<Rightarrow> missed_in_expr inc e)"
| "missed_in_expr inc (EBreak v _) = (case v of None \<Rightarrow> [] | Some e \<Rightarrow> missed_in_expr inc e)"
| "missed_in_expr inc (EYield v _) = missed_in_expr inc v"
| "missed_in_expr inc (EBorrow _ v _) = missed_in_expr inc v"
| "missed_in_expr inc (ECall f _ args _) = bare_in_expr inc f @ concat (map (missed_in_expr inc) args)"
| "missed_in_expr inc (EMethodCall r _ args _) = bare_in_expr inc r @ concat (map (missed_in_expr inc) args)"
| "missed_in_expr inc (EAssociatedCall _ _ args _) = concat (map (missed_in_expr inc) args)"
| "missed_in_expr inc (ETuple es _) = concat (map (missed_in_expr inc) es)"
| "missed_in_expr inc (EStructLiteral _ fs _) = concat (map (\<lambda>f. missed_in_expr inc (snd f)) fs)"
| "missed_in_expr inc (EBinary _ l r _) = missed_in_expr inc l @ missed_in_expr inc r"
| "missed_in_expr inc (EIndex b ix _) = missed_in_expr inc b @ concat (map (missed_in_expr inc) ix)"
| "missed_in_expr inc (EUnary _ e _) = missed_in_expr inc e"
| "missed_in_expr inc (EField b _ _) = missed_in_expr inc b"
| "missed_in_expr inc (ETry e _) = missed_in_expr inc e"
| "missed_in_expr inc (ECast e _ _) = missed_in_expr inc e"
| "missed_in_expr inc (ESelect arms other _) = concat (map (\<lambda>arm. bare_in_expr inc (sa_operation arm) @ bare_in_block inc (sa_body arm)) arms) @
     (case other of None \<Rightarrow> [] | Some b \<Rightarrow> bare_in_block inc b)"
| "missed_in_expr inc e = []"
  by pat_completeness auto
termination
proof (relation "measure (\<lambda>x. case x of Inl (_, b) \<Rightarrow> size b | Inr (_, e) \<Rightarrow> size e)", goal_cases)
qed (auto simp: list_part_size dest: arm_part_size field_part_size size_list_less [where f = size]
  size_list_less [where f = "size_stmt size size"] select_arm_size)

lemma rewrite_not_continue: "rewrite_continue_in_expr inc e \<noteq> EContinue sp"
  by (cases e) simp_all

lemma rewrite_not_guarded: "rewrite_continue_in_block inc b \<noteq> continue_block inc sp"
proof (cases b)
  case (Block stmts tail bsp)
  show ?thesis
  proof
    assume "rewrite_continue_in_block inc b = continue_block inc sp"
    then obtain s1 s2 where "stmts = [s1, s2]"
      "(case s2 of StmtExpr e \<Rightarrow> StmtExpr (rewrite_continue_in_expr inc e)
        | StmtLet (LetStmt m p t v lsp) \<Rightarrow> StmtLet (LetStmt m p t (map_option (rewrite_continue_in_expr inc) v) lsp)
        | StmtItem i \<Rightarrow> StmtItem i) = StmtExpr (EContinue sp)"
      unfolding Block by (auto simp: continue_block_def)
    then show False using rewrite_not_continue by (auto split: stmt.splits let_stmt.splits)
  qed
qed

lemma bare_in_rewritten:
  "bare_in_block inc (rewrite_continue_in_block inc b) = missed_in_block inc b"
  "bare_in_expr inc (rewrite_continue_in_expr inc e) = missed_in_expr inc e"
proof (induction inc b and inc e rule: rewrite_continue_in_block_rewrite_continue_in_expr.induct)
  case (1 inc stmts tail sp)
  have "rewrite_continue_in_block inc (Block stmts tail sp) \<noteq> continue_block inc sp"
    by (rule rewrite_not_guarded)
  then show ?case
    using 1 by (auto intro!: arg_cong [where f = concat] split: option.splits stmt.splits let_stmt.splits)
qed (auto intro!: arg_cong [where f = concat] cong: map_cong option.case_cong split: option.splits simp: continue_block_def)


text \<open>Such a position is a \<open>select\<close> arm, whose body is lowered in place: its \<open>continue\<close> stays as it was
  written and goes round the loop without moving the cursor.\<close>

lemma select_continue_keeps_cursor:
  "bare_in_block inc (rewrite_continue_in_block inc
     (Block [] (Some (ESelect arms (Some (Block [] (Some (EContinue sp)) sp)) sp)) sp)) =
   concat (map (\<lambda>arm. bare_in_expr inc (sa_operation arm) @ bare_in_block inc (sa_body arm)) arms) @ [sp]"
  by (simp add: continue_block_def)

end
