(* ===== verification/ParseExpr.thy ===== *)
theory ParseExpr
  imports ParserState Literals Desugar
begin

text \<open>
  The productions of \<open>compiler/paco-syntax/src/parse.rs\<close> below the level of items: attributes, types,
  generic parameters, parameters, patterns, blocks, functions and expressions, in the order that lets
  each definition use the ones before it.  Where the source recurses, the model calls the parser
  it is given in the record \<open>px\<close>; \<open>parsers n\<close> is the parser whose recursion is \<open>n\<close> deep, and every
  loop of it may go round \<open>n + 1\<close> times.

  The locale \<open>parser_level\<close> states the contract of the recursive calls and, in it, every production
  is shown to keep the contract; \<open>parsers\<close> is an instance at every depth.
\<close>

type_synonym an_attributes = "attribute list"

record px =
  px_fuel :: nat
  px_expr :: "expr parse"
  px_additive :: "expr parse"
  px_unary :: "expr parse"
  px_primary :: "expr parse"
  px_if :: "expr parse"
  px_ty :: "expr ty parse"
  px_pattern :: "pat parse"
  px_binding :: "pat parse"
  px_atom :: "pat parse"
  px_attr :: "attribute parse"

section \<open>Attributes and paths\<close>

definition literal_token :: "literal parse" where
  "literal_token = alternatives
    [(TkInteger, (and_then previous_token (\<lambda>t.
      ret (LitInt (parse_int_literal (tok_lexeme t)))))),
     (TkFloat, (and_then previous_token (\<lambda>t.
       ret (LitFloat (float_value (tok_lexeme t)))))),
     (TkTrue, ret (LitBool True)),
     (TkFalse, ret (LitBool False)),
     (TkString, (and_then previous_token (\<lambda>t.
       ret (LitString (decode_string (tok_lexeme t))))))]
    (fail_here ''PACO-E0112'' ''expected a literal, path, or nested attribute'')"

definition parse_attribute_arg :: "px \<Rightarrow> attribute_arg parse" where
  "parse_attribute_arg self = (and_then (check TkHash) (\<lambda>nested.
    if nested then (and_then (px_attr self) (\<lambda>a.
      ret (ArgNested a))) else (and_then (check TkIdentifier) (\<lambda>ident.
      if ident then (and_then peek_span (\<lambda>here.
        and_then (consume_identifier ''expected identifier'') (\<lambda>key.
        and_then (matches TkEqual) (\<lambda>equal.
        if equal then (and_then (check_any [TkString, TkInteger, TkFloat, TkTrue, TkFalse]) (\<lambda>literal.
          if literal then (and_then literal_token (\<lambda>l.
            and_then (span_from (span_start here)) (\<lambda>sp.
            ret (ArgAssignLiteral key l sp))))
else (and_then (consume_identifier ''expected a path or literal after `=`'') (\<lambda>first.
            and_then (continued (px_fuel self) TkColonColon (consume_identifier ''expected identifier after `::`'') [first]) (\<lambda>path.
            and_then (span_from (span_start here)) (\<lambda>sp.
            ret (ArgAssign key path sp)))))))
else (and_then (continued (px_fuel self) TkColonColon (consume_identifier ''expected identifier after `::`'') [key]) (\<lambda>path.
          and_then (span_from (span_start here)) (\<lambda>sp.
          ret (ArgPath path sp))))))))
else (and_then peek_span (\<lambda>sp.
        and_then literal_token (\<lambda>l.
        ret (ArgLiteral l sp))))))))"

definition parse_attribute_args :: "px \<Rightarrow> attribute_arg list parse" where
  "parse_attribute_args self = (and_then (matches TkLeftParen) (\<lambda>paren.
    if paren then (and_then (check TkRightParen) (\<lambda>empty.
      and_then ((if empty then ret [] else separated_trailing (px_fuel self) TkRightParen (parse_attribute_arg self))) (\<lambda>args.
      and_then (consume TkRightParen ''expected `)` after attribute arguments'') (\<lambda>_.
      ret args))))
else ret []))"

definition parse_one_attribute :: "px \<Rightarrow> attribute parse" where
  "parse_one_attribute self = (and_then (consume TkHash ''expected `#`'') (\<lambda>hash.
    and_then (consume TkLeftBracket ''expected `[` after `#`'') (\<lambda>_.
    and_then (consume_identifier ''expected attribute name'') (\<lambda>name.
    and_then (parse_attribute_args self) (\<lambda>args.
    and_then (consume TkRightBracket ''expected `]` after attribute'') (\<lambda>right.
    ret (Attribute name args (span_new (span_file_id (tok_span right)) (span_start (tok_span hash))
(span_end (tok_span right))))))))))"

definition parse_outer_attributes :: "px \<Rightarrow> attribute list parse" where
  "parse_outer_attributes self = iterate (px_fuel self) (\<lambda>attrs. (and_then (check TkHash) (\<lambda>hash.
    if hash then (and_then (parse_one_attribute self) (\<lambda>a.
      ret (Inl (attrs @ [a])))) else ret (Inr attrs)))) []"

definition parse_path :: "px \<Rightarrow> string list parse" where
  "parse_path self = (and_then (consume_identifier ''expected path segment'') (\<lambda>first.
    continued (px_fuel self) TkColonColon (consume_identifier ''expected path segment after `::`'') [first]))"

section \<open>Types\<close>

text \<open>\<open>#(expr)\<close>, after the \<open>#\<close>; the span starts at \<open>start\<close>.\<close>

definition parse_splice :: "px \<Rightarrow> span \<Rightarrow> (expr \<times> span) parse" where
  "parse_splice self start = (and_then (consume TkLeftParen ''expected `(` after `#`'') (\<lambda>_.
    and_then (px_expr self) (\<lambda>inner.
    and_then (consume TkRightParen ''expected `)` after splice expression'') (\<lambda>right.
    ret (inner, span_to start (tok_span right))))))"

text \<open>\<open>extern "ABI"\<close>\<close>

definition parse_extern_abi :: "string option parse" where
  "parse_extern_abi = optional TkExtern ((and_then (consume TkString ''expected an ABI string literal after `extern`'') (\<lambda>_.
    and_then previous_token (\<lambda>t.
    ret (decode_string (tok_lexeme t))))))"

definition starts_const_arg :: "bool parse" where
  "starts_const_arg = (and_then peek_token (\<lambda>t.
    and_then peek_next_token (\<lambda>next.
    and_then (token_at 2) (\<lambda>after.
    ret (let is_operator = kind_in [TkPlus, TkMinus, TkStar, TkSlash, TkPercent] in
if tok_kind t = TkInteger then True
else if tok_kind t = TkIdentifier then is_operator next
else if tok_kind t = TkLeftParen then
kind_in [TkInteger] next \<or> kind_in [TkLeftParen] next \<or> kind_in [TkIdentifier] next \<and> is_operator after
else False)))))"

definition parse_generic_arg :: "px \<Rightarrow> expr ty parse" where
  "parse_generic_arg self = (and_then peek_token (\<lambda>token.
    and_then peek_next_token (\<lambda>next.
    if tok_kind token = TkIdentifier \<and> tok_lexeme token = ''Dyn'' \<and> \<not> kind_in [TkColonColon, TkLess] next then (and_then advance_token (\<lambda>_.
      ret (TyDynDim (tok_span token))))
else if tok_kind token = TkQuestion \<and> kind_in [TkIdentifier] next then (and_then allows_existentials (\<lambda>allow.
      and_then ((if allow then ret () else error_here ''PACO-E0112''
''`?name` names a dimension the producer chooses; it is allowed only in a return type or a struct field type'')) (\<lambda>_.
      and_then advance_token (\<lambda>_.
      and_then advance_token (\<lambda>name.
      ret (TyExistential (tok_lexeme name) (span_to (tok_span token) (tok_span name))))))))
else if tok_kind token = TkIdentifier \<and> kind_in [TkDotDotDot] next then (and_then advance_token (\<lambda>_.
      and_then advance_token (\<lambda>dots.
      ret (TyExpand (tok_lexeme token) (span_to (tok_span token) (tok_span dots))))))
else (and_then starts_const_arg (\<lambda>const.
      if const then (and_then (px_additive self) (\<lambda>e.
        ret (TyConst e (expr_span e))))
else px_ty self)))))"

text \<open>The arguments between \<open><\<close> and \<open>>\<close>, and the end of the latter.\<close>

definition parse_generic_list :: "px \<Rightarrow> (expr ty list \<times> nat) parse" where
  "parse_generic_list self = (and_then (separated_unless (px_fuel self) TkGreater (parse_generic_arg self)) (\<lambda>args.
    and_then (consume TkGreater ''expected `>` after generic type arguments'') (\<lambda>right.
    ret (args, span_end (tok_span right)))))"

definition parse_generic_type_args :: "px \<Rightarrow> (expr ty list \<times> nat) parse" where
  "parse_generic_type_args self = (and_then (consume TkLess ''expected `<` before generic type arguments'') (\<lambda>_.
    parse_generic_list self))"

definition parse_tuple_ty :: "px \<Rightarrow> nat \<Rightarrow> expr ty parse" where
  "parse_tuple_ty self start = (and_then previous_span (\<lambda>left_paren.
    and_then (separated_unless (px_fuel self) TkRightParen (px_ty self)) (\<lambda>items.
    and_then (consume TkRightParen ''expected `)` after tuple type'') (\<lambda>right.
    ret (if length items = 1 then hd items
else TyTuple items (span_new (span_file_id left_paren) start (span_end (tok_span right))))))))"

definition parse_fn_ty :: "px \<Rightarrow> nat \<Rightarrow> expr ty parse" where
  "parse_fn_ty self start = (and_then (matches TkUnsafe) (\<lambda>is_unsafe.
    and_then parse_extern_abi (\<lambda>extern_abi.
    and_then ((if is_unsafe \<and> extern_abi = None then (and_then (consume TkExtern ''expected `extern` after `unsafe` in a function type'') (\<lambda>_.
        ret ())) else ret ())) (\<lambda>_.
    and_then (consume TkFn ''expected `fn` in a function type'') (\<lambda>fn_token.
    and_then (consume TkLeftParen ''expected `(` after `fn` in a function type'') (\<lambda>_.
    and_then (separated_until (px_fuel self) TkRightParen (px_ty self)) (\<lambda>params.
    and_then (consume TkRightParen ''expected `)` after function type parameters'') (\<lambda>right.
    and_then (optional TkArrow (px_ty self)) (\<lambda>return_ty.
    ret (TyFn params return_ty extern_abi is_unsafe (span_new (span_file_id (tok_span fn_token)) start
(case return_ty of Some ty \<Rightarrow> span_end (ty_span ty) | None \<Rightarrow> span_end (tok_span right)))))))))))))"

definition parse_path_ty :: "px \<Rightarrow> nat \<Rightarrow> expr ty parse" where
  "parse_path_ty self start = (and_then (parse_path self) (\<lambda>path.
    and_then (matches TkLess) (\<lambda>less.
    if less then (and_then (parse_generic_list self) (\<lambda>(args, end).
      and_then previous_span (\<lambda>prev.
      ret (TyGeneric path args (span_new (span_file_id prev) start end)))))
else (and_then previous_span (\<lambda>prev.
      ret (TyPath path prev))))))"

definition parse_ty :: "px \<Rightarrow> expr ty parse" where
  "parse_ty self = (and_then peek_span (\<lambda>here.
    let start = span_start here in
    alternatives
[(TkType, (and_then previous_span (\<lambda>sp.
      ret (TyPath [''type''] sp)))),
(TkHash, (and_then previous_span (\<lambda>sp.
      and_then (parse_splice self sp) (\<lambda>(inner, full).
      ret (TySplice inner full))))),
(TkLeftParen, parse_tuple_ty self start)]
(and_then (check_any [TkUnsafe, TkExtern, TkFn]) (\<lambda>fn_like.
      if fn_like then parse_fn_ty self start else
alternatives
[(TkAmpersand, (and_then previous_span (\<lambda>ampersand.
        and_then (optional TkLifetime ((and_then previous_token (\<lambda>t.
            ret (dropWhile (\<lambda>c. c = CHR 0x27) (tok_lexeme t)))))) (\<lambda>lifetime.
        and_then (matches TkMut) (\<lambda>mutable.
        and_then (px_ty self) (\<lambda>ty.
        ret (TyBorrow mutable lifetime ty (span_new (span_file_id ampersand) start (span_end (ty_span ty)))))))))),
(TkLeftBracket, (and_then previous_span (\<lambda>left_bracket.
        and_then (consume TkRightBracket ''expected `]` after `[` in a slice type'') (\<lambda>_.
        and_then (px_ty self) (\<lambda>ty.
        ret (TySlice ty (span_new (span_file_id left_bracket) start (span_end (ty_span ty))))))))),
(TkStar, (and_then previous_span (\<lambda>star.
        and_then (matches TkMut) (\<lambda>mutable.
        and_then ((if mutable then ret () else (and_then (consume TkConst ''expected `const` or `mut` after `*` in a type'') (\<lambda>_.
            ret ())))) (\<lambda>_.
        and_then (px_ty self) (\<lambda>ty.
        ret (TyRawPointer mutable ty (span_new (span_file_id star) start (span_end (ty_span ty))))))))))]
(parse_path_ty self start)))))"

definition parse_existential_ty :: "px \<Rightarrow> expr ty parse" where
  "parse_existential_ty self = with_existentials (px_ty self)"

section \<open>Generic parameters\<close>

definition parse_bound :: "px \<Rightarrow> expr ty parse" where
  "parse_bound self = (and_then (matches TkQuestion) (\<lambda>question.
    and_then ((if question then error_here ''PACO-E0114'' ''`?` bounds are not supported yet'' else ret ())) (\<lambda>_.
    px_ty self)))"

definition parse_generic_parameter :: "px \<Rightarrow> expr generic_param parse" where
  "parse_generic_parameter self = (and_then peek_span (\<lambda>start.
    and_then (matches TkConst) (\<lambda>const.
    if const then (and_then (consume_identifier ''expected const parameter name after `const`'') (\<lambda>name.
      and_then (consume TkColon ''expected `:` and a type after a const parameter name'') (\<lambda>_.
      and_then (px_ty self) (\<lambda>ty.
      and_then (matches TkDotDotDot) (\<lambda>pack.
      and_then (span_since start) (\<lambda>sp.
      ret (GenericParam name (if pack then KindConstPack ty else KindConst ty) [] sp)))))))
else (and_then peek_token (\<lambda>t.
      and_then (next_is [TkIdentifier]) (\<lambda>named.
      if tok_kind t = TkIdentifier \<and> tok_lexeme t = ''dim'' \<and> named then (and_then advance_token (\<lambda>_.
        and_then (consume_identifier ''expected dimension parameter name after `dim`'') (\<lambda>name.
        and_then (span_since start) (\<lambda>sp.
        ret (GenericParam name KindDim [] sp)))))
else alternatives
[(TkLifetime, (and_then previous_token (\<lambda>prev.
        ret (GenericParam (dropWhile (\<lambda>c. c = CHR 0x27) (tok_lexeme prev)) KindLifetime [] (tok_span prev))))),
(TkIdentifier, (and_then previous_token (\<lambda>prev.
        and_then (optional TkColon (separated (px_fuel self) TkPlus (parse_bound self))) (\<lambda>bounds.
        and_then (span_since start) (\<lambda>sp.
        ret (GenericParam (tok_lexeme prev) KindType (case bounds of Some bs \<Rightarrow> bs | None \<Rightarrow> []) sp))))))]
(fail_here ''PACO-E0112'' ''expected generic parameter name'')))))))"

definition parse_generic_params :: "px \<Rightarrow> expr generic_param list parse" where
  "parse_generic_params self = (and_then (matches TkLess) (\<lambda>less.
    if \<not> less then ret [] else (and_then (iterate (px_fuel self) (\<lambda>params. (and_then (check TkGreater) (\<lambda>stop.
          if stop then ret (Inr params) else (and_then (parse_generic_parameter self) (\<lambda>param.
            and_then ((case find is_pack_param params of
None \<Rightarrow> ret ()
| Some pack \<Rightarrow> push_error ''PACO-E0114'' (gp_span pack)
(if is_pack_param param
then ''only one const parameter pack is allowed per generic parameter list''
else ''a const parameter pack must be the last generic parameter''))) (\<lambda>_.
            and_then (matches TkComma) (\<lambda>more.
            ret (if more then Inl (params @ [param]) else Inr (params @ [param]))))))))) []) (\<lambda>params.
      and_then (consume TkGreater ''expected `>` after generic parameters'') (\<lambda>_.
      ret params)))))"

text \<open>\<open>generics.iter_mut().find(|param| param.name == name)\<close>, with its bounds extended.\<close>

fun extend_bounds :: "string \<Rightarrow> 'e ty list \<Rightarrow> 'e generic_param list \<Rightarrow> 'e generic_param list option" where
  "extend_bounds name bounds [] = None"
| "extend_bounds name bounds (param # params) =
    (if gp_name param = name
     then Some (GenericParam (gp_name param) (gp_kind param) (gp_bounds param @ bounds) (gp_span param) # params)
     else map_option (Cons param) (extend_bounds name bounds params))"

definition parse_where_clause :: "px \<Rightarrow> expr generic_param list \<Rightarrow> expr generic_param list parse" where
  "parse_where_clause self generics = (and_then (matches TkWhere) (\<lambda>clause.
    if \<not> clause then ret generics else iterate (px_fuel self) (\<lambda>generics. (and_then peek_span (\<lambda>name_span.
      and_then (consume_identifier ''expected a generic parameter name after `where`'') (\<lambda>name.
      and_then (consume TkColon ''expected `:` after a `where` parameter name'') (\<lambda>_.
      and_then (separated (px_fuel self) TkPlus (parse_bound self)) (\<lambda>bounds.
      and_then ((case extend_bounds name bounds generics of
None \<Rightarrow> (and_then (push_error ''PACO-E0114'' name_span
(''`where` names `'' @ name @ ''`, which is not a declared generic parameter'')) (\<lambda>_.
          ret generics))
| Some generics \<Rightarrow> ret generics)) (\<lambda>generics.
      and_then (matches TkComma) (\<lambda>more.
      ret (if more then Inl generics else Inr generics))))))))) generics))"

definition parse_parameter :: "px \<Rightarrow> expr param parse" where
  "parse_parameter self = (and_then peek_span (\<lambda>here.
    let start = span_start here in
    and_then (matches TkAmpersand) (\<lambda>ampersand.
    and_then ((if ampersand then (and_then (matches TkMut) (\<lambda>mutable.
        and_then (consume_identifier ''expected `self` after `&` in receiver'') (\<lambda>name.
        and_then ((if name \<noteq> ''self'' then error_here ''PACO-E0112''
''only `self` may be borrowed in a parameter list; write `name: &Type` for an ordinary borrowed parameter''
else ret ())) (\<lambda>_.
        and_then (span_from start) (\<lambda>sp.
        and_then previous_span (\<lambda>prev.
        ret (name, TyBorrow mutable None (TyPath [''Self''] prev) sp)))))))
else (and_then (consume_identifier ''expected parameter name'') (\<lambda>name.
        if name = ''self'' then (and_then previous_span (\<lambda>prev.
          ret (name, TyPath [''Self''] prev)))
else (and_then (consume TkColon ''expected `:` after parameter name'') (\<lambda>_.
          and_then (px_ty self) (\<lambda>ty.
          ret (name, ty)))))))) (\<lambda>(name, ty).
    and_then (span_from start) (\<lambda>sp.
    ret (Param (PatIdent name sp) ty sp))))))"

definition parse_parameter_list :: "px \<Rightarrow> expr param list parse" where
  "parse_parameter_list self = (and_then (check TkRightParen) (\<lambda>empty.
    if empty then ret [] else separated_trailing (px_fuel self) TkRightParen (parse_parameter self)))"

section \<open>Patterns\<close>

definition parse_struct_pattern :: "px \<Rightarrow> string list \<Rightarrow> nat \<Rightarrow> pat parse" where
  "parse_struct_pattern self path start = (and_then (iterate (px_fuel self) (\<lambda>fields. (and_then (check TkRightBrace) (\<lambda>stop.
        if stop then ret (Inr (fields, False)) else (and_then (matches TkDotDot) (\<lambda>dots.
          if dots then ret (Inr (fields, True)) else (and_then (consume TkIdentifier ''expected field name in struct pattern'') (\<lambda>name.
            and_then (optional TkColon (px_pattern self)) (\<lambda>given.
            let pattern = (case given of Some p \<Rightarrow> p | None \<Rightarrow> PatIdent (tok_lexeme name) (tok_span name)) in
            and_then (matches TkComma) (\<lambda>more.
            ret (if more then Inl (fields @ [(tok_lexeme name, pattern)])
else Inr (fields @ [(tok_lexeme name, pattern)], False))))))))))) []) (\<lambda>(fields, rest).
    and_then (consume TkRightBrace ''expected `}` after struct pattern fields'') (\<lambda>right.
    ret (PatStruct path fields rest (span_new (span_file_id (tok_span right)) start (span_end (tok_span right)))))))"

definition parse_path_pattern :: "px \<Rightarrow> pat parse" where
  "parse_path_pattern self = (and_then peek_span (\<lambda>here.
    let start = span_start here in
    and_then (parse_path self) (\<lambda>path.
    alternatives
[(TkLeftParen, (and_then (separated_unless (px_fuel self) TkRightParen (px_pattern self)) (\<lambda>fields.
      and_then (consume TkRightParen ''expected `)` after pattern fields'') (\<lambda>right.
      ret (PatEnum path fields (span_new (span_file_id (tok_span right)) start (span_end (tok_span right)))))))),
(TkLeftBrace, parse_struct_pattern self path start)]
(and_then (span_from start) (\<lambda>sp.
      ret (if length path = 1 then PatIdent (hd path) sp else PatEnum path [] sp))))))"

definition parse_pattern_atom :: "px \<Rightarrow> pat parse" where
  "parse_pattern_atom self = alternatives
    [(TkAmpersand, (and_then previous_span (\<lambda>operator.
      and_then (matches TkMut) (\<lambda>mutable.
      and_then (px_atom self) (\<lambda>pattern.
      ret (PatReference mutable pattern (span_to operator (pat_span pattern)))))))),
     (TkUnderscore, (and_then previous_span (\<lambda>sp.
       ret (PatWildcard sp)))),
     (TkInteger, (and_then previous_token (\<lambda>t.
       ret (PatLiteral (LitInt (parse_int_literal (tok_lexeme t))) (tok_span t))))),
     (TkString, (and_then previous_token (\<lambda>t.
       ret (PatLiteral (LitString (decode_string (tok_lexeme t))) (tok_span t))))),
     (TkChar, (and_then previous_token (\<lambda>t.
       ret (PatLiteral (LitChar (decode_char (tok_lexeme t))) (tok_span t))))),
     (TkTrue, (and_then previous_span (\<lambda>sp.
       ret (PatLiteral (LitBool True) sp)))),
     (TkFalse, (and_then previous_span (\<lambda>sp.
       ret (PatLiteral (LitBool False) sp))))]
    (and_then (check TkIdentifier) (\<lambda>ident.
      if ident then parse_path_pattern self else
alternatives
[(TkLeftParen, (and_then previous_span (\<lambda>left.
        and_then (separated_unless (px_fuel self) TkRightParen (px_pattern self)) (\<lambda>fields.
        and_then (consume TkRightParen ''expected `)` after tuple pattern'') (\<lambda>right.
        ret (PatTuple fields (span_to left (tok_span right))))))))]
(fail_here ''PACO-E0113'' ''expected pattern'')))"

definition parse_range_pattern :: "px \<Rightarrow> pat parse" where
  "parse_range_pattern self = (and_then (parse_pattern_atom self) (\<lambda>start.
    and_then (matches TkDotDot) (\<lambda>dots.
    and_then ((if dots then ret True else matches TkDotDotEqual)) (\<lambda>range.
    if range then (and_then previous_token (\<lambda>prev.
      let inclusive = (tok_kind prev = TkDotDotEqual) in
      and_then (parse_pattern_atom self) (\<lambda>end.
      ret (PatRange start end inclusive (span_to (pat_span start) (pat_span end))))))
else ret start))))"

definition parse_binding_pattern :: "px \<Rightarrow> pat parse" where
  "parse_binding_pattern self = (and_then (check TkIdentifier) (\<lambda>ident.
    and_then (next_is [TkAt]) (\<lambda>at.
    if ident \<and> at then (and_then advance_token (\<lambda>token.
      and_then (consume TkAt ''expected `@` after binding name'') (\<lambda>_.
      and_then (px_binding self) (\<lambda>pattern.
      ret (PatBinding (tok_lexeme token) pattern (span_to (tok_span token) (pat_span pattern)))))))
else parse_range_pattern self)))"

definition parse_pattern :: "px \<Rightarrow> pat parse" where
  "parse_pattern self = (and_then (parse_binding_pattern self) (\<lambda>first.
    and_then (continued (px_fuel self) TkPipe (parse_binding_pattern self) [first]) (\<lambda>patterns.
    if length patterns = 1 then ret (hd patterns) else (and_then previous_span (\<lambda>prev.
      ret (PatOr patterns (span_new (span_file_id prev) (span_start (pat_span (hd patterns)))
(span_end (pat_span (last patterns))))))))))"

section \<open>Calls and other postfix forms\<close>

definition parse_argument :: "px \<Rightarrow> expr parse" where
  "parse_argument self = (and_then (check TkIdentifier) (\<lambda>ident.
    and_then (next_is [TkColon]) (\<lambda>colon.
    and_then ((if ident \<and> colon then (and_then advance_token (\<lambda>_.
        and_then advance_token (\<lambda>_.
        ret ()))) else ret ())) (\<lambda>_.
    px_expr self))))"

definition parse_argument_list :: "px \<Rightarrow> expr list parse" where
  "parse_argument_list self = separated_unless (px_fuel self) TkRightParen (parse_argument self)"

text \<open>\<open>( arguments )\<close> after the opening parenthesis, with the span of the closing one.\<close>

definition parse_arguments :: "px \<Rightarrow> (expr list \<times> span) parse" where
  "parse_arguments self = (and_then (parse_argument_list self) (\<lambda>args.
    and_then (consume TkRightParen ''expected `)` after arguments'') (\<lambda>right.
    ret (args, tok_span right))))"

definition parse_member :: "px \<Rightarrow> expr \<Rightarrow> expr parse" where
  "parse_member self e = (and_then (consume_identifier ''expected field or method name'') (\<lambda>method_or_field.
    and_then (matches TkLeftParen) (\<lambda>paren.
    if paren then (and_then (parse_arguments self) (\<lambda>(args, right).
      ret (EMethodCall e method_or_field args (span_to (expr_span e) right))))
else (and_then (span_since (expr_span e)) (\<lambda>sp.
      ret (EField e method_or_field sp))))))"

definition parse_postfix :: "px \<Rightarrow> expr \<Rightarrow> expr parse" where
  "parse_postfix self expr = iterate (px_fuel self) (\<lambda>e. (and_then (matches TkLeftParen) (\<lambda>paren.
    if paren then (and_then (parse_arguments self) (\<lambda>(args, right).
      ret (Inl (ECall e [] args (span_to (expr_span e) right)))))
else (and_then (check TkDot) (\<lambda>dot.
      and_then (next_is [TkHash]) (\<lambda>hash.
      if dot \<and> hash then (and_then advance_token (\<lambda>_.
        and_then advance_token (\<lambda>_.
        and_then (parse_splice self (expr_span e)) (\<lambda>(name_expr, sp).
        ret (Inl (ECall (EIdent ''splice_field'' sp) [] [e, name_expr] sp))))))
else (and_then (matches TkDot) (\<lambda>dot.
        if dot then (and_then (parse_member self e) (\<lambda>e.
          ret (Inl e)))
else (and_then (matches TkQuestion) (\<lambda>question.
          if question then (and_then (span_since (expr_span e)) (\<lambda>sp.
            ret (Inl (ETry e sp))))
else (and_then (matches TkLeftBracket) (\<lambda>bracket.
            if bracket then (and_then (px_expr self) (\<lambda>first.
              and_then (continued (px_fuel self) TkComma (px_expr self) [first]) (\<lambda>index.
              and_then (consume TkRightBracket ''expected `]` after index expression'') (\<lambda>right.
              ret (Inl (EIndex e index (span_to (expr_span e) (tok_span right))))))))
else ret (Inr e))))))))))))) expr"

section \<open>Blocks, functions and methods\<close>

definition parse_let_stmt :: "px \<Rightarrow> expr let_stmt parse" where
  "parse_let_stmt self = (and_then previous_span (\<lambda>start.
    and_then (matches TkMut) (\<lambda>mutable.
    and_then (px_pattern self) (\<lambda>pattern.
    and_then (optional TkColon (px_ty self)) (\<lambda>ty.
    and_then (optional TkEqual (px_expr self)) (\<lambda>val.
    and_then expect_semicolon (\<lambda>_.
    and_then (span_from (span_start start)) (\<lambda>sp.
    ret (LetStmt mutable pattern ty val sp)))))))))"

definition starts_block_like :: "bool parse" where
  "starts_block_like = check_any [TkIf, TkMatch, TkWhile, TkFor, TkLoop, TkUnsafe, TkComptime, TkSelect, TkLeftBrace]"

type_synonym block_state = "(expr, block) stmt list \<times> expr option"

text \<open>The end of an expression statement or of the tail expression.\<close>

definition parse_statement_end :: "block_state \<Rightarrow> expr \<Rightarrow> block_state parse" where
  "parse_statement_end st e = (and_then (matches TkSemicolon) (\<lambda>semi.
    if semi then ret (fst st @ [StmtExpr e], snd st) else (and_then (check TkRightBrace) (\<lambda>close.
      if close then ret (fst st, Some e) else (and_then expect_semicolon (\<lambda>_.
        ret (fst st @ [StmtExpr e], snd st)))))))"

definition parse_block_member :: "px \<Rightarrow> block_state \<Rightarrow> block_state parse" where
  "parse_block_member self st = (and_then (matches TkSemicolon) (\<lambda>semi.
    if semi then ret st else (and_then (matches TkLet) (\<lambda>is_let.
      if is_let then (and_then (parse_let_stmt self) (\<lambda>l.
        ret (fst st @ [StmtLet l], snd st)))
else (and_then starts_block_like (\<lambda>block_like.
        if block_like then (and_then (px_primary self) (\<lambda>e.
          and_then (check_any [TkDot, TkQuestion]) (\<lambda>more.
          if \<not> more then (and_then (matches TkSemicolon) (\<lambda>semi.
            and_then (check TkRightBrace) (\<lambda>close.
            if semi \<or> \<not> close then ret (fst st @ [StmtExpr e], snd st)
else ret (fst st, Some e))))
else (and_then (parse_postfix self e) (\<lambda>e.
            parse_statement_end st e)))))
else (and_then (px_expr self) (\<lambda>e.
          parse_statement_end st e))))))))"

definition parse_block :: "px \<Rightarrow> block parse" where
  "parse_block self = (and_then (consume TkLeftBrace ''expected `{` before block'') (\<lambda>left.
    and_then (members (px_fuel self) (parse_block_member self) ([], None)) (\<lambda>(stmts, tail).
    and_then (consume TkRightBrace ''expected `}` after block'') (\<lambda>right.
    ret (Block stmts tail (span_to (tok_span left) (tok_span right)))))))"

definition parse_function_name :: "px \<Rightarrow> (string \<times> expr option) parse" where
  "parse_function_name self = (and_then (matches TkHash) (\<lambda>hash.
    if hash then (and_then (consume TkLeftParen ''expected `(` after `#`'') (\<lambda>_.
      and_then (px_expr self) (\<lambda>inner.
      and_then (consume TkRightParen ''expected `)` after splice expression'') (\<lambda>_.
      ret ([], Some inner)))))
else (and_then (consume_identifier ''expected function name'') (\<lambda>name.
      ret (name, None)))))"

definition parse_parameters :: "px \<Rightarrow> expr param list parse" where
  "parse_parameters self = (and_then (consume TkLeftParen ''expected `(` after function name'') (\<lambda>_.
    and_then (parse_parameter_list self) (\<lambda>params.
    and_then (consume TkRightParen ''expected `)` after parameters'') (\<lambda>_.
    ret params))))"

definition parse_function_decl :: "px \<Rightarrow> bool \<Rightarrow> bool \<Rightarrow> bool \<Rightarrow> string option \<Rightarrow> (expr, block) fn_decl parse" where
  "parse_function_decl self is_pub is_unsafe is_iter extern_abi = (and_then previous_span (\<lambda>start.
    and_then (parse_function_name self) (\<lambda>(name, name_splice).
    and_then (parse_generic_params self) (\<lambda>generics.
    and_then (parse_parameters self) (\<lambda>params.
    and_then (optional TkArrow (parse_existential_ty self)) (\<lambda>return_ty.
    and_then (parse_where_clause self generics) (\<lambda>generics.
    and_then (parse_block self) (\<lambda>body.
    and_then previous_span (\<lambda>prev.
    ret (FnDecl name name_splice generics params return_ty body is_pub is_unsafe is_iter False extern_abi []
(span_new (span_file_id prev) (span_start start) (max (span_end (blk_span body)) (span_end prev)))))))))))))"

definition with_attrs :: "attribute list \<Rightarrow> bool \<Rightarrow> ('e, 'b) fn_decl \<Rightarrow> ('e, 'b) fn_decl" where
  "with_attrs attrs is_comptime decl = (case decl of
     FnDecl name name_splice generics params return_ty body is_pub is_unsafe is_iter _ abi _ sp \<Rightarrow>
       FnDecl name name_splice generics params return_ty body is_pub is_unsafe is_iter is_comptime abi attrs sp)"

definition parse_function_modifiers :: "(bool \<times> bool \<times> bool \<times> string option) parse" where
  "parse_function_modifiers = (and_then (matches TkComptime) (\<lambda>is_comptime.
    and_then ((if is_comptime then ret False else matches TkIter)) (\<lambda>is_iter.
    and_then (matches TkUnsafe) (\<lambda>is_unsafe.
    and_then parse_extern_abi (\<lambda>extern_abi.
    ret (is_comptime, is_unsafe, is_iter, extern_abi))))))"

text \<open>Modifiers, \<open>fn\<close> and the function, as the members of structs, enums and \<open>methods\<close> have them.\<close>

definition parse_modified_function :: "px \<Rightarrow> string \<Rightarrow> bool \<Rightarrow> attribute list \<Rightarrow> (expr, block) fn_decl parse" where
  "parse_modified_function self msg is_pub attrs = (and_then parse_function_modifiers (\<lambda>(is_comptime, is_unsafe, is_iter, extern_abi).
    and_then (consume TkFn msg) (\<lambda>_.
    and_then (parse_function_decl self is_pub is_unsafe is_iter extern_abi) (\<lambda>decl.
    ret (with_attrs attrs is_comptime decl)))))"

definition parse_const_decl :: "px \<Rightarrow> bool \<Rightarrow> expr const_decl parse" where
  "parse_const_decl self is_pub = (and_then previous_span (\<lambda>start.
    and_then (consume_identifier ''expected constant name'') (\<lambda>name.
    and_then (consume TkColon ''expected `:` after constant name (const requires a type annotation)'') (\<lambda>_.
    and_then (px_ty self) (\<lambda>ty.
    and_then (consume TkEqual ''expected `=` after constant type'') (\<lambda>_.
    and_then (px_expr self) (\<lambda>val.
    and_then expect_semicolon (\<lambda>_.
    and_then (span_from (span_start start)) (\<lambda>sp.
    ret (ConstDecl name ty val is_pub sp))))))))))"

type_synonym methods_state = "(expr, block) fn_decl list \<times> expr const_decl list"

definition parse_methods_member :: "px \<Rightarrow> methods_state \<Rightarrow> methods_state parse" where
  "parse_methods_member self st = (and_then (parse_outer_attributes self) (\<lambda>member_attrs.
    and_then (matches TkPub) (\<lambda>member_is_pub.
    and_then (matches TkConst) (\<lambda>const.
    if const then (and_then (parse_const_decl self member_is_pub) (\<lambda>c.
      ret (fst st, snd st @ [c])))
else (and_then (parse_modified_function self ''expected method declaration'' member_is_pub member_attrs) (\<lambda>decl.
      ret (fst st @ [decl], snd st)))))))"

definition parse_methods_block :: "px \<Rightarrow> (expr, block) methods_block parse" where
  "parse_methods_block self = (and_then previous_span (\<lambda>start.
    and_then (parse_generic_params self) (\<lambda>generics.
    and_then (px_ty self) (\<lambda>target.
    and_then (parse_where_clause self generics) (\<lambda>generics.
    and_then (consume TkLeftBrace ''expected `{` before methods body'') (\<lambda>_.
    and_then (members (px_fuel self) (parse_methods_member self) ([], [])) (\<lambda>(methods, consts).
    and_then (consume TkRightBrace ''expected `}` after methods body'') (\<lambda>right.
    ret (MethodsBlock generics target methods consts
(span_new (span_file_id (tok_span right)) (span_start start) (span_end (tok_span right))))))))))))"

section \<open>Matches, selects and closures\<close>

definition parse_bare_expr :: "px \<Rightarrow> expr parse" where
  "parse_bare_expr self = without_struct_literals (px_expr self)"

definition parse_match_arm :: "px \<Rightarrow> expr match_arm parse" where
  "parse_match_arm self = (and_then peek_span (\<lambda>here.
    and_then (px_pattern self) (\<lambda>pattern.
    and_then (optional TkIf (parse_bare_expr self)) (\<lambda>guard.
    and_then (consume TkFatArrow ''expected `=>` after match arm pattern'') (\<lambda>_.
    and_then (px_expr self) (\<lambda>body.
    and_then previous_span (\<lambda>prev.
    ret (MatchArm pattern guard body
(span_new (span_file_id prev) (span_start here) (span_end (expr_span body)))))))))))"

definition parse_match_expr :: "px \<Rightarrow> expr parse" where
  "parse_match_expr self = (and_then previous_span (\<lambda>start.
    and_then (parse_bare_expr self) (\<lambda>scrutinee.
    and_then (consume TkLeftBrace ''expected `{` before match arms'') (\<lambda>_.
    and_then (members (px_fuel self) (\<lambda>arms. (and_then (parse_match_arm self) (\<lambda>arm.
        and_then (expect_comma (is_block_like (arm_body arm)) ''expected `,` after a match arm'') (\<lambda>_.
        ret (arms @ [arm]))))) []) (\<lambda>arms.
    and_then (consume TkRightBrace ''expected `}` after match arms'') (\<lambda>right.
    ret (EMatch scrutinee arms (span_to start (tok_span right)))))))))"

definition expr_to_block :: "expr \<Rightarrow> block" where
  "expr_to_block e = Block [] (Some e) (expr_span e)"

definition parse_select_operation :: "px \<Rightarrow> expr parse" where
  "parse_select_operation self = (and_then (check TkIdentifier) (\<lambda>ident.
    and_then (next_is [TkEqual]) (\<lambda>equal.
    if ident \<and> equal then (and_then advance_token (\<lambda>name.
      and_then advance_token (\<lambda>_.
      and_then (parse_bare_expr self) (\<lambda>channel_expr.
      ret (EAssign (EIdent (tok_lexeme name) (tok_span name)) channel_expr
(span_to (tok_span name) (expr_span channel_expr)))))))
else parse_bare_expr self)))"

definition parse_select_arm :: "px \<Rightarrow> (expr, block) select_arm parse" where
  "parse_select_arm self = (and_then peek_span (\<lambda>here.
    and_then (parse_select_operation self) (\<lambda>operation.
    and_then (consume TkFatArrow ''expected `=>` in select arm'') (\<lambda>_.
    and_then (px_expr self) (\<lambda>body_expr.
    and_then previous_span (\<lambda>prev.
    ret (SelectArm operation (expr_to_block body_expr)
(span_new (span_file_id prev) (span_start here) (span_end (expr_span body_expr))))))))))"

type_synonym select_state = "(expr, block) select_arm list \<times> block option"

definition parse_select_member :: "px \<Rightarrow> select_state \<Rightarrow> select_state parse" where
  "parse_select_member self st = (and_then peek_token (\<lambda>t.
    and_then (next_is [TkFatArrow]) (\<lambda>arrow.
    if tok_kind t = TkIdentifier \<and> tok_lexeme t = ''default'' \<and> arrow then (and_then advance_token (\<lambda>_.
      and_then advance_token (\<lambda>_.
      and_then (px_expr self) (\<lambda>body_expr.
      and_then (expect_comma (is_block_like body_expr) ''expected `,` after a select arm'') (\<lambda>_.
      ret (fst st, Some (expr_to_block body_expr)))))))
else (and_then (parse_select_arm self) (\<lambda>arm.
      and_then (expect_comma (case blk_tail (sa_body arm) of Some e \<Rightarrow> is_block_like e | None \<Rightarrow> False)
''expected `,` after a select arm'') (\<lambda>_.
      ret (fst st @ [arm], snd st)))))))"

definition parse_select_expr :: "px \<Rightarrow> expr parse" where
  "parse_select_expr self = (and_then previous_span (\<lambda>start.
    and_then (consume TkLeftBrace ''expected `{` after `select`'') (\<lambda>_.
    and_then (members (px_fuel self) (parse_select_member self) ([], None)) (\<lambda>(arms, default).
    and_then (consume TkRightBrace ''expected `}` after select arms'') (\<lambda>right.
    ret (ESelect arms default (span_to start (tok_span right))))))))"

definition parse_closure_param :: "px \<Rightarrow> span \<Rightarrow> expr closure_param parse" where
  "parse_closure_param self start = (and_then (px_atom self) (\<lambda>pattern.
    and_then (optional TkColon (px_ty self)) (\<lambda>ty.
    and_then previous_span (\<lambda>prev.
    ret (ClosureParam pattern ty
(span_new (span_file_id start) (span_start (pat_span pattern)) (span_end prev)))))))"

definition parse_block_or :: "px \<Rightarrow> expr parse \<Rightarrow> expr parse" where
  "parse_block_or self otherwise = (and_then (check TkLeftBrace) (\<lambda>brace.
    if brace then (and_then (parse_block self) (\<lambda>b.
      ret (EBlock b))) else otherwise))"

definition parse_closure_params :: "px \<Rightarrow> span \<Rightarrow> expr closure_param list parse" where
  "parse_closure_params self start = (and_then (matches TkOrOr) (\<lambda>none.
    if none then ret [] else (and_then (consume TkPipe ''expected `|` to open closure parameters'') (\<lambda>_.
      and_then (separated_until (px_fuel self) TkPipe (parse_closure_param self start)) (\<lambda>params.
      and_then (consume TkPipe ''expected `|` after closure parameters'') (\<lambda>_.
      ret params))))))"

definition parse_closure :: "px \<Rightarrow> expr parse" where
  "parse_closure self = (and_then peek_span (\<lambda>start.
    and_then (parse_closure_params self start) (\<lambda>params.
    and_then (parse_block_or self (px_expr self)) (\<lambda>body.
    ret (EClosure params body (span_to start (expr_span body)))))))"

section \<open>Conditions and loops\<close>

definition parse_else_branch :: "px \<Rightarrow> expr option parse" where
  "parse_else_branch self = (and_then (matches TkElse) (\<lambda>els.
    if \<not> els then ret None else (and_then (matches TkIf) (\<lambda>nested.
      if nested then (and_then (px_if self) (\<lambda>e.
        ret (Some e)))
else (and_then (parse_block self) (\<lambda>b.
        ret (Some (EBlock b))))))))"

definition parse_if_let_expr :: "px \<Rightarrow> span \<Rightarrow> expr parse" where
  "parse_if_let_expr self start = (and_then (px_pattern self) (\<lambda>pattern.
    and_then (consume TkEqual ''expected `=` after if let pattern'') (\<lambda>_.
    and_then (parse_bare_expr self) (\<lambda>scrutinee.
    and_then (parse_block self) (\<lambda>then_branch.
    and_then (parse_else_branch self) (\<lambda>else_branch.
    let then_body = EBlock then_branch in
    let else_body = (case else_branch of Some e \<Rightarrow> e | None \<Rightarrow> empty_block_expr start) in
    let then_end = span_end (expr_span then_body) in
    let else_span = expr_span else_body in
    let end = max (span_end else_span) then_end in
    ret (EMatch scrutinee
[MatchArm pattern None then_body (span_new (span_file_id start) (span_start (pat_span pattern)) then_end),
MatchArm (PatWildcard else_span) None else_body else_span]
(span_new (span_file_id start) (span_start start) end))))))))"

definition parse_if_expr :: "px \<Rightarrow> expr parse" where
  "parse_if_expr self = (and_then previous_span (\<lambda>start.
    and_then (matches TkLet) (\<lambda>is_let.
    if is_let then parse_if_let_expr self start else (and_then (parse_bare_expr self) (\<lambda>condition.
      and_then (parse_block self) (\<lambda>then_branch.
      and_then (parse_else_branch self) (\<lambda>else_branch.
      ret (EIf condition then_branch else_branch (span_new (span_file_id start) (span_start start)
(case else_branch of Some e \<Rightarrow> span_end (expr_span e) | None \<Rightarrow> span_end (blk_span then_branch)))))))))))"

definition parse_while_let_expr :: "px \<Rightarrow> span \<Rightarrow> expr parse" where
  "parse_while_let_expr self start = (and_then (px_pattern self) (\<lambda>pattern.
    and_then (consume TkEqual ''expected `=` after while let pattern'') (\<lambda>_.
    and_then (parse_bare_expr self) (\<lambda>scrutinee.
    and_then (parse_block self) (\<lambda>body.
    let body_expr = EBlock body in
    let body_end = span_end (expr_span body_expr) in
    let fallback_span = span_new (span_file_id start) body_end body_end in
    let full = span_new (span_file_id start) (span_start start) body_end in
    let match_expr = EMatch scrutinee
[MatchArm pattern None body_expr (span_new (span_file_id start) (span_start (pat_span pattern)) body_end),
MatchArm (PatWildcard fallback_span) None (EBreak None fallback_span) fallback_span] full in
    ret (ELoop (Block [StmtExpr match_expr] None full) full))))))"

definition parse_while_expr :: "px \<Rightarrow> expr parse" where
  "parse_while_expr self = (and_then previous_span (\<lambda>start.
    and_then (matches TkLet) (\<lambda>is_let.
    if is_let then parse_while_let_expr self start else (and_then (parse_bare_expr self) (\<lambda>condition.
      and_then (parse_block self) (\<lambda>body.
      ret (EWhile condition body (span_to start (blk_span body)))))))))"

definition parse_for_expr :: "px \<Rightarrow> expr parse" where
  "parse_for_expr self = (and_then previous_span (\<lambda>start.
    and_then (consume TkIdentifier ''expected loop binding name'') (\<lambda>name_token.
    let name = (tok_lexeme name_token, tok_span name_token) in
    and_then (consume TkIn ''expected `in` after loop binding'') (\<lambda>_.
    and_then (parse_bare_expr self) (\<lambda>range_start.
    and_then (matches TkDotDotEqual) (\<lambda>inclusive.
    and_then ((if inclusive then ret False else matches TkDotDot)) (\<lambda>exclusive.
    if inclusive \<or> exclusive then (and_then (parse_bare_expr self) (\<lambda>range_end.
      and_then (parse_block self) (\<lambda>body.
      ret (for_range_expr start name range_start range_end inclusive body))))
else (and_then (parse_block self) (\<lambda>body.
      ret (for_iter_expr start name range_start body))))))))))"

section \<open>Paths and struct literals in expressions\<close>

text \<open>Whether the angle bracket at the cursor opens generic arguments that are followed by \<open>{\<close>,
  \<open>::\<close> or \<open>(\<close>.\<close>

fun closes_application :: "nat \<Rightarrow> token list \<Rightarrow> bool" where
  "closes_application depth [] = False"
| "closes_application depth (t # rest) =
    (if tok_kind t = TkLess then closes_application (depth + 1) rest
     else if tok_kind t = TkGreater then
       (if depth - 1 = 0
        then (case rest of [] \<Rightarrow> False | next # _ \<Rightarrow> tok_kind next \<in> {TkLeftBrace, TkColonColon, TkLeftParen})
        else closes_application (depth - 1) rest)
     else if tok_kind t \<in> {TkEof, TkLeftBrace, TkRightBrace} \<and> depth = 0 then False
     else closes_application depth rest)"

definition remaining_tokens :: "token list parse" where
  "remaining_tokens s = (POk (drop (ps_current s) (ps_tokens s)), s)"

definition starts_generic_type_application :: "bool parse" where
  "starts_generic_type_application = (and_then (check TkLess) (\<lambda>less.
    and_then remaining_tokens (\<lambda>tokens.
    ret (less \<and> closes_application 0 tokens))))"

definition parse_expr_type_path :: "px \<Rightarrow> token \<Rightarrow> expr ty parse" where
  "parse_expr_type_path self token = (and_then starts_generic_type_application (\<lambda>generic.
    if generic then (and_then (parse_generic_type_args self) (\<lambda>(args, end).
      ret (TyGeneric [tok_lexeme token] args
(span_new (span_file_id (tok_span token)) (span_start (tok_span token)) end))))
else ret (TyPath [tok_lexeme token] (tok_span token))))"

text \<open>\<open>:: segment\<close>, unless a \<open><\<close> follows that opens no generic arguments: then the cursor goes back.\<close>

definition parse_segment :: "bool \<Rightarrow> string option parse" where
  "parse_segment before_less s =
    (let saved = ps_current s in
     (and_then advance_token (\<lambda>_.
       and_then (consume_identifier ''expected path segment'') (\<lambda>segment.
       and_then starts_generic_type_application (\<lambda>generic.
       if before_less \<and> \<not> generic
then (\<lambda>s. (POk None, s\<lparr>ps_current := saved\<rparr>))
else ret (Some segment))))) s)"

definition parse_qualified_path :: "px \<Rightarrow> string list \<Rightarrow> span \<Rightarrow> expr ty parse" where
  "parse_qualified_path self path sp = iterate (px_fuel self) (\<lambda>(path, sp). (and_then (check TkColonColon) (\<lambda>colons.
    and_then (next_is [TkIdentifier]) (\<lambda>ident.
    and_then (token_at 2) (\<lambda>after.
    if \<not> (colons \<and> ident \<and> kind_in [TkColonColon, TkLess] after) then ret (Inr (TyPath path sp))
else (and_then (parse_segment (kind_in [TkLess] after)) (\<lambda>segment.
      (case segment of
None \<Rightarrow> ret (Inr (TyPath path sp))
| Some segment \<Rightarrow>
if kind_in [TkLess] after then (and_then (parse_generic_type_args self) (\<lambda>(args, end).
        ret (Inr (TyGeneric (path @ [segment]) args (span_new (span_file_id sp) (span_start sp) end)))))
else (and_then (span_since sp) (\<lambda>sp.
        ret (Inl (path @ [segment], sp)))))))))))) (path, sp)"

definition parse_struct_literal :: "px \<Rightarrow> expr ty \<Rightarrow> expr parse" where
  "parse_struct_literal self ty = (and_then (separated_unless (px_fuel self) TkRightBrace ((and_then (consume_identifier ''expected struct field name'') (\<lambda>name.
        and_then (consume TkColon ''expected `:` after struct field name'') (\<lambda>_.
        and_then (px_expr self) (\<lambda>val.
        ret (name, val))))))) (\<lambda>fields.
    and_then (consume TkRightBrace ''expected `}` after struct literal'') (\<lambda>right.
    ret (EStructLiteral ty fields
(span_new (span_file_id (tok_span right)) (span_start (ty_span ty)) (span_end (tok_span right)))))))"

definition parse_associated :: "px \<Rightarrow> token \<Rightarrow> expr ty \<Rightarrow> expr parse" where
  "parse_associated self token ty = (and_then (consume_identifier ''expected associated item name'') (\<lambda>function.
    and_then allows_struct_literals (\<lambda>allow.
    and_then (check TkLeftBrace) (\<lambda>brace.
    if allow \<and> brace then (case ty of
TyPath path path_span \<Rightarrow> (and_then (matches TkLeftBrace) (\<lambda>_.
      and_then (span_since path_span) (\<lambda>sp.
      parse_struct_literal self (TyPath (path @ [function]) sp))))
| _ \<Rightarrow> fail_here ''PACO-E0111'' ''expected a plain path before `{` in a qualified struct literal'')
else (and_then previous_span (\<lambda>prev.
      and_then (matches TkLeftParen) (\<lambda>paren.
      and_then ((if paren then parse_arguments self else ret ([], prev))) (\<lambda>(args, last).
      ret (EAssociatedCall ty function args
(span_new (span_file_id (tok_span token)) (span_start (ty_span ty)) (span_end last)))))))))))"

definition parse_identifier_expr :: "px \<Rightarrow> expr parse" where
  "parse_identifier_expr self = (and_then previous_token (\<lambda>token.
    and_then (parse_expr_type_path self token) (\<lambda>ty.
    and_then ((case ty of TyPath path sp \<Rightarrow> parse_qualified_path self path sp | _ \<Rightarrow> ret ty)) (\<lambda>ty.
    and_then allows_struct_literals (\<lambda>allow.
    and_then ((if allow then matches TkLeftBrace else ret False)) (\<lambda>brace.
    if brace then parse_struct_literal self ty else (and_then (matches TkColonColon) (\<lambda>colons.
      if colons then parse_associated self token ty else
(case ty of
TyGeneric path type_args generic_span \<Rightarrow> (and_then ((if length path = 1 then matches TkLeftParen else ret False)) (\<lambda>paren.
        if paren then (and_then (parse_arguments self) (\<lambda>(args, right).
          ret (ECall (EIdent (hd path) (tok_span token)) type_args args
(span_new (span_file_id (tok_span token)) (span_start generic_span) (span_end right)))))
else fail_here ''PACO-E0111'' ''expected expression''))
| TyPath path sp \<Rightarrow>
if length path = 1 then ret (EIdent (hd path) sp) else fail_here ''PACO-E0111'' ''expected expression''
| _ \<Rightarrow> fail_here ''PACO-E0111'' ''expected expression'')))))))))"

section \<open>Primary expressions\<close>

text \<open>A keyword followed by a block: \<open>loop\<close>, \<open>unsafe\<close>, \<open>comptime\<close>.\<close>

definition parse_keyword_block :: "px \<Rightarrow> (block \<Rightarrow> span \<Rightarrow> expr) \<Rightarrow> expr parse" where
  "parse_keyword_block self build = (and_then previous_span (\<lambda>start.
    and_then (parse_block self) (\<lambda>body.
    ret (build body (span_to start (blk_span body))))))"

definition parse_quote :: "px \<Rightarrow> expr parse" where
  "parse_quote self = (and_then previous_span (\<lambda>start.
    and_then (consume TkLeftBrace ''expected `{` after `quote`'') (\<lambda>_.
    and_then (matches TkMethods) (\<lambda>methods.
    and_then ((if methods then (and_then (parse_methods_block self) (\<lambda>m.
        ret (QuoteItem (ItemMethods m))))
else (and_then (px_expr self) (\<lambda>e.
        ret (QuoteExpr e))))) (\<lambda>body.
    and_then (consume TkRightBrace ''expected `}` after quote template'') (\<lambda>right.
    ret (EQuote body (span_to start (tok_span right)))))))))"

definition parse_return :: "px \<Rightarrow> expr parse" where
  "parse_return self = (and_then previous_span (\<lambda>start.
    and_then (check_any [TkRightBrace, TkSemicolon]) (\<lambda>bare.
    and_then ((if bare then ret None else (and_then (px_expr self) (\<lambda>e.
        ret (Some e))))) (\<lambda>val.
    ret (EReturn val (case val of Some e \<Rightarrow> span_to start (expr_span e) | None \<Rightarrow> span_to start start))))))"

definition parse_paren :: "px \<Rightarrow> expr parse" where
  "parse_paren self = (and_then previous_span (\<lambda>left.
    and_then (separated_until (px_fuel self) TkRightParen (px_expr self)) (\<lambda>items.
    and_then (consume TkRightParen ''expected `)` after expression'') (\<lambda>right.
    ret (if length items = 1 then hd items else ETuple items (span_to left (tok_span right)))))))"

definition parse_literal :: "(string \<Rightarrow> literal) \<Rightarrow> expr parse" where
  "parse_literal val = (and_then previous_token (\<lambda>t.
    ret (ELiteral (val (tok_lexeme t)) (tok_span t))))"

definition parse_primary :: "px \<Rightarrow> expr parse" where
  "parse_primary self = (and_then (check_any [TkPipe, TkOrOr]) (\<lambda>closure.
    if closure then parse_closure self else
alternatives
[(TkInteger, parse_literal (\<lambda>l. LitInt (parse_int_literal l))),
(TkFloat, parse_literal (\<lambda>l. LitFloat (float_value l))),
(TkString, parse_literal (\<lambda>l. LitString (decode_string l))),
(TkChar, parse_literal (\<lambda>l. LitChar (decode_char l))),
(TkTrue, parse_literal (\<lambda>_. LitBool True)),
(TkFalse, parse_literal (\<lambda>_. LitBool False)),
(TkMatch, parse_match_expr self),
(TkSelect, parse_select_expr self),
(TkYield, (and_then previous_span (\<lambda>start.
      and_then (px_expr self) (\<lambda>e.
      ret (EYield e (span_to start (expr_span e))))))),
(TkIdentifier, parse_identifier_expr self),
(TkIf, parse_if_expr self),
(TkWhile, parse_while_expr self),
(TkFor, parse_for_expr self),
(TkLoop, parse_keyword_block self ELoop),
(TkUnsafe, parse_keyword_block self EUnsafe),
(TkComptime, parse_keyword_block self (\<lambda>b. EComptime (EBlock b))),
(TkQuote, parse_quote self),
(TkHash, (and_then previous_span (\<lambda>start.
      and_then (parse_splice self start) (\<lambda>(inner, sp).
      ret (ESplice inner sp))))),
(TkReturn, parse_return self),
(TkBreak, (and_then previous_span (\<lambda>sp.
      ret (EBreak None sp)))),
(TkContinue, (and_then previous_span (\<lambda>sp.
      ret (EContinue sp)))),
(TkLeftParen, parse_paren self)]
(parse_block_or self (fail_here ''PACO-E0111'' ''expected expression''))))"

section \<open>Operators\<close>

definition parse_call :: "px \<Rightarrow> expr parse" where
  "parse_call self = (and_then (parse_primary self) (\<lambda>e.
    parse_postfix self e))"

definition parse_prefix :: "px \<Rightarrow> unary_op \<Rightarrow> expr parse" where
  "parse_prefix self op = (and_then previous_span (\<lambda>operator.
    and_then (px_unary self) (\<lambda>e.
    ret (EUnary op e (span_to operator (expr_span e))))))"

definition parse_unary :: "px \<Rightarrow> expr parse" where
  "parse_unary self = alternatives
    [(TkAmpersand, (and_then previous_span (\<lambda>operator.
      and_then (matches TkMut) (\<lambda>mutable.
      and_then (px_unary self) (\<lambda>e.
      ret (EBorrow mutable e (span_to operator (expr_span e)))))))),
     (TkBang, parse_prefix self OpNot),
     (TkTilde, parse_prefix self OpBitNot),
     (TkMinus, parse_prefix self OpNeg),
     (TkStar, parse_prefix self OpDeref),
     (TkSpawn, (and_then previous_span (\<lambda>start.
       and_then (parse_block_or self (px_unary self)) (\<lambda>e.
       ret (ESpawn e (span_to start (expr_span e)))))))]
    (parse_call self)"

definition parse_cast :: "px \<Rightarrow> expr parse" where
  "parse_cast self = (and_then (parse_unary self) (\<lambda>e.
    iterate (px_fuel self) (\<lambda>e. (and_then (matches TkAs) (\<lambda>as_ty.
      if as_ty then (and_then (px_ty self) (\<lambda>ty.
        ret (Inl (ECast e ty (span_to (expr_span e) (ty_span ty))))))
else ret (Inr e)))) e))"

definition left_associative :: "nat \<Rightarrow> expr parse \<Rightarrow> (token_kind \<times> binary_op) list \<Rightarrow> expr parse" where
  "left_associative fuel next operators = (and_then next (\<lambda>e.
    iterate fuel (\<lambda>e. (and_then peek_token (\<lambda>t.
      (case find (\<lambda>(k, _). tok_kind t = k) operators of
None \<Rightarrow> ret (Inr e)
| Some (_, op) \<Rightarrow> (and_then advance_token (\<lambda>_.
        and_then next (\<lambda>right.
        and_then previous_span (\<lambda>prev.
        ret (Inl (EBinary op e right (join_expr_span e right prev))))))))))) e))"

definition parse_multiplicative :: "px \<Rightarrow> expr parse" where
  "parse_multiplicative self = left_associative (px_fuel self) (parse_cast self)
     [(TkStar, OpMul), (TkSlash, OpDiv), (TkPercent, OpRem)]"

definition parse_additive :: "px \<Rightarrow> expr parse" where
  "parse_additive self = left_associative (px_fuel self) (parse_multiplicative self)
     [(TkPlus, OpAdd), (TkMinus, OpSub)]"

definition parse_shift :: "px \<Rightarrow> expr parse" where
  "parse_shift self = (and_then (parse_additive self) (\<lambda>e.
    iterate (px_fuel self) (\<lambda>e. (and_then peek_token (\<lambda>t.
      and_then peek_next_token (\<lambda>next.
      let adjacent = (case next of None \<Rightarrow> False
| Some n \<Rightarrow> tok_kind n = tok_kind t \<and> span_start (tok_span n) = span_end (tok_span t)) in
      if adjacent \<and> tok_kind t \<in> {TkLess, TkGreater} then (let op = (if tok_kind t = TkLess then OpShl else OpShr) in
        and_then advance_token (\<lambda>_.
        and_then advance_token (\<lambda>_.
        and_then (parse_additive self) (\<lambda>right.
        and_then previous_span (\<lambda>prev.
        ret (Inl (EBinary op e right (join_expr_span e right prev))))))))
else ret (Inr e))))) e))"

definition parse_bit_and :: "px \<Rightarrow> expr parse" where
  "parse_bit_and self = left_associative (px_fuel self) (parse_shift self) [(TkAmpersand, OpBitAnd)]"

definition parse_bit_xor :: "px \<Rightarrow> expr parse" where
  "parse_bit_xor self = left_associative (px_fuel self) (parse_bit_and self) [(TkCaret, OpBitXor)]"

definition parse_bit_or :: "px \<Rightarrow> expr parse" where
  "parse_bit_or self = left_associative (px_fuel self) (parse_bit_xor self) [(TkPipe, OpBitOr)]"

definition parse_comparison_rhs :: "px \<Rightarrow> expr \<Rightarrow> binary_op \<Rightarrow> expr parse" where
  "parse_comparison_rhs self e op = (and_then (parse_bit_or self) (\<lambda>right.
    and_then previous_span (\<lambda>prev.
    ret (EBinary op e right (join_expr_span e right prev)))))"

definition parse_comparison :: "px \<Rightarrow> expr parse" where
  "parse_comparison self = (and_then (parse_bit_or self) (\<lambda>e.
    alternatives
[(TkEqualEqual, parse_comparison_rhs self e OpEq),
(TkBangEqual, parse_comparison_rhs self e OpNe),
(TkLess, parse_comparison_rhs self e OpLt),
(TkLessEqual, parse_comparison_rhs self e OpLe),
(TkGreater, parse_comparison_rhs self e OpGt),
(TkGreaterEqual, parse_comparison_rhs self e OpGe)]
(ret e)))"

definition parse_logical_and :: "px \<Rightarrow> expr parse" where
  "parse_logical_and self = left_associative (px_fuel self) (parse_comparison self) [(TkAndAnd, OpAnd)]"

definition parse_logical_or :: "px \<Rightarrow> expr parse" where
  "parse_logical_or self = left_associative (px_fuel self) (parse_logical_and self) [(TkOrOr, OpOr)]"

definition parse_assignment :: "px \<Rightarrow> expr parse" where
  "parse_assignment self = (and_then (parse_logical_or self) (\<lambda>e.
    and_then (matches TkEqual) (\<lambda>equal.
    if equal then (and_then previous_span (\<lambda>operator.
      and_then (px_expr self) (\<lambda>val.
      ret (EAssign e val (join_expr_span e val operator)))))
else ret e)))"

definition parse_expr :: "px \<Rightarrow> expr parse" where
  "parse_expr self = parse_assignment self"

section \<open>Tying the recursion\<close>

definition no_fuel :: "'a parse" where
  "no_fuel s = (PNoFuel, s)"

primrec parsers :: "nat \<Rightarrow> px" where
  "parsers 0 = \<lparr>px_fuel = 1, px_expr = no_fuel, px_additive = no_fuel, px_unary = no_fuel,
     px_primary = no_fuel, px_if = no_fuel, px_ty = no_fuel, px_pattern = no_fuel,
     px_binding = no_fuel, px_atom = no_fuel, px_attr = no_fuel\<rparr>"
| "parsers (Suc n) = (let self = parsers n in
     \<lparr>px_fuel = n + 2, px_expr = parse_expr self, px_additive = parse_additive self,
      px_unary = parse_unary self, px_primary = parse_primary self, px_if = parse_if_expr self,
      px_ty = parse_ty self, px_pattern = parse_pattern self, px_binding = parse_binding_pattern self,
      px_atom = parse_pattern_atom self, px_attr = parse_one_attribute self\<rparr>)"

lemma px_fuel_parsers [simp]: "px_fuel (parsers n) = Suc n"
  by (cases n) (simp_all add: Let_def)

end
