(* ===== verification/ParseItem.thy ===== *)
theory ParseItem
  imports ParseExpr
begin

text \<open>
  The items of \<open>compiler/paco-syntax/src/parse.rs\<close>: modules, \<open>use\<close>, constants, functions, structs,
  enums, traits, \<open>methods\<close> and \<open>extern\<close> blocks, with the recovery that skips to the next item.
\<close>

section \<open>Members\<close>

definition parse_field_decl :: "px \<Rightarrow> bool \<Rightarrow> attribute list \<Rightarrow> expr field_decl parse" where
  "parse_field_decl self is_pub attrs = (and_then peek_span (\<lambda>here.
    and_then (consume_identifier ''expected field name'') (\<lambda>name.
    and_then (consume TkColon ''expected `:` after field name'') (\<lambda>_.
    and_then (parse_existential_ty self) (\<lambda>ty.
    and_then (span_from (span_start here)) (\<lambda>sp.
    ret (FieldDecl name ty is_pub attrs sp)))))))"

definition parse_enum_variant :: "px \<Rightarrow> attribute list \<Rightarrow> expr enum_variant parse" where
  "parse_enum_variant self attrs = (and_then peek_span (\<lambda>here.
    and_then (consume_identifier ''expected enum variant name'') (\<lambda>name.
    and_then (alternatives
[(TkLeftParen, (and_then (separated_unless (px_fuel self) TkRightParen (px_ty self)) (\<lambda>tys.
        and_then (consume TkRightParen ''expected `)` after enum variant fields'') (\<lambda>_.
        ret (VariantTuple tys))))),
(TkLeftBrace, (and_then (separated_unless (px_fuel self) TkRightBrace (parse_field_decl self False [])) (\<lambda>fields.
        and_then (consume TkRightBrace ''expected `}` after enum variant fields'') (\<lambda>_.
        ret (VariantStruct fields)))))]
(ret VariantUnit)) (\<lambda>fields.
    and_then (span_from (span_start here)) (\<lambda>sp.
    ret (EnumVariant name fields attrs sp))))))"

definition parse_assoc_type_decl :: "px \<Rightarrow> expr assoc_type_decl parse" where
  "parse_assoc_type_decl self = (and_then previous_span (\<lambda>start.
    and_then (consume_identifier ''expected associated type name'') (\<lambda>name.
    and_then (optional TkEqual (px_ty self)) (\<lambda>default.
    and_then expect_semicolon (\<lambda>_.
    and_then (span_from (span_start start)) (\<lambda>sp.
    ret (AssocTypeDecl name default sp)))))))"

section \<open>Structs and enums\<close>

record struct_state =
  st_fields :: "expr field_decl list"
  st_methods :: "(expr, block) fn_decl list"
  st_consts :: "expr const_decl list"
  st_assoc_types :: "expr assoc_type_decl list"

definition parse_struct_member :: "px \<Rightarrow> struct_state \<Rightarrow> struct_state parse" where
  "parse_struct_member self st = (and_then (parse_outer_attributes self) (\<lambda>member_attrs.
    and_then (matches TkPub) (\<lambda>member_is_pub.
    and_then (matches TkType) (\<lambda>is_type.
    if is_type then (and_then (parse_assoc_type_decl self) (\<lambda>t.
      ret (st\<lparr>st_assoc_types := st_assoc_types st @ [t]\<rparr>)))
else (and_then (check_any [TkComptime, TkUnsafe, TkIter, TkExtern]) (\<lambda>modified.
      if modified then (and_then (parse_modified_function self ''expected `fn` after comptime/unsafe/iter/extern modifiers''
member_is_pub member_attrs) (\<lambda>decl.
        and_then (matches TkComma) (\<lambda>_.
        ret (st\<lparr>st_methods := st_methods st @ [decl]\<rparr>))))
else alternatives
[(TkFn, (and_then (parse_function_decl self member_is_pub False False None) (\<lambda>decl.
        and_then (matches TkComma) (\<lambda>_.
        ret (st\<lparr>st_methods := st_methods st @ [with_attrs member_attrs False decl]\<rparr>))))),
(TkConst, (and_then (parse_const_decl self member_is_pub) (\<lambda>c.
        and_then (matches TkComma) (\<lambda>_.
        ret (st\<lparr>st_consts := st_consts st @ [c]\<rparr>)))))]
(and_then (parse_field_decl self member_is_pub member_attrs) (\<lambda>field.
        and_then (expect_comma False ''expected `,` after a struct field'') (\<lambda>_.
        ret (st\<lparr>st_fields := st_fields st @ [field]\<rparr>))))))))))"

definition parse_struct_decl :: "px \<Rightarrow> bool \<Rightarrow> attribute list \<Rightarrow> (expr, block) struct_decl parse" where
  "parse_struct_decl self is_pub attrs = (and_then previous_span (\<lambda>start.
    and_then (consume_identifier ''expected struct name'') (\<lambda>name.
    and_then (parse_generic_params self) (\<lambda>generics.
    and_then (parse_where_clause self generics) (\<lambda>generics.
    and_then (consume TkLeftBrace ''expected `{` before struct body'') (\<lambda>_.
    and_then (members (px_fuel self) (parse_struct_member self)
\<lparr>st_fields = [], st_methods = [], st_consts = [], st_assoc_types = []\<rparr>) (\<lambda>st.
    and_then (consume TkRightBrace ''expected `}` after struct body'') (\<lambda>right.
    ret (StructDecl name generics (st_fields st) (st_methods st) (st_consts st) (st_assoc_types st) is_pub attrs
(span_new (span_file_id (tok_span right)) (span_start start) (span_end (tok_span right))))))))))))"

record enum_state =
  en_variants :: "expr enum_variant list"
  en_methods :: "(expr, block) fn_decl list"
  en_consts :: "expr const_decl list"

definition parse_enum_member :: "px \<Rightarrow> enum_state \<Rightarrow> enum_state parse" where
  "parse_enum_member self st = (and_then (parse_outer_attributes self) (\<lambda>member_attrs.
    and_then (matches TkPub) (\<lambda>member_is_pub.
    and_then (check_any [TkComptime, TkUnsafe, TkIter, TkExtern]) (\<lambda>modified.
    if modified then (and_then (parse_modified_function self ''expected `fn` after comptime/unsafe/iter/extern modifiers''
member_is_pub member_attrs) (\<lambda>decl.
      and_then (matches TkComma) (\<lambda>_.
      ret (st\<lparr>en_methods := en_methods st @ [decl]\<rparr>))))
else alternatives
[(TkFn, (and_then (parse_function_decl self member_is_pub False False None) (\<lambda>decl.
      and_then (matches TkComma) (\<lambda>_.
      ret (st\<lparr>en_methods := en_methods st @ [with_attrs member_attrs False decl]\<rparr>))))),
(TkConst, (and_then (parse_const_decl self member_is_pub) (\<lambda>c.
      and_then (matches TkComma) (\<lambda>_.
      ret (st\<lparr>en_consts := en_consts st @ [c]\<rparr>)))))]
(and_then ((if member_is_pub
then error_here ''PACO-E0110'' ''`pub` is not allowed directly before an enum variant'' else ret ())) (\<lambda>_.
      and_then (parse_enum_variant self member_attrs) (\<lambda>variant.
      and_then (expect_comma False ''expected `,` after an enum variant'') (\<lambda>_.
      ret (st\<lparr>en_variants := en_variants st @ [variant]\<rparr>)))))))))"

definition parse_enum_decl :: "px \<Rightarrow> bool \<Rightarrow> attribute list \<Rightarrow> (expr, block) enum_decl parse" where
  "parse_enum_decl self is_pub attrs = (and_then previous_span (\<lambda>start.
    and_then (consume_identifier ''expected enum name'') (\<lambda>name.
    and_then (parse_generic_params self) (\<lambda>generics.
    and_then (parse_where_clause self generics) (\<lambda>generics.
    and_then (consume TkLeftBrace ''expected `{` before enum body'') (\<lambda>_.
    and_then (members (px_fuel self) (parse_enum_member self) \<lparr>en_variants = [], en_methods = [], en_consts = []\<rparr>) (\<lambda>st.
    and_then (consume TkRightBrace ''expected `}` after enum body'') (\<lambda>right.
    ret (EnumDecl name generics (en_variants st) (en_methods st) (en_consts st) is_pub attrs
(span_new (span_file_id (tok_span right)) (span_start start) (span_end (tok_span right))))))))))))"

section \<open>Extern blocks and traits\<close>

definition parse_extern_fn_decl :: "px \<Rightarrow> attribute list \<Rightarrow> (expr, block) fn_signature parse" where
  "parse_extern_fn_decl self attrs = (and_then previous_span (\<lambda>start.
    and_then (consume_identifier ''expected function name'') (\<lambda>name.
    and_then (parse_generic_params self) (\<lambda>generics.
    and_then (parse_parameters self) (\<lambda>params.
    and_then (optional TkArrow (px_ty self)) (\<lambda>return_ty.
    and_then (consume TkSemicolon ''expected `;` after an extern function signature (no body allowed)'') (\<lambda>_.
    and_then (span_from (span_start start)) (\<lambda>sp.
    ret (FnSignature name generics params return_ty None attrs sp)))))))))"

definition parse_extern_block :: "px \<Rightarrow> string \<Rightarrow> attribute list \<Rightarrow> (expr, block) extern_block parse" where
  "parse_extern_block self abi attrs = (and_then previous_span (\<lambda>start.
    and_then (consume TkLeftBrace ''expected `{` after extern ABI'') (\<lambda>_.
    and_then (members (px_fuel self) (\<lambda>functions. (and_then (parse_outer_attributes self) (\<lambda>fn_attrs.
        and_then (consume TkFn ''expected a function declaration in an extern block'') (\<lambda>_.
        and_then (parse_extern_fn_decl self fn_attrs) (\<lambda>signature.
        ret (functions @ [signature])))))) []) (\<lambda>functions.
    and_then (consume TkRightBrace ''expected `}` after extern block'') (\<lambda>right.
    ret (ExternBlock abi functions attrs
(span_new (span_file_id (tok_span right)) (span_start start) (span_end (tok_span right)))))))))"

definition parse_trait_fn_decl :: "px \<Rightarrow> (expr, block) fn_signature parse" where
  "parse_trait_fn_decl self = (and_then previous_span (\<lambda>start.
    and_then (consume_identifier ''expected function name'') (\<lambda>name.
    and_then (parse_generic_params self) (\<lambda>generics.
    and_then (parse_parameters self) (\<lambda>params.
    and_then (optional TkArrow (parse_existential_ty self)) (\<lambda>return_ty.
    and_then (parse_where_clause self generics) (\<lambda>generics.
    and_then (matches TkSemicolon) (\<lambda>semi.
    and_then ((if semi then ret None else (and_then (parse_block self) (\<lambda>b.
        ret (Some b))))) (\<lambda>body.
    and_then (span_from (span_start start)) (\<lambda>sp.
    ret (FnSignature name generics params return_ty body [] sp)))))))))))"

record trait_state =
  tr_methods :: "(expr, block) fn_signature list"
  tr_consts :: "expr const_decl list"
  tr_assoc_types :: "expr assoc_type_decl list"

definition parse_trait_member :: "px \<Rightarrow> trait_state \<Rightarrow> trait_state parse" where
  "parse_trait_member self st = alternatives
    [(TkFn, (and_then (parse_trait_fn_decl self) (\<lambda>m.
      ret (st\<lparr>tr_methods := tr_methods st @ [m]\<rparr>)))),
     (TkType, (and_then (parse_assoc_type_decl self) (\<lambda>t.
       ret (st\<lparr>tr_assoc_types := tr_assoc_types st @ [t]\<rparr>)))),
     (TkConst, (and_then (parse_const_decl self False) (\<lambda>c.
       ret (st\<lparr>tr_consts := tr_consts st @ [c]\<rparr>))))]
    (and_then (error_here ''PACO-E0110'' ''expected item declaration'') (\<lambda>_.
      and_then (synchronize_trait_member (px_fuel self)) (\<lambda>_.
      ret st)))"

definition parse_trait_decl :: "px \<Rightarrow> bool \<Rightarrow> attribute list \<Rightarrow> (expr, block) trait_decl parse" where
  "parse_trait_decl self is_pub attrs = (and_then previous_span (\<lambda>start.
    and_then (consume_identifier ''expected trait name'') (\<lambda>name.
    and_then (parse_generic_params self) (\<lambda>generics.
    and_then (parse_where_clause self generics) (\<lambda>generics.
    and_then (consume TkLeftBrace ''expected `{` before trait body'') (\<lambda>_.
    and_then (members (px_fuel self) (parse_trait_member self) \<lparr>tr_methods = [], tr_consts = [], tr_assoc_types = []\<rparr>) (\<lambda>st.
    and_then (consume TkRightBrace ''expected `}` after trait body'') (\<lambda>right.
    ret (TraitDecl name generics (tr_methods st) (tr_consts st) (tr_assoc_types st) is_pub attrs
(span_new (span_file_id (tok_span right)) (span_start start) (span_end (tok_span right))))))))))))"

section \<open>Modules\<close>

definition parse_module_path :: "px \<Rightarrow> (string list \<times> use_path_kind) parse" where
  "parse_module_path self = (and_then (consume_identifier ''expected module path'') (\<lambda>first.
    and_then (check TkColonColon) (\<lambda>colons.
    if colons then (and_then (continued (px_fuel self) TkColonColon (consume_identifier ''expected path segment after `::`'') [first]) (\<lambda>path.
      ret (path, UsePlain)))
else (and_then (check_any [TkDot, TkSlash]) (\<lambda>domain.
      if domain then (and_then (continued (px_fuel self) TkDot (consume_identifier ''expected path segment after `.`'') [first]) (\<lambda>segments.
        and_then (consume TkSlash ''expected `/` after domain segments'') (\<lambda>_.
        and_then (consume_identifier ''expected path segment after `/`'') (\<lambda>segment.
        and_then (continued (px_fuel self) TkSlash (consume_identifier ''expected path segment after `/`'')
(segments @ [segment])) (\<lambda>segments.
        ret (segments, UseDomain))))))
else ret ([first], UsePlain))))))"

definition parse_use_decl :: "px \<Rightarrow> use_decl parse" where
  "parse_use_decl self = (and_then previous_span (\<lambda>start.
    and_then (parse_module_path self) (\<lambda>(path, kind).
    and_then (optional TkAs (consume_identifier ''expected alias name after `as`'')) (\<lambda>alias_name.
    and_then previous_span (\<lambda>last.
    and_then expect_semicolon (\<lambda>_.
    and_then previous_span (\<lambda>prev.
    ret (UseDecl path alias_name kind (span_new (span_file_id prev) (span_start start) (span_end last))))))))))"

definition parse_module_decl :: "module_decl option parse" where
  "parse_module_decl = optional TkModule ((and_then previous_span (\<lambda>start.
    and_then (consume_identifier ''expected module name'') (\<lambda>name.
    and_then expect_semicolon (\<lambda>_.
    and_then (span_from (span_start start)) (\<lambda>sp.
    ret (ModuleDecl name sp)))))))"

type_synonym items = "(expr, block) item list"

definition parse_modified_item :: "px \<Rightarrow> bool \<Rightarrow> attribute list \<Rightarrow> items \<Rightarrow> items parse" where
  "parse_modified_item self is_pub attrs items = (and_then parse_function_modifiers (\<lambda>(is_comptime, is_unsafe, is_iter, extern_abi).
    and_then (matches TkFn) (\<lambda>function.
    if function then (and_then (parse_function_decl self is_pub is_unsafe is_iter extern_abi) (\<lambda>decl.
      ret (items @ [ItemFn (with_attrs attrs is_comptime decl)])))
else (case extern_abi of
Some abi \<Rightarrow> (and_then (parse_extern_block self abi attrs) (\<lambda>b.
      ret (items @ [ItemExtern b])))
| None \<Rightarrow> (and_then (error_here ''PACO-E0110'' ''expected `fn` after `unsafe`'') (\<lambda>_.
      and_then (synchronize_item (px_fuel self)) (\<lambda>_.
      ret items)))))))"

definition parse_item :: "px \<Rightarrow> items \<Rightarrow> items parse" where
  "parse_item self items = (and_then (parse_outer_attributes self) (\<lambda>attrs.
    and_then (matches TkPub) (\<lambda>is_pub.
    and_then (check_any [TkComptime, TkUnsafe, TkIter, TkExtern]) (\<lambda>modified.
    if modified then parse_modified_item self is_pub attrs items
else alternatives
[(TkFn, (and_then (parse_function_decl self is_pub False False None) (\<lambda>decl.
      ret (items @ [ItemFn (with_attrs attrs False decl)])))),
(TkStruct, (and_then (parse_struct_decl self is_pub attrs) (\<lambda>decl.
      ret (items @ [ItemStruct decl])))),
(TkEnum, (and_then (parse_enum_decl self is_pub attrs) (\<lambda>decl.
      ret (items @ [ItemEnum decl])))),
(TkMethods, (and_then (parse_methods_block self) (\<lambda>m.
      ret (items @ [ItemMethods m])))),
(TkUse, (and_then (parse_use_decl self) (\<lambda>u.
      ret (items @ [ItemUse u])))),
(TkConst, (and_then (parse_const_decl self is_pub) (\<lambda>c.
      ret (items @ [ItemConst c])))),
(TkTrait, (and_then (parse_trait_decl self is_pub attrs) (\<lambda>decl.
      ret (items @ [ItemTrait decl]))))]
(and_then (error_here ''PACO-E0110'' ''expected item declaration'') (\<lambda>_.
      and_then (synchronize_item (px_fuel self)) (\<lambda>_.
      ret items)))))))"

definition parse_items :: "px \<Rightarrow> items parse" where
  "parse_items self = iterate (px_fuel self) (\<lambda>items. (and_then (check TkEof) (\<lambda>stop.
    if stop then ret (Inr items) else (and_then (check TkModule) (\<lambda>misplaced.
      if misplaced then (and_then (error_here ''PACO-E0110'' ''`module` declaration must be the first thing in the file'') (\<lambda>_.
        and_then advance_token (\<lambda>_.
        ret (Inl items))))
else (and_then (parse_item self items) (\<lambda>items.
        ret (Inl items)))))))) []"

definition parse_whole_module :: "px \<Rightarrow> module parse" where
  "parse_whole_module self = (and_then peek_span (\<lambda>here.
    and_then parse_module_decl (\<lambda>name.
    and_then (parse_items self) (\<lambda>items.
    and_then peek_span (\<lambda>last.
    ret (Module name items (span_new (span_file_id last) (span_start here) (span_end last))))))))"

definition parser_new :: "token list \<Rightarrow> reporter \<Rightarrow> parser" where
  "parser_new tokens reporter = \<lparr>ps_tokens = tokens, ps_reporter = reporter, ps_current = 0,
     ps_allow_struct_literals = True, ps_allow_existentials = False\<rparr>"

text \<open>\<open>parse_module\<close>, with recursion bounded by \<open>n\<close>; the reporter is borrowed mutably and so returned.\<close>

definition parse_module_with :: "nat \<Rightarrow> token list \<Rightarrow> reporter \<Rightarrow> module outcome \<times> reporter" where
  "parse_module_with n tokens reporter =
    (case parse_whole_module (parsers n) (parser_new tokens reporter) of (r, s) \<Rightarrow> (r, ps_reporter s))"

definition parse_module :: "token list \<Rightarrow> reporter \<Rightarrow> module outcome \<times> reporter" where
  "parse_module tokens reporter = parse_module_with (length tokens) tokens reporter"

end
