(* ===== verification/ParseTotal.thy ===== *)
theory ParseTotal
  imports ParseItem
begin

text \<open>
  Every production of the parser keeps the contract of \<open>ParserState\<close>.  The locale \<open>parser_level\<close> is the
  interface between a production and the recursive calls it makes: the calls keep the contract on
  what is left after at least one token.  Its lemmas follow the grammar; the interpretation at the
  end discharges the interface for \<open>parsers\<close> at every depth, by induction on the depth.
\<close>

section \<open>Recursive calls\<close>

definition strict_below :: "nat \<Rightarrow> 'a parse \<Rightarrow> 'a parse \<Rightarrow> bool" where
  "strict_below n m m' \<longleftrightarrow> (\<forall>s. well_formed s \<longrightarrow> length (ps_tokens s) \<le> n + ps_current s \<longrightarrow>
     m' s = m s \<and> allowed (ps_current s) (\<lambda>_. UNIV) s (m s))"

lemma strict_0: "strict_below 0 m m'"
  by (simp add: strict_below_def well_formed_def)

lemma strict_Suc:
  assumes "\<And>p. runs n False p {} (\<lambda>_. UNIV) m m'"
  shows "strict_below (Suc n) m m'"
  unfolding strict_below_def
proof (intro allI impI)
  fix s assume "well_formed s" "length (ps_tokens s) \<le> Suc n + ps_current s"
  then show "m' s = m s \<and> allowed (ps_current s) (\<lambda>_. UNIV) s (m s)"
    using assms [of "ps_current s"] by (simp add: runs_def)
qed

lemma strict_yields:
  assumes "strict_below n m m'" "K = UNIV \<or> d"
  shows "yields n d p K m m' (\<lambda>_. UNIV)"
  unfolding yields_def
proof (rule runsI)
  fix s assume s: "well_formed s" "p \<le> ps_current s" "ps_current s = p \<Longrightarrow> current_kind s \<notin> K"
    "length (ps_tokens s) + (if d then 1 else 0) \<le> n + p + 1"
  then have "length (ps_tokens s) \<le> n + ps_current s"
    using assms(2) by (cases "ps_current s = p") auto
  then have "m' s = m s" "allowed (ps_current s) (\<lambda>_. UNIV) s (m s)"
    using assms(1) s(1) by (auto simp: strict_below_def)
  then show "m' s = m s \<and> allowed p (\<lambda>_. UNIV) s (m s)"
    using s(2) by (auto simp: allowed_def goes_on_def split: prod.splits outcome.splits)
qed

text \<open>An \<open>else if\<close> recurses after two tokens, and its condition recurses at once.\<close>

definition strict_within :: "nat \<Rightarrow> 'a parse \<Rightarrow> 'a parse \<Rightarrow> bool" where
  "strict_within n m m' \<longleftrightarrow> (\<forall>s. well_formed s \<longrightarrow> length (ps_tokens s) + 1 \<le> n + ps_current s \<longrightarrow>
     m' s = m s \<and> allowed (ps_current s) (\<lambda>_. UNIV) s (m s))"

lemma within_0: "strict_within 0 m m'"
  by (simp add: strict_within_def well_formed_def)

lemma within_Suc:
  assumes "\<And>p. runs n True p {} (\<lambda>_. UNIV) m m'"
  shows "strict_within (Suc n) m m'"
  unfolding strict_within_def
proof (intro allI impI)
  fix s assume "well_formed s" "length (ps_tokens s) + 1 \<le> Suc n + ps_current s"
  then show "m' s = m s \<and> allowed (ps_current s) (\<lambda>_. UNIV) s (m s)"
    using assms [of "ps_current s"] by (simp add: runs_def)
qed

lemma within_yields:
  assumes "strict_within n m m'" "K = UNIV \<and> d"
  shows "yields n d p K m m' (\<lambda>_. UNIV)"
  unfolding yields_def
proof (rule runsI)
  fix s assume s: "well_formed s" "p \<le> ps_current s" "ps_current s = p \<Longrightarrow> current_kind s \<notin> K"
    "length (ps_tokens s) + (if d then 1 else 0) \<le> n + p + 1"
  then have "length (ps_tokens s) + 1 \<le> n + ps_current s"
    using assms(2) by (cases "ps_current s = p") auto
  then have "m' s = m s" "allowed (ps_current s) (\<lambda>_. UNIV) s (m s)"
    using assms(1) s(1) by (auto simp: strict_within_def)
  then show "m' s = m s \<and> allowed p (\<lambda>_. UNIV) s (m s)"
    using s(2) by (auto simp: allowed_def goes_on_def split: prod.splits outcome.splits)
qed

text \<open>A production that is entered after a token may count its progress from where it starts.\<close>

lemma yields_anew:
  assumes "\<And>q. runs n True q {} (\<lambda>_. UNIV) m m'" "K = UNIV \<or> d"
  shows "yields n d p K m m' (\<lambda>_. UNIV)"
proof (rule strict_yields [OF _ assms(2)])
  show "strict_below n m m'"
    unfolding strict_below_def
  proof (intro allI impI)
    fix s assume "well_formed s" "length (ps_tokens s) \<le> n + ps_current s"
    then show "m' s = m s \<and> allowed (ps_current s) (\<lambda>_. UNIV) s (m s)"
      using assms(1) [of "ps_current s"] by (simp add: runs_def)
  qed
qed

lemma runs_inside:
  assumes "K = UNIV \<or> d" "runs n True p K Q m m'" "runs n d p UNIV Q m m'"
  shows "runs n d p K Q m m'"
  using assms by auto

lemma yields_inside:
  assumes "K = UNIV \<or> d" "runs n True p K Q m m'" "runs n d p UNIV Q m m'"
  shows "yields n d p K m m' Q"
  using assms by (auto simp: yields_def)

lemma runs_ty [runs_rules]:
  assumes "\<And>x1 x2. ty = TyPath x1 x2 \<Longrightarrow> runs n d p K Q (f1 x1 x2) (g1 x1 x2)"
    "\<And>x1 x2 x3. ty = TyGeneric x1 x2 x3 \<Longrightarrow> runs n d p K Q (f2 x1 x2 x3) (g2 x1 x2 x3)"
    "\<And>x1 x2. ty = TyTuple x1 x2 \<Longrightarrow> runs n d p K Q (f3 x1 x2) (g3 x1 x2)"
    "\<And>x1 x2. ty = TySlice x1 x2 \<Longrightarrow> runs n d p K Q (f4 x1 x2) (g4 x1 x2)"
    "\<And>x1 x2 x3 x4. ty = TyBorrow x1 x2 x3 x4 \<Longrightarrow> runs n d p K Q (f5 x1 x2 x3 x4) (g5 x1 x2 x3 x4)"
    "\<And>x1 x2 x3. ty = TyRawPointer x1 x2 x3 \<Longrightarrow> runs n d p K Q (f6 x1 x2 x3) (g6 x1 x2 x3)"
    "\<And>x1 x2. ty = TyDyn x1 x2 \<Longrightarrow> runs n d p K Q (f7 x1 x2) (g7 x1 x2)"
    "\<And>x1 x2 x3 x4 x5. ty = TyFn x1 x2 x3 x4 x5 \<Longrightarrow> runs n d p K Q (f8 x1 x2 x3 x4 x5) (g8 x1 x2 x3 x4 x5)"
    "\<And>x1. ty = TyInfer x1 \<Longrightarrow> runs n d p K Q (f9 x1) (g9 x1)"
    "\<And>x1. ty = TyNever x1 \<Longrightarrow> runs n d p K Q (f10 x1) (g10 x1)"
    "\<And>x1 x2. ty = TyConst x1 x2 \<Longrightarrow> runs n d p K Q (f11 x1 x2) (g11 x1 x2)"
    "\<And>x1. ty = TyDynDim x1 \<Longrightarrow> runs n d p K Q (f12 x1) (g12 x1)"
    "\<And>x1 x2. ty = TyExpand x1 x2 \<Longrightarrow> runs n d p K Q (f13 x1 x2) (g13 x1 x2)"
    "\<And>x1 x2. ty = TyExistential x1 x2 \<Longrightarrow> runs n d p K Q (f14 x1 x2) (g14 x1 x2)"
    "\<And>x1 x2. ty = TySplice x1 x2 \<Longrightarrow> runs n d p K Q (f15 x1 x2) (g15 x1 x2)"
  shows "runs n d p K Q (case_ty f1 f2 f3 f4 f5 f6 f7 f8 f9 f10 f11 f12 f13 f14 f15 ty)
    (case_ty g1 g2 g3 g4 g5 g6 g7 g8 g9 g10 g11 g12 g13 g14 g15 ty)"
  using assms by (cases ty) simp_all

lemma yields_remaining_tokens [yields_rules]:
  shows "yields n d p K remaining_tokens remaining_tokens (\<lambda>_. K)"
  by (rule yieldsI) (auto simp: remaining_tokens_def look_defs)

lemma yields_starts_generic [yields_rules]:
  shows "yields n d p K starts_generic_type_application starts_generic_type_application (\<lambda>_. K)"
  unfolding starts_generic_type_application_def
  by (rule yields_keep, (rule runs_rules | rule yields_rules | simp)+)

lemma yields_parse_segment [yields_rules]:
  shows "yields n d p K (parse_segment c) (parse_segment c) (\<lambda>r. if r = None then K else UNIV)"
proof (rule yieldsI)
  fix s assume s: "well_formed s" "p \<le> ps_current s" "ps_current s = p \<Longrightarrow> current_kind s \<notin> K"
  let ?ahead = "and_then advance_token (\<lambda>_. and_then (consume_identifier ''expected path segment'') (\<lambda>segment.
     and_then starts_generic_type_application (\<lambda>generic. ret (segment, generic))))"
  have "runs (length (ps_tokens s)) False p K (\<lambda>_. UNIV) ?ahead ?ahead"
    by (rule runs_rules | rule yields_rules | simp)+
  then have "allowed p (\<lambda>_. UNIV) s (?ahead s)" using s by (auto simp: runs_def)
  moreover have "parse_segment c s = (case ?ahead s of
      (POk (segment, generic), t) \<Rightarrow> if c \<and> \<not> generic then (POk None, t\<lparr>ps_current := ps_current s\<rparr>)
        else (POk (Some segment), t)
    | (PErr, t) \<Rightarrow> (PErr, t) | (PPanic, t) \<Rightarrow> (PPanic, t) | (PNoFuel, t) \<Rightarrow> (PNoFuel, t))"
    by (simp add: parse_segment_def and_then_def ret_def Let_def split: prod.splits outcome.splits)
  ultimately show "parse_segment c s = parse_segment c s \<and>
      allowed p (\<lambda>r. if r = None then K else UNIV) s (parse_segment c s)"
    using s by (auto simp: allowed_def goes_on_def well_formed_def current_kind_def
        split: prod.splits outcome.splits)
qed

section \<open>The productions\<close>

locale parser_level =
  fixes n :: nat and self self' :: px
  assumes fuel: "Suc n \<le> px_fuel self" "px_fuel self \<le> px_fuel self'"
    and expr_strict: "strict_below n (px_expr self) (px_expr self')"
    and additive_strict: "strict_below n (px_additive self) (px_additive self')"
    and unary_strict: "strict_below n (px_unary self) (px_unary self')"
    and primary_strict: "strict_below n (px_primary self) (px_primary self')"
    and if_strict: "strict_within n (px_if self) (px_if self')"
    and ty_strict: "strict_below n (px_ty self) (px_ty self')"
    and pattern_strict: "strict_below n (px_pattern self) (px_pattern self')"
    and binding_strict: "strict_below n (px_binding self) (px_binding self')"
    and atom_strict: "strict_below n (px_atom self) (px_atom self')"
    and attr_strict: "strict_below n (px_attr self) (px_attr self')"
begin

lemmas recursive [yields_rules] = expr_strict [THEN strict_yields] additive_strict [THEN strict_yields]
  unary_strict [THEN strict_yields] primary_strict [THEN strict_yields] if_strict [THEN within_yields]
  ty_strict [THEN strict_yields] pattern_strict [THEN strict_yields] binding_strict [THEN strict_yields]
  atom_strict [THEN strict_yields] attr_strict [THEN strict_yields]

subsection \<open>Attributes, types and parameters\<close>

lemma yields_literal_token [yields_rules]:
  shows "yields n d p K literal_token literal_token (\<lambda>_. UNIV)"
  unfolding literal_token_def alternatives.simps yields_def
  by (rule runs_rules | rule yields_rules | rule runs_tail | rule yields_keep | simp add: fuel)+

lemma yields_parse_attribute_arg [yields_rules]:
  assumes "K = UNIV \<or> d"
  shows "yields n d p K (parse_attribute_arg self) (parse_attribute_arg self') (\<lambda>_. UNIV)"
  unfolding parse_attribute_arg_def alternatives.simps
  by (rule yields_inside [OF assms], (rule runs_rules | rule yields_rules | rule runs_tail | rule yields_keep | simp add: fuel)+)

lemma yields_parse_attribute_args [yields_rules]:
  shows "yields n d p K (parse_attribute_args self) (parse_attribute_args self') (\<lambda>_. K)"
  unfolding parse_attribute_args_def alternatives.simps
  by (rule yields_keep, (rule runs_rules | rule yields_rules | rule runs_tail | rule yields_keep | simp add: fuel)+)

lemma yields_parse_one_attribute [yields_rules]:
  shows "yields n d p K (parse_one_attribute self) (parse_one_attribute self') (\<lambda>_. UNIV)"
  unfolding parse_one_attribute_def alternatives.simps yields_def
  by (rule runs_rules | rule yields_rules | rule runs_tail | rule yields_keep | simp add: fuel)+

lemma yields_parse_outer_attributes [yields_rules]:
  shows "yields n d p K (parse_outer_attributes self) (parse_outer_attributes self') (\<lambda>_. K)"
  unfolding parse_outer_attributes_def alternatives.simps
  by (rule yields_keep, (rule runs_rules | rule yields_rules | rule runs_tail | rule yields_keep | simp add: fuel)+)

lemma yields_parse_path [yields_rules]:
  shows "yields n d p K (parse_path self) (parse_path self') (\<lambda>_. UNIV)"
  unfolding parse_path_def alternatives.simps yields_def
  by (rule runs_rules | rule yields_rules | rule runs_tail | rule yields_keep | simp add: fuel)+

lemma yields_parse_splice [yields_rules]:
  shows "yields n d p K (parse_splice self sp) (parse_splice self' sp) (\<lambda>_. UNIV)"
  unfolding parse_splice_def alternatives.simps yields_def
  by (rule runs_rules | rule yields_rules | rule runs_tail | rule yields_keep | simp add: fuel)+

lemma yields_parse_extern_abi [yields_rules]:
  shows "yields n d p K parse_extern_abi parse_extern_abi (\<lambda>r. if r = None then insert TkExtern K else UNIV)"
  unfolding parse_extern_abi_def by (rule runs_rules | rule yields_rules | rule runs_tail | rule yields_keep | simp add: fuel)+

lemma yields_starts_const_arg [yields_rules]:
  shows "yields n d p K starts_const_arg starts_const_arg (\<lambda>_. K)"
  unfolding starts_const_arg_def alternatives.simps
  by (rule yields_keep, (rule runs_rules | rule yields_rules | rule runs_tail | rule yields_keep | simp add: fuel)+)

lemma yields_parse_generic_arg [yields_rules]:
  assumes "K = UNIV \<or> d"
  shows "yields n d p K (parse_generic_arg self) (parse_generic_arg self') (\<lambda>_. UNIV)"
  unfolding parse_generic_arg_def alternatives.simps
  by (rule yields_inside [OF assms], (rule runs_rules | rule yields_rules | rule runs_tail | rule yields_keep | simp add: fuel)+)

lemma yields_parse_generic_list [yields_rules]:
  assumes "K = UNIV \<or> d"
  shows "yields n d p K (parse_generic_list self) (parse_generic_list self') (\<lambda>_. UNIV)"
  unfolding parse_generic_list_def alternatives.simps
  by (rule yields_inside [OF assms], (rule runs_rules | rule yields_rules | rule runs_tail | rule yields_keep | simp add: fuel)+)

lemma yields_parse_generic_type_args [yields_rules]:
  shows "yields n d p K (parse_generic_type_args self) (parse_generic_type_args self') (\<lambda>_. UNIV)"
  unfolding parse_generic_type_args_def alternatives.simps yields_def
  by (rule runs_rules | rule yields_rules | rule runs_tail | rule yields_keep | simp add: fuel)+

lemma yields_parse_tuple_ty [yields_rules]:
  assumes "K = UNIV \<or> d"
  shows "yields n d p K (parse_tuple_ty self k) (parse_tuple_ty self' k) (\<lambda>_. UNIV)"
  unfolding parse_tuple_ty_def alternatives.simps
  by (rule yields_inside [OF assms], (rule runs_rules | rule yields_rules | rule runs_tail | rule yields_keep | simp add: fuel)+)

lemma yields_parse_fn_ty [yields_rules]:
  shows "yields n d p K (parse_fn_ty self k) (parse_fn_ty self' k) (\<lambda>_. UNIV)"
  unfolding parse_fn_ty_def alternatives.simps yields_def
  by (rule runs_rules | rule yields_rules | rule runs_tail | rule yields_keep | simp add: fuel)+

lemma yields_parse_path_ty [yields_rules]:
  shows "yields n d p K (parse_path_ty self k) (parse_path_ty self' k) (\<lambda>_. UNIV)"
  unfolding parse_path_ty_def alternatives.simps yields_def
  by (rule runs_rules | rule yields_rules | rule runs_tail | rule yields_keep | simp add: fuel)+

lemma yields_parse_ty [yields_rules]:
  shows "yields n d p K (parse_ty self) (parse_ty self') (\<lambda>_. UNIV)"
  unfolding parse_ty_def alternatives.simps yields_def
  by (rule runs_rules | rule yields_rules | rule runs_tail | rule yields_keep | simp add: fuel)+

lemma yields_parse_existential_ty [yields_rules]:
  assumes "K = UNIV \<or> d"
  shows "yields n d p K (parse_existential_ty self) (parse_existential_ty self') (\<lambda>_. UNIV)"
  unfolding parse_existential_ty_def alternatives.simps
  by (rule yields_inside [OF assms], (rule runs_rules | rule yields_rules | rule runs_tail | rule yields_keep | simp add: fuel)+)

lemma yields_parse_bound [yields_rules]:
  assumes "K = UNIV \<or> d"
  shows "yields n d p K (parse_bound self) (parse_bound self') (\<lambda>_. UNIV)"
  unfolding parse_bound_def alternatives.simps
  by (rule yields_inside [OF assms], (rule runs_rules | rule yields_rules | rule runs_tail | rule yields_keep | simp add: fuel)+)

lemma yields_parse_generic_parameter [yields_rules]:
  shows "yields n d p K (parse_generic_parameter self) (parse_generic_parameter self') (\<lambda>_. UNIV)"
  unfolding parse_generic_parameter_def alternatives.simps yields_def
  by (rule runs_rules | rule yields_rules | rule runs_tail | rule yields_keep | simp add: fuel)+

lemma yields_parse_generic_params [yields_rules]:
  shows "yields n d p K (parse_generic_params self) (parse_generic_params self') (\<lambda>_. K)"
  unfolding parse_generic_params_def alternatives.simps
  by (rule yields_keep, (rule runs_rules | rule yields_rules | rule runs_tail | rule yields_keep | simp add: fuel)+)

lemma yields_parse_where_clause [yields_rules]:
  shows "yields n d p K (parse_where_clause self gs) (parse_where_clause self' gs) (\<lambda>_. K)"
  unfolding parse_where_clause_def alternatives.simps
  by (rule yields_keep, (rule runs_rules | rule yields_rules | rule runs_tail | rule yields_keep | simp add: fuel)+)

lemma yields_parse_parameter [yields_rules]:
  shows "yields n d p K (parse_parameter self) (parse_parameter self') (\<lambda>_. K)"
  unfolding parse_parameter_def alternatives.simps
  by (rule yields_keep, (rule runs_rules | rule yields_rules | rule runs_tail | rule yields_keep | simp add: fuel)+)

lemma yields_parse_parameter_list [yields_rules]:
  shows "yields n d p K (parse_parameter_list self) (parse_parameter_list self') (\<lambda>_. K)"
  unfolding parse_parameter_list_def alternatives.simps
  by (rule yields_keep, (rule runs_rules | rule yields_rules | rule runs_tail | rule yields_keep | simp add: fuel)+)

subsection \<open>Patterns\<close>

lemma yields_parse_struct_pattern [yields_rules]:
  shows "yields n d p K (parse_struct_pattern self path k) (parse_struct_pattern self' path k) (\<lambda>_. UNIV)"
  unfolding parse_struct_pattern_def alternatives.simps yields_def
  by (rule runs_rules | rule yields_rules | rule runs_tail | rule yields_keep | simp add: fuel)+

lemma yields_parse_path_pattern [yields_rules]:
  shows "yields n d p K (parse_path_pattern self) (parse_path_pattern self') (\<lambda>_. UNIV)"
  unfolding parse_path_pattern_def alternatives.simps yields_def
  by (rule runs_rules | rule yields_rules | rule runs_tail | rule yields_keep | simp add: fuel)+

lemma yields_parse_pattern_atom [yields_rules]:
  shows "yields n d p K (parse_pattern_atom self) (parse_pattern_atom self') (\<lambda>_. UNIV)"
  unfolding parse_pattern_atom_def alternatives.simps yields_def
  by (rule runs_rules | rule yields_rules | rule runs_tail | rule yields_keep | simp add: fuel)+

lemma yields_parse_range_pattern [yields_rules]:
  shows "yields n d p K (parse_range_pattern self) (parse_range_pattern self') (\<lambda>_. UNIV)"
  unfolding parse_range_pattern_def alternatives.simps yields_def
  by (rule runs_rules | rule yields_rules | rule runs_tail | rule yields_keep | simp add: fuel)+

lemma yields_parse_binding_pattern [yields_rules]:
  shows "yields n d p K (parse_binding_pattern self) (parse_binding_pattern self') (\<lambda>_. UNIV)"
  unfolding parse_binding_pattern_def alternatives.simps yields_def
  by (rule runs_rules | rule yields_rules | rule runs_tail | rule yields_keep | simp add: fuel)+

lemma yields_parse_pattern [yields_rules]:
  shows "yields n d p K (parse_pattern self) (parse_pattern self') (\<lambda>_. UNIV)"
  unfolding parse_pattern_def alternatives.simps yields_def
  by (rule runs_rules | rule yields_rules | rule runs_tail | rule yields_keep | simp add: fuel)+

subsection \<open>Postfix forms, blocks and functions\<close>

lemma yields_parse_argument [yields_rules]:
  assumes "K = UNIV \<or> d"
  shows "yields n d p K (parse_argument self) (parse_argument self') (\<lambda>_. UNIV)"
  unfolding parse_argument_def alternatives.simps
  by (rule yields_inside [OF assms], (rule runs_rules | rule yields_rules | rule runs_tail | rule yields_keep | simp add: fuel)+)

lemma yields_parse_argument_list [yields_rules]:
  assumes "K = UNIV \<or> d"
  shows "yields n d p K (parse_argument_list self) (parse_argument_list self') (\<lambda>_. K)"
  unfolding parse_argument_list_def alternatives.simps
  by (rule yields_keep, rule runs_inside [OF assms], (rule runs_rules | rule yields_rules | rule runs_tail | rule yields_keep | simp add: fuel)+)

lemma yields_parse_arguments [yields_rules]:
  assumes "K = UNIV \<or> d"
  shows "yields n d p K (parse_arguments self) (parse_arguments self') (\<lambda>_. UNIV)"
  unfolding parse_arguments_def alternatives.simps
  by (rule yields_inside [OF assms], (rule runs_rules | rule yields_rules | rule runs_tail | rule yields_keep | simp add: fuel)+)

lemma yields_parse_member [yields_rules]:
  shows "yields n d p K (parse_member self e) (parse_member self' e) (\<lambda>_. UNIV)"
  unfolding parse_member_def alternatives.simps yields_def
  by (rule runs_rules | rule yields_rules | rule runs_tail | rule yields_keep | simp add: fuel)+

lemma yields_parse_postfix [yields_rules]:
  shows "yields n d p K (parse_postfix self e) (parse_postfix self' e) (\<lambda>_. K)"
  unfolding parse_postfix_def alternatives.simps
  by (rule yields_keep, (rule runs_rules | rule yields_rules | rule runs_tail | rule yields_keep | simp add: fuel)+)

lemma yields_parse_let_stmt [yields_rules]:
  assumes "K = UNIV \<or> d"
  shows "yields n d p K (parse_let_stmt self) (parse_let_stmt self') (\<lambda>_. UNIV)"
  unfolding parse_let_stmt_def alternatives.simps
  by (rule yields_inside [OF assms], (rule runs_rules | rule yields_rules | rule runs_tail | rule yields_keep | simp add: fuel)+)

lemma yields_starts_block_like [yields_rules]:
  shows "yields n d p K starts_block_like starts_block_like (\<lambda>_. K)"
  unfolding starts_block_like_def alternatives.simps
  by (rule yields_keep, (rule runs_rules | rule yields_rules | rule runs_tail | rule yields_keep | simp add: fuel)+)

lemma yields_parse_statement_end [yields_rules]:
  shows "yields n d p K (parse_statement_end st e) (parse_statement_end st e) (\<lambda>_. K)"
  unfolding parse_statement_end_def alternatives.simps
  by (rule yields_keep, (rule runs_rules | rule yields_rules | rule runs_tail | rule yields_keep | simp add: fuel)+)

lemma yields_parse_block_member [yields_rules]:
  assumes "K = UNIV \<or> d"
  shows "yields n d p K (parse_block_member self st) (parse_block_member self' st) (\<lambda>_. UNIV)"
  unfolding parse_block_member_def alternatives.simps
  by (rule yields_inside [OF assms], (rule runs_rules | rule yields_rules | rule runs_tail | rule yields_keep | simp add: fuel)+)

lemma yields_parse_block [yields_rules]:
  shows "yields n d p K (parse_block self) (parse_block self') (\<lambda>_. UNIV)"
  unfolding parse_block_def alternatives.simps yields_def
  by (rule runs_rules | rule yields_rules | rule runs_tail | rule yields_keep | simp add: fuel)+

lemma yields_parse_function_name [yields_rules]:
  shows "yields n d p K (parse_function_name self) (parse_function_name self') (\<lambda>_. UNIV)"
  unfolding parse_function_name_def alternatives.simps yields_def
  by (rule runs_rules | rule yields_rules | rule runs_tail | rule yields_keep | simp add: fuel)+

lemma yields_parse_parameters [yields_rules]:
  shows "yields n d p K (parse_parameters self) (parse_parameters self') (\<lambda>_. UNIV)"
  unfolding parse_parameters_def alternatives.simps yields_def
  by (rule runs_rules | rule yields_rules | rule runs_tail | rule yields_keep | simp add: fuel)+

lemma yields_parse_function_decl [yields_rules]:
  shows "yields n d p K (parse_function_decl self is_pub is_unsafe is_iter abi) (parse_function_decl self' is_pub is_unsafe is_iter abi) (\<lambda>_. UNIV)"
  unfolding parse_function_decl_def alternatives.simps yields_def
  by (rule runs_rules | rule yields_rules | rule runs_tail | rule yields_keep | simp add: fuel)+

lemma yields_parse_function_modifiers [yields_rules]:
  shows "yields n d p K parse_function_modifiers parse_function_modifiers
    (\<lambda>_. K \<union> {TkComptime, TkIter, TkUnsafe, TkExtern})"
  unfolding parse_function_modifiers_def yields_def
  by ((rule runs_rules | rule yields_rules | rule runs_tail | rule yields_keep | simp; fail)+) auto

lemma yields_parse_modified_function [yields_rules]:
  shows "yields n d p K (parse_modified_function self msg is_pub attrs) (parse_modified_function self' msg is_pub attrs) (\<lambda>_. UNIV)"
  unfolding parse_modified_function_def alternatives.simps yields_def
  by (rule runs_rules | rule yields_rules | rule runs_tail | rule yields_keep | simp add: fuel)+

lemma yields_parse_const_decl [yields_rules]:
  shows "yields n d p K (parse_const_decl self is_pub) (parse_const_decl self' is_pub) (\<lambda>_. UNIV)"
  unfolding parse_const_decl_def alternatives.simps yields_def
  by (rule runs_rules | rule yields_rules | rule runs_tail | rule yields_keep | simp add: fuel)+

lemma yields_parse_methods_member [yields_rules]:
  shows "yields n d p K (parse_methods_member self st) (parse_methods_member self' st) (\<lambda>_. UNIV)"
  unfolding parse_methods_member_def alternatives.simps yields_def
  by (rule runs_rules | rule yields_rules | rule runs_tail | rule yields_keep | simp add: fuel)+

lemma yields_parse_methods_block [yields_rules]:
  assumes "K = UNIV \<or> d"
  shows "yields n d p K (parse_methods_block self) (parse_methods_block self') (\<lambda>_. UNIV)"
  unfolding parse_methods_block_def alternatives.simps
  by (rule yields_inside [OF assms], (rule runs_rules | rule yields_rules | rule runs_tail | rule yields_keep | simp add: fuel)+)

subsection \<open>Matches, selects and closures\<close>

lemma yields_parse_bare_expr [yields_rules]:
  assumes "K = UNIV \<or> d"
  shows "yields n d p K (parse_bare_expr self) (parse_bare_expr self') (\<lambda>_. UNIV)"
  unfolding parse_bare_expr_def alternatives.simps
  by (rule yields_inside [OF assms], (rule runs_rules | rule yields_rules | rule runs_tail | rule yields_keep | simp add: fuel)+)

lemma yields_parse_match_arm [yields_rules]:
  assumes "K = UNIV \<or> d"
  shows "yields n d p K (parse_match_arm self) (parse_match_arm self') (\<lambda>_. UNIV)"
  unfolding parse_match_arm_def alternatives.simps
  by (rule yields_inside [OF assms], (rule runs_rules | rule yields_rules | rule runs_tail | rule yields_keep | simp add: fuel)+)

lemma yields_parse_match_expr [yields_rules]:
  assumes "K = UNIV \<or> d"
  shows "yields n d p K (parse_match_expr self) (parse_match_expr self') (\<lambda>_. UNIV)"
  unfolding parse_match_expr_def alternatives.simps
  by (rule yields_inside [OF assms], (rule runs_rules | rule yields_rules | rule runs_tail | rule yields_keep | simp add: fuel)+)

lemma yields_parse_select_operation [yields_rules]:
  assumes "K = UNIV \<or> d"
  shows "yields n d p K (parse_select_operation self) (parse_select_operation self') (\<lambda>_. UNIV)"
  unfolding parse_select_operation_def alternatives.simps
  by (rule yields_inside [OF assms], (rule runs_rules | rule yields_rules | rule runs_tail | rule yields_keep | simp add: fuel)+)

lemma yields_parse_select_arm [yields_rules]:
  assumes "K = UNIV \<or> d"
  shows "yields n d p K (parse_select_arm self) (parse_select_arm self') (\<lambda>_. UNIV)"
  unfolding parse_select_arm_def alternatives.simps
  by (rule yields_inside [OF assms], (rule runs_rules | rule yields_rules | rule runs_tail | rule yields_keep | simp add: fuel)+)

lemma yields_parse_select_member [yields_rules]:
  assumes "K = UNIV \<or> d"
  shows "yields n d p K (parse_select_member self st) (parse_select_member self' st) (\<lambda>_. UNIV)"
  unfolding parse_select_member_def alternatives.simps
  by (rule yields_inside [OF assms], (rule runs_rules | rule yields_rules | rule runs_tail | rule yields_keep | simp add: fuel)+)

lemma yields_parse_select_expr [yields_rules]:
  shows "yields n d p K (parse_select_expr self) (parse_select_expr self') (\<lambda>_. UNIV)"
  unfolding parse_select_expr_def alternatives.simps yields_def
  by (rule runs_rules | rule yields_rules | rule runs_tail | rule yields_keep | simp add: fuel)+

lemma yields_parse_closure_param [yields_rules]:
  assumes "K = UNIV \<or> d"
  shows "yields n d p K (parse_closure_param self sp) (parse_closure_param self' sp) (\<lambda>_. UNIV)"
  unfolding parse_closure_param_def alternatives.simps
  by (rule yields_inside [OF assms], (rule runs_rules | rule yields_rules | rule runs_tail | rule yields_keep | simp add: fuel)+)

lemma yields_parse_block_or [yields_rules]:
  assumes "runs n d p K (\<lambda>_. UNIV) m m'"
  shows "yields n d p K (parse_block_or self m) (parse_block_or self' m') (\<lambda>_. UNIV)"
  unfolding parse_block_or_def yields_def
  by (rule runs_rules | rule yields_look | rule yields_parse_block | rule assms | simp)+

lemma yields_parse_closure_params [yields_rules]:
  shows "yields n d p K (parse_closure_params self sp) (parse_closure_params self' sp) (\<lambda>_. UNIV)"
  unfolding parse_closure_params_def alternatives.simps yields_def
  by (rule runs_rules | rule yields_rules | rule runs_tail | rule yields_keep | simp add: fuel)+

lemma yields_parse_closure [yields_rules]:
  shows "yields n d p K (parse_closure self) (parse_closure self') (\<lambda>_. UNIV)"
  unfolding parse_closure_def alternatives.simps yields_def
  by (rule runs_rules | rule yields_rules | rule runs_tail | rule yields_keep | simp add: fuel)+

lemma yields_parse_else_branch [yields_rules]:
  assumes d
  shows "yields n d p K (parse_else_branch self) (parse_else_branch self') (\<lambda>_. K)"
  unfolding parse_else_branch_def
  by (rule yields_keep, (rule runs_rules | rule yields_rules | rule runs_tail | simp add: assms)+)

lemma yields_parse_if_let_expr [yields_rules]:
  assumes d
  shows "yields n d p K (parse_if_let_expr self sp) (parse_if_let_expr self' sp) (\<lambda>_. UNIV)"
  unfolding parse_if_let_expr_def yields_def
  by (rule runs_rules | rule yields_rules | rule runs_tail | simp add: assms)+

lemma parse_if_expr_strict:
  shows "runs n True p {} (\<lambda>_. UNIV) (parse_if_expr self) (parse_if_expr self')"
  unfolding parse_if_expr_def
  by (rule runs_rules | rule yields_rules | rule runs_tail | simp)+

lemmas yields_parse_if_expr [yields_rules] = yields_anew [OF parse_if_expr_strict]

lemma yields_parse_while_let_expr [yields_rules]:
  assumes "K = UNIV \<or> d"
  shows "yields n d p K (parse_while_let_expr self sp) (parse_while_let_expr self' sp) (\<lambda>_. UNIV)"
  unfolding parse_while_let_expr_def alternatives.simps
  by (rule yields_inside [OF assms], (rule runs_rules | rule yields_rules | rule runs_tail | rule yields_keep | simp add: fuel)+)

lemma yields_parse_while_expr [yields_rules]:
  assumes "K = UNIV \<or> d"
  shows "yields n d p K (parse_while_expr self) (parse_while_expr self') (\<lambda>_. UNIV)"
  unfolding parse_while_expr_def alternatives.simps
  by (rule yields_inside [OF assms], (rule runs_rules | rule yields_rules | rule runs_tail | rule yields_keep | simp add: fuel)+)

lemma yields_parse_for_expr [yields_rules]:
  shows "yields n d p K (parse_for_expr self) (parse_for_expr self') (\<lambda>_. UNIV)"
  unfolding parse_for_expr_def alternatives.simps yields_def
  by (rule runs_rules | rule yields_rules | rule runs_tail | rule yields_keep | simp add: fuel)+

subsection \<open>Paths and primary expressions\<close>

lemma yields_parse_expr_type_path [yields_rules]:
  shows "yields n d p K (parse_expr_type_path self token) (parse_expr_type_path self' token) (\<lambda>_. K)"
  unfolding parse_expr_type_path_def alternatives.simps
  by (rule yields_keep, (rule runs_rules | rule yields_rules | rule runs_tail | rule yields_keep | simp add: fuel)+)

lemma yields_parse_qualified_path [yields_rules]:
  shows "yields n d p K (parse_qualified_path self path sp) (parse_qualified_path self' path sp) (\<lambda>_. K)"
  unfolding parse_qualified_path_def alternatives.simps
  by (rule yields_keep, (rule runs_rules | rule yields_rules | rule runs_tail | rule yields_keep | simp add: fuel)+)

lemma yields_parse_struct_literal [yields_rules]:
  shows "yields n d p K (parse_struct_literal self ty) (parse_struct_literal self' ty) (\<lambda>_. UNIV)"
  unfolding parse_struct_literal_def alternatives.simps yields_def
  by (rule runs_rules | rule yields_rules | rule runs_tail | rule yields_keep | simp add: fuel)+

lemma yields_parse_associated [yields_rules]:
  shows "yields n d p K (parse_associated self token ty) (parse_associated self' token ty) (\<lambda>_. UNIV)"
  unfolding parse_associated_def alternatives.simps yields_def
  by (rule runs_rules | rule yields_rules | rule runs_tail | rule yields_keep | simp add: fuel)+

lemma yields_parse_identifier_expr [yields_rules]:
  assumes "K = UNIV \<or> d"
  shows "yields n d p K (parse_identifier_expr self) (parse_identifier_expr self') (\<lambda>_. K)"
  unfolding parse_identifier_expr_def alternatives.simps
  by (rule yields_keep, rule runs_inside [OF assms], (rule runs_rules | rule yields_rules | rule runs_tail | rule yields_keep | simp add: fuel)+)

lemma yields_parse_keyword_block [yields_rules]:
  shows "yields n d p K (parse_keyword_block self build) (parse_keyword_block self' build) (\<lambda>_. UNIV)"
  unfolding parse_keyword_block_def alternatives.simps yields_def
  by (rule runs_rules | rule yields_rules | rule runs_tail | rule yields_keep | simp add: fuel)+

lemma yields_parse_quote [yields_rules]:
  shows "yields n d p K (parse_quote self) (parse_quote self') (\<lambda>_. UNIV)"
  unfolding parse_quote_def alternatives.simps yields_def
  by (rule runs_rules | rule yields_rules | rule runs_tail | rule yields_keep | simp add: fuel)+

lemma yields_parse_return [yields_rules]:
  assumes "K = UNIV \<or> d"
  shows "yields n d p K (parse_return self) (parse_return self') (\<lambda>_. K)"
  unfolding parse_return_def alternatives.simps
  by (rule yields_keep, rule runs_inside [OF assms], (rule runs_rules | rule yields_rules | rule runs_tail | rule yields_keep | simp add: fuel)+)

lemma yields_parse_paren [yields_rules]:
  assumes "K = UNIV \<or> d"
  shows "yields n d p K (parse_paren self) (parse_paren self') (\<lambda>_. UNIV)"
  unfolding parse_paren_def alternatives.simps
  by (rule yields_inside [OF assms], (rule runs_rules | rule yields_rules | rule runs_tail | rule yields_keep | simp add: fuel)+)

lemma yields_parse_literal [yields_rules]:
  shows "yields n d p K (parse_literal val) (parse_literal val) (\<lambda>_. K)"
  unfolding parse_literal_def alternatives.simps
  by (rule yields_keep, (rule runs_rules | rule yields_rules | rule runs_tail | rule yields_keep | simp add: fuel)+)

lemma yields_parse_primary [yields_rules]:
  shows "yields n d p K (parse_primary self) (parse_primary self') (\<lambda>_. UNIV)"
  unfolding parse_primary_def alternatives.simps yields_def
  by (rule runs_rules | rule yields_rules | rule runs_tail | rule yields_keep | simp add: fuel)+

subsection \<open>Operators\<close>

lemma yields_parse_call [yields_rules]:
  shows "yields n d p K (parse_call self) (parse_call self') (\<lambda>_. UNIV)"
  unfolding parse_call_def alternatives.simps yields_def
  by (rule runs_rules | rule yields_rules | rule runs_tail | rule yields_keep | simp add: fuel)+

lemma yields_parse_prefix [yields_rules]:
  assumes "K = UNIV \<or> d"
  shows "yields n d p K (parse_prefix self op) (parse_prefix self' op) (\<lambda>_. UNIV)"
  unfolding parse_prefix_def alternatives.simps
  by (rule yields_inside [OF assms], (rule runs_rules | rule yields_rules | rule runs_tail | rule yields_keep | simp add: fuel)+)

lemma yields_parse_unary [yields_rules]:
  shows "yields n d p K (parse_unary self) (parse_unary self') (\<lambda>_. UNIV)"
  unfolding parse_unary_def alternatives.simps yields_def
  by (rule runs_rules | rule yields_rules | rule runs_tail | rule yields_keep | simp add: fuel)+

lemma yields_parse_cast [yields_rules]:
  shows "yields n d p K (parse_cast self) (parse_cast self') (\<lambda>_. UNIV)"
  unfolding parse_cast_def alternatives.simps yields_def
  by (rule runs_rules | rule yields_rules | rule runs_tail | rule yields_keep | simp add: fuel)+

lemma yields_left_associative:
  assumes "TkEof \<notin> fst ` set operators" "\<And>d p K. yields n d p K m m' (\<lambda>_. UNIV)"
  shows "yields n d p K (left_associative (px_fuel self) m operators)
    (left_associative (px_fuel self') m' operators) (\<lambda>_. UNIV)"
proof -
  have other: "tok_kind t \<noteq> TkEof" if "find (\<lambda>(k, _). tok_kind t = k) operators = Some (k, op)" for t k op
  proof -
    from that have "(k, op) \<in> set operators \<and> tok_kind t = k"
      by (induction operators) (auto split: if_splits)
    then show ?thesis using assms(1) by force
  qed
  show ?thesis
    unfolding left_associative_def yields_def
    by (rule runs_rules | rule assms(2) | rule yields_rules | rule runs_tail | simp add: fuel other)+
qed

lemma yields_parse_multiplicative [yields_rules]:
  shows "yields n d p K (parse_multiplicative self) (parse_multiplicative self') (\<lambda>_. UNIV)"
  unfolding parse_multiplicative_def by (rule yields_left_associative, simp, rule yields_rules)

lemma yields_parse_additive [yields_rules]:
  shows "yields n d p K (parse_additive self) (parse_additive self') (\<lambda>_. UNIV)"
  unfolding parse_additive_def by (rule yields_left_associative, simp, rule yields_rules)

lemma yields_parse_shift [yields_rules]:
  shows "yields n d p K (parse_shift self) (parse_shift self') (\<lambda>_. UNIV)"
  unfolding parse_shift_def alternatives.simps yields_def
  by (rule runs_rules | rule yields_rules | rule runs_tail | rule yields_keep | simp add: fuel)+

lemma yields_parse_bit_and [yields_rules]:
  shows "yields n d p K (parse_bit_and self) (parse_bit_and self') (\<lambda>_. UNIV)"
  unfolding parse_bit_and_def by (rule yields_left_associative, simp, rule yields_rules)

lemma yields_parse_bit_xor [yields_rules]:
  shows "yields n d p K (parse_bit_xor self) (parse_bit_xor self') (\<lambda>_. UNIV)"
  unfolding parse_bit_xor_def by (rule yields_left_associative, simp, rule yields_rules)

lemma yields_parse_bit_or [yields_rules]:
  shows "yields n d p K (parse_bit_or self) (parse_bit_or self') (\<lambda>_. UNIV)"
  unfolding parse_bit_or_def by (rule yields_left_associative, simp, rule yields_rules)

lemma yields_parse_comparison_rhs [yields_rules]:
  shows "yields n d p K (parse_comparison_rhs self e op) (parse_comparison_rhs self' e op) (\<lambda>_. UNIV)"
  unfolding parse_comparison_rhs_def alternatives.simps yields_def
  by (rule runs_rules | rule yields_rules | rule runs_tail | rule yields_keep | simp add: fuel)+

lemma yields_parse_comparison [yields_rules]:
  shows "yields n d p K (parse_comparison self) (parse_comparison self') (\<lambda>_. UNIV)"
  unfolding parse_comparison_def alternatives.simps yields_def
  by (rule runs_rules | rule yields_rules | rule runs_tail | rule yields_keep | simp add: fuel)+

lemma yields_parse_logical_and [yields_rules]:
  shows "yields n d p K (parse_logical_and self) (parse_logical_and self') (\<lambda>_. UNIV)"
  unfolding parse_logical_and_def by (rule yields_left_associative, simp, rule yields_rules)

lemma yields_parse_logical_or [yields_rules]:
  shows "yields n d p K (parse_logical_or self) (parse_logical_or self') (\<lambda>_. UNIV)"
  unfolding parse_logical_or_def by (rule yields_left_associative, simp, rule yields_rules)

lemma yields_parse_assignment [yields_rules]:
  shows "yields n d p K (parse_assignment self) (parse_assignment self') (\<lambda>_. UNIV)"
  unfolding parse_assignment_def alternatives.simps yields_def
  by (rule runs_rules | rule yields_rules | rule runs_tail | rule yields_keep | simp add: fuel)+

lemma yields_parse_expr [yields_rules]:
  shows "yields n d p K (parse_expr self) (parse_expr self') (\<lambda>_. UNIV)"
  unfolding parse_expr_def alternatives.simps yields_def
  by (rule runs_rules | rule yields_rules | rule runs_tail | rule yields_keep | simp add: fuel)+

subsection \<open>Items\<close>

lemma yields_parse_field_decl [yields_rules]:
  shows "yields n d p K (parse_field_decl self is_pub attrs) (parse_field_decl self' is_pub attrs) (\<lambda>_. UNIV)"
  unfolding parse_field_decl_def alternatives.simps yields_def
  by (rule runs_rules | rule yields_rules | rule runs_tail | rule yields_keep | simp add: fuel)+

lemma yields_parse_enum_variant [yields_rules]:
  shows "yields n d p K (parse_enum_variant self attrs) (parse_enum_variant self' attrs) (\<lambda>_. UNIV)"
  unfolding parse_enum_variant_def alternatives.simps yields_def
  by (rule runs_rules | rule yields_rules | rule runs_tail | rule yields_keep | simp add: fuel)+

lemma yields_parse_assoc_type_decl [yields_rules]:
  shows "yields n d p K (parse_assoc_type_decl self) (parse_assoc_type_decl self') (\<lambda>_. UNIV)"
  unfolding parse_assoc_type_decl_def alternatives.simps yields_def
  by (rule runs_rules | rule yields_rules | rule runs_tail | rule yields_keep | simp add: fuel)+

lemma yields_parse_struct_member [yields_rules]:
  shows "yields n d p K (parse_struct_member self st) (parse_struct_member self' st) (\<lambda>_. UNIV)"
  unfolding parse_struct_member_def alternatives.simps yields_def
  by (rule runs_rules | rule yields_rules | rule runs_tail | rule yields_keep | simp add: fuel)+

lemma yields_parse_struct_decl [yields_rules]:
  shows "yields n d p K (parse_struct_decl self is_pub attrs) (parse_struct_decl self' is_pub attrs) (\<lambda>_. UNIV)"
  unfolding parse_struct_decl_def alternatives.simps yields_def
  by (rule runs_rules | rule yields_rules | rule runs_tail | rule yields_keep | simp add: fuel)+

lemma yields_parse_enum_member [yields_rules]:
  shows "yields n d p K (parse_enum_member self st) (parse_enum_member self' st) (\<lambda>_. UNIV)"
  unfolding parse_enum_member_def alternatives.simps yields_def
  by (rule runs_rules | rule yields_rules | rule runs_tail | rule yields_keep | simp add: fuel)+

lemma yields_parse_enum_decl [yields_rules]:
  shows "yields n d p K (parse_enum_decl self is_pub attrs) (parse_enum_decl self' is_pub attrs) (\<lambda>_. UNIV)"
  unfolding parse_enum_decl_def alternatives.simps yields_def
  by (rule runs_rules | rule yields_rules | rule runs_tail | rule yields_keep | simp add: fuel)+

lemma yields_parse_extern_fn_decl [yields_rules]:
  shows "yields n d p K (parse_extern_fn_decl self attrs) (parse_extern_fn_decl self' attrs) (\<lambda>_. UNIV)"
  unfolding parse_extern_fn_decl_def alternatives.simps yields_def
  by (rule runs_rules | rule yields_rules | rule runs_tail | rule yields_keep | simp add: fuel)+

lemma yields_parse_extern_block [yields_rules]:
  shows "yields n d p K (parse_extern_block self abi attrs) (parse_extern_block self' abi attrs) (\<lambda>_. UNIV)"
  unfolding parse_extern_block_def alternatives.simps yields_def
  by (rule runs_rules | rule yields_rules | rule runs_tail | rule yields_keep | simp add: fuel)+

lemma yields_parse_trait_fn_decl [yields_rules]:
  shows "yields n d p K (parse_trait_fn_decl self) (parse_trait_fn_decl self') (\<lambda>_. UNIV)"
  unfolding parse_trait_fn_decl_def alternatives.simps yields_def
  by (rule runs_rules | rule yields_rules | rule runs_tail | rule yields_keep | simp add: fuel)+

lemma yields_parse_trait_member [yields_rules]:
  assumes "{TkRightBrace, TkEof} \<subseteq> K"
  shows "yields n d p K (parse_trait_member self st) (parse_trait_member self' st) (\<lambda>_. UNIV)"
  unfolding parse_trait_member_def alternatives.simps yields_def
  using assms by - ((rule runs_rules | rule yields_rules | rule runs_tail | simp add: fuel)+)

lemma yields_parse_trait_decl [yields_rules]:
  shows "yields n d p K (parse_trait_decl self is_pub attrs) (parse_trait_decl self' is_pub attrs) (\<lambda>_. UNIV)"
  unfolding parse_trait_decl_def alternatives.simps yields_def
  by (rule runs_rules | rule yields_rules | rule runs_tail | rule yields_keep | simp add: fuel)+

lemma yields_parse_module_path [yields_rules]:
  shows "yields n d p K (parse_module_path self) (parse_module_path self') (\<lambda>_. UNIV)"
  unfolding parse_module_path_def alternatives.simps yields_def
  by (rule runs_rules | rule yields_rules | rule runs_tail | rule yields_keep | simp add: fuel)+

lemma yields_parse_use_decl [yields_rules]:
  shows "yields n d p K (parse_use_decl self) (parse_use_decl self') (\<lambda>_. UNIV)"
  unfolding parse_use_decl_def alternatives.simps yields_def
  by (rule runs_rules | rule yields_rules | rule runs_tail | rule yields_keep | simp add: fuel)+

lemma yields_parse_module_decl [yields_rules]:
  shows "yields n d p K parse_module_decl parse_module_decl (\<lambda>_. K)"
  unfolding parse_module_decl_def alternatives.simps
  by (rule yields_keep, (rule runs_rules | rule yields_rules | rule runs_tail | rule yields_keep | simp add: fuel)+)

lemma yields_parse_modified_item [yields_rules]:
  assumes "K \<union> {TkComptime, TkIter, TkUnsafe, TkExtern} = UNIV"
  shows "yields n d p K (parse_modified_item self is_pub attrs items)
    (parse_modified_item self' is_pub attrs items) (\<lambda>_. UNIV)"
  unfolding parse_modified_item_def yields_def
  by (rule runs_rules | rule yields_parse_function_modifiers [where K = K, unfolded assms] | rule yields_rules
      | rule runs_tail | simp add: fuel)+

lemma yields_parse_item [yields_rules]:
  assumes "TkEof \<in> K"
  shows "yields n d p K (parse_item self items) (parse_item self' items) (\<lambda>_. UNIV)"
  unfolding parse_item_def alternatives.simps yields_def
  using assms by - ((rule runs_rules | rule yields_rules | rule runs_tail | simp add: fuel; fail | auto)+)

lemma yields_parse_items [yields_rules]:
  shows "yields n d p K (parse_items self) (parse_items self') (\<lambda>_. K)"
  unfolding parse_items_def alternatives.simps
  by (rule yields_keep, (rule runs_rules | rule yields_rules | rule runs_tail | rule yields_keep | simp add: fuel)+)

lemma yields_parse_whole_module [yields_rules]:
  shows "yields n d p K (parse_whole_module self) (parse_whole_module self') (\<lambda>_. K)"
  unfolding parse_whole_module_def alternatives.simps
  by (rule yields_keep, (rule runs_rules | rule yields_rules | rule runs_tail | rule yields_keep | simp add: fuel)+)

end

section \<open>Every depth\<close>

lemma parsers_level: "n \<le> m \<Longrightarrow> parser_level n (parsers n) (parsers m)"
proof (induction n arbitrary: m)
  case 0
  show ?case by unfold_locales (simp_all add: strict_0 within_0)
next
  case (Suc n)
  then obtain k where m: "m = Suc k" "n \<le> k" by (cases m) auto
  have level: "parser_level n (parsers n) (parsers k)" by (rule Suc.IH [OF m(2)])
  show ?case
    unfolding m
    by unfold_locales
      (simp_all add: Let_def m(2) strict_Suc within_Suc parser_level.parse_if_expr_strict [OF level]
        parser_level.yields_parse_expr [OF level, unfolded yields_def]
        parser_level.yields_parse_additive [OF level, unfolded yields_def]
        parser_level.yields_parse_unary [OF level, unfolded yields_def]
        parser_level.yields_parse_primary [OF level, unfolded yields_def]
        parser_level.yields_parse_ty [OF level, unfolded yields_def]
        parser_level.yields_parse_pattern [OF level, unfolded yields_def]
        parser_level.yields_parse_binding_pattern [OF level, unfolded yields_def]
        parser_level.yields_parse_pattern_atom [OF level, unfolded yields_def]
        parser_level.yields_parse_one_attribute [OF level, unfolded yields_def])
qed

interpretation parse: parser_level n "parsers n" "parsers (n + k)" for n k
  by (rule parsers_level) simp

lemma parse_module_runs:
  assumes "tokens \<noteq> []" "tok_kind (last tokens) = TkEof" "length tokens \<le> Suc n"
  shows "parse_whole_module (parsers (n + k)) (parser_new tokens r) = parse_whole_module (parsers n) (parser_new tokens r)"
    and "allowed 0 (\<lambda>_. {}) (parser_new tokens r) (parse_whole_module (parsers n) (parser_new tokens r))"
proof -
  have "well_formed (parser_new tokens r)" using assms by (simp add: well_formed_def parser_new_def)
  then show "parse_whole_module (parsers (n + k)) (parser_new tokens r) = parse_whole_module (parsers n) (parser_new tokens r)"
    "allowed 0 (\<lambda>_. {}) (parser_new tokens r) (parse_whole_module (parsers n) (parser_new tokens r))"
    using parse.yields_parse_whole_module [of n False 0 "{}" k] assms(3)
    by (simp_all add: yields_def runs_def parser_new_def)
qed

lemma parse_module_shape:
  assumes "tokens \<noteq> []" "tok_kind (last tokens) = TkEof"
  shows "case parse_module tokens r of
      (POk m, r') \<Rightarrow> errors_only r r'
    | (PErr, r') \<Rightarrow> errors_only r r' \<and> has_errors r'
    | _ \<Rightarrow> False"
proof -
  let ?s = "parser_new tokens r"
  obtain x t where x: "parse_whole_module (parsers (length tokens)) ?s = (x, t)" by fastforce
  have "allowed 0 (\<lambda>_. {}) ?s (x, t)" using parse_module_runs(2) [OF assms, of "length tokens" r] x by simp
  then have "errors_only r (ps_reporter t) \<and> ((\<exists>m. x = POk m) \<or> x = PErr \<and> reported_more ?s t)"
    by (auto simp: allowed_def goes_on_def parser_new_def split: outcome.splits)
  moreover have "has_errors (ps_reporter t)" if "errors_only r (ps_reporter t)" "reported_more ?s t"
    using that by (auto simp: errors_only_def reported_more_def parser_new_def has_errors_def list_ex_iff list_all_iff neq_Nil_conv)
  ultimately show ?thesis using x by (auto simp: parse_module_def parse_module_with_def split: outcome.splits)
qed

lemma lex_ends: "fst (lex src fid r) \<noteq> [] \<and> tok_kind (last (fst (lex src fid r))) = TkEof"
  by (simp add: lex_def lex_run_def Let_def token_new_def)

text \<open>C2: the parser always ends, without a panic and without failing silently. On every sequence of tokens
  that ends with the end of the file it returns: a module, or an error of which at least one report
  was made; earlier reports are kept and all new ones are errors. No larger bound on the depth of
  recursion or on the rounds of a loop than the number of tokens changes anything.\<close>

theorem parse_module_total:
  assumes "tokens \<noteq> []" "tok_kind (last tokens) = TkEof"
  shows "(case parse_module tokens r of
      (POk m, r') \<Rightarrow> errors_only r r'
    | (PErr, r') \<Rightarrow> errors_only r r' \<and> has_errors r'
    | _ \<Rightarrow> False) \<and>
    parse_module_with (length tokens + k) tokens r = parse_module tokens r"
  using parse_module_shape [OF assms, of r] parse_module_runs(1) [OF assms, of "length tokens" k r]
  by (auto simp: parse_module_def parse_module_with_def)

text \<open>The tokens of \<open>fn ) \<close>, on which the parser reports an error.\<close>

definition demo_tokens :: "token list" where
  "demo_tokens = [token_new TkFn ''fn'' (span_new_root 0 2), token_new TkRightParen '')'' (span_new_root 3 4),
     token_new TkEof [] (span_new_root 5 5)]"

theorem parse_module_total_witness:
  "(case parse_module demo_tokens reporter_new of
      (POk m, r') \<Rightarrow> errors_only reporter_new r'
    | (PErr, r') \<Rightarrow> errors_only reporter_new r' \<and> has_errors r'
    | _ \<Rightarrow> False) \<and>
   parse_module_with (length demo_tokens + 7) demo_tokens reporter_new = parse_module demo_tokens reporter_new"
  by (rule parse_module_total) (simp_all add: demo_tokens_def token_new_def)

text \<open>C1: every source text is parsed to an end. Lexing and then parsing any text gives a module or
  reports an error; in particular a text that gives no module leaves an error for the user.\<close>

theorem frontend_total:
  "case lex src fid r of (tokens, r1) \<Rightarrow>
     (case parse_module tokens r1 of
        (POk m, r2) \<Rightarrow> errors_only r1 r2
      | (PErr, r2) \<Rightarrow> errors_only r1 r2 \<and> has_errors r2
      | _ \<Rightarrow> False)"
proof (cases "lex src fid r")
  case (Pair tokens r1)
  then show ?thesis using lex_ends [of src fid r] parse_module_shape [of tokens r1] by simp
qed

end
