(* ===== verification/Floats.thy ===== *)
theory Floats
  imports Types Ieee
begin

text \<open>
  The bit encodings of the reduced-precision float formats, which the program has twice: in the
  compiler, \<open>compiler/paco-types/src/floats.rs\<close>, for literals and constant folding, and in the
  runtime, \<open>runtime/paco-runtime/src/float.rs\<close>, for compiled and compile-time code.  A \<open>u32\<close> bit
  pattern is a natural number; values are \<^typ>\<open>f64\<close>.
\<close>

unbundle bit_operations_syntax

section \<open>The compiler's conversions\<close>

record format =
  exponent_bits :: nat
  mantissa_bits :: nat
  has_infinity :: bool

fun width_format :: "float_width \<Rightarrow> format option" where
  "width_format F64 = None"
| "width_format F32 = None"
| "width_format F16 = Some \<lparr>exponent_bits = 5, mantissa_bits = 10, has_infinity = True\<rparr>"
| "width_format BF16 = Some \<lparr>exponent_bits = 8, mantissa_bits = 7, has_infinity = True\<rparr>"
| "width_format F8E4M3 = Some \<lparr>exponent_bits = 4, mantissa_bits = 3, has_infinity = False\<rparr>"
| "width_format F8E5M2 = Some \<lparr>exponent_bits = 5, mantissa_bits = 2, has_infinity = True\<rparr>"

text \<open>\<open>1 << n\<close> and \<open>!x\<close> on \<open>u32\<close>.\<close>

definition u32_shl :: "nat \<Rightarrow> nat \<Rightarrow> nat" where
  "u32_shl x n = push_bit n x mod 2 ^ 32"

definition u32_not :: "nat \<Rightarrow> nat" where
  "u32_not x = mask 32 XOR x"

definition float_bias :: "nat \<Rightarrow> int" where
  "float_bias e = 2 ^ (e - 1) - 1"

definition encode_small :: "f64 \<Rightarrow> format \<Rightarrow> nat" where
  "encode_small value format =
    (let m = mantissa_bits format;
         e = exponent_bits format;
         sign = (if f64_negative value then u32_shl 1 (e + m) else 0);
         all_ones_exponent = u32_shl 1 e - 1;
         nan = sign OR u32_shl all_ones_exponent m OR (u32_shl 1 m - 1)
     in if f64_is_nan value then nan AND u32_not (u32_shl 1 (e + m))
     else let overflow = (if has_infinity format then sign OR u32_shl all_ones_exponent m else nan);
              magnitude = f64_abs value
     in if f64_eq magnitude (f64_of_int 0) then sign
     else if f64_is_infinite magnitude then overflow
     else let bias = float_bias e;
              min_exponent = 1 - bias;
              exponent = max (int (f64_exponent magnitude) - 1023) min_exponent;
              quantum = f64_powi2 (exponent - int m);
              scaled = f64_as_u64 (f64_round_ties_even (f64_div magnitude quantum));
              (scaled, exponent) = (if 2 ^ (m + 1) \<le> scaled then (scaled div 2, exponent + 1) else (scaled, exponent));
              biased = (if scaled < 2 ^ m then 0 else exponent + bias);
              max_biased = (if has_infinity format then int all_ones_exponent - 1 else int all_ones_exponent)
     in if max_biased < biased then overflow
     else let fraction = (scaled mod 2 ^ 32) AND (u32_shl 1 m - 1);
              bits = sign OR u32_shl (nat biased) m OR fraction
     in if \<not> has_infinity format \<and> bits AND u32_not sign = nan AND u32_not sign then overflow else bits)"

definition decode_small :: "nat \<Rightarrow> format \<Rightarrow> f64" where
  "decode_small bits format =
    (let m = mantissa_bits format;
         e = exponent_bits format;
         negative = (drop_bit (e + m) bits AND 1 = 1);
         all_ones_exponent = u32_shl 1 e - 1;
         biased = drop_bit m bits AND all_ones_exponent;
         fraction = bits AND (u32_shl 1 m - 1);
         bias = float_bias e;
         magnitude =
           (if biased = all_ones_exponent \<and> has_infinity format then
              (if fraction = 0 then f64_infinity False else f64_nan)
            else if biased = all_ones_exponent \<and> fraction = u32_shl 1 m - 1 then f64_nan
            else if biased = 0 then f64_mul (f64_of_int (int fraction)) (f64_powi2 (1 - bias - int m))
            else f64_mul (f64_of_int (int (u32_shl 1 m OR fraction))) (f64_powi2 (int biased - bias - int m)))
     in if negative then f64_neg magnitude else magnitude)"

definition width_encode :: "float_width \<Rightarrow> f64 \<Rightarrow> nat" where
  "width_encode w value =
    (case w of
       F64 \<Rightarrow> unat value
     | F32 \<Rightarrow> unat (f64_to_f32 value)
     | _ \<Rightarrow> encode_small value (the (width_format w)))"

definition width_decode :: "float_width \<Rightarrow> nat \<Rightarrow> f64" where
  "width_decode w bits =
    (case w of
       F64 \<Rightarrow> word_of_nat bits
     | F32 \<Rightarrow> f32_to_f64 (word_of_nat (bits mod 2 ^ 32))
     | _ \<Rightarrow> decode_small (bits mod 2 ^ 32) (the (width_format w)))"

definition width_round :: "float_width \<Rightarrow> f64 \<Rightarrow> f64" where
  "width_round w value =
    (case w of
       F64 \<Rightarrow> value
     | F32 \<Rightarrow> f32_to_f64 (f64_to_f32 value)
     | _ \<Rightarrow> width_decode w (width_encode w value))"

section \<open>The runtime's conversions\<close>

text \<open>The formats of the codes 0 to 3; another code panics (\<open>None\<close>).\<close>

definition float_format :: "int \<Rightarrow> (nat \<times> nat \<times> bool) option" where
  "float_format code =
    (let formats = [(5, 10, True), (8, 7, True), (4, 3, False), (5, 2, True)] in
     if 0 \<le> code \<and> nat code < length formats then Some (formats ! nat code) else None)"

definition float_to_f64 :: "nat \<Rightarrow> int \<Rightarrow> f64 option" where
  "float_to_f64 bits code = (case float_format code of None \<Rightarrow> None | Some (e, m, has_inf) \<Rightarrow>
     (let negative = (drop_bit (e + m) bits AND 1 = 1);
          all_ones = u32_shl 1 e - 1;
          biased = drop_bit m bits AND all_ones;
          fraction = bits AND (u32_shl 1 m - 1);
          bias = float_bias e;
          magnitude =
            (if biased = all_ones \<and> has_inf then
               (if fraction = 0 then f64_infinity False else f64_nan)
             else if biased = all_ones \<and> fraction = u32_shl 1 m - 1 then f64_nan
             else if biased = 0 then f64_mul (f64_of_int (int fraction)) (f64_powi2 (1 - bias - int m))
             else f64_mul (f64_of_int (int (u32_shl 1 m OR fraction))) (f64_powi2 (int biased - bias - int m)))
      in Some (if negative then f64_neg magnitude else magnitude)))"

definition float_from_f64 :: "f64 \<Rightarrow> int \<Rightarrow> nat option" where
  "float_from_f64 value code = (case float_format code of None \<Rightarrow> None | Some (e, m, has_inf) \<Rightarrow>
    (let sign = (if f64_negative value then u32_shl 1 (e + m) else 0);
         all_ones = u32_shl 1 e - 1;
         nan = sign OR u32_shl all_ones m OR (u32_shl 1 m - 1)
     in if f64_is_nan value then Some (nan AND u32_not (u32_shl 1 (e + m)))
     else let overflow = (if has_inf then sign OR u32_shl all_ones m else nan);
              magnitude = f64_abs value
     in if f64_eq magnitude (f64_of_int 0) then Some sign
     else if f64_is_infinite magnitude then Some overflow
     else let bias = float_bias e;
              exponent = max (int (f64_exponent magnitude) - 1023) (1 - bias);
              scaled = f64_as_u64 (f64_round_ties_even (f64_mul magnitude (f64_powi2 (int m - exponent))));
              (scaled, exponent) = (if 2 ^ (m + 1) \<le> scaled then (scaled div 2, exponent + 1) else (scaled, exponent));
              biased = (if scaled < 2 ^ m then 0 else exponent + bias);
              max_biased = (if has_inf then int all_ones - 1 else int all_ones)
     in if max_biased < biased then Some overflow
     else let bits = sign OR u32_shl (nat biased) m OR ((scaled mod 2 ^ 32) AND (u32_shl 1 m - 1))
     in if \<not> has_inf \<and> bits AND u32_not sign = nan AND u32_not sign then Some overflow else Some bits))"

text \<open>The numbers by which the runtime knows the formats (\<open>compiler/paco-comptime/src/machine.rs\<close>).\<close>

fun small_code :: "float_width \<Rightarrow> int option" where
  "small_code F16 = Some 0"
| "small_code BF16 = Some 1"
| "small_code F8E4M3 = Some 2"
| "small_code F8E5M2 = Some 3"
| "small_code F32 = None"
| "small_code F64 = None"

section \<open>Bit fields\<close>

definition wf_format :: "format \<Rightarrow> bool" where
  "wf_format f \<longleftrightarrow> 2 \<le> mantissa_bits f \<and> mantissa_bits f \<le> 10 \<and> 4 \<le> exponent_bits f \<and> exponent_bits f \<le> 8"

lemma wf_width_format: "width_format w = Some f \<Longrightarrow> wf_format f"
  by (cases w) (auto simp: wf_format_def)

lemma or_field: "f < 2 ^ m \<Longrightarrow> push_bit m b OR f = b * 2 ^ m + (f :: nat)"
proof -
  assume f: "f < 2 ^ m"
  have "\<not> (bit (push_bit m b) n \<and> bit f n)" for n
  proof (cases "n < m")
    case False
    have "\<not> bit f n" using f False by (metis bit_take_bit_iff take_bit_nat_eq_self)
    then show ?thesis by simp
  qed (simp add: bit_push_bit_iff)
  then have "push_bit m b AND f = 0" by (intro bit_eqI) (auto simp: bit_and_iff)
  then show ?thesis by (simp flip: disjunctive_add_eq_or add: push_bit_eq_mult)
qed

lemma or_low: "f < 2 ^ m \<Longrightarrow> b * 2 ^ m OR f = b * 2 ^ m + (f :: nat)"
  using or_field by (simp add: push_bit_eq_mult)

lemma and_low: "b AND (2 ^ m - Suc 0) = b mod (2 ^ m :: nat)"
  by (simp flip: take_bit_eq_mod add: take_bit_eq_mask mask_eq_exp_minus_1)

lemma u32_shl_eq: "x * 2 ^ n < 2 ^ 32 \<Longrightarrow> u32_shl x n = x * 2 ^ n"
  by (simp add: u32_shl_def push_bit_eq_mult)

text \<open>The three fields of a bit pattern.\<close>

definition float_fields :: "nat \<Rightarrow> nat \<Rightarrow> bool \<Rightarrow> nat \<Rightarrow> nat \<Rightarrow> nat" where
  "float_fields e m negative b f = (if negative then 2 ^ (e + m) else 0) + b * 2 ^ m + f"

lemma fields_magnitude:
  assumes "b < 2 ^ e" "f < 2 ^ m"
  shows "b * 2 ^ m + f < (2 :: nat) ^ (e + m)"
proof -
  have "b * 2 ^ m + f < (b + 1) * 2 ^ m" using assms(2) by simp
  also have "\<dots> \<le> 2 ^ e * 2 ^ m" using assms(1) by (intro mult_right_mono) auto
  finally show ?thesis by (simp add: power_add)
qed

lemma fields_or:
  assumes "b < 2 ^ e" "f < 2 ^ m"
  shows "(if negative then 2 ^ (e + m) else 0) OR (b * 2 ^ m OR f) = float_fields e m negative b f"
  using fields_magnitude [OF assms] or_low [OF assms(2), of b] or_low [of "b * 2 ^ m + f" "e + m" 1]
  by (simp add: float_fields_def)

lemma fields_parts:
  assumes "b < 2 ^ e" "f < 2 ^ m"
  shows "drop_bit (e + m) (float_fields e m negative b f) AND 1 = (if negative then 1 else 0)"
    "drop_bit m (float_fields e m negative b f) AND (2 ^ e - Suc 0) = b"
    "float_fields e m negative b f AND (2 ^ m - Suc 0) = f"
proof -
  note small = fields_magnitude [OF assms]
  have "float_fields e m negative b f div 2 ^ (e + m) = (if negative then 1 else 0)"
    using small div_mult_self3 [of "2 ^ (e + m)" 1 "b * 2 ^ m + f"] by (simp add: float_fields_def add.assoc)
  then show "drop_bit (e + m) (float_fields e m negative b f) AND 1 = (if negative then 1 else 0)"
    by (simp add: drop_bit_eq_div)
  have eq: "float_fields e m negative b f = f + ((if negative then 2 ^ e else 0) + b) * 2 ^ m"
    by (simp add: float_fields_def power_add algebra_simps)
  have "float_fields e m negative b f div 2 ^ m = (if negative then 2 ^ e else 0) + b"
    unfolding eq using assms(2) by (subst div_mult_self1) simp_all
  then show "drop_bit m (float_fields e m negative b f) AND (2 ^ e - Suc 0) = b"
    using assms(1) by (simp add: drop_bit_eq_div and_low)
  show "float_fields e m negative b f AND (2 ^ m - Suc 0) = f"
    unfolding and_low eq using assms(2) by simp
qed

lemma fields_cases:
  assumes "bits < 2 ^ (1 + e + m)"
  obtains negative b f where "bits = float_fields e m negative b f" "b < 2 ^ e" "f < 2 ^ m"
proof (rule that)
  let ?s = "bits div 2 ^ (e + m)" and ?r = "bits mod 2 ^ (e + m)"
  have s: "?s < 2" using assms by (intro less_mult_imp_div_less) simp
  show "?r div 2 ^ m < 2 ^ e" by (intro less_mult_imp_div_less) (simp add: mult.commute flip: power_add)
  have "?r = ?r div 2 ^ m * 2 ^ m + ?r mod 2 ^ m" by (simp only: div_mult_mod_eq)
  moreover have "bits = ?s * 2 ^ (e + m) + ?r" by (simp only: div_mult_mod_eq)
  moreover have "?s * 2 ^ (e + m) = (if ?s = 1 then 2 ^ (e + m) else 0)" using s by (cases "?s = 0") auto
  ultimately show "bits = float_fields e m (?s = 1) (?r div 2 ^ m) (?r mod 2 ^ m)"
    by (simp only: float_fields_def)
qed simp

section \<open>The scaled magnitude\<close>

text \<open>The exponent at which a magnitude of \<open>u\<close> units is rounded, and the multiple of the quantum nearest to it.\<close>

definition small_exponent :: "format \<Rightarrow> nat \<Rightarrow> int" where
  "small_exponent f u = max (int (bit_length u) - 1075) (1 - float_bias (exponent_bits f))"

definition quantum_power :: "format \<Rightarrow> nat \<Rightarrow> nat" where
  "quantum_power f u = nat (1074 + small_exponent f u - int (mantissa_bits f))"

definition small_scaled :: "format \<Rightarrow> nat \<Rightarrow> nat" where
  "small_scaled f u = round_half_even u (2 ^ quantum_power f u)"

lemma wf_bias:
  assumes "wf_format f"
  shows "7 \<le> float_bias (exponent_bits f)" "float_bias (exponent_bits f) \<le> 127"
proof -
  have "3 \<le> exponent_bits f - 1" "exponent_bits f - 1 \<le> 7" using assms by (auto simp: wf_format_def)
  then have "(2 :: int) ^ 3 \<le> 2 ^ (exponent_bits f - 1)" "(2 :: int) ^ (exponent_bits f - 1) \<le> 2 ^ 7"
    using power_increasing [of "exponent_bits f - 1" 7 "2 :: int"] by (intro power_increasing; simp)+
  then show "7 \<le> float_bias (exponent_bits f)" "float_bias (exponent_bits f) \<le> 127"
    by (simp_all add: float_bias_def)
qed

lemma small_exponent_bounds:
  assumes "wf_format f" "bit_length u \<le> 2098"
  shows "- 126 \<le> small_exponent f u" "small_exponent f u \<le> 1023"
    "int (quantum_power f u) = 1074 + small_exponent f u - int (mantissa_bits f)"
    "quantum_power f u \<le> 2095"
proof -
  show bounds: "- 126 \<le> small_exponent f u" "small_exponent f u \<le> 1023"
    using wf_bias [OF assms(1)] assms(2) by (auto simp: small_exponent_def)
  have "2 \<le> mantissa_bits f \<and> mantissa_bits f \<le> 10" using assms(1) by (simp add: wf_format_def)
  then show "int (quantum_power f u) = 1074 + small_exponent f u - int (mantissa_bits f)"
    "quantum_power f u \<le> 2095" using bounds by (simp_all add: quantum_power_def) linarith
qed

lemma magnitude_bound:
  assumes "wf_format f" "bit_length u \<le> 2098"
  shows "u < 2 ^ (mantissa_bits f + 1) * 2 ^ quantum_power f u"
proof (cases "u = 0")
  case False
  have "bit_length u \<le> mantissa_bits f + 1 + quantum_power f u"
    using small_exponent_bounds [OF assms] by (simp add: small_exponent_def)
  then have "(2 :: nat) ^ bit_length u \<le> 2 ^ (mantissa_bits f + 1 + quantum_power f u)" by (rule power_increasing) simp
  then show ?thesis using bit_length_bounds [of u] False by (simp only: power_add) linarith
qed simp

lemma small_scaled_le:
  assumes "wf_format f" "bit_length u \<le> 2098"
  shows "small_scaled f u \<le> 2 ^ (mantissa_bits f + 1)"
  unfolding small_scaled_def using magnitude_bound [OF assms] by (rule round_half_even_le)

lemma scaled_magnitude:
  assumes "wf_format f" "f64_finite x" "f64_units x \<noteq> 0"
  shows "f64_as_u64 (f64_round_ties_even (f64_div (f64_abs x) (f64_powi2 (small_exponent f (f64_units x) - int (mantissa_bits f)))))
    = small_scaled f (f64_units x)"
proof -
  define u where "u = f64_units x"
  define d where "d = quantum_power f u"
  define k where "k = small_exponent f u - int (mantissa_bits f)"
  obtain c j where cj: "u = c * 2 ^ j" "c < 2 ^ 53" "j \<le> 2045" "j = 0 \<or> 2 ^ 52 \<le> c"
    using f64_canonical [OF assms(2)] unfolding u_def by blast
  note bounds = small_exponent_bounds [OF assms(1) bit_length_finite [OF assms(2)], folded u_def]
  have mant: "2 \<le> mantissa_bits f" "mantissa_bits f \<le> 10" using assms(1) by (simp_all add: wf_format_def)
  have k: "- 1074 \<le> k" "k \<le> 1023" "nat (1074 + k) = d" using bounds mant by (simp_all add: k_def d_def)
  note powi = f64_powi2_parts [OF k(1,2)]
  have pos: "0 < u" "0 < c" using assms(3) cj(1) by (auto simp: u_def)
  have shift: "d \<le> j + 1074"
  proof (cases "j = 0")
    case True
    have "bit_length u \<le> 53" using bit_length_le [OF cj(2)] True cj(1) by simp
    then have "small_exponent f u \<le> 0" using wf_bias [OF assms(1)] by (simp add: small_exponent_def)
    then show ?thesis using bounds(3) mant by (simp add: d_def)
  next
    case False
    have "bit_length c \<le> 53" by (rule bit_length_le [OF cj(2)])
    then have "bit_length u \<le> 53 + j" using pos by (simp add: cj(1) bit_length_mult_power)
    then have "small_exponent f u \<le> int j" using wf_bias [OF assms(1)] by (simp add: small_exponent_def)
    then show ?thesis using bounds(3) mant by (simp add: d_def)
  qed
  have quotient: "f64_div (f64_abs x) (f64_powi2 k) = f64_of_units False (c * 2 ^ (j + 1074 - d))"
  proof -
    have "f64_div (f64_abs x) (f64_powi2 k) = f64_signed False (f64_of_ratio u (2 ^ d))"
      using powi assms(2) pos(1) f64_abs_parts [of x]
      by (simp add: f64_div_def f64_finiteD f64_abs_finite f64_int_def f64_abs_units
          f64_round_def k(3) Let_def flip: u_def)
    then show ?thesis using f64_of_ratio_shift [OF shift] by (simp only: cj(1) f64_of_units_def)
  qed
  have same: "c * 2 ^ (j + 1074 - d) * 2 ^ d = u * 2 ^ 1074"
    using shift by (simp only: cj(1) mult.assoc power_add [symmetric]) simp
  have rounded: "round_half_even (c * 2 ^ (j + 1074 - d)) (2 ^ 1074) = round_half_even u (2 ^ d)"
    using round_scale [of "2 ^ d" "c * 2 ^ (j + 1074 - d)" "2 ^ 1074"] round_scale [of "2 ^ 1074" u "2 ^ d"]
    unfolding same by (simp only: mult.commute [of "2 ^ 1074"] zero_less_power zero_less_numeral)
  have scaled: "round_half_even u (2 ^ d) \<le> 2 ^ (mantissa_bits f + 1)"
    using small_scaled_le [OF assms(1) bit_length_finite [OF assms(2)]] by (simp add: small_scaled_def d_def u_def)
  also have "(2 :: nat) ^ (mantissa_bits f + 1) \<le> 2 ^ 11" using mant by (intro power_increasing) auto
  finally have small: "round_half_even (c * 2 ^ (j + 1074 - d)) (2 ^ 1074) < 2 ^ 53" unfolding rounded by simp
  have "bit_length (c * 2 ^ (j + 1074 - d)) + d = bit_length u + 1074"
    using bit_length_mult_power [of "c * 2 ^ (j + 1074 - d)" d] bit_length_mult_power [OF pos(1), of 1074] pos(2)
    unfolding same by simp
  then have len: "bit_length (c * 2 ^ (j + 1074 - d)) \<le> 2098"
    using bounds(3) mant by (simp add: d_def small_exponent_def)
  show ?thesis
    unfolding u_def [symmetric] k_def [symmetric] quotient f64_rounded [OF cj(2) len small]
    by (simp only: small_scaled_def d_def [symmetric] rounded)
qed

section \<open>Encoding in fields\<close>

text \<open>What the encoders return, on the fields of the bit pattern: a NaN, an overflow, or the fields of the
  scaled magnitude.\<close>

definition overflow_fields :: "format \<Rightarrow> bool \<Rightarrow> nat" where
  "overflow_fields f negative = float_fields (exponent_bits f) (mantissa_bits f) negative (2 ^ exponent_bits f - 1)
     (if has_infinity f then 0 else 2 ^ mantissa_bits f - 1)"

definition max_biased :: "format \<Rightarrow> int" where
  "max_biased f = (if has_infinity f then 2 ^ exponent_bits f - 2 else 2 ^ exponent_bits f - 1)"

definition scaled_fields :: "format \<Rightarrow> bool \<Rightarrow> nat \<Rightarrow> int \<Rightarrow> nat" where
  "scaled_fields f negative s x =
    (let e = exponent_bits f; m = mantissa_bits f; biased = (if s < 2 ^ m then 0 else x + float_bias e) in
     if max_biased f < biased \<or> (\<not> has_infinity f \<and> nat biased = 2 ^ e - 1 \<and> s mod 2 ^ m = 2 ^ m - 1)
     then overflow_fields f negative else float_fields e m negative (nat biased) (s mod 2 ^ m))"

definition finite_fields :: "format \<Rightarrow> bool \<Rightarrow> nat \<Rightarrow> nat" where
  "finite_fields f negative u = (let s = small_scaled f u; x = small_exponent f u in
     if 2 ^ (mantissa_bits f + 1) \<le> s then scaled_fields f negative (s div 2) (x + 1) else scaled_fields f negative s x)"

lemma and_not_sign:
  assumes "r < 2 ^ n" "n < 32" "negative \<longrightarrow> clear"
  shows "((if negative then 2 ^ n else 0) + r) AND u32_not (if clear then 2 ^ n else 0) = (r :: nat)"
proof -
  have r: "\<not> bit r i" if "n \<le> i" for i
    using that assms(1) by (metis bit_take_bit_iff not_le take_bit_nat_eq_self)
  have "2 ^ n + r = 2 ^ n OR r" using or_low [OF assms(1), of 1] by simp
  then have "bit ((if negative then 2 ^ n else 0) + r) i \<longleftrightarrow> (negative \<and> i = n) \<or> bit r i" for i
    by (auto simp: bit_or_iff bit_exp_iff)
  moreover have "i < 32 \<and> i \<noteq> n" if "bit r i" for i
    using r [of i] that assms(2) by (cases "n \<le> i") auto
  ultimately show ?thesis using assms(2,3)
    by (intro bit_eqI) (auto simp: bit_and_iff u32_not_def bit_xor_iff bit_mask_iff bit_exp_iff)
qed

lemma fields_not_sign:
  assumes "b < 2 ^ e" "f < 2 ^ m" "e + m < 32" "negative \<longrightarrow> clear"
  shows "float_fields e m negative b f AND u32_not (if clear then 2 ^ (e + m) else 0) = b * 2 ^ m + f"
  using and_not_sign [OF fields_magnitude [OF assms(1,2)] assms(3,4)] by (simp add: float_fields_def add.assoc)

lemma fields_inject:
  assumes "b < 2 ^ e" "f < 2 ^ m" "b' < 2 ^ e" "f' < 2 ^ m"
  shows "b * 2 ^ m + f = b' * 2 ^ m + f' \<longleftrightarrow> b = b' \<and> f = (f' :: nat)"
  using fields_parts [OF assms(1,2), of False] fields_parts [OF assms(3,4), of False]
  by (auto simp: float_fields_def)

lemma wf_shifts:
  assumes "wf_format f"
  shows "exponent_bits f + mantissa_bits f < 32"
    "u32_shl 1 (exponent_bits f + mantissa_bits f) = 2 ^ (exponent_bits f + mantissa_bits f)"
    "u32_shl 1 (exponent_bits f) = 2 ^ exponent_bits f"
    "u32_shl 1 (mantissa_bits f) = 2 ^ mantissa_bits f"
    "b < 2 ^ exponent_bits f \<Longrightarrow> u32_shl b (mantissa_bits f) = b * 2 ^ mantissa_bits f"
proof -
  define e m where em: "e = exponent_bits f" "m = mantissa_bits f"
  have bounds: "e \<le> 8" "m \<le> 10" using assms by (simp_all add: wf_format_def em)
  then show lt: "exponent_bits f + mantissa_bits f < 32" by (simp add: em)
  have shift: "x * 2 ^ n < 2 ^ 32" if "x < 2 ^ e" "n \<le> 10" for x n :: nat
  proof -
    have "x * 2 ^ n < 2 ^ e * 2 ^ n" using that by simp
    also have "\<dots> \<le> 2 ^ 32" unfolding power_add [symmetric] using bounds that(2) by (intro power_increasing) simp_all
    finally show ?thesis .
  qed
  have one: "u32_shl 1 n = 2 ^ n" if "n < 32" for n
    using power_strict_increasing [OF that, of "2 :: nat"] u32_shl_eq [of 1 n] by simp
  show "u32_shl 1 (exponent_bits f + mantissa_bits f) = 2 ^ (exponent_bits f + mantissa_bits f)" by (rule one [OF lt])
  show "u32_shl 1 (exponent_bits f) = 2 ^ exponent_bits f" "u32_shl 1 (mantissa_bits f) = 2 ^ mantissa_bits f"
    using lt by (intro one, simp)+
  show "b < 2 ^ exponent_bits f \<Longrightarrow> u32_shl b (mantissa_bits f) = b * 2 ^ mantissa_bits f"
    by (rule u32_shl_eq) (use shift bounds em in simp)
qed

lemma encode_small_special:
  assumes "wf_format f"
  shows "f64_is_nan v \<Longrightarrow>
      encode_small v f = float_fields (exponent_bits f) (mantissa_bits f) False (2 ^ exponent_bits f - 1) (2 ^ mantissa_bits f - 1)"
    "f64_is_infinite v \<Longrightarrow> encode_small v f = overflow_fields f (f64_negative v)"
    "f64_finite v \<Longrightarrow> f64_units v = 0 \<Longrightarrow>
      encode_small v f = float_fields (exponent_bits f) (mantissa_bits f) (f64_negative v) 0 0"
proof -
  let ?e = "exponent_bits f" and ?m = "mantissa_bits f"
  note shl = wf_shifts [OF assms]
  have top: "2 ^ ?e - 1 < (2 :: nat) ^ ?e" "2 ^ ?m - 1 < (2 :: nat) ^ ?m" by simp_all
  note nan = fields_or [OF top] and inf = fields_or [OF top(1), of 0 ?m, simplified]
  show "encode_small v f = float_fields ?e ?m False (2 ^ ?e - 1) (2 ^ ?m - 1)" if "f64_is_nan v"
    unfolding encode_small_def Let_def shl(2-4) shl(5) [OF top(1)] nan if_P [OF that]
    using fields_not_sign [OF top shl(1), of "f64_negative v" True] by (simp add: float_fields_def)
  show "encode_small v f = overflow_fields f (f64_negative v)" if "f64_is_infinite v"
  proof -
    have "\<not> f64_is_nan v" "f64_is_infinite (f64_abs v)" "\<not> f64_eq (f64_abs v) (f64_of_int 0)"
      using that f64_signed_parts [of 0 False]
      by (simp_all add: f64_is_nan_def f64_is_infinite_def f64_abs_parts f64_eq_def f64_position_def
          f64_of_int_def f64_round_def f64_int_def f64_units_def)
    then show ?thesis
      unfolding encode_small_def Let_def shl(2-4) shl(5) [OF top(1)] nan
      by (simp add: overflow_fields_def inf)
  qed
  show "encode_small v f = float_fields ?e ?m (f64_negative v) 0 0" if "f64_finite v" "f64_units v = 0"
    using that f64_zero_iff [OF that(1)] unfolding encode_small_def Let_def shl(2)
    by (simp add: f64_finiteD float_fields_def)
qed

lemma small_scaled_bounds:
  assumes "wf_format f" "f64_finite v"
  shows "(if 2 ^ (mantissa_bits f + 1) \<le> small_scaled f (f64_units v) then small_scaled f (f64_units v) div 2
      else small_scaled f (f64_units v)) < 2 ^ (mantissa_bits f + 1)"
proof -
  have "n div 2 < n" if "2 ^ (mantissa_bits f + 1) \<le> n" for n :: nat
  proof -
    have "0 < (2 :: nat) ^ (mantissa_bits f + 1)" by simp
    then show ?thesis using that by linarith
  qed
  then show ?thesis using small_scaled_le [OF assms(1) bit_length_finite [OF assms(2)]] by fastforce
qed

text \<open>The last steps of the encoder, on the fields.\<close>

lemma scaled_fields_eq:
  fixes s :: nat and x :: int and negative :: bool
  assumes "wf_format f" "s < 2 ^ (mantissa_bits f + 1)" "1 - float_bias (exponent_bits f) \<le> x"
  defines "sign \<equiv> if negative then u32_shl 1 (exponent_bits f + mantissa_bits f) else 0"
    and "ones \<equiv> u32_shl 1 (exponent_bits f) - 1"
    and "nan \<equiv> (if negative then u32_shl 1 (exponent_bits f + mantissa_bits f) else 0)
      OR u32_shl (u32_shl 1 (exponent_bits f) - 1) (mantissa_bits f) OR (u32_shl 1 (mantissa_bits f) - 1)"
    and "biased \<equiv> if s < 2 ^ mantissa_bits f then 0 else x + float_bias (exponent_bits f)"
  defines "overflow \<equiv> if has_infinity f then sign OR u32_shl ones (mantissa_bits f) else nan"
    and "bits \<equiv> sign OR u32_shl (nat biased) (mantissa_bits f) OR (s mod 2 ^ 32 AND (u32_shl 1 (mantissa_bits f) - 1))"
  shows "(if (if has_infinity f then int ones - 1 else int ones) < biased then overflow
     else if \<not> has_infinity f \<and> bits AND u32_not sign = nan AND u32_not sign then overflow else bits)
    = scaled_fields f negative s x"
proof -
  let ?e = "exponent_bits f" and ?m = "mantissa_bits f"
  note shl = wf_shifts [OF assms(1)]
  have top: "2 ^ ?e - 1 < (2 :: nat) ^ ?e" "2 ^ ?m - 1 < (2 :: nat) ^ ?m" by simp_all
  have sign: "sign = (if negative then 2 ^ (?e + ?m) else 0)" by (simp only: sign_def shl(2))
  have ones: "ones = 2 ^ ?e - 1" by (simp only: ones_def shl(3))
  have nan: "nan = float_fields ?e ?m negative (2 ^ ?e - 1) (2 ^ ?m - 1)"
    unfolding nan_def shl(2-4) shl(5) [OF top(1)] by (rule fields_or [OF top])
  have overflow: "overflow = overflow_fields f negative"
    unfolding overflow_def overflow_fields_def nan sign ones shl(5) [OF top(1)]
    using fields_or [OF top(1), of 0 ?m negative] by simp
  have max: "(if has_infinity f then int ones - 1 else int ones) = max_biased f"
    by (simp add: ones max_biased_def of_nat_diff)
  show ?thesis
  proof (cases "max_biased f < biased")
    case True
    then show ?thesis unfolding max scaled_fields_def Let_def biased_def [symmetric] by (simp add: overflow)
  next
    case False
    have "biased < 2 ^ ?e" using False by (auto simp: max_biased_def split: if_splits)
    then have biased: "nat biased < 2 ^ ?e" by (simp add: nat_less_iff)
    have f: "s mod 2 ^ ?m < 2 ^ ?m" by simp
    have "s < 2 ^ 32"
    proof -
      have "(2 :: nat) ^ (?m + 1) \<le> 2 ^ 32" using shl(1) by (intro power_increasing) simp_all
      then show ?thesis using assms(2) by linarith
    qed
    then have bits: "bits = float_fields ?e ?m negative (nat biased) (s mod 2 ^ ?m)"
      unfolding bits_def sign shl(4) shl(5) [OF biased] using fields_or [OF biased f] by (simp add: and_low)
    have same: "bits AND u32_not sign = nan AND u32_not sign \<longleftrightarrow> nat biased = 2 ^ ?e - 1 \<and> s mod 2 ^ ?m = 2 ^ ?m - 1"
      unfolding bits nan sign fields_not_sign [OF biased f shl(1) imp_refl] fields_not_sign [OF top shl(1) imp_refl]
      by (rule fields_inject [OF biased f top])
    show ?thesis unfolding max same scaled_fields_def Let_def biased_def [symmetric] using False by (simp add: overflow bits)
  qed
qed

lemma encode_small_finite:
  assumes "wf_format f" "f64_finite v" "f64_units v \<noteq> 0"
  shows "encode_small v f = finite_fields f (f64_negative v) (f64_units v)"
proof -
  define u where "u = f64_units v"
  have exponent: "max (int (f64_exponent (f64_abs v)) - 1023) (1 - float_bias (exponent_bits f)) = small_exponent f u"
    using f64_exponent_units [OF assms(3)] wf_bias [OF assms(1)] by (simp add: small_exponent_def f64_abs_parts u_def)
  have low: "1 - float_bias (exponent_bits f) \<le> small_exponent f u" by (simp add: small_exponent_def)
  have finite: "\<not> f64_is_nan v" "\<not> f64_is_infinite (f64_abs v)" "\<not> f64_eq (f64_abs v) (f64_of_int 0)"
    using assms f64_abs_finite [of v] f64_zero_iff [OF assms(2)] by (auto dest: f64_finiteD)
  note scaled = scaled_magnitude [OF assms, folded u_def] and bound = small_scaled_bounds [OF assms(1,2), folded u_def]
  show ?thesis
  proof (cases "2 ^ (mantissa_bits f + 1) \<le> small_scaled f u")
    case True
    show ?thesis
      unfolding encode_small_def Let_def exponent scaled u_def [symmetric] if_P [OF True] prod.case finite_fields_def
        if_not_P [OF finite(1)] if_not_P [OF finite(2)] if_not_P [OF finite(3)]
      by (rule scaled_fields_eq [OF assms(1)]) (use bound True low in simp_all)
  next
    case False
    show ?thesis
      unfolding encode_small_def Let_def exponent scaled u_def [symmetric] if_not_P [OF False] prod.case finite_fields_def
        if_not_P [OF finite(1)] if_not_P [OF finite(2)] if_not_P [OF finite(3)]
      by (rule scaled_fields_eq [OF assms(1)]) (use bound False low in simp_all)
  qed
qed

section \<open>Decoding in fields\<close>

text \<open>The magnitude of the fields in units: the significand and the power of the unit in its last place.\<close>

definition significand :: "format \<Rightarrow> nat \<Rightarrow> nat \<Rightarrow> nat" where
  "significand f b x = (if b = 0 then x else 2 ^ mantissa_bits f + x)"

definition unit_place :: "format \<Rightarrow> nat \<Rightarrow> nat" where
  "unit_place f b = nat (1074 + max 1 (int b) - float_bias (exponent_bits f) - int (mantissa_bits f))"

definition is_special :: "format \<Rightarrow> nat \<Rightarrow> nat \<Rightarrow> bool" where
  "is_special f b x \<longleftrightarrow> b = 2 ^ exponent_bits f - 1 \<and> (has_infinity f \<or> x = 2 ^ mantissa_bits f - 1)"

lemma unit_place_bounds:
  assumes "wf_format f" "b < 2 ^ exponent_bits f"
  shows "int (unit_place f b) = 1074 + max 1 (int b) - float_bias (exponent_bits f) - int (mantissa_bits f)"
    "unit_place f b \<le> 2000"
proof -
  have mant: "mantissa_bits f \<le> 10" "exponent_bits f \<le> 8" using assms(1) by (simp_all add: wf_format_def)
  have "(2 :: nat) ^ exponent_bits f \<le> 2 ^ 8" using mant(2) by (intro power_increasing) auto
  then have "b < 256" using assms(2) by simp
  then show "int (unit_place f b) = 1074 + max 1 (int b) - float_bias (exponent_bits f) - int (mantissa_bits f)"
    "unit_place f b \<le> 2000" using wf_bias [OF assms(1)] mant(1) by (auto simp: unit_place_def)
qed

lemma significand_bound:
  assumes "wf_format f" "x < 2 ^ mantissa_bits f"
  shows "significand f b x < 2 ^ (mantissa_bits f + 1)" "significand f b x < 2 ^ 53"
proof -
  show s: "significand f b x < 2 ^ (mantissa_bits f + 1)" using assms(2) by (simp add: significand_def)
  have "(2 :: nat) ^ (mantissa_bits f + 1) \<le> 2 ^ 53"
    using assms(1) by (intro power_increasing) (simp_all add: wf_format_def)
  then show "significand f b x < 2 ^ 53" using s by linarith
qed

lemma decode_small_fields:
  assumes "wf_format f" "b < 2 ^ exponent_bits f" "x < 2 ^ mantissa_bits f"
  shows "\<not> is_special f b x \<Longrightarrow> decode_small (float_fields (exponent_bits f) (mantissa_bits f) negative b x) f =
      f64_of_units negative (significand f b x * 2 ^ unit_place f b)"
    "is_special f b x \<Longrightarrow> has_infinity f \<Longrightarrow> x = 0 \<Longrightarrow>
      decode_small (float_fields (exponent_bits f) (mantissa_bits f) negative b x) f = f64_infinity negative"
    "is_special f b x \<Longrightarrow> \<not> has_infinity f \<or> x \<noteq> 0 \<Longrightarrow>
      f64_is_nan (decode_small (float_fields (exponent_bits f) (mantissa_bits f) negative b x) f)"
proof -
  let ?e = "exponent_bits f" and ?m = "mantissa_bits f"
  note shl = wf_shifts [OF assms(1)] and parts = fields_parts [OF assms(2,3)]
  have or: "2 ^ ?m OR x = 2 ^ ?m + x" using or_low [OF assms(3), of 1] by simp
  show "decode_small (float_fields ?e ?m negative b x) f = f64_of_units negative (significand f b x * 2 ^ unit_place f b)"
    if "\<not> is_special f b x"
  proof -
    define k where "k = max 1 (int b) - float_bias ?e - int ?m"
    have pl: "int (unit_place f b) = 1074 + k" using unit_place_bounds(1) [OF assms(1,2)] by (simp add: k_def)
    have k: "- 1074 \<le> k" "k \<le> 1023" "unit_place f b = nat (1074 + k)"
      using pl unit_place_bounds(2) [OF assms(1,2)] by linarith+
    have mul: "f64_mul (f64_of_int (int (significand f b x))) (f64_powi2 k) = f64_of_units False (significand f b x * 2 ^ unit_place f b)"
      unfolding k(3) by (rule f64_mul_power [OF significand_bound(2) [OF assms(1,3)] k(1,2)])
    show ?thesis using that mul parts unfolding decode_small_def Let_def shl(2-4)
      by (auto simp: is_special_def significand_def k_def or f64_neg_units)
  qed
  show "decode_small (float_fields ?e ?m negative b x) f = f64_infinity negative" if "is_special f b x" "has_infinity f" "x = 0"
    using that parts unfolding decode_small_def Let_def shl(2-4)
    by (simp add: is_special_def f64_infinity_def f64_neg_signed)
  show "f64_is_nan (decode_small (float_fields ?e ?m negative b x) f)" if "is_special f b x" "\<not> has_infinity f \<or> x \<noteq> 0"
    using that parts unfolding decode_small_def Let_def shl(2-4)
    by (auto simp: is_special_def f64_nan_parts)
qed

section \<open>The grid of a format\<close>

lemma grid_exponent:
  assumes "wf_format f" "b < 2 ^ exponent_bits f" "x < 2 ^ mantissa_bits f" "significand f b x \<noteq> 0"
  shows "small_exponent f (significand f b x * 2 ^ unit_place f b) = max 1 (int b) - float_bias (exponent_bits f)"
proof -
  note pl = unit_place_bounds(1) [OF assms(1,2)]
  have len: "bit_length (significand f b x * 2 ^ unit_place f b) = bit_length (significand f b x) + unit_place f b"
    using assms(4) by (intro bit_length_mult_power) simp
  show ?thesis
  proof (cases "b = 0")
    case True
    then have "bit_length (significand f b x) \<le> mantissa_bits f"
      using assms(3) by (intro bit_length_le) (simp add: significand_def)
    then show ?thesis using pl True unfolding small_exponent_def len by simp
  next
    case False
    have "bit_length (significand f b x) = Suc (mantissa_bits f)"
      using False significand_bound(1) [OF assms(1,3), of b] by (intro bit_length_unique) (simp_all add: significand_def)
    then show ?thesis using pl False unfolding small_exponent_def len by simp
  qed
qed

lemma grid_finite:
  assumes "wf_format f" "b < 2 ^ exponent_bits f" "x < 2 ^ mantissa_bits f"
  shows "bit_length (significand f b x * 2 ^ unit_place f b) \<le> 2098"
proof (cases "significand f b x = 0")
  case False
  then have "bit_length (significand f b x * 2 ^ unit_place f b) = bit_length (significand f b x) + unit_place f b"
    by (intro bit_length_mult_power) simp
  then show ?thesis
    using bit_length_le [OF significand_bound(2) [OF assms(1,3)], of b] unit_place_bounds(2) [OF assms(1,2)] by linarith
qed (simp add: bit_length_zero)

lemma quantum_of_exponent:
  assumes "wf_format f" "b < 2 ^ exponent_bits f" "small_exponent f u = max 1 (int b) - float_bias (exponent_bits f)"
  shows "quantum_power f u = unit_place f b"
  using assms(3) by (simp add: quantum_power_def unit_place_def algebra_simps)

lemma encode_grid:
  assumes "wf_format f" "b < 2 ^ exponent_bits f" "x < 2 ^ mantissa_bits f" "\<not> is_special f b x"
  shows "encode_small (f64_of_units negative (significand f b x * 2 ^ unit_place f b)) f =
    float_fields (exponent_bits f) (mantissa_bits f) negative b x"
proof -
  let ?S = "significand f b x" and ?e = "exponent_bits f" and ?m = "mantissa_bits f"
  note v = f64_of_units_finite [OF significand_bound(2) [OF assms(1,3), of b] grid_finite [OF assms(1-3)], of negative]
  show ?thesis
  proof (cases "?S = 0")
    case True
    then have "b = 0" "x = 0" by (auto simp: significand_def split: if_splits)
    then show ?thesis using encode_small_special(3) [OF assms(1) v(2)] v True by simp
  next
    case False
    note ex = grid_exponent [OF assms(1-3) False]
    have scaled: "small_scaled f (?S * 2 ^ unit_place f b) = ?S"
      unfolding small_scaled_def quantum_of_exponent [OF assms(1,2) ex] by (rule round_exact) simp
    have s: "\<not> 2 ^ (?m + 1) \<le> ?S" using significand_bound(1) [OF assms(1,3), of b] by simp
    have biased: "(if ?S < 2 ^ ?m then 0 else max 1 (int b) - float_bias ?e + float_bias ?e) = int b"
      using assms(3) by (auto simp: significand_def)
    have low: "?S mod 2 ^ ?m = x" using assms(3) by (simp add: significand_def)
    have "int b < int (2 ^ ?e)" using assms(2) by (simp only: of_nat_less_iff)
    then have "int b \<le> 2 ^ ?e - 1" by simp
    moreover have "int b \<noteq> 2 ^ ?e - 1" if "has_infinity f"
    proof
      assume "int b = 2 ^ ?e - 1"
      then have "int b = int (2 ^ ?e - 1)" by (simp add: of_nat_diff)
      then have "b = 2 ^ ?e - 1" by (rule of_nat_eq_iff [THEN iffD1])
      then show False using that assms(4) by (simp add: is_special_def)
    qed
    ultimately have "\<not> max_biased f < int b"
      unfolding max_biased_def by (cases "has_infinity f"; simp only: if_True if_False simp_thms; linarith)
    then have fields: "scaled_fields f negative ?S (max 1 (int b) - float_bias ?e) = float_fields ?e ?m negative b x"
      using assms(4) unfolding scaled_fields_def Let_def biased low by (auto simp: is_special_def)
    have nonzero: "f64_units (f64_of_units negative (?S * 2 ^ unit_place f b)) \<noteq> 0" using v(3) False by simp
    show ?thesis
      unfolding encode_small_finite [OF assms(1) v(2) nonzero] v(1,3) finite_fields_def Let_def scaled ex if_not_P [OF s]
      by (rule fields)
  qed
qed

lemma small_round_trip:
  assumes "wf_format f" "bits < 2 ^ (1 + exponent_bits f + mantissa_bits f)" "\<not> f64_is_nan (decode_small bits f)"
  shows "encode_small (decode_small bits f) f = bits"
proof -
  obtain negative b x where bits: "bits = float_fields (exponent_bits f) (mantissa_bits f) negative b x"
    and bx: "b < 2 ^ exponent_bits f" "x < 2 ^ mantissa_bits f" using fields_cases [OF assms(2)] by blast
  note dec = decode_small_fields [OF assms(1) bx, of negative]
  show ?thesis
  proof (cases "is_special f b x")
    case True
    have inf: "has_infinity f" "x = 0" "b = 2 ^ exponent_bits f - 1"
      using dec(3) [OF True] assms(3) True unfolding bits is_special_def by blast+
    show ?thesis
      unfolding bits dec(2) [OF True inf(1,2)] encode_small_special(2) [OF assms(1) f64_infinity_parts(1)]
      using inf by (simp add: overflow_fields_def f64_infinity_parts)
  next
    case False
    then show ?thesis unfolding bits dec(1) [OF False] by (rule encode_grid [OF assms(1) bx])
  qed
qed

section \<open>Nearest values\<close>

text \<open>Above the least exponent a magnitude has the leading bit of its exponent.\<close>

lemma leading_bit:
  assumes "wf_format f" "bit_length u \<le> 2098" "u \<noteq> 0" "small_exponent f u \<noteq> 1 - float_bias (exponent_bits f)"
  shows "2 ^ mantissa_bits f * 2 ^ quantum_power f u \<le> u"
proof -
  have "small_exponent f u = int (bit_length u) - 1075" using assms(4) by (auto simp: small_exponent_def max_def split: if_splits)
  then have "mantissa_bits f + quantum_power f u = bit_length u - 1"
    using small_exponent_bounds(3) [OF assms(1,2)] by linarith
  then show ?thesis using bit_length_bounds [of u] assms(3) by (simp flip: power_add)
qed

lemma nearest_grid:
  assumes "wf_format f" "bit_length u \<le> 2098" "b < 2 ^ exponent_bits f" "x < 2 ^ mantissa_bits f"
  shows "\<bar>int (small_scaled f u) * int (2 ^ quantum_power f u) - int u\<bar> \<le> \<bar>int (significand f b x * 2 ^ unit_place f b) - int u\<bar>"
    "\<bar>int (small_scaled f u) * int (2 ^ quantum_power f u) - int u\<bar> \<le> int u"
proof -
  let ?d = "quantum_power f u"
  have near: "\<bar>int (small_scaled f u) * int (2 ^ ?d) - int u\<bar> \<le> \<bar>k * int (2 ^ ?d) - int u\<bar>" for k
    unfolding small_scaled_def by (rule round_half_even_nearest) simp
  show "\<bar>int (small_scaled f u) * int (2 ^ ?d) - int u\<bar> \<le> int u" using near [of 0] by simp
  show "\<bar>int (small_scaled f u) * int (2 ^ ?d) - int u\<bar> \<le> \<bar>int (significand f b x * 2 ^ unit_place f b) - int u\<bar>"
  proof (cases "?d \<le> unit_place f b")
    case True
    have "(2 :: nat) ^ unit_place f b = 2 ^ (unit_place f b - ?d) * 2 ^ ?d" using True by (simp flip: power_add)
    then show ?thesis using near [of "int (significand f b x * 2 ^ (unit_place f b - ?d))"] by (simp only: of_nat_mult ac_simps)
  next
    case False
    have "small_exponent f u \<noteq> 1 - float_bias (exponent_bits f)"
      using False unit_place_bounds(1) [OF assms(1,3)] small_exponent_bounds(3) [OF assms(1,2)] by linarith
    moreover have "u \<noteq> 0"
    proof
      assume "u = 0"
      then show False using calculation wf_bias [OF assms(1)] by (simp add: small_exponent_def bit_length_zero)
    qed
    ultimately have lead: "2 ^ mantissa_bits f * 2 ^ ?d \<le> u" by (intro leading_bit [OF assms(1,2)])
    have "significand f b x * 2 ^ unit_place f b < 2 ^ (mantissa_bits f + 1) * 2 ^ unit_place f b"
      using significand_bound(1) [OF assms(1,4), of b] by simp
    also have "\<dots> \<le> 2 ^ mantissa_bits f * 2 ^ ?d"
      unfolding power_add [symmetric] using False by (intro power_increasing) simp_all
    finally have "int (significand f b x * 2 ^ unit_place f b) < int (2 ^ mantissa_bits f * 2 ^ ?d)" by (simp only: of_nat_less_iff)
    moreover have "int (2 ^ mantissa_bits f * 2 ^ ?d) \<le> int u" using lead by (simp only: of_nat_le_iff)
    ultimately show ?thesis using near [of "int (2 ^ mantissa_bits f)"] by (simp only: of_nat_mult)
  qed
qed

lemma overflow_not_finite:
  assumes "wf_format f"
  shows "\<not> f64_finite (decode_small (overflow_fields f negative) f)"
proof -
  let ?b = "2 ^ exponent_bits f - 1 :: nat" and ?x = "if has_infinity f then 0 else 2 ^ mantissa_bits f - 1 :: nat"
  have bx: "?b < 2 ^ exponent_bits f" "?x < 2 ^ mantissa_bits f" by simp_all
  have special: "is_special f ?b ?x" by (simp add: is_special_def)
  show ?thesis
    using decode_small_fields(2,3) [OF assms bx special, of negative] f64_infinity_parts(1) [of negative]
    unfolding overflow_fields_def by (cases "has_infinity f") (auto dest: f64_infinite_not_finite)
qed

lemma decode_scaled:
  assumes "wf_format f" "s < 2 ^ (mantissa_bits f + 1)" "1 - float_bias (exponent_bits f) \<le> x"
    "s < 2 ^ mantissa_bits f \<Longrightarrow> x = 1 - float_bias (exponent_bits f)"
    "f64_finite (decode_small (scaled_fields f negative s x) f)"
  shows "decode_small (scaled_fields f negative s x) f =
      f64_of_units negative (s * 2 ^ nat (1074 + x - int (mantissa_bits f))) \<and>
    bit_length (s * 2 ^ nat (1074 + x - int (mantissa_bits f))) \<le> 2098"
proof -
  let ?e = "exponent_bits f" and ?m = "mantissa_bits f"
  define biased where "biased = (if s < 2 ^ ?m then 0 else x + float_bias ?e)"
  have fields: "scaled_fields f negative s x = float_fields ?e ?m negative (nat biased) (s mod 2 ^ ?m)"
    and ok: "biased \<le> max_biased f" "\<not> (\<not> has_infinity f \<and> nat biased = 2 ^ ?e - 1 \<and> s mod 2 ^ ?m = 2 ^ ?m - 1)"
    using assms(5) overflow_not_finite [OF assms(1), of negative]
    unfolding scaled_fields_def Let_def biased_def [symmetric] by (auto split: if_splits)
  have pos: "0 \<le> biased" using assms(3) by (simp add: biased_def)
  have "max_biased f < 2 ^ ?e" by (simp add: max_biased_def)
  then have b: "nat biased < 2 ^ ?e" using ok(1) pos by (simp add: nat_less_iff)
  have f: "s mod 2 ^ ?m < 2 ^ ?m" by simp
  have "nat biased \<noteq> 2 ^ ?e - 1" if "has_infinity f"
  proof
    assume "nat biased = 2 ^ ?e - 1"
    moreover have "biased = int (nat biased)" using pos by simp
    ultimately have "biased = int (2 ^ ?e - 1)" by simp
    then show False using ok(1) that by (simp add: max_biased_def of_nat_diff)
  qed
  then have special: "\<not> is_special f (nat biased) (s mod 2 ^ ?m)" using ok(2) by (auto simp: is_special_def)
  have "significand f (nat biased) (s mod 2 ^ ?m) = s"
  proof (cases "s < 2 ^ ?m")
    case False
    have "biased = x + float_bias ?e" using False by (simp add: biased_def)
    then have "nat biased \<noteq> 0" using assms(3) by simp
    moreover have "s mod 2 ^ ?m = s - 2 ^ ?m" using False assms(2) by (simp add: le_mod_geq)
    ultimately show ?thesis using False by (simp add: significand_def)
  qed (simp add: significand_def biased_def)
  moreover have "unit_place f (nat biased) = nat (1074 + x - int ?m)"
    using assms(3,4) by (auto simp: unit_place_def biased_def)
  ultimately show ?thesis
    using decode_small_fields(1) [OF assms(1) b f special, of negative] grid_finite [OF assms(1) b f] by (simp only: fields)
qed

lemma decode_encode_finite:
  assumes "wf_format f" "f64_finite v" "f64_units v \<noteq> 0" "f64_finite (decode_small (encode_small v f) f)"
  shows "decode_small (encode_small v f) f =
      f64_of_units (f64_negative v) (small_scaled f (f64_units v) * 2 ^ quantum_power f (f64_units v)) \<and>
    bit_length (small_scaled f (f64_units v) * 2 ^ quantum_power f (f64_units v)) \<le> 2098"
proof -
  define u s x where usx: "u = f64_units v" "s = small_scaled f u" "x = small_exponent f u"
  let ?m = "mantissa_bits f"
  note len = bit_length_finite [OF assms(2), folded usx]
  have low: "1 - float_bias (exponent_bits f) \<le> x" by (simp add: usx small_exponent_def)
  have lead: "x = 1 - float_bias (exponent_bits f)" if "s < 2 ^ ?m"
  proof (rule ccontr)
    assume "x \<noteq> 1 - float_bias (exponent_bits f)"
    then have "2 ^ ?m * 2 ^ quantum_power f u \<le> u"
      using assms(3) by (intro leading_bit [OF assms(1) len]) (simp_all add: usx)
    then have "2 ^ ?m \<le> s" unfolding usx(2) small_scaled_def by (intro round_half_even_ge) simp_all
    then show False using that by simp
  qed
  have power: "quantum_power f u = nat (1074 + x - int ?m)" by (simp add: quantum_power_def usx)
  note enc = encode_small_finite [OF assms(1-3), folded usx(1), unfolded finite_fields_def Let_def, folded usx(2,3)]
  show ?thesis
  proof (cases "2 ^ (?m + 1) \<le> s")
    case True
    then have s: "s = 2 * 2 ^ ?m" using small_scaled_le [OF assms(1) len, folded usx(2)] by simp
    have "int (quantum_power f u) = 1074 + x - int ?m" 
      using small_exponent_bounds(3) [OF assms(1) len] by (simp only: usx)
    then have next_power: "nat (1074 + (x + 1) - int ?m) = Suc (quantum_power f u)" by simp
    have half: "s div 2 = 2 ^ ?m" using s by simp
    have "decode_small (scaled_fields f (f64_negative v) (s div 2) (x + 1)) f =
        f64_of_units (f64_negative v) (s div 2 * 2 ^ nat (1074 + (x + 1) - int ?m)) \<and>
        bit_length (s div 2 * 2 ^ nat (1074 + (x + 1) - int ?m)) \<le> 2098"
      by (rule decode_scaled [OF assms(1)]) (use assms(4) enc True low half in simp_all)
    moreover have "2 ^ ?m * 2 ^ Suc (quantum_power f u) = s * 2 ^ quantum_power f u" by (simp add: s)
    ultimately show ?thesis unfolding enc if_P [OF True] next_power half usx(1,2) [symmetric] by (simp only:)
  next
    case False
    then have "decode_small (scaled_fields f (f64_negative v) s x) f = f64_of_units (f64_negative v) (s * 2 ^ quantum_power f u)
        \<and> bit_length (s * 2 ^ quantum_power f u) \<le> 2098"
      unfolding power by (intro decode_scaled [OF assms(1)]) (use assms(4) enc False low lead in simp_all)
    then show ?thesis unfolding enc if_not_P [OF False] usx(1,2) [symmetric] by simp
  qed
qed

lemma fields_bound: "b < 2 ^ e \<Longrightarrow> x < 2 ^ m \<Longrightarrow> float_fields e m negative b x < 2 ^ (1 + e + m)"
  using fields_magnitude [of b e x m] by (simp add: float_fields_def)

lemma encode_small_bound:
  assumes "wf_format f"
  shows "encode_small v f < 2 ^ (1 + exponent_bits f + mantissa_bits f)"
proof -
  have overflow: "overflow_fields f n < 2 ^ (1 + exponent_bits f + mantissa_bits f)" for n
    unfolding overflow_fields_def by (rule fields_bound) simp_all
  have "max_biased f < 2 ^ exponent_bits f" by (simp add: max_biased_def)
  then have fit: "float_fields (exponent_bits f) (mantissa_bits f) n (nat b) (s mod 2 ^ mantissa_bits f)
      < 2 ^ (1 + exponent_bits f + mantissa_bits f)" if "\<not> max_biased f < b" for n b s
    using that by (intro fields_bound) (simp_all add: nat_less_iff)
  have "scaled_fields f n s x < 2 ^ (1 + exponent_bits f + mantissa_bits f)" for n s x
  proof -
    define b where "b = (if s < 2 ^ mantissa_bits f then 0 else x + float_bias (exponent_bits f))"
    show ?thesis unfolding scaled_fields_def Let_def b_def [symmetric] using overflow [of n] fit [of b n s]
      by (cases "max_biased f < b") simp_all
  qed
  then have finite: "finite_fields f n u < 2 ^ (1 + exponent_bits f + mantissa_bits f)" for n u
    unfolding finite_fields_def Let_def by (simp split: if_split)
  consider "f64_is_nan v" | "f64_is_infinite v" | "f64_finite v" "f64_units v = 0" | "f64_finite v" "f64_units v \<noteq> 0"
    by (auto simp: f64_finite_iff)
  then show ?thesis
  proof cases
    case 1
    show ?thesis unfolding encode_small_special(1) [OF assms 1] by (rule fields_bound) simp_all
  next
    case 2
    show ?thesis unfolding encode_small_special(2) [OF assms 2] by (rule overflow)
  next
    case 3
    show ?thesis unfolding encode_small_special(3) [OF assms 3] by (rule fields_bound) simp_all
  next
    case 4
    show ?thesis unfolding encode_small_finite [OF assms 4] by (rule finite)
  qed
qed

lemma width_small:
  assumes "width_format w = Some f"
  shows "width_encode w v = encode_small v f" "width_decode w bits = decode_small (bits mod 2 ^ 32) f"
    "1 + exponent_bits f + mantissa_bits f = 8 * float_width_bytes w"
proof -
  show "width_encode w v = encode_small v f" using assms by (cases w) (simp_all add: width_encode_def)
  show "width_decode w bits = decode_small (bits mod 2 ^ 32) f" using assms by (cases w) (simp_all add: width_decode_def)
  show "1 + exponent_bits f + mantissa_bits f = 8 * float_width_bytes w" using assms by (cases w) auto
qed

lemma width_bits_u32: "width_format w = Some f \<Longrightarrow> bits < 2 ^ (8 * float_width_bytes w) \<Longrightarrow> bits mod 2 ^ 32 = (bits :: nat)"
  by (cases w) auto

section \<open>Properties\<close>

lemma width_round_trip:
  assumes "width_format w = Some f" "bits < 2 ^ (8 * float_width_bytes w)" "\<not> f64_is_nan (width_decode w bits)"
  shows "width_encode w (width_decode w bits) = bits"
proof -
  note small = width_small [OF assms(1)] and u32 = width_bits_u32 [OF assms(1,2)]
  have "bits < 2 ^ (1 + exponent_bits f + mantissa_bits f)" using assms(2) by (simp only: small(3))
  then show ?thesis using assms(3) small_round_trip [OF wf_width_format [OF assms(1)]] by (simp only: small u32)
qed

text \<open>C8: every bit pattern of a reduced-precision format that is not a NaN comes back from its widened
  value.\<close>

theorem small_float_round_trip:
  assumes "width_format w = Some f" "bits < 2 ^ (8 * float_width_bytes w)" "\<not> f64_is_nan (width_decode w bits)"
  shows "width_encode w (width_decode w bits) = bits"
  using assms by (rule width_round_trip)

lemma grid_value:
  assumes "wf_format f" "bits < 2 ^ (1 + exponent_bits f + mantissa_bits f)" "f64_finite (decode_small bits f)"
  obtains b x where "b < 2 ^ exponent_bits f" "x < 2 ^ mantissa_bits f"
    "f64_units (decode_small bits f) = significand f b x * 2 ^ unit_place f b"
proof -
  obtain negative b x where bits: "bits = float_fields (exponent_bits f) (mantissa_bits f) negative b x"
    and bx: "b < 2 ^ exponent_bits f" "x < 2 ^ mantissa_bits f" using fields_cases [OF assms(2)] by blast
  note dec = decode_small_fields [OF assms(1) bx, of negative]
  have "\<not> is_special f b x"
    using dec(2,3) assms(3) f64_infinity_parts(1) [of negative] unfolding bits by (metis f64_infinite_not_finite)
  then have "decode_small bits f = f64_of_units negative (significand f b x * 2 ^ unit_place f b)" unfolding bits by (rule dec(1))
  then show ?thesis
    using that [OF bx] f64_of_units_finite(3) [OF significand_bound(2) [OF assms(1) bx(2)] grid_finite [OF assms(1) bx]] by simp
qed

lemma nearest_signed:
  assumes "\<bar>int r - int u\<bar> \<le> \<bar>int g - int u\<bar>" "\<bar>int r - int u\<bar> \<le> int u"
  shows "\<bar>(if n then - int r else int r) - (if n then - int u else int u)\<bar> \<le>
    \<bar>(if k then - int g else int g) - (if n then - int u else int u)\<bar>"
  using assms by (cases n; cases k; simp; linarith)


lemma scaled_magnitude_runtime:
  assumes "wf_format f" "f64_finite x" "f64_units x \<noteq> 0"
  shows "f64_mul (f64_abs x) (f64_powi2 (int (mantissa_bits f) - small_exponent f (f64_units x))) =
    f64_div (f64_abs x) (f64_powi2 (small_exponent f (f64_units x) - int (mantissa_bits f)))"
proof -
  define u k where uk: "u = f64_units x" "k = small_exponent f u - int (mantissa_bits f)"
  note bounds = small_exponent_bounds [OF assms(1) bit_length_finite [OF assms(2)], folded uk]
  have mant: "2 \<le> mantissa_bits f" "mantissa_bits f \<le> 10" using assms(1) by (simp_all add: wf_format_def)
  have k: "- 1074 \<le> k" "k \<le> 1023" "- 1074 \<le> - k" "- k \<le> 1023" using bounds mant by (simp_all add: uk)
  note down = f64_powi2_parts [OF k(1,2)] and up = f64_powi2_parts [OF k(3,4)]
  have parts: "\<not> f64_negative (f64_abs x)" "f64_finite (f64_abs x)" "f64_units (f64_abs x) = u"
    using assms(2) f64_abs_parts [of x] by (simp_all add: f64_abs_finite f64_abs_units uk)
  have "f64_mul (f64_abs x) (f64_powi2 (- k)) = f64_round False (int u * int (2 ^ nat (1074 + - k))) (2 ^ 2148)"
    using parts up by (simp only: f64_mul_def Let_def f64_finiteD f64_int_def) simp
  also have "\<dots> = f64_signed False (f64_of_ratio (u * 2 ^ nat (1074 + - k)) (2 ^ nat (1074 + k) * 2 ^ nat (1074 + - k)))"
  proof -
    have "nat (1074 + k) + nat (1074 + - k) = 2148" using k by simp
    then have "(2 :: nat) ^ nat (1074 + k) * 2 ^ nat (1074 + - k) = 2 ^ 2148" by (simp only: power_add [symmetric])
    then show ?thesis by (simp only: of_nat_mult [symmetric] f64_round_nat)
  qed
  also have "\<dots> = f64_round False (int u) (2 ^ nat (1074 + k))"
    by (subst f64_of_ratio_cancel) (simp_all only: f64_round_nat zero_less_power zero_less_numeral)
  also have "\<dots> = f64_div (f64_abs x) (f64_powi2 k)"
    using parts down by (simp only: f64_div_def Let_def f64_finiteD f64_int_def) simp
  finally show ?thesis by (simp add: uk)
qed

lemma float_format_code:
  assumes "small_code w = Some code"
  shows "\<exists>f. width_format w = Some f \<and> float_format code = Some (exponent_bits f, mantissa_bits f, has_infinity f)"
  using assms by (cases w) (auto simp: float_format_def)

lemma runtime_conversions:
  assumes "small_code w = Some code"
  shows "float_from_f64 v code = Some (width_encode w v)"
    "float_to_f64 (bits mod 2 ^ 32) code = Some (width_decode w bits)"
proof -
  obtain f where f: "width_format w = Some f" "float_format code = Some (exponent_bits f, mantissa_bits f, has_infinity f)"
    using float_format_code [OF assms] by blast
  note small = width_small [OF f(1)] and wf = wf_width_format [OF f(1)]
  show "float_to_f64 (bits mod 2 ^ 32) code = Some (width_decode w bits)"
    by (simp add: small float_to_f64_def f(2) decode_small_def Let_def)
  show "float_from_f64 v code = Some (width_encode w v)"
  proof (cases "f64_finite v \<and> f64_units v \<noteq> 0")
    case True
    have exponent: "max (int (f64_exponent (f64_abs v)) - 1023) (1 - float_bias (exponent_bits f)) = small_exponent f (f64_units v)"
      using f64_exponent_units True wf_bias [OF wf] by (simp add: small_exponent_def f64_abs_parts)
    show ?thesis
      unfolding small float_from_f64_def encode_small_def f(2) option.case prod.case Let_def exponent
        scaled_magnitude_runtime [OF wf conjunct1 [OF True] conjunct2 [OF True]]
      by (simp only: if_distrib [of Some] prod.case_distrib [of Some])
  next
    case False
    then consider "f64_is_nan v" | "\<not> f64_is_nan v" "f64_eq (f64_abs v) (f64_of_int 0)" | "\<not> f64_is_nan v" "f64_is_infinite (f64_abs v)"
      using f64_zero_iff [of v] f64_finite_iff [of v] f64_abs_infinite [of v] by blast
    then show ?thesis
      unfolding small float_from_f64_def encode_small_def f(2) option.case prod.case Let_def
      by cases simp_all
  qed
qed

text \<open>The runtime's conversions are the compiler's: both narrow every value to the same bits and widen
  every bit pattern to the same value.\<close>

theorem runtime_floats_agree:
  assumes "small_code w = Some code"
  shows "float_from_f64 v code = Some (width_encode w v) \<and>
    float_to_f64 (bits mod 2 ^ 32) code = Some (width_decode w bits)"
  using runtime_conversions [OF assms] by blast

section \<open>Rounding twice\<close>

text \<open>In a format with infinities only a NaN encodes as a NaN, so rounding again changes nothing.\<close>

lemma encode_not_nan:
  assumes "wf_format f" "has_infinity f" "\<not> f64_is_nan v"
  shows "\<not> f64_is_nan (decode_small (encode_small v f) f)"
proof -
  let ?e = "exponent_bits f" and ?m = "mantissa_bits f"
  have ones: "(2 :: nat) ^ 4 \<le> 2 ^ ?e" using assms(1) by (intro power_increasing) (simp_all add: wf_format_def)
  have grid: "\<not> f64_is_nan (decode_small (float_fields ?e ?m n b x) f)"
    if "b < 2 ^ ?e - 1" "x < 2 ^ ?m" for n b x
  proof -
    have b: "b < 2 ^ ?e" "\<not> is_special f b x" using that(1) by (auto simp: is_special_def)
    show ?thesis
      using f64_of_units_finite(2) [OF significand_bound(2) [OF assms(1) that(2)] grid_finite [OF assms(1) b(1) that(2)]]
      by (simp add: decode_small_fields(1) [OF assms(1) b(1) that(2) b(2)] f64_finiteD)
  qed
  have infinity: "\<not> f64_is_nan (decode_small (overflow_fields f n) f)" for n
    using decode_small_fields(2) [OF assms(1), of "2 ^ ?e - 1" 0 n] assms(2) f64_infinity_parts(1) [of n]
    by (simp add: overflow_fields_def is_special_def f64_is_nan_def f64_is_infinite_def)
  have scaled: "\<not> f64_is_nan (decode_small (scaled_fields f n s x) f)" for n s x
  proof -
    define b where "b = (if s < 2 ^ ?m then 0 else x + float_bias ?e)"
    have "nat b < 2 ^ ?e - 1" if "\<not> max_biased f < b"
    proof -
      have "nat b \<le> nat (max_biased f)" using that by (intro nat_mono) simp
      moreover have "int (2 ^ ?e - 2) = max_biased f" using ones assms(2) by (simp add: max_biased_def of_nat_diff)
      then have "nat (max_biased f) = 2 ^ ?e - 2" by (simp only: nat_int flip: \<open>int (2 ^ ?e - 2) = max_biased f\<close>)
      moreover have "(16 :: nat) \<le> 2 ^ ?e" using ones by simp
      ultimately show ?thesis by linarith
    qed
    then show ?thesis
      unfolding scaled_fields_def Let_def b_def [symmetric] using infinity [of n] grid [of "nat b" "s mod 2 ^ ?m" n] assms(2)
      by (cases "max_biased f < b") simp_all
  qed
  consider "f64_is_infinite v" | "f64_finite v" "f64_units v = 0" | "f64_finite v" "f64_units v \<noteq> 0"
    using assms(3) by (auto simp: f64_finite_iff)
  then show ?thesis
  proof cases
    case 1
    show ?thesis unfolding encode_small_special(2) [OF assms(1) 1] by (rule infinity)
  next
    case 2
    show ?thesis unfolding encode_small_special(3) [OF assms(1) 2] by (rule grid) (use ones in simp_all)
  next
    case 3
    show ?thesis unfolding encode_small_finite [OF assms(1) 3] finite_fields_def Let_def
      using scaled by (simp split: if_split)
  qed
qed

lemma encode_round:
  assumes "width_format w = Some f" "has_infinity f"
  shows "width_encode w (width_round w v) = width_encode w v"
proof -
  note wf = wf_width_format [OF assms(1)] and small = width_small [OF assms(1)]
  have round: "width_round w v = width_decode w (width_encode w v)" using assms(1) by (cases w) (simp_all add: width_round_def)
  have bound: "width_encode w v < 2 ^ (8 * float_width_bytes w)" using encode_small_bound [OF wf, of v] by (simp only: small)
  show ?thesis
  proof (cases "f64_is_nan v")
    case True
    let ?b = "2 ^ exponent_bits f - 1 :: nat" and ?x = "2 ^ mantissa_bits f - 1 :: nat"
    have "(2 :: nat) ^ 2 \<le> 2 ^ mantissa_bits f" using wf by (intro power_increasing) (simp_all add: wf_format_def)
    then have x: "?x \<noteq> 0" by simp
    have "f64_is_nan (decode_small (encode_small v f) f)"
      unfolding encode_small_special(1) [OF wf True]
      by (rule decode_small_fields(3) [OF wf]) (use assms(2) x in \<open>simp_all add: is_special_def\<close>)
    then show ?thesis
      using bound True unfolding round small width_bits_u32 [OF assms(1) bound [unfolded small(1)]]
      by (simp only: encode_small_special(1) [OF wf])
  next
    case False
    then have "\<not> f64_is_nan (width_decode w (width_encode w v))"
      using encode_not_nan [OF wf assms(2)] unfolding small width_bits_u32 [OF assms(1) bound [unfolded small(1)]] by simp
    then show ?thesis unfolding round by (rule width_round_trip [OF assms(1) bound])
  qed
qed

section \<open>Witnesses\<close>

lemma decode_grid_finite:
  assumes "width_format w = Some f" "b < 2 ^ exponent_bits f" "x < 2 ^ mantissa_bits f" "\<not> is_special f b x"
  shows "f64_finite (width_decode w (float_fields (exponent_bits f) (mantissa_bits f) negative b x))"
proof -
  note wf = wf_width_format [OF assms(1)]
  have "float_fields (exponent_bits f) (mantissa_bits f) negative b x < 2 ^ (8 * float_width_bytes w)"
    using fields_bound [OF assms(2,3)] width_small(3) [OF assms(1)] by metis
  from width_bits_u32 [OF assms(1) this] show ?thesis
    unfolding width_small [OF assms(1)] by (simp only: decode_small_fields(1) [OF wf assms(2-4)])
      (rule f64_of_units_finite(2) [OF significand_bound(2) [OF wf assms(3)] grid_finite [OF wf assms(2,3)]])
qed

lemma e4m3_finite: "b < 15 \<Longrightarrow> x < 8 \<Longrightarrow> f64_finite (width_decode F8E4M3 (b * 8 + x))"
  using decode_grid_finite [of F8E4M3 _ b x False] by (simp add: float_fields_def is_special_def)

theorem small_float_round_trip_witness:
  "\<not> f64_is_nan (width_decode F8E4M3 66) \<and> width_encode F8E4M3 (width_decode F8E4M3 66) = 66"
proof -
  have "\<not> f64_is_nan (width_decode F8E4M3 66)" using e4m3_finite [of 8 2] by (simp add: f64_finite_iff)
  then show ?thesis using small_float_round_trip [of F8E4M3 _ 66] by simp
qed


theorem runtime_floats_agree_witness:
  "float_from_f64 (f64_of_int 7) 2 = Some (width_encode F8E4M3 (f64_of_int 7)) \<and>
   float_to_f64 (66 mod 2 ^ 32) 2 = Some (width_decode F8E4M3 66)"
  by (rule runtime_floats_agree) simp

end
