(* ===== verification/Mir.thy ===== *)
theory Mir
  imports Ast Types Floats
begin

text \<open>
  The intermediate representation, \<open>compiler/paco-mir/src/body.rs\<close>: bodies of basic blocks over places,
  operands and constants, with one datatype or record per struct or enum.  A local, a block and a \<open>usize\<close>
  index are natural numbers, an \<open>i64\<close> payload is an integer, a float payload its \<open>f64\<close> bits and a
  character its UTF-8 encoding.  The transcendental functions of the crate \<open>libm\<close> are the parameter
  \<open>libm\<close>.
\<close>

datatype profile = Debug | Release

datatype mir_constant =
    CInt int int_width
  | CFloat f64 float_width
  | CBool bool
  | CChar rchar
  | CStr string
  | CUnit
  | CType type

datatype place =
    PLocal nat
  | PField place string
  | PVariantField place string nat
  | PIndex place operand
  | PDeref operand type
and operand =
    Copy place
  | Move place
  | Constant mir_constant

datatype bin_op =
    BAdd | BSub | BMul | BDiv | BRem | BEq | BNe | BLt | BLe | BGt | BGe | BAnd | BOr
  | BBitAnd | BBitOr | BBitXor | BShl | BShr
  | BWrappingAdd | BWrappingSub | BWrappingMul | BAddOverflows | BSubOverflows | BMulOverflows

datatype un_op = UNot | UNeg | UBitNot

datatype math_op = MSqrt | MExp | MLn | MSin | MCos | MTanh | MAbs | MPowf | MMin | MMax

definition math_from_method :: "string \<Rightarrow> math_op option" where
  "math_from_method name =
    (if name = ''sqrt'' then Some MSqrt else if name = ''exp'' then Some MExp
     else if name = ''ln'' then Some MLn else if name = ''sin'' then Some MSin
     else if name = ''cos'' then Some MCos else if name = ''tanh'' then Some MTanh
     else if name = ''abs'' then Some MAbs else if name = ''powf'' then Some MPowf
     else if name = ''min'' then Some MMin else if name = ''max'' then Some MMax
     else None)"

fun math_name :: "math_op \<Rightarrow> string" where
  "math_name MSqrt = ''sqrt''"
| "math_name MExp = ''exp''"
| "math_name MLn = ''ln''"
| "math_name MSin = ''sin''"
| "math_name MCos = ''cos''"
| "math_name MTanh = ''tanh''"
| "math_name MAbs = ''abs''"
| "math_name MPowf = ''powf''"
| "math_name MMin = ''min''"
| "math_name MMax = ''max''"

fun runtime_symbol :: "math_op \<Rightarrow> string option" where
  "runtime_symbol MExp = Some ''paco_math_exp''"
| "runtime_symbol MLn = Some ''paco_math_ln''"
| "runtime_symbol MSin = Some ''paco_math_sin''"
| "runtime_symbol MCos = Some ''paco_math_cos''"
| "runtime_symbol MTanh = Some ''paco_math_tanh''"
| "runtime_symbol MPowf = Some ''paco_math_powf''"
| "runtime_symbol MSqrt = None"
| "runtime_symbol MAbs = None"
| "runtime_symbol MMin = None"
| "runtime_symbol MMax = None"

record libm =
  libm_exp :: "f64 \<Rightarrow> f64"
  libm_log :: "f64 \<Rightarrow> f64"
  libm_sin :: "f64 \<Rightarrow> f64"
  libm_cos :: "f64 \<Rightarrow> f64"
  libm_tanh :: "f64 \<Rightarrow> f64"
  libm_pow :: "f64 \<Rightarrow> f64 \<Rightarrow> f64"

definition math_eval :: "libm \<Rightarrow> math_op \<Rightarrow> f64 \<Rightarrow> f64 \<Rightarrow> f64" where
  "math_eval lm op x y =
    (case op of
       MSqrt \<Rightarrow> f64_sqrt x
     | MAbs \<Rightarrow> f64_abs x
     | MExp \<Rightarrow> libm_exp lm x
     | MLn \<Rightarrow> libm_log lm x
     | MSin \<Rightarrow> libm_sin lm x
     | MCos \<Rightarrow> libm_cos lm x
     | MTanh \<Rightarrow> libm_tanh lm x
     | MPowf \<Rightarrow> libm_pow lm x y
     | MMin \<Rightarrow> if f64_is_nan x \<or> f64_is_nan y then f64_nan
         else if f64_eq x y then (if f64_negative x then x else y) else if f64_less x y then x else y
     | MMax \<Rightarrow> if f64_is_nan x \<or> f64_is_nan y then f64_nan
         else if f64_eq x y then (if \<not> f64_negative x then x else y) else if f64_less y x then x else y)"

datatype rvalue =
    Use operand
  | Math math_op "operand list"
  | BinaryOp bin_op operand operand
  | UnaryOp un_op operand
  | Ref bool place
  | Aggregate type "string option" "operand list"
  | Discriminant place
  | SliceLen place
  | Cast operand type
  | Load operand type
  | RawAlloc nat
  | FuncAddr string
  | Quote "(expr, block) quote_body" "(span \<times> operand) list"

datatype statement =
    Assign place rvalue
  | Store operand operand type
  | FreeBox operand type
  | Drop place
  | StorageDead nat

datatype terminator =
    Goto nat
  | SwitchInt operand "(int \<times> nat) list" nat
  | Call string "operand list" "place option" nat
  | CallIndirect operand "operand list" "place option" nat
  | Return operand
  | Unreachable

record basic_block =
  bb_statements :: "statement list"
  bb_terminator :: terminator

record local_decl =
  ld_name :: "string option"
  ld_ty :: type
  ld_mutable :: bool

record block_spans =
  bs_statements :: "span list"
  bs_terminator :: "span option"

record mir_body =
  body_locals :: "local_decl list"
  body_blocks :: "basic_block list"
  body_profile :: profile
  body_param_count :: nat
  body_return_ty :: type
  body_span :: span
  body_spans :: "block_spans list"

definition statement_span :: "mir_body \<Rightarrow> nat \<Rightarrow> nat \<Rightarrow> span" where
  "statement_span b block i =
    (if block < length (body_spans b) \<and> i < length (bs_statements (body_spans b ! block))
     then bs_statements (body_spans b ! block) ! i else body_span b)"

definition terminator_span :: "mir_body \<Rightarrow> nat \<Rightarrow> span" where
  "terminator_span b block =
    (if block < length (body_spans b)
     then case bs_terminator (body_spans b ! block) of Some s \<Rightarrow> s | None \<Rightarrow> body_span b
     else body_span b)"

end
