(* ===== verification/Scalars.thy ===== *)
theory Scalars
  imports Mir
begin

text \<open>
  Scalars in the compile-time machine, \<open>compiler/paco-comptime/src/machine.rs\<close>: values as little-endian
  bytes, and the unary, binary, shift and cast operations on them.  A value is a list of bytes; an \<open>i128\<close>
  is an integer, whose wrap-around is written out where the code uses a wrapping operation.  The frame's
  profile and span are arguments.
\<close>

unbundle bit_operations_syntax

section \<open>Outcomes\<close>

text \<open>What evaluation gives: a value, an \<open>Error\<close> with its message and the span it is located at, a panic of
  the compiler itself, or the report that the bound on recursion was too small.\<close>

datatype 'a outcome =
    Ok 'a
  | Failed string "span option"
  | Panicked
  | OutOfFuel

fun bind_outcome :: "'a outcome \<Rightarrow> ('a \<Rightarrow> 'b outcome) \<Rightarrow> 'b outcome" where
  "bind_outcome (Ok x) f = f x"
| "bind_outcome (Failed m s) f = Failed m s"
| "bind_outcome Panicked f = Panicked"
| "bind_outcome OutOfFuel f = OutOfFuel"

section \<open>Bytes\<close>

type_synonym byte = "8 word"

definition le_bytes :: "nat \<Rightarrow> int \<Rightarrow> byte list" where
  "le_bytes n v = map (\<lambda>i. word_of_int (v div 2 ^ (8 * i))) [0..<n]"

fun le_value :: "byte list \<Rightarrow> int" where
  "le_value [] = 0"
| "le_value (b # bs) = uint b + 256 * le_value bs"

text \<open>\<open>int_value\<close> and \<open>int_bytes\<close>: copying more than eight bytes into the raw buffer panics.\<close>

definition int_value :: "byte list \<Rightarrow> int_width \<Rightarrow> int outcome" where
  "int_value bytes w =
    (if 8 < length bytes then Panicked
     else let bits = le_value (bytes @ replicate (8 - length bytes) 0);
              size = width_bytes w * 8
          in if is_signed w
             then let shift = 64 - size in Ok (drop_bit shift (as_i64 (as_u64 (push_bit shift bits))))
             else Ok (if size = 64 then bits else bits AND (push_bit size 1 - 1)))"

definition int_bytes :: "int \<Rightarrow> nat \<Rightarrow> byte list" where
  "int_bytes value n = take n (le_bytes 8 (as_u64 value))"

definition flag :: "bool \<Rightarrow> byte list" where
  "flag b = [if b then 1 else 0]"

fun min_bytes :: "nat \<Rightarrow> int_width" where
  "min_bytes n = (if n = 1 then U8 else if n = 2 then U16 else if n = 4 then U32 else U64)"

definition format_code :: "float_width \<Rightarrow> int" where
  "format_code w = (case small_code w of Some c \<Rightarrow> c | None \<Rightarrow> if w = F32 then 4 else 5)"

definition float_value :: "byte list \<Rightarrow> float_width \<Rightarrow> f64 outcome" where
  "float_value bytes w =
    (case w of
       F64 \<Rightarrow> if length bytes = 8 then Ok (word_of_int (le_value bytes)) else Panicked
     | F32 \<Rightarrow> if length bytes = 4 then Ok (f32_to_f64 (word_of_int (le_value bytes))) else Panicked
     | _ \<Rightarrow> if 4 < length bytes then Panicked
         else case small_code w of None \<Rightarrow> Panicked
           | Some c \<Rightarrow> (case float_to_f64 (nat (le_value (bytes @ replicate (4 - length bytes) 0))) c of
               None \<Rightarrow> Panicked | Some v \<Rightarrow> Ok v))"

definition float_bytes :: "f64 \<Rightarrow> float_width \<Rightarrow> byte list outcome" where
  "float_bytes value w =
    (case w of
       F64 \<Rightarrow> Ok (le_bytes 8 (uint value))
     | F32 \<Rightarrow> Ok (le_bytes 4 (uint (f64_to_f32 value)))
     | _ \<Rightarrow> case small_code w of None \<Rightarrow> Panicked
         | Some c \<Rightarrow> (case float_from_f64 value c of None \<Rightarrow> Panicked
             | Some bits \<Rightarrow> Ok (take (float_width_bytes w) (le_bytes 4 (int bits)))))"

text \<open>The code point of a character, and the bytes of a constant that needs no memory.\<close>

definition code_point :: "rchar \<Rightarrow> nat" where
  "code_point c =
    (case map (of_char :: char \<Rightarrow> nat) c of
       [a] \<Rightarrow> a
     | [a, b] \<Rightarrow> (a mod 32) * 64 + b mod 64
     | [a, b, d] \<Rightarrow> (a mod 16) * 4096 + (b mod 64) * 64 + d mod 64
     | [a, b, d, e] \<Rightarrow> (a mod 8) * 262144 + (b mod 64) * 4096 + (d mod 64) * 64 + e mod 64
     | _ \<Rightarrow> 0)"

fun constant_scalar :: "mir_constant \<Rightarrow> byte list option" where
  "constant_scalar (CInt value w) = Some (int_bytes value (width_bytes w))"
| "constant_scalar (CFloat value w) = Some
    (case w of
       F64 \<Rightarrow> le_bytes 8 (uint value)
     | F32 \<Rightarrow> le_bytes 4 (uint (f64_to_f32 value))
     | _ \<Rightarrow> take (float_width_bytes w) (le_bytes 8 (int (width_encode w value))))"
| "constant_scalar (CBool value) = Some (flag value)"
| "constant_scalar (CChar value) = Some (le_bytes 4 (int (code_point value)))"
| "constant_scalar CUnit = Some []"
| "constant_scalar (CStr _) = None"
| "constant_scalar (CType _) = None"

section \<open>Operations\<close>

text \<open>\<open>i128::wrapping_mul\<close> and \<open>wrapping_shl\<close>.\<close>

definition as_i128 :: "int \<Rightarrow> int" where
  "as_i128 x = (x + 2 ^ 127) mod 2 ^ 128 - 2 ^ 127"

definition shift :: "profile \<Rightarrow> span option \<Rightarrow> bin_op \<Rightarrow> int \<Rightarrow> int \<Rightarrow> int_width \<Rightarrow> byte list outcome" where
  "shift pr sp op value amount w =
    (let bits = int (width_bytes w * 8) in
     if pr = Debug \<and> \<not> (0 \<le> amount \<and> amount < bits)
     then Failed (if op = BShl then ''attempt to shift left with overflow'' else ''attempt to shift right with overflow'') sp
     else let amount = nat (amount AND (bits - 1));
              shifted = (if op = BShl then as_i128 (push_bit amount value) else drop_bit amount value)
          in Ok (int_bytes shifted (width_bytes w)))"

definition checked_bytes :: "profile \<Rightarrow> span option \<Rightarrow> int_width \<Rightarrow> int \<Rightarrow> string \<Rightarrow> byte list outcome" where
  "checked_bytes pr sp w result message =
    (if pr = Debug \<and> (result < fst (width_range w) \<or> snd (width_range w) < result) then Failed message sp
     else Ok (int_bytes result (width_bytes w)))"

definition overflows :: "int_width \<Rightarrow> int \<Rightarrow> bool" where
  "overflows w x \<longleftrightarrow> \<not> (fst (width_range w) \<le> x \<and> x \<le> snd (width_range w))"

definition in_i128 :: "int \<Rightarrow> bool" where
  "in_i128 x \<longleftrightarrow> - (2 ^ 127) \<le> x \<and> x < 2 ^ 127"

definition int_binary :: "profile \<Rightarrow> span option \<Rightarrow> bin_op \<Rightarrow> int \<Rightarrow> int \<Rightarrow> int_width \<Rightarrow> byte list outcome" where
  "int_binary pr sp op left right w =
    (let n = width_bytes w in
     case op of
       BAdd \<Rightarrow> checked_bytes pr sp w (left + right) ''attempt to add with overflow''
     | BSub \<Rightarrow> checked_bytes pr sp w (left - right) ''attempt to subtract with overflow''
     | BMul \<Rightarrow> checked_bytes pr sp w (as_i128 (left * right)) ''attempt to multiply with overflow''
     | BDiv \<Rightarrow>
         if right = 0 then Failed ''division by zero'' sp
         else if is_signed w \<and> left = fst (width_range w) \<and> right = - 1 then Failed ''attempt to divide with overflow'' sp
         else Ok (int_bytes (left sdiv right) n)
     | BRem \<Rightarrow>
         if right = 0 then Failed ''remainder by zero'' sp
         else if is_signed w \<and> right = - 1 then Ok (int_bytes 0 n)
         else Ok (int_bytes (left smod right) n)
     | BEq \<Rightarrow> Ok (flag (left = right))
     | BNe \<Rightarrow> Ok (flag (left \<noteq> right))
     | BLt \<Rightarrow> Ok (flag (left < right))
     | BLe \<Rightarrow> Ok (flag (left \<le> right))
     | BGt \<Rightarrow> Ok (flag (left > right))
     | BGe \<Rightarrow> Ok (flag (left \<ge> right))
     | BBitAnd \<Rightarrow> Ok (int_bytes (left AND right) n)
     | BBitOr \<Rightarrow> Ok (int_bytes (left OR right) n)
     | BBitXor \<Rightarrow> Ok (int_bytes (left XOR right) n)
     | BShl \<Rightarrow> shift pr sp op left right w
     | BShr \<Rightarrow> shift pr sp op left right w
     | BWrappingAdd \<Rightarrow> Ok (int_bytes (left + right) n)
     | BWrappingSub \<Rightarrow> Ok (int_bytes (left - right) n)
     | BWrappingMul \<Rightarrow> Ok (int_bytes (as_i128 (left * right)) n)
     | BAddOverflows \<Rightarrow> Ok (flag (overflows w (left + right)))
     | BSubOverflows \<Rightarrow> Ok (flag (overflows w (left - right)))
     | BMulOverflows \<Rightarrow> Ok (flag (\<not> in_i128 (left * right) \<or> overflows w (left * right)))
     | BAnd \<Rightarrow> Failed ''logical operator over int operands is not valid'' sp
     | BOr \<Rightarrow> Failed ''logical operator over int operands is not valid'' sp)"

definition unary :: "profile \<Rightarrow> span option \<Rightarrow> un_op \<Rightarrow> byte list \<Rightarrow> type \<Rightarrow> byte list outcome" where
  "unary pr sp op value ty =
    (case op of
       UNot \<Rightarrow> Ok (flag (list_all (\<lambda>b. b = 0) value))
     | UNeg \<Rightarrow> (case ty of
         TFloat w \<Rightarrow>
           if w = F64 \<or> w = F32 then bind_outcome (float_value value w) (\<lambda>x. float_bytes (f64_neg x) w)
           else let last = float_width_bytes w - 1 in
             if last < length value then Ok (value [last := value ! last XOR 0x80]) else Panicked
       | TInt w \<Rightarrow> bind_outcome (int_value value w) (\<lambda>x.
           if pr = Debug \<and> is_signed w \<and> x = fst (width_range w) then Failed ''attempt to negate with overflow'' sp
           else Ok (int_bytes (- x) (width_bytes w)))
       | _ \<Rightarrow> let x = (if length value = 8 then as_i64 (le_value value) else 0) in
           if 8 < length value then Panicked else Ok (int_bytes (- x) (length value)))
     | UBitNot \<Rightarrow> (case ty of
         TInt w \<Rightarrow> bind_outcome (int_value value w) (\<lambda>x. Ok (int_bytes (NOT x) (width_bytes w)))
       | _ \<Rightarrow> Ok (map NOT value)))"

text \<open>The text of an operator in a message (its \<open>Debug\<close> form).\<close>

fun bin_op_text :: "bin_op \<Rightarrow> string" where
  "bin_op_text BAdd = ''Add''"
| "bin_op_text BSub = ''Sub''"
| "bin_op_text BMul = ''Mul''"
| "bin_op_text BDiv = ''Div''"
| "bin_op_text BRem = ''Rem''"
| "bin_op_text BEq = ''Eq''"
| "bin_op_text BNe = ''Ne''"
| "bin_op_text BLt = ''Lt''"
| "bin_op_text BLe = ''Le''"
| "bin_op_text BGt = ''Gt''"
| "bin_op_text BGe = ''Ge''"
| "bin_op_text BAnd = ''And''"
| "bin_op_text BOr = ''Or''"
| "bin_op_text BBitAnd = ''BitAnd''"
| "bin_op_text BBitOr = ''BitOr''"
| "bin_op_text BBitXor = ''BitXor''"
| "bin_op_text BShl = ''Shl''"
| "bin_op_text BShr = ''Shr''"
| "bin_op_text BWrappingAdd = ''WrappingAdd''"
| "bin_op_text BWrappingSub = ''WrappingSub''"
| "bin_op_text BWrappingMul = ''WrappingMul''"
| "bin_op_text BAddOverflows = ''AddOverflows''"
| "bin_op_text BSubOverflows = ''SubOverflows''"
| "bin_op_text BMulOverflows = ''MulOverflows''"

definition not_valid :: "bin_op \<Rightarrow> string \<Rightarrow> string" where
  "not_valid op kind = ''operator `'' @ bin_op_text op @ ''` is not valid over '' @ kind @ '' operands''"

definition float_binary :: "span option \<Rightarrow> bin_op \<Rightarrow> f64 \<Rightarrow> f64 \<Rightarrow> float_width \<Rightarrow> byte list outcome" where
  "float_binary sp op left right w =
    (let single = (\<lambda>f. float_bytes (f32_to_f64 (f (f64_to_f32 left) (f64_to_f32 right))) w) in
     case op of
       BAdd \<Rightarrow> if w = F32 then single f32_add else float_bytes (f64_add left right) w
     | BSub \<Rightarrow> if w = F32 then single f32_sub else float_bytes (f64_sub left right) w
     | BMul \<Rightarrow> if w = F32 then single f32_mul else float_bytes (f64_mul left right) w
     | BDiv \<Rightarrow> if w = F32 then single f32_div else float_bytes (f64_div left right) w
     | BRem \<Rightarrow> Failed ''float remainder is not supported'' sp
     | BEq \<Rightarrow> Ok (flag (f64_eq left right))
     | BNe \<Rightarrow> Ok (flag (\<not> f64_eq left right))
     | BLt \<Rightarrow> Ok (flag (f64_less left right))
     | BLe \<Rightarrow> Ok (flag (f64_less_eq left right))
     | BGt \<Rightarrow> Ok (flag (f64_less right left))
     | BGe \<Rightarrow> Ok (flag (f64_less_eq right left))
     | _ \<Rightarrow> Failed (not_valid op ''float'') sp)"

definition bool_binary :: "span option \<Rightarrow> bin_op \<Rightarrow> bool \<Rightarrow> bool \<Rightarrow> byte list outcome" where
  "bool_binary sp op left right =
    (case op of
       BAnd \<Rightarrow> Ok (flag (left \<and> right))
     | BOr \<Rightarrow> Ok (flag (left \<or> right))
     | BEq \<Rightarrow> Ok (flag (left = right))
     | BNe \<Rightarrow> Ok (flag (left \<noteq> right))
     | _ \<Rightarrow> Failed (not_valid op ''bool'') sp)"

definition char_binary :: "span option \<Rightarrow> bin_op \<Rightarrow> int \<Rightarrow> int \<Rightarrow> byte list outcome" where
  "char_binary sp op left right =
    (case op of
       BEq \<Rightarrow> Ok (flag (left = right))
     | BNe \<Rightarrow> Ok (flag (left \<noteq> right))
     | BLt \<Rightarrow> Ok (flag (left < right))
     | BLe \<Rightarrow> Ok (flag (left \<le> right))
     | BGt \<Rightarrow> Ok (flag (left > right))
     | BGe \<Rightarrow> Ok (flag (left \<ge> right))
     | _ \<Rightarrow> Failed (not_valid op ''char'') sp)"

definition binary :: "profile \<Rightarrow> span option \<Rightarrow> bin_op \<Rightarrow> byte list \<Rightarrow> byte list \<Rightarrow> type \<Rightarrow> byte list outcome" where
  "binary pr sp op left right ty =
    (let ints = (\<lambda>w f. bind_outcome (int_value left w) (\<lambda>l. bind_outcome (int_value right w) (\<lambda>r. f l r))) in
     case ty of
       TFloat w \<Rightarrow> bind_outcome (float_value left w) (\<lambda>l. bind_outcome (float_value right w) (\<lambda>r. float_binary sp op l r w))
     | TBool \<Rightarrow> if left = [] \<or> right = [] then Panicked else bool_binary sp op (hd left \<noteq> 0) (hd right \<noteq> 0)
     | TChar \<Rightarrow> ints U32 (char_binary sp op)
     | TInt w \<Rightarrow> ints w (\<lambda>l r. int_binary pr sp op l r w)
     | _ \<Rightarrow> let w = min_bytes (length left) in ints w (\<lambda>l r. int_binary pr sp op l r w))"

text \<open>The arm of \<open>rvalue\<close> for a binary operation on values other than strings: shifts read the amount at its own
  width.\<close>

definition binary_rvalue :: "profile \<Rightarrow> span option \<Rightarrow> bin_op \<Rightarrow> byte list \<Rightarrow> type \<Rightarrow> byte list \<Rightarrow> type \<Rightarrow> byte list outcome" where
  "binary_rvalue pr sp op left ty right amount_ty =
    (case (ty, amount_ty) of
       (TInt w, TInt amount_width) \<Rightarrow>
         if op = BShl \<or> op = BShr
         then bind_outcome (int_value left w) (\<lambda>l. bind_outcome (int_value right amount_width) (\<lambda>r. shift pr sp op l r w))
         else binary pr sp op left right ty
     | _ \<Rightarrow> binary pr sp op left right ty)"

section \<open>Casts\<close>

definition signed_type :: "type \<Rightarrow> bool" where
  "signed_type ty = (case ty of TInt w \<Rightarrow> is_signed w | _ \<Rightarrow> False)"

definition cast_width :: "type \<Rightarrow> nat \<Rightarrow> int_width" where
  "cast_width ty n = (case ty of TInt w \<Rightarrow> w | TChar \<Rightarrow> U32 | TBool \<Rightarrow> U8 | _ \<Rightarrow> min_bytes n)"

definition target_bytes :: "type \<Rightarrow> nat" where
  "target_bytes ty = (case ty of TInt w \<Rightarrow> width_bytes w | TChar \<Rightarrow> 4 | TBool \<Rightarrow> 1 | TFloat w \<Rightarrow> float_width_bytes w | _ \<Rightarrow> 8)"

definition clamp :: "int \<Rightarrow> int \<Rightarrow> int \<Rightarrow> int" where
  "clamp lo hi x = (if x < lo then lo else if hi < x then hi else x)"

text \<open>\<open>x.trunc() as i128\<close>, saturating.\<close>

definition f64_as_i128 :: "f64 \<Rightarrow> int" where
  "f64_as_i128 x = (if f64_is_infinite x then (if f64_negative x then - (2 ^ 127) else 2 ^ 127 - 1)
     else clamp (- (2 ^ 127)) (2 ^ 127 - 1) (f64_trunc x))"

definition cast :: "byte list \<Rightarrow> type \<Rightarrow> type \<Rightarrow> byte list outcome" where
  "cast value src dst =
    (case src of
       TFloat from \<Rightarrow> (case dst of
         TFloat to \<Rightarrow> if from = to then Ok value else bind_outcome (float_value value from) (\<lambda>x. float_bytes x to)
       | _ \<Rightarrow> bind_outcome (float_value value from) (\<lambda>wide.
           let to = cast_width dst (target_bytes dst);
               (lo, hi) = width_range to;
               result = (if f64_is_nan wide then 0
                 else if signed_type dst then clamp lo hi (f64_as_i128 wide)
                 else clamp lo hi (if f64_negative wide then 0 else f64_as_i128 wide))
           in Ok (int_bytes result (target_bytes dst))))
     | _ \<Rightarrow> (case dst of
         TFloat to \<Rightarrow> bind_outcome (int_value value (cast_width src (length value))) (\<lambda>x.
           float_bytes (f64_of_int (if signed_type src then as_i64 x else as_u64 x)) to)
       | _ \<Rightarrow> bind_outcome (int_value value (if signed_type src then cast_width src (length value) else min_bytes (length value)))
           (\<lambda>x. Ok (int_bytes x (target_bytes dst)))))"

section \<open>Bytes of integers\<close>

lemma length_le_bytes [simp]: "length (le_bytes n v) = n"
  by (simp add: le_bytes_def)

lemma le_bytes_cong:
  assumes "x mod 2 ^ (8 * n) = y mod 2 ^ (8 * n)"
  shows "le_bytes n x = le_bytes n y"
proof -
  have "bit x k = bit y k" if "k < 8 * n" for k
    using arg_cong [OF assms, of "\<lambda>z. bit z k"] that by (simp flip: take_bit_eq_mod add: bit_take_bit_iff)
  then show ?thesis
    unfolding le_bytes_def
    by (intro map_cong refl bit_word_eqI) (simp add: bit_word_of_int_iff bit_drop_bit_eq flip: drop_bit_eq_div)
qed

lemma take_le_bytes: "k \<le> n \<Longrightarrow> take k (le_bytes n v) = le_bytes k v"
  by (simp add: le_bytes_def take_map)

lemma le_bytes_Suc: "le_bytes (Suc n) v = word_of_int v # le_bytes n (v div 256)"
proof -
  have "[0..<Suc n] = 0 # map Suc [0..<n]" by (simp add: map_Suc_upt upt_conv_Cons del: upt_Suc)
  then show ?thesis
    by (simp add: le_bytes_def zdiv_zmult2_eq [symmetric] power_add mult.commute del: upt_Suc)
qed

lemma le_value_bytes: "le_value (le_bytes n v) = v mod 2 ^ (8 * n)"
proof (induction n arbitrary: v)
  case 0
  then show ?case by (simp add: le_bytes_def)
next
  case (Suc n)
  have "uint (word_of_int v :: byte) = v mod 256" by (simp add: uint_word_of_int)
  moreover have "v mod (256 * 2 ^ (8 * n)) = 256 * (v div 256 mod 2 ^ (8 * n)) + v mod 256"
    by (rule zmod_zmult2_eq) simp
  ultimately show ?case by (simp add: le_bytes_Suc Suc power_add)
qed

lemma le_value_zeros [simp]: "le_value (bs @ replicate n 0) = le_value bs"
  by (induction bs; induction n) simp_all

lemma int_bytes_eq: "n \<le> 8 \<Longrightarrow> int_bytes x n = le_bytes n x"
proof -
  assume n: "n \<le> 8"
  have "x mod 2 ^ 64 mod 2 ^ (8 * n) = x mod 2 ^ (8 * n)"
    using n by (intro mod_mod_cancel le_imp_power_dvd) simp
  then show ?thesis using n le_bytes_cong [of "as_u64 x" n x] by (simp add: int_bytes_def take_le_bytes as_u64_def)
qed

lemma width_bytes_le: "width_bytes w \<le> 8"
  by (cases w) simp_all

lemma int_bytes_cong:
  assumes "x mod 2 ^ width_bits w = y mod 2 ^ width_bits w"
  shows "int_bytes x (width_bytes w) = int_bytes y (width_bytes w)"
  using assms le_bytes_cong [of x "width_bytes w" y] width_bytes_le [of w] by (simp add: int_bytes_eq width_bits_def)

text \<open>The shift by which \<open>int_value\<close> extends the sign.\<close>

lemma sign_extend:
  assumes "0 < k" "k \<le> 64" "0 \<le> b" "b < 2 ^ k"
  shows "drop_bit (64 - k) (as_i64 (as_u64 (push_bit (64 - k) b))) = (if b < 2 ^ (k - 1) then b else b - 2 ^ k)"
proof -
  define s where "s = 64 - k"
  define S :: int where "S = 2 ^ s"
  have S: "0 < S" "2 ^ 64 = 2 ^ k * S" "2 ^ 63 = 2 ^ (k - 1) * S"
    using assms(1,2) by (simp_all add: S_def s_def flip: power_add)
  have range: "0 \<le> b * S" "b * S < 2 ^ 64" unfolding S(2) using assms(3,4) S(1) by simp_all
  have "as_u64 (b * S) = b * S" using range by (simp add: as_u64_def)
  moreover have "as_i64 (b * S) div S = (if b < 2 ^ (k - 1) then b else b - 2 ^ k)"
  proof (cases "b < 2 ^ (k - 1)")
    case True
    then have "b * S < 2 ^ 63" unfolding S(3) using S(1) by simp
    then have "as_i64 (b * S) = b * S" using range by (intro as_i64_id) (simp add: in_i64_def i64_min_def i64_max_def)
    then show ?thesis using True S(1) by simp
  next
    case False
    then have "2 ^ 63 \<le> b * S" unfolding S(3) using S(1) by simp
    then have "as_i64 (b * S) = b * S - 2 ^ 64"
      using range by (simp add: as_i64_def mod_pos_geq mod_pos_pos_trivial)
    also have "\<dots> = (b - 2 ^ k) * S" by (simp only: S(2) left_diff_distrib)
    finally show ?thesis using False S(1) by simp
  qed
  ultimately show ?thesis by (simp add: s_def [symmetric] drop_bit_eq_div push_bit_eq_mult S_def [symmetric])
qed


lemma width_bits_bounds: "0 < width_bits w" "width_bits w \<le> 64"
  by (cases w; simp add: width_bits_def)+

lemma int_value_bytes: "int_value (int_bytes x (width_bytes w)) w = Ok (to_i128 w (wrap_int w x))"
proof -
  let ?n = "width_bits w"
  define b where "b = x mod 2 ^ ?n"
  have b: "0 \<le> b" "b < 2 ^ ?n" by (simp_all add: b_def)
  have bytes: "length (int_bytes x (width_bytes w)) = width_bytes w" "le_value (int_bytes x (width_bytes w)) = b"
    using width_bytes_le [of w] by (simp_all add: int_bytes_eq le_value_bytes b_def width_bits_def)
  have size: "width_bytes w * 8 = ?n" by (simp add: width_bits_def)
  show ?thesis
  proof (cases "is_signed w")
    case True
    have two: "(2 :: int) ^ ?n = 2 * 2 ^ (?n - 1)" using width_bits_bounds(1) [of w] by (simp flip: power_Suc)
    have "(x + 2 ^ (?n - 1)) mod 2 ^ ?n = (b + 2 ^ (?n - 1)) mod 2 ^ ?n" by (simp add: b_def mod_add_left_eq)
    also have "\<dots> = (if b < 2 ^ (?n - 1) then b + 2 ^ (?n - 1) else b - 2 ^ (?n - 1))"
    proof (cases "b < 2 ^ (?n - 1)")
      case False
      have "(b + 2 ^ (?n - 1)) mod 2 ^ ?n = (b + 2 ^ (?n - 1) - 2 ^ ?n) mod 2 ^ ?n" by simp
      also have "\<dots> = b + 2 ^ (?n - 1) - 2 ^ ?n" using False b two by (intro mod_pos_pos_trivial) auto
      finally show ?thesis using False two by simp
    qed (use b two in simp)
    finally have "(x + 2 ^ (?n - 1)) mod 2 ^ ?n - 2 ^ (?n - 1) = (if b < 2 ^ (?n - 1) then b else b - 2 ^ ?n)"
      using two by auto
    then show ?thesis
      using True sign_extend [OF width_bits_bounds b] width_bytes_le [of w]
      by (simp add: int_value_def bytes size wrap_int_signed Let_def)
  next
    case False
    have "b AND (2 ^ ?n - 1) = b" using b by (simp flip: mask_eq_exp_minus_1 take_bit_eq_mask add: take_bit_int_eq_self)
    then show ?thesis using False width_bytes_le [of w]
      by (simp add: int_value_def bytes size wrap_int_unsigned Let_def push_bit_eq_mult flip: b_def)
  qed
qed

lemma in_width_unique:
  assumes "in_width w a" "in_width w b" "a mod 2 ^ width_bits w = b mod 2 ^ width_bits w"
  shows "a = b"
proof -
  have "2 ^ width_bits w dvd a - b" using assms(3) by (simp add: mod_eq_dvd_iff)
  moreover have "\<bar>a - b\<bar> < 2 ^ width_bits w"
    using assms(1,2) by (cases w) (auto simp: in_width_def width_bits_def i64_min_def i64_max_def)
  ultimately show ?thesis using zdvd_imp_le [of "2 ^ width_bits w" "\<bar>a - b\<bar>"] by (cases "a = b") auto
qed

lemma wrapped_congruent: "to_i128 w (wrap_int w x) mod 2 ^ width_bits w = x mod 2 ^ width_bits w"
  using wrap_int_congruent [of w x] by (simp add: mod_eq_0_iff_dvd mod_eq_dvd_iff)

lemma wrap_int_id: "in_width w x \<Longrightarrow> to_i128 w (wrap_int w x) = x"
  by (rule in_width_unique [OF wrap_int_range _ wrapped_congruent])

lemma to_i128_congruent: "in_i64 v \<Longrightarrow> to_i128 w v mod 2 ^ width_bits w = v mod 2 ^ width_bits w"
  by (cases w) (simp_all add: to_i128_def as_u64_def width_bits_def)

end
