(* ===== verification/ConstFold.thy ===== *)
theory ConstFold
  imports Scalars
begin

text \<open>
  The folding of constant initializers in the lowering to the intermediate representation,
  \<open>compiler/paco-mir/src/lower.rs\<close>, and its agreement with the compile-time machine, which computes the same
  operations on bytes.  The type the checker gave an expression is the parameter \<open>type_of\<close>.
\<close>

unbundle bit_operations_syntax

section \<open>Folding\<close>

text \<open>The panics of the folder.\<close>

datatype fold_panic =
    IntegerOverflow
  | DivisionByZero
  | ShiftOverflow
  | UnaryNotEvaluable unary_op mir_constant
  | BinaryNotEvaluable binary_op mir_constant mir_constant
  | UnboundedConstants

type_synonym 'a folded = "fold_panic + 'a"

fun int_width_of :: "type \<Rightarrow> int_width" where
  "int_width_of (TInt w) = w"
| "int_width_of _ = I64"

definition checked_in_width :: "int \<Rightarrow> int_width \<Rightarrow> int folded" where
  "checked_in_width value w = (if value < fst (width_range w) \<or> snd (width_range w) < value
     then Inl IntegerOverflow else Inr (from_i128 w value))"

definition checked_i128 :: "int \<Rightarrow> int option" where
  "checked_i128 x = (if in_i128 x then Some x else None)"

definition fold_checked :: "int option \<Rightarrow> fold_panic \<Rightarrow> int_width \<Rightarrow> mir_constant folded" where
  "fold_checked r p w = (case r of None \<Rightarrow> Inl p
     | Some x \<Rightarrow> (case checked_in_width x w of Inl q \<Rightarrow> Inl q | Inr v \<Rightarrow> Inr (CInt v w)))"

fun lower_literal :: "literal \<Rightarrow> type \<Rightarrow> mir_constant" where
  "lower_literal (LitInt value) ty = CInt value (int_width_of ty)"
| "lower_literal (LitFloat value) ty =
    (let w = (case ty of TFloat w \<Rightarrow> w | _ \<Rightarrow> F64) in CFloat (width_round w value) w)"
| "lower_literal (LitBool value) ty = CBool value"
| "lower_literal (LitString value) ty = CStr value"
| "lower_literal (LitChar value) ty = CChar value"

definition fold_unary :: "unary_op \<Rightarrow> mir_constant \<Rightarrow> mir_constant folded" where
  "fold_unary op c =
    (case (op, c) of
       (OpNeg, CInt value w) \<Rightarrow> fold_checked (checked_i128 (- to_i128 w value)) IntegerOverflow w
     | (OpNeg, CFloat bits w) \<Rightarrow> Inr (CFloat (f64_neg bits) w)
     | (OpNot, CBool value) \<Rightarrow> Inr (CBool (\<not> value))
     | (OpBitNot, CInt value w) \<Rightarrow> Inr (CInt (wrap_int w (NOT (to_i128 w value))) w)
     | _ \<Rightarrow> Inl (UnaryNotEvaluable op c))"

definition fold_int :: "binary_op \<Rightarrow> int \<Rightarrow> int_width \<Rightarrow> int \<Rightarrow> int_width \<Rightarrow> mir_constant folded" where
  "fold_int op l w r amount_width =
    (let x = to_i128 w l; y = to_i128 w r in
     case op of
       OpAdd \<Rightarrow> fold_checked (checked_i128 (x + y)) IntegerOverflow w
     | OpSub \<Rightarrow> fold_checked (checked_i128 (x - y)) IntegerOverflow w
     | OpMul \<Rightarrow> fold_checked (checked_i128 (x * y)) IntegerOverflow w
     | OpDiv \<Rightarrow> fold_checked (if y = 0 then None else checked_i128 (x sdiv y)) DivisionByZero w
     | OpRem \<Rightarrow> fold_checked (if y = 0 \<or> (x = - (2 ^ 127) \<and> y = - 1) then None else Some (x smod y)) DivisionByZero w
     | OpEq \<Rightarrow> Inr (CBool (l = r))
     | OpNe \<Rightarrow> Inr (CBool (l \<noteq> r))
     | OpLt \<Rightarrow> Inr (CBool (x < y))
     | OpLe \<Rightarrow> Inr (CBool (x \<le> y))
     | OpGt \<Rightarrow> Inr (CBool (x > y))
     | OpGe \<Rightarrow> Inr (CBool (x \<ge> y))
     | OpBitAnd \<Rightarrow> Inr (CInt (wrap_int w (x AND y)) w)
     | OpBitOr \<Rightarrow> Inr (CInt (wrap_int w (x OR y)) w)
     | OpBitXor \<Rightarrow> Inr (CInt (wrap_int w (x XOR y)) w)
     | OpAnd \<Rightarrow> Inl (BinaryNotEvaluable op (CInt l w) (CInt r amount_width))
     | OpOr \<Rightarrow> Inl (BinaryNotEvaluable op (CInt l w) (CInt r amount_width))
     | _ \<Rightarrow>
         let amount = to_i128 amount_width r in
         if \<not> (0 \<le> amount \<and> amount < int (width_bytes w * 8)) then Inl ShiftOverflow
         else let shifted = (if op = OpShl then as_i128 (push_bit (nat amount) x) else drop_bit (nat amount) x)
              in Inr (CInt (wrap_int w shifted) w))"

definition fold_float :: "binary_op \<Rightarrow> f64 \<Rightarrow> float_width \<Rightarrow> f64 \<Rightarrow> float_width \<Rightarrow> mir_constant folded" where
  "fold_float op l w r w' =
    (case op of
       OpAdd \<Rightarrow> Inr (CFloat (width_round w (f64_add l r)) w)
     | OpSub \<Rightarrow> Inr (CFloat (width_round w (f64_sub l r)) w)
     | OpMul \<Rightarrow> Inr (CFloat (width_round w (f64_mul l r)) w)
     | OpDiv \<Rightarrow> Inr (CFloat (width_round w (f64_div l r)) w)
     | OpRem \<Rightarrow> Inr (CFloat (width_round w (f64_rem l r)) w)
     | _ \<Rightarrow> Inl (BinaryNotEvaluable op (CFloat l w) (CFloat r w')))"

definition fold_bool :: "binary_op \<Rightarrow> bool \<Rightarrow> bool \<Rightarrow> mir_constant folded" where
  "fold_bool op l r =
    (case op of
       OpAnd \<Rightarrow> Inr (CBool (l \<and> r))
     | OpOr \<Rightarrow> Inr (CBool (l \<or> r))
     | OpEq \<Rightarrow> Inr (CBool (l = r))
     | OpNe \<Rightarrow> Inr (CBool (l \<noteq> r))
     | _ \<Rightarrow> Inl (BinaryNotEvaluable op (CBool l) (CBool r)))"

definition fold_binary :: "binary_op \<Rightarrow> mir_constant \<Rightarrow> mir_constant \<Rightarrow> mir_constant folded" where
  "fold_binary op left right =
    (case (left, right) of
       (CInt l w, CInt r w') \<Rightarrow> fold_int op l w r w'
     | (CFloat l w, CFloat r w') \<Rightarrow> fold_float op l w r w'
     | (CBool l, CBool r) \<Rightarrow> fold_bool op l r
     | _ \<Rightarrow> Inl (BinaryNotEvaluable op left right))"

text \<open>\<open>fold_const\<close> follows the names of other constants, so its recursion is bounded by \<open>n\<close>; \<open>None\<close> is an
  initializer that is lowered in place.\<close>

fun fold_const :: "nat \<Rightarrow> (expr \<Rightarrow> type option) \<Rightarrow> (string \<rightharpoonup> expr) \<Rightarrow> expr \<Rightarrow> mir_constant option folded" where
  "fold_const 0 type_of consts e = Inl UnboundedConstants"
| "fold_const (Suc n) type_of consts e =
    (case e of
       ELiteral l _ \<Rightarrow>
         Inr (Some (lower_literal l (case type_of e of Some ty \<Rightarrow> ty | None \<Rightarrow> TInt I64)))
     | EIdent name _ \<Rightarrow> (case consts name of None \<Rightarrow> Inr None | Some init \<Rightarrow> fold_const n type_of consts init)
     | EUnary op a _ \<Rightarrow> (case fold_const n type_of consts a of
         Inl p \<Rightarrow> Inl p
       | Inr None \<Rightarrow> Inr None
       | Inr (Some c) \<Rightarrow> map_sum id Some (fold_unary op c))
     | EBinary op a b _ \<Rightarrow> (case fold_const n type_of consts a of
         Inl p \<Rightarrow> Inl p
       | Inr None \<Rightarrow> Inr None
       | Inr (Some l) \<Rightarrow> (case fold_const n type_of consts b of
           Inl p \<Rightarrow> Inl p
         | Inr None \<Rightarrow> Inr None
         | Inr (Some r) \<Rightarrow> map_sum id Some (fold_binary op l r)))
     | _ \<Rightarrow> Inr None)"

fun lower_binary_op :: "binary_op \<Rightarrow> bin_op" where
  "lower_binary_op OpAdd = BAdd"
| "lower_binary_op OpSub = BSub"
| "lower_binary_op OpMul = BMul"
| "lower_binary_op OpDiv = BDiv"
| "lower_binary_op OpRem = BRem"
| "lower_binary_op OpEq = BEq"
| "lower_binary_op OpNe = BNe"
| "lower_binary_op OpLt = BLt"
| "lower_binary_op OpLe = BLe"
| "lower_binary_op OpGt = BGt"
| "lower_binary_op OpGe = BGe"
| "lower_binary_op OpAnd = BAnd"
| "lower_binary_op OpOr = BOr"
| "lower_binary_op OpBitAnd = BBitAnd"
| "lower_binary_op OpBitOr = BBitOr"
| "lower_binary_op OpBitXor = BBitXor"
| "lower_binary_op OpShl = BShl"
| "lower_binary_op OpShr = BShr"

fun constant_type :: "mir_constant \<Rightarrow> type" where
  "constant_type (CInt _ w) = TInt w"
| "constant_type (CFloat _ w) = TFloat w"
| "constant_type (CBool _) = TBool"
| "constant_type (CChar _) = TChar"
| "constant_type (CStr _) = TString"
| "constant_type CUnit = TUnit"
| "constant_type (CType _) = TTypeValue TUnknown"

section \<open>Agreement with the machine\<close>

fun wf_constant :: "mir_constant \<Rightarrow> bool" where
  "wf_constant (CInt v w) \<longleftrightarrow> in_i64 v \<and> in_width w (to_i128 w v)"
| "wf_constant (CFloat v w) \<longleftrightarrow> width_round w v = v"
| "wf_constant _ \<longleftrightarrow> True"

text \<open>What folding is compared on: two constants of one type the folder has rules for, other than \<open>f32\<close>, and
  not a comparison or remainder of floats.\<close>

fun foldable :: "binary_op \<Rightarrow> mir_constant \<Rightarrow> mir_constant \<Rightarrow> bool" where
  "foldable op (CInt _ w) (CInt _ w') \<longleftrightarrow> w = w' \<or> op \<in> {OpShl, OpShr}"
| "foldable op (CFloat _ w) (CFloat _ w') \<longleftrightarrow>
    w = w' \<and> w \<in> {F64, F16, BF16} \<and> op \<notin> {OpRem, OpEq, OpNe, OpLt, OpLe, OpGt, OpGe}"
| "foldable op (CBool _) (CBool _) \<longleftrightarrow> True"
| "foldable _ _ _ \<longleftrightarrow> False"

text \<open>Agreement of a folded result with a machine result: the same bytes, or both fail.\<close>

fun agrees :: "span option \<Rightarrow> mir_constant folded \<Rightarrow> byte list outcome \<Rightarrow> bool" where
  "agrees sp (Inr c) m \<longleftrightarrow> wf_constant c \<and> (case constant_scalar c of None \<Rightarrow> False | Some bs \<Rightarrow> m = Ok bs)"
| "agrees sp (Inl p) m \<longleftrightarrow> (case m of Failed _ sp' \<Rightarrow> sp' = sp | _ \<Rightarrow> False)"

lemma wrapped_constant:
  "wf_constant (CInt (wrap_int w x) w)" "constant_scalar (CInt (wrap_int w x) w) = Some (int_bytes x (width_bytes w))"
proof -
  show "wf_constant (CInt (wrap_int w x) w)" by (simp add: in_i64_wrap_int wrap_int_range)
  have "wrap_int w x mod 2 ^ width_bits w = x mod 2 ^ width_bits w"
    using wrapped_congruent [of w x] to_i128_congruent [OF in_i64_wrap_int, of w w x] by simp
  then show "constant_scalar (CInt (wrap_int w x) w) = Some (int_bytes x (width_bytes w))"
    by (simp only: constant_scalar.simps int_bytes_cong [of "wrap_int w x" w x])
qed

lemma agrees_wrap: "agrees sp (Inr (CInt (wrap_int w x) w)) (Ok (int_bytes x (width_bytes w)))"
  using wrapped_constant [of w x] by simp

lemma agrees_flag: "agrees sp (Inr (CBool b)) (Ok (flag b))"
  by simp

lemma agrees_checked: "agrees sp (fold_checked (Some x) p w) (checked_bytes Debug sp w x m)"
proof (cases "in_width w x")
  case True
  then have "fold_checked (Some x) p w = Inr (CInt (wrap_int w x) w)" "checked_bytes Debug sp w x m = Ok (int_bytes x (width_bytes w))"
    by (auto simp: fold_checked_def checked_in_width_def checked_bytes_def in_width_def from_i128_wrap)
  then show ?thesis using agrees_wrap by simp
next
  case False
  then have "fold_checked (Some x) p w = Inl IntegerOverflow" "checked_bytes Debug sp w x m = Failed m sp"
    by (auto simp: fold_checked_def checked_in_width_def checked_bytes_def in_width_def)
  then show ?thesis by simp
qed

lemma width_range_bounds: "- (2 ^ 63) \<le> fst (width_range w)" "snd (width_range w) < 2 ^ 64"
  by (cases w; simp add: i64_min_def i64_max_def)+

lemma in_width_bounds: "in_width w x \<Longrightarrow> - (2 ^ 63) \<le> x \<and> x < 2 ^ 64"
  using width_range_bounds [of w] by (auto simp: in_width_def)

lemma signed_bounds: "is_signed w \<Longrightarrow> in_width w x \<Longrightarrow> - (2 ^ 63) \<le> x \<and> x < 2 ^ 63"
  by (cases w) (simp_all add: is_signed_def in_width_def i64_min_def i64_max_def)

lemma unsigned_bounds: "\<not> is_signed w \<Longrightarrow> in_width w x \<Longrightarrow> 0 \<le> x \<and> x \<le> 2 ^ 64 - 1 \<and> fst (width_range w) = 0"
  by (cases w) (simp_all add: is_signed_def in_width_def)

lemma agrees_checked_i128:
  assumes "in_i128 x"
  shows "agrees sp (fold_checked (checked_i128 x) p w) (checked_bytes Debug sp w x m)"
  using agrees_checked assms by (simp add: checked_i128_def)

text \<open>A product that leaves \<open>i128\<close> is one of unsigned factors and wraps to a negative number.\<close>

lemma agrees_mul:
  assumes "in_width w x" "in_width w y"
  shows "agrees sp (fold_checked (checked_i128 (x * y)) IntegerOverflow w) (checked_bytes Debug sp w (as_i128 (x * y)) m)"
proof (cases "in_i128 (x * y)")
  case True
  then have "as_i128 (x * y) = x * y" by (simp add: as_i128_def in_i128_def)
  then show ?thesis using agrees_checked_i128 [OF True] by simp
next
  case False
  have unsigned: "\<not> is_signed w"
  proof
    assume "is_signed w"
    then have "\<bar>x\<bar> \<le> 2 ^ 63" "\<bar>y\<bar> \<le> 2 ^ 63"
      using signed_bounds [OF _ assms(1)] signed_bounds [OF _ assms(2)] by linarith+
    then have "\<bar>x * y\<bar> \<le> 2 ^ 63 * 2 ^ 63" unfolding abs_mult by (rule mult_mono) simp_all
    then show False using False by (simp add: in_i128_def abs_le_iff)
  qed
  have range: "0 \<le> x" "x \<le> 2 ^ 64 - 1" "0 \<le> y" "y \<le> 2 ^ 64 - 1" "fst (width_range w) = 0"
    using unsigned_bounds [OF unsigned assms(1)] unsigned_bounds [OF unsigned assms(2)] by blast+
  then have "x * y \<le> (2 ^ 64 - 1) * (2 ^ 64 - 1)" by (intro mult_mono) simp_all
  moreover have "0 \<le> x * y" using range by simp
  ultimately have big: "2 ^ 127 \<le> x * y" "x * y < 2 ^ 128" using False by (simp_all add: in_i128_def)
  have "(x * y + 2 ^ 127) mod 2 ^ 128 = (x * y + 2 ^ 127 - 2 ^ 128) mod 2 ^ 128" by (rule minus_mod_self2 [symmetric])
  also have "\<dots> = x * y + 2 ^ 127 - 2 ^ 128" using big by (intro mod_pos_pos_trivial) simp_all
  finally have "as_i128 (x * y) < 0" using big by (simp add: as_i128_def)
  then show ?thesis using range(5) False by (simp add: checked_i128_def fold_checked_def checked_bytes_def)
qed

lemma in_i128_small: "- (2 ^ 65) \<le> x \<Longrightarrow> x \<le> 2 ^ 65 \<Longrightarrow> in_i128 x"
  by (simp add: in_i128_def)

lemma sdiv_bounds:
  assumes "\<bar>x\<bar> \<le> b" "y \<noteq> 0"
  shows "\<bar>x sdiv y\<bar> \<le> (b :: int)"
proof -
  define q where "q = \<bar>x\<bar> div \<bar>y\<bar>"
  have "0 \<le> q" using assms(2) by (simp add: q_def pos_imp_zdiv_nonneg_iff)
  then have "\<bar>x sdiv y\<bar> \<le> \<bar>x\<bar> div \<bar>y\<bar>"
    unfolding signed_divide_int_def q_def [symmetric] by (simp add: sgn_if)
  also have "\<dots> \<le> \<bar>x\<bar>" using zdiv_mono2 [of "\<bar>x\<bar>" 1 "\<bar>y\<bar>"] assms(2) by simp
  finally show ?thesis using assms(1) by simp
qed


lemma int_value_constant:
  assumes "wf_constant (CInt v w)"
  shows "int_value (int_bytes v (width_bytes w)) w = Ok (to_i128 w v)"
proof -
  have "to_i128 w (wrap_int w v) mod 2 ^ width_bits w = to_i128 w v mod 2 ^ width_bits w"
    using wrapped_congruent [of w v] to_i128_congruent [of v w] assms by simp
  then have "to_i128 w (wrap_int w v) = to_i128 w v" using assms by (intro in_width_unique [OF wrap_int_range]) simp
  then show ?thesis by (simp add: int_value_bytes)
qed

lemma as_i64_as_u64: "in_i64 v \<Longrightarrow> as_i64 (as_u64 v) = v"
proof -
  assume "in_i64 v"
  moreover have "as_i64 (as_u64 v) = as_i64 v" by (simp add: as_u64_def as_i64_def mod_add_left_eq)
  ultimately show ?thesis by (simp add: as_i64_id)
qed

lemma to_i128_inject:
  assumes "wf_constant (CInt l w)" "wf_constant (CInt r w)"
  shows "to_i128 w l = to_i128 w r \<longleftrightarrow> l = r"
proof (cases "w = U64")
  case True
  then show ?thesis using assms as_i64_as_u64 [of l] as_i64_as_u64 [of r] by (simp add: to_i128_def) metis
qed (simp add: to_i128_def)

lemma signed_range:
  assumes "is_signed w"
  obtains m where "width_range w = (- m, m - 1)" "128 \<le> m"
  using assms that by (cases w) (auto simp: is_signed_def i64_min_def i64_max_def)

lemma signed_remainder: "y \<noteq> 0 \<Longrightarrow> \<bar>x smod y\<bar> \<le> \<bar>y\<bar> - (1 :: int)"
  by (simp add: signed_modulo_int_def abs_mult sgn_if)

lemma quotient_in_width:
  assumes "in_width w x" "in_width w y" "y \<noteq> 0"
  shows "in_width w (x sdiv y) \<longleftrightarrow> \<not> (is_signed w \<and> x = fst (width_range w) \<and> y = - 1)"
proof (cases "is_signed w")
  case True
  obtain m where m: "width_range w = (- m, m - 1)" "128 \<le> m" using signed_range [OF True] .
  have x: "- m \<le> x" "x \<le> m - 1" using assms(1) by (simp_all add: in_width_def m)
  consider "y = - 1" | "y = 1" | "2 \<le> \<bar>y\<bar>" using assms(3) by linarith
  then show ?thesis
  proof cases
    case 3
    have "\<bar>x\<bar> div \<bar>y\<bar> \<le> \<bar>x\<bar> div 2" using 3 by (intro zdiv_mono2) simp_all
    moreover have "0 \<le> \<bar>x\<bar> div \<bar>y\<bar>" using 3 by (simp add: pos_imp_zdiv_nonneg_iff)
    ultimately have "\<bar>x sdiv y\<bar> \<le> \<bar>x\<bar> div 2"
      unfolding signed_divide_int_def by (cases x rule: linorder_cases [of _ 0]; cases y rule: linorder_cases [of _ 0]) simp_all
    then have "\<bar>x sdiv y\<bar> \<le> m - 1" using x m(2) by linarith
    then show ?thesis using 3 m(2) by (auto simp: in_width_def m(1))
  qed (use x True in \<open>auto simp: in_width_def m(1) signed_divide_int_def sgn_if\<close>)
next
  case False
  have range: "0 \<le> x" "0 < y" "fst (width_range w) = 0" "x \<le> snd (width_range w)"
    using unsigned_bounds [OF False assms(1)] unsigned_bounds [OF False assms(2)] assms(1,3) by (auto simp: in_width_def)
  then have "x sdiv y = x div y" by (simp add: signed_divide_int_def sgn_if)
  moreover have "x div y \<le> x" using zdiv_mono2 [of x 1 y] range by simp
  ultimately show ?thesis using range False by (simp add: in_width_def pos_imp_zdiv_nonneg_iff)
qed

lemma remainder_in_width:
  assumes "in_width w x" "in_width w y" "y \<noteq> 0"
  shows "in_width w (x smod y)"
proof (cases "is_signed w")
  case True
  obtain m where m: "width_range w = (- m, m - 1)" "128 \<le> m" using signed_range [OF True] .
  show ?thesis using signed_remainder [OF assms(3), of x] assms(2) by (auto simp: in_width_def m(1))
next
  case False
  have range: "0 \<le> x" "0 < y" "fst (width_range w) = 0" "y \<le> snd (width_range w)"
    using unsigned_bounds [OF False assms(1)] unsigned_bounds [OF False assms(2)] assms(2,3) by (auto simp: in_width_def)
  then have "x smod y = x mod y" by (simp add: signed_modulo_int_def sgn_if)
  moreover have "x mod y < y" "0 \<le> x mod y" using range by simp_all
  ultimately show ?thesis using range unfolding in_width_def by linarith
qed

lemma agrees_div:
  assumes "in_width w x" "in_width w y"
  shows "agrees sp (fold_checked (if y = 0 then None else checked_i128 (x sdiv y)) DivisionByZero w) (int_binary Debug sp BDiv x y w)"
proof (cases "y = 0")
  case False
  have "\<bar>x\<bar> \<le> 2 ^ 65" using in_width_bounds [OF assms(1)] unfolding abs_le_iff by simp
  then have wide: "in_i128 (x sdiv y)" using sdiv_bounds [of x "2 ^ 65" y] False by (simp add: in_i128_def abs_le_iff)
  have overflow: "in_width w (x sdiv y) \<longleftrightarrow> \<not> (is_signed w \<and> x = fst (width_range w) \<and> y = - 1)"
    by (rule quotient_in_width [OF assms False])
  have machine: "int_binary Debug sp BDiv x y w = (if is_signed w \<and> x = fst (width_range w) \<and> y = - 1
      then Failed ''attempt to divide with overflow'' sp else Ok (int_bytes (x sdiv y) (width_bytes w)))"
    using False by (simp add: int_binary_def Let_def)
  show ?thesis
    unfolding machine if_not_P [OF False] checked_i128_def if_P [OF wide]
    using overflow agrees_checked [of sp "x sdiv y" DivisionByZero w "''attempt to divide with overflow''"]
    by (cases "in_width w (x sdiv y)") (auto simp: checked_bytes_def in_width_def)
qed (simp add: int_binary_def fold_checked_def)

lemma agrees_rem:
  assumes "in_width w x" "in_width w y"
  shows "agrees sp (fold_checked (if y = 0 \<or> (x = - (2 ^ 127) \<and> y = - 1) then None else Some (x smod y)) DivisionByZero w)
    (int_binary Debug sp BRem x y w)"
proof (cases "y = 0")
  case True
  then show ?thesis by (simp add: int_binary_def fold_checked_def)
next
  case False
  have "x \<noteq> - (2 ^ 127)" using in_width_bounds [OF assms(1)] by auto
  moreover have "int_binary Debug sp BRem x y w = Ok (int_bytes (x smod y) (width_bytes w))"
    using False by (auto simp: int_binary_def Let_def signed_modulo_int_def)
  ultimately show ?thesis
    using False remainder_in_width [OF assms False] agrees_checked [of sp "x smod y" DivisionByZero w "''remainder by zero''"]
    by (auto simp: checked_bytes_def in_width_def)
qed

lemma agrees_shift:
  assumes "in_width w x"
  shows "agrees sp (if \<not> (0 \<le> a \<and> a < int (width_bytes w * 8)) then Inl ShiftOverflow
      else Inr (CInt (wrap_int w (if op = OpShl then as_i128 (push_bit (nat a) x) else drop_bit (nat a) x)) w))
    (shift Debug sp (lower_binary_op op) x a w)"
proof (cases "0 \<le> a \<and> a < int (width_bytes w * 8)")
  case True
  have "int (width_bytes w * 8) = 2 ^ k \<Longrightarrow> a AND (int (width_bytes w * 8) - 1) = a" for k
    using True by (simp flip: mask_eq_exp_minus_1 take_bit_eq_mask add: take_bit_int_eq_self)
  moreover have "\<exists>k. int (width_bytes w * 8) = 2 ^ k"
    by (cases w) (auto intro: exI [of _ 3] exI [of _ 4] exI [of _ 5] exI [of _ 6])
  ultimately have masked: "a AND (int (width_bytes w * 8) - 1) = a" by blast
  have op: "lower_binary_op op = BShl \<longleftrightarrow> op = OpShl" by (cases op) simp_all
  show ?thesis
    using True agrees_wrap [of sp w "if op = OpShl then as_i128 (push_bit (nat a) x) else drop_bit (nat a) x"]
    unfolding shift_def Let_def masked op by (simp only: simp_thms if_False)
next
  case False
  then show ?thesis by (simp add: shift_def Let_def)
qed

lemma fold_int_agrees:
  assumes "wf_constant (CInt l w)" "wf_constant (CInt r w')" "w = w' \<or> op \<in> {OpShl, OpShr}"
  shows "agrees sp (fold_int op l w r w')
    (binary_rvalue Debug sp (lower_binary_op op) (int_bytes l (width_bytes w)) (TInt w) (int_bytes r (width_bytes w')) (TInt w'))"
proof (cases "op \<in> {OpShl, OpShr}")
  case True
  have "lower_binary_op op = BShl \<or> lower_binary_op op = BShr" using True by auto
  then have machine: "binary_rvalue Debug sp (lower_binary_op op) (int_bytes l (width_bytes w)) (TInt w) (int_bytes r (width_bytes w')) (TInt w')
      = shift Debug sp (lower_binary_op op) (to_i128 w l) (to_i128 w' r) w"
    by (simp only: binary_rvalue_def int_value_constant [OF assms(1)] int_value_constant [OF assms(2)] prod.case type.case if_True bind_outcome.simps)
  have "fold_int op l w r w' = (let x = to_i128 w l; a = to_i128 w' r in
      if \<not> (0 \<le> a \<and> a < int (width_bytes w * 8)) then Inl ShiftOverflow
      else Inr (CInt (wrap_int w (if op = OpShl then as_i128 (push_bit (nat a) x) else drop_bit (nat a) x)) w))"
    using True by (auto simp: fold_int_def Let_def)
  then show ?thesis unfolding machine Let_def using agrees_shift [of w "to_i128 w l" sp "to_i128 w' r" op] assms(1) by simp
next
  case False
  have w: "w' = w" using False assms(3) by auto
  have "lower_binary_op op \<noteq> BShl" "lower_binary_op op \<noteq> BShr" using False by (cases op; simp)+
  then have machine: "binary_rvalue Debug sp (lower_binary_op op) (int_bytes l (width_bytes w)) (TInt w) (int_bytes r (width_bytes w')) (TInt w')
      = int_binary Debug sp (lower_binary_op op) (to_i128 w l) (to_i128 w r) w"
    unfolding w using assms(1,2)
    by (simp add: binary_rvalue_def binary_def int_value_constant w Let_def)
  define x y where xy: "x = to_i128 w l" "y = to_i128 w r"
  have range: "in_width w x" "in_width w y" using assms(1,2) by (simp_all add: xy w)
  note bounds = in_width_bounds [OF range(1)] in_width_bounds [OF range(2)]
  have wide: "in_i128 (x + y)" "in_i128 (x - y)" using bounds by (simp_all add: in_i128_def)
  have eq: "x = y \<longleftrightarrow> l = r" using to_i128_inject [OF assms(1) assms(2) [unfolded w]] by (simp add: xy)
  have "agrees sp (fold_int op l w r w) (int_binary Debug sp (lower_binary_op op) x y w)" (is ?goal)
  proof (cases op)
    case OpAdd
    then show ?goal using agrees_checked_i128 [OF wide(1)] by (simp add: fold_int_def int_binary_def Let_def flip: xy)
  next
    case OpSub
    then show ?goal using agrees_checked_i128 [OF wide(2)] by (simp add: fold_int_def int_binary_def Let_def flip: xy)
  next
    case OpMul
    then show ?goal using agrees_mul [OF range] by (simp add: fold_int_def int_binary_def Let_def flip: xy)
  next
    case OpDiv
    then show ?goal using agrees_div [OF range] by (simp add: fold_int_def Let_def flip: xy)
  next
    case OpRem
    then show ?goal using agrees_rem [OF range] by (simp add: fold_int_def Let_def flip: xy)
  qed (use agrees_wrap agrees_flag False eq in \<open>simp_all add: fold_int_def int_binary_def Let_def flip: xy\<close>)
  then show ?thesis unfolding machine xy by (simp only: w)
qed


lemma small_with_infinity:
  assumes "w \<in> {F16, BF16}"
  obtains f c where "width_format w = Some f" "has_infinity f" "small_code w = Some c"
  using assms that by auto

lemma encode_bound: "width_format w = Some f \<Longrightarrow> width_encode w v < 2 ^ (8 * float_width_bytes w)"
  using encode_small_bound [OF wf_width_format, of w f v] width_small(1) [of w f v] width_small(3) [of w f] by metis

lemma small_bytes_le: "width_format w = Some f \<Longrightarrow> float_width_bytes w \<le> 2"
  by (cases w) simp_all

lemma float_bytes_small:
  assumes "width_format w = Some f" "small_code w = Some c"
  shows "float_bytes x w = Ok (le_bytes (float_width_bytes w) (int (width_encode w x)))"
    "constant_scalar (CFloat x w) = Some (le_bytes (float_width_bytes w) (int (width_encode w x)))"
  using assms runtime_conversions(1) [OF assms(2), of x] small_bytes_le [OF assms(1)]
  by (cases w; simp add: float_bytes_def take_le_bytes)+

lemma float_value_constant:
  assumes "w \<in> {F64, F16, BF16}" "wf_constant (CFloat v w)" "constant_scalar (CFloat v w) = Some bs"
  shows "float_value bs w = Ok v"
proof (cases "w = F64")
  case True
  then show ?thesis using assms(3) uint_bounded [of v]
    by (auto simp: float_value_def le_value_bytes)
next
  case False
  then obtain f c where w: "width_format w = Some f" "has_infinity f" "small_code w = Some c"
    using assms(1) small_with_infinity [of w] by auto
  define enc where "enc = width_encode w v"
  have enc: "enc < 2 ^ (8 * float_width_bytes w)" using encode_bound [OF w(1)] by (simp add: enc_def)
  have bs: "bs = le_bytes (float_width_bytes w) (int enc)" using assms(3) float_bytes_small(2) [OF w(1,3)] by (simp add: enc_def)
  have "int enc < 2 ^ (8 * float_width_bytes w)" using enc by (metis of_nat_less_iff of_nat_numeral of_nat_power)
  then have val: "nat (le_value (bs @ replicate (4 - length bs) 0)) = enc" by (simp add: bs le_value_bytes)
  have "float_to_f64 (enc mod 2 ^ 32) c = Some (width_decode w enc)" by (rule runtime_conversions(2) [OF w(3)])
  then have "float_to_f64 enc c = Some (width_decode w enc)" by (simp only: width_bits_u32 [OF w(1) enc])
  moreover have "width_decode w enc = v" using assms(2) w(1) False by (cases w) (simp_all add: width_round_def enc_def)
  moreover have "length bs \<le> 4" using small_bytes_le [OF w(1)] by (simp add: bs)
  ultimately show ?thesis using w(1,3) val by (cases w) (simp_all add: float_value_def)
qed

lemma agrees_float:
  assumes "w \<in> {F64, F16, BF16}"
  shows "agrees sp (Inr (CFloat (width_round w x) w)) (float_bytes x w)"
proof (cases "w = F64")
  case False
  then obtain f c where w: "width_format w = Some f" "has_infinity f" "small_code w = Some c"
    using assms small_with_infinity [of w] by auto
  have "width_round w (width_round w x) = width_round w x"
    using encode_round [OF w(1,2), of x] w(1) by (cases w) (simp_all add: width_round_def)
  then show ?thesis by (simp add: float_bytes_small [OF w(1,3)] encode_round [OF w(1,2)] del: constant_scalar.simps)
qed (simp add: width_round_def float_bytes_def)

lemma fold_float_agrees:
  assumes "foldable op (CFloat l w) (CFloat r w')" "wf_constant (CFloat l w)" "wf_constant (CFloat r w')"
    "constant_scalar (CFloat l w) = Some a" "constant_scalar (CFloat r w') = Some b"
  shows "agrees sp (fold_float op l w r w') (binary_rvalue Debug sp (lower_binary_op op) a (TFloat w) b (TFloat w'))"
proof -
  have w: "w' = w" "w \<in> {F64, F16, BF16}" and op: "op \<notin> {OpRem, OpEq, OpNe, OpLt, OpLe, OpGt, OpGe}" using assms(1) by auto
  note vals = float_value_constant [OF w(2) assms(2,4)] float_value_constant [OF w(2) assms(3,5) [unfolded w(1)]]
  have machine: "binary_rvalue Debug sp (lower_binary_op op) a (TFloat w) b (TFloat w') = float_binary sp (lower_binary_op op) l r w"
    by (simp add: binary_rvalue_def binary_def vals Let_def)
  have "w \<noteq> F32" using w(2) by auto
  then show ?thesis unfolding machine using op agrees_float [OF w(2), of sp]
    by (cases op) (simp_all add: float_binary_def fold_float_def Let_def w(1) del: agrees.simps(1) constant_scalar.simps)
qed



fun lower_unary_op :: "unary_op \<Rightarrow> un_op option" where
  "lower_unary_op OpNot = Some UNot"
| "lower_unary_op OpNeg = Some UNeg"
| "lower_unary_op OpBitNot = Some UBitNot"
| "lower_unary_op OpDeref = None"

text \<open>The operands the checker accepts for a unary operator.\<close>

fun unary_foldable :: "unary_op \<Rightarrow> mir_constant \<Rightarrow> bool" where
  "unary_foldable OpNeg (CInt _ w) \<longleftrightarrow> is_signed w"
| "unary_foldable OpNeg (CFloat _ w) \<longleftrightarrow> w = F64"
| "unary_foldable OpNot (CBool _) \<longleftrightarrow> True"
| "unary_foldable OpBitNot (CInt _ w) \<longleftrightarrow> True"
| "unary_foldable _ _ \<longleftrightarrow> False"

lemma agrees_neg:
  assumes "is_signed w" "wf_constant (CInt v w)"
  shows "agrees sp (fold_unary OpNeg (CInt v w)) (unary Debug sp UNeg (int_bytes v (width_bytes w)) (TInt w))"
proof -
  define x where "x = to_i128 w v"
  obtain m where m: "width_range w = (- m, m - 1)" "128 \<le> m" using signed_range [OF assms(1)] .
  have x: "in_width w x" using assms(2) by (simp add: x_def)
  then have wide: "in_i128 (- x)" using in_width_bounds [OF x] by (simp add: in_i128_def)
  have range: "in_width w (- x) \<longleftrightarrow> x \<noteq> fst (width_range w)" using x by (auto simp: in_width_def m(1))
  have machine: "unary Debug sp UNeg (int_bytes v (width_bytes w)) (TInt w) =
      (if x = fst (width_range w) then Failed ''attempt to negate with overflow'' sp else Ok (int_bytes (- x) (width_bytes w)))"
    using assms(1) by (simp add: unary_def int_value_constant [OF assms(2)] x_def)
  show ?thesis
    unfolding machine using range wide agrees_checked [of sp "- x" IntegerOverflow w "''attempt to negate with overflow''"]
    by (cases "in_width w (- x)") (auto simp: fold_unary_def checked_i128_def checked_bytes_def in_width_def x_def)
qed

text \<open>The same for a unary operator on an operand the checker accepts.\<close>

theorem unary_folding_matches_machine:
  assumes "wf_constant c" "unary_foldable op c" "constant_scalar c = Some a" "lower_unary_op op = Some u"
  shows "agrees sp (fold_unary op c) (unary Debug sp u a (constant_type c))"
proof (cases c)
  case (CInt v w)
  have a: "a = int_bytes v (width_bytes w)" using assms(3) CInt by simp
  show ?thesis
  proof (cases op)
    case OpNeg
    then show ?thesis using assms agrees_neg [of w v sp] by (simp add: CInt a)
  next
    case OpBitNot
    then show ?thesis using assms agrees_wrap [of sp w "NOT (to_i128 w v)"]
      by (simp add: CInt a fold_unary_def unary_def int_value_constant del: agrees.simps(1))
  qed (use assms CInt in simp_all)
next
  case (CFloat v w)
  then have w: "w = F64" "op = OpNeg" using assms(2) by (cases op; simp)+
  then have "float_value a F64 = Ok v" using assms CFloat by (intro float_value_constant) auto
  then show ?thesis using assms w by (simp add: CFloat fold_unary_def unary_def float_bytes_def width_round_def)
next
  case (CBool b)
  then show ?thesis using assms by (cases op; cases b) (auto simp: fold_unary_def unary_def flag_def)
qed (use assms in \<open>cases op; simp\<close>)+

theorem unary_folding_matches_machine_witness:
  "agrees None (fold_unary OpNeg (CInt (- 128) I8)) (unary Debug None UNeg (int_bytes (- 128) 1) (TInt I8))"
proof -
  have "wf_constant (CInt (- 128) I8)" by (simp add: in_i64_def i64_min_def i64_max_def in_width_def to_i128_def)
  from unary_folding_matches_machine [OF this, of OpNeg] show ?thesis by (simp add: is_signed_def)
qed

text \<open>C35: folding cannot compare floats. The checker accepts a comparison of two float constants in an
  initializer, but the folder panics on it, whatever the values, while the machine computes the answer.\<close>

theorem float_comparison_panics:
  assumes "op \<in> {OpEq, OpNe, OpLt, OpLe, OpGt, OpGe}"
  shows "fold_binary op (CFloat l w) (CFloat r w) = Inl (BinaryNotEvaluable op (CFloat l w) (CFloat r w))
    \<and> (\<exists>b. float_binary sp (lower_binary_op op) l r w = Ok (flag b))"
  using assms by (auto simp: fold_binary_def fold_float_def float_binary_def Let_def)

theorem float_comparison_panics_witness:
  "fold_binary OpLt (CFloat (f64_of_int 1) F64) (CFloat (f64_of_int 2) F64) =
     Inl (BinaryNotEvaluable OpLt (CFloat (f64_of_int 1) F64) (CFloat (f64_of_int 2) F64))
   \<and> (\<exists>b. float_binary None (lower_binary_op OpLt) (f64_of_int 1) (f64_of_int 2) F64 = Ok (flag b))"
  by (rule float_comparison_panics) simp

end
