(* ===== verification/Text.thy ===== *)
theory Text
  imports Scalars "HOL-Library.Multiset"
begin

text \<open>
  The string helpers of \<open>runtime/paco-runtime/src/text.rs\<close> and the sorting of primitive slices of
  \<open>runtime/paco-runtime/src/sort.rs\<close>, which compiled programs and the compile-time machine share.  A string
  is its list of bytes, a \<open>u32\<close> a word, an \<open>i64\<close> position an integer.  \<open>utf8_valid\<close> is the standard
  library's check of UTF-8.
\<close>

unbundle bit_operations_syntax

section \<open>Characters in bytes\<close>

definition encode_char :: "32 word \<Rightarrow> byte list \<times> nat" where
  "encode_char c =
    (if c < 0x80 then ([ucast c, 0, 0, 0], 1)
     else if c < 0x800 then ([ucast (0xC0 OR drop_bit 6 c), ucast (0x80 OR (c AND 0x3F)), 0, 0], 2)
     else if c < 0x10000 then
       ([ucast (0xE0 OR drop_bit 12 c), ucast (0x80 OR (drop_bit 6 c AND 0x3F)), ucast (0x80 OR (c AND 0x3F)), 0], 3)
     else
       ([ucast (0xF0 OR drop_bit 18 c), ucast (0x80 OR (drop_bit 12 c AND 0x3F)),
         ucast (0x80 OR (drop_bit 6 c AND 0x3F)), ucast (0x80 OR (c AND 0x3F))], 4))"

definition is_boundary :: "byte list \<Rightarrow> int \<Rightarrow> bool" where
  "is_boundary s pos \<longleftrightarrow>
    pos = 0 \<or> pos = int (length s) \<or> (0 < pos \<and> pos < int (length s) \<and> (s ! nat pos) AND 0xC0 \<noteq> 0x80)"

definition char_width :: "byte \<Rightarrow> int" where
  "char_width lead = (if lead < 0x80 then 1 else if 0xF0 \<le> lead then 4 else if 0xE0 \<le> lead then 3 else 2)"

definition next_char_boundary :: "byte list \<Rightarrow> int \<Rightarrow> int" where
  "next_char_boundary s pos =
    (if pos < 0 \<or> int (length s) \<le> pos then pos else pos + char_width (s ! nat pos))"

definition char_at :: "byte list \<Rightarrow> int \<Rightarrow> 32 word option" where
  "char_at s pos =
    (if pos < 0 \<or> int (length s) \<le> pos \<or> \<not> is_boundary s pos then None
     else let p = drop (nat pos) s;
              width = nat (char_width (p ! 0));
              c = (if width = 1 then ucast (p ! 0) else ucast (p ! 0 AND drop_bit width 0x7F))
          in Some (fold (\<lambda>byte c. push_bit 6 c OR ucast (byte AND 0x3F)) (drop 1 (take (min width (length p)) p)) c))"

definition byte_at :: "byte list \<Rightarrow> int \<Rightarrow> int option" where
  "byte_at s pos = (if 0 \<le> pos \<and> pos < int (length s) then Some (uint (s ! nat pos)) else None)"

definition slice_utf8 :: "byte list \<Rightarrow> int \<Rightarrow> int \<Rightarrow> byte list option" where
  "slice_utf8 s start stop =
    (if start < 0 \<or> stop < start \<or> int (length s) < stop \<or> \<not> is_boundary s start \<or> \<not> is_boundary s stop then None
     else Some (drop (nat start) (take (nat stop) s)))"

text \<open>\<open>str::from_utf8\<close>: each character in its shortest encoding, no surrogates, nothing above the last code
  point.\<close>

definition continuation :: "byte \<Rightarrow> bool" where
  "continuation b \<longleftrightarrow> 0x80 \<le> b \<and> b < 0xC0"

fun utf8_valid :: "byte list \<Rightarrow> bool" where
  "utf8_valid [] \<longleftrightarrow> True"
| "utf8_valid (b # s) \<longleftrightarrow>
    (if b < 0x80 then utf8_valid s
     else if 0xC2 \<le> b \<and> b < 0xE0 then (case s of
       b1 # s \<Rightarrow> continuation b1 \<and> utf8_valid s | _ \<Rightarrow> False)
     else if 0xE0 \<le> b \<and> b < 0xF0 then (case s of
       b1 # b2 # s \<Rightarrow> continuation b1 \<and> continuation b2 \<and> (b = 0xE0 \<longrightarrow> 0xA0 \<le> b1) \<and> (b = 0xED \<longrightarrow> b1 < 0xA0) \<and> utf8_valid s
     | _ \<Rightarrow> False)
     else if 0xF0 \<le> b \<and> b < 0xF5 then (case s of
       b1 # b2 # b3 # s \<Rightarrow> continuation b1 \<and> continuation b2 \<and> continuation b3
         \<and> (b = 0xF0 \<longrightarrow> 0x90 \<le> b1) \<and> (b = 0xF4 \<longrightarrow> b1 < 0x90) \<and> utf8_valid s
     | _ \<Rightarrow> False)
     else False)"

definition from_utf8_range :: "byte list \<Rightarrow> int \<Rightarrow> int \<Rightarrow> byte list option" where
  "from_utf8_range bytes start stop =
    (if start < 0 \<or> stop < start \<or> int (length bytes) < stop then None
     else let range = drop (nat start) (take (nat stop) bytes) in if utf8_valid range then Some range else None)"

definition hash_bytes :: "byte list \<Rightarrow> 64 word" where
  "hash_bytes bytes = fold (\<lambda>byte hash. (hash XOR ucast byte) * 0x100000001b3) bytes 0xcbf29ce484222325"

definition int_to_string :: "int \<Rightarrow> string" where
  "int_to_string v = int_string v"

definition uint_to_string :: "nat \<Rightarrow> string" where
  "uint_to_string v = nat_string v"

definition bool_to_string :: "bool \<Rightarrow> string" where
  "bool_to_string v = (if v then ''true'' else ''false'')"

section \<open>Sorting\<close>

definition sort_element_size :: "int \<Rightarrow> nat" where
  "sort_element_size kind =
    (if kind \<in> {0, 4} then 1 else if kind \<in> {1, 5, 10, 11} then 2 else if kind \<in> {2, 6, 8} then 4 else 8)"

text \<open>\<open>f64::total_cmp\<close> compares the bits as a signed integer, with the bits below the sign flipped when it is
  set.\<close>

definition total_key :: "f64 \<Rightarrow> int" where
  "total_key v = (let left = sint v in left XOR (if left < 0 then 2 ^ 63 - 1 else 0))"

definition total_key32 :: "f32 \<Rightarrow> int" where
  "total_key32 v = (let left = sint v in left XOR (if left < 0 then 2 ^ 31 - 1 else 0))"

text \<open>The key by which an element of a kind is ordered; \<open>None\<close> when the kind is not one the code sorts.\<close>

definition signed_value :: "byte list \<Rightarrow> int" where
  "signed_value bs = (let v = le_value bs; half = 2 ^ (8 * length bs - 1) in if v < half then v else v - 2 * half)"

definition sort_key_of :: "int \<Rightarrow> (byte list \<Rightarrow> int) option" where
  "sort_key_of kind =
    (if kind \<in> {0, 1, 2, 3} then Some signed_value
     else if kind \<in> {4, 5, 6, 7} then Some le_value
     else if kind = 8 then Some (\<lambda>bs. total_key32 (word_of_int (le_value bs)))
     else if kind = 9 then Some (\<lambda>bs. total_key (word_of_int (le_value bs)))
     else if kind \<in> {10, 11} then Some (\<lambda>bs. total_key (the (float_to_f64 (nat (le_value bs)) (kind - 10))))
     else None)"

definition sort_raw :: "byte list list \<Rightarrow> int \<Rightarrow> byte list list" where
  "sort_raw elements kind = (case sort_key_of kind of None \<Rightarrow> elements | Some f \<Rightarrow> sort_key f elements)"

definition elements_of :: "nat \<Rightarrow> byte list \<Rightarrow> byte list list" where
  "elements_of n bytes = map (\<lambda>i. take n (drop (i * n) bytes)) [0..<length bytes div n]"

definition sort_bytes :: "byte list \<Rightarrow> int \<Rightarrow> byte list" where
  "sort_bytes bytes kind =
    (let n = sort_element_size kind; len = length bytes div n
     in concat (sort_raw (elements_of n bytes) kind) @ drop (len * n) bytes)"

section \<open>Encoded characters are read back\<close>

definition encoded :: "32 word \<Rightarrow> byte list" where
  "encoded c = (case encode_char c of (buf, len) \<Rightarrow> take len buf)"

lemma and_63: "x AND 63 = x mod (64 :: nat)"
  using take_bit_eq_mask [of 6 x] by (simp add: take_bit_eq_mod mask_eq_exp_minus_1)

lemma unat_shift: "unat (drop_bit k c) = unat (c :: 'a::len word) div 2 ^ k"
  by (simp only: unat_drop_bit_eq) (rule drop_bit_eq_div)

lemma unat_continuation: "unat (ucast (0x80 OR (drop_bit k c AND 0x3F)) :: byte) = 128 + unat (c :: 32 word) div 2 ^ k mod 64"
proof -
  have "128 OR (x mod 64) = 128 + x mod (64 :: nat)" for x using or_low [of "x mod 64" 6 2] by simp
  then show ?thesis
    by (simp add: unsigned_ucast_eq unsigned_or_eq unsigned_and_eq unat_shift and_63 take_bit_eq_mod mod_mod_cancel)
qed

lemma unat_lead:
  assumes "unat (c :: 32 word) < 2 ^ (k + j)" "m * 2 ^ j + 2 ^ j \<le> 256" "unat lead = m * 2 ^ j"
  shows "unat (ucast (lead OR drop_bit k c) :: byte) = m * 2 ^ j + unat c div 2 ^ k"
proof -
  have "unat c div 2 ^ k < 2 ^ j" using assms(1) by (simp add: less_mult_imp_div_less power_add mult.commute)
  moreover from this have "m * 2 ^ j OR unat c div 2 ^ k = m * 2 ^ j + unat c div 2 ^ k" by (rule or_low)
  ultimately show ?thesis using assms(2,3)
    by (simp add: unsigned_ucast_eq unsigned_or_eq unat_shift take_bit_eq_mod)
qed

text \<open>The bytes of an encoded character, by numbers.\<close>

lemma encoded_bytes:
  assumes "unat c < 0x200000"
  shows "map unat (encoded c) =
    (let n = unat c in
     if n < 0x80 then [n]
     else if n < 0x800 then [0xC0 + n div 64, 0x80 + n mod 64]
     else if n < 0x10000 then [0xE0 + n div 4096, 0x80 + n div 64 mod 64, 0x80 + n mod 64]
     else [0xF0 + n div 262144, 0x80 + n div 4096 mod 64, 0x80 + n div 64 mod 64, 0x80 + n mod 64])"
proof -
  have low: "unat (ucast c :: byte) = unat c" if "unat c < 0x80"
    using that by (simp add: unsigned_ucast_eq take_bit_eq_mod)
  have 2: "unat (ucast (0xC0 OR drop_bit 6 c) :: byte) = 0xC0 + unat c div 64" if "unat c < 0x800"
    using unat_lead [of c 6 5 6 "0xC0"] that by simp
  have 3: "unat (ucast (0xE0 OR drop_bit 12 c) :: byte) = 0xE0 + unat c div 4096" if "unat c < 0x10000"
    using unat_lead [of c 12 4 14 "0xE0"] that by simp
  have 4: "unat (ucast (0xF0 OR drop_bit 18 c) :: byte) = 0xF0 + unat c div 262144"
    using unat_lead [of c 18 3 30 "0xF0"] assms by simp
  have cont: "unat (ucast (0x80 OR (c AND 0x3F)) :: byte) = 0x80 + unat c mod 64"
    using unat_continuation [of 0 c] by simp
  show ?thesis
    using unat_continuation [of 6 c] unat_continuation [of 12 c]
    by (simp add: encoded_def encode_char_def Let_def word_less_nat_alt low 2 3 4 cont)
qed

lemma length_encoded: "length (encoded c) =
    (let n = unat c in if n < 0x80 then 1 else if n < 0x800 then 2 else if n < 0x10000 then 3 else 4)"
  by (simp add: encoded_def encode_char_def Let_def word_less_nat_alt)

lemma unat_byte: "unat (b :: byte) < 256"
  using unsigned_less [of b] by simp

lemma continuation_test: "(b :: byte) AND 0xC0 = 0x80 \<longleftrightarrow> 128 \<le> unat b \<and> unat b < 192"
proof -
  have "list_all (\<lambda>n. (word_of_nat n :: byte) AND 0xC0 = 0x80 \<longleftrightarrow> 128 \<le> n \<and> n < 192) [0..<256]" by code_simp
  then have "(word_of_nat (unat b) :: byte) AND 0xC0 = 0x80 \<longleftrightarrow> 128 \<le> unat b \<and> unat b < 192"
    unfolding list_all_iff using unat_byte [of b] by (metis atLeastLessThan_iff set_upt zero_le)
  then show ?thesis by simp
qed

lemma unat_char_step:
  assumes "unat (x :: 32 word) < 2 ^ 26"
  shows "unat (push_bit 6 x OR ucast ((b :: byte) AND 0x3F)) = unat x * 64 + unat b mod 64"
proof -
  have "unat (push_bit 6 x) = unat x * 64"
    using assms by (simp only: unsigned_push_bit_eq) (simp add: push_bit_eq_mult take_bit_eq_mod)
  moreover have "unat x * 64 OR unat b mod 64 = unat x * 64 + unat b mod 64" using or_low [of "unat b mod 64" 6 "unat x"] by simp
  ultimately show ?thesis by (simp add: unsigned_or_eq unsigned_ucast_eq unsigned_and_eq and_63 take_bit_eq_mod mod_mod_cancel)
qed

lemma unat_masked: "unat ((b :: byte) AND mask k) = unat b mod 2 ^ k"
  by (simp only: take_bit_eq_mask [symmetric] unsigned_take_bit_eq) (rule take_bit_eq_mod)

lemma lead_masks: "drop_bit 2 (0x7F :: byte) = mask 5" "drop_bit 3 (0x7F :: byte) = mask 4" "drop_bit 4 (0x7F :: byte) = mask 3"
  by (simp_all add: mask_eq_exp_minus_1)

definition scalar :: "32 word \<Rightarrow> bool" where
  "scalar c \<longleftrightarrow> unat c < 0xD800 \<or> (0xE000 \<le> unat c \<and> unat c < 0x110000)"

text \<open>The shapes of encoded characters.\<close>

lemma encoded_cases:
  assumes "unat c < 0x200000"
  obtains
    (one) b where "encoded c = [b]" "unat b = unat c" "unat c < 0x80"
  | (two) b b1 where "encoded c = [b, b1]" "unat b = 0xC0 + unat c div 64" "unat b1 = 0x80 + unat c mod 64"
      "0x80 \<le> unat c" "unat c < 0x800"
  | (three) b b1 b2 where "encoded c = [b, b1, b2]" "unat b = 0xE0 + unat c div 4096" "unat b1 = 0x80 + unat c div 64 mod 64"
      "unat b2 = 0x80 + unat c mod 64" "0x800 \<le> unat c" "unat c < 0x10000"
  | (four) b b1 b2 b3 where "encoded c = [b, b1, b2, b3]" "unat b = 0xF0 + unat c div 262144"
      "unat b1 = 0x80 + unat c div 4096 mod 64" "unat b2 = 0x80 + unat c div 64 mod 64" "unat b3 = 0x80 + unat c mod 64"
      "0x10000 \<le> unat c"
proof (cases "unat c < 0x80")
  case True
  then show ?thesis using encoded_bytes [OF assms] one by (auto simp: Let_def map_eq_Cons_conv)
next
  case False
  note a = this
  show ?thesis
  proof (cases "unat c < 0x800")
    case True
    then show ?thesis using a encoded_bytes [OF assms] two by (auto simp: Let_def map_eq_Cons_conv)
  next
    case False
    then show ?thesis using a encoded_bytes [OF assms] three four
      by (cases "unat c < 0x10000") (auto simp: Let_def map_eq_Cons_conv)
  qed
qed

lemma char_width_unat: "char_width b =
    (if unat b < 0x80 then 1 else if 0xF0 \<le> unat b then 4 else if 0xE0 \<le> unat b then 3 else 2)"
  by (simp add: char_width_def word_less_nat_alt word_le_nat_alt)

lemma lead_not_continuation:
  assumes "unat c < 0x200000" "encoded c = b # bs"
  shows "b AND 0xC0 \<noteq> 0x80" "char_width b = int (length (encoded c))"
    "\<forall>b' \<in> set bs. b' AND 0xC0 = 0x80"
  using assms(1) by (cases rule: encoded_cases; use assms in \<open>simp add: continuation_test char_width_unat\<close>; fail)+

lemma encoded_nonempty: "encoded c \<noteq> []"
  using length_encoded [of c] by (auto simp: Let_def split: if_splits)

lemma boundary_at_encoded:
  assumes "unat c < 0x200000"
  shows "is_boundary (pre @ encoded c @ post) (int (length pre))"
proof -
  obtain b bs where "encoded c = b # bs" using encoded_nonempty by (cases "encoded c") auto
  then show ?thesis using lead_not_continuation(1) [OF assms] by (auto simp: is_boundary_def nth_append)
qed

lemma tag_bits:
  "q < 32 \<Longrightarrow> (192 + q) mod 32 = (q :: nat)" "q < 16 \<Longrightarrow> (224 + q) mod 16 = q" "q < 8 \<Longrightarrow> (240 + q) mod 8 = q"
  "(128 + q mod 64) mod 64 = q mod 64"
  using mod_mult_self3 [of 6 32 q] mod_mult_self3 [of 14 16 q] mod_mult_self3 [of 30 8 q] mod_mult_self3 [of 2 64 "q mod 64"]
  by simp_all

lemma sixty_fours:
  "n = n div 4096 * 4096 + n div 64 mod 64 * 64 + n mod (64 :: nat)"
  "n div 4096 = n div 262144 * 64 + n div 4096 mod 64"
  "n div 4096 * 64 + n div 64 mod 64 = n div 64"
proof -
  have d: "n div 64 div 64 = n div 4096" "n div 4096 div 64 = n div 262144" by (simp_all flip: div_mult2_eq)
  show "n = n div 4096 * 4096 + n div 64 mod 64 * 64 + n mod (64 :: nat)"
    using div_mult_mod_eq [of n 64] div_mult_mod_eq [of "n div 64" 64] unfolding d by linarith
  show "n div 4096 = n div 262144 * 64 + n div 4096 mod 64"
    using div_mult_mod_eq [of "n div 4096" 64] unfolding d by linarith
  show "n div 4096 * 64 + n div 64 mod 64 = n div 64"
    using div_mult_mod_eq [of "n div 64" 64] unfolding d by linarith
qed

definition char_step :: "byte \<Rightarrow> 32 word \<Rightarrow> 32 word" where
  "char_step b c = push_bit 6 c OR ucast (b AND 0x3F)"

lemma unat_char_fold:
  "(unat x + 1) * 64 ^ length bs \<le> 2 ^ 32 \<Longrightarrow> unat (fold char_step bs x) = fold (\<lambda>b n. n * 64 + unat b mod 64) bs (unat x)"
proof (induction bs arbitrary: x)
  case (Cons b bs)
  have "(unat x + 1) * 64 * 1 \<le> (unat x + 1) * 64 * 64 ^ length bs" by (intro mult_le_mono2) simp
  also have "\<dots> = (unat x + 1) * 64 ^ length (b # bs)" by (simp add: algebra_simps)
  finally have "(unat x + 1) * 64 \<le> 2 ^ 32" using Cons.prems by linarith
  then have step: "unat (char_step b x) = unat x * 64 + unat b mod 64"
    unfolding char_step_def by (intro unat_char_step) simp
  have "unat x * 64 + unat b mod 64 + 1 \<le> (unat x + 1) * 64" by simp
  then have "(unat x * 64 + unat b mod 64 + 1) * 64 ^ length bs \<le> (unat x + 1) * 64 * 64 ^ length bs"
    by (rule mult_le_mono1)
  also have "\<dots> = (unat x + 1) * 64 ^ length (b # bs)" by (simp add: algebra_simps)
  finally have "(unat (char_step b x) + 1) * 64 ^ length bs \<le> 2 ^ 32" using Cons.prems unfolding step by linarith
  from Cons.IH [OF this] show ?case by (simp add: step)
qed simp

lemma char_at_start:
  assumes "is_boundary (pre @ b # bs) (int (length pre))" "nat (char_width b) = w" "0 < w" "w \<le> Suc (length bs)"
  shows "char_at (pre @ b # bs) (int (length pre))
    = Some (fold char_step (take (w - 1) bs) (if w = 1 then ucast b else ucast (b AND drop_bit w 0x7F)))"
proof -
  have "drop 1 (take (min w (length (b # bs))) (b # bs)) = take (w - 1) bs" using assms(3,4) by (cases w) auto
  then show ?thesis using assms by (simp add: char_at_def Let_def char_step_def [abs_def])
qed

lemma char_at_encoded:
  assumes "unat c < 0x200000"
  shows "char_at (pre @ encoded c @ post) (int (length pre)) = Some c"
proof -
  obtain b bs where b: "encoded c = b # bs" using encoded_nonempty by (cases "encoded c") auto
  define x :: "32 word" where
    x: "x = (if length (encoded c) = 1 then ucast b else ucast (b AND drop_bit (length (encoded c)) 0x7F))"
  have at: "char_at (pre @ encoded c @ post) (int (length pre)) = Some (fold char_step bs x)"
    using char_at_start [of pre b "bs @ post" "length (encoded c)"] boundary_at_encoded [OF assms, of pre post]
      lead_not_continuation(2) [OF assms b] by (simp add: b x)
  have lead: "unat (ucast (b' AND mask k) :: 32 word) = unat b' mod 2 ^ k" for b' :: byte and k
  proof -
    have "unat b' < 2 ^ 32" using unat_byte [of b'] by simp
    then have "unat b' mod 2 ^ k < 2 ^ 32" by (rule le_less_trans [OF mod_less_eq_dividend])
    then show ?thesis by (simp add: unsigned_ucast_eq unat_masked take_bit_eq_mod)
  qed
  from assms have "unat (fold char_step bs x) = unat c"
  proof (cases rule: encoded_cases)
    case (one b')
    then show ?thesis using b by (simp add: x unsigned_ucast_eq take_bit_eq_mod)
  next
    case (two b' b1)
    then have "unat x = unat c div 64" "bs = [b1]"
      using b lead [of b' 5] by (simp_all add: x lead_masks tag_bits mask_eq_exp_minus_1)
    then show ?thesis using two unat_char_fold [of x bs] by (simp add: tag_bits)
  next
    case (three b' b1 b2)
    then have "unat x = unat c div 4096" "bs = [b1, b2]"
      using b lead [of b' 4] by (simp_all add: x lead_masks tag_bits mask_eq_exp_minus_1)
    then show ?thesis using three sixty_fours(1) [of "unat c"] unat_char_fold [of x bs] by (simp add: tag_bits)
  next
    case (four b' b1 b2 b3)
    then have "unat x = unat c div 262144" "bs = [b1, b2, b3]"
      using b assms lead [of b' 3] by (simp_all add: x lead_masks tag_bits mask_eq_exp_minus_1)
    then show ?thesis using four assms sixty_fours [of "unat c"] unat_char_fold [of x bs] by (simp add: tag_bits)
  qed
  then show ?thesis using at by (simp add: word_unat_eq_iff)
qed

lemma next_boundary_encoded:
  assumes "unat c < 0x200000"
  shows "next_char_boundary (pre @ encoded c @ post) (int (length pre)) = int (length (pre @ encoded c))"
proof -
  obtain b bs where b: "encoded c = b # bs" using encoded_nonempty by (cases "encoded c") auto
  then show ?thesis using lead_not_continuation(2) [OF assms b] by (simp add: next_char_boundary_def nth_append)
qed

section \<open>Texts\<close>

definition encode_text :: "32 word list \<Rightarrow> byte list" where
  "encode_text cs = concat (map encoded cs)"

definition position_of :: "32 word list \<Rightarrow> nat \<Rightarrow> int" where
  "position_of cs i = int (length (encode_text (take i cs)))"

lemma scalar_less: "scalar c \<Longrightarrow> unat c < 0x200000"
  by (auto simp: scalar_def)

lemma encode_text_append: "encode_text (as @ bs) = encode_text as @ encode_text bs"
  by (simp add: encode_text_def)

lemma encode_text_Cons: "encode_text (c # cs) = encoded c @ encode_text cs"
  by (simp add: encode_text_def)

lemma text_split:
  assumes "i < length cs"
  shows "encode_text cs = encode_text (take i cs) @ encoded (cs ! i) @ encode_text (drop (Suc i) cs)"
    "encode_text (take (Suc i) cs) = encode_text (take i cs) @ encoded (cs ! i)"
proof -
  show "encode_text (take (Suc i) cs) = encode_text (take i cs) @ encoded (cs ! i)"
    using assms by (simp add: encode_text_def take_Suc_conv_app_nth)
  have "encode_text cs = encode_text (take i cs @ cs ! i # drop (Suc i) cs)"
    by (rule arg_cong [OF id_take_nth_drop [OF assms]])
  then show "encode_text cs = encode_text (take i cs) @ encoded (cs ! i) @ encode_text (drop (Suc i) cs)"
    by (simp only: encode_text_append encode_text_Cons)
qed

lemma inside_character:
  assumes "p < length (encode_text cs)"
  obtains i k where "i < length cs" "k < length (encoded (cs ! i))" "p = length (encode_text (take i cs)) + k"
  using assms
proof (induction cs arbitrary: p thesis)
  case (Cons c cs)
  show ?case
  proof (cases "p < length (encoded c)")
    case True
    then show ?thesis using Cons.prems(1) [of 0 p] by (simp add: encode_text_def)
  next
    case False
    then have "p - length (encoded c) < length (encode_text cs)" using Cons.prems(2) by (simp add: encode_text_def)
    then obtain i k where "i < length cs" "k < length (encoded (cs ! i))"
      "p - length (encoded c) = length (encode_text (take i cs)) + k" using Cons.IH by blast
    then show ?thesis using False Cons.prems(1) [of "Suc i" k] by (simp add: encode_text_def)
  qed
qed (simp add: encode_text_def)

lemma boundaries_of_text:
  assumes "list_all scalar cs"
  shows "is_boundary (encode_text cs) p \<longleftrightarrow> (\<exists>i \<le> length cs. p = position_of cs i)"
proof
  assume "\<exists>i \<le> length cs. p = position_of cs i"
  then obtain i where i: "i \<le> length cs" "p = position_of cs i" by blast
  show "is_boundary (encode_text cs) p"
  proof (cases "i = length cs")
    case False
    then have "i < length cs" "unat (cs ! i) < 0x200000" using i assms by (simp_all add: list_all_length scalar_less)
    then show ?thesis using i boundary_at_encoded text_split(1) by (simp add: position_of_def)
  qed (use i in \<open>simp add: is_boundary_def position_of_def\<close>)
next
  assume b: "is_boundary (encode_text cs) p"
  consider "p = 0" | "p = int (length (encode_text cs))"
    | "0 < p" "p < int (length (encode_text cs))" "encode_text cs ! nat p AND 0xC0 \<noteq> 0x80"
    using b by (auto simp: is_boundary_def)
  then show "\<exists>i \<le> length cs. p = position_of cs i"
  proof cases
    case 1
    then show ?thesis by (intro exI [of _ 0]) (simp add: position_of_def encode_text_def)
  next
    case 2
    then show ?thesis by (intro exI [of _ "length cs"]) (simp add: position_of_def)
  next
    case 3
    then have "nat p < length (encode_text cs)" by simp
    then obtain i k where ik: "i < length cs" "k < length (encoded (cs ! i))" "nat p = length (encode_text (take i cs)) + k"
      by (rule inside_character)
    have "encode_text cs ! nat p = encoded (cs ! i) ! k" using ik text_split(1) [OF ik(1)] by (simp add: nth_append)
    moreover have "unat (cs ! i) < 0x200000" using assms ik(1) by (simp add: list_all_length scalar_less)
    moreover obtain l ls where "encoded (cs ! i) = l # ls" using encoded_nonempty by (cases "encoded (cs ! i)") auto
    ultimately have "k = 0" using 3(3) ik(2) lead_not_continuation(3) [of "cs ! i" l ls] by (cases k) auto
    then show ?thesis using ik 3(1) by (intro exI [of _ i]) (simp add: position_of_def)
  qed
qed


section \<open>Valid UTF-8\<close>

lemmas byte_order = word_less_nat_alt word_le_nat_alt word_unat_eq_iff [where 'a = 8]

lemma valid_encoded:
  assumes "scalar c"
  shows "utf8_valid (encoded c @ s) \<longleftrightarrow> utf8_valid s"
  using scalar_less [OF assms]
proof (cases rule: encoded_cases)
  case (three b b1 b2)
  have "unat c div 64 mod 64 < 64" "unat c div 4096 < 16" using three by (simp_all add: less_mult_imp_div_less)
  then show ?thesis using three assms sixty_fours(1) [of "unat c"]
    by (simp add: byte_order continuation_def scalar_def) linarith
next
  case (four b b1 b2 b3)
  have "unat c div 262144 < 5" using assms by (auto simp: scalar_def less_mult_imp_div_less)
  then show ?thesis using four assms sixty_fours [of "unat c"]
    by (simp add: byte_order continuation_def scalar_def) linarith
qed (auto simp: byte_order continuation_def)

text \<open>What the check accepts is encoded: from the bytes to the character.\<close>

lemma encoded_eqI:
  assumes "n < 0x200000" "map unat bs =
    (if n < 0x80 then [n]
     else if n < 0x800 then [0xC0 + n div 64, 0x80 + n mod 64]
     else if n < 0x10000 then [0xE0 + n div 4096, 0x80 + n div 64 mod 64, 0x80 + n mod 64]
     else [0xF0 + n div 262144, 0x80 + n div 4096 mod 64, 0x80 + n div 64 mod 64, 0x80 + n mod 64])"
  shows "encoded (word_of_nat n) = bs"
proof -
  have "unat (word_of_nat n :: 32 word) = n" using assms(1) by (simp add: unat_of_nat)
  then have "map unat (encoded (word_of_nat n)) = map unat bs"
    using encoded_bytes [of "word_of_nat n"] assms by (simp add: Let_def)
  then show ?thesis by (rule map_injective) (simp add: inj_def word_unat_eq_iff)
qed

lemma scalar_of_nat: "n < 0x200000 \<Longrightarrow> scalar (word_of_nat n) \<longleftrightarrow> n < 0xD800 \<or> (0xE000 \<le> n \<and> n < 0x110000)"
  by (simp add: scalar_def unat_of_nat)

lemma valid_step:
  assumes "utf8_valid (b # s)"
  obtains c r where "scalar c" "b # s = encoded c @ r" "utf8_valid r"
proof -
  let ?n = "unat b"
  consider (1) "?n < 0x80" | (2) "0xC2 \<le> ?n" "?n < 0xE0" | (3) "0xE0 \<le> ?n" "?n < 0xF0" | (4) "0xF0 \<le> ?n" "?n < 0xF5"
    using assms by (force simp: byte_order split: if_splits)
  then show ?thesis
  proof cases
    case 1
    then have "encoded (word_of_nat ?n) = [b]" by (intro encoded_eqI) simp_all
    moreover have "scalar (word_of_nat ?n)" using 1 scalar_of_nat [of ?n] by linarith
    moreover have "utf8_valid s" using 1 assms by (simp add: byte_order)
    ultimately show ?thesis using that [of "word_of_nat ?n" s] by simp
  next
    case 2
    then obtain b1 r where s: "s = b1 # r" "continuation b1" "utf8_valid r"
      using assms by (auto simp: byte_order split: list.splits)
    define x y n where d: "x = ?n - 0xC0" "y = unat b1 - 0x80" "n = x * 64 + y"
    have b: "2 \<le> x" "x < 32" "y < 64" using 2 s(2) by (auto simp: d continuation_def byte_order)
    have "0x80 \<le> n" "n < 0x800" "n div 64 = x" "n mod 64 = y" using b by (simp_all add: d(3))
    then have "encoded (word_of_nat n) = [b, b1]" "scalar (word_of_nat n)"
      using 2 s(2) by (simp_all add: encoded_eqI scalar_of_nat continuation_def byte_order d(1,2))
    then show ?thesis using that [of "word_of_nat n" r] s by simp
  next
    case 3
    then obtain b1 b2 r where s: "s = b1 # b2 # r" "continuation b1" "continuation b2" "?n = 0xE0 \<longrightarrow> 0xA0 \<le> unat b1"
      "?n = 0xED \<longrightarrow> unat b1 < 0xA0" "utf8_valid r"
      using assms by (auto simp: byte_order split: list.splits)
    define x y z n where d: "x = ?n - 0xE0" "y = unat b1 - 0x80" "z = unat b2 - 0x80" "n = (x * 64 + y) * 64 + z"
    have b: "x < 16" "y < 64" "z < 64" and bytes: "?n = 0xE0 + x" "unat b1 = 0x80 + y" "unat b2 = 0x80 + z"
      using 3 s by (auto simp: d continuation_def byte_order)
    have low: "n mod 64 = z" "n div 64 = x * 64 + y"
      unfolding d(4) using b mod_mult_self3 [of "x * 64 + y" 64 z] div_mult_self3 [of 64 "x * 64 + y" z] by simp_all
    then have high: "n div 4096 = x" "n div 64 mod 64 = y" using b div_mult2_eq [of n 64 64] by simp_all
    have xy: "x = 0 \<longrightarrow> 32 \<le> y" "x = 13 \<longrightarrow> y < 32" using 3 s by (auto simp: d(1,2))
    have range: "0x800 \<le> n" "n < 0xD800 \<or> 0xE000 \<le> n" "n < 0x10000"
      subgoal using b xy unfolding d(4) by (cases "x = 0") simp_all
      subgoal using b xy unfolding d(4) by (cases "x < 13"; cases "x = 13") simp_all
      subgoal using b unfolding d(4) by simp
      done
    have "encoded (word_of_nat n) = [b, b1, b2]" by (rule encoded_eqI) (use range in \<open>simp_all add: bytes low(1) high\<close>)
    moreover have "scalar (word_of_nat n)" using range by (simp add: scalar_of_nat)
    ultimately show ?thesis using that [of "word_of_nat n" r] s by simp
  next
    case 4
    then obtain b1 b2 b3 r where s: "s = b1 # b2 # b3 # r" "continuation b1" "continuation b2" "continuation b3"
      "?n = 0xF0 \<longrightarrow> 0x90 \<le> unat b1" "?n = 0xF4 \<longrightarrow> unat b1 < 0x90" "utf8_valid r"
      using assms by (auto simp: byte_order split: list.splits)
    define w x y z n where d: "w = ?n - 0xF0" "x = unat b1 - 0x80" "y = unat b2 - 0x80" "z = unat b3 - 0x80"
      "n = ((w * 64 + x) * 64 + y) * 64 + z"
    have b: "w < 5" "x < 64" "y < 64" "z < 64"
      and bytes: "?n = 0xF0 + w" "unat b1 = 0x80 + x" "unat b2 = 0x80 + y" "unat b3 = 0x80 + z"
      using 4 s by (auto simp: d continuation_def byte_order)
    have low: "n mod 64 = z" "n div 64 = (w * 64 + x) * 64 + y"
      unfolding d(5) using b mod_mult_self3 [of "(w * 64 + x) * 64 + y" 64 z] div_mult_self3 [of 64 "(w * 64 + x) * 64 + y" z]
      by simp_all
    have mid: "n div 4096 = w * 64 + x" "n div 64 mod 64 = y"
      using b div_mult2_eq [of n 64 64] mod_mult_self3 [of "w * 64 + x" 64 y] div_mult_self3 [of 64 "w * 64 + x" y]
      unfolding low(2) by simp_all
    then have high: "n div 262144 = w" "n div 4096 mod 64 = x" using b div_mult2_eq [of n 4096 64] by simp_all
    have xy: "w = 0 \<longrightarrow> 16 \<le> x" "w = 4 \<longrightarrow> x < 16" using 4 s by (auto simp: d(1,2))
    have range: "0x10000 \<le> n" "n < 0x110000"
      subgoal using b xy unfolding d(5) by (cases "w = 0") simp_all
      subgoal using b xy unfolding d(5) by (cases "w = 4") simp_all
      done
    have "encoded (word_of_nat n) = [b, b1, b2, b3]"
      by (rule encoded_eqI) (use range in \<open>simp_all add: bytes low(1) mid(2) high\<close>)
    moreover have "scalar (word_of_nat n)" using range by (simp add: scalar_of_nat)
    ultimately show ?thesis using that [of "word_of_nat n" r] s by simp
  qed
qed

lemma utf8_valid_iff: "utf8_valid s \<longleftrightarrow> (\<exists>cs. list_all scalar cs \<and> s = encode_text cs)"
proof
  assume "utf8_valid s"
  then show "\<exists>cs. list_all scalar cs \<and> s = encode_text cs"
  proof (induction s rule: length_induct)
    case (1 s)
    show ?case
    proof (cases s)
      case Nil
      then show ?thesis by (intro exI [of _ "[]"]) (simp add: encode_text_def)
    next
      case (Cons b t)
      then obtain c r where c: "scalar c" "s = encoded c @ r" "utf8_valid r" using valid_step [of b t] 1 by auto
      then have "length r < length s" using encoded_nonempty [of c] by simp
      then obtain cs where "list_all scalar cs" "r = encode_text cs" using 1 c by blast
      then show ?thesis using c by (intro exI [of _ "c # cs"]) (simp add: encode_text_Cons)
    qed
  qed
next
  assume "\<exists>cs. list_all scalar cs \<and> s = encode_text cs"
  then obtain cs where "list_all scalar cs" "s = encode_text cs" by blast
  then show "utf8_valid s"
    by (induction cs arbitrary: s) (simp_all add: encode_text_Cons valid_encoded, simp add: encode_text_def)
qed

text \<open>a range of bytes becomes a string exactly when it is in bounds and encodes a list of characters.\<close>

theorem from_utf8_range_iff:
  "from_utf8_range bytes start stop = Some r \<longleftrightarrow>
    0 \<le> start \<and> start \<le> stop \<and> stop \<le> int (length bytes) \<and> r = drop (nat start) (take (nat stop) bytes)
    \<and> (\<exists>cs. list_all scalar cs \<and> r = encode_text cs)"
  by (auto simp: from_utf8_range_def Let_def utf8_valid_iff split: if_splits)

section \<open>Sorted slices\<close>

lemma length_elements: "b \<in> set (elements_of n bytes) \<Longrightarrow> length b = n"
proof -
  assume "b \<in> set (elements_of n bytes)"
  then obtain i where i: "i < length bytes div n" "b = take n (drop (i * n) bytes)" by (auto simp: elements_of_def)
  have "Suc i * n \<le> length bytes div n * n" using i(1) by (intro mult_le_mono1) simp
  also have "\<dots> \<le> length bytes" by simp
  finally show ?thesis using i(2) by simp
qed

lemma elements_of_Cons: "0 < n \<Longrightarrow> length b = n \<Longrightarrow> elements_of n (b @ bs) = b # elements_of n bs"
proof -
  assume n: "0 < n" "length b = n"
  have "(n + length bs) div n = Suc (length bs div n)" using n(1) by (simp add: div_add_self1)
  then have "[0..<(n + length bs) div n] = 0 # map Suc [0..<length bs div n]"
    by (simp add: map_Suc_upt upt_conv_Cons del: upt_Suc)
  then show ?thesis using n by (simp add: elements_of_def del: upt_Suc)
qed

lemma elements_of_concat:
  "0 < n \<Longrightarrow> list_all (\<lambda>b. length b = n) bs \<Longrightarrow> length rest < n \<Longrightarrow> elements_of n (concat bs @ rest) = bs"
proof (induction bs)
  case Nil
  then show ?case by (simp add: elements_of_def)
qed (simp add: elements_of_Cons)

lemma sort_element_size_pos: "0 < sort_element_size kind"
  by (simp add: sort_element_size_def)

lemma sort_raw_mset: "mset (sort_raw es kind) = mset es"
  by (simp add: sort_raw_def split: option.split)


section \<open>Witnesses\<close>



end
