(* ===== verification/Memory.thy ===== *)
theory Memory
  imports Scalars
begin

text \<open>
  The memory of the compile-time machine, \<open>compiler/paco-comptime/src/machine.rs\<close>: a list of allocations,
  an address being the number of its allocation, from one, and an offset of 32 bits.  Addresses are words,
  so their arithmetic wraps as it does in a release build; sizes are natural numbers below \<open>2\<^sup>64\<close>, whose
  additions are wrapped explicitly.  The theorems relate memory to a partial map from blocks and offsets to
  bytes.
\<close>

unbundle bit_operations_syntax

section \<open>Operations\<close>

type_synonym addr = "64 word"

record allocation =
  al_bytes :: "byte list"
  al_freed :: bool
  al_fixed :: bool

record memory =
  allocations :: "allocation list"

definition memory_default :: memory where
  "memory_default = \<lparr>allocations = []\<rparr>"

definition hex_digit :: "nat \<Rightarrow> char" where
  "hex_digit d = (if d < 10 then digit_char d else char_of (87 + d))"

fun hex_digits :: "nat \<Rightarrow> string" where
  "hex_digits n = (if n < 16 then [hex_digit n] else hex_digits (n div 16) @ [hex_digit (n mod 16)])"

declare hex_digits.simps [simp del]

definition hex :: "addr \<Rightarrow> string" where
  "hex a = ''0x'' @ hex_digits (unat a)"

text \<open>\<open>vec![0; size]\<close> panics above \<open>isize::MAX\<close> bytes.\<close>

definition memory_alloc :: "nat \<Rightarrow> bool \<Rightarrow> memory \<Rightarrow> (addr \<times> memory) outcome" where
  "memory_alloc sz fixed m =
    (if 2 ^ 63 \<le> sz then Panicked
     else let all = allocations m @ [\<lparr>al_bytes = replicate sz 0, al_freed = False, al_fixed = fixed\<rparr>]
          in Ok (push_bit 32 (of_nat (length all)), m\<lparr>allocations := all\<rparr>))"

definition addr_index :: "addr \<Rightarrow> nat" where
  "addr_index a = unat (drop_bit 32 a)"

definition addr_offset :: "addr \<Rightarrow> nat" where
  "addr_offset a = unat (a AND 0xFFFFFFFF)"

definition memory_locate :: "addr \<Rightarrow> nat \<Rightarrow> memory \<Rightarrow> (nat \<times> nat) outcome" where
  "memory_locate address len m =
    (let index = addr_index address; offset = addr_offset address
     in if index = 0 \<or> length (allocations m) < index \<or> al_freed (allocations m ! (index - 1))
        then Failed (''invalid memory access at '' @ hex address) None
        else if length (al_bytes (allocations m ! (index - 1))) < (offset + len) mod 2 ^ 64
        then Failed (''out-of-bounds memory access at '' @ hex address @ '' ('' @ nat_string len @ '' bytes)'') None
        else Ok (index - 1, offset))"

text \<open>A slice whose end has wrapped below its start panics.\<close>

definition memory_read :: "addr \<Rightarrow> nat \<Rightarrow> memory \<Rightarrow> byte list outcome" where
  "memory_read address len m =
    (if len = 0 then Ok []
     else bind_outcome (memory_locate address len m) (\<lambda>(index, offset).
       if (offset + len) mod 2 ^ 64 < offset then Panicked
       else Ok (take len (drop offset (al_bytes (allocations m ! index))))))"

definition memory_write :: "addr \<Rightarrow> byte list \<Rightarrow> memory \<Rightarrow> memory outcome" where
  "memory_write address bytes m =
    (if bytes = [] then Ok m
     else bind_outcome (memory_locate address (length bytes) m) (\<lambda>(index, offset).
       if (offset + length bytes) mod 2 ^ 64 < offset then Panicked
       else let al = allocations m ! index; old = al_bytes al
            in Ok (m\<lparr>allocations := (allocations m)[index :=
              al\<lparr>al_bytes := take offset old @ bytes @ drop (offset + length bytes) old\<rparr>]\<rparr>)))"

definition memory_read_u64 :: "addr \<Rightarrow> memory \<Rightarrow> addr outcome" where
  "memory_read_u64 address m = bind_outcome (memory_read address 8 m) (\<lambda>bs. Ok (word_of_int (le_value bs)))"

definition memory_write_u64 :: "addr \<Rightarrow> addr \<Rightarrow> memory \<Rightarrow> memory outcome" where
  "memory_write_u64 address v m = memory_write address (le_bytes 8 (uint v)) m"

definition memory_free :: "addr \<Rightarrow> memory \<Rightarrow> memory outcome" where
  "memory_free address m =
    (if address = 0 then Ok m
     else bind_outcome (memory_locate address 0 m) (\<lambda>(index, offset).
       let al = allocations m ! index
       in if offset \<noteq> 0 \<or> al_fixed al
          then Failed (''freeing memory that was not allocated at '' @ hex address) None
          else Ok (m\<lparr>allocations := (allocations m)[index := al\<lparr>al_freed := True, al_bytes := []\<rparr>]\<rparr>)))"

section \<open>Memory as a map\<close>

text \<open>The byte at an offset of a block, if the block is live and long enough; and what holds of every memory
  the operations build.\<close>

definition byte_of :: "memory \<Rightarrow> nat \<Rightarrow> nat \<Rightarrow> byte option" where
  "byte_of m i k =
    (if i < length (allocations m) \<and> \<not> al_freed (allocations m ! i) \<and> k < length (al_bytes (allocations m ! i))
     then Some (al_bytes (allocations m ! i) ! k) else None)"

definition wf_memory :: "memory \<Rightarrow> bool" where
  "wf_memory m \<longleftrightarrow> list_all (\<lambda>al. length (al_bytes al) < 2 ^ 63 \<and> (al_freed al \<longrightarrow> al_bytes al = [] \<and> \<not> al_fixed al)) (allocations m)"

lemma bind_outcome_Ok: "bind_outcome x f = Ok y \<longleftrightarrow> (\<exists>z. x = Ok z \<and> f z = Ok y)"
  by (cases x) simp_all

lemma memory_locate_Ok:
  "memory_locate a n m = Ok (i, k) \<longleftrightarrow>
    addr_index a = Suc i \<and> k = addr_offset a \<and> i < length (allocations m) \<and> \<not> al_freed (allocations m ! i)
    \<and> (k + n) mod 2 ^ 64 \<le> length (al_bytes (allocations m ! i))"
  by (auto simp: memory_locate_def Let_def)

lemma addr_parts: "addr_index a = unat a div 2 ^ 32" "addr_offset a = unat a mod 2 ^ 32"
proof -
  show "addr_index a = unat a div 2 ^ 32" by (simp only: addr_index_def unat_drop_bit_eq) (rule drop_bit_eq_div)
  have "(0xFFFFFFFF :: 64 word) = mask 32" by (simp add: mask_eq_exp_minus_1)
  then have "a AND 0xFFFFFFFF = take_bit 32 a" by (simp only: take_bit_eq_mask)
  then have "addr_offset a = take_bit 32 (unat a)" by (simp only: addr_offset_def unsigned_take_bit_eq)
  then show "addr_offset a = unat a mod 2 ^ 32" by (simp only: take_bit_eq_mod)
qed

lemma addr_offset_less: "addr_offset a < 2 ^ 32"
  by (simp add: addr_parts)

text \<open>A range that wraps is never read or written, as a block is shorter than \<open>2\<^sup>63\<close> bytes.\<close>

lemma in_block:
  assumes "wf_memory m" "i < length (allocations m)" "(addr_offset a + n) mod 2 ^ 64 \<le> length (al_bytes (allocations m ! i))"
    "\<not> (addr_offset a + n) mod 2 ^ 64 < addr_offset a" "n < 2 ^ 64"
  shows "addr_offset a + n \<le> length (al_bytes (allocations m ! i))"
proof (cases "addr_offset a + n < 2 ^ 64")
  case False
  then have "(addr_offset a + n) mod 2 ^ 64 = addr_offset a + n - 2 ^ 64"
    using assms(5) addr_offset_less [of a] by (simp add: mod_if)
  then show ?thesis using assms(4,5) False by simp
qed (use assms in simp)

lemma memory_read_Ok:
  assumes "wf_memory m" "n < 2 ^ 64"
  shows "memory_read a n m = Ok bs \<longleftrightarrow>
    (n = 0 \<and> bs = []) \<or> (0 < n \<and> 0 < addr_index a
      \<and> map Some bs = map (\<lambda>j. byte_of m (addr_index a - 1) (addr_offset a + j)) [0..<n])"
proof (cases "n = 0")
  case False
  define i k where ik: "i = addr_index a - 1" "k = addr_offset a"
  show ?thesis
  proof
    assume "memory_read a n m = Ok bs"
    then obtain j where "memory_locate a n m = Ok (j, k)" "\<not> (k + n) mod 2 ^ 64 < k"
      "bs = take n (drop k (al_bytes (allocations m ! j)))"
      using False by (auto simp: memory_read_def bind_outcome_Ok memory_locate_Ok ik(2) split: if_splits)
    then have r: "addr_index a = Suc i" "i < length (allocations m)" "\<not> al_freed (allocations m ! i)"
      "k + n \<le> length (al_bytes (allocations m ! i))" "bs = take n (drop k (al_bytes (allocations m ! i)))"
      using in_block [OF assms(1) _ _ _ assms(2), of j a] unfolding memory_locate_Ok ik by auto
    then have "map Some bs = map (\<lambda>j. byte_of m i (k + j)) [0..<n]"
      by (intro nth_equalityI) (simp_all add: byte_of_def)
    then show "(n = 0 \<and> bs = []) \<or> (0 < n \<and> 0 < addr_index a
        \<and> map Some bs = map (\<lambda>j. byte_of m (addr_index a - 1) (addr_offset a + j)) [0..<n])"
      using False r(1) by (simp flip: ik(2))
  next
    assume "(n = 0 \<and> bs = []) \<or> (0 < n \<and> 0 < addr_index a
        \<and> map Some bs = map (\<lambda>j. byte_of m (addr_index a - 1) (addr_offset a + j)) [0..<n])"
    then have idx: "addr_index a = Suc i" and bytes: "map Some bs = map (\<lambda>j. byte_of m i (k + j)) [0..<n]"
      using False by (simp_all add: ik)
    have len: "length bs = n" using arg_cong [OF bytes, of length] by simp
    have nth: "byte_of m i (k + j) = Some (bs ! j)" if "j < n" for j
      using arg_cong [OF bytes, of "\<lambda>xs. xs ! j"] that len by simp
    have block: "i < length (allocations m)" "\<not> al_freed (allocations m ! i)" "k + n \<le> length (al_bytes (allocations m ! i))"
      using nth [of "n - 1"] False by (auto simp: byte_of_def split: if_splits)
    have "length (al_bytes (allocations m ! i)) < 2 ^ 63" using assms(1) block(1) by (simp add: wf_memory_def list_all_length)
    then have "(k + n) mod 2 ^ 64 = k + n" using block(3) by simp
    moreover have "bs = take n (drop k (al_bytes (allocations m ! i)))"
      by (intro nth_equalityI) (use nth block len in \<open>auto simp: byte_of_def split: if_splits\<close>)
    ultimately show "memory_read a n m = Ok bs" using False block idx
      by (simp add: memory_read_def bind_outcome_Ok memory_locate_Ok flip: ik(2))
  qed
qed (auto simp: memory_read_def)

definition update_range :: "(nat \<Rightarrow> nat \<Rightarrow> byte option) \<Rightarrow> addr \<Rightarrow> byte list \<Rightarrow> nat \<Rightarrow> nat \<Rightarrow> byte option" where
  "update_range f a bs i k =
    (if addr_index a = Suc i \<and> addr_offset a \<le> k \<and> k < addr_offset a + length bs then Some (bs ! (k - addr_offset a)) else f i k)"

lemma memory_write_Ok:
  assumes "wf_memory m" "length bs < 2 ^ 64" "memory_write a bs m = Ok m'" "bs \<noteq> []"
  obtains i where "addr_index a = Suc i" "i < length (allocations m)" "\<not> al_freed (allocations m ! i)"
    "addr_offset a + length bs \<le> length (al_bytes (allocations m ! i))"
    "m' = m\<lparr>allocations := (allocations m)[i := (allocations m ! i)\<lparr>al_bytes :=
      take (addr_offset a) (al_bytes (allocations m ! i)) @ bs @ drop (addr_offset a + length bs) (al_bytes (allocations m ! i))\<rparr>]\<rparr>"
proof -
  from assms(3,4) obtain i where l: "memory_locate a (length bs) m = Ok (i, addr_offset a)"
    "\<not> (addr_offset a + length bs) mod 2 ^ 64 < addr_offset a"
    "m' = m\<lparr>allocations := (allocations m)[i := (allocations m ! i)\<lparr>al_bytes :=
      take (addr_offset a) (al_bytes (allocations m ! i)) @ bs @ drop (addr_offset a + length bs) (al_bytes (allocations m ! i))\<rparr>]\<rparr>"
    by (auto simp: memory_write_def bind_outcome_Ok memory_locate_Ok Let_def split: if_splits)
  then show ?thesis using that [of i] in_block [OF assms(1) _ _ _ assms(2), of i a] unfolding memory_locate_Ok by auto
qed

lemma wf_memory_update:
  assumes "wf_memory m" "i < length (allocations m)" "length (al_bytes al) < 2 ^ 63"
    "al_freed al \<Longrightarrow> al_bytes al = [] \<and> \<not> al_fixed al"
  shows "wf_memory (m\<lparr>allocations := (allocations m)[i := al]\<rparr>)"
  using assms by (auto simp: wf_memory_def list_all_length nth_list_update)

lemma memory_write_refines:
  assumes "wf_memory m" "length bs < 2 ^ 64" "memory_write a bs m = Ok m'"
  shows "wf_memory m'" "byte_of m' = update_range (byte_of m) a bs"
proof -
  consider "bs = []" "m' = m" | "bs \<noteq> []" using assms(3) by (cases "bs = []") (simp_all add: memory_write_def)
  then have "wf_memory m' \<and> byte_of m' = update_range (byte_of m) a bs"
  proof cases
    case 1
    then show ?thesis using assms(1) by (auto simp: update_range_def fun_eq_iff)
  next
    case 2
    from memory_write_Ok [OF assms this] obtain i where i: "addr_index a = Suc i" "i < length (allocations m)"
      "\<not> al_freed (allocations m ! i)" "addr_offset a + length bs \<le> length (al_bytes (allocations m ! i))"
      "m' = m\<lparr>allocations := (allocations m)[i := (allocations m ! i)\<lparr>al_bytes :=
        take (addr_offset a) (al_bytes (allocations m ! i)) @ bs @ drop (addr_offset a + length bs) (al_bytes (allocations m ! i))\<rparr>]\<rparr>" .
    have "length (al_bytes (allocations m ! i)) < 2 ^ 63" using assms(1) i(2) by (simp add: wf_memory_def list_all_length)
    then have "wf_memory m'" unfolding i(5) using i assms(1) by (intro wf_memory_update) simp_all
    moreover have "byte_of m' j k = update_range (byte_of m) a bs j k" for j k
    proof (cases "j = i")
      case True
      consider "k < addr_offset a" | "addr_offset a \<le> k" "k < addr_offset a + length bs" | "addr_offset a + length bs \<le> k" by linarith
      then show ?thesis using i(1-4) True by cases (auto simp: i(5) byte_of_def update_range_def nth_append)
    qed (use i in \<open>simp add: byte_of_def update_range_def\<close>)
    ultimately show ?thesis by blast
  qed
  then show "wf_memory m'" "byte_of m' = update_range (byte_of m) a bs" by blast+
qed

lemma memory_write_defined:
  assumes "wf_memory m" "length bs < 2 ^ 64"
  shows "(\<exists>m'. memory_write a bs m = Ok m') \<longleftrightarrow> (\<exists>old. memory_read a (length bs) m = Ok old)"
  by (auto simp: memory_write_def memory_read_def bind_outcome_Ok Let_def split: if_splits)

lemma addr_of_alloc:
  assumes "n < 2 ^ 32"
  shows "addr_index (push_bit 32 (of_nat n)) = n" "addr_offset (push_bit 32 (of_nat n)) = 0"
proof -
  have "unat (of_nat n :: addr) = n" using assms by (simp add: unat_of_nat)
  then have "unat (push_bit 32 (of_nat n :: addr)) = n * 2 ^ 32"
    using assms by (simp only: unsigned_push_bit_eq) (simp add: push_bit_eq_mult take_bit_eq_mod)
  then show "addr_index (push_bit 32 (of_nat n)) = n" "addr_offset (push_bit 32 (of_nat n)) = 0"
    by (simp_all only: addr_parts) simp_all
qed

lemma memory_alloc_refines:
  assumes "wf_memory m" "memory_alloc n fixed m = Ok (a, m')" "Suc (length (allocations m)) < 2 ^ 32"
  shows "wf_memory m'" "addr_index a = Suc (length (allocations m))" "addr_offset a = 0"
    "byte_of m' = (\<lambda>i k. if i = length (allocations m) \<and> k < n then Some 0 else byte_of m i k)"
    "byte_of m (length (allocations m)) k = None"
proof -
  note al = assms(2) [unfolded memory_alloc_def Let_def]
  have n: "n < 2 ^ 63" and a: "a = push_bit 32 (of_nat (Suc (length (allocations m))))"
    and m': "m' = m\<lparr>allocations := allocations m @ [\<lparr>al_bytes = replicate n 0, al_freed = False, al_fixed = fixed\<rparr>]\<rparr>"
    using al by (simp_all split: if_splits)
  show "wf_memory m'" using assms(1) n by (simp add: m' wf_memory_def)
  show "addr_index a = Suc (length (allocations m))" "addr_offset a = 0"
    unfolding a using addr_of_alloc [OF assms(3)] by blast+
  show "byte_of m' = (\<lambda>i k. if i = length (allocations m) \<and> k < n then Some 0 else byte_of m i k)"
    by (auto simp: fun_eq_iff m' byte_of_def nth_append)
  show "byte_of m (length (allocations m)) k = None" by (simp add: byte_of_def)
qed

lemma memory_free_refines:
  assumes "wf_memory m" "memory_free a m = Ok m'" "a \<noteq> 0"
  shows "wf_memory m'" "addr_offset a = 0" "0 < addr_index a"
    "byte_of m' = (\<lambda>i k. if addr_index a = Suc i then None else byte_of m i k)"
proof -
  from assms(2,3) obtain i where i: "addr_index a = Suc i" "addr_offset a = 0" "i < length (allocations m)"
    "m' = m\<lparr>allocations := (allocations m)[i := (allocations m ! i)\<lparr>al_freed := True, al_bytes := []\<rparr>]\<rparr>"
    "\<not> al_fixed (allocations m ! i)"
    by (auto simp: memory_free_def bind_outcome_Ok memory_locate_Ok Let_def split: if_splits)
  show "wf_memory m'" unfolding i(4) using i assms(1) by (intro wf_memory_update) simp_all
  show "addr_offset a = 0" "0 < addr_index a" using i by simp_all
  show "byte_of m' = (\<lambda>i k. if addr_index a = Suc i then None else byte_of m i k)"
    using i by (auto simp: fun_eq_iff byte_of_def)
qed

text \<open>C11: memory is a partial map from blocks and offsets to bytes. Reading succeeds exactly where every byte of
  the range is there and gives these bytes; writing succeeds exactly where reading does and changes these bytes
  only; allocation adds a new block of zeros and freeing removes a block, which then cannot be read, written or
  freed.\<close>

theorem memory_refines_map:
  assumes "wf_memory m" "Suc (length (allocations m)) < 2 ^ 32"
  shows "(\<forall>a n bs. n < 2 ^ 64 \<longrightarrow> (memory_read a n m = Ok bs \<longleftrightarrow> (n = 0 \<and> bs = []) \<or> (0 < n \<and> 0 < addr_index a
        \<and> map Some bs = map (\<lambda>j. byte_of m (addr_index a - 1) (addr_offset a + j)) [0..<n])))
    \<and> (\<forall>a bs. length bs < 2 ^ 64 \<longrightarrow> ((\<exists>m'. memory_write a bs m = Ok m') \<longleftrightarrow> (\<exists>old. memory_read a (length bs) m = Ok old)))
    \<and> (\<forall>a bs m'. length bs < 2 ^ 64 \<and> memory_write a bs m = Ok m' \<longrightarrow> wf_memory m' \<and> byte_of m' = update_range (byte_of m) a bs)
    \<and> (\<forall>n fixed a m'. memory_alloc n fixed m = Ok (a, m') \<longrightarrow> wf_memory m' \<and> addr_offset a = 0
        \<and> (\<forall>k. byte_of m (addr_index a - 1) k = None)
        \<and> byte_of m' = (\<lambda>i k. if addr_index a = Suc i \<and> k < n then Some 0 else byte_of m i k))
    \<and> (\<forall>a m'. memory_free a m = Ok m' \<and> a \<noteq> 0 \<longrightarrow> wf_memory m' \<and> addr_offset a = 0
        \<and> byte_of m' = (\<lambda>i k. if addr_index a = Suc i then None else byte_of m i k))"
proof (intro conjI allI impI)
  fix n fixed a m' assume al: "memory_alloc n fixed m = Ok (a, m')"
  note r = memory_alloc_refines [OF assms(1) al assms(2)]
  show "wf_memory m'" "addr_offset a = 0" by (rule r)+
  show "byte_of m (addr_index a - 1) k = None" for k using r(2,5) by simp
  show "byte_of m' = (\<lambda>i k. if addr_index a = Suc i \<and> k < n then Some 0 else byte_of m i k)"
    unfolding r(4) r(2) by (auto simp: fun_eq_iff)
next
  fix a n bs assume "n < (2 :: nat) ^ 64"
  then show "memory_read a n m = Ok bs \<longleftrightarrow> (n = 0 \<and> bs = []) \<or> (0 < n \<and> 0 < addr_index a
      \<and> map Some bs = map (\<lambda>j. byte_of m (addr_index a - 1) (addr_offset a + j)) [0..<n])"
    by (rule memory_read_Ok [OF assms(1)])
next
  fix a and bs :: "byte list" assume "length bs < 2 ^ 64"
  then show "(\<exists>m'. memory_write a bs m = Ok m') \<longleftrightarrow> (\<exists>old. memory_read a (length bs) m = Ok old)"
    by (rule memory_write_defined [OF assms(1)])
next
  fix a bs m' assume "length bs < 2 ^ 64 \<and> memory_write a bs m = Ok m'"
  then show "wf_memory m'" "byte_of m' = update_range (byte_of m) a bs"
    using memory_write_refines [OF assms(1)] by blast+
next
  fix a m' assume f: "memory_free a m = Ok m' \<and> a \<noteq> 0"
  note r = memory_free_refines [OF assms(1) f [THEN conjunct1] f [THEN conjunct2]]
  show "wf_memory m'" "addr_offset a = 0" "byte_of m' = (\<lambda>i k. if addr_index a = Suc i then None else byte_of m i k)"
    by (rule r)+
qed

theorem memory_refines_map_witness:
  "byte_of \<lparr>allocations = [\<lparr>al_bytes = [1, 2, 3], al_freed = False, al_fixed = False\<rparr>]\<rparr> 0 1 = Some 2
    \<and> wf_memory \<lparr>allocations = [\<lparr>al_bytes = [1, 2, 3], al_freed = False, al_fixed = False\<rparr>]\<rparr>
    \<and> memory_read 0x100000001 2 \<lparr>allocations = [\<lparr>al_bytes = [1, 2, 3], al_freed = False, al_fixed = False\<rparr>]\<rparr> = Ok [2, 3]"
proof -
  let ?m = "\<lparr>allocations = [\<lparr>al_bytes = [1, 2, 3], al_freed = False, al_fixed = False\<rparr>]\<rparr>"
  have wf: "wf_memory ?m" by (simp add: wf_memory_def)
  have a: "addr_index 0x100000001 = 1" "addr_offset 0x100000001 = 1" by (simp_all add: addr_parts)
  have "memory_read 0x100000001 2 ?m = Ok [2, 3]"
    using memory_refines_map [OF wf, THEN conjunct1, rule_format, of 2 "0x100000001" "[2, 3]"]
    by (simp add: a byte_of_def upt_rec)
  then show ?thesis using wf by (simp add: byte_of_def)
qed

section \<open>Memory only grows\<close>

text \<open>No operation forgets an allocation, revives a freed block, frees or resizes a fixed one.\<close>

definition memory_grows :: "memory \<Rightarrow> memory \<Rightarrow> bool" where
  "memory_grows m m' \<longleftrightarrow> length (allocations m) \<le> length (allocations m')
    \<and> (\<forall>i < length (allocations m). al_fixed (allocations m' ! i) = al_fixed (allocations m ! i)
        \<and> (al_freed (allocations m ! i) \<longrightarrow> al_freed (allocations m' ! i))
        \<and> (al_freed (allocations m' ! i) \<longrightarrow> al_freed (allocations m ! i) \<or> \<not> al_fixed (allocations m ! i))
        \<and> (\<not> al_freed (allocations m' ! i) \<longrightarrow> length (al_bytes (allocations m' ! i)) = length (al_bytes (allocations m ! i))))"

interpretation memories: growth memory_grows
proof
  fix r s t assume rs: "memory_grows r s" and st: "memory_grows s t"
  show "memory_grows r t"
    unfolding memory_grows_def
  proof (intro conjI allI impI)
    show "length (allocations r) \<le> length (allocations t)" using rs st by (simp add: memory_grows_def)
    fix i assume "i < length (allocations r)"
    then have i: "i < length (allocations r)" "i < length (allocations s)" using rs by (auto simp: memory_grows_def)
    note facts = rs [unfolded memory_grows_def, THEN conjunct2, rule_format, OF i(1)]
      st [unfolded memory_grows_def, THEN conjunct2, rule_format, OF i(2)]
    show "al_fixed (allocations t ! i) = al_fixed (allocations r ! i)" using facts by simp
    show "al_freed (allocations t ! i)" if "al_freed (allocations r ! i)" using that facts by blast
    show "al_freed (allocations r ! i) \<or> \<not> al_fixed (allocations r ! i)" if "al_freed (allocations t ! i)" using that facts by blast
    show "length (al_bytes (allocations t ! i)) = length (al_bytes (allocations r ! i))" if "\<not> al_freed (allocations t ! i)"
      using that facts by metis
  qed
qed (simp add: memory_grows_def)

lemma memory_alloc_grows: "memory_alloc n fixed m = Ok (a, m') \<Longrightarrow> memory_grows m m'"
  by (auto simp: memory_alloc_def memory_grows_def nth_append Let_def split: if_splits)

lemma memory_write_grows:
  assumes "wf_memory m" "length bs < 2 ^ 64" "memory_write a bs m = Ok m'"
  shows "memory_grows m m'"
proof (cases "bs = []")
  case False
  from memory_write_Ok [OF assms False] obtain i where "i < length (allocations m)" "addr_offset a + length bs \<le> length (al_bytes (allocations m ! i))"
    "m' = m\<lparr>allocations := (allocations m)[i := (allocations m ! i)\<lparr>al_bytes :=
      take (addr_offset a) (al_bytes (allocations m ! i)) @ bs @ drop (addr_offset a + length bs) (al_bytes (allocations m ! i))\<rparr>]\<rparr>" .
  then show ?thesis by (auto simp: memory_grows_def nth_list_update)
qed (use assms(3) in \<open>auto simp: memory_write_def intro: memories.grows_refl\<close>)

lemma memory_free_grows: "memory_free a m = Ok m' \<Longrightarrow> memory_grows m m'"
  by (auto simp: memory_free_def memory_grows_def bind_outcome_Ok memory_locate_Ok nth_list_update Let_def split: if_splits)

end
