(* ===== verification/TypeLayouts.thy ===== *)
theory TypeLayouts
  imports Ast Layout TypeUnify
begin

text \<open>
  Layouts of instantiated types, \<open>compiler/paco-mir/src/type_layout.rs\<close>: declarations collected from modules,
  caches of the layouts of struct and enum instantiations, and the guard against recursive ones.  The cells of
  \<open>TypeLayouts\<close> and the interner of dimensions are one state; a panic is a value of \<open>layout_panic\<close>.
  Keys compare types as \<open>==\<close> does, so they are kept without the written form of dimensions.  The recursion of
  \<open>layout_of\<close> is bounded by a depth; \<open>OutOfDepth\<close> means it was too small.
\<close>

section \<open>State\<close>

definition DISCRIMINANT_SIZE :: nat where "DISCRIMINANT_SIZE = 8"

definition DEFAULT_MAX_INSTANTIATIONS_PER_ITEM :: nat where "DEFAULT_MAX_INSTANTIATIONS_PER_ITEM = 4096"

definition LIVE_FIELD :: string where "LIVE_FIELD = ''#live''"

type_synonym struct_declaration = "(expr, block) struct_decl"
type_synonym enum_declaration = "(expr, block) enum_decl"
type_synonym instantiation_key = "string \<times> type list"

record struct_info =
  si_layout :: layout
  si_fields :: "string \<rightharpoonup> type \<times> nat"
  si_live_offset :: "nat option"

record enum_info =
  ei_layout :: layout
  ei_variants :: "string \<rightharpoonup> (type \<times> nat) list"
  ei_variant_index :: "string \<rightharpoonup> nat"
  ei_live_offset :: "nat option"

record type_layouts =
  tl_struct_decls :: "string \<rightharpoonup> struct_declaration"
  tl_enum_decls :: "string \<rightharpoonup> enum_declaration"
  tl_extra_drops :: "string list"
  tl_struct_cache :: "(instantiation_key \<times> struct_info) list"
  tl_enum_cache :: "(instantiation_key \<times> enum_info) list"
  tl_struct_in_progress :: "instantiation_key list"
  tl_enum_in_progress :: "instantiation_key list"
  tl_max_instantiations :: nat
  tl_arena :: arena

datatype layout_panic =
    RecursiveLayout string string
  | InstantiationCap string string
  | UnknownDecl string string
  | UnknownField string string
  | StructVariant string string
  | UnknownType string
  | UnresolvedGeneric string
  | NoLayout type
  | BadFieldType
  | IndexOutOfBounds
  | OutOfDepth

type_synonym 'a lay = "type_layouts \<Rightarrow> layout_panic + ('a \<times> type_layouts)"

definition lay_ok :: "'a \<Rightarrow> 'a lay" where
  "lay_ok x ly = Inr (x, ly)"

definition lay_panic :: "layout_panic \<Rightarrow> 'a lay" where
  "lay_panic p ly = Inl p"

definition lay_then :: "'a lay \<Rightarrow> ('a \<Rightarrow> 'b lay) \<Rightarrow> 'b lay" where
  "lay_then f g ly = (case f ly of Inl p \<Rightarrow> Inl p | Inr (x, ly) \<Rightarrow> g x ly)"

definition lay_state :: "type_layouts lay" where
  "lay_state ly = Inr (ly, ly)"

definition lay_update :: "(type_layouts \<Rightarrow> type_layouts) \<Rightarrow> unit lay" where
  "lay_update f ly = Inr ((), f ly)"

fun lay_all :: "'a lay list \<Rightarrow> 'a list lay" where
  "lay_all [] = lay_ok []"
| "lay_all (f # fs) = (lay_then f (\<lambda>x.
  lay_then (lay_all fs) (\<lambda>xs.
  lay_ok (x # xs))))"

definition lay_require :: "layout_panic \<Rightarrow> 'a option \<Rightarrow> 'a lay" where
  "lay_require p x = (case x of None \<Rightarrow> lay_panic p | Some x \<Rightarrow> lay_ok x)"

section \<open>Declarations\<close>

definition qualify :: "string \<Rightarrow> string \<Rightarrow> string" where
  "qualify qualifier name = (if qualifier = [] then name else qualifier @ ''::'' @ name)"

definition collect_decl :: "string \<Rightarrow> (expr, block) item \<Rightarrow>
    (string \<rightharpoonup> struct_declaration) \<times> (string \<rightharpoonup> enum_declaration) \<Rightarrow>
    (string \<rightharpoonup> struct_declaration) \<times> (string \<rightharpoonup> enum_declaration)" where
  "collect_decl qualifier item decls = (case decls of (structs, enums) \<Rightarrow> (case item of
     ItemStruct d \<Rightarrow> (structs(qualify qualifier (sd_name d) \<mapsto> d), enums)
   | ItemEnum d \<Rightarrow> (structs, enums(qualify qualifier (ed_name d) \<mapsto> d))
   | _ \<Rightarrow> (structs, enums)))"

definition or_insert :: "'k \<Rightarrow> 'v \<Rightarrow> ('k \<rightharpoonup> 'v) \<Rightarrow> ('k \<rightharpoonup> 'v)" where
  "or_insert k v m = (case m k of None \<Rightarrow> m(k \<mapsto> v) | Some _ \<Rightarrow> m)"

definition collect_imported_decl :: "string \<Rightarrow> (expr, block) item \<Rightarrow>
    (string \<rightharpoonup> struct_declaration) \<times> (string \<rightharpoonup> enum_declaration) \<Rightarrow>
    (string \<rightharpoonup> struct_declaration) \<times> (string \<rightharpoonup> enum_declaration)" where
  "collect_imported_decl qualifier item decls = (case decls of (structs, enums) \<Rightarrow> (case item of
     ItemStruct d \<Rightarrow> (or_insert (sd_name d) d (or_insert (qualify qualifier (sd_name d)) d structs), enums)
   | ItemEnum d \<Rightarrow> (structs, or_insert (ed_name d) d (or_insert (qualify qualifier (ed_name d)) d enums))
   | _ \<Rightarrow> (structs, enums)))"

definition declares_drop :: "(expr, block) fn_decl list \<Rightarrow> bool" where
  "declares_drop methods \<longleftrightarrow> list_ex (\<lambda>m. fn_name m = ''drop'') methods"

definition extra_drop :: "(expr, block) item \<Rightarrow> string list" where
  "extra_drop item = (case item of
     ItemMethods b \<Rightarrow> if declares_drop (mb_methods b) then (case mb_target b of
         TyPath path _ \<Rightarrow> if path = [] then [] else [last path]
       | TyGeneric path _ _ \<Rightarrow> if path = [] then [] else [last path]
       | _ \<Rightarrow> []) else []
   | _ \<Rightarrow> [])"

definition from_module_with_imports :: "module \<Rightarrow> (string \<times> module) list \<Rightarrow> arena \<Rightarrow> type_layouts" where
  "from_module_with_imports m imports ar =
    (let decls = fold (collect_decl []) (mod_items m) (Map.empty, Map.empty);
         decls = fold (\<lambda>(qualifier, imported). fold (collect_imported_decl qualifier) (mod_items imported)) imports decls
     in \<lparr>tl_struct_decls = fst decls, tl_enum_decls = snd decls,
         tl_extra_drops = concat (map (\<lambda>m. concat (map extra_drop (mod_items m))) (m # map snd imports)),
         tl_struct_cache = [], tl_enum_cache = [], tl_struct_in_progress = [], tl_enum_in_progress = [],
         tl_max_instantiations = DEFAULT_MAX_INSTANTIATIONS_PER_ITEM, tl_arena = ar\<rparr>)"

definition from_module :: "module \<Rightarrow> arena \<Rightarrow> type_layouts" where
  "from_module m ar = from_module_with_imports m [] ar"

definition with_max_instantiations :: "nat \<Rightarrow> type_layouts \<Rightarrow> type_layouts" where
  "with_max_instantiations n ly = ly\<lparr>tl_max_instantiations := n\<rparr>"

section \<open>Built-in types\<close>

definition is_builtin_handle :: "string \<Rightarrow> bool" where
  "is_builtin_handle name \<longleftrightarrow> name \<in> {''Rc'', ''Arc'', ''Cell'', ''RefCell'', ''Mutex'', ''RwLock'', ''Sender'', ''Receiver'',
     ''JoinHandle'', ''Generator'', ''TcpListener'', ''TcpStream''}"

definition builtin_ty :: "string \<Rightarrow> type option" where
  "builtin_ty name =
    (if name = ''i8'' then Some (TInt I8) else if name = ''i16'' then Some (TInt I16)
     else if name = ''i32'' then Some (TInt I32) else if name = ''i64'' then Some (TInt I64)
     else if name = ''u8'' \<or> name = ''byte'' then Some (TInt U8) else if name = ''u16'' then Some (TInt U16)
     else if name = ''u32'' then Some (TInt U32) else if name = ''u64'' then Some (TInt U64)
     else if name = ''char'' then Some TChar
     else case float_width_from_name name of
       Some w \<Rightarrow> Some (TFloat w)
     | None \<Rightarrow> if name = ''bool'' then Some TBool else if name = ''string'' then Some TString
         else if name = ''type'' then Some (TTypeValue TUnknown) else None)"

definition prelude_error_ty :: "string \<Rightarrow> type option" where
  "prelude_error_ty name =
    (if name \<in> {''SendError'', ''RecvError'', ''TaskPanic''} then Some (TStruct name []) else None)"

definition prelude_error_fields :: "string \<Rightarrow> (string \<times> type \<times> nat) list" where
  "prelude_error_fields name = (if name = ''TaskPanic'' then [(''message'', TString, 0)] else [])"

definition prelude_error_struct :: "string \<Rightarrow> layout option" where
  "prelude_error_struct name =
    (let fields = prelude_error_fields name;
         sz = fold max (map (\<lambda>(_, ty, offset). offset + (case scalar_layout ty of None \<Rightarrow> 8 | Some l \<Rightarrow> ly_size l)) fields) 0
     in if prelude_error_ty name = None then None
        else Some \<lparr>ly_size = sz, ly_align = (if fields = [] then 1 else 8),
          ly_fields = map (\<lambda>(name, _, offset). \<lparr>fl_name = name, fl_offset = offset\<rparr>) fields\<rparr>)"

definition has_struct :: "type_layouts \<Rightarrow> string \<Rightarrow> bool" where
  "has_struct ly name \<longleftrightarrow> tl_struct_decls ly name \<noteq> None \<or> prelude_error_ty name \<noteq> None"

text \<open>\<open>name.rsplit("::").next()\<close>\<close>

fun last_segment :: "string \<Rightarrow> string \<Rightarrow> string" where
  "last_segment acc [] = acc"
| "last_segment acc [c] = acc @ [c]"
| "last_segment acc (c # d # s) = (if c = CHR '':'' \<and> d = CHR '':'' then last_segment [] s else last_segment (acc @ [c]) (d # s))"

definition has_drop :: "type_layouts \<Rightarrow> string \<Rightarrow> (expr, block) fn_decl list \<Rightarrow> bool" where
  "has_drop ly name methods \<longleftrightarrow> declares_drop methods \<or> last_segment [] name \<in> set (tl_extra_drops ly)"

section \<open>Field types\<close>

definition lay_lit :: "int \<Rightarrow> type lay" where
  "lay_lit v ly = (case const_lit v (tl_arena ly) of (e, ar) \<Rightarrow> Inr (TDim (DimConst e), ly\<lparr>tl_arena := ar\<rparr>))"

definition const_arg_template :: "expr ty \<Rightarrow> string list \<Rightarrow> type lay" where
  "const_arg_template ty generics = (case ty of
     TyExpand name _ \<Rightarrow> lay_ok (if name \<in> set generics then TGeneric name else TDim DimDyn)
   | TyPath [name] _ \<Rightarrow> lay_ok (if name \<in> set generics then TGeneric name else TDim DimDyn)
   | TyConst (ELiteral (LitInt v) _) _ \<Rightarrow> lay_lit v
   | _ \<Rightarrow> lay_ok (TDim DimDyn))"

definition pack_arg_template :: "expr ty list \<Rightarrow> string list \<Rightarrow> type lay" where
  "pack_arg_template rest generics = (case rest of
     [TyExpand name _] \<Rightarrow> lay_ok (TGeneric name)
   | _ \<Rightarrow> (lay_then (lay_all (map (\<lambda>arg. const_arg_template arg generics) rest)) (\<lambda>items.
     lay_ok (TPack items))))"

text \<open>\<open>generic_arg_templates\<close>: one template per parameter that has an argument; \<open>resolved\<close> are the arguments'
  templates as types, run only where the parameter is one.\<close>

fun generic_arg_templates :: "expr generic_param list \<Rightarrow> expr ty list \<Rightarrow> type lay list \<Rightarrow> string list \<Rightarrow> type list lay" where
  "generic_arg_templates [] args resolved generics = lay_ok []"
| "generic_arg_templates (param # params) args resolved generics = (lay_then ((case gp_kind param of
KindConstPack _ \<Rightarrow> (lay_then (pack_arg_template args generics) (\<lambda>t.
      lay_ok [t]))
| KindConst _ \<Rightarrow> (case args of [] \<Rightarrow> lay_ok [] | arg # _ \<Rightarrow> (lay_then (const_arg_template arg generics) (\<lambda>t.
      lay_ok [t])))
| _ \<Rightarrow> (case resolved of [] \<Rightarrow> lay_ok [] | r # _ \<Rightarrow> (lay_then r (\<lambda>t.
      lay_ok [t]))))) (\<lambda>out.
  lay_then (generic_arg_templates params (drop 1 args) (drop 1 resolved) generics) (\<lambda>rest.
  lay_ok (out @ rest))))"

definition not_lifetime :: "expr generic_param \<Rightarrow> bool" where
  "not_lifetime p \<longleftrightarrow> (case gp_kind p of KindLifetime \<Rightarrow> False | _ \<Rightarrow> True)"

definition path_key :: "string list \<Rightarrow> string" where
  "path_key path = join_with ''::'' path"

definition named_template :: "string \<Rightarrow> string list \<Rightarrow> type lay" where
  "named_template name generics = (lay_then lay_state (\<lambda>ly.
    if name \<in> set generics then lay_ok (TGeneric name)
else (case builtin_ty name of Some t \<Rightarrow> lay_ok t | None \<Rightarrow>
(case prelude_error_ty name of Some t \<Rightarrow> lay_ok t | None \<Rightarrow>
if tl_struct_decls ly name \<noteq> None then lay_ok (TStruct name [])
else if tl_enum_decls ly name \<noteq> None then lay_ok (TEnum name [])
else if is_builtin_handle name then lay_ok (TStruct name [])
else lay_panic (UnknownType name)))))"

definition path_template :: "string \<Rightarrow> type lay" where
  "path_template key = (lay_then lay_state (\<lambda>ly.
    if tl_struct_decls ly key \<noteq> None then lay_ok (TStruct key [])
else if tl_enum_decls ly key \<noteq> None then lay_ok (TEnum key [])
else lay_panic (UnknownType key)))"

definition applied_template :: "string \<Rightarrow> expr ty list \<Rightarrow> type lay list \<Rightarrow> string list \<Rightarrow> type lay" where
  "applied_template key args resolved generics = (lay_then lay_state (\<lambda>ly.
    (case (tl_struct_decls ly key, tl_enum_decls ly key) of
(Some d, _) \<Rightarrow> (lay_then (generic_arg_templates (filter not_lifetime (sd_generics d)) args resolved generics) (\<lambda>ts.
      lay_ok (TStruct key ts)))
| (None, Some d) \<Rightarrow> (lay_then (generic_arg_templates (filter not_lifetime (ed_generics d)) args resolved generics) (\<lambda>ts.
      lay_ok (TEnum key ts)))
| (None, None) \<Rightarrow> if is_builtin_handle key then (lay_then (lay_all resolved) (\<lambda>ts.
      lay_ok (TStruct key ts)))
else lay_panic (UnknownType key))))"

fun resolve_ty_template :: "string list \<Rightarrow> expr ty \<Rightarrow> type lay" where
  "resolve_ty_template generics (TyPath path _) =
    (case path of [name] \<Rightarrow> named_template name generics | _ \<Rightarrow> path_template (path_key path))"
| "resolve_ty_template generics (TyGeneric path args _) =
    applied_template (path_key path) args (map (resolve_ty_template generics) args) generics"
| "resolve_ty_template generics (TySlice elem _) = (lay_then (resolve_ty_template generics elem) (\<lambda>t.
  lay_ok (TSlice t)))"
| "resolve_ty_template generics (TyBorrow m _ ty _) = (lay_then (resolve_ty_template generics ty) (\<lambda>t.
  lay_ok (TBorrow m t)))"
| "resolve_ty_template generics (TyRawPointer m ty _) = (lay_then (resolve_ty_template generics ty) (\<lambda>t.
  lay_ok (TRawPointer m t)))"
| "resolve_ty_template generics (TyTuple items _) =
    (if items = [] then lay_ok TUnit
     else (lay_then (lay_all (map (resolve_ty_template generics) items)) (\<lambda>ts.
       lay_ok (TTuple ts))))"
| "resolve_ty_template generics (TyFn params ret abi unsafe _) = (lay_then (lay_all (map (resolve_ty_template generics) params)) (\<lambda>ps.
  lay_then ((case ret of None \<Rightarrow> lay_ok TUnit | Some t \<Rightarrow> resolve_ty_template generics t)) (\<lambda>r.
  lay_ok (TFn ps r abi unsafe))))"
| "resolve_ty_template generics (TyConst e sp) = const_arg_template (TyConst e sp) generics"
| "resolve_ty_template generics (TyDynDim sp) = const_arg_template (TyDynDim sp) generics"
| "resolve_ty_template generics (TyExpand name sp) = const_arg_template (TyExpand name sp) generics"
| "resolve_ty_template generics (TyDyn _ _) = lay_panic BadFieldType"
| "resolve_ty_template generics (TyInfer _) = lay_panic BadFieldType"
| "resolve_ty_template generics (TyNever _) = lay_panic BadFieldType"
| "resolve_ty_template generics (TyExistential _ _) = lay_panic BadFieldType"
| "resolve_ty_template generics (TySplice _ _) = lay_panic BadFieldType"

section \<open>Layouts\<close>

text \<open>\<open>substitute_generics\<close> with the depth that remains.\<close>

definition lay_substitute :: "nat \<Rightarrow> subst \<Rightarrow> type \<Rightarrow> type lay" where
  "lay_substitute n s ty ly = (case substitute_generics n [] s ty (tl_arena ly) of
     None \<Rightarrow> Inl OutOfDepth | Some (t, ar) \<Rightarrow> Inr (t, ly\<lparr>tl_arena := ar\<rparr>))"

definition instantiation_key_of :: "string \<Rightarrow> type list \<Rightarrow> instantiation_key" where
  "instantiation_key_of name args = (name, map written_free args)"

definition substitutions_of :: "expr generic_param list \<Rightarrow> type list \<Rightarrow> subst" where
  "substitutions_of generics args = map_of (rev (zip (generic_names generics) args))"

text \<open>One field: its template, the concrete type and the layout of that.\<close>

definition field_type :: "nat \<Rightarrow> expr generic_param list \<Rightarrow> type list \<Rightarrow> expr ty \<Rightarrow> type lay" where
  "field_type n generics args ty = (lay_then (resolve_ty_template (generic_names generics) ty) (\<lambda>template.
    lay_substitute n (substitutions_of generics args) template))"

definition field_data :: "nat \<Rightarrow> (type \<Rightarrow> layout lay) \<Rightarrow> expr generic_param list \<Rightarrow> type list \<Rightarrow> expr ty \<Rightarrow> (type \<times> layout) lay" where
  "field_data n self generics args ty = (lay_then (field_type n generics args ty) (\<lambda>concrete.
    lay_then (self concrete) (\<lambda>l.
    lay_ok (concrete, l))))"

definition check_instantiation_cap :: "string \<Rightarrow> string \<Rightarrow> (instantiation_key \<times> 'v) list \<Rightarrow> unit lay" where
  "check_instantiation_cap kind name cache ly =
    (if tl_max_instantiations ly \<le> length (filter (\<lambda>((cached, _), _). cached = name) cache)
     then Inl (InstantiationCap kind name) else Inr ((), ly))"

definition enter_struct :: "string \<Rightarrow> type list \<Rightarrow> struct_declaration lay" where
  "enter_struct name args = (lay_then lay_state (\<lambda>ly.
    lay_then ((if instantiation_key_of name args \<in> set (tl_struct_in_progress ly) then lay_panic (RecursiveLayout ''struct'' name)
else lay_update (\<lambda>ly. ly\<lparr>tl_struct_in_progress := instantiation_key_of name args # tl_struct_in_progress ly\<rparr>))) (\<lambda>_.
    lay_then (check_instantiation_cap ''struct'' name (tl_struct_cache ly)) (\<lambda>_.
    lay_require (UnknownDecl ''struct'' name) (tl_struct_decls ly name)))))"

definition build_struct_info :: "bool \<Rightarrow> (string \<times> type \<times> layout) list \<Rightarrow> struct_info" where
  "build_struct_info drops data =
    (let input = map (\<lambda>(name, _, l). (name, l)) data
           @ (if drops then [(LIVE_FIELD, \<lparr>ly_size = 1, ly_align = 1, ly_fields = []\<rparr>)] else []);
         l = struct_layout input ReprDefault
     in \<lparr>si_layout = l,
         si_fields = map_of (rev (map (\<lambda>f. (fl_name f, fst (the (map_of data (fl_name f))), fl_offset f))
           (filter (\<lambda>f. fl_name f \<noteq> LIVE_FIELD) (ly_fields l)))),
         si_live_offset = map_option fl_offset (find (\<lambda>f. fl_name f = LIVE_FIELD) (ly_fields l))\<rparr>)"

definition struct_data :: "nat \<Rightarrow> (type \<Rightarrow> layout lay) \<Rightarrow> struct_declaration \<Rightarrow> type list \<Rightarrow> (string \<times> type \<times> layout) list lay" where
  "struct_data n self decl args = lay_all (map (\<lambda>f. (lay_then (field_data n self (sd_generics decl) args (fld_ty f)) (\<lambda>td.
    lay_ok (fld_name f, td)))) (sd_fields decl))"

definition struct_info_with :: "nat \<Rightarrow> (type \<Rightarrow> layout lay) \<Rightarrow> string \<Rightarrow> type list \<Rightarrow> struct_info lay" where
  "struct_info_with n self name args = (lay_then lay_state (\<lambda>ly.
    let key = instantiation_key_of name args in
    (case map_of (tl_struct_cache ly) key of
Some info \<Rightarrow> lay_ok info
| None \<Rightarrow> (case prelude_error_struct name of
Some l \<Rightarrow> (let info = \<lparr>si_layout = l, si_fields = map_of (rev (prelude_error_fields name)), si_live_offset = None\<rparr> in
      lay_then (lay_update (\<lambda>ly. ly\<lparr>tl_struct_cache := (key, info) # tl_struct_cache ly\<rparr>)) (\<lambda>_.
      lay_ok info))
| None \<Rightarrow> (lay_then (enter_struct name args) (\<lambda>decl.
      lay_then (struct_data n self decl args) (\<lambda>data.
      let info = build_struct_info (has_drop ly name (sd_methods decl)) data in
      lay_then (lay_update (\<lambda>ly. ly\<lparr>tl_struct_in_progress := removeAll key (tl_struct_in_progress ly),
tl_struct_cache := (key, info) # tl_struct_cache ly\<rparr>)) (\<lambda>_.
      lay_ok info))))))))"

definition enter_enum :: "string \<Rightarrow> type list \<Rightarrow> enum_declaration lay" where
  "enter_enum name args = (lay_then lay_state (\<lambda>ly.
    lay_then ((if instantiation_key_of name args \<in> set (tl_enum_in_progress ly) then lay_panic (RecursiveLayout ''enum'' name)
else lay_update (\<lambda>ly. ly\<lparr>tl_enum_in_progress := instantiation_key_of name args # tl_enum_in_progress ly\<rparr>))) (\<lambda>_.
    lay_then (check_instantiation_cap ''enum'' name (tl_enum_cache ly)) (\<lambda>_.
    lay_require (UnknownDecl ''enum'' name) (tl_enum_decls ly name)))))"

definition variant_tys :: "string \<Rightarrow> expr enum_variant \<Rightarrow> expr ty list lay" where
  "variant_tys name v = (case ev_fields v of
     VariantUnit \<Rightarrow> lay_ok []
   | VariantTuple tys \<Rightarrow> lay_ok tys
   | VariantStruct _ \<Rightarrow> lay_panic (StructVariant name (ev_name v)))"

text \<open>The payload of a variant: its fields, named by position, in declaration order, after the discriminant.\<close>

definition payload_layout :: "(type \<times> layout) list \<Rightarrow> layout" where
  "payload_layout data = struct_layout (map (\<lambda>(i, _, l). (nat_string i, l)) (enumerate 0 data)) ReprC"

definition payload_fields :: "(type \<times> layout) list \<Rightarrow> (type \<times> nat) list" where
  "payload_fields data = map2 (\<lambda>(ty, _) f. (ty, fl_offset f + DISCRIMINANT_SIZE)) data (ly_fields (payload_layout data))"

definition build_enum_info :: "bool \<Rightarrow> (string \<times> (type \<times> layout) list) list \<Rightarrow> enum_info" where
  "build_enum_info drops variants =
    (let max_size = fold (\<lambda>(_, data). max (ly_size (payload_layout data))) variants 0;
         max_align = fold (\<lambda>(_, data). max (ly_align (payload_layout data))) variants 1;
         al = max max_align DISCRIMINANT_SIZE;
         live = (if drops then Some (DISCRIMINANT_SIZE + max_size) else None)
     in \<lparr>ei_layout = \<lparr>ly_size = align_up (DISCRIMINANT_SIZE + max_size + (if live \<noteq> None then 1 else 0)) al,
           ly_align = al, ly_fields = []\<rparr>,
         ei_variants = map_of (rev (map (\<lambda>(name, data). (name, payload_fields data)) variants)),
         ei_variant_index = map_of (rev (map (\<lambda>(i, name, _). (name, i)) (enumerate 0 variants))),
         ei_live_offset = live\<rparr>)"

definition enum_data :: "nat \<Rightarrow> (type \<Rightarrow> layout lay) \<Rightarrow> string \<Rightarrow> enum_declaration \<Rightarrow> type list \<Rightarrow> (string \<times> (type \<times> layout) list) list lay" where
  "enum_data n self name decl args = lay_all (map (\<lambda>v. (lay_then (variant_tys name v) (\<lambda>tys.
    lay_then (lay_all (map (field_data n self (ed_generics decl) args) tys)) (\<lambda>data.
    lay_ok (ev_name v, data))))) (ed_variants decl))"

definition enum_info_with :: "nat \<Rightarrow> (type \<Rightarrow> layout lay) \<Rightarrow> string \<Rightarrow> type list \<Rightarrow> enum_info lay" where
  "enum_info_with n self name args = (lay_then lay_state (\<lambda>ly.
    let key = instantiation_key_of name args in
    (case map_of (tl_enum_cache ly) key of
Some info \<Rightarrow> lay_ok info
| None \<Rightarrow> (lay_then (enter_enum name args) (\<lambda>decl.
      lay_then (enum_data n self name decl args) (\<lambda>variants.
      let info = build_enum_info (has_drop ly name (ed_methods decl)) variants in
      lay_then (lay_update (\<lambda>ly. ly\<lparr>tl_enum_in_progress := removeAll key (tl_enum_in_progress ly),
tl_enum_cache := (key, info) # tl_enum_cache ly\<rparr>)) (\<lambda>_.
      lay_ok info)))))))"

definition tuple_layout_with :: "(type \<Rightarrow> layout lay) \<Rightarrow> type list \<Rightarrow> layout lay" where
  "tuple_layout_with self items = (lay_then (lay_all (map self items)) (\<lambda>ls.
    lay_ok (struct_layout (map (\<lambda>(i, l). (nat_string i, l)) (enumerate 0 ls)) ReprC)))"

fun layout_of :: "nat \<Rightarrow> type \<Rightarrow> layout lay" where
  "layout_of 0 ty = lay_panic OutOfDepth"
| "layout_of (Suc n) ty = (case scalar_layout ty of
     Some l \<Rightarrow> lay_ok l
   | None \<Rightarrow> (case ty of
       TStruct name args \<Rightarrow> (lay_then lay_state (\<lambda>ly.
         if \<not> has_struct ly name \<and> is_builtin_handle name then lay_ok \<lparr>ly_size = 8, ly_align = 8, ly_fields = []\<rparr>
else (lay_then (struct_info_with n (layout_of n) name args) (\<lambda>info.
           lay_ok (si_layout info)))))
     | TEnum name args \<Rightarrow> (lay_then (enum_info_with n (layout_of n) name args) (\<lambda>info.
       lay_ok (ei_layout info)))
     | TTuple items \<Rightarrow> tuple_layout_with (layout_of n) items
     | TGeneric name \<Rightarrow> lay_panic (UnresolvedGeneric name)
     | _ \<Rightarrow> lay_panic (NoLayout ty)))"

definition struct_info_of :: "nat \<Rightarrow> string \<Rightarrow> type list \<Rightarrow> struct_info lay" where
  "struct_info_of n = struct_info_with n (layout_of n)"

definition enum_info_of :: "nat \<Rightarrow> string \<Rightarrow> type list \<Rightarrow> enum_info lay" where
  "enum_info_of n = enum_info_with n (layout_of n)"

definition tuple_layout :: "nat \<Rightarrow> type list \<Rightarrow> layout lay" where
  "tuple_layout n = tuple_layout_with (layout_of n)"

section \<open>Queries\<close>

definition tl_struct_layout :: "nat \<Rightarrow> string \<Rightarrow> type list \<Rightarrow> layout lay" where
  "tl_struct_layout n name args = (lay_then (struct_info_of n name args) (\<lambda>info.
    lay_ok (si_layout info)))"

definition tl_struct_field :: "nat \<Rightarrow> string \<Rightarrow> type list \<Rightarrow> string \<Rightarrow> (type \<times> nat) lay" where
  "tl_struct_field n name args f = (lay_then (struct_info_of n name args) (\<lambda>info.
    lay_require (UnknownField name f) (si_fields info f)))"

definition tuple_field :: "nat \<Rightarrow> type list \<Rightarrow> nat \<Rightarrow> (type \<times> nat) lay" where
  "tuple_field n items i = (lay_then (tuple_layout n items) (\<lambda>l.
    if i < length (ly_fields l) \<and> i < length items then lay_ok (items ! i, fl_offset (ly_fields l ! i))
else lay_panic IndexOutOfBounds))"

definition tl_enum_layout :: "nat \<Rightarrow> string \<Rightarrow> type list \<Rightarrow> layout lay" where
  "tl_enum_layout n name args = (lay_then (enum_info_of n name args) (\<lambda>info.
    lay_ok (ei_layout info)))"

definition enum_variant_field :: "nat \<Rightarrow> string \<Rightarrow> type list \<Rightarrow> string \<Rightarrow> nat \<Rightarrow> (type \<times> nat) lay" where
  "enum_variant_field n name args variant i = (lay_then (enum_info_of n name args) (\<lambda>info.
    lay_then (lay_require (UnknownField name variant) (ei_variants info variant)) (\<lambda>fs.
    if i < length fs then lay_ok (fs ! i) else lay_panic IndexOutOfBounds)))"

definition live_offset :: "nat \<Rightarrow> type \<Rightarrow> nat option lay" where
  "live_offset n ty = (lay_then lay_state (\<lambda>ly.
    (case ty of
TStruct name args \<Rightarrow> if tl_struct_decls ly name \<noteq> None
then (lay_then (struct_info_of n name args) (\<lambda>info.
      lay_ok (si_live_offset info))) else lay_ok None
| TEnum name args \<Rightarrow> (lay_then (enum_info_of n name args) (\<lambda>info.
      lay_ok (ei_live_offset info)))
| _ \<Rightarrow> lay_ok None)))"

definition enum_variant_index :: "nat \<Rightarrow> string \<Rightarrow> type list \<Rightarrow> string \<Rightarrow> nat lay" where
  "enum_variant_index n name args variant = (lay_then (enum_info_of n name args) (\<lambda>info.
    lay_require (UnknownField name variant) (ei_variant_index info variant)))"

definition struct_fields :: "nat \<Rightarrow> string \<Rightarrow> type list \<Rightarrow> (type \<times> nat) list lay" where
  "struct_fields n name args = (lay_then (struct_info_of n name args) (\<lambda>info.
    lay_then lay_state (\<lambda>ly.
    (case tl_struct_decls ly name of
None \<Rightarrow> lay_ok (map snd (prelude_error_fields name))
| Some d \<Rightarrow> lay_all (map (\<lambda>f. lay_require (UnknownField name (fld_name f)) (si_fields info (fld_name f))) (sd_fields d))))))"

definition struct_field_list :: "nat \<Rightarrow> string \<Rightarrow> type list \<Rightarrow> (string \<times> type) list lay" where
  "struct_field_list n name args = (lay_then (struct_info_of n name args) (\<lambda>info.
    lay_then lay_state (\<lambda>ly.
    (case tl_struct_decls ly name of
None \<Rightarrow> lay_ok (map (\<lambda>(f, ty, _). (f, ty)) (prelude_error_fields name))
| Some d \<Rightarrow> lay_all (map (\<lambda>f. (lay_then (lay_require (UnknownField name (fld_name f)) (si_fields info (fld_name f))) (\<lambda>t.
      lay_ok (fld_name f, fst t)))) (sd_fields d))))))"

definition struct_assoc :: "nat \<Rightarrow> string \<Rightarrow> type list \<Rightarrow> string \<Rightarrow> type option lay" where
  "struct_assoc n name args assoc = (lay_then lay_state (\<lambda>ly.
    (case tl_struct_decls ly name of None \<Rightarrow> lay_ok None | Some d \<Rightarrow>
(case find (\<lambda>a. at_name a = assoc) (sd_assoc_types d) of None \<Rightarrow> lay_ok None | Some a \<Rightarrow>
(case at_default a of None \<Rightarrow> lay_ok None | Some ty \<Rightarrow> (lay_then (field_type n (sd_generics d) args ty) (\<lambda>t.
      lay_ok (Some t))))))))"

definition struct_has_method :: "type_layouts \<Rightarrow> string \<Rightarrow> string \<Rightarrow> bool" where
  "struct_has_method ly name method =
    (case tl_struct_decls ly name of None \<Rightarrow> False | Some d \<Rightarrow> list_ex (\<lambda>f. fn_name f = method) (sd_methods d))"

definition tl_size_of :: "nat \<Rightarrow> type \<Rightarrow> nat lay" where
  "tl_size_of n ty = (lay_then (layout_of n ty) (\<lambda>l.
    lay_ok (ly_size l)))"

definition enum_variant_names :: "string \<Rightarrow> string list lay" where
  "enum_variant_names name = (lay_then lay_state (\<lambda>ly.
    lay_then (lay_require (UnknownDecl ''enum'' name) (tl_enum_decls ly name)) (\<lambda>d.
    lay_ok (map ev_name (ed_variants d)))))"

definition enum_variants :: "nat \<Rightarrow> string \<Rightarrow> type list \<Rightarrow> (nat \<times> (type \<times> nat) list) list lay" where
  "enum_variants n name args = (lay_then (enum_info_of n name args) (\<lambda>info.
    lay_then lay_state (\<lambda>ly.
    lay_then (lay_require (UnknownDecl ''enum'' name) (tl_enum_decls ly name)) (\<lambda>d.
    lay_all (map (\<lambda>v. (lay_then (lay_require (UnknownField name (ev_name v)) (ei_variant_index info (ev_name v))) (\<lambda>i.
      lay_then (lay_require (UnknownField name (ev_name v)) (ei_variants info (ev_name v))) (\<lambda>fs.
      lay_ok (i, fs))))) (ed_variants d))))))"

section \<open>What the computations keep\<close>

text \<open>A later state has the same declarations and instantiations in progress, and every cached layout; no
  instantiation in progress has been cached.\<close>

definition lay_extends :: "type_layouts \<Rightarrow> type_layouts \<Rightarrow> bool" where
  "lay_extends ly ly' \<longleftrightarrow>
    tl_struct_decls ly' = tl_struct_decls ly \<and> tl_enum_decls ly' = tl_enum_decls ly \<and> tl_extra_drops ly' = tl_extra_drops ly
    \<and> tl_max_instantiations ly' = tl_max_instantiations ly
    \<and> tl_struct_in_progress ly' = tl_struct_in_progress ly \<and> tl_enum_in_progress ly' = tl_enum_in_progress ly
    \<and> (\<forall>k i. map_of (tl_struct_cache ly) k = Some i \<longrightarrow> map_of (tl_struct_cache ly') k = Some i)
    \<and> (\<forall>k i. map_of (tl_enum_cache ly) k = Some i \<longrightarrow> map_of (tl_enum_cache ly') k = Some i)
    \<and> (\<forall>k \<in> set (tl_struct_in_progress ly). prelude_error_struct (fst k) = None \<longrightarrow>
        map_of (tl_struct_cache ly') k = map_of (tl_struct_cache ly) k)
    \<and> (\<forall>k \<in> set (tl_enum_in_progress ly). map_of (tl_enum_cache ly') k = map_of (tl_enum_cache ly) k)"

interpretation layouts_growth: growth lay_extends
  by unfold_locales (auto simp: lay_extends_def)

text \<open>A state that knows what another knows: the declarations and the cached layouts, whatever is in progress.\<close>

definition lay_knows :: "type_layouts \<Rightarrow> type_layouts \<Rightarrow> bool" where
  "lay_knows ly ly' \<longleftrightarrow> tl_struct_decls ly' = tl_struct_decls ly \<and> tl_enum_decls ly' = tl_enum_decls ly
    \<and> (\<forall>k i. map_of (tl_struct_cache ly) k = Some i \<longrightarrow> map_of (tl_struct_cache ly') k = Some i)
    \<and> (\<forall>k i. map_of (tl_enum_cache ly) k = Some i \<longrightarrow> map_of (tl_enum_cache ly') k = Some i)"

interpretation layouts_knowledge: growth lay_knows
  by unfold_locales (auto simp: lay_knows_def)

lemma lay_extends_knows: "lay_extends ly ly' \<Longrightarrow> lay_knows ly ly'"
  unfolding lay_extends_def lay_knows_def by blast

definition keeps :: "'a lay \<Rightarrow> bool" where
  "keeps f \<longleftrightarrow> (\<forall>ly x ly'. f ly = Inr (x, ly') \<longrightarrow> lay_extends ly ly')"

definition stable :: "'a lay \<Rightarrow> bool" where
  "stable f \<longleftrightarrow> (\<forall>ly x ly1 ly2. f ly = Inr (x, ly1) \<and> lay_knows ly1 ly2 \<longrightarrow> f ly2 = Inr (x, ly2))"

text \<open>The computations of field types change nothing but the interner of dimensions.\<close>

definition arena_only :: "'a lay \<Rightarrow> bool" where
  "arena_only f \<longleftrightarrow> (\<forall>ly x ly'. f ly = Inr (x, ly') \<longrightarrow> ly' = ly\<lparr>tl_arena := tl_arena ly'\<rparr>)"

named_theorems arena_rules \<open>computations that change the interner only\<close>

lemma arena_onlyD: "arena_only f \<Longrightarrow> f ly = Inr (x, ly') \<Longrightarrow> ly' = ly\<lparr>tl_arena := tl_arena ly'\<rparr>"
  by (auto simp: arena_only_def)

lemma keepsD: "keeps f \<Longrightarrow> f ly = Inr (x, ly') \<Longrightarrow> lay_extends ly ly'"
  by (auto simp: keeps_def)

lemma stableD: "stable f \<Longrightarrow> f ly = Inr (x, ly1) \<Longrightarrow> lay_knows ly1 ly2 \<Longrightarrow> f ly2 = Inr (x, ly2)"
  by (auto simp: stable_def)

lemma lay_then_InrE:
  assumes "lay_then f g ly = Inr (y, ly')"
  obtains x ly1 where "f ly = Inr (x, ly1)" "g x ly1 = Inr (y, ly')"
  using assms by (auto simp: lay_then_def split: sum.splits prod.splits)

lemma arena_only_extends: "lay_extends ly (ly\<lparr>tl_arena := ar\<rparr>)"
  by (simp add: lay_extends_def)

lemma keeps_arena_only: "arena_only f \<Longrightarrow> keeps f"
  unfolding keeps_def by (metis arena_onlyD arena_only_extends)

lemma arena_only_ok [arena_rules]: "arena_only (lay_ok x)"
  by (simp add: arena_only_def lay_ok_def)

lemma arena_only_panic [arena_rules]: "arena_only (lay_panic p)"
  by (simp add: arena_only_def lay_panic_def)

lemma arena_only_state [arena_rules]: "arena_only lay_state"
  by (simp add: arena_only_def lay_state_def)

lemma arena_only_then [arena_rules]:
  assumes f: "arena_only f" and g: "\<And>x. arena_only (g x)"
  shows "arena_only (lay_then f g)"
  unfolding arena_only_def [of "lay_then f g"]
proof (intro allI impI)
  fix ly y ly' assume "lay_then f g ly = Inr (y, ly')"
  then obtain x ly1 where r: "f ly = Inr (x, ly1)" "g x ly1 = Inr (y, ly')" by (rule lay_then_InrE)
  have "ly1 = ly\<lparr>tl_arena := tl_arena ly1\<rparr>" "ly' = ly1\<lparr>tl_arena := tl_arena ly'\<rparr>"
    using arena_onlyD [OF f r(1)] arena_onlyD [OF g r(2)] by blast+
  then show "ly' = ly\<lparr>tl_arena := tl_arena ly'\<rparr>" by (cases ly, cases ly1, cases ly') simp
qed

lemma arena_only_all [arena_rules]: "(\<And>f. f \<in> set fs \<Longrightarrow> arena_only f) \<Longrightarrow> arena_only (lay_all fs)"
proof (induction fs)
  case (Cons f fs)
  have "arena_only f" "arena_only (lay_all fs)" using Cons by simp_all
  then show ?case by (simp add: arena_only_then arena_only_ok)
qed (simp add: arena_only_ok)

lemma arena_only_require [arena_rules]: "arena_only (lay_require p x)"
  by (auto simp: lay_require_def intro!: arena_rules split: option.split)

lemma arena_only_lit [arena_rules]: "arena_only (lay_lit v)"
  by (auto simp: arena_only_def lay_lit_def split: prod.splits)

lemma arena_only_substitute [arena_rules]: "arena_only (lay_substitute n s ty)"
  by (auto simp: arena_only_def lay_substitute_def split: option.splits prod.splits)

lemma arena_only_if [arena_rules]: "arena_only f \<Longrightarrow> arena_only g \<Longrightarrow> arena_only (if b then f else g)"
  by simp

lemma arena_only_const_arg_template [arena_rules]: "arena_only (const_arg_template ty generics)"
  unfolding const_arg_template_def
  by (auto intro!: arena_rules split: ty.split list.split expr.split literal.split)

lemma arena_only_pack_arg_template [arena_rules]: "arena_only (pack_arg_template rest generics)"
proof -
  have "arena_only (lay_then (lay_all (map (\<lambda>arg. const_arg_template arg generics) rest)) (\<lambda>items. lay_ok (TPack items)))"
    by (intro arena_rules) (auto intro: arena_rules)
  then show ?thesis unfolding pack_arg_template_def by (auto intro: arena_only_ok split: list.split ty.split)
qed

lemma arena_only_generic_arg_templates [arena_rules]:
  "(\<And>r. r \<in> set resolved \<Longrightarrow> arena_only r) \<Longrightarrow> arena_only (generic_arg_templates params args resolved generics)"
proof (induction params arbitrary: args resolved)
  case Nil
  show ?case by (simp add: arena_rules)
next
  case (Cons param params)
  have rest: "arena_only (generic_arg_templates params (drop 1 args) (drop 1 resolved) generics)"
    by (rule Cons.IH) (auto intro: Cons.prems dest: in_set_dropD)
  have one: "arena_only (lay_then f (\<lambda>t. lay_ok [t]))" if "arena_only f" for f :: "type lay" using that by (intro arena_rules)
  have "arena_only (case resolved of [] \<Rightarrow> lay_ok [] | r # _ \<Rightarrow> lay_then r (\<lambda>t. lay_ok [t]))"
    "arena_only (case args of [] \<Rightarrow> lay_ok [] | arg # _ \<Rightarrow> lay_then (const_arg_template arg generics) (\<lambda>t. lay_ok [t]))"
    using Cons.prems by (auto intro!: one arena_rules split: list.split)
  then show ?case using rest unfolding generic_arg_templates.simps
    by (intro arena_rules) (auto intro: one arena_rules split: generic_param_kind.split)
qed

lemma arena_only_named_template [arena_rules]: "arena_only (named_template name generics)" "arena_only (path_template key)"
  by (auto simp: named_template_def path_template_def intro!: arena_rules split: option.split)

lemma arena_only_applied_template [arena_rules]:
  "(\<And>r. r \<in> set resolved \<Longrightarrow> arena_only r) \<Longrightarrow> arena_only (applied_template key args resolved generics)"
  unfolding applied_template_def by (auto intro!: arena_rules split: option.split)

lemma arena_only_resolve [arena_rules]: "arena_only (resolve_ty_template generics ty)"
  by (induction generics ty rule: resolve_ty_template.induct)
    (auto intro!: arena_rules split: list.split option.split)

lemma arena_only_field_type [arena_rules]: "arena_only (field_type n generics args ty)"
  unfolding field_type_def by (intro arena_rules)

lemma arena_only_variant_tys [arena_rules]: "arena_only (variant_tys name v)"
  unfolding variant_tys_def by (auto intro!: arena_rules split: variant_fields.split)

text \<open>What is built from computations that keep the state keeps it.\<close>

lemma keeps_then:
  assumes f: "keeps f" and g: "\<And>x. keeps (g x)"
  shows "keeps (lay_then f g)"
  unfolding keeps_def [of "lay_then f g"]
proof (intro allI impI)
  fix ly y ly' assume "lay_then f g ly = Inr (y, ly')"
  then obtain x ly1 where r: "f ly = Inr (x, ly1)" "g x ly1 = Inr (y, ly')" by (rule lay_then_InrE)
  show "lay_extends ly ly'" using keepsD [OF f r(1)] keepsD [OF g r(2)] by (rule layouts_growth.grows_trans)
qed

lemma keeps_ok: "keeps (lay_ok x)"
  by (intro keeps_arena_only arena_rules)

lemma keeps_all: "(\<And>f. f \<in> set fs \<Longrightarrow> keeps f) \<Longrightarrow> keeps (lay_all fs)"
proof (induction fs)
  case (Cons f fs)
  have "keeps f" "keeps (lay_all fs)" using Cons by simp_all
  then show ?case by (simp add: keeps_then keeps_ok)
qed (simp add: keeps_ok)

lemmas keeps_rules = keeps_then keeps_ok keeps_all

text \<open>A sequence of stable computations is stable.\<close>

lemma stable_ok: "stable (lay_ok x)"
  by (simp add: stable_def lay_ok_def)

lemma stable_then:
  assumes "keeps f" "stable f" "\<And>x. keeps (g x)" "\<And>x. stable (g x)"
  shows "stable (lay_then f g)"
  unfolding stable_def
proof (intro allI impI, elim conjE)
  fix ly x ly1 ly2 assume r: "lay_then f g ly = Inr (x, ly1)" and e: "lay_knows ly1 ly2"
  from r obtain y ly' where f: "f ly = Inr (y, ly')" and g: "g y ly' = Inr (x, ly1)" by (rule lay_then_InrE)
  have "lay_knows ly' ly2" using lay_extends_knows [OF keepsD [OF assms(3) g]] e layouts_knowledge.grows_trans by blast
  then show "lay_then f g ly2 = Inr (x, ly2)"
    using stableD [OF assms(2) f] stableD [OF assms(4) g e] by (simp add: lay_then_def)
qed

lemma stable_all: "(\<And>f. f \<in> set fs \<Longrightarrow> keeps f) \<Longrightarrow> (\<And>f. f \<in> set fs \<Longrightarrow> stable f) \<Longrightarrow> stable (lay_all fs)"
proof (induction fs)
  case (Cons f fs)
  have "keeps f" "stable f" "keeps (lay_all fs)" "stable (lay_all fs)" using Cons keeps_all [of fs] by simp_all
  then show ?case by (simp add: stable_then stable_ok keeps_then keeps_ok)
qed (simp add: stable_ok)

section \<open>Instantiations\<close>

text \<open>Two ranges of bytes that do not overlap.\<close>

definition apart :: "nat \<Rightarrow> nat \<Rightarrow> nat \<Rightarrow> nat \<Rightarrow> bool" where
  "apart p m q k \<longleftrightarrow> p + m \<le> q \<or> q + k \<le> p"

text \<open>A struct whose fields lie inside it, aligned, and apart from each other and from the byte of the drop flag.\<close>

definition struct_placed :: "(type \<Rightarrow> layout \<Rightarrow> bool) \<Rightarrow> struct_info \<Rightarrow> bool" where
  "struct_placed laid i \<longleftrightarrow> good_layout (si_layout i) \<and> (\<forall>live. si_live_offset i = Some live \<longrightarrow> live < ly_size (si_layout i)) \<and>
    (\<exists>L. \<forall>f t p. si_fields i f = Some (t, p) \<longrightarrow>
      laid t (L f) \<and> ly_align (L f) dvd p \<and> ly_align (L f) dvd ly_align (si_layout i)
      \<and> p + ly_size (L f) \<le> ly_size (si_layout i)
      \<and> (\<forall>g u q. si_fields i g = Some (u, q) \<and> g \<noteq> f \<longrightarrow> apart p (ly_size (L f)) q (ly_size (L g)))
      \<and> (\<forall>live. si_live_offset i = Some live \<longrightarrow> apart p (ly_size (L f)) live 1))"

text \<open>An enum whose payloads lie behind the discriminant, inside it and before the drop flag, each in the order of its
  variant's fields.\<close>

definition enum_placed :: "(type \<Rightarrow> layout \<Rightarrow> bool) \<Rightarrow> enum_info \<Rightarrow> bool" where
  "enum_placed laid i \<longleftrightarrow> good_layout (ei_layout i) \<and> DISCRIMINANT_SIZE dvd ly_align (ei_layout i)
    \<and> (\<forall>live. ei_live_offset i = Some live \<longrightarrow> live < ly_size (ei_layout i))
    \<and> (\<forall>v fs. ei_variants i v = Some fs \<longrightarrow> (\<exists>ls. length ls = length fs \<and>
        sorted_wrt (\<lambda>((_, p), l) ((_, q), _). p + ly_size l \<le> q) (zip fs ls) \<and>
        list_all (\<lambda>((t, p), l). laid t l \<and> ly_align l dvd p \<and> ly_align l dvd ly_align (ei_layout i) \<and> DISCRIMINANT_SIZE \<le> p
          \<and> p + ly_size l \<le> (case ei_live_offset i of None \<Rightarrow> ly_size (ei_layout i) | Some live \<Rightarrow> live)) (zip fs ls)))"

definition declarations_ok :: "type_layouts \<Rightarrow> bool" where
  "declarations_ok ly \<longleftrightarrow> (\<forall>name d. tl_struct_decls ly name = Some d \<longrightarrow>
    distinct (map fld_name (sd_fields d)) \<and> LIVE_FIELD \<notin> fld_name ` set (sd_fields d))"

definition layouts_inv :: "(type \<Rightarrow> layout \<Rightarrow> type_layouts \<Rightarrow> bool) \<Rightarrow> type_layouts \<Rightarrow> bool" where
  "layouts_inv laid_out ly \<longleftrightarrow> declarations_ok ly
    \<and> (\<forall>k i. map_of (tl_struct_cache ly) k = Some i \<longrightarrow> struct_placed (\<lambda>t l. laid_out t l ly) i)
    \<and> (\<forall>k i. map_of (tl_enum_cache ly) k = Some i \<longrightarrow> enum_placed (\<lambda>t l. laid_out t l ly) i)"

lemma struct_placed_mono: "struct_placed P i \<Longrightarrow> (\<And>t l. P t l \<Longrightarrow> Q t l) \<Longrightarrow> struct_placed Q i"
  unfolding struct_placed_def by meson

lemma enum_placed_mono:
  assumes "enum_placed P i" "\<And>t l. P t l \<Longrightarrow> Q t l"
  shows "enum_placed Q i"
proof -
  have "\<exists>ls. length ls = length fs \<and> sorted_wrt (\<lambda>((_, p), l) ((_, q), _). p + ly_size l \<le> q) (zip fs ls) \<and>
      list_all (\<lambda>((t, p), l). Q t l \<and> ly_align l dvd p \<and> ly_align l dvd ly_align (ei_layout i) \<and> DISCRIMINANT_SIZE \<le> p
        \<and> p + ly_size l \<le> (case ei_live_offset i of None \<Rightarrow> ly_size (ei_layout i) | Some live \<Rightarrow> live)) (zip fs ls)"
    if v: "ei_variants i v = Some fs" for v fs
  proof -
    from assms(1) v obtain ls where ls: "length ls = length fs" "sorted_wrt (\<lambda>((_, p), l) ((_, q), _). p + ly_size l \<le> q) (zip fs ls)"
      "list_all (\<lambda>((t, p), l). P t l \<and> ly_align l dvd p \<and> ly_align l dvd ly_align (ei_layout i) \<and> DISCRIMINANT_SIZE \<le> p
        \<and> p + ly_size l \<le> (case ei_live_offset i of None \<Rightarrow> ly_size (ei_layout i) | Some live \<Rightarrow> live)) (zip fs ls)"
      unfolding enum_placed_def by blast
    have "list_all (\<lambda>((t, p), l). Q t l \<and> ly_align l dvd p \<and> ly_align l dvd ly_align (ei_layout i) \<and> DISCRIMINANT_SIZE \<le> p
        \<and> p + ly_size l \<le> (case ei_live_offset i of None \<Rightarrow> ly_size (ei_layout i) | Some live \<Rightarrow> live)) (zip fs ls)"
      using ls(3) by (rule list.pred_mono_strong) (auto intro: assms(2))
    then show ?thesis using ls(1,2) by blast
  qed
  then show ?thesis using assms(1) unfolding enum_placed_def by blast
qed

text \<open>What the layout of a struct or enum relies on: the layouts of the types of its fields, which stay as they are
  once they are found.\<close>

locale layout_provider =
  fixes self :: "type \<Rightarrow> layout lay"
    and laid_out :: "type \<Rightarrow> layout \<Rightarrow> type_layouts \<Rightarrow> bool"
  assumes self_keeps: "keeps (self ty)"
    and self_stable: "stable (self ty)"
    and self_inv: "layouts_inv laid_out ly \<Longrightarrow> self ty ly = Inr (l, ly') \<Longrightarrow>
      good_layout l \<and> laid_out ty l ly' \<and> layouts_inv laid_out ly'"
    and laid_extends: "laid_out ty l ly \<Longrightarrow> lay_knows ly ly' \<Longrightarrow> laid_out ty l ly'"
    and laid_scalar: "scalar_layout ty = Some l \<Longrightarrow> laid_out ty l ly"
    and laid_good: "laid_out ty l ly \<Longrightarrow> good_layout l"
begin

lemma inv_placed:
  assumes "layouts_inv laid_out ly" "lay_knows ly ly'"
  shows "map_of (tl_struct_cache ly) k = Some i \<Longrightarrow> struct_placed (\<lambda>t l. laid_out t l ly') i"
    "map_of (tl_enum_cache ly) k = Some j \<Longrightarrow> enum_placed (\<lambda>t l. laid_out t l ly') j"
    "declarations_ok ly'"
proof -
  show "struct_placed (\<lambda>t l. laid_out t l ly') i" if "map_of (tl_struct_cache ly) k = Some i"
    using that assms(1) laid_extends [OF _ assms(2)] struct_placed_mono unfolding layouts_inv_def by metis
  show "enum_placed (\<lambda>t l. laid_out t l ly') j" if "map_of (tl_enum_cache ly) k = Some j"
    using that assms(1) laid_extends [OF _ assms(2)] enum_placed_mono unfolding layouts_inv_def by metis
  show "declarations_ok ly'" using assms by (simp add: layouts_inv_def declarations_ok_def lay_knows_def)
qed

lemma inv_extends:
  assumes "layouts_inv laid_out ly" "lay_knows ly ly'" "tl_struct_cache ly' = tl_struct_cache ly" "tl_enum_cache ly' = tl_enum_cache ly"
  shows "layouts_inv laid_out ly'"
  using inv_placed [OF assms(1,2)] unfolding layouts_inv_def assms(3,4) by blast

lemma inv_arena_only:
  assumes "arena_only f" "f ly = Inr (x, ly')" "layouts_inv laid_out ly"
  shows "layouts_inv laid_out ly'"
proof -
  have e: "ly' = ly\<lparr>tl_arena := tl_arena ly'\<rparr>" using assms(1,2) by (rule arena_onlyD)
  have "lay_knows ly ly'" by (subst e) (intro lay_extends_knows arena_only_extends)
  then show ?thesis by (rule inv_extends [OF assms(3)]) (subst e, simp)+
qed

lemma keeps_field_data: "keeps (field_data n self generics args ty)"
  unfolding field_data_def by (intro keeps_rules self_keeps keeps_arena_only arena_only_field_type)

lemma field_data_settled:
  assumes "field_data n self generics args ty ly = Inr (y, ly')" "layouts_inv laid_out ly"
  shows "laid_out (fst y) (snd y) ly' \<and> layouts_inv laid_out ly'"
proof -
  from assms(1) obtain t l ly1 where f: "field_type n generics args ty ly = Inr (t, ly1)" and s: "self t ly1 = Inr (l, ly')"
    and y: "y = (t, l)" by (auto simp: field_data_def lay_ok_def elim!: lay_then_InrE)
  have "layouts_inv laid_out ly1" by (rule inv_arena_only [OF arena_only_field_type f assms(2)])
  then show ?thesis using self_inv [OF _ s] y by simp
qed

lemma keeps_struct_data: "keeps (struct_data n self decl args)"
  unfolding struct_data_def by (rule keeps_all) (auto intro!: keeps_rules keeps_field_data)

lemma keeps_enum_data: "keeps (enum_data n self name decl args)"
  unfolding enum_data_def
  by (rule keeps_all) (auto intro!: keeps_rules keeps_field_data keeps_arena_only [OF arena_only_variant_tys])

end

text \<open>The ways a struct's or enum's layout is found.\<close>

lemma struct_info_with_eq:
  "struct_info_with n self name args ly = (let key = instantiation_key_of name args in
    case map_of (tl_struct_cache ly) key of Some info \<Rightarrow> Inr (info, ly)
    | None \<Rightarrow> (case prelude_error_struct name of
        Some l \<Rightarrow> (let info = \<lparr>si_layout = l, si_fields = map_of (rev (prelude_error_fields name)), si_live_offset = None\<rparr>
          in Inr (info, ly\<lparr>tl_struct_cache := (key, info) # tl_struct_cache ly\<rparr>))
      | None \<Rightarrow> if key \<in> set (tl_struct_in_progress ly) then Inl (RecursiveLayout ''struct'' name)
          else if tl_max_instantiations ly \<le> length (filter (\<lambda>((cached, _), _). cached = name) (tl_struct_cache ly))
          then Inl (InstantiationCap ''struct'' name)
          else (case tl_struct_decls ly name of None \<Rightarrow> Inl (UnknownDecl ''struct'' name)
            | Some decl \<Rightarrow> (case struct_data n self decl args (ly\<lparr>tl_struct_in_progress := key # tl_struct_in_progress ly\<rparr>) of
                Inl p \<Rightarrow> Inl p
              | Inr (data, ly1) \<Rightarrow> (let info = build_struct_info (has_drop ly name (sd_methods decl)) data
                  in Inr (info, ly1\<lparr>tl_struct_in_progress := removeAll key (tl_struct_in_progress ly1),
                    tl_struct_cache := (key, info) # tl_struct_cache ly1\<rparr>))))))"
  by (simp add: struct_info_with_def enter_struct_def check_instantiation_cap_def lay_then_def lay_state_def lay_ok_def
      lay_update_def lay_panic_def lay_require_def Let_def split: option.split sum.split prod.split)

lemma enum_info_with_eq:
  "enum_info_with n self name args ly = (let key = instantiation_key_of name args in
    case map_of (tl_enum_cache ly) key of Some info \<Rightarrow> Inr (info, ly)
    | None \<Rightarrow> if key \<in> set (tl_enum_in_progress ly) then Inl (RecursiveLayout ''enum'' name)
        else if tl_max_instantiations ly \<le> length (filter (\<lambda>((cached, _), _). cached = name) (tl_enum_cache ly))
        then Inl (InstantiationCap ''enum'' name)
        else (case tl_enum_decls ly name of None \<Rightarrow> Inl (UnknownDecl ''enum'' name)
          | Some decl \<Rightarrow> (case enum_data n self name decl args (ly\<lparr>tl_enum_in_progress := key # tl_enum_in_progress ly\<rparr>) of
              Inl p \<Rightarrow> Inl p
            | Inr (variants, ly1) \<Rightarrow> (let info = build_enum_info (has_drop ly name (ed_methods decl)) variants
                in Inr (info, ly1\<lparr>tl_enum_in_progress := removeAll key (tl_enum_in_progress ly1),
                  tl_enum_cache := (key, info) # tl_enum_cache ly1\<rparr>)))))"
  by (simp add: enum_info_with_def enter_enum_def check_instantiation_cap_def lay_then_def lay_state_def lay_ok_def
      lay_update_def lay_panic_def lay_require_def Let_def split: option.split sum.split prod.split)

lemma struct_info_cases [consumes 2, case_names cached prelude built]:
  assumes "struct_info_with n self name args ly = Inr (info, ly')" and key: "key = instantiation_key_of name args"
  obtains "map_of (tl_struct_cache ly) key = Some info" "ly' = ly"
  | l where "map_of (tl_struct_cache ly) key = None" "prelude_error_struct name = Some l"
      "info = \<lparr>si_layout = l, si_fields = map_of (rev (prelude_error_fields name)), si_live_offset = None\<rparr>"
      "ly' = ly\<lparr>tl_struct_cache := (key, info) # tl_struct_cache ly\<rparr>"
  | decl data ly1 where "map_of (tl_struct_cache ly) key = None" "prelude_error_struct name = None"
      "key \<notin> set (tl_struct_in_progress ly)" "tl_struct_decls ly name = Some decl"
      "struct_data n self decl args (ly\<lparr>tl_struct_in_progress := key # tl_struct_in_progress ly\<rparr>) = Inr (data, ly1)"
      "info = build_struct_info (has_drop ly name (sd_methods decl)) data"
      "ly' = ly1\<lparr>tl_struct_in_progress := removeAll key (tl_struct_in_progress ly1), tl_struct_cache := (key, info) # tl_struct_cache ly1\<rparr>"
proof -
  note r = assms(1) [unfolded struct_info_with_eq Let_def, folded key]
  show ?thesis
  proof (cases "map_of (tl_struct_cache ly) key")
    case (Some i)
    show ?thesis by (rule that(1)) (use r Some in auto)
  next
    case None
    note none = this
    show ?thesis
    proof (cases "prelude_error_struct name")
      case (Some l)
      show ?thesis by (rule that(2) [OF none Some]) (use r none Some in auto)
    next
      case no: None
      from r none no obtain decl where d: "key \<notin> set (tl_struct_in_progress ly)" "tl_struct_decls ly name = Some decl"
        by (auto split: if_splits option.splits)
      from r none no d obtain data ly1 where data:
        "struct_data n self decl args (ly\<lparr>tl_struct_in_progress := key # tl_struct_in_progress ly\<rparr>) = Inr (data, ly1)"
        by (auto split: if_splits sum.splits)
      show ?thesis by (rule that(3) [OF none no d data]) (use r none no d data in \<open>auto split: if_splits\<close>)
    qed
  qed
qed

lemma enum_info_cases [consumes 2, case_names cached built]:
  assumes "enum_info_with n self name args ly = Inr (info, ly')" and key: "key = instantiation_key_of name args"
  obtains "map_of (tl_enum_cache ly) key = Some info" "ly' = ly"
  | decl variants ly1 where "map_of (tl_enum_cache ly) key = None"
      "key \<notin> set (tl_enum_in_progress ly)" "tl_enum_decls ly name = Some decl"
      "enum_data n self name decl args (ly\<lparr>tl_enum_in_progress := key # tl_enum_in_progress ly\<rparr>) = Inr (variants, ly1)"
      "info = build_enum_info (has_drop ly name (ed_methods decl)) variants"
      "ly' = ly1\<lparr>tl_enum_in_progress := removeAll key (tl_enum_in_progress ly1), tl_enum_cache := (key, info) # tl_enum_cache ly1\<rparr>"
proof -
  note r = assms(1) [unfolded enum_info_with_eq Let_def, folded key]
  show ?thesis
  proof (cases "map_of (tl_enum_cache ly) key")
    case (Some i)
    show ?thesis by (rule that(1)) (use r Some in auto)
  next
    case None
    from r None obtain decl where d: "key \<notin> set (tl_enum_in_progress ly)" "tl_enum_decls ly name = Some decl"
      by (auto split: if_splits option.splits)
    from r None d obtain variants ly1 where data:
      "enum_data n self name decl args (ly\<lparr>tl_enum_in_progress := key # tl_enum_in_progress ly\<rparr>) = Inr (variants, ly1)"
      by (auto split: if_splits sum.splits)
    show ?thesis by (rule that(2) [OF None d data]) (use r None d data in \<open>auto split: if_splits\<close>)
  qed
qed

lemma finish_struct_extends:
  assumes "lay_extends (ly\<lparr>tl_struct_in_progress := key # tl_struct_in_progress ly\<rparr>) ly1"
    "map_of (tl_struct_cache ly) key = None" "key \<notin> set (tl_struct_in_progress ly)" "prelude_error_struct (fst key) = None"
  shows "lay_extends ly (ly1\<lparr>tl_struct_in_progress := removeAll key (tl_struct_in_progress ly1), tl_struct_cache := (key, info) # tl_struct_cache ly1\<rparr>)"
  using assms by (auto simp: lay_extends_def removeAll_id)

lemma finish_enum_extends:
  assumes "lay_extends (ly\<lparr>tl_enum_in_progress := key # tl_enum_in_progress ly\<rparr>) ly1"
    "map_of (tl_enum_cache ly) key = None" "key \<notin> set (tl_enum_in_progress ly)"
  shows "lay_extends ly (ly1\<lparr>tl_enum_in_progress := removeAll key (tl_enum_in_progress ly1), tl_enum_cache := (key, info) # tl_enum_cache ly1\<rparr>)"
  using assms by (auto simp: lay_extends_def removeAll_id)

context layout_provider
begin

lemma keeps_struct_info: "keeps (struct_info_with n self name args)"
  unfolding keeps_def
proof (intro allI impI)
  fix ly info ly' assume r: "struct_info_with n self name args ly = Inr (info, ly')"
  show "lay_extends ly ly'"
  using r refl proof (cases rule: struct_info_cases)
    case cached
    then show ?thesis by (simp add: layouts_growth.grows_refl)
  next
    case (prelude l)
    then show ?thesis by (auto simp: lay_extends_def instantiation_key_of_def)
  next
    case (built decl data ly1)
    then show ?thesis using keepsD [OF keeps_struct_data built(5)]
      by (auto intro!: finish_struct_extends simp: instantiation_key_of_def)
  qed
qed

lemma keeps_enum_info: "keeps (enum_info_with n self name args)"
  unfolding keeps_def
proof (intro allI impI)
  fix ly info ly' assume r: "enum_info_with n self name args ly = Inr (info, ly')"
  show "lay_extends ly ly'"
  using r refl proof (cases rule: enum_info_cases)
    case cached
    then show ?thesis by (simp add: layouts_growth.grows_refl)
  next
    case (built decl variants ly1)
    then show ?thesis using keepsD [OF keeps_enum_data built(4)] by (auto intro!: finish_enum_extends)
  qed
qed

end

text \<open>An instantiation that was found is in the cache, and is found there in every later state.\<close>

lemma struct_info_cached:
  "struct_info_with n self name args ly = Inr (info, ly') \<Longrightarrow> map_of (tl_struct_cache ly') (instantiation_key_of name args) = Some info"
  by (erule struct_info_cases [OF _ refl]) simp_all

lemma enum_info_cached:
  "enum_info_with n self name args ly = Inr (info, ly') \<Longrightarrow> map_of (tl_enum_cache ly') (instantiation_key_of name args) = Some info"
  by (erule enum_info_cases [OF _ refl]) simp_all

lemma stable_struct_info: "stable (struct_info_with n self name args)"
  unfolding stable_def
proof (intro allI impI, elim conjE)
  fix ly info ly1 ly2 assume r: "struct_info_with n self name args ly = Inr (info, ly1)" and e: "lay_knows ly1 ly2"
  have "map_of (tl_struct_cache ly2) (instantiation_key_of name args) = Some info"
    using struct_info_cached [OF r] e unfolding lay_knows_def by blast
  then show "struct_info_with n self name args ly2 = Inr (info, ly2)" by (simp add: struct_info_with_eq Let_def)
qed

lemma stable_enum_info: "stable (enum_info_with n self name args)"
  unfolding stable_def
proof (intro allI impI, elim conjE)
  fix ly info ly1 ly2 assume r: "enum_info_with n self name args ly = Inr (info, ly1)" and e: "lay_knows ly1 ly2"
  have "map_of (tl_enum_cache ly2) (instantiation_key_of name args) = Some info"
    using enum_info_cached [OF r] e unfolding lay_knows_def by blast
  then show "enum_info_with n self name args ly2 = Inr (info, ly2)" by (simp add: enum_info_with_eq Let_def)
qed

context layout_provider
begin

text \<open>Running a list of computations that keep the invariant.\<close>

lemma lay_all_inv:
  assumes "lay_all (map h xs) ly = Inr (ys, ly')" "layouts_inv laid_out ly"
    "\<And>x. keeps (h x)"
    "\<And>x ly y ly'. h x ly = Inr (y, ly') \<Longrightarrow> layouts_inv laid_out ly \<Longrightarrow> P x y ly' \<and> layouts_inv laid_out ly'"
    "\<And>x y ly ly'. P x y ly \<Longrightarrow> lay_knows ly ly' \<Longrightarrow> P x y ly'"
  shows "list_all2 (\<lambda>x y. P x y ly') xs ys \<and> layouts_inv laid_out ly'"
  using assms(1,2)
proof (induction xs arbitrary: ly ys)
  case (Cons x xs)
  from Cons.prems(1) obtain y ly1 zs where h: "h x ly = Inr (y, ly1)" and rest: "lay_all (map h xs) ly1 = Inr (zs, ly')"
    and ys: "ys = y # zs" by (auto simp: lay_ok_def elim!: lay_then_InrE)
  have y: "P x y ly1" "layouts_inv laid_out ly1" using assms(4) [OF h Cons.prems(2)] by blast+
  have "keeps (lay_all (map h xs))" by (rule keeps_all) (auto intro: assms(3))
  then have "lay_extends ly1 ly'" using rest by (rule keepsD)
  then have "P x y ly'" using y(1) assms(5) lay_extends_knows by blast
  then show ?case using Cons.IH [OF rest y(2)] ys by simp
qed (simp add: lay_ok_def)

lemma struct_data_settled:
  assumes "struct_data n self decl args ly = Inr (data, ly')" "layouts_inv laid_out ly"
  shows "list_all2 (\<lambda>f y. fst y = fld_name f \<and> laid_out (fst (snd y)) (snd (snd y)) ly') (sd_fields decl) data
    \<and> layouts_inv laid_out ly'"
  using assms unfolding struct_data_def
  by (rule lay_all_inv)
    (auto intro!: keeps_rules keeps_field_data dest!: field_data_settled elim!: lay_then_InrE simp: lay_ok_def laid_extends)

lemma variant_settled:
  assumes "lay_then (variant_tys name v) (\<lambda>tys. lay_then (lay_all (map (field_data n self generics args) tys))
      (\<lambda>data. lay_ok (ev_name v, data))) ly = Inr (y, ly')" "layouts_inv laid_out ly"
  shows "(fst y = ev_name v \<and> list_all (\<lambda>(t, l). laid_out t l ly') (snd y)) \<and> layouts_inv laid_out ly'"
proof -
  from assms(1) obtain tys ly1 data where t: "variant_tys name v ly = Inr (tys, ly1)"
    and d: "lay_all (map (field_data n self generics args) tys) ly1 = Inr (data, ly')" and y: "y = (ev_name v, data)"
    by (auto simp: lay_ok_def elim!: lay_then_InrE)
  have "layouts_inv laid_out ly1" by (rule inv_arena_only [OF arena_only_variant_tys t assms(2)])
  with d have "list_all2 (\<lambda>_ y. laid_out (fst y) (snd y) ly') tys data \<and> layouts_inv laid_out ly'"
    by (rule lay_all_inv) (auto intro: keeps_field_data dest: field_data_settled laid_extends)
  then show ?thesis using y by (auto simp: list_all2_conv_all_nth list_all_length case_prod_unfold)
qed

lemma enum_data_settled:
  assumes "enum_data n self name decl args ly = Inr (variants, ly')" "layouts_inv laid_out ly"
  shows "list_all2 (\<lambda>v y. fst y = ev_name v \<and> list_all (\<lambda>(t, l). laid_out t l ly') (snd y)) (ed_variants decl) variants
    \<and> layouts_inv laid_out ly'"
  using assms unfolding enum_data_def
proof (rule lay_all_inv, goal_cases)
  case (1 v)
  show ?case by (intro keeps_then keeps_ok keeps_all keeps_arena_only [OF arena_only_variant_tys]) (auto intro: keeps_field_data)
next
  case (2 v ly1 y ly2)
  then show ?case by (rule variant_settled)
next
  case (3 v y ly1 ly2)
  then show ?case by (auto elim!: list.pred_mono_strong dest: laid_extends)
qed

end

section \<open>Where fields are placed\<close>

lemma sorted_wrt_either:
  assumes "sorted_wrt R xs" "a \<in> set xs" "b \<in> set xs" "a \<noteq> b"
  shows "R a b \<or> R b a"
  using assms by (induction xs) auto

lemma struct_layout_placed_fields:
  "ly_fields (struct_layout fs r) = map (\<lambda>(f, p). \<lparr>fl_name = fst f, fl_offset = p\<rparr>) (placed_fields fs r)"
  by (simp add: placed_fields_def struct_layout_fields)
    (simp add: struct_layout_def fold_place_field)

lemma placed_fields_mem: "(f, p) \<in> set (placed_fields fs r) \<Longrightarrow> f \<in> set fs"
proof -
  assume "(f, p) \<in> set (placed_fields fs r)"
  then have "f \<in> set (layout_order fs r)" unfolding placed_fields_def by (rule set_zip_leftD)
  then show ?thesis by (metis layout_order_mset set_mset_mset)
qed

definition struct_input :: "bool \<Rightarrow> (string \<times> type \<times> layout) list \<Rightarrow> (string \<times> layout) list" where
  "struct_input drops data = map (\<lambda>(name, _, l). (name, l)) data
    @ (if drops then [(LIVE_FIELD, \<lparr>ly_size = 1, ly_align = 1, ly_fields = []\<rparr>)] else [])"

lemma build_struct_info_fields:
  assumes "si_fields (build_struct_info drops data) f = Some (t, p)" "distinct (map fst data)"
  obtains l where "((f, l), p) \<in> set (placed_fields (struct_input drops data) ReprDefault)" "(f, t, l) \<in> set data" "f \<noteq> LIVE_FIELD"
proof -
  from assms(1) obtain l where l: "((f, l), p) \<in> set (placed_fields (struct_input drops data) ReprDefault)" "f \<noteq> LIVE_FIELD"
    and t: "t = fst (the (map_of data f))"
    by (auto simp: build_struct_info_def struct_input_def Let_def struct_layout_placed_fields dest!: map_of_SomeD)
  then obtain u where u: "(f, u, l) \<in> set data" using placed_fields_mem [OF l(1)] by (auto simp: struct_input_def split: if_splits)
  then have "t = u" using assms(2) t by simp
  then show thesis using that l u by blast
qed

lemma build_struct_info_live:
  assumes "si_live_offset (build_struct_info drops data) = Some live" "LIVE_FIELD \<notin> fst ` set data"
  shows "((LIVE_FIELD, \<lparr>ly_size = 1, ly_align = 1, ly_fields = []\<rparr>), live) \<in> set (placed_fields (struct_input drops data) ReprDefault)"
proof -
  from assms(1) obtain x where x: "find (\<lambda>f. fl_name f = LIVE_FIELD) (ly_fields (struct_layout (struct_input drops data) ReprDefault)) = Some x"
    "live = fl_offset x" by (auto simp: build_struct_info_def struct_input_def Let_def)
  then have "x \<in> set (ly_fields (struct_layout (struct_input drops data) ReprDefault))" "fl_name x = LIVE_FIELD"
    by (auto simp: find_Some_iff)
  then obtain l where l: "((LIVE_FIELD, l), live) \<in> set (placed_fields (struct_input drops data) ReprDefault)"
    using x(2) by (auto simp: struct_layout_placed_fields)
  then have "l = \<lparr>ly_size = 1, ly_align = 1, ly_fields = []\<rparr>" using placed_fields_mem [OF l] assms(2)
    by (force simp: struct_input_def image_iff split: if_splits)
  then show ?thesis using l by simp
qed

lemma build_struct_info_placed:
  assumes good: "\<And>f t l. (f, t, l) \<in> set data \<Longrightarrow> laid t l \<and> good_layout l"
    and names: "distinct (map fst data)" "LIVE_FIELD \<notin> fst ` set data"
  shows "struct_placed laid (build_struct_info drops data)"
proof -
  let ?fs = "struct_input drops data" and ?i = "build_struct_info drops data"
  have gfs: "list_all (\<lambda>f. good_layout (snd f)) ?fs" 
    by (auto simp: struct_input_def list_all_iff dest: good) (simp add: good_layout_def)
  have lay: "si_layout ?i = struct_layout ?fs ReprDefault" by (simp add: build_struct_info_def struct_input_def Let_def)
  note placement = struct_layout_placement [OF gfs, of ReprDefault, folded lay]
  have each: "ly_align (snd f) dvd p \<and> p + ly_size (snd f) \<le> ly_size (si_layout ?i) \<and> ly_align (snd f) dvd ly_align (si_layout ?i)"
    if "(f, p) \<in> set (placed_fields ?fs ReprDefault)" for f p using that placement by (auto simp: list_all_iff)
  have two: "apart p (ly_size (snd f)) q (ly_size (snd g))"
    if "(f, p) \<in> set (placed_fields ?fs ReprDefault)" "(g, q) \<in> set (placed_fields ?fs ReprDefault)" "fst f \<noteq> fst g" for f p g q
    using sorted_wrt_either [of _ _ "(f, p)" "(g, q)"] that placement by (fastforce simp: apart_def)
  let ?L = "\<lambda>f. snd (the (map_of data f))"
  have field: "(f, t, ?L f) \<in> set data \<and> ((f, ?L f), p) \<in> set (placed_fields ?fs ReprDefault) \<and> f \<noteq> LIVE_FIELD"
    if "si_fields ?i f = Some (t, p)" for f t p
    by (rule build_struct_info_fields [OF that names(1)]) (use names in simp)
  note live = build_struct_info_live [OF _ names(2), of drops]
  have "laid t (?L f) \<and> ly_align (?L f) dvd p \<and> ly_align (?L f) dvd ly_align (si_layout ?i)
      \<and> p + ly_size (?L f) \<le> ly_size (si_layout ?i)
      \<and> (\<forall>g u q. si_fields ?i g = Some (u, q) \<and> g \<noteq> f \<longrightarrow> apart p (ly_size (?L f)) q (ly_size (?L g)))
      \<and> (\<forall>live. si_live_offset ?i = Some live \<longrightarrow> apart p (ly_size (?L f)) live 1)"
    if "si_fields ?i f = Some (t, p)" for f t p
  proof (intro conjI allI impI, goal_cases)
    case (5 g u q)
    then show ?case using two [of "(f, ?L f)" p "(g, ?L g)" q] field [OF that] field [of g u q] by auto
  next
    case (6 at)
    then show ?case using two [OF _ live, of "(f, ?L f)" p at] field [OF that] by simp
  qed (use field [OF that] good each [of "(f, ?L f)" p] in auto)
  moreover have "live < ly_size (si_layout ?i)" if "si_live_offset ?i = Some live" for live
    using each [OF live [OF that]] by simp
  ultimately show ?thesis unfolding struct_placed_def using placement by (intro conjI exI [of _ ?L]) simp_all
qed

lemma payload_placed:
  assumes "list_all (\<lambda>(t, l). good_layout l) data"
  shows "good_layout (payload_layout data) \<and> length (payload_fields data) = length data \<and> map fst (payload_fields data) = map fst data
    \<and> sorted_wrt (\<lambda>((_, p), l) ((_, q), _). p + ly_size l \<le> q) (zip (payload_fields data) (map snd data))
    \<and> list_all (\<lambda>((t, p), l). ly_align l dvd p \<and> ly_align l dvd ly_align (payload_layout data) \<and> DISCRIMINANT_SIZE \<le> p
        \<and> p + ly_size l \<le> DISCRIMINANT_SIZE + ly_size (payload_layout data)) (zip (payload_fields data) (map snd data))"
proof -
  define fs where "fs = map (\<lambda>(i, _, l). (nat_string i, l)) (enumerate 0 data)"
  have pl: "payload_layout data = struct_layout fs ReprC" by (simp add: payload_layout_def fs_def)
  have gfs: "list_all (\<lambda>f. good_layout (snd f)) fs" 
    using assms by (fastforce simp: fs_def list_all_length nth_enumerate_eq split: prod.split)
  have len: "length fs = length data" and nth: "\<And>j. j < length data \<Longrightarrow> snd (fs ! j) = snd (data ! j)"
    by (simp_all add: fs_def nth_enumerate_eq split: prod.split)
  have zip: "placed_fields fs ReprC = zip fs (map fl_offset (ly_fields (struct_layout fs ReprC)))"
    by (simp add: placed_fields_def layout_order_def)
  have flen: "length (ly_fields (struct_layout fs ReprC)) = length data"
    using arg_cong [OF struct_layout_fields(2) [of fs ReprC], of length] len by (simp add: layout_order_def)
  have p: "payload_fields data ! j = (fst (data ! j), snd (placed_fields fs ReprC ! j) + DISCRIMINANT_SIZE)"
    if "j < length data" for j using that flen len unfolding zip by (simp add: payload_fields_def pl split: prod.split)
  note placement = struct_layout_placement [OF gfs, of ReprC]
  have lens: "length (placed_fields fs ReprC) = length data" "length (payload_fields data) = length data"
    using flen len by (simp_all add: zip payload_fields_def pl)
  have el: "fst (placed_fields fs ReprC ! j) = fs ! j" if "j < length data" for j
    using that flen len by (simp add: zip)
  have dvd: "ly_align (snd (data ! j)) dvd DISCRIMINANT_SIZE" if "j < length data" for j
    using assms that by (auto simp: list_all_length good_layout_def DISCRIMINANT_SIZE_def case_prod_unfold)
  let ?o = "\<lambda>j. snd (placed_fields fs ReprC ! j)"
  have sep: "?o i + ly_size (snd (data ! i)) \<le> ?o j" if "i < j" "j < length data" for i j
  proof -
    have "sorted_wrt (\<lambda>(f, p) (g, q). p + ly_size (snd f) \<le> q) (placed_fields fs ReprC)" using placement by blast
    from sorted_wrt_nth_less [OF this, of i j] show ?thesis using that lens el [of i] nth [of i] by (simp add: case_prod_unfold)
  qed
  have inside: "ly_align (snd (data ! j)) dvd ?o j \<and> ?o j + ly_size (snd (data ! j)) \<le> ly_size (payload_layout data)
      \<and> ly_align (snd (data ! j)) dvd ly_align (payload_layout data)" if "j < length data" for j
  proof -
    have "case placed_fields fs ReprC ! j of (f, p) \<Rightarrow> ly_align (snd f) dvd p \<and> p + ly_size (snd f) \<le> ly_size (payload_layout data)
        \<and> ly_align (snd f) dvd ly_align (payload_layout data)"
      using placement that lens by (simp add: pl list_all_length)
    then show ?thesis using el [OF that] nth [OF that] by (simp add: case_prod_unfold)
  qed
  show ?thesis
  proof (intro conjI)
    show "good_layout (payload_layout data)" using placement pl by simp
    show "length (payload_fields data) = length data" by (rule lens)
    show "map fst (payload_fields data) = map fst data" by (rule nth_equalityI) (simp_all add: lens p)
    show "sorted_wrt (\<lambda>((_, p), l) ((_, q), _). p + ly_size l \<le> q) (zip (payload_fields data) (map snd data))"
      using sep by (simp add: sorted_wrt_iff_nth_less lens p case_prod_unfold)
    show "list_all (\<lambda>((t, p), l). ly_align l dvd p \<and> ly_align l dvd ly_align (payload_layout data) \<and> DISCRIMINANT_SIZE \<le> p
        \<and> p + ly_size l \<le> DISCRIMINANT_SIZE + ly_size (payload_layout data)) (zip (payload_fields data) (map snd data))"
      using inside dvd by (simp add: list_all_length lens p case_prod_unfold)
  qed
qed

lemma fold_max_payload:
  fixes h :: "'a \<Rightarrow> nat"
  shows "a \<le> fold (\<lambda>x. max (h x)) xs a" "x \<in> set xs \<Longrightarrow> h x \<le> fold (\<lambda>x. max (h x)) xs a"
    "fold (\<lambda>x. max (h x)) xs a \<in> insert a (h ` set xs)"
proof (induction xs arbitrary: a)
  case (Cons y ys)
  {
    case 1
    show ?case using Cons(1) [of "max (h y) a"] by simp
  next
    case 2
    then show ?case using Cons(1) [of "max (h y) a"] Cons(2) [of "max (h y) a"] by auto
  next
    case 3
    show ?case using Cons(3) [of "max (h y) a"] by (auto simp: max_def split: if_splits)
  }
qed simp_all

lemma build_enum_info_placed:
  assumes good: "\<And>v data t l. (v, data) \<in> set variants \<Longrightarrow> (t, l) \<in> set data \<Longrightarrow> laid t l \<and> good_layout l"
  shows "enum_placed laid (build_enum_info drops variants)"
proof -
  let ?i = "build_enum_info drops variants"
  define mx where "mx = fold (\<lambda>(_, data). max (ly_size (payload_layout data))) variants 0"
  define ma where "ma = fold (\<lambda>(_, data). max (ly_align (payload_layout data))) variants 1"
  define al where "al = max ma DISCRIMINANT_SIZE"
  have payload: "good_layout (payload_layout data)" if "(v, data) \<in> set variants" for v data
    using payload_placed [of data] good [OF that] by (auto simp: list_all_iff)
  have "ma \<in> insert 1 ((\<lambda>x. ly_align (payload_layout (snd x))) ` set variants)"
    unfolding ma_def case_prod_unfold by (rule fold_max_payload)
  moreover have "ly_align (payload_layout (snd x)) \<le> 8" if "x \<in> set variants" for x
    using payload [of "fst x" "snd x"] that by (auto simp: good_layout_def)
  ultimately have al: "al = 8" by (auto simp: al_def DISCRIMINANT_SIZE_def max_def)
  have size_le: "ly_size (payload_layout data) \<le> mx" if "(v, data) \<in> set variants" for v data
    using fold_max_payload(2) [OF that, of "\<lambda>x. ly_size (payload_layout (snd x))" 0] by (simp add: mx_def case_prod_unfold)
  have i: "ei_layout ?i = \<lparr>ly_size = align_up (DISCRIMINANT_SIZE + mx + (if drops then 1 else 0)) al, ly_align = al, ly_fields = []\<rparr>"
    "ei_live_offset ?i = (if drops then Some (DISCRIMINANT_SIZE + mx) else None)"
    by (simp_all add: build_enum_info_def Let_def mx_def ma_def al_def)
  have up: "DISCRIMINANT_SIZE + mx + (if drops then 1 else 0) \<le> ly_size (ei_layout ?i)" "8 dvd ly_size (ei_layout ?i)"
    using align_up_spec(1,2) [of al] by (simp_all add: i al)
  have al8: "ly_align (ei_layout ?i) = 8" by (simp add: i al)
  have room: "DISCRIMINANT_SIZE + ly_size (payload_layout data) \<le> (case ei_live_offset ?i of None \<Rightarrow> ly_size (ei_layout ?i) | Some live \<Rightarrow> live)"
    if "(v, data) \<in> set variants" for v data using size_le [OF that] up(1) unfolding i(2) by (auto split: if_splits)
  have "\<exists>ls. length ls = length fs \<and> sorted_wrt (\<lambda>((_, p), l) ((_, q), _). p + ly_size l \<le> q) (zip fs ls) \<and>
      list_all (\<lambda>((t, p), l). laid t l \<and> ly_align l dvd p \<and> ly_align l dvd ly_align (ei_layout ?i) \<and> DISCRIMINANT_SIZE \<le> p
        \<and> p + ly_size l \<le> (case ei_live_offset ?i of None \<Rightarrow> ly_size (ei_layout ?i) | Some live \<Rightarrow> live)) (zip fs ls)"
    if v: "ei_variants ?i v = Some fs" for v fs
  proof -
    from v obtain data where d: "(v, data) \<in> set variants" and fs: "fs = payload_fields data"
      by (auto simp: build_enum_info_def Let_def dest!: map_of_SomeD)
    have gd: "list_all (\<lambda>(t, l). good_layout l) data" using good [OF d] by (auto simp: list_all_iff)
    note pp = payload_placed [OF gd]
    have nth: "laid (fst (fs ! j)) (snd (data ! j)) \<and> good_layout (snd (data ! j))" if "j < length data" for j
    proof -
      have "map fst fs ! j = map fst data ! j" "length fs = length data" using pp fs by simp_all
      then have "fst (fs ! j) = fst (data ! j)" using that by simp
      then show ?thesis using good [OF d, of "fst (data ! j)" "snd (data ! j)"] that by simp
    qed
    have "list_all (\<lambda>((t, p), l). laid t l \<and> ly_align l dvd p \<and> ly_align l dvd ly_align (ei_layout ?i) \<and> DISCRIMINANT_SIZE \<le> p
        \<and> p + ly_size l \<le> (case ei_live_offset ?i of None \<Rightarrow> ly_size (ei_layout ?i) | Some live \<Rightarrow> live)) (zip fs (map snd data))"
      unfolding list_all_length
    proof (intro allI impI)
      fix j assume "j < length (zip fs (map snd data))"
      then have j: "j < length data" and e: "zip fs (map snd data) ! j = (fs ! j, snd (data ! j))" using pp fs by simp_all
      have "case (fs ! j, snd (data ! j)) of ((t, p), l) \<Rightarrow> ly_align l dvd p \<and> ly_align l dvd ly_align (payload_layout data)
          \<and> DISCRIMINANT_SIZE \<le> p \<and> p + ly_size l \<le> DISCRIMINANT_SIZE + ly_size (payload_layout data)"
      proof -
        have "list_all (\<lambda>((t, p), l). ly_align l dvd p \<and> ly_align l dvd ly_align (payload_layout data) \<and> DISCRIMINANT_SIZE \<le> p
          \<and> p + ly_size l \<le> DISCRIMINANT_SIZE + ly_size (payload_layout data)) (zip fs (map snd data))" "length fs = length data"
          using pp fs by simp_all
        then show ?thesis using j unfolding list_all_length by (auto simp: case_prod_unfold)
      qed
      moreover have "ly_align (snd (data ! j)) dvd 8" using nth [OF j] by (auto simp: good_layout_def)
      ultimately show "(\<lambda>((t, p), l). laid t l \<and> ly_align l dvd p \<and> ly_align l dvd ly_align (ei_layout ?i)
          \<and> DISCRIMINANT_SIZE \<le> p \<and> p + ly_size l \<le> (case ei_live_offset ?i of None \<Rightarrow> ly_size (ei_layout ?i) | Some live \<Rightarrow> live))
          (zip fs (map snd data) ! j)"
        unfolding e using al8 room [OF d] nth [OF j] by (auto split: prod.splits simp del: option.case)
    qed
    then show ?thesis using pp fs by (intro exI [of _ "map snd data"]) simp
  qed
  then show ?thesis unfolding enum_placed_def using up
    by (auto simp: i al good_layout_def DISCRIMINANT_SIZE_def split: if_splits)
qed

lemma prelude_struct_placed:
  assumes "prelude_error_struct name = Some l" "laid TString \<lparr>ly_size = 16, ly_align = 8, ly_fields = []\<rparr>"
  shows "struct_placed laid \<lparr>si_layout = l, si_fields = map_of (rev (prelude_error_fields name)), si_live_offset = None\<rparr>"
  using assms by (auto simp: prelude_error_struct_def prelude_error_ty_def prelude_error_fields_def struct_placed_def good_layout_def
      leaf_def Let_def split: if_splits)

section \<open>The invariant of the caches\<close>

context layout_provider
begin

lemma inv_struct_cached:
  assumes inv: "layouts_inv laid_out ly" and p: "struct_placed (\<lambda>t l. laid_out t l ly) info"
    and k: "lay_knows ly (ly\<lparr>tl_struct_in_progress := ks, tl_struct_cache := (key, info) # tl_struct_cache ly\<rparr>)" (is "lay_knows ly ?ly'")
  shows "struct_placed (\<lambda>t l. laid_out t l ?ly') info \<and> layouts_inv laid_out ?ly'"
proof -
  have "struct_placed (\<lambda>t l. laid_out t l ?ly') info" using p laid_extends [OF _ k] by (rule struct_placed_mono)
  then show ?thesis using inv_placed [OF inv k] by (simp add: layouts_inv_def)
qed

lemma inv_enum_cached:
  assumes inv: "layouts_inv laid_out ly" and p: "enum_placed (\<lambda>t l. laid_out t l ly) info"
    and k: "lay_knows ly (ly\<lparr>tl_enum_in_progress := ks, tl_enum_cache := (key, info) # tl_enum_cache ly\<rparr>)" (is "lay_knows ly ?ly'")
  shows "enum_placed (\<lambda>t l. laid_out t l ?ly') info \<and> layouts_inv laid_out ?ly'"
proof -
  have "enum_placed (\<lambda>t l. laid_out t l ?ly') info" using p laid_extends [OF _ k] by (rule enum_placed_mono)
  then show ?thesis using inv_placed [OF inv k] by (simp add: layouts_inv_def)
qed

lemma struct_info_inv:
  assumes r: "struct_info_with n self name args ly = Inr (info, ly')" and inv: "layouts_inv laid_out ly"
  shows "struct_placed (\<lambda>t l. laid_out t l ly') info \<and> layouts_inv laid_out ly'"
  using r refl
proof (cases rule: struct_info_cases)
  case cached
  then show ?thesis using inv unfolding layouts_inv_def by blast
next
  case (prelude l)
  have "laid_out TString \<lparr>ly_size = 16, ly_align = 8, ly_fields = []\<rparr> ly" by (rule laid_scalar) (simp add: leaf_def)
  then have p: "struct_placed (\<lambda>t l. laid_out t l ly) info" unfolding prelude(3) using prelude(2) by (intro prelude_struct_placed)
  have "ly' = ly\<lparr>tl_struct_in_progress := tl_struct_in_progress ly, tl_struct_cache := (instantiation_key_of name args, info) # tl_struct_cache ly\<rparr>"
    using prelude(4) by simp
  moreover have "lay_knows ly ly'" using keepsD [OF keeps_struct_info r] by (rule lay_extends_knows)
  ultimately show ?thesis using inv_struct_cached [OF inv p] by metis
next
  case (built decl data ly1)
  let ?k = "instantiation_key_of name args"
  have "lay_knows ly (ly\<lparr>tl_struct_in_progress := ?k # tl_struct_in_progress ly\<rparr>)" by (simp add: lay_knows_def)
  then have "layouts_inv laid_out (ly\<lparr>tl_struct_in_progress := ?k # tl_struct_in_progress ly\<rparr>)" by (rule inv_extends [OF inv]) simp_all
  then have d: "list_all2 (\<lambda>f y. fst y = fld_name f \<and> laid_out (fst (snd y)) (snd (snd y)) ly1) (sd_fields decl) data"
    and inv1: "layouts_inv laid_out ly1" using struct_data_settled [OF built(5)] by blast+
  have names: "map fst data = map fld_name (sd_fields decl)"
    using d by (auto simp: list_all2_conv_all_nth intro: nth_equalityI)
  have "struct_placed (\<lambda>t l. laid_out t l ly1) info" unfolding built(6)
  proof (rule build_struct_info_placed)
    show "laid_out t l ly1 \<and> good_layout l" if "(f, t, l) \<in> set data" for f t l
      using that d laid_good by (fastforce simp: list_all2_conv_all_nth in_set_conv_nth)
    have "declarations_ok ly" using inv by (simp add: layouts_inv_def)
    then show "distinct (map fst data)" "LIVE_FIELD \<notin> fst ` set data"
      using built(4) names unfolding declarations_ok_def by (metis, metis list.set_map)
  qed
  moreover have "lay_knows ly1 ly'"
    using keepsD [OF keeps_struct_data built(5)] built(1,2) unfolding built(7)
    by (auto simp: lay_knows_def lay_extends_def instantiation_key_of_def)
  ultimately show ?thesis using inv_struct_cached [OF inv1] unfolding built(7) by blast
qed

lemma enum_info_inv:
  assumes r: "enum_info_with n self name args ly = Inr (info, ly')" and inv: "layouts_inv laid_out ly"
  shows "enum_placed (\<lambda>t l. laid_out t l ly') info \<and> layouts_inv laid_out ly'"
  using r refl
proof (cases rule: enum_info_cases)
  case cached
  then show ?thesis using inv unfolding layouts_inv_def by blast
next
  case (built decl variants ly1)
  let ?k = "instantiation_key_of name args"
  have "lay_knows ly (ly\<lparr>tl_enum_in_progress := ?k # tl_enum_in_progress ly\<rparr>)" by (simp add: lay_knows_def)
  then have "layouts_inv laid_out (ly\<lparr>tl_enum_in_progress := ?k # tl_enum_in_progress ly\<rparr>)" by (rule inv_extends [OF inv]) simp_all
  then have d: "list_all2 (\<lambda>v y. fst y = ev_name v \<and> list_all (\<lambda>(t, l). laid_out t l ly1) (snd y)) (ed_variants decl) variants"
    and inv1: "layouts_inv laid_out ly1" using enum_data_settled [OF built(4)] by blast+
  have "enum_placed (\<lambda>t l. laid_out t l ly1) info" unfolding built(5)
  proof (rule build_enum_info_placed)
    show "laid_out t l ly1 \<and> good_layout l" if "(v, data) \<in> set variants" "(t, l) \<in> set data" for v data t l
    proof -
      from d that(1) have "list_all (\<lambda>(t, l). laid_out t l ly1) data"
        by (fastforce simp: list_all2_conv_all_nth in_set_conv_nth)
      then show ?thesis using that(2) laid_good by (auto simp: list_all_iff)
    qed
  qed
  moreover have "lay_knows ly1 ly'"
    using keepsD [OF keeps_enum_data built(4)] built(1) unfolding built(6)
    by (auto simp: lay_knows_def lay_extends_def)
  ultimately show ?thesis using inv_enum_cached [OF inv1] unfolding built(6) by blast
qed

end

section \<open>The layouts of types\<close>

text \<open>A type is laid out when its layout, at some depth, is this one and stays so.\<close>

definition laid_out :: "type \<Rightarrow> layout \<Rightarrow> type_layouts \<Rightarrow> bool" where
  "laid_out ty l ly \<longleftrightarrow> good_layout l \<and> (\<exists>n. \<forall>ly2. lay_knows ly ly2 \<longrightarrow> layout_of n ty ly2 = Inr (l, ly2))"

lemma laid_out_stable:
  assumes "stable (layout_of n ty)" "layout_of n ty ly = Inr (l, ly')" "good_layout l"
  shows "laid_out ty l ly'"
  unfolding laid_out_def using assms(3) stableD [OF assms(1,2)] by blast

lemma laid_out_scalar: "scalar_layout ty = Some l \<Longrightarrow> laid_out ty l ly"
  unfolding laid_out_def using scalar_layout_good [of ty l] by (auto intro!: exI [of _ "Suc 0"] simp: lay_ok_def)

lemma stable_state_if:
  assumes "\<And>ly ly'. lay_knows ly ly' \<Longrightarrow> b ly' = b ly" "stable f" "stable g" "keeps f" "keeps g"
  shows "stable (lay_then lay_state (\<lambda>ly. if b ly then f else g))"
  unfolding stable_def
proof (intro allI impI, elim conjE)
  fix ly x ly1 ly2 assume r: "lay_then lay_state (\<lambda>ly. if b ly then f else g) ly = Inr (x, ly1)" and k: "lay_knows ly1 ly2"
  have r': "(if b ly then f else g) ly = Inr (x, ly1)" using r by (simp add: lay_then_def lay_state_def)
  then have "lay_knows ly ly1" using assms(4,5) by (auto intro: lay_extends_knows dest: keepsD split: if_splits)
  then have "b ly2 = b ly" using assms(1) layouts_knowledge.grows_trans k by blast
  then show "lay_then lay_state (\<lambda>ly. if b ly then f else g) ly2 = Inr (x, ly2)"
    using r' stableD [OF assms(2) _ k] stableD [OF assms(3) _ k] by (auto simp: lay_then_def lay_state_def split: if_splits)
qed

lemma keeps_state_if: "keeps f \<Longrightarrow> keeps g \<Longrightarrow> keeps (lay_then lay_state (\<lambda>ly. if b ly then f else g))"
  by (auto intro!: keeps_then keeps_arena_only [OF arena_only_state])

context layout_provider
begin

lemma tuple_layout_with_inv:
  assumes r: "tuple_layout_with self items ly = Inr (l, ly')" and inv: "layouts_inv laid_out ly"
  shows "good_layout l \<and> layouts_inv laid_out ly'"
proof -
  from r obtain ls where ls: "lay_all (map self items) ly = Inr (ls, ly')"
    and l: "l = struct_layout (map (\<lambda>(i, l). (nat_string i, l)) (enumerate 0 ls)) ReprC"
    by (auto simp: tuple_layout_with_def lay_ok_def elim!: lay_then_InrE)
  have "list_all2 (\<lambda>_ l. good_layout l) items ls \<and> layouts_inv laid_out ly'"
    using ls inv by (rule lay_all_inv) (auto simp: self_keeps dest: self_inv)
  then have "list_all (\<lambda>f. good_layout (snd f)) (map (\<lambda>(i, l). (nat_string i, l)) (enumerate 0 ls))" "layouts_inv laid_out ly'"
    by (auto simp: list_all_length list_all2_conv_all_nth nth_enumerate_eq split: prod.split)
  then show ?thesis unfolding l using struct_layout_placement by blast
qed

lemma keeps_tuple_layout: "keeps (tuple_layout_with self items)"
  unfolding tuple_layout_with_def by (auto intro!: keeps_rules self_keeps)

lemma stable_tuple_layout: "stable (tuple_layout_with self items)"
  unfolding tuple_layout_with_def by (auto intro!: stable_then stable_all keeps_rules stable_ok self_keeps self_stable)

end

text \<open>One level of the recursion, from what the level below provides.\<close>

definition provides :: "layout lay \<Rightarrow> bool" where
  "provides f \<longleftrightarrow> keeps f \<and> stable f \<and>
    (\<forall>ly l ly'. layouts_inv laid_out ly \<and> f ly = Inr (l, ly') \<longrightarrow> good_layout l \<and> layouts_inv laid_out ly')"

lemma provides_ok: "good_layout l \<Longrightarrow> provides (lay_ok l)"
  by (simp add: provides_def keeps_ok stable_ok) (simp add: lay_ok_def)

lemma provides_panic: "provides (lay_panic p)"
  by (simp add: provides_def keeps_def stable_def lay_panic_def)

lemma provides_state_if:
  assumes "\<And>ly ly'. lay_knows ly ly' \<Longrightarrow> b ly' = b ly" "provides f" "provides g"
  shows "provides (lay_then lay_state (\<lambda>ly. if b ly then f else g))"
proof -
  let ?f = "lay_then lay_state (\<lambda>ly. if b ly then f else g)"
  have "keeps ?f" using assms(2,3) by (intro keeps_state_if) (simp_all add: provides_def)
  moreover have "stable ?f" using assms(2,3) by (intro stable_state_if assms(1)) (simp_all add: provides_def)
  moreover have "good_layout l \<and> layouts_inv laid_out ly'" if "layouts_inv laid_out ly" "?f ly = Inr (l, ly')" for ly l ly'
  proof -
    have "(if b ly then f else g) ly = Inr (l, ly')" using that(2) by (simp add: lay_then_def lay_state_def)
    then show ?thesis using that(1) assms(2,3) unfolding provides_def by metis
  qed
  ultimately show ?thesis unfolding provides_def by blast
qed

lemma provides_tuple: "layout_provider (layout_of n) laid_out \<Longrightarrow> provides (tuple_layout_with (layout_of n) items)"
  unfolding provides_def
  using layout_provider.keeps_tuple_layout layout_provider.stable_tuple_layout layout_provider.tuple_layout_with_inv by blast

lemma provides_struct:
  assumes "layout_provider (layout_of n) laid_out"
  shows "provides (lay_then (struct_info_with n (layout_of n) name args) (\<lambda>info. lay_ok (si_layout info)))"
  unfolding provides_def
proof (intro conjI allI impI; (elim conjE)?)
  show "keeps (lay_then (struct_info_with n (layout_of n) name args) (\<lambda>info. lay_ok (si_layout info)))"
    "stable (lay_then (struct_info_with n (layout_of n) name args) (\<lambda>info. lay_ok (si_layout info)))"
    using layout_provider.keeps_struct_info [OF assms] by (auto intro!: keeps_then keeps_ok stable_then stable_struct_info stable_ok)
next
  fix ly l ly' assume inv: "layouts_inv laid_out ly"
    and r: "lay_then (struct_info_with n (layout_of n) name args) (\<lambda>info. lay_ok (si_layout info)) ly = Inr (l, ly')"
  from r obtain info where "struct_info_with n (layout_of n) name args ly = Inr (info, ly')" "l = si_layout info"
    by (auto simp: lay_ok_def elim!: lay_then_InrE)
  then show "good_layout l" "layouts_inv laid_out ly'"
    using layout_provider.struct_info_inv [OF assms _ inv] by (auto simp: struct_placed_def)
qed

lemma provides_enum:
  assumes "layout_provider (layout_of n) laid_out"
  shows "provides (lay_then (enum_info_with n (layout_of n) name args) (\<lambda>info. lay_ok (ei_layout info)))"
  unfolding provides_def
proof (intro conjI allI impI; (elim conjE)?)
  show "keeps (lay_then (enum_info_with n (layout_of n) name args) (\<lambda>info. lay_ok (ei_layout info)))"
    "stable (lay_then (enum_info_with n (layout_of n) name args) (\<lambda>info. lay_ok (ei_layout info)))"
    using layout_provider.keeps_enum_info [OF assms] by (auto intro!: keeps_then keeps_ok stable_then stable_enum_info stable_ok)
next
  fix ly l ly' assume inv: "layouts_inv laid_out ly"
    and r: "lay_then (enum_info_with n (layout_of n) name args) (\<lambda>info. lay_ok (ei_layout info)) ly = Inr (l, ly')"
  from r obtain info where "enum_info_with n (layout_of n) name args ly = Inr (info, ly')" "l = ei_layout info"
    by (auto simp: lay_ok_def elim!: lay_then_InrE)
  then show "good_layout l" "layouts_inv laid_out ly'"
    using layout_provider.enum_info_inv [OF assms _ inv] by (auto simp: enum_placed_def)
qed

lemma layout_of_provides:
  assumes "layout_provider (layout_of n) laid_out"
  shows "provides (layout_of (Suc n) ty)"
proof (cases "scalar_layout ty")
  case (Some l)
  then show ?thesis using scalar_layout_good [of ty l] by (simp add: provides_ok)
next
  case None
  have handle: "good_layout \<lparr>ly_size = 8, ly_align = 8, ly_fields = []\<rparr>" by (simp add: good_layout_def)
  show ?thesis
  proof (cases ty)
    case (TStruct name args)
    have "has_struct ly' name = has_struct ly name" if "lay_knows ly ly'" for ly ly'
      using that by (simp add: has_struct_def lay_knows_def)
    then show ?thesis unfolding TStruct
      by (auto intro!: provides_state_if provides_ok handle provides_struct [OF assms])
  next
    case (TEnum name args)
    then show ?thesis using provides_enum [OF assms] by simp
  next
    case (TTuple items)
    then show ?thesis using provides_tuple [OF assms] by simp
  qed (use None provides_panic in simp_all)
qed

lemma provider_of_provides:
  assumes "\<And>ty. provides (layout_of n ty)"
  shows "layout_provider (layout_of n) laid_out"
proof
  fix ty ly l ly'
  show "keeps (layout_of n ty)" "stable (layout_of n ty)" using assms [of ty] by (auto simp: provides_def)
  show "good_layout l \<and> laid_out ty l ly' \<and> layouts_inv laid_out ly'"
    if "layouts_inv laid_out ly" "layout_of n ty ly = Inr (l, ly')"
    using that assms [of ty] laid_out_stable unfolding provides_def by blast
  show "laid_out ty l ly'" if "laid_out ty l ly" "lay_knows ly ly'"
    using that unfolding laid_out_def using layouts_knowledge.grows_trans by blast
  show "laid_out ty l ly" if "scalar_layout ty = Some l" using that by (rule laid_out_scalar)
  show "good_layout l" if "laid_out ty l ly" using that by (simp add: laid_out_def)
qed

lemma layout_of_provider: "layout_provider (layout_of n) laid_out"
proof (induction n)
  case 0
  show ?case by (rule provider_of_provides) (simp add: provides_panic)
next
  case (Suc n)
  show ?case by (rule provider_of_provides) (rule layout_of_provides [OF Suc])
qed

interpretation layouts: layout_provider "layout_of n" laid_out for n
  by (rule layout_of_provider)

section \<open>The states of a compilation\<close>

text \<open>The states a compilation passes through: the declarations as collected, a cap set by the driver, the interner as
  other parts fill it, and the layouts asked for so far.\<close>

inductive layouts_reachable :: "type_layouts \<Rightarrow> bool" where
  start: "declarations_ok (from_module_with_imports m ims ar) \<Longrightarrow> layouts_reachable (from_module_with_imports m ims ar)"
| cap: "layouts_reachable ly \<Longrightarrow> layouts_reachable (with_max_instantiations k ly)"
| interned: "layouts_reachable ly \<Longrightarrow> layouts_reachable (ly\<lparr>tl_arena := ar\<rparr>)"
| asked_struct: "layouts_reachable ly \<Longrightarrow> struct_info_of n name args ly = Inr (i, ly') \<Longrightarrow> layouts_reachable ly'"
| asked_enum: "layouts_reachable ly \<Longrightarrow> enum_info_of n name args ly = Inr (j, ly') \<Longrightarrow> layouts_reachable ly'"
| asked_type: "layouts_reachable ly \<Longrightarrow> layout_of n ty ly = Inr (l, ly') \<Longrightarrow> layouts_reachable ly'"

lemma layouts_reachable_inv: "layouts_reachable ly \<Longrightarrow> layouts_inv laid_out ly"
proof (induction rule: layouts_reachable.induct)
  case (start m ims ar)
  then show ?case by (simp add: layouts_inv_def) (simp add: from_module_with_imports_def Let_def)
next
  case (cap ly k)
  have "lay_knows ly (with_max_instantiations k ly)" by (simp add: lay_knows_def with_max_instantiations_def)
  then show ?case by (rule layouts.inv_extends [OF cap.IH]) (simp_all add: with_max_instantiations_def)
next
  case (interned ly ar)
  have "lay_knows ly (ly\<lparr>tl_arena := ar\<rparr>)" by (simp add: lay_knows_def)
  then show ?case by (rule layouts.inv_extends [OF interned.IH]) simp_all
next
  case (asked_struct ly n name args i ly')
  show ?case using layouts.struct_info_inv [OF asked_struct.hyps(2) [unfolded struct_info_of_def] asked_struct.IH] by blast
next
  case (asked_enum ly n name args j ly')
  show ?case using layouts.enum_info_inv [OF asked_enum.hyps(2) [unfolded enum_info_of_def] asked_enum.IH] by blast
next
  case (asked_type ly n ty l ly')
  show ?case using layouts.self_inv [OF asked_type.IH asked_type.hyps(2)] by blast
qed

text \<open>\<open>struct P<T> { a: u8, b: T, c: u8 }\<close> and \<open>enum O { N, C(P<i64>, u8) }\<close>\<close>

definition here :: span where "here = span_new_root 0 0"

definition pair_module :: module where
  "pair_module = Module None
    [ItemStruct (StructDecl ''P'' [GenericParam ''T'' KindType [] here]
       [FieldDecl ''a'' (TyPath [''u8''] here) False [] here, FieldDecl ''b'' (TyPath [''T''] here) False [] here,
        FieldDecl ''c'' (TyPath [''u8''] here) False [] here] [] [] [] False [] here),
     ItemEnum (EnumDecl ''O'' [] [EnumVariant ''N'' VariantUnit [] here,
       EnumVariant ''C'' (VariantTuple [TyGeneric [''P''] [TyPath [''i64''] here] here, TyPath [''u8''] here]) [] here] [] [] False [] here)] here"

lemma pair_module_reachable: "layouts_reachable (from_module pair_module arena_default)"
  unfolding from_module_def
  by (rule layouts_reachable.start)
    (auto simp: declarations_ok_def from_module_with_imports_def pair_module_def collect_decl_def qualify_def LIVE_FIELD_def split: if_splits)

lemma pair_struct_info:
  "case struct_info_of 3 ''P'' [TInt I64] (from_module pair_module arena_default) of Inl _ \<Rightarrow> False
   | Inr (i, _) \<Rightarrow> si_fields i ''b'' = Some (TInt I64, 0) \<and> si_fields i ''c'' = Some (TInt U8, 9) \<and> ly_size (si_layout i) = 16"
  by code_simp

lemma pair_enum_info:
  "case enum_info_of 5 ''O'' [] (from_module pair_module arena_default) of Inl _ \<Rightarrow> False
   | Inr (j, _) \<Rightarrow> ei_variants j ''C'' = Some [(TStruct ''P'' [TInt I64], 8), (TInt U8, 24)] \<and> ly_size (ei_layout j) = 32"
  by code_simp

section \<open>A type that grows in its own payload\<close>

text \<open>\<open>enum E<T> { N, C(E<(T, T)>) }\<close>\<close>

definition growing_enum :: enum_declaration where
  "growing_enum = EnumDecl ''E'' [GenericParam ''T'' KindType [] here]
    [EnumVariant ''N'' VariantUnit [] here,
     EnumVariant ''C'' (VariantTuple [TyGeneric [''E''] [TyTuple [TyPath [''T''] here, TyPath [''T''] here] here] here]) [] here]
    [] [] False [] here"

definition growing_module :: module where
  "growing_module = Module None [ItemEnum growing_enum] here"

primrec doubled :: "nat \<Rightarrow> type" where
  "doubled 0 = TInt I64"
| "doubled (Suc k) = TTuple [doubled k, doubled k]"

lemma doubled_written_free [simp]: "written_free (doubled k) = doubled k"
  by (induction k) simp_all

lemma doubled_inject [simp]: "doubled j = doubled k \<longleftrightarrow> j = k"
proof (induction j arbitrary: k)
  case 0
  then show ?case by (cases k) simp_all
next
  case (Suc j)
  then show ?case by (cases k) simp_all
qed

lemma doubled_substituted: "substitute_generics n stack s (doubled k) ar \<in> {None, Some (doubled k, ar)}"
proof (induction k arbitrary: n)
  case 0
  then show ?case by (cases n) (simp_all add: Let_def)
next
  case (Suc k)
  show ?case
  proof (cases n)
    case (Suc m)
    then show ?thesis using Suc.IH [of m] by (auto simp: Let_def wrapping_def)
  qed simp
qed

definition growing :: "nat \<Rightarrow> type_layouts \<Rightarrow> bool" where
  "growing k ly \<longleftrightarrow> tl_struct_decls ly ''E'' = None \<and> tl_enum_decls ly ''E'' = Some growing_enum \<and> tl_enum_cache ly = []
    \<and> 0 < tl_max_instantiations ly \<and> set (tl_enum_in_progress ly) \<subseteq> (\<lambda>j. (''E'', [doubled j])) ` {..<k}"

abbreviation growing_payload :: "expr ty" where
  "growing_payload \<equiv> TyGeneric [''E''] [TyTuple [TyPath [''T''] here, TyPath [''T''] here] here] here"

lemma growing_template:
  assumes "growing k ly"
  shows "resolve_ty_template [''T''] growing_payload ly = Inr (TEnum ''E'' [TTuple [TGeneric ''T'', TGeneric ''T'']], ly)"
  using assms by (simp add: growing_def path_key_def join_with_def applied_template_def named_template_def growing_enum_def not_lifetime_def
      lay_then_def lay_state_def lay_ok_def)

lemma growing_substitution:
  "lay_substitute n [''T'' \<mapsto> doubled k] (TEnum ''E'' [TTuple [TGeneric ''T'', TGeneric ''T'']]) ly
    \<in> {Inl OutOfDepth, Inr (TEnum ''E'' [doubled (Suc k)], ly)}"
proof -
  have var: "substitute_generics m [] [''T'' \<mapsto> doubled k] (TGeneric ''T'') ar \<in> {None, Some (doubled k, ar)}" for m ar
  proof (cases m)
    case (Suc i)
    have "\<not> type_eq (doubled k) (TGeneric ''T'')" by (cases k) (simp_all add: type_eq_def)
    then show ?thesis using doubled_substituted [of i "[''T'']" "[''T'' \<mapsto> doubled k]" k ar] Suc by (simp add: Let_def)
  qed simp
  have tuple: "substitute_generics m [] [''T'' \<mapsto> doubled k] (TTuple [TGeneric ''T'', TGeneric ''T'']) ar
      \<in> {None, Some (doubled (Suc k), ar)}" for m ar
  proof (cases m)
    case (Suc i)
    then show ?thesis using var [of i ar] by (auto simp: Let_def wrapping_def)
  qed simp
  show ?thesis
  proof (cases n)
    case 0
    then show ?thesis by (simp add: lay_substitute_def)
  next
    case (Suc i)
    then show ?thesis using tuple [of i "tl_arena ly"] by (auto simp: lay_substitute_def Let_def wrapping_def)
  qed
qed

lemma growing_step:
  assumes g: "growing k ly" and deeper: "\<And>ly. growing (Suc k) ly \<Longrightarrow> self (TEnum ''E'' [doubled (Suc k)]) ly = Inl OutOfDepth"
  shows "enum_info_with n self ''E'' [doubled k] ly = Inl OutOfDepth"
proof -
  let ?ly = "ly\<lparr>tl_enum_in_progress := (''E'', [doubled k]) # tl_enum_in_progress ly\<rparr>"
  have g': "growing (Suc k) ?ly" using g by (auto simp: growing_def)
  have gens: "generic_names (ed_generics growing_enum) = [''T'']"
    "substitutions_of (ed_generics growing_enum) [doubled k] = [''T'' \<mapsto> doubled k]"
    by (simp_all add: generic_names_def growing_enum_def substitutions_of_def)
  have field: "field_data n self (ed_generics growing_enum) [doubled k] growing_payload ?ly = Inl OutOfDepth"
    using growing_substitution [of n k ?ly] deeper [OF g']
    by (auto simp: field_data_def field_type_def gens lay_then_def growing_template [OF g'] simp del: resolve_ty_template.simps)
  have "enum_data n self ''E'' growing_enum [doubled k] ?ly = Inl OutOfDepth"
    using field by (simp add: enum_data_def growing_enum_def variant_tys_def lay_then_def lay_ok_def)
  moreover have "(''E'', [doubled k]) \<notin> set (tl_enum_in_progress ly)" using g by (auto simp: growing_def)
  ultimately show ?thesis using g by (simp add: growing_def enum_info_with_eq instantiation_key_of_def)
qed

lemma growing_without_end: "growing k ly \<Longrightarrow> enum_info_with n (layout_of n) ''E'' [doubled k] ly = Inl OutOfDepth"
proof (induction n arbitrary: k ly)
  case (0 k ly)
  show ?case by (rule growing_step [OF 0]) (simp add: lay_panic_def)
next
  case (Suc n)
  show ?case by (rule growing_step [OF Suc.prems]) (simp add: lay_then_def Suc.IH del: doubled.simps)
qed

section \<open>What the layouts promise\<close>



text \<open>C12: finding the layout of a type leaves the declarations, the instantiations in progress and every cached layout
  as they were, and in every later state the same type has the same layout and finding it changes nothing.\<close>

theorem layouts_stable:
  assumes "layout_of n ty ly = Inr (l, ly1)"
  shows "lay_extends ly ly1 \<and> (\<forall>ly2. lay_knows ly1 ly2 \<longrightarrow> layout_of n ty ly2 = Inr (l, ly2))"
  using keepsD [OF layouts.self_keeps assms] stableD [OF layouts.self_stable assms] by blast

theorem layouts_stable_witness:
  "\<exists>l ly1. layout_of 6 (TEnum ''O'' []) (from_module pair_module arena_default) = Inr (l, ly1)
    \<and> layout_of 6 (TEnum ''O'' []) ly1 = Inr (l, ly1)"
proof -
  from pair_enum_info obtain j ly1 where j: "enum_info_of 5 ''O'' [] (from_module pair_module arena_default) = Inr (j, ly1)"
    by (auto split: sum.splits)
  have "layout_of (Suc 5) (TEnum ''O'' []) (from_module pair_module arena_default) = Inr (ei_layout j, ly1)"
    using j unfolding layout_of.simps by (simp add: lay_then_def enum_info_of_def lay_ok_def)
  then have l: "layout_of 6 (TEnum ''O'' []) (from_module pair_module arena_default) = Inr (ei_layout j, ly1)" by simp
  show ?thesis using layouts_stable [OF l] layouts_knowledge.grows_refl l by blast
qed

text \<open>C37: the cap on instantiations, whatever it is, does not stop the layout of an enum whose payload is an
  instantiation of itself with a larger argument: it is compared with the instantiations that are finished, and none
  ever is, so that no depth of the recursion is enough.\<close>

theorem cap_misses_growing_types:
  "enum_info_of n ''E'' [TInt I64] (with_max_instantiations (Suc cap) (from_module growing_module ar)) = Inl OutOfDepth"
proof -
  have "growing 0 (with_max_instantiations (Suc cap) (from_module growing_module ar))"
    by (simp add: growing_def with_max_instantiations_def from_module_def from_module_with_imports_def growing_module_def
        collect_decl_def qualify_def growing_enum_def)
  then show ?thesis using growing_without_end [of 0 _ n] by (simp add: enum_info_of_def)
qed

end
