(* ===== verification/Quotes.thy ===== *)
theory Quotes
  imports Walk ParseTotal TypeUnify
begin

text \<open>
  Code templates: where \<open>quote\<close> takes its splices, \<open>splice_sites\<close> of \<open>compiler/paco-mir/src/comptime.rs\<close>, and how the
  compile-time machine puts values there, \<open>compiler/paco-comptime/src/quote.rs\<close>.  A template's visitor is tied by a depth
  as in \<open>Walk\<close>.  What \<open>Sites\<close> pushes is returned as a list; the state of \<open>Splicer\<close> is its error.  The text
  of an expression, which the formatter gives, and a text in Rust's debug form are parameters of \<open>quote_join\<close>;
  joined code is read by the lexer and the parser of \<open>Lexer\<close> and \<open>ParseItem\<close>.
\<close>

type_synonym code = "(expr, block) quote_body"
type_synonym site = "span \<times> expr"

section \<open>The splice sites of a template\<close>

fun ty_sites :: "expr ty \<Rightarrow> site list" where
  "ty_sites (TySplice inner sp) = [(sp, inner)]"
| "ty_sites (TyGeneric _ args _) = concat (map ty_sites args)"
| "ty_sites (TyTuple args _) = concat (map ty_sites args)"
| "ty_sites (TySlice inner _) = ty_sites inner"
| "ty_sites (TyBorrow _ _ inner _) = ty_sites inner"
| "ty_sites (TyRawPointer _ inner _) = ty_sites inner"
| "ty_sites (TyFn params return_ty _ _ _) = concat (map ty_sites params) @ (case return_ty of None \<Rightarrow> [] | Some t \<Rightarrow> ty_sites t)"
| "ty_sites _ = []"

definition option_sites :: "('a \<Rightarrow> site list) \<Rightarrow> 'a option \<Rightarrow> site list" where
  "option_sites f part = (case part of None \<Rightarrow> [] | Some x \<Rightarrow> f x)"

record sites =
  st_item :: "an_item \<Rightarrow> site list"
  st_expr :: "expr \<Rightarrow> site list"

definition block_stmt_sites :: "sites \<Rightarrow> a_stmt \<Rightarrow> site list" where
  "block_stmt_sites self st = (case st of
     StmtLet l \<Rightarrow> option_sites ty_sites (let_ty l) @ option_sites (st_expr self) (let_value l)
   | StmtExpr e \<Rightarrow> st_expr self e
   | StmtItem it \<Rightarrow> st_item self it)"

definition block_sites :: "sites \<Rightarrow> block \<Rightarrow> site list" where
  "block_sites self b = concat (map (block_stmt_sites self) (blk_stmts b)) @ option_sites (st_expr self) (blk_tail b)"

definition function_sites :: "sites \<Rightarrow> a_fn_decl \<Rightarrow> site list" where
  "function_sites self f = option_sites (\<lambda>name. [(expr_span name, name)]) (fn_name_splice f)
     @ concat (map (\<lambda>p. ty_sites (prm_ty p)) (fn_params f)) @ option_sites ty_sites (fn_return_ty f) @ block_sites self (fn_body f)"

definition walk_item_sites :: "sites \<Rightarrow> an_item \<Rightarrow> site list" where
  "walk_item_sites self it = (case it of
     ItemFn f \<Rightarrow> function_sites self f
   | ItemMethods b \<Rightarrow> concat (map (function_sites self) (mb_methods b))
   | ItemStruct d \<Rightarrow> concat (map (function_sites self) (sd_methods d))
   | ItemEnum d \<Rightarrow> concat (map (function_sites self) (ed_methods d))
   | _ \<Rightarrow> [])"

definition item_sites :: "sites \<Rightarrow> an_item \<Rightarrow> site list" where
  "item_sites self it = (case it of ItemMethods b \<Rightarrow> ty_sites (mb_target b) | _ \<Rightarrow> []) @ walk_item_sites self it"

text \<open>\<open>children\<close>: the direct parts of an expression.\<close>

definition expr_children :: "expr \<Rightarrow> expr list \<times> block list" where
  "expr_children e = (case e of
     ELiteral _ _ \<Rightarrow> ([], [])
   | EIdent _ _ \<Rightarrow> ([], [])
   | EContinue _ \<Rightarrow> ([], [])
   | EQuote _ _ \<Rightarrow> ([], [])
   | EBlock b \<Rightarrow> ([], [b])
   | EUnsafe b _ \<Rightarrow> ([], [b])
   | EIf c t els _ \<Rightarrow> (c # (case els of None \<Rightarrow> [] | Some x \<Rightarrow> [x]), [t])
   | ELoop b _ \<Rightarrow> ([], [b])
   | EWhile c b _ \<Rightarrow> ([c], [b])
   | EMatch x arms _ \<Rightarrow> (x # concat (map (\<lambda>arm. (case arm_guard arm of None \<Rightarrow> [] | Some g \<Rightarrow> [g]) @ [arm_body arm]) arms), [])
   | ECall f _ args _ \<Rightarrow> (f # args, [])
   | EMethodCall r _ args _ \<Rightarrow> (r # args, [])
   | EAssociatedCall _ _ args _ \<Rightarrow> (args, [])
   | EBinary _ l r _ \<Rightarrow> ([l, r], [])
   | EAssign t x _ \<Rightarrow> ([t, x], [])
   | EIndex b ix _ \<Rightarrow> (b # ix, [])
   | EReturn x _ \<Rightarrow> ((case x of None \<Rightarrow> [] | Some x \<Rightarrow> [x]), [])
   | EBreak x _ \<Rightarrow> ((case x of None \<Rightarrow> [] | Some x \<Rightarrow> [x]), [])
   | EUnary _ x _ \<Rightarrow> ([x], [])
   | EField x _ _ \<Rightarrow> ([x], [])
   | ESpawn x _ \<Rightarrow> ([x], [])
   | EComptime x _ \<Rightarrow> ([x], [])
   | ESplice x _ \<Rightarrow> ([x], [])
   | EClosure _ x _ \<Rightarrow> ([x], [])
   | EYield x _ \<Rightarrow> ([x], [])
   | EBorrow _ x _ \<Rightarrow> ([x], [])
   | ETry x _ \<Rightarrow> ([x], [])
   | ECast x _ _ \<Rightarrow> ([x], [])
   | ESelect arms dflt _ \<Rightarrow> (map sa_operation arms, map sa_body arms @ (case dflt of None \<Rightarrow> [] | Some b \<Rightarrow> [b]))
   | EStructLiteral _ fs _ \<Rightarrow> (map snd fs, [])
   | ETuple items _ \<Rightarrow> (items, []))"

definition names_splice_field :: "expr \<Rightarrow> bool" where
  "names_splice_field callee = (case callee of EIdent name _ \<Rightarrow> name = ''splice_field'' | _ \<Rightarrow> False)"

definition is_splice_field :: "expr \<Rightarrow> expr list \<Rightarrow> bool" where
  "is_splice_field callee args \<longleftrightarrow> names_splice_field callee \<and> length args = 2"

definition expr_ty_sites :: "expr \<Rightarrow> site list" where
  "expr_ty_sites e = (case e of
     EAssociatedCall t _ _ _ \<Rightarrow> ty_sites t
   | EStructLiteral t _ _ \<Rightarrow> ty_sites t
   | ECast _ t _ \<Rightarrow> ty_sites t
   | ECall _ ts _ _ \<Rightarrow> concat (map ty_sites ts)
   | EClosure ps _ _ \<Rightarrow> concat (map ty_sites (List.map_filter cp_ty ps))
   | _ \<Rightarrow> [])"

definition children_sites :: "sites \<Rightarrow> expr \<Rightarrow> site list" where
  "children_sites self e = (case expr_children e of
     (exprs, blocks) \<Rightarrow> concat (map (st_expr self) exprs) @ concat (map (block_sites self) blocks))"

definition expr_sites :: "sites \<Rightarrow> expr \<Rightarrow> site list" where
  "expr_sites self e = (case e of
     EQuote _ _ \<Rightarrow> []
   | ESplice inner sp \<Rightarrow> [(sp, inner)]
   | ECall callee type_args args sp \<Rightarrow>
       if is_splice_field callee args
       then concat (map ty_sites type_args) @ st_expr self (args ! 0) @ [(sp, args ! 1)]
       else expr_ty_sites e @ children_sites self e
   | _ \<Rightarrow> expr_ty_sites e @ children_sites self e)"

primrec sites_at :: "nat \<Rightarrow> sites" where
  "sites_at 0 = \<lparr>st_item = (\<lambda>_. []), st_expr = (\<lambda>_. [])\<rparr>"
| "sites_at (Suc n) = \<lparr>st_item = item_sites (sites_at n), st_expr = expr_sites (sites_at n)\<rparr>"

definition splice_sites :: "code \<Rightarrow> site list" where
  "splice_sites body = (case body of
     QuoteItem it \<Rightarrow> st_item (sites_at (quote_size body)) it
   | QuoteExpr e \<Rightarrow> st_expr (sites_at (quote_size body)) e)"

section \<open>Types as syntax\<close>

datatype splice =
    SpliceType type
  | SpliceCode code
  | SpliceString string
  | SpliceInt int
  | SpliceFloat f64
  | SpliceBool bool
  | SpliceChar rchar

text \<open>\<open>name.split("::")\<close>\<close>

fun split_path :: "string \<Rightarrow> string \<Rightarrow> string list" where
  "split_path acc [] = [acc]"
| "split_path acc [c] = [acc @ [c]]"
| "split_path acc (c # d # s) = (if c = CHR '':'' \<and> d = CHR '':'' then acc # split_path [] s else split_path (acc @ [c]) (d # s))"

fun type_to_ty :: "dim_names \<Rightarrow> arena \<Rightarrow> span \<Rightarrow> type \<Rightarrow> expr ty" where
  "type_to_ty names ar sp (TStruct name args) = (if args = [] then TyPath (split_path [] name) sp
     else TyGeneric (split_path [] name) (map (type_to_ty names ar sp) args) sp)"
| "type_to_ty names ar sp (TEnum name args) = (if args = [] then TyPath (split_path [] name) sp
     else TyGeneric (split_path [] name) (map (type_to_ty names ar sp) args) sp)"
| "type_to_ty names ar sp (TBorrow m t) = TyBorrow m None (type_to_ty names ar sp t) sp"
| "type_to_ty names ar sp (TRawPointer m t) = TyRawPointer m (type_to_ty names ar sp t) sp"
| "type_to_ty names ar sp (TSlice t) = TySlice (type_to_ty names ar sp t) sp"
| "type_to_ty names ar sp (TTuple items) = TyTuple (map (type_to_ty names ar sp) items) sp"
| "type_to_ty names ar sp (TFn params res abi u) =
    TyFn (map (type_to_ty names ar sp) params) (Some (type_to_ty names ar sp res)) abi u sp"
| "type_to_ty names ar sp TUnit = TyTuple [] sp"
| "type_to_ty names ar sp TNever = TyNever sp"
| "type_to_ty names ar sp (TGeneric name) = TyPath [name] sp"
| "type_to_ty names ar sp (TTypeValue _) = TyPath [''type''] sp"
| "type_to_ty names ar sp TUnknown = TyInfer sp"
| "type_to_ty names ar sp TError = TyInfer sp"
| "type_to_ty names ar sp other = TyPath [type_name names ar other] sp"

definition named_ty :: "string list \<Rightarrow> string \<Rightarrow> type" where
  "named_ty enums name =
    (if name = ''i8'' then TInt I8
     else if name = ''i16'' then TInt I16
     else if name = ''i32'' then TInt I32
     else if name = ''i64'' then TInt I64
     else if name = ''u8'' \<or> name = ''byte'' then TInt U8
     else if name = ''u16'' then TInt U16
     else if name = ''u32'' then TInt U32
     else if name = ''u64'' then TInt U64
     else (case float_width_from_name name of
         Some w \<Rightarrow> TFloat w
       | None \<Rightarrow>
         if name = ''bool'' then TBool
         else if name = ''char'' then TChar
         else if name = ''string'' then TString
         else if name \<in> set enums then TEnum name []
         else TStruct name []))"

fun resolve_ty :: "string list \<Rightarrow> expr ty \<Rightarrow> type" where
  "resolve_ty enums (TyPath path _) = (case path of [name] \<Rightarrow> named_ty enums name | _ \<Rightarrow> TUnknown)"
| "resolve_ty enums (TyBorrow m _ t _) = TBorrow m (resolve_ty enums t)"
| "resolve_ty enums (TyRawPointer m t _) = TRawPointer m (resolve_ty enums t)"
| "resolve_ty enums (TySlice t _) = TSlice (resolve_ty enums t)"
| "resolve_ty enums _ = TUnknown"

section \<open>Substitution\<close>

lemma each_mut_cong [fundef_cong]:
  "xs = ys \<Longrightarrow> (\<And>x s. x \<in> set ys \<Longrightarrow> f x s = g x s) \<Longrightarrow> each_mut f xs s = each_mut g ys s"
proof (induction ys arbitrary: xs s)
  case (Cons y ys)
  then show ?case by (simp split: prod.split)
qed simp

lemma if_some_mut_cong [fundef_cong]:
  "p = q \<Longrightarrow> (\<And>x s. q = Some x \<Longrightarrow> f x s = g x s) \<Longrightarrow> if_some_mut f p s = if_some_mut g q s"
  by (cases q) (simp_all add: if_some_mut_def)

type_synonym splices = "(span \<times> splice) list"

record splicer =
  spl_names :: dim_names
  spl_arena :: arena
  spl_values :: splices

definition not_evaluated :: string where
  "not_evaluated = ''a `quote` splice was not evaluated''"

text \<open>\<open>value\<close> notes a missing value unless there is an error already.\<close>

definition missing_value :: "string option \<Rightarrow> string option" where
  "missing_value err = (if err = None then Some not_evaluated else err)"

fun splice_ty :: "splicer \<Rightarrow> expr ty \<Rightarrow> string option \<Rightarrow> expr ty \<times> string option" where
  "splice_ty sp (TySplice e span) err = (case map_of (spl_values sp) span of
     Some (SpliceType t) \<Rightarrow> (type_to_ty (spl_names sp) (spl_arena sp) span t, err)
   | Some _ \<Rightarrow> (TySplice e span, Some ''a type-position splice must evaluate to a type value'')
   | None \<Rightarrow> (TySplice e span, missing_value err))"
| "splice_ty sp (TyGeneric path args s) err = (let (args, err) = each_mut (splice_ty sp) args err in (TyGeneric path args s, err))"
| "splice_ty sp (TyTuple args s) err = (let (args, err) = each_mut (splice_ty sp) args err in (TyTuple args s, err))"
| "splice_ty sp (TySlice t s) err = (let (t, err) = splice_ty sp t err in (TySlice t s, err))"
| "splice_ty sp (TyBorrow m l t s) err = (let (t, err) = splice_ty sp t err in (TyBorrow m l t s, err))"
| "splice_ty sp (TyRawPointer m t s) err = (let (t, err) = splice_ty sp t err in (TyRawPointer m t s, err))"
| "splice_ty sp (TyFn params res abi u s) err = (let (params, err) = each_mut (splice_ty sp) params err;
     (res, err) = if_some_mut (splice_ty sp) res err in (TyFn params res abi u s, err))"
| "splice_ty sp t err = (t, err)"

type_synonym splicing = "string option mut_visitor"

definition splice_stmt :: "splicer \<Rightarrow> splicing \<Rightarrow> a_stmt \<Rightarrow> string option \<Rightarrow> a_stmt \<times> string option" where
  "splice_stmt sp self st err = (case st of
     StmtLet (LetStmt mt p t val s) \<Rightarrow> (let (t, err) = if_some_mut (splice_ty sp) t err;
       (val, err) = if_some_mut (visit_expr_mut self) val err in (StmtLet (LetStmt mt p t val s), err))
   | StmtExpr e \<Rightarrow> (let (e, err) = visit_expr_mut self e err in (StmtExpr e, err))
   | StmtItem it \<Rightarrow> (let (it, err) = visit_item_mut self it err in (StmtItem it, err)))"

definition splice_block :: "splicer \<Rightarrow> splicing \<Rightarrow> block \<Rightarrow> string option \<Rightarrow> block \<times> string option" where
  "splice_block sp self b err = (case b of
     Block stmts tail s \<Rightarrow> (let (stmts, err) = each_mut (splice_stmt sp self) stmts err;
       (tail, err) = if_some_mut (visit_expr_mut self) tail err in (Block stmts tail s, err)))"

definition splice_param :: "splicer \<Rightarrow> expr param \<Rightarrow> string option \<Rightarrow> expr param \<times> string option" where
  "splice_param sp p err = (case p of Param pat t s \<Rightarrow> (let (t, err) = splice_ty sp t err in (Param pat t s, err)))"

definition splice_name :: "splicer \<Rightarrow> string \<Rightarrow> expr option \<Rightarrow> string option \<Rightarrow> string \<times> string option" where
  "splice_name sp name name_splice err = (case name_splice of
     None \<Rightarrow> (name, err)
   | Some e \<Rightarrow> (case map_of (spl_values sp) (expr_span e) of
       Some (SpliceString s) \<Rightarrow> (s, err)
     | Some _ \<Rightarrow> (name, Some ''a function-name splice must evaluate to a string'')
     | None \<Rightarrow> (name, missing_value err)))"

definition splice_function :: "splicer \<Rightarrow> splicing \<Rightarrow> a_fn_decl \<Rightarrow> string option \<Rightarrow> a_fn_decl \<times> string option" where
  "splice_function sp self f err = (case f of
     FnDecl nm ns gs ps rt body pb un itr ct ab attrs s \<Rightarrow>
       (let (nm, err) = splice_name sp nm ns err;
            (ps, err) = each_mut (splice_param sp) ps err;
            (rt, err) = if_some_mut (splice_ty sp) rt err;
            (body, err) = splice_block sp self body err
        in (FnDecl nm None gs ps rt body pb un itr ct ab attrs s, err)))"

definition splice_item :: "splicer \<Rightarrow> splicing \<Rightarrow> an_item \<Rightarrow> string option \<Rightarrow> an_item \<times> string option" where
  "splice_item sp self it err = (case it of
     ItemMethods (MethodsBlock gs t ms cs s) \<Rightarrow> (let (t, err) = splice_ty sp t err;
       (ms, err) = each_mut (splice_function sp self) ms err in (ItemMethods (MethodsBlock gs t ms cs s), err))
   | ItemFn f \<Rightarrow> (let (f, err) = splice_function sp self f err in (ItemFn f, err))
   | ItemStruct (StructDecl nm gs fs ms cs ats pb attrs s) \<Rightarrow>
       (let (ms, err) = each_mut (splice_function sp self) ms err in (ItemStruct (StructDecl nm gs fs ms cs ats pb attrs s), err))
   | ItemEnum (EnumDecl nm gs vs ms cs pb attrs s) \<Rightarrow>
       (let (ms, err) = each_mut (splice_function sp self) ms err in (ItemEnum (EnumDecl nm gs vs ms cs pb attrs s), err))
   | _ \<Rightarrow> (it, err))"

definition splice_value :: "splicer \<Rightarrow> splice \<Rightarrow> span \<Rightarrow> string + expr" where
  "splice_value sp v span = (case v of
     SpliceString x \<Rightarrow> Inr (ELiteral (LitString x) span)
   | SpliceInt x \<Rightarrow> Inr (ELiteral (LitInt x) span)
   | SpliceFloat x \<Rightarrow> Inr (ELiteral (LitFloat x) span)
   | SpliceBool x \<Rightarrow> Inr (ELiteral (LitBool x) span)
   | SpliceChar x \<Rightarrow> Inr (ELiteral (LitChar x) span)
   | SpliceCode (QuoteExpr e) \<Rightarrow> Inr e
   | SpliceCode (QuoteItem _) \<Rightarrow> Inl ''cannot splice an item-shaped `Code` into an expression position''
   | SpliceType t \<Rightarrow> Inl (''cannot splice the type `'' @ type_name (spl_names sp) (spl_arena sp) t @ ''` into an expression position''))"

text \<open>The types an expression writes.\<close>

definition splice_closure_param :: "splicer \<Rightarrow> expr closure_param \<Rightarrow> string option \<Rightarrow> expr closure_param \<times> string option" where
  "splice_closure_param sp p err = (case p of
     ClosureParam pat t s \<Rightarrow> (let (t, err) = if_some_mut (splice_ty sp) t err in (ClosureParam pat t s, err)))"

definition splice_expr_tys :: "splicer \<Rightarrow> expr \<Rightarrow> string option \<Rightarrow> expr \<times> string option" where
  "splice_expr_tys sp e err = (case e of
     EAssociatedCall t nm args s \<Rightarrow> (let (t, err) = splice_ty sp t err in (EAssociatedCall t nm args s, err))
   | EStructLiteral t fs s \<Rightarrow> (let (t, err) = splice_ty sp t err in (EStructLiteral t fs s, err))
   | ECast x t s \<Rightarrow> (let (t, err) = splice_ty sp t err in (ECast x t s, err))
   | ECall f ts args s \<Rightarrow> (let (ts, err) = each_mut (splice_ty sp) ts err in (ECall f ts args s, err))
   | EClosure ps b s \<Rightarrow> (let (ps, err) = each_mut (splice_closure_param sp) ps err in (EClosure ps b s, err))
   | _ \<Rightarrow> (e, err))"

definition splice_arm :: "splicer \<Rightarrow> splicing \<Rightarrow> (expr, block) select_arm \<Rightarrow> string option \<Rightarrow> (expr, block) select_arm \<times> string option" where
  "splice_arm sp self arm err = (case arm of
     SelectArm op b s \<Rightarrow> (let (op, err) = visit_expr_mut self op err; (b, err) = splice_block sp self b err in (SelectArm op b s, err)))"

definition splice_parts :: "splicer \<Rightarrow> splicing \<Rightarrow> expr \<Rightarrow> string option \<Rightarrow> expr \<times> string option" where
  "splice_parts sp self e err = (case e of
     EBlock b \<Rightarrow> (let (b, err) = splice_block sp self b err in (EBlock b, err))
   | EUnsafe b s \<Rightarrow> (let (b, err) = splice_block sp self b err in (EUnsafe b s, err))
   | ELoop b s \<Rightarrow> (let (b, err) = splice_block sp self b err in (ELoop b s, err))
   | EWhile c b s \<Rightarrow> (let (c, err) = visit_expr_mut self c err; (b, err) = splice_block sp self b err in (EWhile c b s, err))
   | EIf c t els s \<Rightarrow> (let (c, err) = visit_expr_mut self c err; (t, err) = splice_block sp self t err;
       (els, err) = if_some_mut (visit_expr_mut self) els err in (EIf c t els s, err))
   | ESelect arms dflt s \<Rightarrow> (let (arms, err) = each_mut (splice_arm sp self) arms err;
       (dflt, err) = if_some_mut (splice_block sp self) dflt err in (ESelect arms dflt s, err))
   | _ \<Rightarrow> walk_expr_mut self e err)"

definition splice_named_field :: "splicer \<Rightarrow> splicing \<Rightarrow> expr \<Rightarrow> expr list \<Rightarrow> span \<Rightarrow> string option \<Rightarrow> expr \<times> string option" where
  "splice_named_field sp self e args span err = (let (base, err) = visit_expr_mut self (args ! 0) err in
     (case map_of (spl_values sp) span of
        Some (SpliceString field) \<Rightarrow> (EField base field span, err)
      | Some _ \<Rightarrow> (e, Some ''an identifier-position splice must evaluate to a string'')
      | None \<Rightarrow> (e, missing_value err)))"

definition splice_open :: "splicer \<Rightarrow> splicing \<Rightarrow> expr \<Rightarrow> string option \<Rightarrow> expr \<times> string option" where
  "splice_open sp self e err = (case e of
     EQuote _ _ \<Rightarrow> (e, err)
   | ESplice _ span \<Rightarrow> (case map_of (spl_values sp) span of
       None \<Rightarrow> (e, missing_value err)
     | Some v \<Rightarrow> (case splice_value sp v span of Inr x \<Rightarrow> (x, err) | Inl msg \<Rightarrow> (e, Some msg)))
   | ECall callee _ args span \<Rightarrow>
       if is_splice_field callee args then splice_named_field sp self e args span err
       else (let (e, err) = splice_expr_tys sp e err in splice_parts sp self e err)
   | _ \<Rightarrow> (let (e, err) = splice_expr_tys sp e err in splice_parts sp self e err))"

definition splice_into_expr :: "splicer \<Rightarrow> splicing \<Rightarrow> expr \<Rightarrow> string option \<Rightarrow> expr \<times> string option" where
  "splice_into_expr sp self e err = (if err \<noteq> None then (e, err) else splice_open sp self e err)"

definition splicing :: "splicer \<Rightarrow> splicing \<Rightarrow> splicing" where
  "splicing sp self = \<lparr>visit_item_mut = splice_item sp self, visit_expr_mut = splice_into_expr sp self\<rparr>"

definition substitute :: "splicer \<Rightarrow> code \<Rightarrow> string + code" where
  "substitute sp template = (let v = knot_mut (splicing sp) (quote_size template) in
     (case template of
        QuoteItem it \<Rightarrow> (case visit_item_mut v it None of (it, None) \<Rightarrow> Inr (QuoteItem it) | (_, Some msg) \<Rightarrow> Inl msg)
      | QuoteExpr e \<Rightarrow> (case visit_expr_mut v e None of (e, None) \<Rightarrow> Inr (QuoteExpr e) | (_, Some msg) \<Rightarrow> Inl msg)))"

section \<open>Rendering and joining code\<close>

definition quote_render :: "(an_item \<Rightarrow> string) \<Rightarrow> (expr \<Rightarrow> string) \<Rightarrow> code \<Rightarrow> string" where
  "quote_render format_item format_expr c = (case c of QuoteItem it \<Rightarrow> format_item it | QuoteExpr e \<Rightarrow> format_expr e)"

definition ty_path_name :: "expr ty \<Rightarrow> string option" where
  "ty_path_name t = (case t of
     TyPath path _ \<Rightarrow> Some (join_with ''::'' path)
   | TyGeneric path _ _ \<Rightarrow> Some (join_with ''::'' path)
   | _ \<Rightarrow> None)"

fun merge_methods :: "(expr, block) methods_block \<Rightarrow> code list \<Rightarrow> string + (expr, block) methods_block" where
  "merge_methods merged [] = Inr merged"
| "merge_methods merged (piece # pieces) = (case piece of
     QuoteItem (ItemMethods b) \<Rightarrow>
       if ty_path_name (mb_target b) \<noteq> ty_path_name (mb_target merged)
       then Inl ''Code::join can only merge `methods` blocks for the same type''
       else merge_methods (MethodsBlock (mb_generics merged) (mb_target merged) (mb_methods merged @ mb_methods b)
         (mb_consts merged @ mb_consts b) (mb_span merged)) pieces
   | _ \<Rightarrow> Inl ''Code::join cannot mix `methods` blocks with other `Code`'')"

fun render_pieces :: "(expr \<Rightarrow> string) \<Rightarrow> code list \<Rightarrow> string + string list" where
  "render_pieces format_expr [] = Inr []"
| "render_pieces format_expr (piece # pieces) = (case piece of
     QuoteExpr e \<Rightarrow> (case render_pieces format_expr pieces of Inl msg \<Rightarrow> Inl msg | Inr texts \<Rightarrow> Inr (format_expr e # texts))
   | QuoteItem _ \<Rightarrow> Inl ''Code::join only supports expression-shaped `Code`'')"

text \<open>\<open>wrapped_code\<close> is the function \<open>join\<close> wraps around the code it joined; \<open>read_module\<close> lexes and parses it in a
  source map and a reporter of its own.  \<open>debug\<close> writes a text as \<open>{:?}\<close> does.\<close>

definition wrapped_code :: "string \<Rightarrow> string" where
  "wrapped_code joined = ''fn __code_join__() { '' @ joined @ '' }''"

definition read_module :: "string \<Rightarrow> module ParserState.outcome \<times> reporter" where
  "read_module wrapped = (let (file, sources) = add_file source_map_new ''<Code::join>'' wrapped;
     (tokens, reporter) = lex (case source sources file of Some text \<Rightarrow> text | None \<Rightarrow> []) file reporter_new
     in parse_module tokens reporter)"

definition parse_joined :: "(string \<Rightarrow> string) \<Rightarrow> string \<Rightarrow> string + code" where
  "parse_joined debug joined = (case read_module (wrapped_code joined) of
     (POk m, reporter) \<Rightarrow>
       if has_errors reporter then Inl (''Code::join produced invalid Paco syntax: '' @ debug joined)
       else (case rev (mod_items m) of
         ItemFn f # _ \<Rightarrow> (case blk_tail (fn_body f) of
             Some tail \<Rightarrow> Inr (QuoteExpr tail)
           | None \<Rightarrow> Inl ''Code::join produced an empty expression'')
       | _ \<Rightarrow> Inl ''Code::join failed to parse its joined fragments'')
   | _ \<Rightarrow> Inl (''Code::join produced invalid Paco syntax: '' @ debug joined))"

definition quote_join :: "(expr \<Rightarrow> string) \<Rightarrow> (string \<Rightarrow> string) \<Rightarrow> code list \<Rightarrow> string \<Rightarrow> string + code" where
  "quote_join format_expr debug pieces separator = (case pieces of
     QuoteItem (ItemMethods first) # rest \<Rightarrow>
       (case merge_methods first rest of Inl msg \<Rightarrow> Inl msg | Inr merged \<Rightarrow> Inr (QuoteItem (ItemMethods merged)))
   | _ \<Rightarrow> (case render_pieces format_expr pieces of
       Inl msg \<Rightarrow> Inl msg
     | Inr texts \<Rightarrow> parse_joined debug (join_with separator texts)))"

text \<open>Reading the wrapped code always ends, with a module or with an error that was reported, so the branches of
  \<open>parse_joined\<close> are those of the source.\<close>

lemma read_module_returns:
  "(\<exists>m r. read_module text = (POk m, r)) \<or> (\<exists>r. read_module text = (PErr, r) \<and> has_errors r)"
proof -
  obtain id sources where added: "add_file source_map_new ''<Code::join>'' text = (id, sources)" by fastforce
  obtain tokens r where lexed: "lex (case source sources id of Some t \<Rightarrow> t | None \<Rightarrow> []) id reporter_new = (tokens, r)" by fastforce
  have "tokens \<noteq> [] \<and> tok_kind (last tokens) = TkEof"
    using lex_ends [of "case source sources id of Some t \<Rightarrow> t | None \<Rightarrow> []" id reporter_new] lexed by simp
  then show ?thesis using parse_module_shape [of tokens r] added lexed
    by (auto simp: read_module_def split: prod.splits ParserState.outcome.splits)
qed

section \<open>Sites and splices agree\<close>

text \<open>\<open>treats sp r x S P\<close>: the substitution \<open>r\<close> of the part \<open>x\<close>, whose sites are in \<open>S\<close>, misses no value when all
  sites have one, keeps an error, relates \<open>x\<close> to its result by \<open>P\<close> when there is none, and changes nothing where there are
  no sites.\<close>

definition covered :: "splicer \<Rightarrow> site set \<Rightarrow> bool" where
  "covered sp S \<longleftrightarrow> (\<forall>x \<in> S. map_of (spl_values sp) (fst x) \<noteq> None)"

definition treats :: "splicer \<Rightarrow> (string option \<Rightarrow> 'a \<times> string option) \<Rightarrow> 'a \<Rightarrow> site set \<Rightarrow> ('a \<Rightarrow> 'a \<Rightarrow> bool) \<Rightarrow> bool" where
  "treats sp r x S P \<longleftrightarrow> (\<forall>err y err'. r err = (y, err') \<longrightarrow>
     (covered sp S \<longrightarrow> err \<noteq> Some not_evaluated \<longrightarrow> err' \<noteq> Some not_evaluated) \<and>
     (err' = None \<longrightarrow> err = None \<and> P x y) \<and> (S = {} \<longrightarrow> err = None \<longrightarrow> y = x \<and> err' = None))"

lemma covered_mono: "covered sp S \<Longrightarrow> T \<subseteq> S \<Longrightarrow> covered sp T"
  by (auto simp: covered_def)

lemma treatsD:
  assumes "treats sp r x S P" "r err = (y, err')"
  shows "covered sp S \<Longrightarrow> err \<noteq> Some not_evaluated \<Longrightarrow> err' \<noteq> Some not_evaluated" "err' = None \<Longrightarrow> err = None" "err' = None \<Longrightarrow> P x y"
    "S = {} \<Longrightarrow> err = None \<Longrightarrow> y = x" "S = {} \<Longrightarrow> err = None \<Longrightarrow> err' = None"
  using assms by (auto simp: treats_def)

lemma treats_0: "(\<And>err. r err = (x, err)) \<Longrightarrow> P x x \<Longrightarrow> treats sp r x S P"
  by (simp add: treats_def)

lemma treats_1:
  assumes "treats sp r1 x1 S1 P1" "\<And>err. r err = (let (y1, err) = r1 err in (C y1, err))"
    "S1 \<subseteq> S" "\<And>y1. P1 x1 y1 \<Longrightarrow> P (C x1) (C y1)"
  shows "treats sp r (C x1) S P"
  unfolding treats_def
proof (intro allI impI)
  fix err y err' assume "r err = (y, err')"
  then obtain y1 where r1: "r1 err = (y1, err')" and y: "y = C y1" using assms(2) by (auto split: prod.splits)
  show "(covered sp S \<longrightarrow> err \<noteq> Some not_evaluated \<longrightarrow> err' \<noteq> Some not_evaluated) \<and>
     (err' = None \<longrightarrow> err = None \<and> P (C x1) y) \<and> (S = {} \<longrightarrow> err = None \<longrightarrow> y = C x1 \<and> err' = None)"
    using treatsD [OF assms(1) r1] assms(3,4) y covered_mono [of sp S S1] by auto
qed

lemma treats_pair:
  assumes "treats sp r1 x1 S1 P1" "treats sp r2 x2 S2 P2"
  shows "treats sp (\<lambda>err. let (y1, err) = r1 err; (y2, err) = r2 err in ((y1, y2), err)) (x1, x2) (S1 \<union> S2)
    (\<lambda>(x1, x2) (y1, y2). P1 x1 y1 \<and> P2 x2 y2)"
  unfolding treats_def
proof (intro allI impI)
  fix err y err' assume "(let (y1, err) = r1 err; (y2, err) = r2 err in ((y1, y2), err)) = (y, err')"
  then obtain y1 y2 err1 where r1: "r1 err = (y1, err1)" and r2: "r2 err1 = (y2, err')" and y: "y = (y1, y2)"
    by (auto split: prod.splits)
  note d1 = treatsD [OF assms(1) r1] and d2 = treatsD [OF assms(2) r2]
  have cov: "covered sp (S1 \<union> S2) \<longleftrightarrow> covered sp S1 \<and> covered sp S2" by (auto simp: covered_def)
  show "(covered sp (S1 \<union> S2) \<longrightarrow> err \<noteq> Some not_evaluated \<longrightarrow> err' \<noteq> Some not_evaluated) \<and>
     (err' = None \<longrightarrow> err = None \<and> (case (x1, x2) of (x1, x2) \<Rightarrow> \<lambda>(y1, y2). P1 x1 y1 \<and> P2 x2 y2) y) \<and>
     (S1 \<union> S2 = {} \<longrightarrow> err = None \<longrightarrow> y = (x1, x2) \<and> err' = None)"
  proof (intro conjI impI)
    show "err' \<noteq> Some not_evaluated" if "covered sp (S1 \<union> S2)" "err \<noteq> Some not_evaluated" using that d1(1) d2(1) unfolding cov by blast
    show "err = None" if "err' = None" using that d1(2) d2(2) by blast
    show "(case (x1, x2) of (x1, x2) \<Rightarrow> \<lambda>(y1, y2). P1 x1 y1 \<and> P2 x2 y2) y" if "err' = None" using that d1(3) d2(2,3) y by simp
    show "y = (x1, x2)" if "S1 \<union> S2 = {}" "err = None" using that d1(4,5) d2(4) y by simp
    show "err' = None" if "S1 \<union> S2 = {}" "err = None" using that d1(5) d2(5) by simp
  qed
qed

lemma treats_2:
  assumes "treats sp r1 x1 S1 P1" "treats sp r2 x2 S2 P2"
    "\<And>err. r err = (let (y1, err) = r1 err; (y2, err) = r2 err in (C y1 y2, err))"
    "S1 \<union> S2 \<subseteq> S" "\<And>y1 y2. P1 x1 y1 \<Longrightarrow> P2 x2 y2 \<Longrightarrow> P (C x1 x2) (C y1 y2)"
  shows "treats sp r (C x1 x2) S P"
proof -
  have "treats sp r (case (x1, x2) of (y1, y2) \<Rightarrow> C y1 y2) S P"
    by (rule treats_1 [OF treats_pair [OF assms(1,2)]]) (use assms(4,5) in \<open>auto simp: assms(3) Let_def split_beta\<close>)
  then show ?thesis by simp
qed

lemma treats_3:
  assumes "treats sp r1 x1 S1 P1" "treats sp r2 x2 S2 P2" "treats sp r3 x3 S3 P3"
    "\<And>err. r err = (let (y1, err) = r1 err; (y2, err) = r2 err; (y3, err) = r3 err in (C y1 y2 y3, err))"
    "S1 \<union> S2 \<union> S3 \<subseteq> S" "\<And>y1 y2 y3. P1 x1 y1 \<Longrightarrow> P2 x2 y2 \<Longrightarrow> P3 x3 y3 \<Longrightarrow> P (C x1 x2 x3) (C y1 y2 y3)"
  shows "treats sp r (C x1 x2 x3) S P"
proof -
  have "treats sp r ((\<lambda>p y3. case p of (y1, y2) \<Rightarrow> C y1 y2 y3) (x1, x2) x3) S P"
    by (rule treats_2 [OF treats_pair [OF assms(1,2)] assms(3)]) (use assms(5,6) in \<open>auto simp: assms(4) Let_def split_beta\<close>)
  then show ?thesis by simp
qed

lemma treats_guard:
  "treats sp r x S P \<Longrightarrow> (\<And>err. q err = (if err \<noteq> None then (x, err) else r err)) \<Longrightarrow> treats sp q x S P"
  by (simp add: treats_def split: if_splits)

lemma treats_each:
  assumes "\<And>x. x \<in> set xs \<Longrightarrow> treats sp (f x) x (g x) P"
  shows "treats sp (each_mut f xs) xs (\<Union> (g ` set xs)) (list_all2 P)"
  using assms
proof (induction xs)
  case Nil
  show ?case by (rule treats_0) simp_all
next
  case (Cons x xs)
  have "treats sp (f x) x (g x) P" "treats sp (each_mut f xs) xs (\<Union> (g ` set xs)) (list_all2 P)" using Cons by simp_all
  then show ?case by (rule treats_2 [where C = Cons]) (auto split: prod.split)
qed

lemma treats_some:
  assumes "\<And>x. p = Some x \<Longrightarrow> treats sp (f x) x (g x) P"
  shows "treats sp (if_some_mut f p) p (\<Union> (g ` set_option p)) (rel_option P)"
proof (cases p)
  case None
  then show ?thesis by (intro treats_0) (simp_all add: if_some_mut_def)
next
  case (Some x)
  then show ?thesis using assms by (auto intro!: treats_1 [where C = Some and P = "rel_option P"] simp: if_some_mut_def)
qed

text \<open>Types.\<close>

lemma type_to_ty_sites: "ty_sites (type_to_ty names ar sp t) = []"
  by (induction names ar sp t rule: type_to_ty.induct) (simp_all add: concat_eq_Nil_conv)

abbreviation clean_ty :: "expr ty \<Rightarrow> expr ty \<Rightarrow> bool" where
  "clean_ty _ y \<equiv> ty_sites y = []"

lemma clean_tys: "list_all2 clean_ty xs ys \<Longrightarrow> concat (map ty_sites ys) = []"
  by (induction rule: list_all2_induct) simp_all

lemma treats_missing:
  "covered sp S \<Longrightarrow> (span, e) \<in> S \<Longrightarrow> map_of (spl_values sp) span \<noteq> None"
  by (auto simp: covered_def)

lemma treats_ty: "treats sp (splice_ty sp t) t (set (ty_sites t)) clean_ty"
proof (induction t)
  case (TySplice e span)
  show ?case by (auto simp: treats_def covered_def missing_value_def type_to_ty_sites not_evaluated_def split: option.splits splice.splits if_splits)
next
  case (TyGeneric path args s)
  show ?case by (rule treats_1 [where C = "\<lambda>x. TyGeneric path x s", OF treats_each [OF TyGeneric.IH]]) (auto dest: clean_tys)
next
  case (TyTuple args s)
  show ?case by (rule treats_1 [where C = "\<lambda>x. TyTuple x s", OF treats_each [OF TyTuple.IH]]) (auto dest: clean_tys)
next
  case (TyFn ps rt abi u s)
  show ?case
    by (rule treats_2 [where C = "\<lambda>x y. TyFn x y abi u s", OF treats_each [OF TyFn.IH(1)] treats_some [OF TyFn.IH(2)]])
      (auto dest: clean_tys split: option.splits elim!: option.rel_cases)
next
  case (TySlice t s)
  show ?case by (rule treats_1 [where C = "\<lambda>x. TySlice x s", OF TySlice.IH]) auto
next
  case (TyBorrow m l t s)
  show ?case by (rule treats_1 [where C = "\<lambda>x. TyBorrow m l x s", OF TyBorrow.IH]) auto
next
  case (TyRawPointer m t s)
  show ?case by (rule treats_1 [where C = "\<lambda>x. TyRawPointer m x s", OF TyRawPointer.IH]) auto
qed (rule treats_0; simp)+

lemmas treats_tys = treats_each [OF treats_ty]
lemmas treats_some_ty = treats_some [OF treats_ty]

text \<open>What a substitution leaves: no sites at any depth, when the code it splices has none.\<close>

definition plain_values :: "splicer \<Rightarrow> bool" where
  "plain_values sp \<longleftrightarrow> (\<forall>(span, v) \<in> set (spl_values sp). case v of
     SpliceCode (QuoteExpr e) \<Rightarrow> (\<forall>m. st_expr (sites_at m) e = []) \<and> \<not> names_splice_field e | _ \<Rightarrow> True)"

definition kept_expr :: "splicer \<Rightarrow> expr \<Rightarrow> expr \<Rightarrow> bool" where
  "kept_expr sp x y \<longleftrightarrow> (plain_values sp \<longrightarrow> (\<forall>m. st_expr (sites_at m) y = []) \<and> (names_splice_field y \<longrightarrow> names_splice_field x))"

definition kept_item :: "splicer \<Rightarrow> an_item \<Rightarrow> an_item \<Rightarrow> bool" where
  "kept_item sp x y \<longleftrightarrow> (plain_values sp \<longrightarrow> (\<forall>m. st_item (sites_at m) y = []))"

definition kept_stmt :: "splicer \<Rightarrow> a_stmt \<Rightarrow> a_stmt \<Rightarrow> bool" where
  "kept_stmt sp x y \<longleftrightarrow> (plain_values sp \<longrightarrow> (\<forall>m. block_stmt_sites (sites_at m) y = []))"

definition kept_block :: "splicer \<Rightarrow> block \<Rightarrow> block \<Rightarrow> bool" where
  "kept_block sp x y \<longleftrightarrow> (plain_values sp \<longrightarrow> (\<forall>m. block_sites (sites_at m) y = []))"

definition kept_function :: "splicer \<Rightarrow> a_fn_decl \<Rightarrow> a_fn_decl \<Rightarrow> bool" where
  "kept_function sp x y \<longleftrightarrow> (plain_values sp \<longrightarrow> (\<forall>m. function_sites (sites_at m) y = []))"

lemma clean_list:
  assumes "list_all2 P xs ys" "\<And>x y. P x y \<Longrightarrow> f y = []"
  shows "concat (map f ys) = []"
  using assms by (induction rule: list_all2_induct) simp_all

lemma clean_option:
  assumes "rel_option P p q" "\<And>x y. P x y \<Longrightarrow> f y = []"
  shows "option_sites f q = []"
  using assms by (auto simp: option_sites_def elim!: option.rel_cases)

lemma option_sites_set: "set (option_sites f p) = \<Union> ((set \<circ> f) ` set_option p)"
  by (cases p) (simp_all add: option_sites_def)

text \<open>The visitor treats everything smaller than its depth.\<close>

abbreviation splicer_at :: "splicer \<Rightarrow> nat \<Rightarrow> splicing" where
  "splicer_at sp n \<equiv> knot_mut (splicing sp) n"

definition splices_below :: "splicer \<Rightarrow> nat \<Rightarrow> bool" where
  "splices_below sp n \<longleftrightarrow>
     (\<forall>e. size e < n \<longrightarrow> treats sp (visit_expr_mut (splicer_at sp n) e) e (set (st_expr (sites_at n) e)) (kept_expr sp)) \<and>
     (\<forall>it. item_size it < n \<longrightarrow> treats sp (visit_item_mut (splicer_at sp n) it) it (set (st_item (sites_at n) it)) (kept_item sp))"

lemma splices_belowD:
  assumes "splices_below sp n"
  shows "size e < n \<Longrightarrow> treats sp (visit_expr_mut (splicer_at sp n) e) e (set (st_expr (sites_at n) e)) (kept_expr sp)"
    and "item_size it < n \<Longrightarrow> treats sp (visit_item_mut (splicer_at sp n) it) it (set (st_item (sites_at n) it)) (kept_item sp)"
  using assms by (simp_all add: splices_below_def)

lemma treats_exprs:
  assumes "splices_below sp n" "size_list size es \<le> n"
  shows "treats sp (each_mut (visit_expr_mut (splicer_at sp n)) es) es (\<Union> ((set \<circ> st_expr (sites_at n)) ` set es)) (list_all2 (kept_expr sp))"
proof (rule treats_each)
  fix e assume "e \<in> set es"
  then have "size e < n" using size_list_less [of e es size] assms(2) by simp
  then show "treats sp (visit_expr_mut (splicer_at sp n) e) e ((set \<circ> st_expr (sites_at n)) e) (kept_expr sp)"
    using splices_belowD(1) [OF assms(1)] by simp
qed

lemma treats_some_expr:
  assumes "splices_below sp n" "size_option size p \<le> n"
  shows "treats sp (if_some_mut (visit_expr_mut (splicer_at sp n)) p) p (\<Union> ((set \<circ> st_expr (sites_at n)) ` set_option p)) (rel_option (kept_expr sp))"
  using assms splices_belowD(1) [OF assms(1)] by (intro treats_some) simp

lemma treats_stmt:
  assumes below: "splices_below sp n" and sz: "stmt_size st \<le> n"
  shows "treats sp (splice_stmt sp (splicer_at sp n) st) st (set (block_stmt_sites (sites_at n) st)) (kept_stmt sp)"
proof (cases st)
  case (StmtLet l)
  obtain mt p t val s where l: "l = LetStmt mt p t val s" by (cases l)
  have part: "size_option size val \<le> n" using sz StmtLet l by simp
  show ?thesis unfolding StmtLet l
    by (rule treats_2 [where C = "\<lambda>t val. StmtLet (LetStmt mt p t val s)", OF treats_some_ty treats_some_expr [OF below part]]) (auto simp: splice_stmt_def block_stmt_sites_def option_sites_set kept_stmt_def kept_expr_def intro!: clean_option)
next
  case (StmtExpr e)
  then have part: "size e < n" using sz by simp
  show ?thesis unfolding StmtExpr
    by (rule treats_1 [where C = StmtExpr, OF splices_belowD(1) [OF below part]]) (auto simp: splice_stmt_def block_stmt_sites_def kept_stmt_def kept_expr_def)
next
  case (StmtItem it)
  then have part: "item_size it < n" using sz by simp
  show ?thesis unfolding StmtItem
    by (rule treats_1 [where C = StmtItem, OF splices_belowD(2) [OF below part]]) (auto simp: splice_stmt_def block_stmt_sites_def kept_stmt_def kept_item_def)
qed

lemma treats_block:
  assumes below: "splices_below sp n" and sz: "size b \<le> n"
  shows "treats sp (splice_block sp (splicer_at sp n) b) b (set (block_sites (sites_at n) b)) (kept_block sp)"
proof (cases b)
  case (Block stmts tail s)
  have "treats sp (splice_stmt sp (splicer_at sp n) st) st ((set \<circ> block_stmt_sites (sites_at n)) st) (kept_stmt sp)" if "st \<in> set stmts" for st
    using treats_stmt [OF below, of st] sz Block size_list_less [OF that, of stmt_size] by simp
  note stmts = treats_each [of stmts, OF this]
  have part: "size_option size tail \<le> n" using sz Block by simp
  show ?thesis unfolding Block
    by (rule treats_2 [where C = "\<lambda>stmts tail. Block stmts tail s", OF stmts treats_some_expr [OF below part]]) (auto simp: splice_block_def block_sites_def option_sites_set kept_block_def kept_stmt_def kept_expr_def
      intro!: clean_option clean_list simp del: concat_eq_Nil_conv)
qed

lemma treats_some_block:
  assumes below: "splices_below sp n" and sz: "size_option size p \<le> n"
  shows "treats sp (if_some_mut (splice_block sp (splicer_at sp n)) p) p (\<Union> ((set \<circ> block_sites (sites_at n)) ` set_option p)) (rel_option (kept_block sp))"
  using treats_block [OF below] sz by (intro treats_some) simp

lemma treats_name:
  "treats sp (\<lambda>err. let (nm, err) = splice_name sp nm ns err in ((nm, None), err)) (nm, ns)
    (set (option_sites (\<lambda>name. [(expr_span name, name)]) ns)) (\<lambda>_ y. snd y = None)"
  by (cases ns) (auto simp: treats_def splice_name_def option_sites_def covered_def missing_value_def not_evaluated_def
    split: option.splits splice.splits if_splits)

lemma treats_params:
  "treats sp (each_mut (splice_param sp) ps) ps (\<Union> ((\<lambda>p. set (ty_sites (prm_ty p))) ` set ps)) (list_all2 (\<lambda>_ y. ty_sites (prm_ty y) = []))"
proof (rule treats_each)
  show "treats sp (splice_param sp p) p (set (ty_sites (prm_ty p))) (\<lambda>_ y. ty_sites (prm_ty y) = [])" for p
  proof (cases p)
    case (Param pat t s)
    show ?thesis unfolding Param
      by (rule treats_1 [where C = "\<lambda>t. Param pat t s", OF treats_ty]) (auto simp: splice_param_def)
  qed
qed

lemma treats_function:
  assumes below: "splices_below sp n" and sz: "fn_decl_size f \<le> n"
  shows "treats sp (splice_function sp (splicer_at sp n) f) f (set (function_sites (sites_at n) f)) (kept_function sp)"
proof (cases f)
  case (FnDecl nm ns gs ps rt body pb un itr ct ab attrs s)
  have part: "size body \<le> n" using sz FnDecl by simp
  have "treats sp (splice_function sp (splicer_at sp n) f) ((\<lambda>((nm, ns), ps) (rt, body). FnDecl nm ns gs ps rt body pb un itr ct ab attrs s) ((nm, ns), ps) (rt, body))
    (set (function_sites (sites_at n) f)) (kept_function sp)"
    by (rule treats_2 [OF treats_pair [OF treats_name treats_params] treats_pair [OF treats_some_ty treats_block [OF below part]]])
      (auto simp: FnDecl splice_function_def function_sites_def option_sites_set kept_function_def kept_block_def Let_def split_beta
        option_sites_def [of _ None] intro!: clean_option clean_list simp del: concat_eq_Nil_conv)
  then show ?thesis by (simp add: FnDecl)
qed

lemma treats_functions:
  assumes below: "splices_below sp n" and sz: "size_list fn_decl_size fs \<le> n"
  shows "treats sp (each_mut (splice_function sp (splicer_at sp n)) fs) fs (\<Union> ((set \<circ> function_sites (sites_at n)) ` set fs))
    (list_all2 (kept_function sp))"
proof (rule treats_each)
  fix f assume "f \<in> set fs"
  then have "fn_decl_size f \<le> n" using size_list_less [of f fs fn_decl_size] sz by simp
  then show "treats sp (splice_function sp (splicer_at sp n) f) f ((set \<circ> function_sites (sites_at n)) f) (kept_function sp)"
    using treats_function [OF below] by simp
qed

lemma sites_at_empty:
  "st_item (sites_at m) it = [] \<longleftrightarrow> m = 0 \<or> item_sites (sites_at (m - 1)) it = []"
  "st_expr (sites_at m) e = [] \<longleftrightarrow> m = 0 \<or> expr_sites (sites_at (m - 1)) e = []"
  by (cases m; simp)+

lemma treats_item:
  assumes below: "splices_below sp n" and sz: "item_size it \<le> n"
  shows "treats sp (splice_item sp (splicer_at sp n) it) it (set (item_sites (sites_at n) it)) (kept_item sp)"
proof -
  have methods: "list_all2 (kept_function sp) xs ys \<Longrightarrow> plain_values sp \<Longrightarrow> concat (map (function_sites (sites_at m)) ys) = []" for xs ys m
    by (erule clean_list) (simp add: kept_function_def)
  note sites = item_sites_def walk_item_sites_def kept_item_def sites_at_empty splice_item_def
  show ?thesis
  proof (cases it)
    case (ItemFn f)
    then have part: "fn_decl_size f \<le> n" using sz by simp
    show ?thesis unfolding ItemFn
      by (rule treats_1 [where C = ItemFn, OF treats_function [OF below part]]) (auto simp: sites kept_function_def)
  next
    case (ItemStruct d)
    obtain nm gs fs ms cs ats pb attrs s where d: "d = StructDecl nm gs fs ms cs ats pb attrs s" by (cases d)
    have part: "size_list fn_decl_size ms \<le> n" using sz ItemStruct d by simp
    show ?thesis unfolding ItemStruct d
      by (rule treats_1 [where C = "\<lambda>ms. ItemStruct (StructDecl nm gs fs ms cs ats pb attrs s)", OF treats_functions [OF below part]])
        (auto simp: sites methods simp del: concat_eq_Nil_conv)
  next
    case (ItemEnum d)
    obtain nm gs vs ms cs pb attrs s where d: "d = EnumDecl nm gs vs ms cs pb attrs s" by (cases d)
    have part: "size_list fn_decl_size ms \<le> n" using sz ItemEnum d by simp
    show ?thesis unfolding ItemEnum d
      by (rule treats_1 [where C = "\<lambda>ms. ItemEnum (EnumDecl nm gs vs ms cs pb attrs s)", OF treats_functions [OF below part]])
        (auto simp: sites methods simp del: concat_eq_Nil_conv)
  next
    case (ItemMethods d)
    obtain gs t ms cs s where d: "d = MethodsBlock gs t ms cs s" by (cases d)
    have part: "size_list fn_decl_size ms \<le> n" using sz ItemMethods d by simp
    show ?thesis unfolding ItemMethods d
      by (rule treats_2 [where C = "\<lambda>t ms. ItemMethods (MethodsBlock gs t ms cs s)", OF treats_ty treats_functions [OF below part]])
        (auto simp: sites methods simp del: concat_eq_Nil_conv)
  qed (rule treats_0; simp add: sites)+
qed

text \<open>The parts of expressions.\<close>

lemma treats_closure_params:
  "treats sp (each_mut (splice_closure_param sp) ps) ps (\<Union> ((\<lambda>p. set (option_sites ty_sites (cp_ty p))) ` set ps))
    (list_all2 (\<lambda>_ y. option_sites ty_sites (cp_ty y) = []))"
proof (rule treats_each)
  show "treats sp (splice_closure_param sp p) p (set (option_sites ty_sites (cp_ty p))) (\<lambda>_ y. option_sites ty_sites (cp_ty y) = [])" for p
  proof (cases p)
    case (ClosureParam pat t s)
    show ?thesis unfolding ClosureParam
      by (rule treats_1 [where C = "\<lambda>t. ClosureParam pat t s", OF treats_some_ty])
        (auto simp: splice_closure_param_def option_sites_set intro: clean_option)
  qed
qed

lemma closure_param_sites: "concat (map ty_sites (List.map_filter cp_ty ps)) = concat (map (\<lambda>p. option_sites ty_sites (cp_ty p)) ps)"
  by (induction ps) (simp_all add: List.map_filter_simps option_sites_def split: option.split)

lemma treats_fields:
  assumes below: "splices_below sp n" and sz: "size_list (size_prod (\<lambda>_. 0) size) fs \<le> n"
  shows "treats sp (each_mut (walk_field_mut (splicer_at sp n)) fs) fs (\<Union> ((\<lambda>f. set (st_expr (sites_at n) (snd f))) ` set fs))
    (list_all2 (\<lambda>x y. kept_expr sp (snd x) (snd y)))"
proof (rule treats_each)
  fix f assume "f \<in> set fs"
  then have part: "size (snd f) < n" using field_part_size [of f fs] sz by simp
  obtain nm e where f: "f = (nm, e)" by (cases f)
  have "treats sp (walk_field_mut (splicer_at sp n) (nm, e)) (nm, e) (set (st_expr (sites_at n) (snd (nm, e)))) (\<lambda>x y. kept_expr sp (snd x) (snd y))"
    by (rule treats_1 [where C = "Pair nm", OF splices_belowD(1) [OF below, of e]]) (use part f in \<open>auto simp: walk_field_mut_def\<close>)
  then show "treats sp (walk_field_mut (splicer_at sp n) f) f (set (st_expr (sites_at n) (snd f))) (\<lambda>x y. kept_expr sp (snd x) (snd y))"
    by (simp add: f)
qed

definition arm_sites :: "sites \<Rightarrow> expr match_arm \<Rightarrow> site list" where
  "arm_sites self arm = option_sites (st_expr self) (arm_guard arm) @ st_expr self (arm_body arm)"

lemma children_match: "children_sites self (EMatch x arms s) = st_expr self x @ concat (map (arm_sites self) arms)"
proof -
  have "concat (map (st_expr self) (concat (map (\<lambda>arm. (case arm_guard arm of None \<Rightarrow> [] | Some g \<Rightarrow> [g]) @ [arm_body arm]) arms)))
      = concat (map (arm_sites self) arms)"
    by (induction arms) (simp_all add: arm_sites_def option_sites_def split: option.split)
  then show ?thesis by (simp add: children_sites_def expr_children_def)
qed

definition kept_arm :: "splicer \<Rightarrow> expr match_arm \<Rightarrow> expr match_arm \<Rightarrow> bool" where
  "kept_arm sp x y \<longleftrightarrow> (plain_values sp \<longrightarrow> (\<forall>m. arm_sites (sites_at m) y = []))"

lemma treats_arms:
  assumes below: "splices_below sp n" and sz: "size_list (size_match_arm size) arms \<le> n"
  shows "treats sp (each_mut (walk_arm_mut (splicer_at sp n)) arms) arms (\<Union> ((set \<circ> arm_sites (sites_at n)) ` set arms)) (list_all2 (kept_arm sp))"
proof (rule treats_each)
  fix arm assume arm: "arm \<in> set arms"
  obtain p g b s where a: "arm = MatchArm p g b s" by (cases arm)
  have part: "size_option size g \<le> n" "size b < n"
    using size_list_less [OF arm, of "size_match_arm size"] sz a by simp_all
  show "treats sp (walk_arm_mut (splicer_at sp n) arm) arm ((set \<circ> arm_sites (sites_at n)) arm) (kept_arm sp)"
    unfolding a
    by (rule treats_2 [where C = "\<lambda>g b. MatchArm p g b s", OF treats_some_expr [OF below part(1)] splices_belowD(1) [OF below part(2)]])
      (auto simp: walk_arm_mut_def arm_sites_def kept_arm_def kept_expr_def option_sites_set intro: clean_option)
qed

lemma treats_select_arms:
  assumes below: "splices_below sp n" and sz: "size_list (size_select_arm size size) arms \<le> n"
  shows "treats sp (each_mut (splice_arm sp (splicer_at sp n)) arms) arms
    (\<Union> ((\<lambda>arm. set (st_expr (sites_at n) (sa_operation arm)) \<union> set (block_sites (sites_at n) (sa_body arm))) ` set arms))
    (list_all2 (\<lambda>x y. kept_expr sp (sa_operation x) (sa_operation y) \<and> kept_block sp (sa_body x) (sa_body y)))"
proof (rule treats_each)
  fix arm assume arm: "arm \<in> set arms"
  obtain op b s where a: "arm = SelectArm op b s" by (cases arm)
  have part: "size op < n" "size b \<le> n" using size_list_less [OF arm, of "size_select_arm size size"] sz a by simp_all
  show "treats sp (splice_arm sp (splicer_at sp n) arm) arm (set (st_expr (sites_at n) (sa_operation arm)) \<union> set (block_sites (sites_at n) (sa_body arm)))
    (\<lambda>x y. kept_expr sp (sa_operation x) (sa_operation y) \<and> kept_block sp (sa_body x) (sa_body y))"
    unfolding a
    by (rule treats_2 [where C = "\<lambda>op b. SelectArm op b s", OF splices_belowD(1) [OF below part(1)] treats_block [OF below part(2)]])
      (auto simp: splice_arm_def)
qed

text \<open>What is left of the sites of lists and options of parts.\<close>

lemma clean_parts:
  assumes "plain_values sp"
  shows "list_all2 (kept_expr sp) xs ys \<Longrightarrow> concat (map (st_expr (sites_at m)) ys) = []"
    and "rel_option (kept_expr sp) p q \<Longrightarrow> concat (map (st_expr (sites_at m)) (case q of None \<Rightarrow> [] | Some x \<Rightarrow> [x])) = []"
    and "list_all2 (\<lambda>x y. kept_expr sp (snd x) (snd y)) fs gs \<Longrightarrow> concat (map (st_expr (sites_at m) \<circ> snd) gs) = []"
    and "list_all2 (\<lambda>x y. kept_expr sp (sa_operation x) (sa_operation y) \<and> kept_block sp (sa_body x) (sa_body y)) arms brms \<Longrightarrow>
      concat (map (st_expr (sites_at m) \<circ> sa_operation) brms) = []"
    and "list_all2 (\<lambda>x y. kept_expr sp (sa_operation x) (sa_operation y) \<and> kept_block sp (sa_body x) (sa_body y)) arms brms \<Longrightarrow>
      concat (map (block_sites (sites_at m) \<circ> sa_body) brms) = []"
    and "rel_option (kept_block sp) bp bq \<Longrightarrow> concat (map (block_sites (sites_at m)) (case bq of None \<Rightarrow> [] | Some x \<Rightarrow> [x])) = []"
proof -
  show "rel_option (kept_expr sp) p q \<Longrightarrow> concat (map (st_expr (sites_at m)) (case q of None \<Rightarrow> [] | Some x \<Rightarrow> [x])) = []"
    "rel_option (kept_block sp) bp bq \<Longrightarrow> concat (map (block_sites (sites_at m)) (case bq of None \<Rightarrow> [] | Some x \<Rightarrow> [x])) = []"
    using assms by (auto simp: kept_expr_def kept_block_def elim!: option.rel_cases)
qed (use assms in \<open>auto simp: kept_expr_def kept_block_def intro!: clean_list simp del: concat_eq_Nil_conv\<close>)

lemmas opened = splice_open_def splice_expr_tys_def splice_parts_def expr_sites_def expr_ty_sites_def
  children_sites_def expr_children_def names_splice_field_def Let_def split_beta

lemma kept_exprI:
  "(\<And>m. plain_values sp \<Longrightarrow> expr_sites (sites_at m) y = []) \<Longrightarrow> \<not> names_splice_field y \<Longrightarrow> kept_expr sp x y"
  by (simp add: kept_expr_def sites_at_empty)

lemma keptD: "kept_expr sp x y \<Longrightarrow> plain_values sp \<Longrightarrow> st_expr (sites_at m) y = []" "kept_block sp b c \<Longrightarrow> plain_values sp \<Longrightarrow> block_sites (sites_at m) c = []"
  by (simp_all add: kept_expr_def kept_block_def)

lemma treats_open:
  assumes below: "splices_below sp n" and sz: "size e \<le> n"
  shows "treats sp (splice_open sp (splicer_at sp n) e) e (set (expr_sites (sites_at n) e)) (kept_expr sp)"
proof (cases e)
    case (EBlock b)
    have p1: "size b \<le> n" using sz EBlock by simp
    show ?thesis unfolding EBlock
      by (rule treats_1 [where C = "EBlock", OF treats_block [OF below p1]]; (rule kept_exprI)?) (auto simp: opened intro: keptD clean_parts simp del: concat_eq_Nil_conv)
  next
    case (EUnsafe b s)
    have p1: "size b \<le> n" using sz EUnsafe by simp
    show ?thesis unfolding EUnsafe
      by (rule treats_1 [where C = "\<lambda>b. EUnsafe b s", OF treats_block [OF below p1]]; (rule kept_exprI)?) (auto simp: opened intro: keptD clean_parts simp del: concat_eq_Nil_conv)
  next
    case (ELoop b s)
    have p1: "size b \<le> n" using sz ELoop by simp
    show ?thesis unfolding ELoop
      by (rule treats_1 [where C = "\<lambda>b. ELoop b s", OF treats_block [OF below p1]]; (rule kept_exprI)?) (auto simp: opened intro: keptD clean_parts simp del: concat_eq_Nil_conv)
  next
    case (EWhile c b s)
    have p1: "size c < n" using sz EWhile by simp
    have p2: "size b \<le> n" using sz EWhile by simp
    show ?thesis unfolding EWhile
      by (rule treats_2 [where C = "\<lambda>c b. EWhile c b s", OF splices_belowD(1) [OF below p1] treats_block [OF below p2]]; (rule kept_exprI)?) (auto simp: opened intro: keptD clean_parts simp del: concat_eq_Nil_conv)
  next
    case (EIf c t els s)
    have p1: "size c < n" using sz EIf by simp
    have p2: "size t \<le> n" using sz EIf by simp
    have p3: "size_option size els \<le> n" using sz EIf by simp
    show ?thesis unfolding EIf
      by (rule treats_3 [where C = "\<lambda>c t els. EIf c t els s", OF splices_belowD(1) [OF below p1] treats_block [OF below p2] treats_some_expr [OF below p3]]; (rule kept_exprI)?) (auto simp: opened intro: keptD clean_parts simp del: concat_eq_Nil_conv)
  next
    case (EMethodCall r nm args s)
    have p1: "size r < n" using sz EMethodCall by simp
    have p2: "size_list size args \<le> n" using sz EMethodCall by simp
    show ?thesis unfolding EMethodCall
      by (rule treats_2 [where C = "\<lambda>r args. EMethodCall r nm args s", OF splices_belowD(1) [OF below p1] treats_exprs [OF below p2]]; (rule kept_exprI)?) (auto simp: opened intro: keptD clean_parts simp del: concat_eq_Nil_conv)
  next
    case (EAssociatedCall t nm args s)
    have p1: "size_list size args \<le> n" using sz EAssociatedCall by simp
    show ?thesis unfolding EAssociatedCall
      by (rule treats_2 [where C = "\<lambda>t args. EAssociatedCall t nm args s", OF treats_ty treats_exprs [OF below p1]]; (rule kept_exprI)?) (auto simp: opened intro: keptD clean_parts simp del: concat_eq_Nil_conv)
  next
    case (EBinary op l r s)
    have p1: "size l < n" using sz EBinary by simp
    have p2: "size r < n" using sz EBinary by simp
    show ?thesis unfolding EBinary
      by (rule treats_2 [where C = "\<lambda>l r. EBinary op l r s", OF splices_belowD(1) [OF below p1] splices_belowD(1) [OF below p2]]; (rule kept_exprI)?) (auto simp: opened intro: keptD clean_parts simp del: concat_eq_Nil_conv)
  next
    case (EUnary op x s)
    have p1: "size x < n" using sz EUnary by simp
    show ?thesis unfolding EUnary
      by (rule treats_1 [where C = "\<lambda>x. EUnary op x s", OF splices_belowD(1) [OF below p1]]; (rule kept_exprI)?) (auto simp: opened intro: keptD clean_parts simp del: concat_eq_Nil_conv)
  next
    case (EAssign t x s)
    have p1: "size t < n" using sz EAssign by simp
    have p2: "size x < n" using sz EAssign by simp
    show ?thesis unfolding EAssign
      by (rule treats_2 [where C = "\<lambda>t x. EAssign t x s", OF splices_belowD(1) [OF below p1] splices_belowD(1) [OF below p2]]; (rule kept_exprI)?) (auto simp: opened intro: keptD clean_parts simp del: concat_eq_Nil_conv)
  next
    case (EField x nm s)
    have p1: "size x < n" using sz EField by simp
    show ?thesis unfolding EField
      by (rule treats_1 [where C = "\<lambda>x. EField x nm s", OF splices_belowD(1) [OF below p1]]; (rule kept_exprI)?) (auto simp: opened intro: keptD clean_parts simp del: concat_eq_Nil_conv)
  next
    case (EIndex b ix s)
    have p1: "size b < n" using sz EIndex by simp
    have p2: "size_list size ix \<le> n" using sz EIndex by simp
    show ?thesis unfolding EIndex
      by (rule treats_2 [where C = "\<lambda>b ix. EIndex b ix s", OF splices_belowD(1) [OF below p1] treats_exprs [OF below p2]]; (rule kept_exprI)?) (auto simp: opened intro: keptD clean_parts simp del: concat_eq_Nil_conv)
  next
    case (ETry x s)
    have p1: "size x < n" using sz ETry by simp
    show ?thesis unfolding ETry
      by (rule treats_1 [where C = "\<lambda>x. ETry x s", OF splices_belowD(1) [OF below p1]]; (rule kept_exprI)?) (auto simp: opened intro: keptD clean_parts simp del: concat_eq_Nil_conv)
  next
    case (ECast x t s)
    have p1: "size x < n" using sz ECast by simp
    show ?thesis unfolding ECast
      by (rule treats_2 [where C = "\<lambda>t x. ECast x t s", OF treats_ty splices_belowD(1) [OF below p1]]; (rule kept_exprI)?) (auto simp: opened intro: keptD clean_parts simp del: concat_eq_Nil_conv)
  next
    case (EReturn x s)
    have p1: "size_option size x \<le> n" using sz EReturn by simp
    show ?thesis unfolding EReturn
      by (rule treats_1 [where C = "\<lambda>x. EReturn x s", OF treats_some_expr [OF below p1]]; (rule kept_exprI)?) (auto simp: opened intro: keptD clean_parts simp del: concat_eq_Nil_conv)
  next
    case (EBreak x s)
    have p1: "size_option size x \<le> n" using sz EBreak by simp
    show ?thesis unfolding EBreak
      by (rule treats_1 [where C = "\<lambda>x. EBreak x s", OF treats_some_expr [OF below p1]]; (rule kept_exprI)?) (auto simp: opened intro: keptD clean_parts simp del: concat_eq_Nil_conv)
  next
    case (ESpawn x s)
    have p1: "size x < n" using sz ESpawn by simp
    show ?thesis unfolding ESpawn
      by (rule treats_1 [where C = "\<lambda>x. ESpawn x s", OF splices_belowD(1) [OF below p1]]; (rule kept_exprI)?) (auto simp: opened intro: keptD clean_parts simp del: concat_eq_Nil_conv)
  next
    case (EClosure ps x s)
    have p1: "size x < n" using sz EClosure by simp
    show ?thesis unfolding EClosure
      by (rule treats_2 [where C = "\<lambda>ps x. EClosure ps x s", OF treats_closure_params splices_belowD(1) [OF below p1]]; (rule kept_exprI)?) (auto simp: opened closure_param_sites intro: keptD clean_parts clean_list simp del: concat_eq_Nil_conv)
  next
    case (EComptime x s)
    have p1: "size x < n" using sz EComptime by simp
    show ?thesis unfolding EComptime
      by (rule treats_1 [where C = "\<lambda>x. EComptime x s", OF splices_belowD(1) [OF below p1]]; (rule kept_exprI)?) (auto simp: opened intro: keptD clean_parts simp del: concat_eq_Nil_conv)
  next
    case (EYield x s)
    have p1: "size x < n" using sz EYield by simp
    show ?thesis unfolding EYield
      by (rule treats_1 [where C = "\<lambda>x. EYield x s", OF splices_belowD(1) [OF below p1]]; (rule kept_exprI)?) (auto simp: opened intro: keptD clean_parts simp del: concat_eq_Nil_conv)
  next
    case (EBorrow m x s)
    have p1: "size x < n" using sz EBorrow by simp
    show ?thesis unfolding EBorrow
      by (rule treats_1 [where C = "\<lambda>x. EBorrow m x s", OF splices_belowD(1) [OF below p1]]; (rule kept_exprI)?) (auto simp: opened intro: keptD clean_parts simp del: concat_eq_Nil_conv)
  next
    case (ETuple es s)
    have p1: "size_list size es \<le> n" using sz ETuple by simp
    show ?thesis unfolding ETuple
      by (rule treats_1 [where C = "\<lambda>es. ETuple es s", OF treats_exprs [OF below p1]]; (rule kept_exprI)?) (auto simp: opened intro: keptD clean_parts simp del: concat_eq_Nil_conv)
  next
    case (EStructLiteral t fs s)
    have p1: "size_list (size_prod (\<lambda>_. 0) size) fs \<le> n" using sz EStructLiteral by simp
    show ?thesis unfolding EStructLiteral
      by (rule treats_2 [where C = "\<lambda>t fs. EStructLiteral t fs s", OF treats_ty treats_fields [OF below p1]]; (rule kept_exprI)?) (auto simp: opened intro: keptD clean_parts simp del: concat_eq_Nil_conv)
  next
    case (EMatch x arms s)
    have p1: "size x < n" using sz EMatch by simp
    have p2: "size_list (size_match_arm size) arms \<le> n" using sz EMatch by simp
    show ?thesis unfolding EMatch
      by (rule treats_2 [where C = "\<lambda>x arms. EMatch x arms s", OF splices_belowD(1) [OF below p1] treats_arms [OF below p2]]; (rule kept_exprI)?) (auto simp: splice_open_def splice_expr_tys_def splice_parts_def expr_sites_def expr_ty_sites_def children_match names_splice_field_def
        kept_arm_def Let_def split_beta intro: keptD clean_list simp del: concat_eq_Nil_conv)
  next
    case (ESelect arms dflt s)
    have p1: "size_list (size_select_arm size size) arms \<le> n" using sz ESelect by simp
    have p2: "size_option size dflt \<le> n" using sz ESelect by simp
    show ?thesis unfolding ESelect
      by (rule treats_2 [where C = "\<lambda>arms dflt. ESelect arms dflt s", OF treats_select_arms [OF below p1] treats_some_block [OF below p2]]; (rule kept_exprI)?) (auto simp: opened intro: keptD clean_parts simp del: concat_eq_Nil_conv)
  next
    case (ECall f ts args s)
    show ?thesis
    proof (cases "is_splice_field f args")
      case True
      then obtain a b where args: "args = [a, b]" by (auto simp: is_splice_field_def length_Suc_conv numeral_2_eq_2)
      have part: "size a < n" and first: "args ! 0 = a" using sz ECall args by simp_all
      note base = splices_belowD(1) [OF below part]
      show ?thesis unfolding ECall treats_def
      proof (intro allI impI)
        fix err y err'
        assume "splice_open sp (splicer_at sp n) (ECall f ts args s) err = (y, err')"
        then obtain a' err1 where a: "visit_expr_mut (splicer_at sp n) a err = (a', err1)"
          and y: "(case map_of (spl_values sp) s of
            Some (SpliceString field) \<Rightarrow> (EField a' field s, err1)
          | Some _ \<Rightarrow> (ECall f ts args s, Some ''an identifier-position splice must evaluate to a string'')
          | None \<Rightarrow> (ECall f ts args s, missing_value err1)) = (y, err')"
          using True by (auto simp: splice_open_def splice_named_field_def first split: prod.splits)
        let ?S = "set (expr_sites (sites_at n) (ECall f ts args s))"
        have S: "(s, b) \<in> ?S" "set (st_expr (sites_at n) a) \<subseteq> ?S" using True by (auto simp: expr_sites_def args)
        have "kept_expr sp (ECall f ts args s) (EField a' field s)" if "kept_expr sp a a'" for field
          by (rule kept_exprI) (use that in \<open>auto simp: opened intro: keptD\<close>)
        then have field: "err' = None \<Longrightarrow> err = None \<and> kept_expr sp (ECall f ts args s) y"
          using y treatsD(2,3) [OF base a] by (auto simp: missing_value_def split: option.splits splice.splits if_splits)
        have "err' \<noteq> Some not_evaluated" if "covered sp ?S" "err \<noteq> Some not_evaluated"
        proof -
          have "map_of (spl_values sp) s \<noteq> None" "err1 \<noteq> Some not_evaluated"
            using treats_missing [OF that(1) S(1)] treatsD(1) [OF base a covered_mono [OF that(1) S(2)] that(2)] by simp_all
          then show ?thesis using y by (auto simp: not_evaluated_def split: option.splits splice.splits)
        qed
        moreover have "?S \<noteq> {}" using S(1) by (metis empty_iff)
        ultimately show "(covered sp ?S \<longrightarrow> err \<noteq> Some not_evaluated \<longrightarrow> err' \<noteq> Some not_evaluated) \<and>
          (err' = None \<longrightarrow> err = None \<and> kept_expr sp (ECall f ts args s) y) \<and> (?S = {} \<longrightarrow> err = None \<longrightarrow> y = ECall f ts args s \<and> err' = None)"
          using field by blast
      qed
    next
      case False
      have p1: "size f < n" and p2: "size_list size args \<le> n" using sz ECall by simp_all
      have "kept_expr sp (ECall f ts args s) (ECall f' ts' args' s)"
        if "list_all2 clean_ty ts ts'" "kept_expr sp f f'" "list_all2 (kept_expr sp) args args'" for f' ts' args'
      proof (rule kept_exprI)
        fix m assume plain: "plain_values sp"
        have "\<not> is_splice_field f' args'"
          using False that(2) plain list_all2_lengthD [OF that(3)] by (auto simp: is_splice_field_def kept_expr_def)
        then show "expr_sites (sites_at m) (ECall f' ts' args' s) = []"
          using that plain by (auto simp: expr_sites_def expr_ty_sites_def children_sites_def expr_children_def
            intro: keptD clean_parts clean_tys simp del: concat_eq_Nil_conv)
      qed (simp add: names_splice_field_def)
      then show ?thesis unfolding ECall
        by (intro treats_3 [where C = "\<lambda>ts f args. ECall f ts args s", OF treats_tys splices_belowD(1) [OF below p1] treats_exprs [OF below p2]])
          (use False in \<open>auto simp: opened\<close>)
    qed
  next
    case (ESplice e span)
    have "kept_expr sp (ESplice e span) x" if known: "map_of (spl_values sp) span = Some v" and x: "splice_value sp v span = Inr x" for v x
    proof (cases v)
      case (SpliceCode c)
      then obtain e' where "c = QuoteExpr e'" "x = e'" using x by (cases c) (simp_all add: splice_value_def)
      then show ?thesis using map_of_SomeD [OF known] SpliceCode by (auto simp: kept_expr_def plain_values_def)
    qed (use x in \<open>auto simp: splice_value_def opened intro!: kept_exprI\<close>)
    moreover have "msg \<noteq> not_evaluated" if "splice_value sp v span = Inl msg" for v msg
      using that by (cases v) (auto simp: splice_value_def not_evaluated_def split: quote_body.splits)
    ultimately show ?thesis unfolding ESplice
      by (auto simp: treats_def splice_open_def expr_sites_def covered_def missing_value_def split: option.splits sum.splits if_splits)
  qed (rule treats_0; simp add: opened kept_expr_def sites_at_empty)+

lemma splices_below: "splices_below sp n"
proof (induction n)
  case (Suc n)
  have "treats sp (splice_into_expr sp (splicer_at sp n) e) e (set (expr_sites (sites_at n) e)) (kept_expr sp)" if "size e \<le> n" for e
    by (rule treats_guard [OF treats_open [OF Suc that]]) (simp add: splice_into_expr_def)
  then show ?case using treats_item [OF Suc] by (simp add: splices_below_def splicing_def less_Suc_eq_le)
qed (simp add: splices_below_def)

section \<open>Properties\<close>

lemma treats_quote:
  "treats sp (visit_expr_mut (splicer_at sp (quote_size (QuoteExpr e))) e) e (set (splice_sites (QuoteExpr e))) (kept_expr sp)"
  "treats sp (visit_item_mut (splicer_at sp (quote_size (QuoteItem it))) it) it (set (splice_sites (QuoteItem it))) (kept_item sp)"
  unfolding splice_sites_def quote_body.case by (rule splices_belowD [OF splices_below], simp)+

text \<open>C33: substitution into a template and the search for its splice sites agree.  When every site the search finds has a
  value, no splice is left unevaluated; when the spliced code is plain, the code that results has no splice sites; and a
  template without sites comes back unchanged.\<close>

theorem substitution_matches_sites:
  "(covered sp (set (splice_sites template)) \<longrightarrow> substitute sp template \<noteq> Inl not_evaluated) \<and>
   (plain_values sp \<longrightarrow> (\<forall>code. substitute sp template = Inr code \<longrightarrow> splice_sites code = [])) \<and>
   (splice_sites template = [] \<longrightarrow> substitute sp template = Inr template)"
proof (cases template)
  case (QuoteItem it)
  obtain y err' where y: "visit_item_mut (splicer_at sp (quote_size (QuoteItem it))) it None = (y, err')" by fastforce
  have "splice_sites (QuoteItem y) = []" if "plain_values sp" "err' = None"
    using treatsD(3) [OF treats_quote(2) y that(2)] that(1) by (simp add: kept_item_def splice_sites_def del: sites_at.simps)
  then show ?thesis using y treatsD [OF treats_quote(2) y]
    by (auto simp: QuoteItem substitute_def Let_def simp del: knot_mut.simps split: option.splits)
next
  case (QuoteExpr e)
  obtain y err' where y: "visit_expr_mut (splicer_at sp (quote_size (QuoteExpr e))) e None = (y, err')" by fastforce
  have "splice_sites (QuoteExpr y) = []" if "plain_values sp" "err' = None"
    using treatsD(3) [OF treats_quote(1) y that(2)] that(1) by (simp add: kept_expr_def splice_sites_def del: sites_at.simps)
  then show ?thesis using y treatsD [OF treats_quote(1) y]
    by (auto simp: QuoteExpr substitute_def Let_def simp del: knot_mut.simps split: option.splits)
qed

definition at_span :: "nat \<Rightarrow> span" where
  "at_span i = span_new_root i (Suc i)"

definition sum_template :: code where
  "sum_template = QuoteExpr (EBinary OpAdd (ESplice (EIdent ''x'' (at_span 2)) (at_span 0))
     (ECall (EIdent ''splice_field'' (at_span 4)) [] [EIdent ''p'' (at_span 6), EIdent ''name'' (at_span 8)] (at_span 10)) (at_span 12))"

definition sum_splicer :: splicer where
  "sum_splicer = \<lparr>spl_names = \<lparr>dn_rigid = {}, dn_anonymous = {}, dn_display = (\<lambda>_. None)\<rparr>, spl_arena = arena_default,
     spl_values = [(at_span 0, SpliceInt 1), (at_span 10, SpliceString ''left'')]\<rparr>"

theorem substitution_matches_sites_witness:
  "map fst (splice_sites sum_template) = [at_span 0, at_span 10] \<and>
   (\<exists>code. substitute sum_splicer sum_template = Inr code \<and> splice_sites code = []
     \<and> code = QuoteExpr (EBinary OpAdd (ELiteral (LitInt 1) (at_span 0)) (EField (EIdent ''p'' (at_span 6)) ''left'' (at_span 10)) (at_span 12)))"
proof -
  have sites: "map fst (splice_sites sum_template) = [at_span 0, at_span 10]" by code_simp
  have result: "substitute sum_splicer sum_template
    = Inr (QuoteExpr (EBinary OpAdd (ELiteral (LitInt 1) (at_span 0)) (EField (EIdent ''p'' (at_span 6)) ''left'' (at_span 10)) (at_span 12)))"
    by code_simp
  have "plain_values sum_splicer" by (simp add: plain_values_def sum_splicer_def)
  then show ?thesis using substitution_matches_sites [of sum_splicer sum_template] sites result by simp
qed

text \<open>A simple type written as syntax names the same type again.\<close>

fun simple_type :: "string list \<Rightarrow> type \<Rightarrow> bool" where
  "simple_type enums (TBorrow _ t) = simple_type enums t"
| "simple_type enums (TRawPointer _ t) = simple_type enums t"
| "simple_type enums (TSlice t) = simple_type enums t"
| "simple_type enums (TStruct name args) \<longleftrightarrow> args = [] \<and> split_path [] name = [name] \<and> named_ty enums name = TStruct name []"
| "simple_type enums (TEnum name args) \<longleftrightarrow> args = [] \<and> split_path [] name = [name] \<and> named_ty enums name = TEnum name []"
| "simple_type enums t \<longleftrightarrow> (case t of TInt _ \<Rightarrow> True | TFloat _ \<Rightarrow> True | TBool \<Rightarrow> True | TChar \<Rightarrow> True | TString \<Rightarrow> True | _ \<Rightarrow> False)"

lemma named_primitives:
  "named_ty enums (width_name w) = TInt w" "named_ty enums (float_width_name f) = TFloat f" "named_ty enums ''bool'' = TBool"
  "named_ty enums ''char'' = TChar" "named_ty enums ''string'' = TString"
proof -
  show "named_ty enums (width_name w) = TInt w" by (cases w; simp add: named_ty_def)
  show "named_ty enums (float_width_name f) = TFloat f" by (cases f; simp add: named_ty_def float_width_from_name_def)
qed (simp_all add: named_ty_def float_width_from_name_def)

lemma resolve_ty_written: "simple_type enums t \<Longrightarrow> resolve_ty enums (type_to_ty names ar sp t) = t"
  by (induction enums t rule: simple_type.induct) (auto simp: named_primitives split: type.splits)

end
