(* ===== verification/Instantiations.thy ===== *)
theory Instantiations
  imports TypeUnify Mir
begin

text \<open>
  The registry of generic instantiations, \<open>compiler/paco-mir/src/lower.rs\<close>: the symbols of instances, the instances
  already requested, the queue of those still to be lowered, and the values and sites of compile-time blocks.  Keys are
  compared as \<open>==\<close> compares types, without the written form of dimensions.  A call of \<open>record\<close> that exceeds the cap
  panics; the model returns \<open>None\<close>.
\<close>

section \<open>Symbols\<close>

fun mangle_width :: "int_width \<Rightarrow> string" where
  "mangle_width I8 = ''i8''"
| "mangle_width I16 = ''i16''"
| "mangle_width I32 = ''i32''"
| "mangle_width I64 = ''i64''"
| "mangle_width U8 = ''u8''"
| "mangle_width U16 = ''u16''"
| "mangle_width U32 = ''u32''"
| "mangle_width U64 = ''u64''"

fun mangle_type :: "(string \<rightharpoonup> string) \<Rightarrow> arena \<Rightarrow> type \<Rightarrow> string" where
  "mangle_type names ar (TInt w) = mangle_width w"
| "mangle_type names ar (TFloat w) = float_width_name w"
| "mangle_type names ar TBool = ''bool''"
| "mangle_type names ar TChar = ''char''"
| "mangle_type names ar TString = ''string''"
| "mangle_type names ar TUnit = ''unit''"
| "mangle_type names ar (TStruct name args) =
    (if args = [] then name else name @ ''_'' @ join_with ''_'' (map (mangle_type names ar) args))"
| "mangle_type names ar (TEnum name args) =
    (if args = [] then name else name @ ''_'' @ join_with ''_'' (map (mangle_type names ar) args))"
| "mangle_type names ar (TSlice elem) = ''slice_'' @ mangle_type names ar elem"
| "mangle_type names ar (TTuple items) = ''tuple_'' @ join_with ''_'' (map (mangle_type names ar) items)"
| "mangle_type names ar (TBorrow m ty) = (if m then ''refmut'' else ''ref'') @ ''_'' @ mangle_type names ar ty"
| "mangle_type names ar (TRawPointer m ty) = (if m then ''ptrmut'' else ''ptr'') @ ''_'' @ mangle_type names ar ty"
| "mangle_type names ar (TGeneric name) = ''generic_'' @ name"
| "mangle_type names ar (TDim DimDyn) = ''dyn''"
| "mangle_type names ar (TDim (DimConst e)) = (case as_lit ar e of
     Some v \<Rightarrow> ''d'' @ int_string v
   | None \<Rightarrow> ''dexpr'' @ filter (\<lambda>c. c \<noteq> CHR '' '') (normal_form names ar e))"
| "mangle_type names ar (TPack items) =
    ''pack'' @ nat_string (length items) @ ''_'' @ join_with ''_'' (map (mangle_type names ar) items)"
| "mangle_type names ar _ = ''unknown''"

definition mangled_name :: "(string \<rightharpoonup> string) \<Rightarrow> arena \<Rightarrow> string \<Rightarrow> type list \<Rightarrow> string" where
  "mangled_name names ar method args =
    (if args = [] then method else method @ ''::'' @ join_with ''_'' (map (mangle_type names ar) args))"

section \<open>The registry\<close>

type_synonym instance_key = "string \<times> type list"
type_synonym comptime_key = "nat \<times> string"

datatype comptime_value =
    CtScalar mir_constant
  | CtRecord type "comptime_value list"
  | CtVariant type string "comptime_value list"
  | CtSlice type "comptime_value list"
  | CtType type
  | CtCode "(expr, block) quote_body"

record comptime_site =
  cs_name :: string
  cs_key :: comptime_key
  cs_span :: span
  cs_ty :: type

record instantiation_registry =
  rg_seen :: "instance_key list"
  rg_pending :: "instance_key list"
  rg_max :: nat
  rg_comptime_values :: "comptime_key \<rightharpoonup> comptime_value"
  rg_comptime_sites :: "comptime_site list"

definition DEFAULT_MAX_INSTANTIATIONS_PER_METHOD :: nat where "DEFAULT_MAX_INSTANTIATIONS_PER_METHOD = 4096"

definition registry_new :: instantiation_registry where
  "registry_new = \<lparr>rg_seen = [], rg_pending = [], rg_max = DEFAULT_MAX_INSTANTIATIONS_PER_METHOD,
     rg_comptime_values = Map.empty, rg_comptime_sites = []\<rparr>"

definition registry_with_max :: "nat \<Rightarrow> instantiation_registry \<Rightarrow> instantiation_registry" where
  "registry_with_max n rg = rg\<lparr>rg_max := n\<rparr>"

text \<open>The key of an instance, up to the equality of types.\<close>

definition same_key :: "instance_key \<Rightarrow> instance_key" where
  "same_key k = (fst k, map written_free (snd k))"

definition registry_record :: "(string \<rightharpoonup> string) \<Rightarrow> arena \<Rightarrow> string \<Rightarrow> type list \<Rightarrow> instantiation_registry
    \<Rightarrow> (string \<times> instantiation_registry) option" where
  "registry_record names ar method args rg =
    (if args = [] then Some (method, rg)
     else let key = (method, args); mangled = mangled_name names ar method args
          in if same_key key \<in> same_key ` set (rg_seen rg) then Some (mangled, rg)
             else let rg = rg\<lparr>rg_seen := rg_seen rg @ [key]\<rparr>;
                      count = length (filter (\<lambda>(name, _). name = method) (rg_seen rg))
                  in if rg_max rg \<le> count then None
                     else Some (mangled, rg\<lparr>rg_pending := rg_pending rg @ [key]\<rparr>))"

definition registry_request :: "(string \<rightharpoonup> string) \<Rightarrow> arena \<Rightarrow> string \<Rightarrow> type list \<Rightarrow> instantiation_registry
    \<Rightarrow> (string \<times> instantiation_registry) option" where
  "registry_request names ar method args rg = registry_record names ar method args rg"

definition set_comptime_values :: "(comptime_key \<rightharpoonup> comptime_value) \<Rightarrow> instantiation_registry \<Rightarrow> instantiation_registry" where
  "set_comptime_values vs rg = rg\<lparr>rg_comptime_values := vs\<rparr>"

definition comptime_value_of :: "instantiation_registry \<Rightarrow> comptime_key \<Rightarrow> comptime_value option" where
  "comptime_value_of rg key = rg_comptime_values rg key"

definition record_comptime_site :: "comptime_site \<Rightarrow> instantiation_registry \<Rightarrow> instantiation_registry" where
  "record_comptime_site site rg = rg\<lparr>rg_comptime_sites := rg_comptime_sites rg @ [site]\<rparr>"

definition has_comptime_sites :: "instantiation_registry \<Rightarrow> bool" where
  "has_comptime_sites rg \<longleftrightarrow> rg_comptime_sites rg \<noteq> []"

definition take_comptime_sites :: "instantiation_registry \<Rightarrow> comptime_site list \<times> instantiation_registry" where
  "take_comptime_sites rg = (rg_comptime_sites rg, rg\<lparr>rg_comptime_sites := []\<rparr>)"

definition drain_pending :: "instantiation_registry \<Rightarrow> instance_key list \<times> instantiation_registry" where
  "drain_pending rg = (rg_pending rg, rg\<lparr>rg_pending := []\<rparr>)"

section \<open>Every instance is lowered once\<close>

text \<open>A compilation asks for instances and drains the queue, in any order.\<close>

datatype registry_step =
    Ask string "type list"
  | Drain
  | Site comptime_site
  | Sites
  | Values "comptime_key \<rightharpoonup> comptime_value"

fun registry_run :: "(string \<rightharpoonup> string) \<Rightarrow> arena \<Rightarrow> registry_step list \<Rightarrow> instance_key list \<times> instantiation_registry
    \<Rightarrow> (instance_key list \<times> instantiation_registry) option" where
  "registry_run names ar [] st = Some st"
| "registry_run names ar (Ask m args # steps) (lowered, rg) = (case registry_request names ar m args rg of
     None \<Rightarrow> None | Some (_, rg) \<Rightarrow> registry_run names ar steps (lowered, rg))"
| "registry_run names ar (Drain # steps) (lowered, rg) =
    (case drain_pending rg of (batch, rg) \<Rightarrow> registry_run names ar steps (lowered @ batch, rg))"
| "registry_run names ar (Site s # steps) (lowered, rg) = registry_run names ar steps (lowered, record_comptime_site s rg)"
| "registry_run names ar (Sites # steps) (lowered, rg) = registry_run names ar steps (lowered, snd (take_comptime_sites rg))"
| "registry_run names ar (Values vs # steps) (lowered, rg) = registry_run names ar steps (lowered, set_comptime_values vs rg)"

text \<open>What was asked for: the first request of every instance, in order.\<close>

fun asked :: "instance_key list \<Rightarrow> registry_step list \<Rightarrow> instance_key list" where
  "asked known [] = known"
| "asked known (Ask m args # steps) =
    (if args = [] \<or> same_key (m, args) \<in> same_key ` set known then asked known steps else asked (known @ [(m, args)]) steps)"
| "asked known (_ # steps) = asked known steps"

lemma registry_record_Some:
  assumes "registry_record names ar m args rg = Some (symbol, rg')"
  shows "symbol = mangled_name names ar m args"
    and "rg_seen rg' = (if args = [] \<or> same_key (m, args) \<in> same_key ` set (rg_seen rg) then rg_seen rg else rg_seen rg @ [(m, args)])"
    and "rg_pending rg' = (if args = [] \<or> same_key (m, args) \<in> same_key ` set (rg_seen rg) then rg_pending rg else rg_pending rg @ [(m, args)])"
    and "rg_max rg' = rg_max rg"
  using assms by (auto simp: registry_record_def mangled_name_def Let_def split: if_splits)

lemma registry_run_seen:
  assumes "registry_run names ar steps (lowered, rg) = Some (lowered', rg')" "lowered @ rg_pending rg = rg_seen rg"
  shows "lowered' @ rg_pending rg' = rg_seen rg' \<and> rg_seen rg' = asked (rg_seen rg) steps \<and> rg_max rg' = rg_max rg"
  using assms
proof (induction names ar steps "(lowered, rg)" arbitrary: lowered rg rule: registry_run.induct)
  case (2 names ar m args steps lowered rg)
  from 2(2) obtain symbol rg1 where r: "registry_record names ar m args rg = Some (symbol, rg1)"
    and rest: "registry_run names ar steps (lowered, rg1) = Some (lowered', rg')"
    by (auto simp: registry_request_def split: option.splits)
  have "lowered @ rg_pending rg1 = rg_seen rg1" using registry_record_Some [OF r] 2(3) by auto
  then show ?case using 2(1) [of "(symbol, rg1)" symbol rg1] r rest registry_record_Some [OF r] by (simp add: registry_request_def)
next
  case (3 names ar steps lowered rg)
  then show ?case by (simp add: drain_pending_def)
qed (auto simp: record_comptime_site_def take_comptime_sites_def set_comptime_values_def)

lemma asked_distinct: "distinct (map same_key known) \<Longrightarrow> distinct (map same_key (asked known steps))"
  by (induction known steps rule: asked.induct) auto

lemma asked_set: "same_key ` set (asked known steps) = same_key ` set known \<union> {same_key (m, args) |m args. Ask m args \<in> set steps \<and> args \<noteq> []}"
  by (induction known steps rule: asked.induct) (auto simp: image_iff)

lemma registry_run_cap:
  assumes "registry_run names ar steps (lowered, rg) = Some (lowered', rg')"
    "\<forall>m. 0 < length (filter (\<lambda>(name, _). name = m) (rg_seen rg)) \<longrightarrow> length (filter (\<lambda>(name, _). name = m) (rg_seen rg)) < rg_max rg"
  shows "0 < length (filter (\<lambda>(name, _). name = m) (rg_seen rg')) \<longrightarrow> length (filter (\<lambda>(name, _). name = m) (rg_seen rg')) < rg_max rg'"
  using assms
proof (induction names ar steps "(lowered, rg)" arbitrary: lowered rg rule: registry_run.induct)
  case (2 names ar m args steps lowered rg)
  from 2(2) obtain symbol rg1 where r: "registry_record names ar m args rg = Some (symbol, rg1)"
    and rest: "registry_run names ar steps (lowered, rg1) = Some (lowered', rg')"
    by (auto simp: registry_request_def split: option.splits)
  have "\<forall>m. 0 < length (filter (\<lambda>(name, _). name = m) (rg_seen rg1)) \<longrightarrow>
      length (filter (\<lambda>(name, _). name = m) (rg_seen rg1)) < rg_max rg1"
    using r 2(3) by (auto simp: registry_record_def Let_def split: if_splits)
  then show ?case using 2(1) [of "(symbol, rg1)" symbol rg1] r rest by (simp add: registry_request_def)
qed (auto simp: record_comptime_site_def take_comptime_sites_def set_comptime_values_def drain_pending_def)

text \<open>C17: whatever the order of requests and drains, every instance that was asked for is lowered exactly once or still
  waits to be, in the order of the first requests; and no method has as many instances as the cap.\<close>

theorem instances_lowered_once:
  assumes "registry_run names ar steps ([], registry_with_max cap registry_new) = Some (lowered, rg)"
  shows "lowered @ rg_pending rg = asked [] steps
    \<and> distinct (map same_key (lowered @ rg_pending rg))
    \<and> same_key ` set (lowered @ rg_pending rg) = {same_key (m, args) |m args. Ask m args \<in> set steps \<and> args \<noteq> []}
    \<and> (lowered @ rg_pending rg \<noteq> [] \<longrightarrow> length (filter (\<lambda>(name, _). name = m) (lowered @ rg_pending rg)) < cap)"
proof -
  have new: "rg_pending (registry_with_max cap registry_new) = []" "rg_seen (registry_with_max cap registry_new) = []"
    "rg_max (registry_with_max cap registry_new) = cap"
    by (simp_all add: registry_with_max_def registry_new_def)
  have run: "lowered @ rg_pending rg = asked [] steps" "rg_seen rg = asked [] steps" "rg_max rg = cap"
    using registry_run_seen [OF assms] by (simp_all add: new)
  have count: "0 < length (filter (\<lambda>(name, _). name = n) (asked [] steps)) \<longrightarrow>
      length (filter (\<lambda>(name, _). name = n) (asked [] steps)) < cap" for n
    using registry_run_cap [OF assms, of n] by (simp add: new run)
  have "0 < cap" if "asked [] steps \<noteq> []"
    using count [of "fst (hd (asked [] steps))"] that by (cases "asked [] steps") auto
  then show ?thesis unfolding run(1) using count [of m] asked_distinct [of "[]" steps] asked_set [of "[]" steps] by auto
qed

theorem instances_lowered_once_witness:
  "\<exists>lowered rg. registry_run Map.empty arena_default
      [Ask ''push'' [TInt I64], Ask ''len'' [], Drain, Ask ''push'' [TInt I64], Ask ''push'' [TBool]] ([], registry_with_max 3 registry_new)
      = Some (lowered, rg)
    \<and> lowered @ rg_pending rg = [(''push'', [TInt I64]), (''push'', [TBool])]"
proof -
  let ?steps = "[Ask ''push'' [TInt I64], Ask ''len'' [], Drain, Ask ''push'' [TInt I64], Ask ''push'' [TBool]]"
  obtain lowered rg where r: "registry_run Map.empty arena_default ?steps ([], registry_with_max 3 registry_new) = Some (lowered, rg)"
    by (auto simp: registry_request_def registry_record_def drain_pending_def registry_with_max_def registry_new_def same_key_def Let_def)
  have "asked [] ?steps = [(''push'', [TInt I64]), (''push'', [TBool])]" by (simp add: same_key_def)
  then show ?thesis using instances_lowered_once [OF r] r by auto
qed

text \<open>C38: two instances of a method may have one symbol: the name of a generic type with its argument, written with an
  underscore, is the name a program may give to another type.\<close>

theorem symbols_collide:
  assumes "registry_record names ar method [TStruct ''A'' [TInt I64]] rg = Some (first, rg1)"
    "registry_record names ar method [TStruct ''A_i64'' []] rg1 = Some (second, rg2)"
  shows "same_key (method, [TStruct ''A'' [TInt I64]]) \<noteq> same_key (method, [TStruct ''A_i64'' []]) \<and> first = second"
  using registry_record_Some(1) [OF assms(1)] registry_record_Some(1) [OF assms(2)]
  by (simp add: same_key_def mangled_name_def join_with_def)

theorem symbols_collide_witness:
  "\<exists>first rg1 second rg2. registry_record Map.empty arena_default ''f'' [TStruct ''A'' [TInt I64]] registry_new = Some (first, rg1)
    \<and> registry_record Map.empty arena_default ''f'' [TStruct ''A_i64'' []] rg1 = Some (second, rg2)
    \<and> first = second \<and> length (rg_pending rg2) = 2"
proof -
  obtain first rg1 second rg2 where
    r: "registry_record Map.empty arena_default ''f'' [TStruct ''A'' [TInt I64]] registry_new = Some (first, rg1)"
      "registry_record Map.empty arena_default ''f'' [TStruct ''A_i64'' []] rg1 = Some (second, rg2)" and l: "length (rg_pending rg2) = 2"
    by (auto simp: registry_record_def registry_new_def DEFAULT_MAX_INSTANTIATIONS_PER_METHOD_def same_key_def Let_def)
  show ?thesis using symbols_collide [OF r] r l by blast
qed

end
