(* ===== verification/Glue.thy ===== *)
theory Glue
  imports TypeLayouts Instantiations
begin

text \<open>
  Facts about owning types, \<open>compiler/paco-mir/src/glue.rs\<close>: which types need drop and clone glue, the offsets glue
  works with, and the owning types of a program.  The analysis with its memo and its set of types being visited runs
  over the state of the layouts; its recursion is bounded by a depth.  Types compare as \<open>==\<close> does, so memo and sets
  hold them without the written form of dimensions.
\<close>

section \<open>Offsets and kinds of types\<close>

definition CELL_COUNT_OFFSET :: nat where "CELL_COUNT_OFFSET = 0"
definition CELL_LOCK_OFFSET :: nat where "CELL_LOCK_OFFSET = 8"
definition CELL_VALUE_OFFSET :: nat where "CELL_VALUE_OFFSET = 16"
definition CLOSURE_HEADER :: nat where "CLOSURE_HEADER = 8"
definition CLOSURE_DROP_FN :: nat where "CLOSURE_DROP_FN = 8"
definition SLICE_DATA_OFFSET :: nat where "SLICE_DATA_OFFSET = 0"
definition SLICE_LEN_OFFSET :: nat where "SLICE_LEN_OFFSET = 8"

definition is_cell :: "type \<Rightarrow> type_layouts \<Rightarrow> bool" where
  "is_cell ty ly = (case ty of
     TStruct name _ \<Rightarrow> name \<in> {''Rc'', ''Arc'', ''Cell'', ''RefCell'', ''Mutex'', ''RwLock''} \<and> \<not> has_struct ly name
   | _ \<Rightarrow> False)"

definition handle_fns :: "type \<Rightarrow> type_layouts \<Rightarrow> (string \<times> string) option" where
  "handle_fns ty ly = (case ty of
     TStruct name _ \<Rightarrow>
       if has_struct ly name then None
       else if name = ''Sender'' then Some (''paco_rt_sender_retain'', ''paco_rt_sender_release'')
       else if name = ''Receiver'' then Some (''paco_rt_receiver_retain'', ''paco_rt_receiver_release'')
       else if name = ''JoinHandle'' then Some (''paco_rt_join_handle_retain'', ''paco_rt_join_handle_release'')
       else if name = ''Generator'' then Some (''paco_rt_generator_retain'', ''paco_rt_generator_release'')
       else if name = ''TcpListener'' then Some (''paco_rt_tcp_listener_retain'', ''paco_rt_tcp_listener_release'')
       else if name = ''TcpStream'' then Some (''paco_rt_tcp_stream_retain'', ''paco_rt_tcp_stream_release'')
       else None
   | _ \<Rightarrow> None)"

definition element_size :: "nat \<Rightarrow> type \<Rightarrow> nat lay" where
  "element_size n elem = (case elem of
     TStruct name args \<Rightarrow> (lay_then lay_state (\<lambda>ly.
       if has_struct ly name then (lay_then (tl_struct_layout n name args) (\<lambda>l.
         lay_ok (ly_size l))) else lay_ok 8))
   | TEnum name args \<Rightarrow> (lay_then (tl_enum_layout n name args) (\<lambda>l.
     lay_ok (ly_size l)))
   | TTuple items \<Rightarrow> (lay_then (tuple_layout n items) (\<lambda>l.
     lay_ok (ly_size l)))
   | _ \<Rightarrow> lay_ok (case scalar_layout elem of None \<Rightarrow> 8 | Some l \<Rightarrow> ly_size l))"

fun unresolved :: "type \<Rightarrow> bool" where
  "unresolved (TGeneric _) = True"
| "unresolved TUnknown = True"
| "unresolved TError = True"
| "unresolved (TStruct _ args) = list_ex unresolved args"
| "unresolved (TEnum _ args) = list_ex unresolved args"
| "unresolved (TTuple args) = list_ex unresolved args"
| "unresolved (TSlice inner) = unresolved inner"
| "unresolved (TBorrow _ inner) = unresolved inner"
| "unresolved (TRawPointer _ inner) = unresolved inner"
| "unresolved _ = False"

definition children :: "nat \<Rightarrow> type \<Rightarrow> type list lay" where
  "children n ty = (case ty of
     TSlice elem \<Rightarrow> lay_ok [elem]
   | TStruct name args \<Rightarrow> (lay_then lay_state (\<lambda>ly.
     if is_cell ty ly then lay_ok (take 1 args)
else if has_struct ly name then (lay_then (struct_fields n name args) (\<lambda>fs.
       lay_ok (map fst fs)))
else lay_ok []))
   | TEnum name args \<Rightarrow> (lay_then (enum_variants n name args) (\<lambda>vs.
     lay_ok (concat (map (\<lambda>(_, fs). map fst fs) vs))))
   | TTuple items \<Rightarrow> lay_ok items
   | _ \<Rightarrow> lay_ok [])"

definition glue_fields :: "nat \<Rightarrow> type \<Rightarrow> (type \<times> nat) list lay" where
  "glue_fields n ty = (case ty of
     TStruct name args \<Rightarrow> struct_fields n name args
   | TTuple items \<Rightarrow> lay_all (map (\<lambda>i. tuple_field n items i) [0..<length items])
   | _ \<Rightarrow> lay_ok [])"

section \<open>User destructors\<close>

type_synonym user_drops = "(type \<times> string) list"

definition user_drop_fn :: "(string \<rightharpoonup> string) \<Rightarrow> arena \<Rightarrow> string \<times> mir_body \<Rightarrow> (type \<times> string) option" where
  "user_drop_fn names ar = (\<lambda>(name, body). case take (body_param_count body) (body_locals body) of
     [l] \<Rightarrow> (case ld_ty l of
         TBorrow True ty \<Rightarrow> (case ty of
             TStruct owner args \<Rightarrow>
               if name = mangled_name names ar (owner @ ''::drop'') args \<and> type_eq (body_return_ty body) TUnit then Some (ty, name) else None
           | TEnum owner args \<Rightarrow>
               if name = mangled_name names ar (owner @ ''::drop'') args \<and> type_eq (body_return_ty body) TUnit then Some (ty, name) else None
           | _ \<Rightarrow> None)
       | _ \<Rightarrow> None)
   | _ \<Rightarrow> None)"

definition user_drop_fns :: "(string \<rightharpoonup> string) \<Rightarrow> arena \<Rightarrow> (string \<times> mir_body) list \<Rightarrow> user_drops" where
  "user_drop_fns names ar bodies = rev (map (\<lambda>(ty, name). (written_free ty, name)) (List.map_filter (user_drop_fn names ar) bodies))"

definition has_user_drop :: "user_drops \<Rightarrow> type \<Rightarrow> bool" where
  "has_user_drop drops ty \<longleftrightarrow> map_of drops (written_free ty) \<noteq> None"

section \<open>The analysis\<close>

record analysis =
  an_memo :: "(type \<times> bool) list"
  an_visiting :: "type list"

text \<open>\<open>children(..).iter().any(..)\<close> stops at the first child that needs it.\<close>

fun any_child :: "(type \<Rightarrow> analysis \<Rightarrow> (bool \<times> analysis) lay) \<Rightarrow> type list \<Rightarrow> analysis \<Rightarrow> (bool \<times> analysis) lay" where
  "any_child f [] an = lay_ok (False, an)"
| "any_child f (ty # tys) an = (lay_then (f ty an) (\<lambda>r.
  if fst r then lay_ok (True, snd r) else any_child f tys (snd r)))"

definition drop_of_parts :: "nat \<Rightarrow> user_drops \<Rightarrow> (type \<Rightarrow> analysis \<Rightarrow> (bool \<times> analysis) lay) \<Rightarrow> type \<Rightarrow> analysis \<Rightarrow> (bool \<times> analysis) lay" where
  "drop_of_parts n drops self ty an =
    (if has_user_drop drops ty then lay_ok (True, an) else (lay_then (children n ty) (\<lambda>cs.
      any_child self cs an)))"

definition drop_of_kind :: "nat \<Rightarrow> user_drops \<Rightarrow> (type \<Rightarrow> analysis \<Rightarrow> (bool \<times> analysis) lay) \<Rightarrow> type \<Rightarrow> analysis \<Rightarrow> (bool \<times> analysis) lay" where
  "drop_of_kind n drops self ty an = (lay_then lay_state (\<lambda>ly.
    (case ty of
TString \<Rightarrow> lay_ok (True, an)
| TSlice _ \<Rightarrow> lay_ok (True, an)
| TFn _ _ abi _ \<Rightarrow> lay_ok (abi = None, an)
| _ \<Rightarrow>
if is_cell ty ly \<or> handle_fns ty ly \<noteq> None then lay_ok (True, an)
else if unresolved ty then lay_ok (False, an)
else (case ty of
TStruct name _ \<Rightarrow> if \<not> has_struct ly name then lay_ok (False, an) else drop_of_parts n drops self ty an
| TEnum _ _ \<Rightarrow> drop_of_parts n drops self ty an
| TTuple _ \<Rightarrow> drop_of_parts n drops self ty an
| _ \<Rightarrow> lay_ok (False, an)))))"

fun needs_drop :: "nat \<Rightarrow> user_drops \<Rightarrow> type \<Rightarrow> analysis \<Rightarrow> (bool \<times> analysis) lay" where
  "needs_drop 0 drops ty an = lay_panic OutOfDepth"
| "needs_drop (Suc n) drops ty an = (case map_of (an_memo an) (written_free ty) of
     Some known \<Rightarrow> lay_ok (known, an)
   | None \<Rightarrow>
     if written_free ty \<in> set (an_visiting an) then lay_ok (False, an)
     else (lay_then (drop_of_kind n drops (needs_drop n drops) ty (an\<lparr>an_visiting := written_free ty # an_visiting an\<rparr>)) (\<lambda>r.
       lay_ok (fst r, (snd r)\<lparr>an_visiting := removeAll (written_free ty) (an_visiting (snd r)),
an_memo := (written_free ty, fst r) # an_memo (snd r)\<rparr>))))"

section \<open>The owning types of a program\<close>

fun place_types :: "place \<Rightarrow> type list" where
  "place_types (PLocal _) = []"
| "place_types (PField base _) = place_types base"
| "place_types (PVariantField base _ _) = place_types base"
| "place_types (PIndex base _) = place_types base"
| "place_types (PDeref _ ty) = [ty]"

definition rvalue_types :: "rvalue \<Rightarrow> type list" where
  "rvalue_types r = (case r of
     Aggregate ty _ _ \<Rightarrow> [ty]
   | Load _ ty \<Rightarrow> [ty]
   | Ref _ place \<Rightarrow> place_types place
   | Discriminant place \<Rightarrow> place_types place
   | SliceLen place \<Rightarrow> place_types place
   | Use (Copy place) \<Rightarrow> place_types place
   | Use (Move place) \<Rightarrow> place_types place
   | _ \<Rightarrow> [])"

definition statement_types :: "statement \<Rightarrow> type list" where
  "statement_types s = (case s of
     Assign place r \<Rightarrow> place_types place @ rvalue_types r
   | Store _ _ ty \<Rightarrow> [ty]
   | _ \<Rightarrow> [])"

definition body_types :: "mir_body \<Rightarrow> type list" where
  "body_types body = map ld_ty (body_locals body)
     @ concat (map (\<lambda>block. concat (map statement_types (bb_statements block))) (body_blocks body))"

text \<open>The loop of \<open>owning_types\<close>: the pending types with the last one first, the types seen, the analysis and the
  result so far.\<close>

fun owning_loop :: "nat \<Rightarrow> user_drops \<Rightarrow> type list \<Rightarrow> type list \<Rightarrow> analysis \<Rightarrow> type list \<Rightarrow> type list lay" where
  "owning_loop 0 drops pending seen an owning = lay_panic OutOfDepth"
| "owning_loop (Suc n) drops [] seen an owning = lay_ok owning"
| "owning_loop (Suc n) drops (ty # pending) seen an owning =
    (if written_free ty \<in> set seen then owning_loop n drops pending seen an owning
     else if unresolved ty then owning_loop n drops pending (written_free ty # seen) an owning
     else (lay_then (needs_drop n drops ty an) (\<lambda>r.
       lay_then ((case ty of TBorrow _ inner \<Rightarrow> lay_ok [inner] | TRawPointer _ inner \<Rightarrow> lay_ok [inner] | _ \<Rightarrow> children n ty)) (\<lambda>more.
       owning_loop n drops (rev more @ pending) (written_free ty # seen) (snd r) (if fst r then owning @ [ty] else owning)))))"

definition owning_types :: "nat \<Rightarrow> (string \<times> mir_body) list \<Rightarrow> user_drops \<Rightarrow> type list lay" where
  "owning_types n bodies drops =
    owning_loop n drops (rev (TString # concat (map (\<lambda>(_, body). body_types body) bodies))) [] \<lparr>an_memo = [], an_visiting = []\<rparr> []"

section \<open>Queries keep the layouts\<close>

text \<open>Every query of the layouts and of the glue extends the state of the layouts.\<close>

named_theorems keeps_queries \<open>queries that extend the layouts\<close>

lemma keeps_infos [keeps_queries]: "keeps (struct_info_of n name args)" "keeps (enum_info_of n name args)" "keeps (layout_of n ty)"
  "keeps (tuple_layout n items)"
  unfolding struct_info_of_def enum_info_of_def tuple_layout_def
  by (rule layouts.keeps_struct_info layouts.keeps_enum_info layouts.self_keeps layouts.keeps_tuple_layout)+

lemma keeps_pure [keeps_queries]: "keeps (lay_ok x)" "keeps (lay_panic p)" "keeps lay_state" "keeps (lay_require p opt)"
  by (rule keeps_arena_only, rule arena_rules)+

lemma keeps_if [keeps_queries]: "keeps f \<Longrightarrow> keeps g \<Longrightarrow> keeps (if b then f else g)"
  by simp

lemma keeps_case_option [keeps_queries]: "keeps f \<Longrightarrow> (\<And>x. keeps (g x)) \<Longrightarrow> keeps (case opt of None \<Rightarrow> f | Some x \<Rightarrow> g x)"
  by (simp split: option.split)

lemma keeps_all_map [keeps_queries]: "(\<And>x. keeps (f x)) \<Longrightarrow> keeps (lay_all (map f xs))"
  by (rule keeps_all) auto

declare keeps_then [keeps_queries]

lemma keeps_simple_queries [keeps_queries]:
  "keeps (tl_struct_layout n name args)" "keeps (tl_enum_layout n name args)" "keeps (tl_struct_field n name args f)"
  "keeps (tuple_field n items i)" "keeps (enum_variant_field n name args variant i)" "keeps (enum_variant_index n name args variant)"
  "keeps (enum_variant_names name)"
  unfolding tl_struct_layout_def tl_enum_layout_def tl_struct_field_def tuple_field_def enum_variant_field_def enum_variant_index_def
    enum_variant_names_def
  by (intro keeps_queries)+

lemma keeps_field_queries [keeps_queries]: "keeps (struct_fields n name args)" "keeps (enum_variants n name args)"
  unfolding struct_fields_def enum_variants_def by (intro keeps_queries)+

lemma keeps_glue_queries [keeps_queries]:
  "keeps (live_offset n ty)" "keeps (element_size n ty)" "keeps (children n ty)" "keeps (glue_fields n ty)"
proof -
  show "keeps (live_offset n ty)" unfolding live_offset_def by (intro keeps_queries) (cases ty; simp split del: if_split; intro keeps_queries)
  show "keeps (element_size n ty)" unfolding element_size_def by (cases ty; simp split del: if_split; intro keeps_queries)
  show "keeps (children n ty)" unfolding children_def by (cases ty; simp split del: if_split; intro keeps_queries)
  show "keeps (glue_fields n ty)" unfolding glue_fields_def by (cases ty; simp split del: if_split; intro keeps_queries)
qed

end
