(* ===== verification/MachineState.thy ===== *)
theory MachineState
  imports Quotes Glue Memory Text ConstFold Decimals "HOL-Library.Sublist"
begin

text \<open>
  The state of the compile-time machine and its access to data, \<open>compiler/paco-comptime/src/machine.rs\<close>: frames,
  places, operands, and the glue that drops and clones owned values.  A computation takes the machine to an outcome and
  the machine after it, also when it fails, as the frames of callers are popped then.  The program's bodies, which are
  lowered on demand, the rendering of floats, debug strings and syntax, and the front end that parses joined code are
  parameters in the record \<open>environment\<close>.  Functions that call back into evaluation take it as the record \<open>evaluator\<close>.  Arithmetic
  on addresses wraps, as it does in a release build.
\<close>

unbundle bit_operations_syntax

section \<open>State\<close>

definition FUNCTION_TAG :: addr where "FUNCTION_TAG = 0x4000000000000000"

record limits =
  lim_instructions :: nat
  lim_call_depth :: nat

definition limits_default :: limits where
  "limits_default = \<lparr>lim_instructions = 200000, lim_call_depth = 40\<rparr>"

record environment =
  env_body :: "string \<rightharpoonup> mir_body"
  env_externs :: "string list"
  env_structs :: "string \<rightharpoonup> (string \<times> expr ty) list"
  env_enums :: "string list"
  env_limits :: limits
  env_names :: dim_names
  env_libm :: libm
  env_format_float :: "f64 \<Rightarrow> int \<Rightarrow> string"
  env_debug :: "type \<Rightarrow> string"
  env_format_item :: "an_item \<Rightarrow> string"
  env_format_expr :: "expr \<Rightarrow> string"
  env_debug_text :: "string \<Rightarrow> string"
  env_depth :: nat

record frame =
  fr_body :: mir_body
  fr_locals :: "addr list"
  fr_flags :: "bool list"
  fr_borrowed :: "nat list"
  fr_scratch :: "addr list"
  fr_span :: span

record machine =
  ms_layouts :: type_layouts
  ms_memory :: memory
  ms_types :: "type list"
  ms_codes :: "code list"
  ms_functions :: "string list"
  ms_function_ids :: "(string \<times> addr) list"
  ms_statics :: "(string \<times> addr) list"
  ms_output :: string
  ms_stderr :: string
  ms_executed :: nat
  ms_depth :: nat
  ms_drops :: "(type \<times> bool) list"
  ms_borrowed :: "(string \<times> nat list) list"
  ms_frames :: "frame list"

definition machine_new :: "type_layouts \<Rightarrow> machine" where
  "machine_new ly = \<lparr>ms_layouts = ly, ms_memory = memory_default, ms_types = [], ms_codes = [], ms_functions = [],
     ms_function_ids = [], ms_statics = [], ms_output = [], ms_stderr = [], ms_executed = 0, ms_depth = 0, ms_drops = [],
     ms_borrowed = [], ms_frames = []\<rparr>"

section \<open>Computations\<close>

type_synonym 'a mach = "machine \<Rightarrow> 'a outcome \<times> machine"

definition m_ok :: "'a \<Rightarrow> 'a mach" where
  "m_ok x s = (Ok x, s)"

definition m_panic :: "'a mach" where
  "m_panic s = (Panicked, s)"

definition m_starved :: "'a mach" where
  "m_starved s = (OutOfFuel, s)"

definition m_bind :: "'a mach \<Rightarrow> ('a \<Rightarrow> 'b mach) \<Rightarrow> 'b mach" where
  "m_bind f g s = (case f s of
     (Ok x, s) \<Rightarrow> g x s
   | (Failed msg sp, s) \<Rightarrow> (Failed msg sp, s)
   | (Panicked, s) \<Rightarrow> (Panicked, s)
   | (OutOfFuel, s) \<Rightarrow> (OutOfFuel, s))"

definition m_get :: "(machine \<Rightarrow> 'a) \<Rightarrow> 'a mach" where
  "m_get f s = (Ok (f s), s)"

definition m_lift :: "'a outcome \<Rightarrow> 'a mach" where
  "m_lift x s = (x, s)"

text \<open>\<open>Error::new\<close>, \<open>self.fail\<close> and \<open>self.located\<close>.\<close>

definition m_error :: "string \<Rightarrow> 'a mach" where
  "m_error msg s = (Failed msg None, s)"

definition top_span :: "machine \<Rightarrow> span option" where
  "top_span s = (case ms_frames s of [] \<Rightarrow> None | f # _ \<Rightarrow> Some (fr_span f))"

definition m_fail :: "string \<Rightarrow> 'a mach" where
  "m_fail msg s = (Failed msg (top_span s), s)"

definition m_located :: "'a mach \<Rightarrow> 'a mach" where
  "m_located f s = (case f s of
     (Failed msg None, s) \<Rightarrow> (Failed msg (top_span s), s)
   | r \<Rightarrow> r)"

text \<open>Steps of the memory and of the layouts.\<close>

definition m_read :: "(memory \<Rightarrow> 'a outcome) \<Rightarrow> 'a mach" where
  "m_read f s = (f (ms_memory s), s)"

definition m_write :: "(memory \<Rightarrow> memory outcome) \<Rightarrow> unit mach" where
  "m_write f s = (case f (ms_memory s) of
     Ok m \<Rightarrow> (Ok (), s\<lparr>ms_memory := m\<rparr>)
   | Failed msg sp \<Rightarrow> (Failed msg sp, s)
   | Panicked \<Rightarrow> (Panicked, s)
   | OutOfFuel \<Rightarrow> (OutOfFuel, s))"

definition m_alloc :: "nat \<Rightarrow> bool \<Rightarrow> addr mach" where
  "m_alloc sz fixed s = (case memory_alloc sz fixed (ms_memory s) of
     Ok (a, m) \<Rightarrow> (Ok a, s\<lparr>ms_memory := m\<rparr>)
   | Failed msg sp \<Rightarrow> (Failed msg sp, s)
   | Panicked \<Rightarrow> (Panicked, s)
   | OutOfFuel \<Rightarrow> (OutOfFuel, s))"

definition m_layout :: "'a lay \<Rightarrow> 'a mach" where
  "m_layout f s = (case f (ms_layouts s) of
     Inr (x, ly) \<Rightarrow> (Ok x, s\<lparr>ms_layouts := ly\<rparr>)
   | Inl OutOfDepth \<Rightarrow> (OutOfFuel, s)
   | Inl _ \<Rightarrow> (Panicked, s))"

definition m_nth :: "'a list \<Rightarrow> nat \<Rightarrow> 'a mach" where
  "m_nth xs i = (if i < length xs then m_ok (xs ! i) else m_panic)"

definition m_require :: "'a option \<Rightarrow> 'a mach" where
  "m_require x = (case x of None \<Rightarrow> m_panic | Some x \<Rightarrow> m_ok x)"

text \<open>\<open>frame\<close> and \<open>frame_mut\<close>: the newest frame is the first.\<close>

definition m_frame :: "frame mach" where
  "m_frame s = (case ms_frames s of [] \<Rightarrow> (Panicked, s) | f # _ \<Rightarrow> (Ok f, s))"

definition m_frame_mut :: "(frame \<Rightarrow> frame) \<Rightarrow> unit mach" where
  "m_frame_mut g s = (case ms_frames s of [] \<Rightarrow> (Panicked, s) | f # fs \<Rightarrow> (Ok (), s\<lparr>ms_frames := g f # fs\<rparr>))"

definition m_set_flag :: "nat \<Rightarrow> bool \<Rightarrow> unit mach" where
  "m_set_flag i b = (m_bind m_frame (\<lambda>f.
    if i < length (fr_flags f) then m_frame_mut (\<lambda>f. f\<lparr>fr_flags := (fr_flags f)[i := b]\<rparr>) else m_panic))"

fun m_each :: "('a \<Rightarrow> unit mach) \<Rightarrow> 'a list \<Rightarrow> unit mach" where
  "m_each f [] = m_ok ()"
| "m_each f (x # xs) = (m_bind (f x) (\<lambda>_.
  m_each f xs))"

fun m_map :: "('a \<Rightarrow> 'b mach) \<Rightarrow> 'a list \<Rightarrow> 'b list mach" where
  "m_map f [] = m_ok []"
| "m_map f (x # xs) = (m_bind (f x) (\<lambda>y.
  m_bind (m_map f xs) (\<lambda>ys.
  m_ok (y # ys))))"

text \<open>\<open>for index in 0..len\<close>, the count of what remains going down.\<close>

primrec m_count :: "(nat \<Rightarrow> unit mach) \<Rightarrow> nat \<Rightarrow> nat \<Rightarrow> unit mach" where
  "m_count f i 0 = m_ok ()"
| "m_count f i (Suc k) = (m_bind (f i) (\<lambda>_.
  m_count f (Suc i) k))"

definition m_tick :: "environment \<Rightarrow> unit mach" where
  "m_tick env s = (let s = s\<lparr>ms_executed := ms_executed s + 1\<rparr> in
     if lim_instructions (env_limits env) < ms_executed s
     then m_fail (''exceeded the comptime instruction budget ('' @ nat_string (lim_instructions (env_limits env)) @ '' instructions)'') s
     else (Ok (), s))"

section \<open>Types and layouts\<close>

definition word_bytes :: "addr \<Rightarrow> byte list" where
  "word_bytes a = le_bytes 8 (uint a)"

definition bytes_word :: "byte list \<Rightarrow> addr" where
  "bytes_word bs = word_of_int (le_value bs)"

fun strip_borrow :: "type \<Rightarrow> type" where
  "strip_borrow (TBorrow _ ty) = strip_borrow ty"
| "strip_borrow ty = ty"

definition slice_elem :: "type \<Rightarrow> type mach" where
  "slice_elem ty = (case strip_borrow ty of TSlice elem \<Rightarrow> m_ok elem | _ \<Rightarrow> m_panic)"

definition is_real_aggregate :: "type \<Rightarrow> type_layouts \<Rightarrow> bool" where
  "is_real_aggregate ty ly = (case ty of
     TStruct name _ \<Rightarrow> has_struct ly name
   | TEnum _ _ \<Rightarrow> True
   | TTuple _ \<Rightarrow> True
   | TSlice _ \<Rightarrow> True
   | TString \<Rightarrow> True
   | _ \<Rightarrow> False)"

definition m_size_of :: "environment \<Rightarrow> type \<Rightarrow> nat mach" where
  "m_size_of env ty = (case ty of
     TUnit \<Rightarrow> m_ok 0
   | TNever \<Rightarrow> m_ok 0
   | TStruct name args \<Rightarrow> (m_bind (m_get ms_layouts) (\<lambda>ly.
     if has_struct ly name then (m_bind (m_layout (tl_struct_layout (env_depth env) name args)) (\<lambda>l.
       m_ok (ly_size l))) else m_ok 8))
   | TEnum name args \<Rightarrow> (m_bind (m_layout (tl_enum_layout (env_depth env) name args)) (\<lambda>l.
     m_ok (ly_size l)))
   | TTuple items \<Rightarrow> (m_bind (m_layout (tuple_layout (env_depth env) items)) (\<lambda>l.
     m_ok (ly_size l)))
   | TSlice _ \<Rightarrow> m_ok 16
   | TString \<Rightarrow> m_ok 16
   | TInt w \<Rightarrow> m_ok (width_bytes w)
   | TFloat w \<Rightarrow> m_ok (float_width_bytes w)
   | TBool \<Rightarrow> m_ok 1
   | TChar \<Rightarrow> m_ok 4
   | _ \<Rightarrow> m_ok 8)"

fun m_field_of :: "environment \<Rightarrow> type \<Rightarrow> string \<Rightarrow> (type \<times> nat) mach" where
  "m_field_of env (TBorrow _ ty) f = m_field_of env ty f"
| "m_field_of env (TTuple items) f = (m_bind (m_require (parse_u64 f)) (\<lambda>i.
  m_layout (tuple_field (env_depth env) items i)))"
| "m_field_of env (TStruct name args) f = m_layout (tl_struct_field (env_depth env) name args f)"
| "m_field_of env _ f = m_panic"

definition m_variant_field :: "environment \<Rightarrow> type \<Rightarrow> string \<Rightarrow> nat \<Rightarrow> (type \<times> nat) mach" where
  "m_variant_field env base variant i = (case strip_borrow base of
     TEnum name args \<Rightarrow> m_layout (enum_variant_field (env_depth env) name args variant i)
   | _ \<Rightarrow> m_panic)"

definition m_local :: "nat \<Rightarrow> local_decl mach" where
  "m_local l = (m_bind m_frame (\<lambda>f.
    m_nth (body_locals (fr_body f)) l))"

fun m_place_ty :: "environment \<Rightarrow> place \<Rightarrow> type mach" where
  "m_place_ty env (PLocal l) = (m_bind (m_local l) (\<lambda>d.
    m_ok (ld_ty d)))"
| "m_place_ty env (PField base f) = (m_bind (m_place_ty env base) (\<lambda>t.
  m_bind (m_field_of env t f) (\<lambda>r.
  m_ok (fst r))))"
| "m_place_ty env (PVariantField base variant i) = (m_bind (m_place_ty env base) (\<lambda>t.
  m_bind (m_variant_field env t variant i) (\<lambda>r.
  m_ok (fst r))))"
| "m_place_ty env (PIndex base _) = (m_bind (m_place_ty env base) (\<lambda>t.
  slice_elem t))"
| "m_place_ty env (PDeref _ ty) = m_ok ty"

definition m_operand_ty :: "environment \<Rightarrow> operand \<Rightarrow> type mach" where
  "m_operand_ty env opd = (case opd of
     Copy place \<Rightarrow> m_place_ty env place
   | Move place \<Rightarrow> m_place_ty env place
   | Constant c \<Rightarrow> m_ok (constant_type c))"

definition m_user_drop :: "environment \<Rightarrow> type \<Rightarrow> string option mach" where
  "m_user_drop env ty = (case (case ty of TStruct owner args \<Rightarrow> Some (owner, args) | TEnum owner args \<Rightarrow> Some (owner, args) | _ \<Rightarrow> None) of
     None \<Rightarrow> m_ok None
   | Some (owner, args) \<Rightarrow> (m_bind (m_get ms_layouts) (\<lambda>ly.
     let name = mangled_name (dn_display (env_names env)) (tl_arena ly) (owner @ ''::drop'') args in
     (case env_body env name of
None \<Rightarrow> m_ok None
| Some body \<Rightarrow>
if length (body_locals body) < body_param_count body then m_panic
else m_ok (case take (body_param_count body) (body_locals body) of
[l] \<Rightarrow> (case ld_ty l of
TBorrow True inner \<Rightarrow> if type_eq inner ty \<and> type_eq (body_return_ty body) TUnit then Some name else None
| _ \<Rightarrow> None)
| _ \<Rightarrow> None)))))"

definition m_note_drop :: "type \<Rightarrow> bool \<Rightarrow> unit mach" where
  "m_note_drop ty b s = (Ok (), s\<lparr>ms_drops := (written_free ty, b) # ms_drops s\<rparr>)"

fun m_any :: "('a \<Rightarrow> bool mach) \<Rightarrow> 'a list \<Rightarrow> bool mach" where
  "m_any f [] = m_ok False"
| "m_any f (x # xs) = (m_bind (f x) (\<lambda>b.
  if b then m_ok True else m_any f xs))"

definition m_parts_need_drop :: "environment \<Rightarrow> (type \<Rightarrow> bool mach) \<Rightarrow> type \<Rightarrow> bool mach" where
  "m_parts_need_drop env self ty = (m_bind (m_user_drop env ty) (\<lambda>user.
    if user \<noteq> None then m_ok True
else (m_bind (m_layout (children (env_depth env) ty)) (\<lambda>cs.
      m_any self cs))))"

definition m_kind_needs_drop :: "environment \<Rightarrow> (type \<Rightarrow> bool mach) \<Rightarrow> type \<Rightarrow> bool mach" where
  "m_kind_needs_drop env self ty = (m_bind (m_get ms_layouts) (\<lambda>ly.
    (case ty of
TString \<Rightarrow> m_ok True
| TSlice _ \<Rightarrow> m_ok True
| TFn _ _ _ _ \<Rightarrow> m_ok True
| _ \<Rightarrow>
if is_cell ty ly \<or> handle_fns ty ly \<noteq> None then m_ok True
else if unresolved ty then m_ok False
else (case ty of
TStruct name _ \<Rightarrow> if \<not> has_struct ly name then m_ok False else m_parts_need_drop env self ty
| TEnum _ _ \<Rightarrow> m_parts_need_drop env self ty
| TTuple _ \<Rightarrow> m_parts_need_drop env self ty
| _ \<Rightarrow> m_ok False))))"

fun m_needs_drop_at :: "nat \<Rightarrow> environment \<Rightarrow> type \<Rightarrow> bool mach" where
  "m_needs_drop_at 0 env ty = m_starved"
| "m_needs_drop_at (Suc n) env ty = (m_bind (m_get (\<lambda>s. map_of (ms_drops s) (written_free ty))) (\<lambda>known.
  (case known of
Some b \<Rightarrow> m_ok b
| None \<Rightarrow> (m_bind (m_note_drop ty False) (\<lambda>_.
    m_bind (m_kind_needs_drop env (m_needs_drop_at n env) ty) (\<lambda>b.
    m_bind (m_note_drop ty b) (\<lambda>_.
    m_ok b)))))))"

definition m_needs_drop :: "environment \<Rightarrow> type \<Rightarrow> bool mach" where
  "m_needs_drop env = m_needs_drop_at (env_depth env) env"

section \<open>Places and operands\<close>

definition m_scratch :: "nat \<Rightarrow> addr mach" where
  "m_scratch sz = (m_bind (m_alloc sz False) (\<lambda>a.
    m_bind (m_frame_mut (\<lambda>f. f\<lparr>fr_scratch := fr_scratch f @ [a]\<rparr>)) (\<lambda>_.
    m_ok a)))"

definition m_local_address :: "nat \<Rightarrow> addr mach" where
  "m_local_address l = (m_bind m_frame (\<lambda>f.
    m_nth (fr_locals f) l))"

definition text_bytes :: "string \<Rightarrow> byte list" where
  "text_bytes s = map (\<lambda>c. word_of_nat (of_char c)) s"

definition m_type_handle :: "type \<Rightarrow> addr mach" where
  "m_type_handle ty s = (case find (\<lambda>i. type_eq (ms_types s ! i) ty) [0..<length (ms_types s)] of
     Some i \<Rightarrow> (Ok (of_nat i), s)
   | None \<Rightarrow> (Ok (of_nat (length (ms_types s))), s\<lparr>ms_types := ms_types s @ [ty]\<rparr>))"

definition m_type_of_handle :: "addr \<Rightarrow> type mach" where
  "m_type_of_handle h s = (if unat h < length (ms_types s) then (Ok (ms_types s ! unat h), s) else m_error ''invalid `type` value'' s)"

definition m_code_handle :: "code \<Rightarrow> addr mach" where
  "m_code_handle c s = (Ok (of_nat (length (ms_codes s))), s\<lparr>ms_codes := ms_codes s @ [c]\<rparr>)"

definition m_static :: "string \<Rightarrow> addr mach" where
  "m_static text = (m_bind (m_get (\<lambda>s. map_of (ms_statics s) text)) (\<lambda>known.
    (case known of
Some a \<Rightarrow> m_ok a
| None \<Rightarrow> (m_bind (m_alloc (length text) True) (\<lambda>a.
      m_bind (m_write (memory_write a (text_bytes text))) (\<lambda>_.
      m_bind ((\<lambda>s. (Ok (), s\<lparr>ms_statics := (text, a) # ms_statics s\<rparr>))) (\<lambda>_.
      m_ok a)))))))"

definition m_constant :: "mir_constant \<Rightarrow> byte list mach" where
  "m_constant c = (case c of
     CStr text \<Rightarrow> (m_bind (m_static text) (\<lambda>data.
       m_ok (word_bytes data @ le_bytes 8 (int (length text)))))
   | CType ty \<Rightarrow> (m_bind (m_type_handle ty) (\<lambda>h.
     m_ok (word_bytes h)))
   | _ \<Rightarrow> m_require (constant_scalar c))"

text \<open>\<open>read_place\<close>, given the address and type of a place that is not a local.\<close>

definition m_read_with :: "environment \<Rightarrow> place \<Rightarrow> (addr \<times> type) mach \<Rightarrow> byte list mach" where
  "m_read_with env place located = (case place of
     PLocal l \<Rightarrow> (m_bind (m_local l) (\<lambda>d.
       m_bind (m_local_address l) (\<lambda>a.
       m_bind (m_size_of env (ld_ty d)) (\<lambda>sz.
       m_read (memory_read a sz)))))
   | _ \<Rightarrow> (m_bind located (\<lambda>at.
     m_bind (m_size_of env (snd at)) (\<lambda>sz.
     m_read (memory_read (fst at) sz)))))"

definition int_of_operand :: "byte list \<Rightarrow> type \<Rightarrow> int outcome" where
  "int_of_operand bytes ty = (case ty of TInt w \<Rightarrow> int_value bytes w | _ \<Rightarrow> int_value bytes (min_bytes (length bytes)))"

definition pointer_of :: "byte list \<Rightarrow> addr" where
  "pointer_of bytes = bytes_word (take 8 bytes)"

definition m_index :: "environment \<Rightarrow> addr \<times> type \<Rightarrow> type mach \<Rightarrow> byte list mach \<Rightarrow> (addr \<times> type) mach" where
  "m_index env at ty_of index = (m_bind (slice_elem (snd at)) (\<lambda>elem.
    m_bind (m_read (memory_read_u64 (fst at + of_nat SLICE_DATA_OFFSET))) (\<lambda>data.
    m_bind (m_read (memory_read_u64 (fst at + of_nat SLICE_LEN_OFFSET))) (\<lambda>len.
    m_bind ty_of (\<lambda>index_ty.
    m_bind index (\<lambda>bytes.
    m_bind (m_lift (int_of_operand bytes index_ty)) (\<lambda>i.
    let i = word_of_int i in
    if len \<le> i
then m_fail (''index '' @ int_string (sint i) @ '' out of bounds for length '' @ int_string (sint len))
else (m_bind (m_layout (element_size (env_depth env) elem)) (\<lambda>n.
      m_ok (data + i * of_nat n, elem))))))))))"

fun m_place_address :: "environment \<Rightarrow> place \<Rightarrow> (addr \<times> type) mach"
  and m_operand :: "environment \<Rightarrow> operand \<Rightarrow> byte list mach" where
  "m_place_address env (PLocal l) = (m_bind (m_local l) (\<lambda>d.
    m_bind (m_local_address l) (\<lambda>storage.
    m_bind (m_get ms_layouts) (\<lambda>ly.
    m_bind m_frame (\<lambda>f.
    m_bind ((if is_real_aggregate (ld_ty d) ly \<or> l \<in> set (fr_borrowed f) then m_ok storage else m_read (memory_read_u64 storage))) (\<lambda>a.
    m_ok (a, ld_ty d)))))))"
| "m_place_address env (PField base f) = (m_bind (m_place_address env base) (\<lambda>at.
  m_bind (m_field_of env (snd at) f) (\<lambda>r.
  m_ok (fst at + of_nat (snd r), fst r))))"
| "m_place_address env (PVariantField base variant i) = (m_bind (m_place_address env base) (\<lambda>at.
  m_bind (m_variant_field env (snd at) variant i) (\<lambda>r.
  m_ok (fst at + of_nat (snd r), fst r))))"
| "m_place_address env (PIndex base index) = (m_bind (m_place_address env base) (\<lambda>at.
  m_index env at (m_operand_ty env index) (m_operand env index)))"
| "m_place_address env (PDeref address ty) = (m_bind (m_operand env address) (\<lambda>bytes.
  m_ok (pointer_of bytes, ty)))"
| "m_operand env (Copy place) = m_read_with env place (m_place_address env place)"
| "m_operand env (Move place) = m_read_with env place (m_place_address env place)"
| "m_operand env (Constant c) = m_constant c"

definition m_read_place :: "environment \<Rightarrow> place \<Rightarrow> byte list mach" where
  "m_read_place env place = m_read_with env place (m_place_address env place)"

definition m_int_operand :: "environment \<Rightarrow> operand \<Rightarrow> type \<Rightarrow> int mach" where
  "m_int_operand env opd ty = (m_bind (m_operand env opd) (\<lambda>bytes.
    m_lift (int_of_operand bytes ty)))"

definition m_pointer :: "environment \<Rightarrow> operand \<Rightarrow> addr mach" where
  "m_pointer env opd = (m_bind (m_operand env opd) (\<lambda>bytes.
    m_ok (pointer_of bytes)))"

definition m_operand_address :: "environment \<Rightarrow> operand \<Rightarrow> addr mach" where
  "m_operand_address env opd = (case opd of
     Copy place \<Rightarrow> (m_bind (m_place_address env place) (\<lambda>at.
       m_ok (fst at)))
   | Move place \<Rightarrow> (m_bind (m_place_address env place) (\<lambda>at.
     m_ok (fst at)))
   | Constant c \<Rightarrow> (m_bind (m_constant c) (\<lambda>bytes.
     m_bind (m_scratch (length bytes)) (\<lambda>a.
     m_bind (m_write (memory_write a bytes)) (\<lambda>_.
     m_ok a)))))"

section \<open>Owned values\<close>

record evaluator =
  ev_call :: "string \<Rightarrow> byte list list \<Rightarrow> byte list mach"
  ev_drop_at :: "type \<Rightarrow> addr \<Rightarrow> unit mach"
  ev_clone_at :: "type \<Rightarrow> addr \<Rightarrow> unit mach"
  ev_decode :: "type \<Rightarrow> byte list \<Rightarrow> comptime_value mach"

definition m_clone_value :: "environment \<Rightarrow> evaluator \<Rightarrow> type \<Rightarrow> byte list \<Rightarrow> byte list mach" where
  "m_clone_value env ev ty v = (m_bind (m_needs_drop env ty) (\<lambda>needs.
    if \<not> needs then m_ok v
else (m_bind (m_alloc (length v) False) (\<lambda>a.
      m_bind (m_write (memory_write a v)) (\<lambda>_.
      m_bind (ev_clone_at ev ty a) (\<lambda>_.
      m_bind (m_read (memory_read a (length v))) (\<lambda>copy.
      m_bind (m_write (memory_free a)) (\<lambda>_.
      m_ok copy))))))))"

definition TRY_TEMP :: string where "TRY_TEMP = ''$try''"

text \<open>The local whose flag a moved operand clears: itself, or the temporary of \<open>?\<close> it is a part of.\<close>

definition m_moved_local :: "operand \<Rightarrow> nat option mach" where
  "m_moved_local opd = (case opd of
     Move (PLocal l) \<Rightarrow> m_ok (Some l)
   | Move (PVariantField (PLocal l) _ _) \<Rightarrow> (m_bind (m_local l) (\<lambda>d.
     m_ok (if ld_name d = Some TRY_TEMP then Some l else None)))
   | _ \<Rightarrow> m_ok None)"

definition m_owned_operand :: "environment \<Rightarrow> evaluator \<Rightarrow> operand \<Rightarrow> byte list mach" where
  "m_owned_operand env ev opd = (m_bind (m_operand_ty env opd) (\<lambda>ty.
    m_bind (m_operand env opd) (\<lambda>v.
    m_bind (m_needs_drop env ty) (\<lambda>needs.
    if \<not> needs then m_ok v
else (m_bind (m_moved_local opd) (\<lambda>moved.
      (case moved of
Some l \<Rightarrow> (m_bind (m_set_flag l False) (\<lambda>_.
        m_ok v))
| None \<Rightarrow> m_clone_value env ev ty v)))))))"

definition m_owned_as :: "environment \<Rightarrow> evaluator \<Rightarrow> operand \<Rightarrow> type \<Rightarrow> byte list mach" where
  "m_owned_as env ev opd expected = (m_bind (m_operand_ty env opd) (\<lambda>ty.
    if (case ty of TBorrow _ inner \<Rightarrow> type_eq inner expected | _ \<Rightarrow> False)
then (m_bind (m_pointer env opd) (\<lambda>p.
      m_bind (m_size_of env expected) (\<lambda>sz.
      m_bind (m_read (memory_read p sz)) (\<lambda>v.
      m_clone_value env ev expected v))))
else m_owned_operand env ev opd))"

definition m_drop_local :: "environment \<Rightarrow> evaluator \<Rightarrow> nat \<Rightarrow> unit mach" where
  "m_drop_local env ev l = (m_bind m_frame (\<lambda>f.
    m_bind (m_nth (fr_flags f) l) (\<lambda>owned.
    if \<not> owned then m_ok ()
else (m_bind (m_local l) (\<lambda>d.
      m_bind (m_local_address l) (\<lambda>a.
      m_bind (ev_drop_at ev (ld_ty d) a) (\<lambda>_.
      m_set_flag l False)))))))"

definition m_drop_all_owned :: "environment \<Rightarrow> evaluator \<Rightarrow> unit mach" where
  "m_drop_all_owned env ev = (m_bind m_frame (\<lambda>f.
    m_each (m_drop_local env ev) (rev [0..<length (fr_flags f)])))"

definition m_write_place :: "environment \<Rightarrow> evaluator \<Rightarrow> place \<Rightarrow> byte list \<Rightarrow> unit mach" where
  "m_write_place env ev place v = (case place of
     PLocal l \<Rightarrow> (m_bind (m_drop_local env ev l) (\<lambda>_.
       m_bind (m_local_address l) (\<lambda>a.
       m_bind (m_write (memory_write a v)) (\<lambda>_.
       m_bind (m_local l) (\<lambda>d.
       m_bind (m_needs_drop env (ld_ty d)) (\<lambda>needs.
       if needs then m_set_flag l True else m_ok ()))))))
   | _ \<Rightarrow> (m_bind (m_place_address env place) (\<lambda>at.
     m_bind (m_needs_drop env (snd at)) (\<lambda>needs.
     m_bind ((if needs then ev_drop_at ev (snd at) (fst at) else m_ok ())) (\<lambda>_.
     m_write (memory_write (fst at) v))))))"

definition m_write_unowned :: "environment \<Rightarrow> place \<Rightarrow> byte list \<Rightarrow> unit mach" where
  "m_write_unowned env place v = (case place of
     PLocal l \<Rightarrow> (m_bind (m_local_address l) (\<lambda>a.
       m_write (memory_write a v)))
   | _ \<Rightarrow> (m_bind (m_place_address env place) (\<lambda>at.
     m_write (memory_write (fst at) v))))"

section \<open>What computations keep\<close>

text \<open>A later machine: the callers' frames are as they were, the running frame has its body, locals and flags, and
  memory, layouts, handles and output only grow.\<close>

definition frame_grows :: "frame \<Rightarrow> frame \<Rightarrow> bool" where
  "frame_grows f f' \<longleftrightarrow> fr_body f' = fr_body f \<and> fr_locals f' = fr_locals f \<and> length (fr_flags f') = length (fr_flags f)
    \<and> fr_borrowed f' = fr_borrowed f \<and> prefix (fr_scratch f) (fr_scratch f')"

definition frames_grow :: "frame list \<Rightarrow> frame list \<Rightarrow> bool" where
  "frames_grow fs fs' \<longleftrightarrow> (case fs of [] \<Rightarrow> fs' = [] | f # rest \<Rightarrow> (\<exists>f'. fs' = f' # rest \<and> frame_grows f f'))"

definition blocks_grow :: "memory \<Rightarrow> memory \<Rightarrow> bool" where
  "blocks_grow m m' \<longleftrightarrow> length (allocations m) \<le> length (allocations m')
    \<and> (\<forall>i < length (allocations m). al_fixed (allocations m' ! i) = al_fixed (allocations m ! i)
        \<and> (al_freed (allocations m ! i) \<longrightarrow> al_freed (allocations m' ! i))
        \<and> (al_freed (allocations m' ! i) \<and> al_fixed (allocations m ! i) \<longrightarrow> al_freed (allocations m ! i)))"

interpretation blocks: growth blocks_grow
proof
  fix r s t assume rs: "blocks_grow r s" and st: "blocks_grow s t"
  have "i < length (allocations s)" if "i < length (allocations r)" for i using that rs by (simp add: blocks_grow_def)
  then show "blocks_grow r t" using rs st unfolding blocks_grow_def by (metis le_trans)
qed (simp add: blocks_grow_def)

lemma blocks_grow_rules:
  "memory_alloc n fixed m = Ok (a, m') \<Longrightarrow> blocks_grow m m'"
  "memory_write a bs m = Ok m' \<Longrightarrow> blocks_grow m m'"
  "memory_write_u64 a w m = Ok m' \<Longrightarrow> blocks_grow m m'"
  "memory_free a m = Ok m' \<Longrightarrow> blocks_grow m m'"
  by (auto simp: memory_alloc_def memory_write_def memory_write_u64_def memory_free_def blocks_grow_def bind_outcome_Ok memory_locate_Ok
      nth_append nth_list_update Let_def split: if_splits)

definition machine_grows :: "machine \<Rightarrow> machine \<Rightarrow> bool" where
  "machine_grows s s' \<longleftrightarrow> frames_grow (ms_frames s) (ms_frames s') \<and> ms_depth s' = ms_depth s \<and> ms_executed s \<le> ms_executed s'
    \<and> blocks_grow (ms_memory s) (ms_memory s') \<and> lay_extends (ms_layouts s) (ms_layouts s')
    \<and> prefix (ms_types s) (ms_types s') \<and> prefix (ms_codes s) (ms_codes s') \<and> prefix (ms_functions s) (ms_functions s')
    \<and> prefix (ms_output s) (ms_output s') \<and> prefix (ms_stderr s) (ms_stderr s')"

lemma frame_grows_refl: "frame_grows f f"
  by (simp add: frame_grows_def)

interpretation machines: growth machine_grows
proof
  fix s t u
  show "machine_grows s s"
    by (simp add: machine_grows_def frames_grow_def frame_grows_refl blocks.grows_refl layouts_growth.grows_refl split: list.split)
  assume a: "machine_grows s t" "machine_grows t u"
  have "frames_grow (ms_frames s) (ms_frames u)"
  proof (cases "ms_frames s")
    case (Cons f rest)
    then obtain g where "ms_frames t = g # rest" "frame_grows f g" using a(1) by (auto simp: machine_grows_def frames_grow_def)
    moreover then obtain h where "ms_frames u = h # rest" "frame_grows g h" using a(2) by (auto simp: machine_grows_def frames_grow_def)
    moreover have "frame_grows f h" if "frame_grows f g" "frame_grows g h" for g h
      using that by (auto simp: frame_grows_def dest: prefix_order.trans)
    ultimately show ?thesis using Cons by (auto simp: frames_grow_def)
  qed (use a in \<open>auto simp: machine_grows_def frames_grow_def\<close>)
  moreover have "blocks_grow (ms_memory s) (ms_memory u)" using a by (auto simp: machine_grows_def intro: blocks.grows_trans)
  moreover have "lay_extends (ms_layouts s) (ms_layouts u)"
    using layouts_growth.grows_trans [of "ms_layouts s" "ms_layouts t" "ms_layouts u"] a by (simp add: machine_grows_def)
  moreover have "prefix (ms_types s) (ms_types u)" "prefix (ms_codes s) (ms_codes u)" "prefix (ms_functions s) (ms_functions u)"
    "prefix (ms_output s) (ms_output u)" "prefix (ms_stderr s) (ms_stderr u)"
    using a by (auto simp: machine_grows_def dest: prefix_order.trans)
  ultimately show "machine_grows s u" using a by (simp add: machine_grows_def)
qed

text \<open>A computation is tame when, started within the instruction budget, it gives a later machine that is within the
  budget, or one instruction over it when it fails.\<close>

definition within :: "environment \<Rightarrow> nat \<Rightarrow> machine \<Rightarrow> machine \<Rightarrow> bool" where
  "within env k s s' \<longleftrightarrow> machine_grows s s' \<and> ms_executed s' \<le> lim_instructions (env_limits env) + k"

definition tame :: "environment \<Rightarrow> 'a mach \<Rightarrow> bool" where
  "tame env f \<longleftrightarrow> (\<forall>s. ms_executed s \<le> lim_instructions (env_limits env) \<longrightarrow>
    (\<forall>x s'. f s = (Ok x, s') \<longrightarrow> within env 0 s s') \<and> (\<forall>msg sp s'. f s = (Failed msg sp, s') \<longrightarrow> within env 1 s s'))"

named_theorems tame_rules \<open>computations that keep within the budget\<close>

lemma tameI:
  assumes "\<And>s x s'. ms_executed s \<le> lim_instructions (env_limits env) \<Longrightarrow> f s = (Ok x, s') \<Longrightarrow> within env 0 s s'"
    "\<And>s msg sp s'. ms_executed s \<le> lim_instructions (env_limits env) \<Longrightarrow> f s = (Failed msg sp, s') \<Longrightarrow> within env 1 s s'"
  shows "tame env f"
  using assms by (auto simp: tame_def)

lemma tameD:
  assumes "tame env f" "ms_executed s \<le> lim_instructions (env_limits env)"
  shows "f s = (Ok x, s') \<Longrightarrow> within env 0 s s'" "f s = (Failed msg sp, s') \<Longrightarrow> within env 1 s s'"
  using assms by (auto simp: tame_def)

lemma within_refl: "ms_executed s \<le> lim_instructions (env_limits env) + k \<Longrightarrow> within env k s s"
  by (simp add: within_def machines.grows_refl)

lemma within_trans: "machine_grows s t \<Longrightarrow> within env k t u \<Longrightarrow> within env k s u"
  unfolding within_def using machines.grows_trans by blast

text \<open>A computation that leaves the machine as it is, and one step that changes it, are tame.\<close>

lemma tame_same: "(\<And>s. snd (f s) = s) \<Longrightarrow> tame env f"
  by (rule tameI) (metis within_refl add_0_right snd_conv, metis within_refl snd_conv trans_le_add1)

lemma tame_step:
  assumes "\<And>s. machine_grows s (snd (f s))" "\<And>s. ms_executed (snd (f s)) = ms_executed s"
  shows "tame env f"
  by (rule tameI) (metis assms within_def add_0_right snd_conv, metis assms within_def snd_conv trans_le_add1)

lemma tame_pure [tame_rules]:
  "tame env (m_ok x)" "tame env m_panic" "tame env m_starved" "tame env (m_get g)" "tame env (m_lift r)" "tame env (m_error msg)"
  "tame env (m_fail msg)" "tame env (m_read h)" "tame env (m_nth xs i)" "tame env (m_require opt)" "tame env m_frame"
  "tame env (m_type_of_handle a)"
  by (rule tame_same, simp add: m_ok_def m_panic_def m_starved_def m_get_def m_lift_def m_error_def m_fail_def m_read_def m_nth_def
      m_require_def m_frame_def m_type_of_handle_def split: option.split list.split)+

lemma m_bind_cases:
  "m_bind f g s = (r, s') \<longleftrightarrow> (\<exists>x t. f s = (Ok x, t) \<and> g x t = (r, s'))
    \<or> (\<exists>msg sp. f s = (Failed msg sp, s') \<and> r = Failed msg sp) \<or> f s = (Panicked, s') \<and> r = Panicked \<or> f s = (OutOfFuel, s') \<and> r = OutOfFuel"
  by (auto simp: m_bind_def split: prod.splits outcome.splits)

lemma tame_bind [tame_rules]:
  assumes f: "tame env f" and g: "\<And>x. tame env (g x)"
  shows "tame env (m_bind f g)"
proof (rule tameI)
  fix s x s' assume s: "ms_executed s \<le> lim_instructions (env_limits env)" and r: "m_bind f g s = (Ok x, s')"
  from r obtain y t where "f s = (Ok y, t)" "g y t = (Ok x, s')" by (auto simp: m_bind_cases)
  then show "within env 0 s s'" using tameD(1) [OF f s] tameD(1) [OF g] within_trans by (metis within_def add_0_right)
next
  fix s msg sp s' assume s: "ms_executed s \<le> lim_instructions (env_limits env)" and r: "m_bind f g s = (Failed msg sp, s')"
  show "within env 1 s s'"
  proof (cases "\<exists>y t. f s = (Ok y, t) \<and> g y t = (Failed msg sp, s')")
    case True
    then obtain y t where "f s = (Ok y, t)" "g y t = (Failed msg sp, s')" by blast
    then show ?thesis using tameD(1) [OF f s] tameD(2) [OF g] within_trans by (metis within_def add_0_right)
  next
    case False
    then show ?thesis using r tameD(2) [OF f s] by (auto simp: m_bind_cases)
  qed
qed

lemma tame_if [tame_rules]: "tame env f \<Longrightarrow> tame env g \<Longrightarrow> tame env (if b then f else g)"
  by simp

lemma tame_case [tame_rules]:
  "tame env f \<Longrightarrow> (\<And>x. tame env (g x)) \<Longrightarrow> tame env (case opt of None \<Rightarrow> f | Some x \<Rightarrow> g x)"
  "(\<And>x y. tame env (h x y)) \<Longrightarrow> tame env (case p of (x, y) \<Rightarrow> h x y)"
  "(\<And>x. tame env (l x)) \<Longrightarrow> (\<And>x. tame env (r x)) \<Longrightarrow> tame env (case d of Inl x \<Rightarrow> l x | Inr x \<Rightarrow> r x)"
  by (simp_all split: option.split prod.split sum.split)

lemma tame_loops [tame_rules]:
  "(\<And>x. tame env (f x)) \<Longrightarrow> tame env (m_each f xs)"
  "(\<And>x. tame env (g x)) \<Longrightarrow> tame env (m_map g xs)"
  "(\<And>x. tame env (b x)) \<Longrightarrow> tame env (m_any b xs)"
  "(\<And>i. tame env (h i)) \<Longrightarrow> tame env (m_count h i k)"
  by (induction xs; simp add: tame_rules)+ (induction k arbitrary: i; simp add: tame_rules)

lemma tame_located [tame_rules]:
  assumes "tame env f"
  shows "tame env (m_located f)"
proof (rule tameI)
  fix s x s' assume s: "ms_executed s \<le> lim_instructions (env_limits env)" and r: "m_located f s = (Ok x, s')"
  then have "f s = (Ok x, s')" by (auto simp: m_located_def split: prod.splits outcome.splits option.splits)
  then show "within env 0 s s'" using tameD(1) [OF assms s] by blast
next
  fix s msg sp s' assume s: "ms_executed s \<le> lim_instructions (env_limits env)" and r: "m_located f s = (Failed msg sp, s')"
  then obtain sp' where "f s = (Failed msg sp', s')" by (auto simp: m_located_def split: prod.splits outcome.splits option.splits)
  then show "within env 1 s s'" using tameD(2) [OF assms s] by blast
qed

section \<open>The steps of the machine are tame\<close>

lemma machine_grows_memory: "blocks_grow (ms_memory s) m \<Longrightarrow> machine_grows s (s\<lparr>ms_memory := m\<rparr>)"
  using machines.grows_refl [of s] by (simp add: machine_grows_def)

lemma tame_write:
  assumes "\<And>m m'. f m = Ok m' \<Longrightarrow> blocks_grow m m'"
  shows "tame env (m_write f)"
  by (rule tame_step)
    (auto simp: m_write_def machines.grows_refl intro!: machine_grows_memory assms split: outcome.split)

lemma tame_writes [tame_rules]:
  "tame env (m_write (memory_write a bs))" "tame env (m_write (memory_write_u64 a w))" "tame env (m_write (memory_free a))"
  by (rule tame_write, erule blocks_grow_rules)+

lemma tame_alloc [tame_rules]: "tame env (m_alloc n fixed)"
  by (rule tame_step)
    (auto simp: m_alloc_def machines.grows_refl intro!: machine_grows_memory blocks_grow_rules(1) split: outcome.split prod.split)

lemma tame_layout [tame_rules]:
  assumes "keeps f"
  shows "tame env (m_layout f)"
proof (rule tame_step)
  fix s
  show "machine_grows s (snd (m_layout f s))"
    using machines.grows_refl [of s] keepsD [OF assms, of "ms_layouts s"]
    by (auto simp: m_layout_def machine_grows_def split: sum.split layout_panic.split)
qed (simp add: m_layout_def split: sum.split layout_panic.split prod.split)

lemma tame_frame_mut: "(\<And>f. frame_grows f (g f)) \<Longrightarrow> tame env (m_frame_mut g)"
  by (rule tame_step)
    (auto simp: m_frame_mut_def machine_grows_def frames_grow_def blocks.grows_refl layouts_growth.grows_refl split: list.split)

lemma tame_frame_updates [tame_rules]:
  "tame env (m_frame_mut (\<lambda>f. f\<lparr>fr_flags := (fr_flags f)[i := b]\<rparr>))"
  "tame env (m_frame_mut (\<lambda>f. f\<lparr>fr_scratch := fr_scratch f @ [a]\<rparr>))"
  "tame env (m_frame_mut (\<lambda>f. f\<lparr>fr_span := sp\<rparr>))"
  by (rule tame_frame_mut, simp add: frame_grows_def)+

lemma tame_set_flag [tame_rules]: "tame env (m_set_flag i b)"
  unfolding m_set_flag_def by (intro tame_rules)

lemma tame_tick [tame_rules]: "tame env (m_tick env)"
  by (rule tameI)
    (auto simp: m_tick_def m_fail_def Let_def within_def machine_grows_def frames_grow_def frame_grows_refl blocks.grows_refl
      layouts_growth.grows_refl split: if_splits list.split)

lemma tame_records [tame_rules]:
  "tame env (m_note_drop ty b)" "tame env (m_type_handle ty)" "tame env (m_code_handle c)"
  "tame env (\<lambda>s. (Ok (), s\<lparr>ms_statics := st s\<rparr>))"
  by (rule tame_step;
    auto simp: m_note_drop_def m_type_handle_def m_code_handle_def machine_grows_def frames_grow_def frame_grows_refl blocks.grows_refl
      layouts_growth.grows_refl split: list.split option.split)+

section \<open>Places, operands and owned values are tame\<close>

lemma tame_slice_elem [tame_rules]: "tame env (slice_elem ty)"
  unfolding slice_elem_def by (cases "strip_borrow ty"; simp; intro tame_rules)

lemma tame_size_of [tame_rules]: "tame env (m_size_of e ty)"
  unfolding m_size_of_def by (cases ty; simp split del: if_split; intro tame_rules keeps_queries)

lemma tame_field_of [tame_rules]: "tame env (m_field_of e ty f)"
  by (induction e ty f rule: m_field_of.induct) (simp_all, (intro tame_rules keeps_queries)+)

lemma tame_variant_field [tame_rules]: "tame env (m_variant_field e base variant i)"
  unfolding m_variant_field_def by (cases "strip_borrow base"; simp; intro tame_rules keeps_queries)

lemma tame_local [tame_rules]: "tame env (m_local l)" "tame env (m_local_address l)" "tame env (m_scratch n)"
  unfolding m_local_def m_local_address_def m_scratch_def by (intro tame_rules)+

lemma tame_place_ty [tame_rules]: "tame env (m_place_ty e place)"
  by (induction place) (simp_all, (intro tame_rules; assumption)+)

lemma tame_operand_ty [tame_rules]: "tame env (m_operand_ty e opd)"
  unfolding m_operand_ty_def by (cases opd; simp; intro tame_rules)

lemma tame_user_drop [tame_rules]: "tame env (m_user_drop e ty)"
  unfolding m_user_drop_def Let_def by (intro tame_rules)

lemma tame_needs_drop_at [tame_rules]: "tame env (m_needs_drop_at n e ty)"
proof (induction n arbitrary: ty)
  case 0
  show ?case by (simp add: tame_rules)
next
  case (Suc n)
  have parts: "tame env (m_parts_need_drop e (m_needs_drop_at n e) ty)" for ty
    unfolding m_parts_need_drop_def by (intro tame_rules keeps_queries Suc)
  have "tame env (m_kind_needs_drop e (m_needs_drop_at n e) ty)" for ty
    unfolding m_kind_needs_drop_def by (cases ty; hypsubst; (intro tame_rules parts | simp only: type.case)+)
  then show ?case by simp (intro tame_rules)
qed

lemma tame_needs_drop [tame_rules]: "tame env (m_needs_drop e ty)"
  unfolding m_needs_drop_def by (rule tame_needs_drop_at)

lemma tame_constant [tame_rules]: "tame env (m_constant c)"
  unfolding m_constant_def m_static_def by (cases c; simp; intro tame_rules)

lemma tame_read_with: "tame env located \<Longrightarrow> tame env (m_read_with e place located)"
  unfolding m_read_with_def by (cases place; simp; intro tame_rules; assumption)

lemma tame_index: "tame env ty_of \<Longrightarrow> tame env index \<Longrightarrow> tame env (m_index e at ty_of index)"
  unfolding m_index_def Let_def by (intro tame_rules keeps_queries; assumption)

lemma tame_places [tame_rules]: "tame env (m_place_address e place)" "tame env (m_operand e opd)"
  by (induction e place and e opd rule: m_place_address_m_operand.induct)
    (simp_all split del: if_split, (intro tame_rules tame_read_with tame_index; assumption)+)

lemma tame_operands [tame_rules]: "tame env (m_read_place e place)" "tame env (m_int_operand e opd ty)" "tame env (m_pointer e opd)"
  "tame env (m_operand_address e opd)"
proof -
  show "tame env (m_read_place e place)" unfolding m_read_place_def by (intro tame_read_with tame_rules)
  show "tame env (m_int_operand e opd ty)" "tame env (m_pointer e opd)"
    unfolding m_int_operand_def m_pointer_def by (intro tame_rules)+
  show "tame env (m_operand_address e opd)" unfolding m_operand_address_def by (cases opd; simp; intro tame_rules)
qed

text \<open>What an evaluator provides to the rest of the machine.\<close>

locale tame_evaluator =
  fixes env :: environment and ev :: evaluator
  assumes tame_call: "tame env (ev_call ev name args)"
    and tame_drop_at: "tame env (ev_drop_at ev ty a)"
    and tame_clone_at: "tame env (ev_clone_at ev ty a)"
    and tame_decode: "tame env (ev_decode ev ty bs)"
begin

lemmas tame_evaluation = tame_call tame_drop_at tame_clone_at tame_decode

lemma tame_clone_value: "tame env (m_clone_value env ev ty v)"
  unfolding m_clone_value_def by (intro tame_rules tame_evaluation)

lemma tame_moved_local: "tame env (m_moved_local opd)"
  unfolding m_moved_local_def by (auto intro!: tame_rules split: operand.split place.split)

lemma tame_owned: "tame env (m_owned_operand env ev opd)" "tame env (m_owned_as env ev opd ty)"
proof -
  show "tame env (m_owned_operand env ev opd)" unfolding m_owned_operand_def
    by (intro tame_rules tame_clone_value tame_moved_local)
  then show "tame env (m_owned_as env ev opd ty)" unfolding m_owned_as_def by (intro tame_rules tame_clone_value)
qed

lemma tame_drops: "tame env (m_drop_local env ev l)" "tame env (m_drop_all_owned env ev)"
proof -
  show "tame env (m_drop_local env ev l)" for l unfolding m_drop_local_def by (intro tame_rules tame_evaluation)
  then show "tame env (m_drop_all_owned env ev)" unfolding m_drop_all_owned_def by (intro tame_rules)
qed

lemma tame_write_places: "tame env (m_write_place env ev place v)" "tame env (m_write_unowned env place v)"
proof -
  show "tame env (m_write_place env ev place v)" unfolding m_write_place_def
    by (cases place; hypsubst; simp only: place.case; intro tame_rules tame_evaluation tame_drops)
  show "tame env (m_write_unowned env place v)" unfolding m_write_unowned_def
    by (cases place; hypsubst; simp only: place.case; intro tame_rules)
qed

end

end
