(* ===== verification/Machine.thy ===== *)
theory Machine
  imports MachineState
begin

text \<open>
  Evaluation of bodies by the compile-time machine, \<open>compiler/paco-comptime/src/machine.rs\<close>: drop and clone glue,
  statements, terminators, built-in functions, calls, and values in and out.  The mutual recursion of calls, glue and
  decoding is tied by a depth, \<open>evaluators\<close>; the loop over blocks has as many rounds as the instruction budget.
  Vectors of results are allocated without failing.
\<close>

unbundle bit_operations_syntax

section \<open>Slices of bytes and texts\<close>

definition m_slice :: "byte list \<Rightarrow> nat \<Rightarrow> nat \<Rightarrow> byte list mach" where
  "m_slice bs i j = (if i \<le> j \<and> j \<le> length bs then m_ok (take (j - i) (drop i bs)) else m_panic)"

definition m_copy_into :: "byte list \<Rightarrow> nat \<Rightarrow> byte list \<Rightarrow> byte list mach" where
  "m_copy_into bs off v = (if off + length v \<le> length bs then m_ok (take off bs @ v @ drop (off + length v) bs) else m_panic)"

definition bytes_text :: "byte list \<Rightarrow> string" where
  "bytes_text bs = map (\<lambda>b. char_of (unat b)) bs"

text \<open>\<open>String::from_utf8_lossy\<close>: how many bytes the next piece has, and whether it is a character; a piece that is
  not becomes the replacement character.\<close>

definition utf8_piece :: "byte list \<Rightarrow> bool \<times> nat" where
  "utf8_piece bs =
    (let b = bs ! 0; at = (\<lambda>i. if i < length bs then bs ! i else 0);
         second = (if b = 0xE0 then 0xA0 \<le> at 1 \<and> at 1 \<le> 0xBF
           else if b = 0xED then 0x80 \<le> at 1 \<and> at 1 \<le> 0x9F
           else if b = 0xF0 then 0x90 \<le> at 1 \<and> at 1 \<le> 0xBF
           else if b = 0xF4 then 0x80 \<le> at 1 \<and> at 1 \<le> 0x8F
           else continuation (at 1))
     in if b < 0x80 then (True, 1)
        else if 0xC2 \<le> b \<and> b \<le> 0xDF then (if continuation (at 1) then (True, 2) else (False, 1))
        else if 0xE0 \<le> b \<and> b \<le> 0xEF then
          (if \<not> second then (False, 1) else if \<not> continuation (at 2) then (False, 2) else (True, 3))
        else if 0xF0 \<le> b \<and> b \<le> 0xF4 then
          (if \<not> second then (False, 1) else if \<not> continuation (at 2) then (False, 2)
           else if \<not> continuation (at 3) then (False, 3) else (True, 4))
        else (False, 1))"

lemma utf8_piece_pos: "0 < snd (utf8_piece bs)"
  by (simp add: utf8_piece_def Let_def)

lemma drop_piece: "bs \<noteq> [] \<Longrightarrow> (valid, n) = utf8_piece bs \<Longrightarrow> length bs - n < length bs"
  using utf8_piece_pos [of bs] by (cases bs) (auto simp flip: less_Suc_eq_le dest!: arg_cong [of _ _ snd])

function utf8_lossy :: "byte list \<Rightarrow> byte list" where
  "utf8_lossy bs = (if bs = [] then [] else case utf8_piece bs of (valid, n) \<Rightarrow>
     (if valid then take n bs else [0xEF, 0xBF, 0xBD]) @ utf8_lossy (drop n bs))"
  by auto

termination
  by (relation "measure length") (auto dest: drop_piece)

declare utf8_lossy.simps [simp del]

definition lossy_text :: "byte list \<Rightarrow> string" where
  "lossy_text bs = bytes_text (utf8_lossy bs)"

definition m_descriptor :: "environment \<Rightarrow> place \<Rightarrow> byte list mach" where
  "m_descriptor env place = (m_bind (m_place_ty env place) (\<lambda>ty.
    m_bind (m_read_place env place) (\<lambda>v.
    (case ty of
TBorrow _ _ \<Rightarrow> (m_bind (m_slice v 0 8) (\<lambda>p.
      m_read (memory_read (bytes_word p) 16)))
| _ \<Rightarrow> m_ok v))))"

definition m_operand_descriptor :: "environment \<Rightarrow> operand \<Rightarrow> byte list mach" where
  "m_operand_descriptor env opd = (case opd of
     Copy place \<Rightarrow> m_descriptor env place
   | Move place \<Rightarrow> m_descriptor env place
   | Constant c \<Rightarrow> m_constant c)"

definition m_descriptor_bytes :: "byte list \<Rightarrow> byte list mach" where
  "m_descriptor_bytes d = (m_bind (m_slice d 0 8) (\<lambda>data.
    m_bind (m_slice d 8 16) (\<lambda>len.
    m_read (memory_read (bytes_word data) (unat (bytes_word len))))))"

definition m_string :: "environment \<Rightarrow> operand \<Rightarrow> byte list mach" where
  "m_string env opd = (m_bind (m_operand_descriptor env opd) (\<lambda>d.
    m_descriptor_bytes d))"

definition m_new_string :: "byte list \<Rightarrow> byte list mach" where
  "m_new_string bytes = (m_bind (m_alloc (length bytes) False) (\<lambda>data.
    m_bind (m_write (memory_write data bytes)) (\<lambda>_.
    m_ok (word_bytes data @ le_bytes 8 (int (length bytes))))))"

definition m_type_name :: "environment \<Rightarrow> type \<Rightarrow> string mach" where
  "m_type_name env ty = m_get (\<lambda>s. type_name (env_names env) (tl_arena (ms_layouts s)) ty)"

definition m_code :: "addr \<Rightarrow> code mach" where
  "m_code h s = (if unat h < length (ms_codes s) then (Ok (ms_codes s ! unat h), s) else m_error ''invalid `Code` value'' s)"

section \<open>Drop and clone glue\<close>

definition m_function_pointer :: "string \<Rightarrow> addr mach" where
  "m_function_pointer name s = (case map_of (ms_function_ids s) name of
     Some p \<Rightarrow> (Ok p, s)
   | None \<Rightarrow> (let p = FUNCTION_TAG OR of_nat (length (ms_functions s))
       in (Ok p, s\<lparr>ms_functions := ms_functions s @ [name], ms_function_ids := (name, p) # ms_function_ids s\<rparr>)))"

definition m_function_name :: "addr \<Rightarrow> string mach" where
  "m_function_name p s = (let i = unat (p AND NOT FUNCTION_TAG) in
     if p AND FUNCTION_TAG \<noteq> 0 \<and> i < length (ms_functions s) then (Ok (ms_functions s ! i), s)
     else m_error (''calling an invalid function pointer '' @ hex p) s)"

definition m_drop_user :: "environment \<Rightarrow> evaluator \<Rightarrow> type \<Rightarrow> addr \<Rightarrow> unit mach" where
  "m_drop_user env ev ty a = (m_bind (m_user_drop env ty) (\<lambda>user.
    (case user of
None \<Rightarrow> m_ok ()
| Some name \<Rightarrow> (m_bind (m_layout (live_offset (env_depth env) ty)) (\<lambda>off.
      m_bind ((case off of
None \<Rightarrow> m_ok True
| Some off \<Rightarrow> (m_bind (m_read (memory_read (a + of_nat off) 1)) (\<lambda>bs.
          m_bind (m_nth bs 0) (\<lambda>b.
          m_ok (b \<noteq> 0)))))) (\<lambda>live.
      if live then (m_bind (ev_call ev name [word_bytes a]) (\<lambda>_.
        m_ok ())) else m_ok ()))))))"

definition m_drop_closure :: "evaluator \<Rightarrow> addr \<Rightarrow> unit mach" where
  "m_drop_closure ev a = (m_bind (m_read (memory_read_u64 a)) (\<lambda>e.
    if e = 0 then m_ok ()
else (let header = e - of_nat CLOSURE_HEADER in
      m_bind (m_read (memory_read_u64 header)) (\<lambda>count.
      m_bind (m_write (memory_write_u64 header (count - 1))) (\<lambda>_.
      if count \<noteq> 1 then m_ok ()
else (m_bind (m_read (memory_read_u64 (e + of_nat CLOSURE_DROP_FN))) (\<lambda>drop_fn.
        m_bind ((if drop_fn = 0 then m_ok () else (m_bind (m_function_name drop_fn) (\<lambda>name.
            m_bind (ev_call ev name [word_bytes e]) (\<lambda>_.
            m_ok ()))))) (\<lambda>_.
        m_write (memory_free header)))))))))"

definition m_drop_elements :: "environment \<Rightarrow> evaluator \<Rightarrow> type \<Rightarrow> addr \<Rightarrow> addr \<Rightarrow> unit mach" where
  "m_drop_elements env ev elem a data = (m_bind (m_needs_drop env elem) (\<lambda>needs.
    if \<not> needs then m_ok ()
else (m_bind (m_read (memory_read_u64 (a + of_nat SLICE_LEN_OFFSET))) (\<lambda>len.
      m_bind (m_layout (element_size (env_depth env) elem)) (\<lambda>n.
      m_count (\<lambda>i. ev_drop_at ev elem (data + of_nat i * of_nat n)) 0 (unat len))))))"

definition m_drop_slice :: "environment \<Rightarrow> evaluator \<Rightarrow> type \<Rightarrow> addr \<Rightarrow> unit mach" where
  "m_drop_slice env ev ty a = (m_bind (m_read (memory_read_u64 (a + of_nat SLICE_DATA_OFFSET))) (\<lambda>data.
    m_bind ((case ty of TSlice elem \<Rightarrow> m_drop_elements env ev elem a data | _ \<Rightarrow> m_ok ())) (\<lambda>_.
    m_write (memory_free data))))"

definition m_drop_cell :: "evaluator \<Rightarrow> type \<Rightarrow> addr \<Rightarrow> unit mach" where
  "m_drop_cell ev ty a = (m_bind (m_read (memory_read_u64 a)) (\<lambda>cell.
    if cell = 0 then m_ok ()
else (m_bind (m_read (memory_read_u64 (cell + of_nat CELL_COUNT_OFFSET))) (\<lambda>count.
      m_bind (m_write (memory_write_u64 (cell + of_nat CELL_COUNT_OFFSET) (count - 1))) (\<lambda>_.
      if count \<noteq> 1 then m_ok ()
else (m_bind ((case ty of TStruct _ (inner # _) \<Rightarrow> ev_drop_at ev inner (cell + of_nat CELL_VALUE_OFFSET) | _ \<Rightarrow> m_ok ())) (\<lambda>_.
        m_write (memory_free cell))))))))"

definition m_enum_fields :: "environment \<Rightarrow> string \<Rightarrow> type list \<Rightarrow> addr \<Rightarrow> (type \<Rightarrow> addr \<Rightarrow> unit mach) \<Rightarrow> unit mach" where
  "m_enum_fields env name args a f = (m_bind (m_read (memory_read_u64 a)) (\<lambda>tag.
    m_bind (m_layout (enum_variants (env_depth env) name args)) (\<lambda>vs.
    m_each (\<lambda>(i, fs). if of_nat i = tag then m_each (\<lambda>(ty, off). f ty (a + of_nat off)) fs else m_ok ()) vs)))"

definition m_glue_fields :: "environment \<Rightarrow> type \<Rightarrow> addr \<Rightarrow> (type \<Rightarrow> addr \<Rightarrow> unit mach) \<Rightarrow> unit mach" where
  "m_glue_fields env ty a f = (m_bind (m_layout (glue_fields (env_depth env) ty)) (\<lambda>fs.
    m_each (\<lambda>(ty, off). f ty (a + of_nat off)) fs))"

definition m_release :: "environment \<Rightarrow> evaluator \<Rightarrow> type \<Rightarrow> addr \<Rightarrow> unit mach" where
  "m_release env ev ty a = (m_bind (m_get ms_layouts) (\<lambda>ly.
    if handle_fns ty ly \<noteq> None then m_ok ()
else if is_cell ty ly then m_drop_cell ev ty a
else (case ty of
TFn _ _ _ _ \<Rightarrow> m_drop_closure ev a
| TString \<Rightarrow> m_drop_slice env ev ty a
| TSlice _ \<Rightarrow> m_drop_slice env ev ty a
| TEnum name args \<Rightarrow> m_enum_fields env name args a (ev_drop_at ev)
| _ \<Rightarrow> m_glue_fields env ty a (ev_drop_at ev))))"

definition m_drop_at :: "environment \<Rightarrow> evaluator \<Rightarrow> type \<Rightarrow> addr \<Rightarrow> unit mach" where
  "m_drop_at env ev ty a = (m_bind (m_needs_drop env ty) (\<lambda>needs.
    if \<not> needs then m_ok () else (m_bind (m_drop_user env ev ty a) (\<lambda>_.
      m_release env ev ty a))))"

definition m_clone_closure :: "addr \<Rightarrow> unit mach" where
  "m_clone_closure a = (m_bind (m_read (memory_read_u64 a)) (\<lambda>e.
    if e = 0 then m_ok ()
else (let header = e - of_nat CLOSURE_HEADER in
      m_bind (m_read (memory_read_u64 header)) (\<lambda>count.
      m_write (memory_write_u64 header (count + 1))))))"

definition m_clone_slice :: "environment \<Rightarrow> evaluator \<Rightarrow> type \<Rightarrow> addr \<Rightarrow> unit mach" where
  "m_clone_slice env ev ty a = (m_bind (m_read (memory_read_u64 (a + of_nat SLICE_DATA_OFFSET))) (\<lambda>data.
    m_bind (m_read (memory_read_u64 (a + of_nat SLICE_LEN_OFFSET))) (\<lambda>len.
    m_bind ((case ty of TSlice elem \<Rightarrow> m_layout (element_size (env_depth env) elem) | _ \<Rightarrow> m_ok 1)) (\<lambda>n.
    m_bind (m_read (memory_read data (unat (len * of_nat n)))) (\<lambda>bytes.
    m_bind (m_alloc (length bytes) False) (\<lambda>copy.
    m_bind (m_write (memory_write copy bytes)) (\<lambda>_.
    m_bind (m_write (memory_write_u64 (a + of_nat SLICE_DATA_OFFSET) copy)) (\<lambda>_.
    (case ty of
TSlice elem \<Rightarrow> m_count (\<lambda>i. ev_clone_at ev elem (copy + of_nat i * of_nat n)) 0 (unat len)
| _ \<Rightarrow> m_ok ())))))))))"

definition m_clone_cell :: "addr \<Rightarrow> unit mach" where
  "m_clone_cell a = (m_bind (m_read (memory_read_u64 a)) (\<lambda>cell.
    if cell = 0 then m_ok ()
else (m_bind (m_read (memory_read_u64 (cell + of_nat CELL_COUNT_OFFSET))) (\<lambda>count.
      m_write (memory_write_u64 (cell + of_nat CELL_COUNT_OFFSET) (count + 1))))))"

definition m_clone_at :: "environment \<Rightarrow> evaluator \<Rightarrow> type \<Rightarrow> addr \<Rightarrow> unit mach" where
  "m_clone_at env ev ty a = (m_bind (m_needs_drop env ty) (\<lambda>needs.
    m_bind (m_get ms_layouts) (\<lambda>ly.
    if \<not> needs \<or> handle_fns ty ly \<noteq> None then m_ok ()
else if is_cell ty ly then m_clone_cell a
else (case ty of
TFn _ _ _ _ \<Rightarrow> m_clone_closure a
| TString \<Rightarrow> m_clone_slice env ev ty a
| TSlice _ \<Rightarrow> m_clone_slice env ev ty a
| TEnum name args \<Rightarrow> m_enum_fields env name args a (ev_clone_at ev)
| _ \<Rightarrow> m_glue_fields env ty a (ev_clone_at ev)))))"

section \<open>Values of expressions\<close>

fun m_fold :: "('a \<Rightarrow> 'b \<Rightarrow> 'b mach) \<Rightarrow> 'a list \<Rightarrow> 'b \<Rightarrow> 'b mach" where
  "m_fold f [] acc = m_ok acc"
| "m_fold f (x # xs) acc = (m_bind (f x acc) (\<lambda>acc.
  m_fold f xs acc))"

definition m_place_field :: "environment \<Rightarrow> operand \<Rightarrow> nat mach \<Rightarrow> byte list mach \<Rightarrow> byte list \<Rightarrow> byte list mach" where
  "m_place_field env opd off v bytes = (m_bind (m_operand_ty env opd) (\<lambda>ty.
    if type_eq ty TUnit then m_ok bytes
else (m_bind off (\<lambda>off.
      m_bind v (\<lambda>v.
      m_copy_into bytes off v)))))"

definition m_struct_aggregate :: "environment \<Rightarrow> evaluator \<Rightarrow> string \<Rightarrow> type list \<Rightarrow> operand list \<Rightarrow> byte list \<Rightarrow> byte list mach" where
  "m_struct_aggregate env ev name args fs bytes = (m_bind (m_layout (struct_fields (env_depth env) name args)) (\<lambda>declared.
    m_fold (\<lambda>((ty, off), opd). m_place_field env opd (m_ok off) (m_owned_as env ev opd ty)) (zip declared fs) bytes))"

definition m_enum_aggregate :: "environment \<Rightarrow> evaluator \<Rightarrow> string \<Rightarrow> type list \<Rightarrow> string \<Rightarrow> operand list \<Rightarrow> byte list \<Rightarrow> byte list mach" where
  "m_enum_aggregate env ev name args variant fs bytes = (m_bind (m_layout (enum_variant_index (env_depth env) name args variant)) (\<lambda>tag.
    m_bind (m_copy_into bytes 0 (le_bytes 8 (int tag))) (\<lambda>bytes.
    m_fold (\<lambda>(i, opd). m_place_field env opd
((m_bind (m_layout (enum_variant_field (env_depth env) name args variant i)) (\<lambda>r.
      m_ok (snd r))))
(m_owned_operand env ev opd)) (enumerate 0 fs) bytes)))"

definition m_tuple_aggregate :: "environment \<Rightarrow> evaluator \<Rightarrow> type list \<Rightarrow> operand list \<Rightarrow> byte list \<Rightarrow> byte list mach" where
  "m_tuple_aggregate env ev items fs bytes =
     m_fold (\<lambda>(i, opd). m_place_field env opd
         ((m_bind (m_layout (tuple_field (env_depth env) items i)) (\<lambda>r.
           m_ok (snd r))))
         (m_owned_operand env ev opd)) (enumerate 0 fs) bytes"

definition m_aggregate :: "environment \<Rightarrow> evaluator \<Rightarrow> type \<Rightarrow> string option \<Rightarrow> operand list \<Rightarrow> byte list mach" where
  "m_aggregate env ev ty variant fs = (m_bind (m_size_of env ty) (\<lambda>sz.
    let zeros = replicate sz 0 in
    m_bind ((case (ty, variant) of
(TStruct name args, None) \<Rightarrow> m_struct_aggregate env ev name args fs zeros
| (TEnum name args, Some v) \<Rightarrow> m_enum_aggregate env ev name args v fs zeros
| (TTuple items, None) \<Rightarrow> m_tuple_aggregate env ev items fs zeros
| _ \<Rightarrow> m_fail (''cannot build a value of '' @ env_debug env ty))) (\<lambda>bytes.
    m_bind (m_layout (live_offset (env_depth env) ty)) (\<lambda>live.
    (case live of None \<Rightarrow> m_ok bytes | Some off \<Rightarrow> m_copy_into bytes off [1])))))"

definition m_splice_value :: "environment \<Rightarrow> type \<Rightarrow> byte list \<Rightarrow> splice mach" where
  "m_splice_value env ty v = (case strip_borrow ty of
     TTypeValue _ \<Rightarrow> (m_bind (m_slice v 0 8) (\<lambda>h.
       m_bind (m_type_of_handle (bytes_word h)) (\<lambda>t.
       m_ok (SpliceType t))))
   | TCode \<Rightarrow> (m_bind (m_slice v 0 8) (\<lambda>h.
     m_bind (m_code (bytes_word h)) (\<lambda>c.
     m_ok (SpliceCode c))))
   | TString \<Rightarrow> (m_bind ((case ty of TBorrow _ _ \<Rightarrow> (m_bind (m_slice v 0 8) (\<lambda>h.
         m_read (memory_read (bytes_word h) 16))) | _ \<Rightarrow> m_ok v)) (\<lambda>d.
     m_bind (m_descriptor_bytes d) (\<lambda>bs.
     m_ok (SpliceString (lossy_text bs)))))
   | TInt w \<Rightarrow> (m_bind (m_lift (int_value v w)) (\<lambda>x.
     m_ok (SpliceInt (as_i64 x))))
   | TFloat w \<Rightarrow> (m_bind (m_lift (Scalars.float_value v w)) (\<lambda>x.
     m_ok (SpliceFloat x)))
   | TBool \<Rightarrow> (m_bind (m_nth v 0) (\<lambda>b.
     m_ok (SpliceBool (b \<noteq> 0))))
   | TChar \<Rightarrow> (m_bind (m_lift (int_value v U32)) (\<lambda>x.
     let c = word_of_int x in
     m_ok (SpliceChar (if scalar c then bytes_text (encoded c) else [CHR 0xEF, CHR 0xBF, CHR 0xBD]))))
   | other \<Rightarrow> (m_bind (m_type_name env other) (\<lambda>name.
     m_fail (''a '' @ name @ '' value cannot be spliced into code''))))"

definition m_quote :: "environment \<Rightarrow> code \<Rightarrow> (span \<times> operand) list \<Rightarrow> byte list mach" where
  "m_quote env template splices = (m_bind (m_map (\<lambda>(sp, opd). (m_bind (m_operand_ty env opd) (\<lambda>ty.
        m_bind (m_operand env opd) (\<lambda>v.
        m_bind (m_splice_value env ty v) (\<lambda>x.
        m_ok (sp, x)))))) splices) (\<lambda>vs.
    m_bind (m_get ms_layouts) (\<lambda>ly.
    (case substitute \<lparr>spl_names = env_names env, spl_arena = tl_arena ly, spl_values = rev vs\<rparr> template of
Inl msg \<Rightarrow> m_error msg
| Inr c \<Rightarrow> (m_bind (m_code_handle c) (\<lambda>h.
      m_ok (word_bytes h)))))))"

definition m_string_binary :: "environment \<Rightarrow> bin_op \<Rightarrow> operand \<Rightarrow> operand \<Rightarrow> byte list mach" where
  "m_string_binary env op left right = (m_bind (m_string env left) (\<lambda>l.
    m_bind (m_string env right) (\<lambda>r.
    (case op of
BEq \<Rightarrow> m_ok (flag (l = r))
| BNe \<Rightarrow> m_ok (flag (l \<noteq> r))
| BAdd \<Rightarrow> m_new_string (l @ r)
| _ \<Rightarrow> m_fail (''operator `'' @ bin_op_text op @ ''` is not supported over strings'')))))"

definition m_binary :: "environment \<Rightarrow> bin_op \<Rightarrow> operand \<Rightarrow> operand \<Rightarrow> byte list mach" where
  "m_binary env op left right = (m_bind (m_operand_ty env left) (\<lambda>ty.
    if strip_borrow ty = TString then m_string_binary env op left right
else (m_bind (m_operand_ty env right) (\<lambda>amount_ty.
      m_bind (m_operand env left) (\<lambda>l.
      m_bind (m_operand env right) (\<lambda>r.
      m_bind m_frame (\<lambda>f.
      m_lift (binary_rvalue (body_profile (fr_body f)) (Some (fr_span f)) op l ty r amount_ty))))))))"

definition m_math :: "environment \<Rightarrow> math_op \<Rightarrow> operand list \<Rightarrow> byte list mach" where
  "m_math env op args = (m_bind (m_nth args 0) (\<lambda>first.
    m_bind (m_operand_ty env first) (\<lambda>ty.
    (case ty of
TFloat w \<Rightarrow> (m_bind (m_operand env first) (\<lambda>bs.
      m_bind (m_lift (Scalars.float_value bs w)) (\<lambda>x.
      m_bind ((if 1 < length args then (m_bind (m_operand env (args ! 1)) (\<lambda>bs.
          m_lift (Scalars.float_value bs w))) else m_ok (f64_of_int 0))) (\<lambda>y.
      m_lift (float_bytes (math_eval (env_libm env) op x y) w)))))
| _ \<Rightarrow> m_fail (''`'' @ math_name op @ ''` needs a float receiver'')))))"

definition m_rvalue :: "environment \<Rightarrow> evaluator \<Rightarrow> rvalue \<Rightarrow> byte list mach" where
  "m_rvalue env ev rv = (case rv of
     Use opd \<Rightarrow> m_owned_operand env ev opd
   | UnaryOp op opd \<Rightarrow> (m_bind (m_operand_ty env opd) (\<lambda>ty.
     m_bind (m_operand env opd) (\<lambda>v.
     m_bind m_frame (\<lambda>f.
     m_lift (unary (body_profile (fr_body f)) (Some (fr_span f)) op v ty)))))
   | BinaryOp op left right \<Rightarrow> m_binary env op left right
   | Cast opd target \<Rightarrow> (m_bind (m_operand_ty env opd) (\<lambda>src.
     m_bind (m_operand env opd) (\<lambda>v.
     m_lift (cast v src target))))
   | Math op args \<Rightarrow> m_math env op args
   | Aggregate ty variant fs \<Rightarrow> m_aggregate env ev ty variant fs
   | SliceLen place \<Rightarrow> (m_bind (m_descriptor env place) (\<lambda>d.
     m_slice d 8 16))
   | Discriminant place \<Rightarrow> (m_bind (m_place_address env place) (\<lambda>at.
     m_read (memory_read (fst at) 8)))
   | Load address ty \<Rightarrow> (m_bind (m_pointer env address) (\<lambda>a.
     m_bind (m_size_of env ty) (\<lambda>sz.
     m_read (memory_read a sz))))
   | RawAlloc sz \<Rightarrow> (m_bind (m_scratch sz) (\<lambda>a.
     m_ok (word_bytes a)))
   | Ref _ place \<Rightarrow> (m_bind (m_place_address env place) (\<lambda>at.
     m_ok (word_bytes (fst at))))
   | FuncAddr name \<Rightarrow> (m_bind (m_function_pointer name) (\<lambda>p.
     m_ok (word_bytes p)))
   | Quote template splices \<Rightarrow> m_quote env template splices)"

section \<open>Statements\<close>

definition m_assigned :: "environment \<Rightarrow> evaluator \<Rightarrow> place \<Rightarrow> rvalue \<Rightarrow> byte list mach" where
  "m_assigned env ev place rv = (case rv of
     Use opd \<Rightarrow> (m_bind (m_place_ty env place) (\<lambda>expected.
       m_owned_as env ev opd expected))
   | _ \<Rightarrow> m_rvalue env ev rv)"

definition m_is_unit_local :: "place \<Rightarrow> bool mach" where
  "m_is_unit_local place = (case place of
     PLocal l \<Rightarrow> (m_bind (m_local l) (\<lambda>d.
       m_ok (ld_ty d = TUnit \<or> ld_ty d = TNever)))
   | _ \<Rightarrow> m_ok False)"

definition m_assign :: "environment \<Rightarrow> evaluator \<Rightarrow> place \<Rightarrow> rvalue \<Rightarrow> unit mach" where
  "m_assign env ev place rv = (m_bind (m_is_unit_local place) (\<lambda>skip.
    if skip then m_ok ()
else (m_bind (m_assigned env ev place rv) (\<lambda>v.
      (case rv of Load _ _ \<Rightarrow> m_write_unowned env place v | _ \<Rightarrow> m_write_place env ev place v)))))"

definition m_store :: "environment \<Rightarrow> evaluator \<Rightarrow> operand \<Rightarrow> operand \<Rightarrow> type \<Rightarrow> unit mach" where
  "m_store env ev address opd ty = (if type_eq ty TUnit then m_ok () else (m_bind (m_pointer env address) (\<lambda>a.
    m_bind (m_owned_operand env ev opd) (\<lambda>v.
    m_bind (m_get ms_layouts) (\<lambda>ly.
    if is_real_aggregate ty ly
then (m_bind (m_size_of env ty) (\<lambda>sz.
      m_bind (m_alloc (max sz 1) False) (\<lambda>boxed.
      m_bind (m_write (memory_write boxed v)) (\<lambda>_.
      m_write (memory_write a (word_bytes boxed))))))
else m_write (memory_write a v))))))"

definition m_free_box :: "environment \<Rightarrow> operand \<Rightarrow> type \<Rightarrow> unit mach" where
  "m_free_box env address ty = (m_bind (m_get ms_layouts) (\<lambda>ly.
    if is_real_aggregate ty ly
then (m_bind (m_pointer env address) (\<lambda>a.
      m_bind (m_read (memory_read_u64 a)) (\<lambda>boxed.
      m_write (memory_free boxed))))
else m_ok ()))"

definition m_statement :: "environment \<Rightarrow> evaluator \<Rightarrow> statement \<Rightarrow> unit mach" where
  "m_statement env ev st = (case st of
     Assign place rv \<Rightarrow> m_assign env ev place rv
   | Store address opd ty \<Rightarrow> m_store env ev address opd ty
   | FreeBox address ty \<Rightarrow> m_free_box env address ty
   | Drop place \<Rightarrow> (case place of PLocal l \<Rightarrow> m_drop_local env ev l | _ \<Rightarrow> m_ok ())
   | StorageDead _ \<Rightarrow> m_ok ())"

section \<open>Built-in functions\<close>

definition not_allowed :: "string \<Rightarrow> string" where
  "not_allowed operation = operation @ '' is not allowed inside `comptime`''"

definition PANIC_SYMBOL :: string where "PANIC_SYMBOL = ''paco_rt_panic''"

text \<open>What is refused, with the operation the message names.\<close>

definition forbidden :: "string \<Rightarrow> string option" where
  "forbidden name =
    (if name = ''fs_read_to_string'' then Some ''file I/O''
     else if name \<in> {''arg_count'', ''arg_at''} then Some ''reading the process arguments''
     else if name \<in> {''rt_sleep_ns'', ''rt_monotonic_ns'', ''rt_wall_ns''} then Some ''reading the clock or sleeping''
     else if name \<in> {''tcp_listen'', ''TcpListener::accept'', ''TcpStream::read'', ''TcpStream::write''} then Some ''network I/O''
     else if name \<in> {''paco_rt_spawn'', ''paco_rt_spawn_blocking'', ''paco_rt_join''} then Some ''spawning a task''
     else if name \<in> {''paco_rt_channel'', ''paco_rt_send'', ''paco_rt_recv'', ''paco_rt_sender_close'', ''paco_rt_receiver_close'',
       ''paco_rt_receiver_is_ready''} then Some ''using a channel''
     else if name \<in> {''paco_rt_generator_new'', ''paco_rt_generator_next'', ''paco_rt_generator_yield''}
     then Some ''running a generator (`iter fn`)''
     else None)"

definition m_option :: "environment \<Rightarrow> type \<Rightarrow> byte list option \<Rightarrow> byte list mach" where
  "m_option env ty payload = (case ty of
     TEnum name args \<Rightarrow> (m_bind (m_size_of env ty) (\<lambda>sz.
       m_bind (m_layout (enum_variant_index (env_depth env) name args (if payload \<noteq> None then ''Some'' else ''None''))) (\<lambda>tag.
       m_bind (m_copy_into (replicate sz 0) 0 (le_bytes 8 (int tag))) (\<lambda>bytes.
       (case payload of
None \<Rightarrow> m_ok bytes
| Some p \<Rightarrow> (m_bind (m_layout (enum_variant_field (env_depth env) name args ''Some'' 0)) (\<lambda>r.
         m_copy_into bytes (snd r) p)))))))
   | _ \<Rightarrow> m_fail ''expected an Option'')"

definition m_arg_int :: "environment \<Rightarrow> operand list \<Rightarrow> nat \<Rightarrow> int_width \<Rightarrow> int mach" where
  "m_arg_int env args i w = (m_bind (m_nth args i) (\<lambda>opd.
    m_int_operand env opd (TInt w)))"

definition m_arg_string :: "environment \<Rightarrow> operand list \<Rightarrow> nat \<Rightarrow> byte list mach" where
  "m_arg_string env args i = (m_bind (m_nth args i) (\<lambda>opd.
    m_string env opd))"

definition m_arg_descriptor :: "environment \<Rightarrow> operand list \<Rightarrow> nat \<Rightarrow> byte list mach" where
  "m_arg_descriptor env args i = (m_bind (m_nth args i) (\<lambda>opd.
    m_operand_descriptor env opd))"

definition m_arg_pointer :: "environment \<Rightarrow> operand list \<Rightarrow> nat \<Rightarrow> addr mach" where
  "m_arg_pointer env args i = (m_bind (m_nth args i) (\<lambda>opd.
    m_pointer env opd))"

definition m_display_value :: "environment \<Rightarrow> type \<Rightarrow> type \<Rightarrow> byte list \<Rightarrow> string mach" where
  "m_display_value env ty inner v = (case inner of
     TFloat w \<Rightarrow> (m_bind (m_lift (Scalars.float_value v w)) (\<lambda>x.
       m_ok (env_format_float env x (format_code w))))
   | TBool \<Rightarrow> (m_bind (m_nth v 0) (\<lambda>b.
     m_ok (bool_to_string (b \<noteq> 0))))
   | TChar \<Rightarrow> (m_bind (m_lift (int_value v U32)) (\<lambda>x.
     (case encode_char (word_of_int x) of (buf, n) \<Rightarrow> m_ok (lossy_text (take n buf)))))
   | TString \<Rightarrow> (m_bind ((case ty of TBorrow _ _ \<Rightarrow> (m_bind (m_slice v 0 8) (\<lambda>p.
         m_read (memory_read (bytes_word p) 16))) | _ \<Rightarrow> m_ok v)) (\<lambda>d.
     m_bind (m_descriptor_bytes d) (\<lambda>bs.
     m_ok (lossy_text bs))))
   | TInt w \<Rightarrow> (m_bind (m_lift (int_value v w)) (\<lambda>x.
     m_ok (if w = U64 then uint_to_string (nat x) else int_to_string x)))
   | TTypeValue _ \<Rightarrow> (m_bind (m_slice v 0 8) (\<lambda>h.
     m_bind (m_type_of_handle (bytes_word h)) (\<lambda>t.
     m_type_name env t)))
   | TCode \<Rightarrow> (m_bind (m_slice v 0 8) (\<lambda>h.
     m_bind (m_code (bytes_word h)) (\<lambda>c.
     m_ok (quote_render (env_format_item env) (env_format_expr env) c))))
   | other \<Rightarrow> (m_bind (m_type_name env other) (\<lambda>name.
     m_fail (''`print` is not supported for '' @ name))))"

definition m_display :: "environment \<Rightarrow> operand \<Rightarrow> string mach" where
  "m_display env opd = (m_bind (m_operand_ty env opd) (\<lambda>ty.
    let inner = strip_borrow ty in
    m_bind (m_operand env opd) (\<lambda>v.
    m_bind (m_get ms_layouts) (\<lambda>ly.
    m_bind ((case ty of
TBorrow _ _ \<Rightarrow> if is_real_aggregate inner ly then m_ok v
else (m_bind (m_slice v 0 8) (\<lambda>p.
        m_bind (m_size_of env inner) (\<lambda>sz.
        m_read (memory_read (bytes_word p) sz))))
| _ \<Rightarrow> m_ok v)) (\<lambda>v.
    m_display_value env ty inner v)))))"

definition m_print :: "string \<Rightarrow> unit mach" where
  "m_print line s = (Ok (), s\<lparr>ms_output := ms_output s @ line @ [CHR 0x0A]\<rparr>)"

definition m_print_error :: "string \<Rightarrow> unit mach" where
  "m_print_error text s = (Ok (), s\<lparr>ms_stderr := ms_stderr s @ text @ [CHR 0x0A]\<rparr>)"

definition m_cell_new :: "environment \<Rightarrow> evaluator \<Rightarrow> operand list \<Rightarrow> byte list mach" where
  "m_cell_new env ev args = (m_bind (m_nth args 0) (\<lambda>opd.
    m_bind (m_operand_ty env opd) (\<lambda>ty.
    m_bind (m_size_of env ty) (\<lambda>sz.
    m_bind (m_alloc (CELL_VALUE_OFFSET + sz) False) (\<lambda>cell.
    m_bind (m_write (memory_write_u64 (cell + of_nat CELL_COUNT_OFFSET) 1)) (\<lambda>_.
    m_bind ((if type_eq ty TUnit then m_ok ()
else (m_bind (m_owned_operand env ev opd) (\<lambda>v.
        m_write (memory_write (cell + of_nat CELL_VALUE_OFFSET) v))))) (\<lambda>_.
    m_ok (word_bytes cell))))))))"

definition m_cell_set :: "environment \<Rightarrow> evaluator \<Rightarrow> addr \<Rightarrow> operand \<Rightarrow> unit mach" where
  "m_cell_set env ev cell opd = (m_bind (m_operand_ty env opd) (\<lambda>ty.
    if type_eq ty TUnit then m_ok ()
else (m_bind (m_owned_operand env ev opd) (\<lambda>v.
      let a = cell + of_nat CELL_VALUE_OFFSET in
      m_bind (m_read (memory_read a (length v))) (\<lambda>old.
      m_bind (m_write (memory_write a v)) (\<lambda>_.
      m_bind (m_needs_drop env ty) (\<lambda>needs.
      if \<not> needs then m_ok ()
else (m_bind (m_alloc (length old) False) (\<lambda>tmp.
        m_bind (m_write (memory_write tmp old)) (\<lambda>_.
        m_bind (ev_drop_at ev ty tmp) (\<lambda>_.
        m_write (memory_free tmp))))))))))))"

definition m_cell :: "environment \<Rightarrow> evaluator \<Rightarrow> string \<Rightarrow> operand list \<Rightarrow> type option \<Rightarrow> byte list option mach" where
  "m_cell env ev op args dest_ty = (if op = ''new'' then (m_bind (m_cell_new env ev args) (\<lambda>v.
    m_ok (Some v))) else (m_bind (m_nth args 0) (\<lambda>first.
    m_bind (m_pointer env first) (\<lambda>p.
    m_bind (m_operand_ty env first) (\<lambda>ty.
    m_bind ((case ty of TBorrow _ _ \<Rightarrow> m_read (memory_read_u64 p) | _ \<Rightarrow> m_ok p)) (\<lambda>cell.
    if op = ''get'' then (case dest_ty of
None \<Rightarrow> m_ok None
| Some ty \<Rightarrow> (m_bind (m_size_of env ty) (\<lambda>sz.
      m_bind (m_read (memory_read (cell + of_nat CELL_VALUE_OFFSET) sz)) (\<lambda>v.
      m_bind (m_clone_value env ev ty v) (\<lambda>v.
      m_ok (Some v))))))
else if op = ''set'' then (m_bind (m_nth args 1) (\<lambda>opd.
      m_bind (m_cell_set env ev cell opd) (\<lambda>_.
      m_ok None)))
else if op = ''clone'' then (m_bind (m_read (memory_read_u64 (cell + of_nat CELL_COUNT_OFFSET))) (\<lambda>count.
      m_bind (m_write (memory_write_u64 (cell + of_nat CELL_COUNT_OFFSET) (count + 1))) (\<lambda>_.
      m_ok (Some (word_bytes cell)))))
else if op = ''strong_count'' then (m_bind (m_read (memory_read (cell + of_nat CELL_COUNT_OFFSET) 8)) (\<lambda>v.
      m_ok (Some v)))
else m_fail (''unknown shared-cell operation `'' @ op @ ''`'')))))))"

definition m_fields_of_items :: "environment \<Rightarrow> (string \<times> expr ty) list \<Rightarrow> addr \<Rightarrow> nat \<Rightarrow> nat \<Rightarrow> nat \<Rightarrow> unit mach" where
  "m_fields_of_items env declared data info_size name_offset ty_offset =
     m_each (\<lambda>(i, field_name, field_ty). (m_bind (m_new_string (text_bytes field_name)) (\<lambda>name.
       m_bind (m_type_handle (resolve_ty (env_enums env) field_ty)) (\<lambda>h.
       let base = data + of_nat i * of_nat info_size in
       m_bind (m_write (memory_write (base + of_nat name_offset) name)) (\<lambda>_.
       m_write (memory_write (base + of_nat ty_offset) (word_bytes h))))))) (enumerate 0 declared)"

definition m_fields_of :: "environment \<Rightarrow> operand \<Rightarrow> type \<Rightarrow> byte list mach" where
  "m_fields_of env opd iter_ty = (m_bind (m_pointer env opd) (\<lambda>h.
    m_bind (m_type_of_handle h) (\<lambda>ty.
    (case ty of
TStruct struct_name _ \<Rightarrow> (let declared = (case env_structs env struct_name of None \<Rightarrow> [] | Some fs \<Rightarrow> fs) in
      m_bind (m_field_of env iter_ty ''items'') (\<lambda>items.
      m_bind (m_field_of env iter_ty ''pos'') (\<lambda>pos.
      m_bind (m_field_of env (fst items) ''data'') (\<lambda>data_field.
      m_bind (m_field_of env (fst items) ''len'') (\<lambda>len_field.
      m_bind (m_field_of env (fst items) ''cap'') (\<lambda>cap_field.
      m_bind (slice_elem (fst data_field)) (\<lambda>info_ty.
      m_bind (m_field_of env info_ty ''name'') (\<lambda>name_field.
      m_bind (m_field_of env info_ty ''ty'') (\<lambda>ty_field.
      m_bind (m_layout (element_size (env_depth env) info_ty)) (\<lambda>info_size.
      m_bind (m_alloc (info_size * length declared mod 2 ^ 64) False) (\<lambda>data.
      m_bind (m_fields_of_items env declared data info_size (snd name_field) (snd ty_field)) (\<lambda>_.
      m_bind (m_size_of env iter_ty) (\<lambda>sz.
      let len = le_bytes 8 (int (length declared)) in
      m_bind (m_copy_into (replicate sz 0) (snd items + snd data_field) (word_bytes data)) (\<lambda>bytes.
      m_bind (m_copy_into bytes (snd items + snd data_field + 8) len) (\<lambda>bytes.
      m_bind (m_copy_into bytes (snd items + snd len_field) len) (\<lambda>bytes.
      m_bind (m_copy_into bytes (snd items + snd cap_field) len) (\<lambda>bytes.
      m_copy_into bytes (snd pos) (le_bytes 8 0))))))))))))))))))
| _ \<Rightarrow> (m_bind (m_type_name env ty) (\<lambda>name.
      m_fail (''fields_of expects a struct type, found `'' @ name @ ''`'')))))))"

definition m_join_at :: "environment \<Rightarrow> place \<Rightarrow> operand \<Rightarrow> byte list mach" where
  "m_join_at env place separator = (m_bind (m_place_address env place) (\<lambda>at.
    m_bind (m_field_of env (snd at) ''data'') (\<lambda>data_field.
    m_bind (m_field_of env (snd at) ''len'') (\<lambda>len_field.
    m_bind (m_read (memory_read_u64 (fst at + of_nat (snd data_field)))) (\<lambda>data.
    m_bind (m_read (memory_read_u64 (fst at + of_nat (snd len_field)))) (\<lambda>len.
    m_bind (m_map (\<lambda>i. (m_bind (m_read (memory_read_u64 (data + of_nat i * 8))) (\<lambda>h.
        m_code h))) [0..<unat len]) (\<lambda>codes.
    m_bind (m_string env separator) (\<lambda>sep.
    (case quote_join (env_format_expr env) (env_debug_text env) codes (lossy_text sep) of
Inl msg \<Rightarrow> m_error msg
| Inr c \<Rightarrow> (m_bind (m_code_handle c) (\<lambda>h.
      m_ok (word_bytes h))))))))))))"

definition m_code_join :: "environment \<Rightarrow> operand \<Rightarrow> operand \<Rightarrow> byte list mach" where
  "m_code_join env pieces separator = (case pieces of
     Constant _ \<Rightarrow> m_fail ''Code::join expects a `Vec<Code>`''
   | Copy place \<Rightarrow> m_join_at env place separator
   | Move place \<Rightarrow> m_join_at env place separator)"

text \<open>The built-ins by what they work on: memory and slices, strings, rendering, and types and code.  The result is
  \<open>None\<close> when the name is not theirs; inside, it is the value for the destination, if any.\<close>

definition m_size_argument :: "environment \<Rightarrow> string \<Rightarrow> operand list \<Rightarrow> nat mach" where
  "m_size_argument env name args = (case args of
     [many, sz] \<Rightarrow> (m_bind (m_int_operand env many (TInt I64)) (\<lambda>c.
       m_bind (m_int_operand env sz (TInt I64)) (\<lambda>n.
       m_ok (nat (as_u64 (c * n))))))
   | [sz] \<Rightarrow> (m_bind (m_int_operand env sz (TInt I64)) (\<lambda>n.
     m_ok (nat (as_u64 n))))
   | _ \<Rightarrow> m_fail (''`'' @ name @ ''` expects a size''))"

definition m_write_string :: "environment \<Rightarrow> operand list \<Rightarrow> byte list mach" where
  "m_write_string env args = (m_bind (m_arg_descriptor env args 0) (\<lambda>d.
    m_bind (m_arg_int env args 1 I64) (\<lambda>at.
    m_bind (m_arg_string env args 2) (\<lambda>text.
    m_bind (m_slice d 0 8) (\<lambda>data.
    m_bind (m_slice d 8 16) (\<lambda>len.
    let fits = (0 \<le> at \<and> at + int (length text) < 2 ^ 63 \<and> at + int (length text) \<le> sint (bytes_word len)) in
    m_bind ((if fits then m_write (memory_write (bytes_word data + word_of_int at) text) else m_ok ())) (\<lambda>_.
    m_ok (flag fits))))))))"

definition m_sort_slice :: "environment \<Rightarrow> operand list \<Rightarrow> unit mach" where
  "m_sort_slice env args = (m_bind (m_arg_descriptor env args 0) (\<lambda>d.
    m_bind (m_arg_int env args 1 I64) (\<lambda>len.
    m_bind (m_arg_int env args 2 I32) (\<lambda>kind.
    m_bind (m_slice d 0 8) (\<lambda>data.
    m_bind (m_slice d 8 16) (\<lambda>available.
    let n = sort_element_size kind in
    m_bind (m_read (memory_read (bytes_word data) (unat (min (word_of_int (max len 0)) (bytes_word available) * of_nat n)))) (\<lambda>bytes.
    m_write (memory_write (bytes_word data) (sort_bytes bytes kind)))))))))"

definition m_zeros :: "environment \<Rightarrow> operand list \<Rightarrow> type option \<Rightarrow> byte list mach" where
  "m_zeros env args dest_ty = (m_bind (m_require dest_ty) (\<lambda>ty.
    m_bind (slice_elem ty) (\<lambda>elem.
    m_bind (m_arg_int env args 0 I64) (\<lambda>len.
    m_bind (m_layout (element_size (env_depth env) elem)) (\<lambda>n.
    m_bind (m_alloc (unat (word_of_int len * of_nat n :: addr)) False) (\<lambda>data.
    m_ok (word_bytes data @ le_bytes 8 (as_u64 len))))))))"

definition m_memory_builtin :: "environment \<Rightarrow> string \<Rightarrow> operand list \<Rightarrow> type option \<Rightarrow> byte list option option mach" where
  "m_memory_builtin env name args dest_ty =
    (if name = ''paco_calloc'' \<or> name = ''paco_alloc'' then (m_bind (m_size_argument env name args) (\<lambda>n.
      m_bind (m_alloc n False) (\<lambda>a.
      m_ok (Some (Some (word_bytes a))))))
     else if name = ''paco_free'' then (m_bind (m_arg_pointer env args 0) (\<lambda>a.
       m_bind (m_write (memory_free a)) (\<lambda>_.
       m_ok (Some None))))
     else if name = ''bytes_write_string'' then (m_bind (m_write_string env args) (\<lambda>v.
       m_ok (Some (Some v))))
     else if name = ''slice_sort'' then (m_bind (m_sort_slice env args) (\<lambda>_.
       m_ok (Some None)))
     else if name = ''slice_of_zeros'' then (m_bind (m_zeros env args dest_ty) (\<lambda>v.
       m_ok (Some (Some v))))
     else if name = ''slice_as_ptr'' \<or> name = ''slice_as_mut_ptr'' then (m_bind (m_arg_descriptor env args 0) (\<lambda>d.
       m_bind (m_slice d 0 8) (\<lambda>v.
       m_ok (Some (Some v)))))
     else m_ok None)"

definition m_optional_string :: "byte list option \<Rightarrow> byte list option mach" where
  "m_optional_string x = (case x of None \<Rightarrow> m_ok None | Some bs \<Rightarrow> (m_bind (m_new_string bs) (\<lambda>v.
    m_ok (Some v))))"

definition m_string_part :: "environment \<Rightarrow> string \<Rightarrow> operand list \<Rightarrow> type option \<Rightarrow> byte list mach" where
  "m_string_part env name args dest_ty = (m_bind (m_arg_string env args 0) (\<lambda>text.
    m_bind (m_arg_int env args 1 I64) (\<lambda>pos.
    m_bind ((if name = ''string_char_at'' then m_ok (map_option (\<lambda>c. le_bytes 4 (uint c)) (char_at text pos))
else if name = ''string_byte_at'' then m_ok (map_option (\<lambda>b. le_bytes 8 b) (byte_at text pos))
else (m_bind (m_arg_int env args 2 I64) (\<lambda>stop.
        m_optional_string (slice_utf8 text pos stop))))) (\<lambda>payload.
    m_bind (m_require dest_ty) (\<lambda>ty.
    m_option env ty payload)))))"

definition m_string_from_bytes :: "environment \<Rightarrow> operand list \<Rightarrow> type option \<Rightarrow> byte list mach" where
  "m_string_from_bytes env args dest_ty = (m_bind (m_arg_string env args 0) (\<lambda>bytes.
    m_bind (m_arg_int env args 1 I64) (\<lambda>start.
    m_bind (m_arg_int env args 2 I64) (\<lambda>stop.
    m_bind (m_optional_string (from_utf8_range bytes start stop)) (\<lambda>payload.
    m_bind (m_require dest_ty) (\<lambda>ty.
    m_option env ty payload))))))"

definition m_string_builtin :: "environment \<Rightarrow> string \<Rightarrow> operand list \<Rightarrow> type option \<Rightarrow> byte list option option mach" where
  "m_string_builtin env name args dest_ty =
    (if name = ''string_len_bytes'' then (m_bind (m_arg_descriptor env args 0) (\<lambda>d.
      m_bind (m_slice d 8 16) (\<lambda>v.
      m_ok (Some (Some v)))))
     else if name = ''string_concat'' then (m_bind (m_arg_string env args 0) (\<lambda>l.
       m_bind (m_arg_string env args 1) (\<lambda>r.
       m_bind (m_new_string (l @ r)) (\<lambda>v.
       m_ok (Some (Some v))))))
     else if name = ''string_next_char_boundary'' then (m_bind (m_arg_string env args 0) (\<lambda>text.
       m_bind (m_arg_int env args 1 I64) (\<lambda>pos.
       m_ok (Some (Some (le_bytes 8 (next_char_boundary text pos)))))))
     else if name = ''string_char_at'' \<or> name = ''string_byte_at'' \<or> name = ''string_slice_utf8'' then (m_bind (m_string_part env name args dest_ty) (\<lambda>v.
       m_ok (Some (Some v))))
     else if name = ''string_to_bytes'' then (m_bind (m_arg_string env args 0) (\<lambda>text.
       m_bind (m_new_string text) (\<lambda>v.
       m_ok (Some (Some v)))))
     else if name = ''string_from_bytes'' then (m_bind (m_string_from_bytes env args dest_ty) (\<lambda>v.
       m_ok (Some (Some v))))
     else if name = ''string_hash'' then (m_bind (m_arg_string env args 0) (\<lambda>text.
       m_ok (Some (Some (word_bytes (hash_bytes text))))))
     else m_ok None)"

definition m_float_to_string :: "environment \<Rightarrow> operand list \<Rightarrow> byte list mach" where
  "m_float_to_string env args = (m_bind (m_nth args 0) (\<lambda>opd.
    m_bind (m_operand_ty env opd) (\<lambda>ty.
    (case strip_borrow ty of
TFloat w \<Rightarrow> (m_bind (m_operand env opd) (\<lambda>bs.
      m_bind (m_lift (Scalars.float_value bs w)) (\<lambda>x.
      m_new_string (text_bytes (env_format_float env x (format_code w))))))
| _ \<Rightarrow> m_fail ''float_to_string expects a float''))))"

definition m_render_builtin :: "environment \<Rightarrow> string \<Rightarrow> operand list \<Rightarrow> byte list option option mach" where
  "m_render_builtin env name args =
    (if name = ''uint_to_string'' then (m_bind (m_arg_int env args 0 U64) (\<lambda>x.
      m_bind (m_new_string (text_bytes (uint_to_string (nat x)))) (\<lambda>v.
      m_ok (Some (Some v)))))
     else if name = ''int_to_string'' then (m_bind (m_arg_int env args 0 I64) (\<lambda>x.
       m_bind (m_new_string (text_bytes (int_to_string x))) (\<lambda>v.
       m_ok (Some (Some v)))))
     else if name = ''bool_to_string'' then (m_bind (m_nth args 0) (\<lambda>opd.
       m_bind (m_operand env opd) (\<lambda>bs.
       m_bind (m_nth bs 0) (\<lambda>b.
       m_bind (m_new_string (text_bytes (bool_to_string (b \<noteq> 0)))) (\<lambda>v.
       m_ok (Some (Some v)))))))
     else if name = ''float_to_string'' then (m_bind (m_float_to_string env args) (\<lambda>v.
       m_ok (Some (Some v))))
     else if name = ''char_to_string'' then (m_bind (m_nth args 0) (\<lambda>opd.
       m_bind (m_operand env opd) (\<lambda>bs.
       m_bind (m_lift (int_value bs U32)) (\<lambda>x.
       m_bind ((case encode_char (word_of_int x) of (buf, n) \<Rightarrow> m_new_string (take n buf))) (\<lambda>v.
       m_ok (Some (Some v)))))))
     else m_ok None)"

definition m_reflect_builtin :: "environment \<Rightarrow> string \<Rightarrow> operand list \<Rightarrow> type option \<Rightarrow> byte list option option mach" where
  "m_reflect_builtin env name args dest_ty =
    (if name = ''fields_of'' then (m_bind (m_nth args 0) (\<lambda>opd.
      m_bind (m_require dest_ty) (\<lambda>ty.
      m_bind (m_fields_of env opd ty) (\<lambda>v.
      m_ok (Some (Some v))))))
     else if name = ''type_name'' then (m_bind (m_arg_pointer env args 0) (\<lambda>h.
       m_bind (m_type_of_handle h) (\<lambda>ty.
       m_bind (m_type_name env ty) (\<lambda>text.
       m_bind (m_new_string (text_bytes text)) (\<lambda>v.
       m_ok (Some (Some v)))))))
     else if name = ''code_to_string'' then (m_bind (m_arg_pointer env args 0) (\<lambda>h.
       m_bind (m_code h) (\<lambda>c.
       m_bind (m_new_string (text_bytes (quote_render (env_format_item env) (env_format_expr env) c))) (\<lambda>v.
       m_ok (Some (Some v))))))
     else if name = ''Code::join'' then (m_bind (m_nth args 0) (\<lambda>pieces.
       m_bind (m_nth args 1) (\<lambda>sep.
       m_bind (m_code_join env pieces sep) (\<lambda>v.
       m_ok (Some (Some v))))))
     else m_ok None)"

definition m_output_builtin :: "environment \<Rightarrow> string \<Rightarrow> operand list \<Rightarrow> byte list option option mach" where
  "m_output_builtin env name args =
    (if name = PANIC_SYMBOL then (m_bind (m_arg_string env args 0) (\<lambda>text.
      m_fail (''panicked: '' @ lossy_text text)))
     else if name = ''print'' then (m_bind (m_nth args 0) (\<lambda>opd.
       m_bind (m_display env opd) (\<lambda>line.
       m_bind (m_print line) (\<lambda>_.
       m_ok (Some None)))))
     else if name = ''stderr_write'' then (m_bind (m_arg_string env args 0) (\<lambda>text.
       m_bind (m_print_error (lossy_text text)) (\<lambda>_.
       m_ok (Some None))))
     else (case forbidden name of Some operation \<Rightarrow> m_error (not_allowed operation) | None \<Rightarrow> m_ok None))"

definition m_or_else :: "'a option mach \<Rightarrow> 'a option mach \<Rightarrow> 'a option mach" where
  "m_or_else f g = (m_bind f (\<lambda>r.
    (case r of Some x \<Rightarrow> m_ok (Some x) | None \<Rightarrow> g)))"

definition cell_prefix :: string where "cell_prefix = ''$cell::''"

definition m_builtin :: "environment \<Rightarrow> evaluator \<Rightarrow> string \<Rightarrow> operand list \<Rightarrow> place option \<Rightarrow> byte list option option mach" where
  "m_builtin env ev name args destination = (m_bind ((case destination of None \<Rightarrow> m_ok None | Some place \<Rightarrow> (m_bind (m_place_ty env place) (\<lambda>ty.
        m_ok (Some ty))))) (\<lambda>dest_ty.
    m_or_else (m_output_builtin env name args)
(m_or_else (m_memory_builtin env name args dest_ty)
(m_or_else (m_string_builtin env name args dest_ty)
(m_or_else (m_render_builtin env name args)
(m_or_else (m_reflect_builtin env name args dest_ty)
(if take (length cell_prefix) name = cell_prefix
then (m_bind (m_cell env ev (drop (length cell_prefix) name) args dest_ty) (\<lambda>r.
      m_ok (Some r)))
else m_ok None)))))))"

section \<open>Terminators and calls\<close>

datatype flow = FlowGoto nat | FlowReturn "byte list"

definition m_body :: "environment \<Rightarrow> string \<Rightarrow> mir_body mach" where
  "m_body env name = (case env_body env name of
     None \<Rightarrow> m_error (''`'' @ name @ ''` has no body to evaluate at compile time'')
   | Some body \<Rightarrow> m_ok body)"

definition m_write_destination :: "environment \<Rightarrow> evaluator \<Rightarrow> place option \<Rightarrow> byte list \<Rightarrow> unit mach" where
  "m_write_destination env ev destination v = (case destination of None \<Rightarrow> m_ok () | Some place \<Rightarrow> m_write_place env ev place v)"

definition m_argument :: "environment \<Rightarrow> evaluator \<Rightarrow> mir_body \<Rightarrow> nat \<Rightarrow> operand \<Rightarrow> byte list mach" where
  "m_argument env ev body i opd =
    (if i < length (body_locals body) \<and> i < body_param_count body then (let param = ld_ty (body_locals body ! i) in
      m_bind ((case param of
TBorrow _ _ \<Rightarrow> (m_bind (m_operand_ty env opd) (\<lambda>ty.
          m_ok (case ty of TBorrow _ _ \<Rightarrow> False | _ \<Rightarrow> True)))
| _ \<Rightarrow> m_ok False)) (\<lambda>auto_ref.
      if auto_ref then (m_bind (m_operand_address env opd) (\<lambda>a.
        m_ok (word_bytes a))) else m_owned_as env ev opd param))
     else m_operand env opd)"

definition m_call_terminator :: "environment \<Rightarrow> evaluator \<Rightarrow> string \<Rightarrow> operand list \<Rightarrow> place option \<Rightarrow> unit mach" where
  "m_call_terminator env ev name args destination = (m_bind (m_builtin env ev name args destination) (\<lambda>built.
    (case built of
Some result \<Rightarrow> (case result of None \<Rightarrow> m_ok () | Some v \<Rightarrow> m_write_destination env ev destination v)
| None \<Rightarrow>
if name \<in> set (env_externs env) then m_error (not_allowed ''calling an `extern` (FFI) function'')
else (m_bind (m_body env name) (\<lambda>body.
      m_bind (m_map (\<lambda>(i, opd). m_argument env ev body i opd) (enumerate 0 args)) (\<lambda>vs.
      m_bind (ev_call ev name vs) (\<lambda>r.
      m_write_destination env ev destination r)))))))"

definition m_switch :: "environment \<Rightarrow> operand \<Rightarrow> (int \<times> nat) list \<Rightarrow> nat \<Rightarrow> nat mach" where
  "m_switch env opd targets otherwise = (m_bind (m_operand env opd) (\<lambda>bytes.
    if 16 < length bytes then m_panic
else m_ok (case find (\<lambda>(c, _). c mod 2 ^ (8 * length bytes) = le_value bytes) targets of
None \<Rightarrow> otherwise | Some (_, target) \<Rightarrow> target)))"

definition m_call_indirect :: "environment \<Rightarrow> evaluator \<Rightarrow> operand \<Rightarrow> operand list \<Rightarrow> place option \<Rightarrow> unit mach" where
  "m_call_indirect env ev callee args destination = (m_bind (m_pointer env callee) (\<lambda>p.
    m_bind (m_function_name p) (\<lambda>name.
    m_bind (m_map (\<lambda>(i, opd). if i = 0 then m_operand env opd else m_owned_operand env ev opd) (enumerate (0 :: nat) args)) (\<lambda>vs.
    m_bind (ev_call ev name vs) (\<lambda>r.
    m_write_destination env ev destination r)))))"

definition m_return :: "environment \<Rightarrow> evaluator \<Rightarrow> operand \<Rightarrow> byte list mach" where
  "m_return env ev opd = (m_bind m_frame (\<lambda>f.
    let return_ty = body_return_ty (fr_body f) in
    m_bind (m_size_of env return_ty) (\<lambda>sz.
    if sz = 0 \<and> type_eq return_ty TUnit then (m_bind (m_drop_all_owned env ev) (\<lambda>_.
      m_ok []))
else if opd = Constant CUnit then m_fail ''reached code with no value to return''
else (m_bind (m_owned_as env ev opd return_ty) (\<lambda>v.
      m_bind (m_drop_all_owned env ev) (\<lambda>_.
      m_ok v))))))"

definition m_terminator :: "environment \<Rightarrow> evaluator \<Rightarrow> terminator \<Rightarrow> flow mach" where
  "m_terminator env ev t = (case t of
     Goto target \<Rightarrow> m_ok (FlowGoto target)
   | SwitchInt opd targets otherwise \<Rightarrow> (m_bind (m_switch env opd targets otherwise) (\<lambda>target.
     m_ok (FlowGoto target)))
   | Call name args destination resume \<Rightarrow> (m_bind (m_call_terminator env ev name args destination) (\<lambda>_.
     m_ok (FlowGoto resume)))
   | CallIndirect callee args destination resume \<Rightarrow> (m_bind (m_call_indirect env ev callee args destination) (\<lambda>_.
     m_ok (FlowGoto resume)))
   | Return opd \<Rightarrow> (m_bind (m_return env ev opd) (\<lambda>v.
     m_ok (FlowReturn v)))
   | Unreachable \<Rightarrow> m_fail ''entered unreachable code'')"

definition m_step_statement :: "environment \<Rightarrow> evaluator \<Rightarrow> mir_body \<Rightarrow> nat \<Rightarrow> nat \<times> statement \<Rightarrow> unit mach" where
  "m_step_statement env ev body block = (\<lambda>(i, st). (m_bind (m_frame_mut (\<lambda>f. f\<lparr>fr_span := statement_span body block i\<rparr>)) (\<lambda>_.
    m_bind (m_tick env) (\<lambda>_.
    m_located (m_statement env ev st)))))"

definition m_block :: "environment \<Rightarrow> evaluator \<Rightarrow> mir_body \<Rightarrow> nat \<Rightarrow> flow mach" where
  "m_block env ev body block = (m_bind (m_nth (body_blocks body) block) (\<lambda>data.
    m_bind (m_each (m_step_statement env ev body block) (enumerate 0 (bb_statements data))) (\<lambda>_.
    m_bind (m_frame_mut (\<lambda>f. f\<lparr>fr_span := terminator_span body block\<rparr>)) (\<lambda>_.
    m_bind (m_tick env) (\<lambda>_.
    m_located (m_terminator env ev (bb_terminator data)))))))"

fun m_blocks :: "environment \<Rightarrow> evaluator \<Rightarrow> nat \<Rightarrow> mir_body \<Rightarrow> nat \<Rightarrow> byte list mach" where
  "m_blocks env ev 0 body block = m_starved"
| "m_blocks env ev (Suc k) body block = (m_bind (m_block env ev body block) (\<lambda>next.
  (case next of FlowGoto target \<Rightarrow> m_blocks env ev k body target | FlowReturn v \<Rightarrow> m_ok v)))"

definition m_parameter :: "environment \<Rightarrow> mir_body \<Rightarrow> nat \<times> byte list \<Rightarrow> unit mach" where
  "m_parameter env body = (\<lambda>(i, v). (m_bind (m_local_address i) (\<lambda>a.
    m_bind (m_located (m_write (memory_write a v))) (\<lambda>_.
    m_bind (m_nth (body_locals body) i) (\<lambda>d.
    m_bind (m_needs_drop env (ld_ty d)) (\<lambda>needs.
    if needs then m_set_flag i True else m_ok ()))))))"

definition m_run_frame :: "environment \<Rightarrow> evaluator \<Rightarrow> byte list list \<Rightarrow> byte list mach" where
  "m_run_frame env ev args = (m_bind m_frame (\<lambda>f.
    let body = fr_body f in
    m_bind (m_each (m_parameter env body) (take (body_param_count body) (enumerate 0 args))) (\<lambda>_.
    m_blocks env ev (Suc (lim_instructions (env_limits env))) body 0)))"

definition borrowed_locals :: "mir_body \<Rightarrow> nat list" where
  "borrowed_locals body = concat (map (\<lambda>block. concat (map (\<lambda>st. case st of Assign _ (Ref _ (PLocal l)) \<Rightarrow> [l] | _ \<Rightarrow> [])
     (bb_statements block))) (body_blocks body))"

definition m_borrowed :: "string \<Rightarrow> mir_body \<Rightarrow> nat list mach" where
  "m_borrowed name body s = (case map_of (ms_borrowed s) name of
     Some known \<Rightarrow> (Ok known, s)
   | None \<Rightarrow> (let b = borrowed_locals body in (Ok b, s\<lparr>ms_borrowed := (name, b) # ms_borrowed s\<rparr>)))"

definition m_enter :: "frame \<Rightarrow> unit mach" where
  "m_enter f s = (Ok (), s\<lparr>ms_frames := f # ms_frames s, ms_depth := ms_depth s + 1\<rparr>)"

text \<open>The end of a call, with the result of its frame: the frame is popped and its storage freed, after an error too.\<close>

definition m_leave :: "'a mach \<Rightarrow> 'a mach" where
  "m_leave f s = (case f s of
     (Panicked, s) \<Rightarrow> (Panicked, s)
   | (OutOfFuel, s) \<Rightarrow> (OutOfFuel, s)
   | (r, s) \<Rightarrow> (case ms_frames s of
       [] \<Rightarrow> (Panicked, s)
     | fr # frs \<Rightarrow> m_bind (m_each (\<lambda>a. m_write (memory_free a)) (fr_locals fr @ fr_scratch fr)) (\<lambda>_. m_lift r)
         (s\<lparr>ms_frames := frs, ms_depth := ms_depth s - 1\<rparr>)))"

definition m_call :: "environment \<Rightarrow> evaluator \<Rightarrow> string \<Rightarrow> byte list list \<Rightarrow> byte list mach" where
  "m_call env ev name args = (m_bind (m_body env name) (\<lambda>body.
    m_bind (m_get ms_depth) (\<lambda>depth.
    if lim_call_depth (env_limits env) \<le> depth
then m_fail (''exceeded the comptime call-depth limit ('' @ nat_string (lim_call_depth (env_limits env)) @ '' nested calls) ''
@ [CHR 0xE2, CHR 0x80, CHR 0x94] @ '' this usually means unbounded recursion'')
else (m_bind (m_borrowed name body) (\<lambda>borrowed.
      m_bind (m_map (\<lambda>l. (m_bind (m_size_of env (ld_ty l)) (\<lambda>sz.
          m_alloc sz False))) (body_locals body)) (\<lambda>locals.
      m_bind (m_enter \<lparr>fr_body = body, fr_locals = locals, fr_flags = replicate (length (body_locals body)) False,
fr_borrowed = borrowed, fr_scratch = [], fr_span = body_span body\<rparr>) (\<lambda>_.
      m_leave (m_run_frame env ev args))))))))"

section \<open>Values in and out\<close>

definition m_encode :: "environment \<Rightarrow> type \<Rightarrow> comptime_value \<Rightarrow> byte list mach" where
  "m_encode env ty v = (case v of
     CtScalar c \<Rightarrow> m_constant c
   | CtType inner \<Rightarrow> (m_bind (m_type_handle inner) (\<lambda>h.
     m_ok (word_bytes h)))
   | CtCode c \<Rightarrow> (m_bind (m_code_handle c) (\<lambda>h.
     m_ok (word_bytes h)))
   | _ \<Rightarrow> (m_bind (m_type_name env ty) (\<lambda>name.
     m_error (''cannot pass a '' @ name @ '' argument to compile-time code''))))"

definition cannot_embed :: "string \<Rightarrow> string" where
  "cannot_embed what = ''a compile-time value of type `'' @ what @ ''` cannot be embedded in the program''"

definition m_decode_field :: "environment \<Rightarrow> evaluator \<Rightarrow> byte list \<Rightarrow> type \<times> nat \<Rightarrow> comptime_value mach" where
  "m_decode_field env ev bytes = (\<lambda>(ty, off). (m_bind (m_size_of env ty) (\<lambda>sz.
    m_bind (m_slice bytes off (off + sz)) (\<lambda>bs.
    ev_decode ev ty bs))))"

definition m_decode_slice :: "environment \<Rightarrow> evaluator \<Rightarrow> type \<Rightarrow> byte list \<Rightarrow> comptime_value list mach" where
  "m_decode_slice env ev elem bytes = (m_bind (m_slice bytes 0 8) (\<lambda>data.
    m_bind (m_slice bytes 8 16) (\<lambda>len.
    m_bind (m_layout (element_size (env_depth env) elem)) (\<lambda>n.
    m_map (\<lambda>i. (m_bind (m_size_of env elem) (\<lambda>sz.
      m_bind (m_read (memory_read (bytes_word data + of_nat i * of_nat n) sz)) (\<lambda>item.
      ev_decode ev elem item)))) [0..<unat (bytes_word len)]))))"

fun m_find :: "('a \<Rightarrow> bool mach) \<Rightarrow> 'a list \<Rightarrow> 'a option mach" where
  "m_find f [] = m_ok None"
| "m_find f (x # xs) = (m_bind (f x) (\<lambda>b.
  if b then m_ok (Some x) else m_find f xs))"

definition m_decode_enum :: "environment \<Rightarrow> evaluator \<Rightarrow> type \<Rightarrow> string \<Rightarrow> type list \<Rightarrow> byte list \<Rightarrow> comptime_value mach" where
  "m_decode_enum env ev ty name args bytes = (m_bind (m_slice bytes 0 8) (\<lambda>t.
    let tag = bytes_word t in
    let invalid = ''invalid `'' @ name @ ''` tag '' @ nat_string (unat tag) in
    m_bind (m_layout (enum_variant_names name)) (\<lambda>names.
    m_bind (m_layout (enum_variants (env_depth env) name args)) (\<lambda>vs.
    (case find (\<lambda>(i, _). of_nat i = tag) vs of
None \<Rightarrow> m_error invalid
| Some (_, fs) \<Rightarrow> (m_bind (m_find (\<lambda>v. (m_bind (m_layout (enum_variant_index (env_depth env) name args v)) (\<lambda>i.
          m_ok (of_nat i = tag)))) names) (\<lambda>variant.
      (case variant of
None \<Rightarrow> m_error invalid
| Some v \<Rightarrow> (m_bind (m_map (m_decode_field env ev bytes) fs) (\<lambda>xs.
        m_ok (CtVariant ty v xs)))))))))))"

definition m_decode_other :: "environment \<Rightarrow> type \<Rightarrow> comptime_value mach" where
  "m_decode_other env ty = (m_bind (m_type_name env ty) (\<lambda>name.
    m_error (cannot_embed name)))"

definition m_decode :: "environment \<Rightarrow> evaluator \<Rightarrow> type \<Rightarrow> byte list \<Rightarrow> comptime_value mach" where
  "m_decode env ev ty bytes = (case ty of
     TUnit \<Rightarrow> m_ok (CtScalar CUnit)
   | TInt w \<Rightarrow> (m_bind (m_lift (int_value bytes w)) (\<lambda>x.
     m_ok (CtScalar (CInt (as_i64 x) w))))
   | TFloat w \<Rightarrow> (m_bind (m_lift (Scalars.float_value bytes w)) (\<lambda>x.
     m_ok (CtScalar (CFloat x w))))
   | TBool \<Rightarrow> (m_bind (m_nth bytes 0) (\<lambda>b.
     m_ok (CtScalar (CBool (b \<noteq> 0)))))
   | TChar \<Rightarrow> (m_bind (m_lift (int_value bytes U32)) (\<lambda>x.
     let c = word_of_int x in
     if scalar c then m_ok (CtScalar (CChar (bytes_text (encoded c)))) else m_error (cannot_embed ''char'')))
   | TString \<Rightarrow> (m_bind (m_descriptor_bytes bytes) (\<lambda>bs.
     m_ok (CtScalar (CStr (lossy_text bs)))))
   | TTypeValue _ \<Rightarrow> (m_bind (m_slice bytes 0 8) (\<lambda>h.
     m_bind (m_type_of_handle (bytes_word h)) (\<lambda>t.
     m_ok (CtType t))))
   | TCode \<Rightarrow> (m_bind (m_slice bytes 0 8) (\<lambda>h.
     m_bind (m_code (bytes_word h)) (\<lambda>c.
     m_ok (CtCode c))))
   | TSlice elem \<Rightarrow> (m_bind (m_decode_slice env ev elem bytes) (\<lambda>xs.
     m_ok (CtSlice ty xs)))
   | TTuple items \<Rightarrow> (m_bind (m_map (\<lambda>i. (m_bind (m_layout (tuple_field (env_depth env) items i)) (\<lambda>f.
         m_decode_field env ev bytes f))) [0..<length items]) (\<lambda>xs.
     m_ok (CtRecord ty xs)))
   | TStruct name args \<Rightarrow> (m_bind (m_get ms_layouts) (\<lambda>ly.
     if has_struct ly name
then (m_bind (m_layout (struct_fields (env_depth env) name args)) (\<lambda>fs.
       m_bind (m_map (m_decode_field env ev bytes) fs) (\<lambda>xs.
       m_ok (CtRecord ty xs))))
else m_decode_other env ty))
   | TEnum name args \<Rightarrow> m_decode_enum env ev ty name args bytes
   | _ \<Rightarrow> m_decode_other env ty)"

section \<open>Evaluation\<close>

fun evaluators :: "nat \<Rightarrow> environment \<Rightarrow> evaluator" where
  "evaluators 0 env = \<lparr>ev_call = (\<lambda>_ _. m_starved), ev_drop_at = (\<lambda>_ _. m_starved), ev_clone_at = (\<lambda>_ _. m_starved),
     ev_decode = (\<lambda>_ _. m_starved)\<rparr>"
| "evaluators (Suc n) env = \<lparr>ev_call = m_call env (evaluators n env), ev_drop_at = m_drop_at env (evaluators n env),
     ev_clone_at = m_clone_at env (evaluators n env), ev_decode = m_decode env (evaluators n env)\<rparr>"

definition m_run :: "environment \<Rightarrow> evaluator \<Rightarrow> string \<Rightarrow> (type \<times> comptime_value) list \<Rightarrow> comptime_value mach" where
  "m_run env ev entry args = (m_bind (m_body env entry) (\<lambda>body.
    m_bind (m_map (\<lambda>(ty, v). m_encode env ty v) args) (\<lambda>vs.
    m_bind (ev_call ev entry vs) (\<lambda>r.
    ev_decode ev (body_return_ty body) r))))"

record evaluation =
  evn_value :: comptime_value
  evn_output :: string
  evn_stderr :: string

definition evaluate :: "nat \<Rightarrow> environment \<Rightarrow> type_layouts \<Rightarrow> string \<Rightarrow> (type \<times> comptime_value) list \<Rightarrow> evaluation outcome" where
  "evaluate n env ly entry args = (case m_run env (evaluators n env) entry args (machine_new ly) of
     (Ok v, s) \<Rightarrow> Ok \<lparr>evn_value = v, evn_output = ms_output s, evn_stderr = ms_stderr s\<rparr>
   | (Failed msg sp, _) \<Rightarrow> Failed msg sp
   | (Panicked, _) \<Rightarrow> Panicked
   | (OutOfFuel, _) \<Rightarrow> OutOfFuel)"

section \<open>Evaluation keeps within its limits\<close>

lemma tame_bytes [tame_rules]: "tame env (m_slice bs i j)" "tame env (m_copy_into bs off v)" "tame env (m_code h)" "tame env (m_type_name e ty)"
  "tame env (m_function_name p)"
  by (rule tame_same, simp add: m_slice_def m_copy_into_def m_code_def m_type_name_def m_function_name_def m_ok_def m_panic_def m_error_def
      m_get_def Let_def)+

lemma tame_more_loops [tame_rules]:
  "(\<And>x acc. tame env (f x acc)) \<Longrightarrow> tame env (m_fold f xs acc)"
  "(\<And>x. tame env (b x)) \<Longrightarrow> tame env (m_find b xs)"
  by (induction xs arbitrary: acc; simp add: tame_rules split del: if_split)+

lemma tame_case_applied [tame_rules]:
  "(\<And>x y. tame env (h x y a)) \<Longrightarrow> tame env ((case p of (x, y) \<Rightarrow> h x y) a)"
  "(\<And>x y. tame env (g x y a b)) \<Longrightarrow> tame env ((case p of (x, y) \<Rightarrow> g x y) a b)"
  by (simp_all split: prod.split)

lemma tame_function_pointer [tame_rules]: "tame env (m_function_pointer name)"
  by (rule tame_step)
    (auto simp: m_function_pointer_def machine_grows_def frames_grow_def frame_grows_refl blocks.grows_refl layouts_growth.grows_refl Let_def
      split: list.split option.split)

lemma tame_prints [tame_rules]: "tame env (m_print line)" "tame env (m_print_error line)"
  by (rule tame_step;
    auto simp: m_print_def m_print_error_def machine_grows_def frames_grow_def frame_grows_refl blocks.grows_refl layouts_growth.grows_refl
      split: list.split)+

lemma tame_borrowed [tame_rules]: "tame env (m_borrowed name body)"
  by (rule tame_step)
    (auto simp: m_borrowed_def machine_grows_def frames_grow_def frame_grows_refl blocks.grows_refl layouts_growth.grows_refl Let_def
      split: list.split option.split)

lemma tame_descriptors [tame_rules]: "tame env (m_descriptor e place)" "tame env (m_operand_descriptor e opd)"
  "tame env (m_descriptor_bytes d)" "tame env (m_string e opd)" "tame env (m_new_string bs)"
proof -
  show d: "tame env (m_descriptor e place)" for place unfolding m_descriptor_def
    by (intro tame_rules) (simp split: type.split; intro allI impI conjI tame_rules)
  show o: "tame env (m_operand_descriptor e opd)" unfolding m_operand_descriptor_def by (cases opd; simp; intro tame_rules d)
  show b: "tame env (m_descriptor_bytes d)" for d unfolding m_descriptor_bytes_def by (intro tame_rules)
  show "tame env (m_string e opd)" unfolding m_string_def by (intro tame_rules o b)
  show "tame env (m_new_string bs)" unfolding m_new_string_def by (intro tame_rules)
qed

lemma tame_glue_fields:
  "(\<And>ty a. tame env (f ty a)) \<Longrightarrow> tame env (m_enum_fields e name args a f)"
  "(\<And>ty a. tame env (f ty a)) \<Longrightarrow> tame env (m_glue_fields e ty a f)"
  unfolding m_enum_fields_def m_glue_fields_def by (intro tame_rules keeps_queries; assumption)+

lemma tame_place_field: "tame env off \<Longrightarrow> tame env v \<Longrightarrow> tame env (m_place_field e opd off v bytes)"
  unfolding m_place_field_def by (intro tame_rules; assumption)

lemma tame_splice [tame_rules]: "tame env (m_splice_value e ty v)"
  unfolding m_splice_value_def Let_def
  by (cases "strip_borrow ty"; simp split del: if_split; intro tame_rules) (cases ty; simp; intro tame_rules)+

lemma tame_quote [tame_rules]: "tame env (m_quote e template splices)"
  unfolding m_quote_def by (intro tame_rules)

lemma tame_binary [tame_rules]: "tame env (m_binary e op left right)"
proof -
  have "tame env (m_string_binary e op left right)" unfolding m_string_binary_def
    by (intro tame_rules) (cases op; simp; intro tame_rules)
  then show ?thesis unfolding m_binary_def by (intro tame_rules)
qed

lemma tame_math [tame_rules]: "tame env (m_math e op args)"
proof -
  have float: "tame env (case ty of TFloat w \<Rightarrow> f w | _ \<Rightarrow> m_fail msg)" if "\<And>w. tame env (f w)" for ty f msg
    using that by (cases ty; simp; intro tame_rules)
  show ?thesis unfolding m_math_def by (intro tame_rules float)
qed

lemma tame_arguments [tame_rules]: "tame env (m_arg_int e args i w)" "tame env (m_arg_string e args i)"
  "tame env (m_arg_descriptor e args i)" "tame env (m_arg_pointer e args i)"
  unfolding m_arg_int_def m_arg_string_def m_arg_descriptor_def m_arg_pointer_def by (intro tame_rules)+

lemma tame_option [tame_rules]: "tame env (m_option e ty payload)"
  unfolding m_option_def
  by (cases ty; hypsubst; (intro tame_bind tame_layout tame_size_of tame_bytes tame_pure tame_case(1) keeps_queries | simp only: type.case)+)

lemma tame_display [tame_rules]: "tame env (m_display e opd)"
proof -
  have shown: "tame env (m_display_value e ty inner v)" for ty inner v
  proof -
    have d: "tame env (case ty of TBorrow _ _ \<Rightarrow> f | _ \<Rightarrow> m_ok v)" if "tame env f" for f
      using that by (cases ty; simp; intro tame_rules)
    show ?thesis unfolding m_display_value_def by (cases inner; hypsubst; (intro d tame_rules | simp only: type.case)+)
  qed
  have loaded: "tame env (case ty of TBorrow _ _ \<Rightarrow> if b then m_ok v else f | _ \<Rightarrow> m_ok v)" if "tame env f" for ty b v f
    using that by (cases ty; simp split del: if_split; intro tame_rules)
  show ?thesis unfolding m_display_def Let_def by (intro loaded shown tame_rules)
qed

lemma tame_fields_of [tame_rules]: "tame env (m_fields_of e opd ty)"
proof -
  have items: "tame env (m_fields_of_items e declared data n i j)" for declared data n i j
    unfolding m_fields_of_items_def Let_def by (intro tame_rules)
  have struct: "tame env (case ty of TStruct n as \<Rightarrow> f n | _ \<Rightarrow> g)" if "\<And>n. tame env (f n)" "tame env g" for ty f g
    using that by (cases ty; simp)
  show ?thesis unfolding m_fields_of_def Let_def by (intro struct items keeps_queries tame_rules)
qed

lemma tame_code_join [tame_rules]: "tame env (m_code_join e pieces separator)"
proof -
  have join: "tame env (m_join_at e place separator)" for place unfolding m_join_at_def by (intro tame_rules)
  show ?thesis unfolding m_code_join_def by (cases pieces; simp; intro join tame_rules)
qed

lemma tame_memory_builtin [tame_rules]: "tame env (m_memory_builtin e name args dest_ty)"
proof -
  have "tame env (m_size_argument e name args)" unfolding m_size_argument_def
    by (auto intro!: tame_rules split: list.split)
  moreover have "tame env (m_write_string e args)" "tame env (m_sort_slice e args)" "tame env (m_zeros e args dest_ty)"
    unfolding m_write_string_def m_sort_slice_def m_zeros_def Let_def by (intro tame_rules keeps_queries)+
  ultimately show ?thesis unfolding m_memory_builtin_def by (intro tame_rules)
qed

lemma tame_string_builtin [tame_rules]: "tame env (m_string_builtin e name args dest_ty)"
proof -
  have optional: "tame env (m_optional_string x)" for x unfolding m_optional_string_def by (intro tame_rules)
  have "tame env (m_string_part e name args dest_ty)" "tame env (m_string_from_bytes e args dest_ty)"
    unfolding m_string_part_def m_string_from_bytes_def by (intro optional tame_rules)+
  then show ?thesis unfolding m_string_builtin_def by (intro tame_rules)
qed

lemma tame_render_builtin [tame_rules]: "tame env (m_render_builtin e name args)"
proof -
  have float: "tame env (case ty of TFloat w \<Rightarrow> f w | _ \<Rightarrow> m_fail msg)" if "\<And>w. tame env (f w)" for ty f msg
    using that by (cases ty; simp; intro tame_rules)
  have "tame env (m_float_to_string e args)" unfolding m_float_to_string_def by (intro float tame_rules)
  then show ?thesis unfolding m_render_builtin_def by (intro tame_rules)
qed

lemma tame_reflect_builtin [tame_rules]: "tame env (m_reflect_builtin e name args dest_ty)"
  unfolding m_reflect_builtin_def by (intro tame_rules)

lemma tame_output_builtin [tame_rules]: "tame env (m_output_builtin e name args)"
  unfolding m_output_builtin_def by (intro tame_rules)

lemma tame_or_else: "tame env f \<Longrightarrow> tame env g \<Longrightarrow> tame env (m_or_else f g)"
  unfolding m_or_else_def by (intro tame_rules)

lemma tame_control [tame_rules]: "tame env (m_body e name)" "tame env (m_switch e opd targets otherwise)" "tame env (m_parameter e body p)"
  unfolding m_body_def m_switch_def m_parameter_def by (intro tame_rules)+

text \<open>A call: the frame it pushes is popped and its storage freed whether it returns or fails.\<close>

lemma frees_grow:
  "m_each (\<lambda>a. m_write (memory_free a)) xs s = (r, s') \<Longrightarrow> machine_grows s s' \<and> ms_executed s' = ms_executed s"
proof (induction xs arbitrary: s)
  case (Cons a xs)
  have step: "machine_grows s t \<and> ms_executed t = ms_executed s" if "m_write (memory_free a) s = (q, t)" for q t
    using that by (auto simp: m_write_def machines.grows_refl intro!: machine_grows_memory blocks_grow_rules split: outcome.splits)
  show ?case using Cons step by (auto simp: m_bind_cases intro: machines.grows_trans)
qed (simp add: m_ok_def machines.grows_refl)

lemma frame_popped:
  assumes "within env k (s\<lparr>ms_frames := fr # ms_frames s, ms_depth := ms_depth s + 1\<rparr>) t"
  obtains fr' where "ms_frames t = fr' # ms_frames s" "within env k s (t\<lparr>ms_frames := ms_frames s, ms_depth := ms_depth t - 1\<rparr>)"
proof -
  obtain fr' where "ms_frames t = fr' # ms_frames s" using assms by (auto simp: within_def machine_grows_def frames_grow_def)
  then show thesis using assms by (intro that) (auto simp: within_def machine_grows_def frames_grow_def frame_grows_refl split: list.split)
qed

lemma tame_enter_leave:
  assumes "tame env f"
  shows "tame env (m_bind (m_enter fr) (\<lambda>_. m_leave f))"
proof -
  let ?in = "\<lambda>s. s\<lparr>ms_frames := fr # ms_frames s, ms_depth := ms_depth s + 1\<rparr>"
  have entered: "m_bind (m_enter fr) (\<lambda>_. m_leave f) s = m_leave f (?in s)" for s
    by (simp add: m_bind_def m_enter_def)
  have left: "\<exists>k. within env k s s' \<and> (k = 0 \<or> k = 1 \<and> (\<exists>msg sp. r = Failed msg sp))"
    if s: "ms_executed s \<le> lim_instructions (env_limits env)" and r: "m_leave f (?in s) = (r, s')" "r \<noteq> Panicked" "r \<noteq> OutOfFuel" for s r s'
  proof -
    obtain q t where q: "f (?in s) = (q, t)" by fastforce
    define k :: nat where "k = (case q of Ok _ \<Rightarrow> 0 | _ \<Rightarrow> 1)"
    have "q \<noteq> Panicked \<and> q \<noteq> OutOfFuel" using q r by (auto simp: m_leave_def)
    then have "within env k (?in s) t" using tameD [OF assms, of "?in s"] s q by (cases q) (auto simp: k_def)
    then obtain fr' where frames: "ms_frames t = fr' # ms_frames s"
      and popped: "within env k s (t\<lparr>ms_frames := ms_frames s, ms_depth := ms_depth t - 1\<rparr>)" by (rule frame_popped)
    let ?frees = "m_each (\<lambda>a. m_write (memory_free a)) (fr_locals fr' @ fr_scratch fr')"
    have run: "m_bind ?frees (\<lambda>_. m_lift q) (t\<lparr>ms_frames := ms_frames s, ms_depth := ms_depth t - 1\<rparr>) = (r, s')"
      using r(1) q frames \<open>q \<noteq> Panicked \<and> q \<noteq> OutOfFuel\<close> by (cases q) (auto simp: m_leave_def)
    have "within env k s s'" using run popped by (auto simp: m_bind_cases m_lift_def within_def dest!: frees_grow intro: machines.grows_trans)
    moreover have "k = 0 \<or> k = 1 \<and> (\<exists>msg sp. r = Failed msg sp)"
      using run r(2,3) \<open>q \<noteq> Panicked \<and> q \<noteq> OutOfFuel\<close> by (cases q) (auto simp: k_def m_bind_cases m_lift_def)
    ultimately show ?thesis by blast
  qed
  have less: "within env 0 s s' \<Longrightarrow> within env 1 s s'" for s s' by (auto simp: within_def)
  show ?thesis unfolding tame_def entered using left less by blast
qed

lemma tame_encode [tame_rules]: "tame env (m_encode e ty v)"
  unfolding m_encode_def by (cases v; simp; intro tame_rules)

context tame_evaluator
begin

lemma tame_drop_user: "tame env (m_drop_user env ev ty a)"
  unfolding m_drop_user_def by (intro tame_rules keeps_queries tame_evaluation)

lemma tame_release: "tame env (m_release env ev ty a)"
proof -
  have closure: "tame env (m_drop_closure ev a)" unfolding m_drop_closure_def Let_def by (intro tame_rules tame_evaluation)
  have elements: "tame env (m_drop_elements env ev elem a data)" for elem data
    unfolding m_drop_elements_def by (intro tame_rules keeps_queries tame_evaluation)
  have slice: "tame env (m_drop_slice env ev ty a)" for ty unfolding m_drop_slice_def
    by (intro tame_rules) (cases ty; simp; intro tame_rules elements)
  have "tame env (case ty of TStruct _ (inner # _) \<Rightarrow> ev_drop_at ev inner b | _ \<Rightarrow> m_ok ())" for ty b
    by (auto intro!: tame_rules tame_evaluation split: type.split list.split)
  then have cell: "tame env (m_drop_cell ev ty a)" for ty unfolding m_drop_cell_def by (intro tame_rules)
  show ?thesis unfolding m_release_def
    by (cases ty; hypsubst; (intro tame_rules closure slice cell tame_glue_fields tame_evaluation | simp only: type.case)+)
qed

lemma tame_m_drop_at: "tame env (m_drop_at env ev ty a)"
  unfolding m_drop_at_def by (intro tame_rules tame_drop_user tame_release)

lemma tame_m_clone_at: "tame env (m_clone_at env ev ty a)"
proof -
  have closure: "tame env (m_clone_closure a)" and cell: "tame env (m_clone_cell a)"
    unfolding m_clone_closure_def m_clone_cell_def Let_def by (intro tame_rules)+
  have size: "tame env (case ty of TSlice elem \<Rightarrow> m_layout (element_size n elem) | _ \<Rightarrow> m_ok 1)" for ty n
    by (cases ty; simp; intro tame_rules keeps_queries)
  have each: "tame env (case ty of TSlice elem \<Rightarrow> m_count (\<lambda>i. ev_clone_at ev elem (g i)) 0 k | _ \<Rightarrow> m_ok ())" for ty g k
    by (cases ty; simp; intro tame_rules tame_evaluation)
  have slice: "tame env (m_clone_slice env ev ty a)" for ty unfolding m_clone_slice_def by (intro tame_rules size each)
  show ?thesis unfolding m_clone_at_def
    by (cases ty; hypsubst; (intro tame_rules closure slice cell tame_glue_fields tame_evaluation | simp only: type.case)+)
qed

lemma tame_aggregate: "tame env (m_aggregate env ev ty variant fs)"
proof -
  have parts: "tame env (m_struct_aggregate env ev name args fs bytes)" "tame env (m_enum_aggregate env ev name args v fs bytes)"
    "tame env (m_tuple_aggregate env ev items fs bytes)" for name args v items bytes
    unfolding m_struct_aggregate_def m_enum_aggregate_def m_tuple_aggregate_def
    by (intro tame_rules keeps_queries tame_place_field tame_owned)+
  have built: "tame env (case (ty, variant) of (TStruct name args, None) \<Rightarrow> m_struct_aggregate env ev name args fs zeros
       | (TEnum name args, Some v) \<Rightarrow> m_enum_aggregate env ev name args v fs zeros
       | (TTuple items, None) \<Rightarrow> m_tuple_aggregate env ev items fs zeros
       | _ \<Rightarrow> m_fail msg)" for zeros msg
    by (cases ty; cases variant; simp; intro tame_rules parts)
  show ?thesis unfolding m_aggregate_def Let_def
    by (intro tame_bind tame_size_of built tame_layout keeps_queries tame_case(1) tame_pure tame_bytes)
qed

lemma tame_rvalue: "tame env (m_rvalue env ev rv)"
  unfolding m_rvalue_def by (cases rv; simp; intro tame_rules tame_owned tame_aggregate)

lemma tame_assign: "tame env (m_assign env ev place rv)"
proof -
  have unit: "tame env (m_is_unit_local place)" unfolding m_is_unit_local_def by (cases place; simp; intro tame_rules)
  have v: "tame env (m_assigned env ev place rv)" for rv unfolding m_assigned_def
    by (cases rv; simp; intro tame_rules tame_owned tame_rvalue)
  show ?thesis unfolding m_assign_def
    by (cases rv; hypsubst; (intro tame_rules unit v tame_write_places | simp only: rvalue.case)+)
qed

lemma tame_statement: "tame env (m_statement env ev st)"
proof -
  have store: "tame env (m_store env ev address opd ty)" and free: "tame env (m_free_box env address ty)" for address opd ty
    unfolding m_store_def m_free_box_def by (intro tame_rules tame_owned)+
  have drop: "tame env (case place of PLocal l \<Rightarrow> m_drop_local env ev l | _ \<Rightarrow> m_ok ())" for place
    by (cases place; simp; intro tame_rules tame_drops)
  show ?thesis unfolding m_statement_def by (cases st; simp; intro tame_rules tame_assign store free drop)
qed

lemma tame_cell: "tame env (m_cell env ev op args dest_ty)"
proof -
  have new: "tame env (m_cell_new env ev args)" and set: "tame env (m_cell_set env ev cell opd)" for cell opd
    unfolding m_cell_new_def m_cell_set_def Let_def by (intro tame_rules tame_owned tame_evaluation)+
  have borrowed: "tame env (case ty of TBorrow _ _ \<Rightarrow> f | _ \<Rightarrow> m_ok v)" if "tame env f" for ty f v
    using that by (cases ty; simp; intro tame_rules)
  show ?thesis unfolding m_cell_def by (intro borrowed new set tame_clone_value tame_rules)
qed

lemma tame_builtin: "tame env (m_builtin env ev name args destination)"
  unfolding m_builtin_def by (intro tame_or_else tame_cell tame_rules)

lemma tame_destination: "tame env (m_write_destination env ev destination v)"
  unfolding m_write_destination_def by (intro tame_rules tame_write_places)

lemma tame_argument: "tame env (m_argument env ev body i opd)"
proof -
  have borrowed: "tame env (case ty of TBorrow _ _ \<Rightarrow> f | _ \<Rightarrow> m_ok v)" if "tame env f" for ty f v
    using that by (cases ty; simp; intro tame_rules)
  show ?thesis unfolding m_argument_def Let_def by (intro borrowed tame_owned tame_rules)
qed

lemma tame_terminator: "tame env (m_terminator env ev t)"
proof -
  have calls: "tame env (m_call_terminator env ev name args destination)" "tame env (m_call_indirect env ev callee args destination)"
    for name callee args destination
    unfolding m_call_terminator_def m_call_indirect_def
    by (intro tame_builtin tame_destination tame_argument tame_owned tame_evaluation tame_rules)+
  have return: "tame env (m_return env ev opd)" for opd
    unfolding m_return_def Let_def by (intro tame_owned tame_drops tame_rules)
  show ?thesis unfolding m_terminator_def by (cases t; simp; intro calls return tame_rules)
qed

lemma tame_block: "tame env (m_block env ev body block)"
  unfolding m_block_def m_step_statement_def by (intro tame_statement tame_terminator tame_rules)

lemma tame_blocks: "tame env (m_blocks env ev k body block)"
proof (induction k arbitrary: block)
  case (Suc k)
  have "tame env (case fl of FlowGoto target \<Rightarrow> m_blocks env ev k body target | FlowReturn v \<Rightarrow> m_ok v)" for fl
    using Suc by (cases fl; simp; intro tame_rules)
  then show ?case unfolding m_blocks.simps by (intro tame_bind tame_block)
qed (simp add: tame_rules)

lemma tame_run_frame: "tame env (m_run_frame env ev args)"
  unfolding m_run_frame_def Let_def by (intro tame_blocks tame_rules)

lemma tame_m_call: "tame env (m_call env ev name args)"
  unfolding m_call_def by (intro tame_enter_leave tame_run_frame tame_rules)

lemma tame_m_decode: "tame env (m_decode env ev ty bs)"
proof -
  have field: "tame env (m_decode_field env ev bytes f)" for bytes f
    unfolding m_decode_field_def by (intro tame_evaluation tame_rules)
  have slice: "tame env (m_decode_slice env ev elem bytes)" for elem bytes
    unfolding m_decode_slice_def by (intro tame_evaluation keeps_queries tame_rules)
  have enum: "tame env (m_decode_enum env ev ty name args bytes)" for ty name args bytes
    unfolding m_decode_enum_def Let_def by (intro field keeps_queries tame_rules)
  have other: "tame env (m_decode_other env ty)" for ty unfolding m_decode_other_def by (intro tame_rules)
  show ?thesis unfolding m_decode_def Let_def
    by (cases ty; hypsubst; (intro field slice enum other keeps_queries tame_rules | simp only: type.case)+)
qed

lemma tame_m_run: "tame env (m_run env ev entry args)"
  unfolding m_run_def by (intro tame_evaluation tame_rules)

end

lemma evaluators_tame: "tame_evaluator env (evaluators n env)"
proof (induction n)
  case 0
  show ?case by unfold_locales (simp_all add: tame_rules)
next
  case (Suc n)
  then show ?case
    by (intro tame_evaluator.intro)
      (simp_all add: tame_evaluator.tame_m_call tame_evaluator.tame_m_drop_at tame_evaluator.tame_m_clone_at tame_evaluator.tame_m_decode)
qed

interpretation runs: tame_evaluator env "evaluators n env" for env n
  by (rule evaluators_tame)

end
