(* ===== verification/MachineRuns.thy ===== *)
theory MachineRuns
  imports Machine
begin

text \<open>
  What runs of the compile-time machine of \<open>Machine\<close> guarantee: they end within the limits with the calling
  frames as they were, the nesting depth given to the model never changes a result it allows, the rounds of the loop over
  blocks are as many as the budget lets a body execute, and nothing outside the sandbox is called.
\<close>

section \<open>A deeper nesting gives the same results\<close>

text \<open>The second computation does what the first does wherever the first does not run out of depth.\<close>

definition below :: "'a mach \<Rightarrow> 'a mach \<Rightarrow> bool" where
  "below f g \<longleftrightarrow> (\<forall>s. fst (f s) = OutOfFuel \<or> g s = f s)"

named_theorems below_rules \<open>what keeps the order of computations by depth\<close>

lemma below_refl [below_rules]: "below f f"
  by (simp add: below_def)

lemma below_trans: "below f g \<Longrightarrow> below g h \<Longrightarrow> below f h"
  unfolding below_def by metis

lemma below_starved: "below m_starved f"
  by (simp add: below_def m_starved_def)

lemma below_bind [below_rules]:
  assumes "below f f'" "\<And>x. below (g x) (g' x)"
  shows "below (m_bind f g) (m_bind f' g')"
  unfolding below_def
proof
  fix s
  consider "fst (f s) = OutOfFuel" | "f' s = f s" using assms(1) by (auto simp: below_def)
  then show "fst (m_bind f g s) = OutOfFuel \<or> m_bind f' g' s = m_bind f g s"
    using assms(2) by cases (auto simp: m_bind_def below_def split: prod.split outcome.split)
qed

lemma below_if [below_rules]: "below f f' \<Longrightarrow> below g g' \<Longrightarrow> below (if b then f else g) (if b then f' else g')"
  by simp

lemma below_case [below_rules]:
  "below f f' \<Longrightarrow> (\<And>x. below (g x) (g' x)) \<Longrightarrow> below (case opt of None \<Rightarrow> f | Some x \<Rightarrow> g x) (case opt of None \<Rightarrow> f' | Some x \<Rightarrow> g' x)"
  "(\<And>x y. below (h x y) (h' x y)) \<Longrightarrow> below (case p of (x, y) \<Rightarrow> h x y) (case p of (x, y) \<Rightarrow> h' x y)"
  "(\<And>x y. below (l x y a) (l' x y a)) \<Longrightarrow> below ((case p of (x, y) \<Rightarrow> l x y) a) ((case p of (x, y) \<Rightarrow> l' x y) a)"
  "(\<And>x y. below (m x y a b) (m' x y a b)) \<Longrightarrow> below ((case p of (x, y) \<Rightarrow> m x y) a b) ((case p of (x, y) \<Rightarrow> m' x y) a b)"
  by (simp_all split: option.split prod.split)

lemma below_loops [below_rules]:
  "(\<And>x. below (f x) (f' x)) \<Longrightarrow> below (m_each f xs) (m_each f' xs)"
  "(\<And>x. below (g x) (g' x)) \<Longrightarrow> below (m_map g xs) (m_map g' xs)"
  "(\<And>x acc. below (h x acc) (h' x acc)) \<Longrightarrow> below (m_fold h xs acc) (m_fold h' xs acc)"
  "(\<And>i. below (c i) (c' i)) \<Longrightarrow> below (m_count c i k) (m_count c' i k)"
  by (induction xs arbitrary: acc; simp add: below_rules)+ (induction k arbitrary: i; simp add: below_rules)

text \<open>The same for a computation that goes on from the result of another.\<close>

lemma below_after:
  assumes "below f g" "\<And>s t. f s = (OutOfFuel, t) \<Longrightarrow> fst (h f s) = OutOfFuel" "\<And>s. g s = f s \<Longrightarrow> h g s = h f s"
  shows "below (h f) (h g)"
  unfolding below_def by (metis assms below_def prod.collapse)

lemma below_located [below_rules]: "below f g \<Longrightarrow> below (m_located f) (m_located g)"
  by (erule below_after) (simp_all add: m_located_def)

lemma below_leave [below_rules]: "below f g \<Longrightarrow> below (m_leave f) (m_leave g)"
  by (erule below_after) (simp_all add: m_leave_def)

lemma below_glue_fields [below_rules]:
  "(\<And>ty a. below (f ty a) (f' ty a)) \<Longrightarrow> below (m_enum_fields env name args a f) (m_enum_fields env name args a f')"
  "(\<And>ty a. below (f ty a) (f' ty a)) \<Longrightarrow> below (m_glue_fields env ty a f) (m_glue_fields env ty a f')"
  unfolding m_enum_fields_def m_glue_fields_def by (intro below_rules; assumption)+

lemma below_place_field [below_rules]: "below v v' \<Longrightarrow> below (m_place_field env opd off v bytes) (m_place_field env opd off v' bytes)"
  unfolding m_place_field_def by (intro below_rules; assumption)

lemma below_or_else [below_rules]: "below f f' \<Longrightarrow> below g g' \<Longrightarrow> below (m_or_else f g) (m_or_else f' g')"
  unfolding m_or_else_def by (intro below_rules; assumption)

text \<open>Two evaluators in this order, and the parts of the machine over them.\<close>

locale deeper_evaluator =
  fixes env :: environment and ev ev' :: evaluator
  assumes below_call: "below (ev_call ev name args) (ev_call ev' name args)"
    and below_drop_at: "below (ev_drop_at ev ty a) (ev_drop_at ev' ty a)"
    and below_clone_at: "below (ev_clone_at ev ty a) (ev_clone_at ev' ty a)"
    and below_decode: "below (ev_decode ev ty bs) (ev_decode ev' ty bs)"
begin

lemmas below_evaluation = below_call below_drop_at below_clone_at below_decode

lemma below_clone_value: "below (m_clone_value env ev ty v) (m_clone_value env ev' ty v)"
  unfolding m_clone_value_def by (intro below_rules below_evaluation)

lemma below_owned:
  "below (m_owned_operand env ev opd) (m_owned_operand env ev' opd)" "below (m_owned_as env ev opd ty) (m_owned_as env ev' opd ty)"
proof -
  show o: "below (m_owned_operand env ev opd) (m_owned_operand env ev' opd)"
    unfolding m_owned_operand_def by (intro below_rules below_clone_value)
  show "below (m_owned_as env ev opd ty) (m_owned_as env ev' opd ty)"
    unfolding m_owned_as_def by (intro below_rules below_clone_value o)
qed

lemma below_drops:
  "below (m_drop_local env ev l) (m_drop_local env ev' l)" "below (m_drop_all_owned env ev) (m_drop_all_owned env ev')"
proof -
  show d: "below (m_drop_local env ev l) (m_drop_local env ev' l)" for l
    unfolding m_drop_local_def by (intro below_rules below_evaluation)
  show "below (m_drop_all_owned env ev) (m_drop_all_owned env ev')"
    unfolding m_drop_all_owned_def by (intro below_rules d)
qed

lemma below_write_place: "below (m_write_place env ev place v) (m_write_place env ev' place v)"
  unfolding m_write_place_def
  by (cases place; hypsubst; simp only: place.case; intro below_rules below_evaluation below_drops)

lemma below_m_drop_at: "below (m_drop_at env ev ty a) (m_drop_at env ev' ty a)"
proof -
  have user: "below (m_drop_user env ev ty a) (m_drop_user env ev' ty a)"
    unfolding m_drop_user_def by (intro below_rules below_evaluation)
  have closure: "below (m_drop_closure ev a) (m_drop_closure ev' a)"
    unfolding m_drop_closure_def Let_def by (intro below_rules below_evaluation)
  have elements: "below (m_drop_elements env ev elem a data) (m_drop_elements env ev' elem a data)" for elem data
    unfolding m_drop_elements_def by (intro below_rules below_evaluation)
  have slice: "below (m_drop_slice env ev ty a) (m_drop_slice env ev' ty a)" for ty
    unfolding m_drop_slice_def by (cases ty; hypsubst; simp only: type.case; intro below_rules elements)
  have inner: "below (case ty of TStruct _ (inner # _) \<Rightarrow> ev_drop_at ev inner b | _ \<Rightarrow> m_ok ())
    (case ty of TStruct _ (inner # _) \<Rightarrow> ev_drop_at ev' inner b | _ \<Rightarrow> m_ok ())" for ty b
    by (auto intro!: below_rules below_evaluation split: type.split list.split)
  have cell: "below (m_drop_cell ev ty a) (m_drop_cell ev' ty a)" for ty
    unfolding m_drop_cell_def by (intro below_rules inner)
  have release: "below (m_release env ev ty a) (m_release env ev' ty a)" unfolding m_release_def
    by (cases ty; hypsubst; (intro below_rules closure slice cell below_evaluation | simp only: type.case)+)
  show ?thesis unfolding m_drop_at_def by (intro below_rules user release)
qed

lemma below_m_clone_at: "below (m_clone_at env ev ty a) (m_clone_at env ev' ty a)"
proof -
  have slice: "below (m_clone_slice env ev ty a) (m_clone_slice env ev' ty a)" for ty
    unfolding m_clone_slice_def by (cases ty; hypsubst; simp only: type.case; intro below_rules below_evaluation)
  show ?thesis unfolding m_clone_at_def
    by (cases ty; hypsubst; (intro below_rules slice below_evaluation | simp only: type.case)+)
qed

lemma below_aggregate: "below (m_aggregate env ev ty variant fs) (m_aggregate env ev' ty variant fs)"
proof -
  have parts: "below (m_struct_aggregate env ev name args fs bytes) (m_struct_aggregate env ev' name args fs bytes)"
    "below (m_enum_aggregate env ev name args v fs bytes) (m_enum_aggregate env ev' name args v fs bytes)"
    "below (m_tuple_aggregate env ev items fs bytes) (m_tuple_aggregate env ev' items fs bytes)" for name args v items bytes
    unfolding m_struct_aggregate_def m_enum_aggregate_def m_tuple_aggregate_def by (intro below_rules below_owned)+
  have built: "below
    (case (ty, variant) of (TStruct name args, None) \<Rightarrow> m_struct_aggregate env ev name args fs zeros
       | (TEnum name args, Some v) \<Rightarrow> m_enum_aggregate env ev name args v fs zeros
       | (TTuple items, None) \<Rightarrow> m_tuple_aggregate env ev items fs zeros
       | _ \<Rightarrow> m_fail msg)
    (case (ty, variant) of (TStruct name args, None) \<Rightarrow> m_struct_aggregate env ev' name args fs zeros
       | (TEnum name args, Some v) \<Rightarrow> m_enum_aggregate env ev' name args v fs zeros
       | (TTuple items, None) \<Rightarrow> m_tuple_aggregate env ev' items fs zeros
       | _ \<Rightarrow> m_fail msg)" for zeros msg
    by (cases ty; cases variant; simp; intro below_refl parts)
  show ?thesis unfolding m_aggregate_def Let_def by (intro below_refl below_bind below_if built)
qed

lemma below_statement: "below (m_statement env ev st) (m_statement env ev' st)"
proof -
  have rv: "below (m_rvalue env ev rv) (m_rvalue env ev' rv)" for rv
    unfolding m_rvalue_def by (cases rv; hypsubst; simp only: rvalue.case; intro below_rules below_owned below_aggregate)
  have v: "below (m_assigned env ev place rv) (m_assigned env ev' place rv)" for place rv
    unfolding m_assigned_def by (cases rv; hypsubst; simp only: rvalue.case; intro below_rules below_owned rv)
  have assign: "below (m_assign env ev place rv) (m_assign env ev' place rv)" for place rv
    unfolding m_assign_def by (cases rv; hypsubst; (intro below_rules v below_write_place | simp only: rvalue.case)+)
  have store: "below (m_store env ev address opd ty) (m_store env ev' address opd ty)" for address opd ty
    unfolding m_store_def by (intro below_rules below_owned)
  have drop: "below (case place of PLocal l \<Rightarrow> m_drop_local env ev l | _ \<Rightarrow> m_ok ())
    (case place of PLocal l \<Rightarrow> m_drop_local env ev' l | _ \<Rightarrow> m_ok ())" for place
    by (cases place; simp only: place.case; intro below_rules below_drops)
  show ?thesis unfolding m_statement_def
    by (cases st; hypsubst; simp only: statement.case; intro below_rules assign store drop)
qed

lemma below_builtin: "below (m_builtin env ev name args destination) (m_builtin env ev' name args destination)"
proof -
  have new: "below (m_cell_new env ev args) (m_cell_new env ev' args)"
    and set: "below (m_cell_set env ev cell opd) (m_cell_set env ev' cell opd)" for cell opd
    unfolding m_cell_new_def m_cell_set_def Let_def by (intro below_rules below_owned below_evaluation)+
  have cell: "below (m_cell env ev op args dest_ty) (m_cell env ev' op args dest_ty)" for op dest_ty
    unfolding m_cell_def by (intro below_rules new set below_clone_value)
  show ?thesis unfolding m_builtin_def by (intro below_rules cell)
qed

lemma below_terminator: "below (m_terminator env ev t) (m_terminator env ev' t)"
proof -
  have dest: "below (m_write_destination env ev destination v) (m_write_destination env ev' destination v)" for destination v
    unfolding m_write_destination_def by (intro below_rules below_write_place)
  have argument: "below (m_argument env ev body i opd) (m_argument env ev' body i opd)" for body i opd
    unfolding m_argument_def Let_def by (intro below_rules below_owned)
  have calls: "below (m_call_terminator env ev name args destination) (m_call_terminator env ev' name args destination)"
    "below (m_call_indirect env ev callee args destination) (m_call_indirect env ev' callee args destination)"
    for name callee args destination
    unfolding m_call_terminator_def m_call_indirect_def
    by (intro below_rules below_builtin dest argument below_owned below_evaluation)+
  have return: "below (m_return env ev opd) (m_return env ev' opd)" for opd
    unfolding m_return_def Let_def by (intro below_rules below_owned below_drops)
  show ?thesis unfolding m_terminator_def
    by (cases t; hypsubst; simp only: terminator.case; intro below_rules calls return)
qed

lemma below_block: "below (m_block env ev body block) (m_block env ev' body block)"
  unfolding m_block_def m_step_statement_def by (intro below_rules below_statement below_terminator)

lemma below_blocks: "below (m_blocks env ev k body block) (m_blocks env ev' k body block)"
proof (induction k arbitrary: block)
  case (Suc k)
  have "below (case fl of FlowGoto target \<Rightarrow> m_blocks env ev k body target | FlowReturn v \<Rightarrow> m_ok v)
    (case fl of FlowGoto target \<Rightarrow> m_blocks env ev' k body target | FlowReturn v \<Rightarrow> m_ok v)" for fl
    using Suc by (cases fl; simp; intro below_rules)
  then show ?case unfolding m_blocks.simps by (intro below_bind below_block)
qed (simp add: below_rules)

lemma below_m_call: "below (m_call env ev name args) (m_call env ev' name args)"
  unfolding m_call_def m_run_frame_def Let_def by (intro below_rules below_blocks)

lemma below_m_decode: "below (m_decode env ev ty bs) (m_decode env ev' ty bs)"
proof -
  have field: "below (m_decode_field env ev bytes f) (m_decode_field env ev' bytes f)" for bytes f
    unfolding m_decode_field_def by (intro below_rules below_evaluation)
  have slice: "below (m_decode_slice env ev elem bytes) (m_decode_slice env ev' elem bytes)" for elem bytes
    unfolding m_decode_slice_def by (intro below_rules below_evaluation)
  have enum: "below (m_decode_enum env ev ty name args bytes) (m_decode_enum env ev' ty name args bytes)" for ty name args bytes
    unfolding m_decode_enum_def Let_def by (intro below_rules field)
  show ?thesis unfolding m_decode_def
    by (cases ty; hypsubst; (intro below_rules field slice enum | simp only: type.case)+)
qed

lemma below_m_run: "below (m_run env ev entry args) (m_run env ev' entry args)"
  unfolding m_run_def by (intro below_rules below_evaluation)

end

lemma evaluators_deeper: "deeper_evaluator (evaluators n env) (evaluators (Suc n) env)"
proof (induction n)
  case 0
  show ?case by (rule deeper_evaluator.intro) (simp_all add: below_starved)
next
  case (Suc n)
  then show ?case
    by (intro deeper_evaluator.intro)
      (simp_all add: deeper_evaluator.below_m_call deeper_evaluator.below_m_drop_at deeper_evaluator.below_m_clone_at
        deeper_evaluator.below_m_decode)
qed

interpretation depths: deeper_evaluator env "evaluators n env" "evaluators (Suc n) env" for env n
  by (rule evaluators_deeper)

lemma runs_below: "n \<le> m \<Longrightarrow> below (m_run env (evaluators n env) entry args) (m_run env (evaluators m env) entry args)"
proof (induction m)
  case (Suc m)
  then show ?case using below_trans [OF _ depths.below_m_run] by (cases "n = Suc m") (auto simp: below_refl simp del: evaluators.simps)
qed (simp add: below_refl)

section \<open>The rounds of the loop over blocks\<close>

context tame_evaluator
begin

lemma block_counts:
  assumes s: "ms_executed s \<le> lim_instructions (env_limits env)" and b: "m_block env ev body block s = (Ok fl, s')"
  shows "ms_executed s < ms_executed s' \<and> ms_executed s' \<le> lim_instructions (env_limits env)"
proof -
  define data where "data = body_blocks body ! block"
  obtain t u w where first: "m_each (m_step_statement env ev body block) (enumerate 0 (bb_statements data)) s = (Ok (), t)"
    and span: "m_frame_mut (\<lambda>f. f\<lparr>fr_span := terminator_span body block\<rparr>) t = (Ok (), u)"
    and tick: "m_tick env u = (Ok (), w)" and rest: "m_located (m_terminator env ev (bb_terminator data)) w = (Ok fl, s')"
    using b by (auto simp: m_block_def m_bind_cases m_nth_def m_ok_def m_panic_def data_def split: if_splits)
  have each: "tame env (m_each (m_step_statement env ev body block) (enumerate 0 (bb_statements data)))"
    unfolding m_step_statement_def by (intro tame_statement tame_rules)
  have "ms_executed s \<le> ms_executed t" using tameD(1) [OF each s first] by (auto simp: within_def machine_grows_def)
  moreover have "ms_executed u = ms_executed t" using span by (auto simp: m_frame_mut_def split: list.splits)
  moreover have w: "ms_executed w = Suc (ms_executed u)" "ms_executed w \<le> lim_instructions (env_limits env)"
    using tick by (auto simp: m_tick_def m_fail_def Let_def split: if_splits)
  moreover have "ms_executed w \<le> ms_executed s' \<and> ms_executed s' \<le> lim_instructions (env_limits env)"
    using tameD(1) [OF tame_located [OF tame_terminator] w(2) rest] by (auto simp: within_def machine_grows_def)
  ultimately show ?thesis by linarith
qed

lemma rounds_enough:
  "ms_executed s \<le> lim_instructions (env_limits env) \<Longrightarrow> lim_instructions (env_limits env) < ms_executed s + k
    \<Longrightarrow> m_blocks env ev (k + j) body block s = m_blocks env ev k body block s"
proof (induction k arbitrary: block s)
  case (Suc k)
  obtain r t where b: "m_block env ev body block s = (r, t)" by fastforce
  have "m_blocks env ev (k + j) body target t = m_blocks env ev k body target t" if "r = Ok fl" for fl target
    using Suc.IH [of t target] block_counts [of s body block fl t] b that Suc.prems by auto
  then show ?case using b by (auto simp: m_bind_def split: outcome.split flow.split)
qed simp

end

section \<open>Bodies that never return\<close>

definition jumps_only :: "mir_body \<Rightarrow> bool" where
  "jumps_only body \<longleftrightarrow> body_blocks body \<noteq> [] \<and> (\<forall>b \<in> set (body_blocks body). bb_statements b = []
    \<and> (\<exists>target < length (body_blocks body). bb_terminator b = Goto target))"

definition budget_message :: "environment \<Rightarrow> string" where
  "budget_message env =
    ''exceeded the comptime instruction budget ('' @ nat_string (lim_instructions (env_limits env)) @ '' instructions)''"

lemma jump_block:
  assumes "jumps_only body" "block < length (body_blocks body)" "ms_frames s = fr # frs"
  shows "\<exists>target < length (body_blocks body). \<exists>sp. m_block env ev body block s =
    (let s' = s\<lparr>ms_frames := fr\<lparr>fr_span := sp\<rparr> # frs, ms_executed := ms_executed s + 1\<rparr> in
      if lim_instructions (env_limits env) < ms_executed s + 1 then (Failed (budget_message env) (Some sp), s') else (Ok (FlowGoto target), s'))"
proof -
  obtain target where t: "target < length (body_blocks body)" "bb_terminator (body_blocks body ! block) = Goto target"
    "bb_statements (body_blocks body ! block) = []" using assms(1,2) by (meson jumps_only_def nth_mem)
  show ?thesis
    by (rule exI [of _ target], rule conjI [OF t(1)], rule exI [of _ "terminator_span body block"])
      (use assms t in \<open>simp add: m_block_def m_nth_def m_ok_def m_bind_def m_frame_mut_def m_tick_def m_fail_def m_located_def
        m_terminator_def top_span_def budget_message_def Let_def enumerate_eq_zip\<close>)
qed

lemma jumps_exhaust:
  assumes body: "jumps_only body"
  shows "\<lbrakk>block < length (body_blocks body); ms_frames s = fr # frs; lim_instructions (env_limits env) < ms_executed s + k\<rbrakk>
    \<Longrightarrow> \<exists>sp s'. m_blocks env ev k body block s = (Failed (budget_message env) (Some sp), s')
      \<and> ms_frames s' = fr\<lparr>fr_span := sp\<rparr> # frs \<or> k = 0"
proof (induction k arbitrary: block s fr)
  case (Suc k)
  obtain target sp where t: "target < length (body_blocks body)" and b: "m_block env ev body block s =
    (let s' = s\<lparr>ms_frames := fr\<lparr>fr_span := sp\<rparr> # frs, ms_executed := ms_executed s + 1\<rparr> in
      if lim_instructions (env_limits env) < ms_executed s + 1 then (Failed (budget_message env) (Some sp), s') else (Ok (FlowGoto target), s'))"
    using jump_block [OF body Suc.prems(1,2), of env ev] by blast
  show ?case
  proof (cases "lim_instructions (env_limits env) < ms_executed s + 1")
    case True
    then show ?thesis using b by (auto simp: m_bind_def Let_def)
  next
    case False
    then have "k \<noteq> 0" using Suc.prems(3) by auto
    then show ?thesis
      using Suc.IH [OF t, of "s\<lparr>ms_frames := fr\<lparr>fr_span := sp\<rparr> # frs, ms_executed := ms_executed s + 1\<rparr>" "fr\<lparr>fr_span := sp\<rparr>"]
        Suc.prems(3) False b by (auto simp: m_bind_def Let_def)
  qed
qed simp

section \<open>A small program\<close>

text \<open>An environment of given bodies, with the parameters at concrete values.\<close>

definition bodies_environment :: "nat \<Rightarrow> (string \<rightharpoonup> mir_body) \<Rightarrow> environment" where
  "bodies_environment budget bodies = \<lparr>env_body = bodies, env_externs = [''puts''], env_structs = (\<lambda>_. None), env_enums = [],
     env_limits = \<lparr>lim_instructions = budget, lim_call_depth = 40\<rparr>,
     env_names = \<lparr>dn_rigid = {}, dn_anonymous = {}, dn_display = (\<lambda>_. None)\<rparr>,
     env_libm = \<lparr>libm_exp = id, libm_log = id, libm_sin = id, libm_cos = id, libm_tanh = id, libm_pow = (\<lambda>x _. x)\<rparr>,
     env_format_float = (\<lambda>_ _. []), env_debug = (\<lambda>_. []), env_format_item = (\<lambda>_. []), env_format_expr = (\<lambda>_. []),
     env_debug_text = (\<lambda>t. t), env_depth = 3\<rparr>"

definition small_body :: "terminator list \<Rightarrow> mir_body" where
  "small_body ts = \<lparr>body_locals = [], body_blocks = map (\<lambda>t. \<lparr>bb_statements = [], bb_terminator = t\<rparr>) ts, body_profile = Debug,
     body_param_count = 0, body_return_ty = TInt I64, body_span = \<lparr>span_file_id = file_id_root, span_start = 0, span_end = 1\<rparr>, body_spans = []\<rparr>"

definition small_layouts :: type_layouts where
  "small_layouts = from_module (Module None [] here) arena_default"

text \<open>A function that jumps to a block that returns seven, and one that goes round for ever.\<close>

definition seven_environment :: environment where
  "seven_environment = bodies_environment 3
     [''seven'' \<mapsto> small_body [Goto 1, Return (Constant (CInt 7 I64))], ''spin'' \<mapsto> small_body [Goto 1, Goto 0]]"

lemma seven_evaluates:
  "(case evaluate 2 seven_environment small_layouts ''seven'' [] of Ok e \<Rightarrow> evn_value e = CtScalar (CInt 7 I64) | _ \<Rightarrow> False)"
  by code_simp

lemma seven_called:
  "fst (m_call_terminator seven_environment (evaluators 2 seven_environment) ''seven'' [] None (machine_new small_layouts)) = Ok ()"
  by code_simp

section \<open>Properties\<close>

text \<open>C13: a compile-time run that starts within the instruction budget ends with the frames of its callers and the call
  depth as they were, has executed at most as many instructions as the budget allows when it gives a value, and at most one
  more when it gives an error; memory, layouts, handles and what was printed only grow.\<close>

theorem run_keeps_limits:
  assumes "m_run env (evaluators n env) entry args s = (r, s')" "r \<noteq> Panicked" "r \<noteq> OutOfFuel"
    "ms_executed s \<le> lim_instructions (env_limits env)"
  shows "machine_grows s s' \<and> ms_depth s' = ms_depth s
    \<and> ms_executed s' \<le> lim_instructions (env_limits env) + (case r of Ok _ \<Rightarrow> 0 | _ \<Rightarrow> 1)"
proof -
  have "within env (case r of Ok _ \<Rightarrow> 0 | _ \<Rightarrow> 1) s s'"
    using tameD [OF runs.tame_m_run assms(4)] assms(1-3) by (cases r) auto
  then show ?thesis by (simp add: within_def machine_grows_def)
qed

theorem run_keeps_limits_witness:
  "\<exists>s'. m_run seven_environment (evaluators 2 seven_environment) ''seven'' [] (machine_new small_layouts) = (Ok (CtScalar (CInt 7 I64)), s')
    \<and> ms_frames s' = [] \<and> ms_depth s' = 0 \<and> ms_executed s' \<le> 3"
proof -
  obtain s' where run: "m_run seven_environment (evaluators 2 seven_environment) ''seven'' [] (machine_new small_layouts)
    = (Ok (CtScalar (CInt 7 I64)), s')"
    using seven_evaluates by (auto simp: evaluate_def split: prod.splits outcome.splits)
  show ?thesis using run_keeps_limits [OF run] run
    by (simp add: machine_new_def seven_environment_def bodies_environment_def machine_grows_def frames_grow_def)
qed








text \<open>C39: the compile-time machine takes a foreign function pointer for a closure it owns and drops, although the glue of
  the compiled program knows it as a bare code address with nothing to own.\<close>

theorem foreign_pointers_taken_for_closures:
  "fst (m_needs_drop_at (Suc n) env (TFn params result (Some abi) is_unsafe) (machine_new ly)) = Ok True
    \<and> m_release env ev (TFn params result (Some abi) is_unsafe) a s = m_drop_closure ev a s
    \<and> (\<exists>an. needs_drop (Suc n) drops (TFn params result (Some abi) is_unsafe) \<lparr>an_memo = [], an_visiting = []\<rparr> ly = Inr ((False, an), ly))"
  (is "?machine \<and> ?release \<and> ?glue")
proof (intro conjI)
  show ?machine
    by (simp add: m_kind_needs_drop_def m_bind_def m_get_def m_note_drop_def machine_new_def m_ok_def)
  show ?release
    by (simp add: m_release_def m_bind_def m_get_def handle_fns_def is_cell_def)
  show ?glue by (simp add: drop_of_kind_def lay_then_def lay_state_def lay_ok_def)
qed

end
