(* ===== verification/Spec2Isabelle.thy ===== *)
theory Spec2Isabelle
  imports MatchCheck TypeUnify Layout Channel Resolve Join Scheduler ParseTotal ConstFold Text Memory TypeLayouts MachineRuns
begin

text \<open>
  A verification library for the Paco compiler and its runtime.

  \<^bold>\<open>The program.\<close> Paco is compiled by a pipeline of crates under \<open>src/compiler\<close>: source files are kept
  and located by \<open>paco-span\<close>, problems are collected and printed by \<open>paco-diag\<close>, \<open>paco-syntax\<close> lexes
  and parses text into a syntax tree, \<open>paco-resolve\<close> gives every local variable an identity and reports
  names that mean nothing, \<open>paco-types\<close> checks types, with the dimensions of tensors as integer
  polynomials, \<open>paco-match\<close> decides whether matches are exhaustive, and \<open>paco-mir\<close> lays out data and
  lowers functions for the code generators, evaluating compile-time code with the machine of \<open>paco-comptime\<close>.  Compiled programs run on \<open>src/runtime/paco-runtime\<close>, a
  scheduler of tasks with channels and join handles.

  \<^bold>\<open>The theories\<close>, in the order of the pipeline.

  \<^item> \<open>Prelude\<close>: what the code uses of Rust: checked 64-bit integers, strings as UTF-8 bytes, ordered
    maps behind the locale \<open>ordered_map\<close>, and the locale \<open>growth\<close> of states that only grow.
    \<open>Decimals\<close> adds the parsing of decimal numerals.
  \<^item> \<open>Span\<close> (\<open>paco-span/src/lib.rs\<close>, \<open>SourceLocator\<close> of \<open>paco-mir/src/backend.rs\<close>): file ids, spans,
    the source map, lines and columns, and the locator with its cache.  Lookup after insertion, totality
    and error cases of \<open>location\<close>, and the agreement of the two ways to compute a position.
  \<^item> \<open>Diag\<close> (\<open>paco-diag/src/lib.rs\<close>): diagnostics with their builders, the reporter, the order of
    emission, text and JSON rendering.  The order is stable and a permutation, JSON strings read
    back, one line per diagnostic, at most two fixes.
  \<^item> \<open>Token\<close>, \<open>Lexer\<close> (\<open>paco-syntax/src/lex.rs\<close>): the whole lexer as functions on a cursor.  Lexing
    ends, tokens tile the source, error tokens are reported, printed words are read back.
  \<^item> \<open>Ast\<close>, \<open>Walk\<close> (\<open>paco-syntax/src/ast.rs\<close>): the syntax tree and the two visitor traits with their
    walks, tied by a recursion depth; the two walks agree and any depth above the size is enough.
  \<^item> \<open>Literals\<close>, \<open>Desugar\<close>, \<open>ParserState\<close>, \<open>ParseExpr\<close>, \<open>ParseItem\<close>, \<open>ParseTotal\<close>
    (\<open>paco-syntax/src/parse.rs\<close>): the values of literals, the translation of loops, the parser's state
    and primitives, and every production.  A parsing function returns a value, \<open>ParseError\<close>, a panic,
    or the report that its bound was too small; \<open>?\<close> is \<open>and_then\<close>, loops are \<open>iterate\<close>, and
    recursive calls go through the record \<open>px\<close>.  \<open>parsers n\<close> bounds the depth of recursion by \<open>n\<close> and
    each loop by \<open>n + 1\<close> rounds.  \<open>ParseTotal\<close> shows, production by production, that the number of tokens
    is a sufficient bound and that no larger one changes the result, that the parser never panics on
    tokens that end with the end of the file, and that it never fails without a report.
  \<^item> \<open>Resolve\<close> (\<open>paco-resolve/src/lib.rs\<close>): scopes, bindings of patterns, expressions, templates and
    modules.  What it reports is compared with a definition of unbound names that has no scopes, no
    identities and no mutation.
  \<^item> \<open>MatchCheck\<close> (\<open>paco-match/src/lib.rs\<close>): coverage of arms by constructors.  Accepted matches are
    exhaustive, arms reported as unreachable are so, and a missing case that is named is missing,
    against the meaning of patterns on values.
  \<^item> \<open>Types\<close>, \<open>Dims\<close>, \<open>DimUnify\<close> (core of \<open>paco-types/src/lib.rs\<close>, \<open>paco-types/src/dims.rs\<close>): integer
    widths and constants, the arena of interned polynomials with overflow to opaque terms, rendering,
    substitution, verdicts, unification.  Everything is related to the value of a polynomial
    under an assignment of its parameters.
  \<^item> \<open>TypeUnify\<close> (\<open>paco-types/src/lib.rs\<close>, \<open>paco-types/src/named.rs\<close>): equality, names and erasure of types,
    compatibility, substitution, unification and the join of branch types.  Against a concrete type
    unification is first-order matching, sound, complete and terminating; two theorems show where it
    is not, between parameters of the callee and of the caller.
  \<^item> \<open>Ieee\<close>, \<open>Floats\<close> (\<open>paco-types/src/floats.rs\<close>, \<open>runtime/paco-runtime/src/float.rs\<close>): double and single
    precision floats as words of bits, with rounding to nearest in units of the least positive double, and
    the reduced-precision formats.  Narrow values survive widening, narrowing rounds to nearest, and the
    runtime converts as the compiler does.
  \<^item> \<open>Mir\<close>, \<open>Scalars\<close>, \<open>ConstFold\<close> (\<open>paco-mir/src/body.rs\<close>, \<open>paco-comptime/src/machine.rs\<close>,
    \<open>paco-mir/src/lower.rs\<close>): the lowered form, the operations of the compile-time machine on the bytes of
    scalars, and the folding of constant initializers.  Folding computes what the machine computes, and
    panics where the machine reports an error; one theorem shows where folding panics and should not.
  \<^item> \<open>Memory\<close> (\<open>paco-comptime/src/machine.rs\<close>): the allocations and addresses of the compile-time machine,
    which refine a partial map from blocks and offsets to bytes and only grow.
  \<^item> \<open>Layout\<close> (\<open>paco-mir/src/layout.rs\<close>): sizes, alignments and offsets of structs; fields are aligned and
    disjoint, and the default order wastes nothing.
  \<^item> \<open>TypeLayouts\<close> (\<open>paco-mir/src/type_layout.rs\<close>): the layouts of instantiated structs and enums, with the
    declarations, the caches and the guard against recursion as one state.  The locale \<open>layout_provider\<close>
    says what the layout of an aggregate relies on, and is interpreted by \<open>layout_of\<close> at every depth.
    Fields, payloads, discriminant and drop flag do not overlap, a layout that was found stays, and one
    theorem shows a type that the cap on instantiations does not stop.
  \<^item> \<open>Instantiations\<close> (\<open>paco-mir/src/lower.rs\<close>): the symbols of generic instances and the registry of
    instances and compile-time blocks.  Every instance asked for is handed out once, in order; one theorem
    shows two instances with the same symbol.
  \<^item> \<open>Glue\<close> (\<open>paco-mir/src/glue.rs\<close>): which types own storage, the offsets drop and clone glue work with, and
    the owning types of a program.
  \<^item> \<open>Quotes\<close> (\<open>paco-mir/src/comptime.rs\<close>, \<open>paco-comptime/src/quote.rs\<close>): the splice sites of a code template,
    substitution of values there, joining of code and types as syntax.  Substitution and the search for
    sites, two traversals written apart, agree.
  \<^item> \<open>MachineState\<close>, \<open>Machine\<close>, \<open>MachineRuns\<close> (\<open>paco-comptime/src/machine.rs\<close>, \<open>paco-comptime/src/lib.rs\<close>): the
    compile-time machine: frames, places and operands, owned values and their glue, statements,
    terminators, built-in functions, calls, and values in and out.  A computation maps a machine to
    an outcome and a machine.  The locale \<open>tame_evaluator\<close> says what evaluation promises to its parts,
    that frames and depth come back and the instruction budget holds, and \<open>deeper_evaluator\<close> that a
    deeper evaluator agrees with a shallower one; both are interpreted by \<open>evaluators\<close> at every depth.
    Runs keep their limits, endless code is stopped, calls stay in the sandbox, and one theorem shows a
    type the machine takes for one it owns.
  \<^item> \<open>Sync\<close>, \<open>Channel\<close>, \<open>Join\<close>, \<open>Scheduler\<close> (\<open>runtime/paco-runtime/src\<close>: \<open>sync.rs\<close>, \<open>task.rs\<close>, \<open>channel.rs\<close>,
    \<open>join.rs\<close>, \<open>scheduler.rs\<close>): each critical section is one step of a process, processes are
    interleaved in any order, and invariants are shown of every reachable state.  A channel is a
    bounded queue, closing is final, and no wakeup is lost by channels, by join handles or by
    waiting for idleness.
  \<^item> \<open>Text\<close> (\<open>text.rs\<close>, \<open>sort.rs\<close> of the runtime): the helpers on strings as UTF-8 bytes, related to the
    characters they encode, and the stable sort of the bytes of a slice.

  \<^bold>\<open>Bounds.\<close> Where the source recurses or loops, the model recurses structurally, by a measure, or, in the
  visitors, the resolver and the parser, down to a depth it is given; a theorem of the theory says
  which depth is enough (the size of the tree, the number of tokens) and that more changes nothing.
  Unification of types may not end; its recursion is bounded by a number and \<open>None\<close> means the bound
  was too small, with a theorem on when it is enough.  The recursion of \<open>layout_of\<close> is bounded in the same
  way, and \<open>OutOfDepth\<close> is the report that the bound was too small.  In the compile-time machine the nesting
  of calls, glue and decoding goes down to a depth, with the outcome \<open>OutOfFuel\<close> below it, and the loop
  over blocks has one round more than the instruction budget; a theorem shows that neither bound changes a
  result.  The native stack is not modelled.

  \<^bold>\<open>Left open.\<close> The iteration order of hash sets, the rendering of floating point numbers and of debug
  strings, the text the formatter gives to code, the bodies and mathematical functions the compile-time machine
  uses (its record \<open>environment\<close>), and the queues and coroutines of third-party crates are parameters or are
  left out where no modelled code depends on them.

  \<^bold>\<open>Not modelled\<close>: the type checker proper, borrow checking, the lowering of functions and automatic
  differentiation, which build on one another in this order; the
  formatter; the code generators, the linker and the driver, whose work is done by libraries,
  processes and the file system; input, output and the foreign interface of the runtime.  The manifest lists
  each with its sources.
\<close>

end
